(* ===== verification/Zbox_Prelude.thy ===== *)
theory Zbox_Prelude
  imports Main "HOL-Library.Word"
begin

text \<open>
  Shared vocabulary of the development: the outcome of a Rust call, the combinators the
  models are composed with, the collections of rewrite rules the component proofs use, and
  the generic facts on lists that several components need.

  A Rust function that returns \<open>Result\<close> and may also panic (a failed \<open>assert!\<close>, an
  \<open>unwrap\<close> on \<open>None\<close>, an index out of range, a debug arithmetic underflow) has three
  outcomes, which are the three constructors of \<open>result\<close>.
\<close>

named_theorems zbox_defs
named_theorems result_simps

datatype ('a, 'e) result = Ok 'a | Err 'e | Panic

text \<open>The question mark operator: stop at the first error (or panic) and pass it on.\<close>

fun bind_r :: "('a, 'e) result \<Rightarrow> ('a \<Rightarrow> ('b, 'e) result) \<Rightarrow> ('b, 'e) result" where
  "bind_r (Ok x) f = f x"
| "bind_r (Err e) f = Err e"
| "bind_r Panic f = Panic"

text \<open>\<open>assert!\<close>, \<open>Option::unwrap\<close> and \<open>Option::ok_or\<close>.\<close>

definition assert_r :: "bool \<Rightarrow> ('a, 'e) result \<Rightarrow> ('a, 'e) result" where
  "assert_r b r = (if b then r else Panic)"

definition unwrap_opt :: "'a option \<Rightarrow> ('a, 'e) result" where
  "unwrap_opt o1 = (case o1 of None \<Rightarrow> Panic | Some x \<Rightarrow> Ok x)"

definition ok_or :: "'a option \<Rightarrow> 'e \<Rightarrow> ('a, 'e) result" where
  "ok_or o1 e = (case o1 of None \<Rightarrow> Err e | Some x \<Rightarrow> Ok x)"

text \<open>Indexing a slice: out of range panics.\<close>

definition nth_r :: "'a list \<Rightarrow> nat \<Rightarrow> ('a, 'e) result" where
  "nth_r xs i = (if i < length xs then Ok (xs ! i) else Panic)"

text \<open>Unsigned subtraction: below zero panics.\<close>

definition sub_r :: "nat \<Rightarrow> nat \<Rightarrow> (nat, 'e) result" where
  "sub_r a b = (if b \<le> a then Ok (a - b) else Panic)"

text \<open>\<open>Iterator::position\<close> and \<open>Iterator::find\<close>: the first element that satisfies a test.\<close>

fun position :: "('a \<Rightarrow> bool) \<Rightarrow> 'a list \<Rightarrow> nat option" where
  "position P [] = None"
| "position P (x # xs) = (if P x then Some 0 else map_option Suc (position P xs))"

text \<open>\<open>slice::chunks(n)\<close>: consecutive pieces of length \<open>n\<close>, the last one possibly shorter.\<close>

function chunks :: "nat \<Rightarrow> 'a list \<Rightarrow> 'a list list" where
  "chunks n xs = (if n = 0 \<or> xs = [] then [] else take n xs # chunks n (drop n xs))"
  by pat_completeness auto
termination
  by (relation "measure (\<lambda>(n, xs). length xs)") auto

declare chunks.simps [simp del]

lemma bind_r_Ok_iff [result_simps]:
  "bind_r r f = Ok y \<longleftrightarrow> (\<exists>x. r = Ok x \<and> f x = Ok y)"
  by (cases r) auto

lemma bind_r_Err_iff [result_simps]:
  "bind_r r f = Err e \<longleftrightarrow> r = Err e \<or> (\<exists>x. r = Ok x \<and> f x = Err e)"
  by (cases r) auto

lemma bind_r_assoc: "bind_r (bind_r r f) g = bind_r r (\<lambda>x. bind_r (f x) g)"
  by (cases r) auto

lemma bind_r_cong [fundef_cong]:
  "r = s \<Longrightarrow> (\<And>x. s = Ok x \<Longrightarrow> f x = g x) \<Longrightarrow> bind_r r f = bind_r s g"
  by (cases s) auto

lemma assert_r_Ok_iff [result_simps]: "assert_r b r = Ok y \<longleftrightarrow> b \<and> r = Ok y"
  by (simp add: assert_r_def)

lemma unwrap_opt_Ok_iff [result_simps]: "unwrap_opt o1 = Ok y \<longleftrightarrow> o1 = Some y"
  by (simp add: unwrap_opt_def split: option.splits)

lemma ok_or_Ok_iff [result_simps]: "ok_or o1 e = Ok y \<longleftrightarrow> o1 = Some y"
  by (simp add: ok_or_def split: option.splits)

lemma nth_r_Ok_iff [result_simps]: "nth_r xs i = Ok y \<longleftrightarrow> i < length xs \<and> xs ! i = y"
  by (simp add: nth_r_def)

lemma sub_r_Ok_iff [result_simps]: "sub_r a b = Ok y \<longleftrightarrow> b \<le> a \<and> y = a - b"
  by (auto simp add: sub_r_def)

lemma position_Some_iff:
  "position P xs = Some i \<longleftrightarrow> i < length xs \<and> P (xs ! i) \<and> (\<forall>j < i. \<not> P (xs ! j))"
proof (induction xs arbitrary: i)
  case Nil
  then show ?case by simp
next
  case (Cons x xs)
  show ?case
    by (cases i) (auto simp: Cons.IH less_Suc_eq_0_disj)
qed

lemma position_None_iff: "position P xs = None \<longleftrightarrow> (\<forall>x \<in> set xs. \<not> P x)"
  by (induction xs) auto

lemma chunks_Nil [simp]: "chunks n [] = []"
  by (simp add: chunks.simps)

lemma chunks_step: "n > 0 \<Longrightarrow> xs \<noteq> [] \<Longrightarrow> chunks n xs = take n xs # chunks n (drop n xs)"
  by (subst chunks.simps) simp

lemma concat_chunks: "n > 0 \<Longrightarrow> concat (chunks n xs) = xs"
proof (induction n xs rule: chunks.induct)
  case (1 n xs)
  then show ?case
    by (cases "xs = []") (simp_all add: chunks_step)
qed

lemma chunks_length: "n > 0 \<Longrightarrow> c \<in> set (chunks n xs) \<Longrightarrow> 0 < length c \<and> length c \<le> n"
proof (induction n xs rule: chunks.induct)
  case (1 n xs)
  show ?case
  proof (cases "xs = []")
    case True
    with "1.prems" show ?thesis by simp
  next
    case False
    with 1 show ?thesis by (auto simp: chunks_step)
  qed
qed

lemma chunks_small: "xs \<noteq> [] \<Longrightarrow> length xs \<le> n \<Longrightarrow> chunks n xs = [xs]"
  by (cases xs) (simp_all add: chunks_step)

lemma chunks_append:
  assumes "0 < n" and "n dvd length xs"
  shows "chunks n (xs @ ys) = chunks n xs @ chunks n ys"
  using assms(2)
proof (induction "length xs" arbitrary: xs rule: less_induct)
  case less
  show ?case
  proof (cases "xs = []")
    case False
    then have "n \<le> length xs" using less.prems by (simp add: dvd_imp_le)
    moreover from this less.prems have "n dvd length (drop n xs)" by (simp add: dvd_diff_nat)
    ultimately have "chunks n (drop n xs @ ys) = chunks n (drop n xs) @ chunks n ys"
      using assms(1) False by (intro less.hyps) auto
    with False assms(1) \<open>n \<le> length xs\<close> show ?thesis by (simp add: chunks_step)
  qed simp
qed

lemma nth_chunks:
  assumes "0 < n" and "i * n < length xs"
  shows "i < length (chunks n xs) \<and> chunks n xs ! i = take n (drop (i * n) xs)"
  using assms(2)
proof (induction i arbitrary: xs)
  case 0
  then show ?case using assms(1) by (simp add: chunks_step)
next
  case (Suc i)
  then have "i * n < length (drop n xs)" by simp
  from Suc.IH [OF this] Suc.prems assms(1) show ?case
    by (cases "xs = []") (auto simp: chunks_step add.commute)
qed

lemma length_chunks_le:
  assumes "0 < n" and "i < length (chunks n xs)"
  shows "i * n < length xs"
  using assms(2)
proof (induction i arbitrary: xs)
  case 0
  then show ?case by (cases xs) auto
next
  case (Suc i)
  then have "xs \<noteq> []" by auto
  with Suc.prems assms(1) have "i < length (chunks n (drop n xs))" by (simp add: chunks_step)
  from Suc.IH [OF this] show ?case by simp
qed

lemma sum_list_map_append: "sum_list (map f (xs @ ys)) = sum_list (map f xs) + (sum_list (map f ys) :: nat)"
  by simp

lemma filter_key_None: "map_of xs k = None \<Longrightarrow> filter (\<lambda>p. fst p \<noteq> k) xs = xs"
  by (induction xs) auto

lemma map_of_filter_key:
  "map_of (filter (\<lambda>p. fst p \<noteq> k) xs) j = (if j = k then None else map_of xs j)"
  by (induction xs) auto

lemma distinct_keys_filter: "distinct (map fst xs) \<Longrightarrow> distinct (map fst (filter P xs))"
  by (induction xs) auto

end
