(* ===== verification/Zbox_Error.thy ===== *)
theory Zbox_Error
  imports Zbox_Prelude
begin

text \<open>
  \<open>src/src/error.rs\<close>: the \<open>Error\<close> enumeration, its numeric codes (\<open>Into<i32>\<close>) and its
  equality (\<open>PartialEq\<close>), with the variants that the optional storage back ends and targets add.
  The payloads of \<open>Encode\<close>, \<open>Decode\<close>, \<open>Var\<close>, \<open>Http\<close> and \<open>Json\<close> are values of other crates,
  which the code only carries: they are kept as their description. An \<open>std::io::Error\<close> is kept as
  its kind and its message, and an error of sqlite, redis, reqwest or jni as the value that its
  comparison looks at (result code, kind, status, description of the kind) and its description.
\<close>

datatype io_kind = IoNotFound | IoPermissionDenied | IoOther | IoKind nat

record io_error =
  kind :: io_kind
  message :: string

datatype error =
    RefOverflow | RefUnderflow
  | InitCrypto | NoAesHardware | Hashing | InvalidCost | InvalidCipher | Encrypt | Decrypt
  | InvalidUri | InvalidSuperBlk | Corrupted | WrongVersion | NoEntity | NotInSync
  | RepoOpened | RepoClosed | RepoExists
  | InTrans | NotInTrans | NoTrans | Uncompleted | InUse
  | NoContent
  | InvalidArgument | InvalidPath | NotFound | AlreadyExists | IsRoot | IsDir | IsFile
  | NotDir | NotFile | NotEmpty | NoVersion
  | ReadOnly | CannotRead | CannotWrite | NotWrite | NotFinish | Closed
  | Encode string | Decode string | Var string | Io io_error
  | Sqlite int string | Redis nat string | Http string | HttpStatus nat | Json string
  | Reqwest "nat option" string | Jni string string | RequestError

type_synonym 'a res = "('a, error) result"
type_synonym 'a io_res = "('a, io_error) result"

fun into_i32 :: "error \<Rightarrow> int" where
  "into_i32 RefOverflow = -1000"
| "into_i32 RefUnderflow = -1001"
| "into_i32 InitCrypto = -1010"
| "into_i32 NoAesHardware = -1011"
| "into_i32 Hashing = -1012"
| "into_i32 InvalidCost = -1013"
| "into_i32 InvalidCipher = -1014"
| "into_i32 Encrypt = -1015"
| "into_i32 Decrypt = -1016"
| "into_i32 InvalidUri = -1020"
| "into_i32 InvalidSuperBlk = -1021"
| "into_i32 Corrupted = -1022"
| "into_i32 WrongVersion = -1023"
| "into_i32 NoEntity = -1024"
| "into_i32 NotInSync = -1025"
| "into_i32 RepoOpened = -1026"
| "into_i32 RepoClosed = -1027"
| "into_i32 RepoExists = -1028"
| "into_i32 InTrans = -1030"
| "into_i32 NotInTrans = -1031"
| "into_i32 NoTrans = -1032"
| "into_i32 Uncompleted = -1033"
| "into_i32 InUse = -1034"
| "into_i32 NoContent = -1040"
| "into_i32 InvalidArgument = -1050"
| "into_i32 InvalidPath = -1051"
| "into_i32 NotFound = -1052"
| "into_i32 AlreadyExists = -1053"
| "into_i32 IsRoot = -1054"
| "into_i32 IsDir = -1055"
| "into_i32 IsFile = -1056"
| "into_i32 NotDir = -1057"
| "into_i32 NotFile = -1058"
| "into_i32 NotEmpty = -1059"
| "into_i32 NoVersion = -1060"
| "into_i32 ReadOnly = -1070"
| "into_i32 CannotRead = -1071"
| "into_i32 CannotWrite = -1072"
| "into_i32 NotWrite = -1073"
| "into_i32 NotFinish = -1074"
| "into_i32 Closed = -1075"
| "into_i32 (Encode _) = -2000"
| "into_i32 (Decode _) = -2010"
| "into_i32 (Var _) = -2020"
| "into_i32 (Io _) = -2030"
| "into_i32 (Sqlite _ _) = -2040"
| "into_i32 (Redis _ _) = -2050"
| "into_i32 (Http _) = -2060"
| "into_i32 (HttpStatus _) = -2061"
| "into_i32 (Json _) = -2062"
| "into_i32 (Reqwest _ _) = -2063"
| "into_i32 (Jni _ _) = -2064"
| "into_i32 RequestError = -2065"

text \<open>
  \<open>PartialEq\<close> lists the pairs of equal constructors, compares two \<open>Io\<close> errors and two errors of a
  back end by their kind and answers false on every other pair; \<open>Http\<close> and \<open>Json\<close> are not listed,
  so that such an error is not even equal to itself.
\<close>

definition error_eq :: "error \<Rightarrow> error \<Rightarrow> bool" where
  "error_eq a b = (case a of
       Encode _ \<Rightarrow> (case b of Encode _ \<Rightarrow> True | _ \<Rightarrow> False)
     | Decode _ \<Rightarrow> (case b of Decode _ \<Rightarrow> True | _ \<Rightarrow> False)
     | Var _ \<Rightarrow> (case b of Var _ \<Rightarrow> True | _ \<Rightarrow> False)
     | Io x \<Rightarrow> (case b of Io y \<Rightarrow> kind x = kind y | _ \<Rightarrow> False)
     | Sqlite x _ \<Rightarrow> (case b of Sqlite y _ \<Rightarrow> x = y | _ \<Rightarrow> False)
     | Redis x _ \<Rightarrow> (case b of Redis y _ \<Rightarrow> x = y | _ \<Rightarrow> False)
     | Reqwest x _ \<Rightarrow> (case b of Reqwest y _ \<Rightarrow> x = y | _ \<Rightarrow> False)
     | Jni x _ \<Rightarrow> (case b of Jni y _ \<Rightarrow> x = y | _ \<Rightarrow> False)
     | Http _ \<Rightarrow> False
     | Json _ \<Rightarrow> False
     | _ \<Rightarrow> a = b)"

definition io_error_new :: "io_kind \<Rightarrow> string \<Rightarrow> io_error" where
  "io_error_new k m = \<lparr>kind = k, message = m\<rparr>"

text \<open>
  The macro \<open>from_io_err!\<close> of \<open>lib.rs\<close>: an I/O error of kind \<open>NotFound\<close> becomes
  \<open>Error::NotFound\<close>, any other is wrapped. \<open>From<IoError>\<close>, which the plain question mark
  operator uses, always wraps.
\<close>

definition from_io_error :: "io_error \<Rightarrow> error" where
  "from_io_error e = Io e"

fun from_io_err :: "'a io_res \<Rightarrow> 'a res" where
  "from_io_err (Ok x) = Ok x"
| "from_io_err (Err e) = (if kind e = IoNotFound then Err NotFound else Err (from_io_error e))"
| "from_io_err Panic = Panic"

text \<open>\<open>Display\<close> for the payload-free variants, as \<open>description\<close> renders them.\<close>

fun description :: "error \<Rightarrow> string" where
  "description RefOverflow = ''Refcnt overflow''"
| "description RefUnderflow = ''Refcnt underflow''"
| "description InitCrypto = ''Initialise crypto error''"
| "description NoAesHardware = ''No AES hardware''"
| "description Hashing = ''Hashing out of memory''"
| "description InvalidCost = ''Invalid cost''"
| "description InvalidCipher = ''Invalid cipher''"
| "description Encrypt = ''Encrypt error''"
| "description Decrypt = ''Decrypt error''"
| "description InvalidUri = ''Invalid Uri''"
| "description InvalidSuperBlk = ''Invalid super block''"
| "description Corrupted = ''Volume is corrupted''"
| "description WrongVersion = ''Version not match''"
| "description NoEntity = ''Entity not found''"
| "description NotInSync = ''Repo is not in sync''"
| "description RepoOpened = ''Repo is opened''"
| "description RepoClosed = ''Repo is closed''"
| "description RepoExists = ''Repo already exists''"
| "description InTrans = ''Already in transaction''"
| "description NotInTrans = ''Not in transaction''"
| "description NoTrans = ''Transaction not found''"
| "description Uncompleted = ''Transaction uncompleted''"
| "description InUse = ''Entity is in use''"
| "description NoContent = ''Content not found''"
| "description InvalidArgument = ''Invalid argument''"
| "description InvalidPath = ''Invalid path''"
| "description NotFound = ''File not found''"
| "description AlreadyExists = ''File already exists''"
| "description IsRoot = ''File is root''"
| "description IsDir = ''Path is dir''"
| "description IsFile = ''Path is file''"
| "description NotDir = ''Path is not dir''"
| "description NotFile = ''Path is not file''"
| "description NotEmpty = ''Directory is not empty''"
| "description NoVersion = ''File has no version''"
| "description ReadOnly = ''Opened as read only''"
| "description CannotRead = ''Cannot read file''"
| "description CannotWrite = ''Cannot write file''"
| "description NotWrite = ''File does not write yet''"
| "description NotFinish = ''File does not finish yet''"
| "description Closed = ''File is closed''"
| "description (Encode m) = m"
| "description (Decode m) = m"
| "description (Var m) = m"
| "description (Io e) = message e"
| "description (Sqlite _ m) = m"
| "description (Redis _ m) = m"
| "description (Http m) = m"
| "description (HttpStatus _) = ''Http status error''"
| "description (Json m) = m"
| "description (Reqwest _ m) = m"
| "description (Jni _ m) = m"
| "description RequestError = ''Http request error''"

text \<open>The macro \<open>map_io_err!\<close> of \<open>lib.rs\<close>: any error becomes an I/O error of kind \<open>Other\<close>.\<close>

fun map_io_err :: "'a res \<Rightarrow> 'a io_res" where
  "map_io_err (Ok x) = Ok x"
| "map_io_err (Err e) = Err (io_error_new IoOther (description e))"
| "map_io_err Panic = Panic"

lemma error_eq_plain:
  "error_eq e NotFound \<longleftrightarrow> e = NotFound" "error_eq NotFound e \<longleftrightarrow> e = NotFound"
  by (cases e; simp add: error_eq_def)+

text \<open>
  Two errors that \<open>PartialEq\<close> calls equal have the same numeric code and, where they carry one, the
  same kind. The converse does not hold: \<open>Http\<close> and \<open>Json\<close> errors are equal to nothing.
\<close>

fun error_kind :: "error \<Rightarrow> io_kind option \<times> int option \<times> nat option \<times> string option" where
  "error_kind (Io x) = (Some (kind x), None, None, None)"
| "error_kind (Sqlite c _) = (None, Some c, None, None)"
| "error_kind (Redis k _) = (None, None, Some k, None)"
| "error_kind (HttpStatus c) = (None, None, Some c, None)"
| "error_kind (Reqwest c _) = (None, None, c, None)"
| "error_kind (Jni d _) = (None, None, None, Some d)"
| "error_kind _ = (None, None, None, None)"

lemma error_eq_code: "error_eq a b \<Longrightarrow> into_i32 a = into_i32 b \<and> error_kind a = error_kind b"
  by (cases a) (auto simp: error_eq_def split: error.splits)

lemma http_error_not_reflexive: "\<not> error_eq (Http m) (Http m)" "\<not> error_eq (Json m) (Json m)"
  by (simp_all add: error_eq_def)

end
