(* ===== verification/Linked_Hash_Map.thy ===== *)
theory Linked_Hash_Map
  imports Zbox_Error
begin

text \<open>
  The interface of the crate \<open>linked_hash_map\<close>, which is not part of the repository. A map
  is observed as the list of its entries in iteration order. The operations that change a map
  are the fields of a record that every model using such a map takes as an argument, and the
  locale \<open>linked_hash_map\<close> states what the crate documents of them: \<open>insert\<close> binds the key,
  keeps the order of the other entries and puts a new key at the end; \<open>get_refresh\<close> moves
  the entry it finds to the end; \<open>remove\<close> drops the entry; \<open>pop_front\<close> drops the oldest
  one. (Where \<open>insert\<close> puts a key that is already there is left open.)
\<close>

type_synonym ('k, 'v) lhm = "('k \<times> 'v) list"

record ('k, 'v) lhm_ops =
  lhm_insert :: "('k, 'v) lhm \<Rightarrow> 'k \<Rightarrow> 'v \<Rightarrow> ('k, 'v) lhm"
  lhm_refresh :: "('k, 'v) lhm \<Rightarrow> 'k \<Rightarrow> ('k, 'v) lhm"
  lhm_remove :: "('k, 'v) lhm \<Rightarrow> 'k \<Rightarrow> ('k, 'v) lhm"
  lhm_pop_front :: "('k, 'v) lhm \<Rightarrow> ('k, 'v) lhm"

abbreviation keys :: "('k, 'v) lhm \<Rightarrow> 'k list" where
  "keys m \<equiv> map fst m"

abbreviation lhm_values :: "('k, 'v) lhm \<Rightarrow> 'v list" where
  "lhm_values m \<equiv> map snd m"

text \<open>The entries of \<open>m\<close> other than that of \<open>k\<close>.\<close>

abbreviation others :: "('k, 'v) lhm \<Rightarrow> 'k \<Rightarrow> ('k, 'v) lhm" where
  "others m k \<equiv> filter (\<lambda>p. fst p \<noteq> k) m"

text \<open>
  \<open>entries()\<close> followed by \<open>remove\<close> on the entries that fail a test: the way the code
  writes a \<open>retain\<close>.
\<close>

definition lhm_retain :: "('k, 'v) lhm_ops \<Rightarrow> ('k \<Rightarrow> 'v \<Rightarrow> bool) \<Rightarrow> ('k, 'v) lhm \<Rightarrow> ('k, 'v) lhm" where
  "lhm_retain L P m =
     fold (\<lambda>p acc. if P (fst p) (snd p) then acc else lhm_remove L acc (fst p)) m m"

locale linked_hash_map =
  fixes L :: "('k, 'v) lhm_ops"
  assumes insert_others: "distinct (keys m) \<Longrightarrow> others (lhm_insert L m k v) k = others m k"
    and insert_self: "distinct (keys m) \<Longrightarrow> map_of (lhm_insert L m k v) k = Some v"
    and insert_distinct: "distinct (keys m) \<Longrightarrow> distinct (keys (lhm_insert L m k v))"
    and insert_fresh: "distinct (keys m) \<Longrightarrow> k \<notin> set (keys m) \<Longrightarrow> lhm_insert L m k v = m @ [(k, v)]"
    and refresh_found: "distinct (keys m) \<Longrightarrow> map_of m k = Some v \<Longrightarrow>
          lhm_refresh L m k = others m k @ [(k, v)]"
    and refresh_missing: "distinct (keys m) \<Longrightarrow> map_of m k = None \<Longrightarrow> lhm_refresh L m k = m"
    and remove_others: "distinct (keys m) \<Longrightarrow> lhm_remove L m k = others m k"
    and pop_front_tl: "distinct (keys m) \<Longrightarrow> lhm_pop_front L m = tl m"
begin

lemma map_of_insert:
  assumes "distinct (keys m)"
  shows "map_of (lhm_insert L m k v) = (map_of m)(k \<mapsto> v)"
proof
  fix j
  show "map_of (lhm_insert L m k v) j = ((map_of m)(k \<mapsto> v)) j"
    using map_of_filter_key [of k "lhm_insert L m k v" j] map_of_filter_key [of k m j]
    by (cases "j = k") (simp_all add: assms insert_others insert_self)
qed

lemma map_of_refresh: "distinct (keys m) \<Longrightarrow> map_of (lhm_refresh L m k) = map_of m"
  by (cases "map_of m k")
    (auto simp: refresh_found refresh_missing fun_eq_iff map_of_filter_key map_add_def
      split: option.splits)

lemma map_of_remove: "distinct (keys m) \<Longrightarrow> map_of (lhm_remove L m k) = (map_of m)(k := None)"
  by (auto simp: remove_others fun_eq_iff map_of_filter_key)

lemma refresh_distinct: "distinct (keys m) \<Longrightarrow> distinct (keys (lhm_refresh L m k))"
  by (cases "map_of m k") (auto simp: refresh_found refresh_missing distinct_keys_filter)

lemma remove_distinct: "distinct (keys m) \<Longrightarrow> distinct (keys (lhm_remove L m k))"
  by (simp add: remove_others distinct_keys_filter)

lemmas lhm_distinct = insert_distinct refresh_distinct remove_distinct

lemma retain_fold:
  assumes "distinct (keys acc)"
  shows "fold (\<lambda>p acc. if P (fst p) (snd p) then acc else lhm_remove L acc (fst p)) xs acc =
    filter (\<lambda>q. \<forall>p \<in> set xs. fst p = fst q \<longrightarrow> P (fst p) (snd p)) acc"
  using assms
proof (induction xs arbitrary: acc)
  case Nil
  then show ?case by simp
next
  case (Cons p xs)
  have "distinct (keys (if P (fst p) (snd p) then acc else lhm_remove L acc (fst p)))"
    using Cons.prems by (simp add: remove_distinct)
  note IH = Cons.IH [OF this]
  show ?case
    by (auto simp: IH remove_others Cons.prems intro!: filter_cong)
qed

lemma retain_filter:
  assumes "distinct (keys m)"
  shows "lhm_retain L P m = filter (\<lambda>q. P (fst q) (snd q)) m"
proof -
  have "(\<forall>p \<in> set m. fst p = fst q \<longrightarrow> P (fst p) (snd p)) \<longleftrightarrow> P (fst q) (snd q)"
    if "q \<in> set m" for q
    using that assms by (metis eq_key_imp_eq_value prod.collapse)
  then show ?thesis
    by (auto simp: lhm_retain_def retain_fold assms intro!: filter_cong)
qed

end

text \<open>
  A reference instance on association lists, which moves a re-inserted key to the end. It
  shows that the documented laws can hold together and is what concrete instances of the
  theorems evaluate.
\<close>

definition list_lhm :: "('k, 'v) lhm_ops" where
  "list_lhm =
     \<lparr>lhm_insert = (\<lambda>m k v. others m k @ [(k, v)]),
      lhm_refresh = (\<lambda>m k. case map_of m k of None \<Rightarrow> m | Some v \<Rightarrow> others m k @ [(k, v)]),
      lhm_remove = (\<lambda>m k. others m k),
      lhm_pop_front = tl\<rparr>"

interpretation list_map: linked_hash_map "list_lhm :: ('k, 'v) lhm_ops"
proof unfold_locales
  fix m :: "('k, 'v) lhm" and k :: 'k and v :: 'v
  assume d: "distinct (keys m)"
  show "others (lhm_insert list_lhm m k v) k = others m k"
    by (simp add: list_lhm_def)
  show "map_of (lhm_insert list_lhm m k v) k = Some v"
    by (simp add: list_lhm_def map_add_def map_of_filter_key)
  show "distinct (keys (lhm_insert list_lhm m k v))"
    using d by (auto simp: list_lhm_def distinct_keys_filter)
  show "lhm_insert list_lhm m k v = m @ [(k, v)]" if "k \<notin> set (keys m)"
    using that by (simp add: list_lhm_def filter_key_None map_of_eq_None_iff)
  show "lhm_refresh list_lhm m k = others m k @ [(k, v)]" if "map_of m k = Some v"
    using that by (simp add: list_lhm_def)
  show "lhm_refresh list_lhm m k = m" if "map_of m k = None"
    using that by (simp add: list_lhm_def)
qed (simp_all add: list_lhm_def)

end
