(* ===== verification/Lru.thy ===== *)
theory Lru
  imports Linked_Hash_Map
begin

text \<open>
  \<open>src/src/base/lru.rs\<close>: the metered cache used for frames, addresses, copy-on-write
  objects, segment data, tabs and child nodes. A cache has a capacity, the total measure of
  its values (\<open>used\<close>) and a linked hash map whose iteration order is from the least to the
  most recently used entry. The meter and the pin test are the two trait objects of the Rust
  type and are arguments here, as are the operations \<open>L\<close> of the linked hash map.

  The counter is an unsigned machine word updated through \<open>isize\<close>, so the update is taken
  modulo \<open>2 ^ 64\<close>.
\<close>

record ('k, 'v) lru =
  capacity :: nat
  used :: nat
  lmap :: "('k, 'v) lhm"

definition lru_new :: "nat \<Rightarrow> ('k, 'v) lru" where
  "lru_new cap = \<lparr>capacity = cap, used = 0, lmap = []\<rparr>"

text \<open>\<open>(used as isize + delta) as usize\<close>\<close>

definition add_used :: "nat \<Rightarrow> int \<Rightarrow> nat" where
  "add_used u d = nat ((int u + d) mod 2 ^ 64)"

text \<open>The first entry in iteration order that is not pinned.\<close>

definition lru_victim :: "('v \<Rightarrow> bool) \<Rightarrow> ('k, 'v) lhm \<Rightarrow> ('k \<times> 'v) option" where
  "lru_victim pinned m = List.find (\<lambda>p. \<not> pinned (snd p)) m"

definition remove_lru ::
  "('k, 'v) lhm_ops \<Rightarrow> ('v \<Rightarrow> int) \<Rightarrow> ('v \<Rightarrow> bool) \<Rightarrow> ('k, 'v) lru \<Rightarrow> 'v option \<times> ('k, 'v) lru"
where
  "remove_lru L meter pinned c =
     (case lru_victim pinned (lmap c) of
        None \<Rightarrow> (None, c)
      | Some (k, v) \<Rightarrow>
          (Some v, c\<lparr>used := add_used (used c) (- meter v), lmap := lhm_remove L (lmap c) k\<rparr>))"

definition lru_insert ::
  "('k, 'v) lhm_ops \<Rightarrow> ('v \<Rightarrow> int) \<Rightarrow> ('v \<Rightarrow> bool) \<Rightarrow> ('k, 'v) lru \<Rightarrow> 'k \<Rightarrow> 'v \<Rightarrow>
   'v option \<times> ('k, 'v) lru"
where
  "lru_insert L meter pinned c k v =
     (let old = map_of (lmap c) k;
          delta = meter v - (case old of None \<Rightarrow> 0 | Some w \<Rightarrow> meter w);
          c1 = c\<lparr>used := add_used (used c) delta, lmap := lhm_insert L (lmap c) k v\<rparr>;
          c2 = (if used c1 > capacity c1 then snd (remove_lru L meter pinned c1) else c1)
      in (old, c2))"

definition contains_key :: "('k, 'v) lru \<Rightarrow> 'k \<Rightarrow> bool" where
  "contains_key c k = (map_of (lmap c) k \<noteq> None)"

definition get_refresh :: "('k, 'v) lhm_ops \<Rightarrow> ('k, 'v) lru \<Rightarrow> 'k \<Rightarrow> 'v option \<times> ('k, 'v) lru" where
  "get_refresh L c k = (map_of (lmap c) k, c\<lparr>lmap := lhm_refresh L (lmap c) k\<rparr>)"

definition lru_remove ::
  "('k, 'v) lhm_ops \<Rightarrow> ('v \<Rightarrow> int) \<Rightarrow> ('k, 'v) lru \<Rightarrow> 'k \<Rightarrow> 'v option \<times> ('k, 'v) lru"
where
  "lru_remove L meter c k =
     (case map_of (lmap c) k of
        None \<Rightarrow> (None, c)
      | Some v \<Rightarrow>
          (Some v, c\<lparr>used := add_used (used c) (- meter v), lmap := lhm_remove L (lmap c) k\<rparr>))"

text \<open>\<open>CountMeter\<close> and the default \<open>PinChecker\<close>.\<close>

definition count_meter :: "'v \<Rightarrow> int" where
  "count_meter v = 1"

definition no_pin :: "'v \<Rightarrow> bool" where
  "no_pin v = False"

subsection \<open>The invariant: the counter is the total measure\<close>

definition total :: "('v \<Rightarrow> int) \<Rightarrow> ('k, 'v) lhm \<Rightarrow> int" where
  "total meter m = sum_list (map (meter \<circ> snd) m)"

definition lru_ok :: "('v \<Rightarrow> int) \<Rightarrow> ('k, 'v) lru \<Rightarrow> bool" where
  "lru_ok meter c \<longleftrightarrow> distinct (keys (lmap c)) \<and> int (used c) = total meter (lmap c)"

lemma lru_ok_distinct [simp]: "lru_ok meter c \<Longrightarrow> distinct (keys (lmap c))"
  by (simp add: lru_ok_def)

lemma lru_ok_used: "lru_ok meter c \<Longrightarrow> int (used c) = total meter (lmap c)"
  by (simp add: lru_ok_def)

lemma lru_new_ok: "lru_ok meter (lru_new cap)"
  by (simp add: lru_ok_def lru_new_def total_def)

lemma total_nonneg: "(\<And>v. 0 \<le> meter v) \<Longrightarrow> 0 \<le> total meter m"
  by (auto simp: total_def intro!: sum_list_nonneg)

lemma total_split:
  assumes "distinct (keys m)"
  shows "total meter m = total meter (others m k) +
    (case map_of m k of None \<Rightarrow> 0 | Some v \<Rightarrow> meter v)"
  using assms
proof (induction m)
  case Nil
  then show ?case by (simp add: total_def)
next
  case (Cons p m)
  obtain j w where p: "p = (j, w)" by (cases p)
  have IH: "total meter m = total meter (others m k) +
      (case map_of m k of None \<Rightarrow> 0 | Some v \<Rightarrow> meter v)"
    using Cons by simp
  show ?case
  proof (cases "j = k")
    case True
    with Cons.prems p have "map_of m k = None" by (simp add: map_of_eq_None_iff)
    with True p show ?thesis by (simp add: total_def filter_key_None)
  next
    case False
    with IH p show ?thesis by (simp add: total_def)
  qed
qed

lemma total_others_le:
  assumes "distinct (keys m)" and "\<And>v. 0 \<le> meter v"
  shows "total meter (others m k) \<le> total meter m"
  using total_split [OF assms(1), of meter k] assms(2) by (auto split: option.splits)

lemma lru_victim_in: "lru_victim pinned m = Some (k, v) \<Longrightarrow> (k, v) \<in> set m"
  by (auto simp: lru_victim_def find_Some_iff)

lemma add_used_exact: "0 \<le> int u + d \<Longrightarrow> int u + d < 2 ^ 64 \<Longrightarrow> int (add_used u d) = int u + d"
  by (simp add: add_used_def)

context linked_hash_map
begin

lemma total_insert:
  assumes "distinct (keys m)"
  shows "total meter (lhm_insert L m k v) = total meter (others m k) + meter v"
  using total_split [OF insert_distinct [OF assms], of meter k v k]
  by (simp add: assms insert_others insert_self)

lemma total_remove:
  assumes "distinct (keys m)" and "map_of m k = Some v"
  shows "total meter (lhm_remove L m k) = total meter m - meter v"
  using total_split [OF assms(1), of meter k] by (simp add: assms remove_others)

lemma remove_lru_ok:
  assumes ok: "lru_ok meter c" and nn: "\<And>v. 0 \<le> meter v" and bd: "total meter (lmap c) < 2 ^ 64"
  shows "lru_ok meter (snd (remove_lru L meter pinned c))"
proof (cases "lru_victim pinned (lmap c)")
  case None
  with ok show ?thesis by (simp add: remove_lru_def)
next
  case (Some p)
  obtain k v where p: "p = (k, v)" by (cases p)
  have "map_of (lmap c) k = Some v"
    using Some p ok lru_victim_in by (metis lru_ok_distinct map_of_is_SomeI)
  then have t: "total meter (lhm_remove L (lmap c) k) = total meter (lmap c) - meter v"
    using ok by (simp add: total_remove)
  moreover have "0 \<le> total meter (lhm_remove L (lmap c) k)" by (rule total_nonneg [OF nn])
  moreover have "int (used c) = total meter (lmap c)" using ok by (rule lru_ok_used)
  ultimately have "int (add_used (used c) (- meter v)) = total meter (lmap c) - meter v"
    using bd nn [of v] by (subst add_used_exact) auto
  with Some p ok t show ?thesis
    by (simp add: remove_lru_def lru_ok_def remove_distinct)
qed

lemma lru_insert_ok:
  assumes ok: "lru_ok meter c" and nn: "\<And>v. 0 \<le> meter v"
    and bd: "total meter (lmap c) + meter v < 2 ^ 64"
  shows "lru_ok meter (snd (lru_insert L meter pinned c k v))"
proof -
  let ?d = "meter v - (case map_of (lmap c) k of None \<Rightarrow> 0 | Some w \<Rightarrow> meter w)"
  let ?c = "c\<lparr>used := add_used (used c) ?d, lmap := lhm_insert L (lmap c) k v\<rparr>"
  have t: "total meter (lmap ?c) = int (used c) + ?d"
    using total_split [of "lmap c" meter k] ok by (simp add: total_insert lru_ok_used)
  have nz: "0 \<le> int (used c) + ?d" using total_nonneg [where meter = meter and m = "lmap ?c", OF nn] t by simp
  have "?d \<le> meter v" using nn by (auto split: option.splits)
  then have lt: "int (used c) + ?d < 2 ^ 64"
    using bd ok by (simp add: lru_ok_used)
  have ok1: "lru_ok meter ?c"
    using t add_used_exact [OF nz lt] ok by (simp add: lru_ok_def insert_distinct)
  have "total meter (lmap ?c) < 2 ^ 64" using t lt by simp
  then show ?thesis
    using ok1 remove_lru_ok [OF ok1 nn] by (simp add: lru_insert_def Let_def)
qed

lemma lru_remove_ok:
  assumes ok: "lru_ok meter c" and nn: "\<And>v. 0 \<le> meter v" and bd: "total meter (lmap c) < 2 ^ 64"
  shows "lru_ok meter (snd (lru_remove L meter c k))"
proof (cases "map_of (lmap c) k")
  case None
  with ok show ?thesis by (simp add: lru_remove_def)
next
  case (Some v)
  then have t: "total meter (lhm_remove L (lmap c) k) = total meter (lmap c) - meter v"
    using ok by (simp add: total_remove)
  moreover have "0 \<le> total meter (lhm_remove L (lmap c) k)" by (rule total_nonneg [OF nn])
  ultimately have "int (add_used (used c) (- meter v)) = total meter (lmap c) - meter v"
    using bd ok nn [of v] by (subst add_used_exact) (auto simp: lru_ok_used)
  with Some ok t show ?thesis
    by (simp add: lru_remove_def lru_ok_def remove_distinct)
qed

lemma get_refresh_ok:
  assumes "lru_ok meter c"
  shows "lru_ok meter (snd (get_refresh L c k))"
proof (cases "map_of (lmap c) k")
  case None
  with assms show ?thesis by (simp add: get_refresh_def refresh_missing lru_ok_def)
next
  case (Some v)
  then have "total meter (lhm_refresh L (lmap c) k) = total meter (lmap c)"
    using assms total_split [of "lmap c" meter k]
    by (simp add: refresh_found) (simp add: total_def)
  with assms show ?thesis by (simp add: get_refresh_def lru_ok_def refresh_distinct)
qed

lemma length_others:
  "distinct (keys m) \<Longrightarrow> length m = length (others m k) + (if map_of m k = None then 0 else 1)"
proof (induction m)
  case Nil
  then show ?case by simp
next
  case (Cons p m)
  then show ?case
    by (cases "fst p = k") (auto simp: filter_key_None map_of_eq_None_iff image_iff)
qed

lemma length_insert:
  assumes "distinct (keys m)"
  shows "length (lhm_insert L m k v) = Suc (length (others m k))"
proof -
  show ?thesis
    using length_others [OF insert_distinct [OF assms], of k v k]
    by (simp add: assms insert_others insert_self)
qed

lemma last_insert_fresh:
  "distinct (keys m) \<Longrightarrow> map_of m k = None \<Longrightarrow> lhm_insert L m k v = m @ [(k, v)]"
  by (simp add: insert_fresh map_of_eq_None_iff)

text \<open>After an insertion everything is still found, except a victim that was not pinned.\<close>

lemma lru_insert_lookup:
  assumes "distinct (keys (lmap c))" and c': "c' = snd (lru_insert L meter pinned c k v)"
  shows "distinct (keys (lmap c'))"
    and "map_of (lmap c') j = Some x \<Longrightarrow> ((map_of (lmap c))(k \<mapsto> v)) j = Some x"
    and "map_of (lmap c') j = None \<Longrightarrow> ((map_of (lmap c))(k \<mapsto> v)) j = Some x \<Longrightarrow> \<not> pinned x"
proof -
  let ?m = "lhm_insert L (lmap c) k v"
  have d: "distinct (keys ?m)" using assms(1) by (rule insert_distinct)
  have mo: "map_of ?m = (map_of (lmap c))(k \<mapsto> v)" using assms(1) by (rule map_of_insert)
  have "lmap c' = ?m \<or> (\<exists>kk w. lru_victim pinned ?m = Some (kk, w) \<and> lmap c' = lhm_remove L ?m kk)"
    by (auto simp: c' lru_insert_def remove_lru_def Let_def split: option.splits)
  then consider "lmap c' = ?m" | kk w where "lru_victim pinned ?m = Some (kk, w)" "lmap c' = lhm_remove L ?m kk"
    by blast
  then have "distinct (keys (lmap c')) \<and> (\<forall>x. map_of (lmap c') j = Some x \<longrightarrow> map_of ?m j = Some x) \<and>
      (\<forall>x. map_of (lmap c') j = None \<longrightarrow> map_of ?m j = Some x \<longrightarrow> \<not> pinned x)"
  proof cases
    case 1
    with d show ?thesis by simp
  next
    case 2
    from 2(1) have "(kk, w) \<in> set ?m" "\<not> pinned w"
      unfolding lru_victim_def find_Some_iff by (metis nth_mem, metis snd_conv)
    then have "map_of ?m kk = Some w" using d by simp
    moreover have "map_of (lmap c') = (map_of ?m)(kk := None)" "distinct (keys (lmap c'))"
      using 2(2) d by (simp_all add: map_of_remove remove_distinct)
    ultimately show ?thesis using \<open>\<not> pinned w\<close> by (auto split: if_splits)
  qed
  then show "distinct (keys (lmap c'))"
    and "map_of (lmap c') j = Some x \<Longrightarrow> ((map_of (lmap c))(k \<mapsto> v)) j = Some x"
    and "map_of (lmap c') j = None \<Longrightarrow> ((map_of (lmap c))(k \<mapsto> v)) j = Some x \<Longrightarrow> \<not> pinned x"
    unfolding mo by blast+
qed

text \<open>Without pins, a value that fits into the cache is kept when it is inserted under a new key.\<close>

lemma lru_insert_keeps_new:
  assumes ok: "lru_ok meter c" and nn: "\<And>v. 0 \<le> meter v" and bd: "total meter (lmap c) + meter v < 2 ^ 64"
    and k: "map_of (lmap c) k = None" and fit: "meter v \<le> int (capacity c)"
  shows "map_of (lmap (snd (lru_insert L meter no_pin c k v))) k = Some v"
proof -
  have d: "distinct (keys (lmap c))" using ok by simp
  have m: "lhm_insert L (lmap c) k v = lmap c @ [(k, v)]" using d k by (rule last_insert_fresh)
  have self: "map_of (lmap c @ [(k, v)]) k = Some v" using k by (simp add: map_add_def)
  have u: "int (add_used (used c) (meter v)) = total meter (lmap c) + meter v"
    using lru_ok_used [OF ok] total_nonneg [where meter = meter and m = "lmap c", OF nn] nn [of v] bd
    by (subst add_used_exact) simp_all
  show ?thesis
  proof (cases "lmap c")
    case Nil
    then have "add_used (used c) (meter v) \<le> capacity c" using u fit by (simp add: total_def)
    with self k m show ?thesis by (simp add: lru_insert_def Let_def)
  next
    case (Cons p ps)
    then have "fst p \<noteq> k" using k by (cases p) (auto split: if_splits)
    moreover have "lru_victim no_pin (lmap c @ [(k, v)]) = Some p"
      using Cons by (simp add: lru_victim_def no_pin_def)
    moreover have "distinct (keys (lmap c @ [(k, v)]))" using insert_distinct [OF d, of k v] m by simp
    ultimately show ?thesis
      using self k m by (cases p) (simp add: lru_insert_def Let_def remove_lru_def map_of_remove)
  qed
qed

text \<open>With the count meter and no pins the cache never holds more than its capacity, and the
  entry just inserted is there.\<close>

lemma count_insert_bound:
  fixes c :: "('k, 'v) lru" and k :: 'k and v :: 'v
  assumes ok: "lru_ok count_meter c" and len: "length (lmap c) \<le> capacity c"
    and cap: "0 < capacity c" "capacity c < 2 ^ 63"
  defines "c' \<equiv> snd (lru_insert L count_meter no_pin c k v)"
  shows "lru_ok count_meter c' \<and> length (lmap c') \<le> capacity c' \<and> capacity c' = capacity c
    \<and> map_of (lmap c') k = Some v"
proof -
  have tl: "total count_meter m = int (length m)" for m :: "('k, 'v) lhm"
    by (induction m) (simp_all add: total_def count_meter_def)
  have ok': "lru_ok count_meter c'"
    unfolding c'_def using ok len cap by (intro lru_insert_ok) (simp_all add: count_meter_def tl)
  have u: "used c = length (lmap c)" using lru_ok_used [OF ok] by (simp add: tl)
  let ?m = "lhm_insert L (lmap c) k v"
  have d: "distinct (keys (lmap c))" "distinct (keys ?m)" using ok by (simp_all add: insert_distinct)
  show ?thesis
  proof (cases "map_of (lmap c) k")
    case (Some w)
    then have lm: "length ?m = length (lmap c)"
      using d length_others [of "lmap c" k] by (simp add: length_insert)
    have "c' = c\<lparr>used := used c, lmap := ?m\<rparr>"
      using Some len u cap
      by (simp add: c'_def lru_insert_def Let_def count_meter_def add_used_def)
    with lm len ok' d show ?thesis by (simp add: insert_self)
  next
    case None
    then have m: "?m = lmap c @ [(k, v)]" using d by (simp add: last_insert_fresh)
    have us: "add_used (used c) 1 = Suc (length (lmap c))"
      using u len cap by (simp add: add_used_def)
    show ?thesis
    proof (cases "length (lmap c) = capacity c")
      case False
      then have "c' = c\<lparr>used := Suc (length (lmap c)), lmap := ?m\<rparr>"
        using None len us
        by (simp add: c'_def lru_insert_def Let_def count_meter_def us)
      moreover have "length ?m = Suc (length (lmap c))" by (simp add: m)
      ultimately show ?thesis using False len ok' insert_self [OF d(1), of k v] by simp
    next
      case True
      then obtain p ps where ps: "lmap c = p # ps" using cap by (cases "lmap c") auto
      then have mp: "?m = p # ps @ [(k, v)]" using m by simp
      then have vic: "lru_victim no_pin ?m = Some p" by (simp add: lru_victim_def no_pin_def)
      have "fst p \<noteq> k" using None ps by (auto simp: map_of_eq_None_iff)
      moreover have "length (others ?m (fst p)) = length (lmap c)"
        using d(2) length_others [OF d(2), of "fst p"] ps mp by simp
      moreover have "map_of (others ?m (fst p)) k = map_of ?m k"
        using \<open>fst p \<noteq> k\<close> by (simp add: map_of_filter_key)
      moreover have "lmap c' = others ?m (fst p)" "capacity c' = capacity c"
        using None True us vic d
        by (simp_all add: c'_def lru_insert_def Let_def count_meter_def remove_lru_def
            remove_others split: prod.splits)
      ultimately show ?thesis using ok' len insert_self [OF d(1), of k v] by simp
    qed
  qed
qed

end

subsection \<open>Properties\<close>

text \<open>
  Inserting into a cache whose counter equals the total measure of its values (and whose
  keys are distinct) keeps both facts, whatever is replaced or evicted, as long as the total
  stays below \<open>2 ^ 64\<close>.
\<close>

lemma lru_insert_keeps_used:
  assumes "linked_hash_map L" and "\<forall>w. 0 \<le> meter w" and "lru_ok meter c"
    and "total meter (lmap c) + meter v < 2 ^ 64"
  shows "lru_ok meter (snd (lru_insert L meter pinned c k v))"
  using assms by (intro linked_hash_map.lru_insert_ok) simp_all

text \<open>
  A cache metered by count, with no pinned entries and a positive capacity, never holds
  more entries than its capacity after an insertion, and the inserted binding is found.
\<close>

lemma lru_count_bound:
  assumes "linked_hash_map L" and "lru_ok count_meter c" and "length (lmap c) \<le> capacity c"
    and "0 < capacity c" and "capacity c < 2 ^ 63"
  shows "length (lmap (snd (lru_insert L count_meter no_pin c k v))) \<le> capacity c
    \<and> fst (get_refresh L (snd (lru_insert L count_meter no_pin c k v)) k) = Some v"
  using linked_hash_map.count_insert_bound [OF assms, of k v] by (simp add: get_refresh_def)

text \<open>
  One insertion evicts at most one entry: a cache metered by size can end above its
  capacity although an eviction took place. Replacing two small entries by one large one
  leaves 5 units in a cache of capacity 4.
\<close>

lemma lru_size_meter_exceeds_capacity:
  "\<exists>c :: (nat, nat) lru. lru_ok int c \<and> used c \<le> capacity c \<and>
     (let c' = snd (lru_insert list_lhm int no_pin c 9 4)
      in lru_ok int c' \<and> capacity c' < used c' \<and> length (lmap c') = 2)"
proof (rule exI)
  let ?c = "\<lparr>capacity = 4, used = 2, lmap = [(1, 1), (2, 1)]\<rparr> :: (nat, nat) lru"
  show "lru_ok int ?c \<and> used ?c \<le> capacity ?c \<and>
     (let c' = snd (lru_insert list_lhm int no_pin ?c 9 4)
      in lru_ok int c' \<and> capacity c' < used c' \<and> length (lmap c') = 2)"
    by (simp add: lru_ok_def total_def lru_insert_def remove_lru_def lru_victim_def no_pin_def
        list_lhm_def add_used_def Let_def)
qed

end
