(* ===== verification/Base_Utils.thy ===== *)
theory Base_Utils
  imports Zbox_Error
begin

unbundle bit_operations_syntax

text \<open>
  \<open>src/src/base\<close>: the alignment helpers of \<open>utils.rs\<close>, the reference counter of
  \<open>refcnt.rs\<close> and the version check of \<open>version.rs\<close>.

  The \<open>usize\<close> helpers are over \<open>nat\<close>, with the two's complement step of \<open>align_ceil\<close>
  taken on \<open>int\<close>; the \<open>u64\<close> helpers are over \<open>64 word\<close>, where every operation wraps. The
  two agree wherever nothing wraps (\<open>align_ceil_u64_unat\<close>, \<open>align_floor_u64_unat\<close>).
\<close>

definition align_offset :: "nat \<Rightarrow> nat \<Rightarrow> nat" where
  "align_offset x sz = x AND (sz - 1)"

definition align_floor :: "nat \<Rightarrow> nat \<Rightarrow> nat" where
  "align_floor x sz = x - (x AND (sz - 1))"

definition align_floor_u64 :: "64 word \<Rightarrow> 64 word \<Rightarrow> 64 word" where
  "align_floor_u64 x sz = x - (x AND (sz - 1))"

definition align_floor_chunk :: "nat \<Rightarrow> nat \<Rightarrow> nat" where
  "align_floor_chunk x sz = align_floor x sz div sz"

definition align_ceil :: "nat \<Rightarrow> nat \<Rightarrow> nat" where
  "align_ceil x sz =
     (if x = 0 then sz else x + nat ((- int x) AND (int sz - 1)))"

definition align_ceil_u64 :: "64 word \<Rightarrow> 64 word \<Rightarrow> 64 word" where
  "align_ceil_u64 x sz = (if x = 0 then sz else x + ((- x) AND (sz - 1)))"

definition align_ceil_chunk :: "nat \<Rightarrow> nat \<Rightarrow> nat" where
  "align_ceil_chunk x sz = align_ceil x sz div sz"

subsection \<open>Reference counter\<close>

type_synonym refcnt = "32 word"

definition refcnt_new :: refcnt where
  "refcnt_new = 0"

definition checked_add32 :: "32 word \<Rightarrow> 32 word \<Rightarrow> 32 word option" where
  "checked_add32 a b = (if unat a + unat b < 2 ^ 32 then Some (a + b) else None)"

definition checked_sub32 :: "32 word \<Rightarrow> 32 word \<Rightarrow> 32 word option" where
  "checked_sub32 a b = (if unat b \<le> unat a then Some (a - b) else None)"

text \<open>Both return the new count and leave the counter unchanged on error.\<close>

definition inc_ref :: "refcnt \<Rightarrow> refcnt res" where
  "inc_ref r = ok_or (checked_add32 r 1) RefOverflow"

definition dec_ref :: "refcnt \<Rightarrow> refcnt res" where
  "dec_ref r = ok_or (checked_sub32 r 1) RefUnderflow"

subsection \<open>Version\<close>

record version =
  major :: "8 word"
  minor :: "8 word"
  patch :: "8 word"

text \<open>The repository format version of \<open>src/src/version.rs\<close>: 0.8.0.\<close>

definition repo_version :: version where
  "repo_version = \<lparr>major = 0, minor = 8, patch = 0\<rparr>"

definition match_repo_version :: "version \<Rightarrow> bool" where
  "match_repo_version v = (major v = major repo_version \<and> minor v = minor repo_version)"

subsection \<open>Facts\<close>

lemma nat_and_mask: "(x::nat) AND (2 ^ n - Suc 0) = x mod 2 ^ n"
  by (metis One_nat_def mask_eq_exp_minus_1 take_bit_eq_mask take_bit_eq_mod)

lemma int_and_mask: "(x::int) AND (2 ^ n - 1) = x mod 2 ^ n"
  by (metis mask_eq_exp_minus_1 take_bit_eq_mask take_bit_eq_mod)

lemma align_offset_mod: "align_offset x (2 ^ n) = x mod 2 ^ n"
  by (simp add: align_offset_def nat_and_mask)

lemma align_floor_eq: "align_floor x (2 ^ n) = x div 2 ^ n * 2 ^ n"
  by (simp add: align_floor_def nat_and_mask minus_mod_eq_div_mult)

lemma align_floor_chunk_eq: "align_floor_chunk x (2 ^ n) = x div 2 ^ n"
  by (simp add: align_floor_chunk_def align_floor_eq)

lemma neg_mod_add: "x + nat ((- int x) mod int m) = (x + m - 1) div m * m" if "0 < m"
proof -
  have "(- int x) mod int m = int ((m - x mod m) mod m)"
    using that by (simp add: zmod_zminus1_eq_if of_nat_mod of_nat_diff zmod_int)
  then have *: "nat ((- int x) mod int m) = (m - x mod m) mod m" by simp
  show ?thesis
  proof (cases "x mod m = 0")
    case True
    then obtain k where "x = k * m" by (metis mult.commute mod_0_imp_dvd dvd_def)
    with that have "(x + m - 1) div m = k"
      by (intro div_nat_eqI) (simp_all add: algebra_simps)
    with True * \<open>x = k * m\<close> show ?thesis by simp
  next
    case False
    define q r where "q = x div m" and "r = x mod m"
    have x: "x = q * m + r" by (simp add: q_def r_def)
    have r: "0 < r" "r < m" using False that by (simp_all add: r_def)
    have "(x + m - 1) div m = q + 1"
      by (rule div_nat_eqI) (use x r in \<open>simp_all add: algebra_simps\<close>)
    moreover have "nat ((- int x) mod int m) = m - r"
      using * r by (simp add: r_def)
    ultimately show ?thesis using x r by (simp add: algebra_simps)
  qed
qed

lemma align_ceil_eq: "x > 0 \<Longrightarrow> align_ceil x (2 ^ n) = (x + 2 ^ n - 1) div 2 ^ n * 2 ^ n"
  using neg_mod_add [of "2 ^ n" x] by (simp add: align_ceil_def int_and_mask)

lemma align_ceil_chunk_eq:
  "align_ceil_chunk x (2 ^ n) = (if x = 0 then 1 else (x + 2 ^ n - 1) div 2 ^ n)"
  by (simp add: align_ceil_chunk_def align_ceil_eq) (simp add: align_ceil_def)

lemma checked_add32_one: "checked_add32 r 1 = Some s \<longleftrightarrow> unat r < 2 ^ 32 - 1 \<and> s = r + 1"
  by (auto simp: checked_add32_def)

lemma checked_sub32_one: "checked_sub32 r 1 = Some s \<longleftrightarrow> r \<noteq> 0 \<and> s = r - 1"
proof -
  have "1 \<le> unat r \<longleftrightarrow> r \<noteq> 0"
    by (metis One_nat_def Suc_leI gr0I le_zero_eq not_one_le_zero unat_0 unat_eq_zero)
  then show ?thesis by (auto simp: checked_sub32_def)
qed

lemma unat_inc: "unat (r :: 32 word) < 2 ^ 32 - 1 \<Longrightarrow> unat (r + 1) = unat r + 1"
  by (simp add: unat_word_ariths)

lemma inc_ref_Ok_iff [result_simps]:
  "inc_ref r = Ok s \<longleftrightarrow> unat r < 2 ^ 32 - 1 \<and> s = r + 1"
  by (simp add: inc_ref_def ok_or_Ok_iff checked_add32_one)

lemma dec_ref_Ok_iff [result_simps]: "dec_ref r = Ok s \<longleftrightarrow> r \<noteq> 0 \<and> s = r - 1"
  by (simp add: dec_ref_def ok_or_Ok_iff checked_sub32_one)

lemma inc_then_dec: "inc_ref r = Ok s \<Longrightarrow> dec_ref s = Ok r"
proof -
  assume "inc_ref r = Ok s"
  then have *: "unat r < 2 ^ 32 - 1" "s = r + 1" by (auto simp: result_simps)
  then have "unat s = unat r + 1" using unat_inc by blast
  then have "s \<noteq> 0" by auto
  with * show ?thesis by (simp add: dec_ref_Ok_iff)
qed

lemma unat_and_mask64: "n < 64 \<Longrightarrow> unat ((x :: 64 word) AND (2 ^ n - 1)) = unat x mod 2 ^ n"
  by (metis mask_eq_exp_minus_1 take_bit_eq_mask take_bit_eq_mod unsigned_take_bit_eq)

lemma unat_lt64: "unat (x :: 64 word) < 2 ^ 64"
  using unsigned_less [of x] by simp

lemma unat_pow2_64: "n < 64 \<Longrightarrow> unat (2 ^ n :: 64 word) = 2 ^ n"
proof -
  assume n: "n < 64"
  have "(2 ^ n :: 64 word) = of_nat (2 ^ n)" by simp
  then have "unat (2 ^ n :: 64 word) = 2 ^ n mod 2 ^ 64"
    by (simp only: unsigned_of_nat take_bit_eq_mod) simp
  also have "\<dots> = 2 ^ n" using n by (intro mod_less power_strict_increasing) simp_all
  finally show ?thesis .
qed

lemma unat_uminus64: "x \<noteq> 0 \<Longrightarrow> unat (- x :: 64 word) = 2 ^ 64 - unat x"
proof -
  assume "x \<noteq> 0"
  then have u: "0 < uint x" "uint x < 2 ^ 64"
    using uint_lt2p [of x] uint_ge_0 [of x] word_uint_eq_iff [of x 0]
    by (auto simp: order_less_le simp del: uint_ge_0)
  have "uint (- x) = (- uint x) mod 2 ^ 64" by (simp add: uint_word_ariths)
  also have "\<dots> = 2 ^ 64 - uint x" using u by (simp add: zmod_zminus1_eq_if)
  finally have "int (unat (- x)) = 2 ^ 64 - int (unat x)" by (simp only: of_nat_unat)
  then have "int (unat (- x)) = int (2 ^ 64 - unat x)"
    using unat_lt64 [of x] by (simp add: of_nat_diff)
  then show ?thesis by (simp only: of_nat_eq_iff)
qed

lemma align_floor_u64_unat:
  assumes "n < 64"
  shows "unat (align_floor_u64 x (2 ^ n)) = align_floor (unat x) (2 ^ n)"
proof -
  have "unat (x AND (2 ^ n - 1)) \<le> unat x"
    using assms by (simp add: unat_and_mask64)
  then have "unat (x - (x AND (2 ^ n - 1))) = unat x - unat (x AND (2 ^ n - 1))"
    by (simp add: unat_sub word_le_nat_alt)
  then show ?thesis
    using assms by (simp add: align_floor_u64_def align_floor_def unat_and_mask64 nat_and_mask)
qed

text \<open>
  On 64-bit words the ceiling helper rounds up to the next multiple of the
  power-of-two size, without wrapping, for every non-zero value that is at most the largest
  multiple of the size; a value already on a boundary stays where it is, and zero is
  rounded up to one whole unit.
\<close>

lemma align_ceil_u64_spec:
  fixes x :: "64 word"
  assumes "n < 64" and "unat x \<le> 2 ^ 64 - 2 ^ n"
  shows "unat (align_ceil_u64 x (2 ^ n)) =
    (if x = 0 then 2 ^ n else (unat x + 2 ^ n - 1) div 2 ^ n * 2 ^ n)"
proof (cases "x = 0")
  case True
  then show ?thesis
    using assms(1) unat_pow2_64 [of n] by (simp add: align_ceil_u64_def)
next
  case False
  let ?u = "unat x" and ?m = "2 ^ n :: nat"
  have dvd: "?m dvd 2 ^ 64" using assms(1) by (intro le_imp_power_dvd) simp
  have mpos: "0 < ?m" by simp
  have mle: "?m \<le> 2 ^ 64" using dvd by (intro dvd_imp_le) simp_all
  have z: "(2 ^ 64 :: int) mod int ?m = 0"
    using dvd by (metis dvd_imp_mod_0 of_nat_dvd_iff of_nat_numeral of_nat_power)
  have "unat (- x) = 2 ^ 64 - ?u"
    using False by (rule unat_uminus64)
  then have a: "unat ((- x) AND (2 ^ n - 1)) = (2 ^ 64 - ?u) mod ?m"
    using assms(1) by (simp add: unat_and_mask64)
  have "int (2 ^ 64 - ?u) = 2 ^ 64 - int ?u"
    using unat_lt64 [of x] by (simp add: of_nat_diff)
  then have "int ((2 ^ 64 - ?u) mod ?m) = (2 ^ 64 - int ?u) mod int ?m"
    by (simp add: zmod_int)
  also have "\<dots> = ((2 ^ 64 mod int ?m) - int ?u) mod int ?m"
    by (simp only: mod_diff_left_eq)
  also have "\<dots> = (- int ?u) mod int ?m"
    by (simp only: z diff_0)
  finally have b: "(2 ^ 64 - ?u) mod ?m = nat ((- int ?u) mod int ?m)" by simp
  let ?c = "(?u + ?m - 1) div ?m * ?m"
  have sum: "?u + (2 ^ 64 - ?u) mod ?m = ?c"
    using b neg_mod_add [of ?m ?u] by simp
  have "(?u + ?m - 1) div ?m * ?m \<le> ?u + ?m - 1" by simp
  also have "\<dots> < 2 ^ 64"
    using assms(2) mpos mle by simp
  finally have lt: "?c < 2 ^ 64" .
  have "unat (x + ((- x) AND (2 ^ n - 1))) = (?u + (2 ^ 64 - ?u) mod ?m) mod 2 ^ 64"
    by (simp add: unat_word_ariths a)
  with sum lt False show ?thesis by (simp add: align_ceil_u64_def)
qed

end
