(* ===== verification/Ids.thy ===== *)
theory Ids
  imports Base_Utils
begin

text \<open>
  \<open>src/src/trans/eid.rs\<close> and \<open>src/src/trans/txid.rs\<close>: entity ids and transaction ids. An
  entity id is its 32 bytes; the random generator and the keyed hash are libsodium calls and
  stay arguments. The transaction id of the running thread is a thread local of the code and
  an explicit value here: 0 means that the thread is in no transaction.
\<close>

type_synonym byte = "8 word"
type_synonym bytes = "byte list"
type_synonym eid = bytes

definition EID_SIZE :: nat where
  "EID_SIZE = 32"

definition eid_new_empty :: eid where
  "eid_new_empty = replicate EID_SIZE 0"

text \<open>\<open>random\<close> stands for the bytes \<open>Crypto::random_buf\<close> fills the buffer with.\<close>

definition eid_new :: "bytes \<Rightarrow> eid" where
  "eid_new random = take EID_SIZE random"

definition eid_is_empty :: "eid \<Rightarrow> bool" where
  "eid_is_empty e = (e = eid_new_empty)"

definition eid_from_slice :: "bytes \<Rightarrow> eid res" where
  "eid_from_slice buf = assert_r (length buf = EID_SIZE) (Ok buf)"

definition hex_digit :: "nat \<Rightarrow> char" where
  "hex_digit n = ''0123456789abcdef'' ! (n mod 16)"

text \<open>The format \<open>{:02x}\<close> of one byte.\<close>

definition hex_byte :: "byte \<Rightarrow> string" where
  "hex_byte b = [hex_digit (unat b div 16), hex_digit (unat b mod 16)]"

definition eid_to_string :: "eid \<Rightarrow> string" where
  "eid_to_string e = concat (map hex_byte e)"

text \<open>The components appended to the base path: two directory levels and the full name.\<close>

definition eid_to_path :: "string list \<Rightarrow> eid \<Rightarrow> string list res" where
  "eid_to_path base e =
     (let s = eid_to_string e
      in assert_r (4 \<le> length s) (Ok (base @ [take 2 s, take 2 (drop 2 s), s])))"

subsection \<open>Transaction ids\<close>

type_synonym txid = "64 word"

definition txid_is_in_trans :: "txid \<Rightarrow> bool" where
  "txid_is_in_trans tls = (tls \<noteq> 0)"

definition txid_current :: "txid \<Rightarrow> txid res" where
  "txid_current tls = (if tls = 0 then Err NotInTrans else Ok tls)"

definition txid_current_or_empty :: "txid \<Rightarrow> txid" where
  "txid_current_or_empty tls = (case txid_current tls of Ok t \<Rightarrow> t | _ \<Rightarrow> 0)"

text \<open>
  \<open>next\<close> increases the watermark with \<open>checked_add\<close> (overflow panics) and marks the thread
  as being in that transaction: the result is the new watermark and the new thread local.
\<close>

definition txid_next :: "txid \<Rightarrow> (txid \<times> txid) res" where
  "txid_next wmark =
     (if unat wmark + 1 < 2 ^ 64 then Ok (wmark + 1, wmark + 1) else Panic)"

definition le_bytes64 :: "64 word \<Rightarrow> bytes" where
  "le_bytes64 w = map (\<lambda>i. ucast (drop_bit (8 * i) w)) [0 ..< 8]"

definition txid_derive_id :: "(bytes \<Rightarrow> bytes \<Rightarrow> bytes) \<Rightarrow> txid \<Rightarrow> bytes \<Rightarrow> eid res" where
  "txid_derive_id hash_with_key t key = eid_from_slice (hash_with_key (le_bytes64 t) key)"

subsection \<open>Facts\<close>

lemma hex_digit_inj: "n < 16 \<Longrightarrow> m < 16 \<Longrightarrow> hex_digit n = hex_digit m \<Longrightarrow> n = m"
proof -
  assume n: "n < 16" and m: "m < 16" and eq: "hex_digit n = hex_digit m"
  have "distinct ''0123456789abcdef''" by simp
  then show ?thesis using n m eq by (auto simp: hex_digit_def nth_eq_iff_index_eq)
qed

lemma hex_byte_inj: "hex_byte a = hex_byte b \<Longrightarrow> a = b"
proof -
  assume eq: "hex_byte a = hex_byte b"
  have bd: "unat x div 16 < 16" for x :: byte
    using unsigned_less [of x] by (simp add: div_less_iff_less_mult)
  from eq have "unat a div 16 = unat b div 16" "unat a mod 16 = unat b mod 16"
    by (auto simp: hex_byte_def intro!: hex_digit_inj bd)
  then have "unat a = unat b" by (metis div_mult_mod_eq)
  then show ?thesis by (rule unsigned_word_eqI)
qed

lemma length_eid_to_string: "length (eid_to_string e) = 2 * length e"
  by (induction e) (simp_all add: eid_to_string_def hex_byte_def)

lemma eid_to_string_inj: "eid_to_string a = eid_to_string b \<Longrightarrow> a = b"
proof (induction a arbitrary: b)
  case Nil
  then have "eid_to_string b = []" by (simp add: eid_to_string_def)
  then show ?case using length_eid_to_string [of b] by (metis length_0_conv mult_eq_0_iff zero_neq_numeral)
next
  case (Cons x a)
  then obtain y c where b: "b = y # c"
    using length_eid_to_string [of "x # a"] length_eid_to_string [of b] by (cases b) auto
  from Cons.prems have "hex_byte x = hex_byte y" "eid_to_string a = eid_to_string c"
    by (auto simp: b eid_to_string_def hex_byte_def)
  with Cons.IH b hex_byte_inj show ?case by blast
qed

lemma txid_next_Ok_iff [result_simps]:
  "txid_next w = Ok (a, b) \<longleftrightarrow> unat w + 1 < 2 ^ 64 \<and> a = w + 1 \<and> b = w + 1"
  by (auto simp: txid_next_def)

lemma unat_txid_next: "unat w + 1 < 2 ^ 64 \<Longrightarrow> unat (w + 1 :: txid) = unat w + 1"
  by (simp add: unat_word_ariths)

text \<open>
  The relative path of an entity is always defined for a 32 byte id, ends in the full
  hexadecimal name, and two different ids never share a path, so files of different entities
  cannot overwrite each other.
\<close>

lemma eid_path_injective:
  assumes "length a = EID_SIZE" and "length b = EID_SIZE"
    and "eid_to_path base a = eid_to_path base b"
  shows "a = b \<and> (\<exists>p. eid_to_path base a = Ok p \<and> last p = eid_to_string a \<and> length p = length base + 3)"
proof -
  have l: "4 \<le> length (eid_to_string a)" "4 \<le> length (eid_to_string b)"
    using assms by (simp_all add: length_eid_to_string EID_SIZE_def)
  then have "eid_to_string a = eid_to_string b"
    using assms(3) by (simp add: eid_to_path_def assert_r_def Let_def)
  with l show ?thesis
    by (auto simp: eid_to_path_def assert_r_def Let_def dest: eid_to_string_inj)
qed

end
