(* ===== verification/Zbox_Effect.thy ===== *)
theory Zbox_Effect
  imports Ids
begin

text \<open>
  Computations that change a state and may fail: a function from the state to a result and
  the new state. The state that an error leaves behind is part of the outcome, because the
  code goes on using its objects after a failed call. \<open>read_to_end\<close> and \<open>write_all\<close> are the
  methods of the standard traits \<open>Read\<close> and \<open>Write\<close> in terms of a single \<open>read\<close> or
  \<open>write\<close>.
\<close>

type_synonym ('a, 'e, 's) eff = "'s \<Rightarrow> ('a, 'e) result \<times> 's"

definition ret_s :: "'a \<Rightarrow> ('a, 'e, 's) eff" where
  "ret_s x = (\<lambda>s. (Ok x, s))"

definition lift_r :: "('a, 'e) result \<Rightarrow> ('a, 'e, 's) eff" where
  "lift_r r = (\<lambda>s. (r, s))"

definition bind_s :: "('a, 'e, 's) eff \<Rightarrow> ('a \<Rightarrow> ('b, 'e, 's) eff) \<Rightarrow> ('b, 'e, 's) eff" where
  "bind_s m f = (\<lambda>s. case m s of
      (Ok x, s') \<Rightarrow> f x s'
    | (Err e, s') \<Rightarrow> (Err e, s')
    | (Panic, s') \<Rightarrow> (Panic, s'))"

definition get_s :: "('s, 'e, 's) eff" where
  "get_s = (\<lambda>s. (Ok s, s))"

definition modify_s :: "('s \<Rightarrow> 's) \<Rightarrow> (unit, 'e, 's) eff" where
  "modify_s f = (\<lambda>s. (Ok (), f s))"

definition assert_s :: "bool \<Rightarrow> (unit, 'e, 's) eff" where
  "assert_s b = (\<lambda>s. (if b then Ok () else Panic, s))"

text \<open>\<open>or_else\<close>: run a handler on an error and return the error it gives.\<close>

definition or_else_s :: "('a, 'e, 's) eff \<Rightarrow> ('e \<Rightarrow> ('a, 'e, 's) eff) \<Rightarrow> ('a, 'e, 's) eff" where
  "or_else_s m h = (\<lambda>s. case m s of
      (Err e, s') \<Rightarrow> h e s'
    | (Ok x, s') \<Rightarrow> (Ok x, s')
    | (Panic, s') \<Rightarrow> (Panic, s'))"

text \<open>Run a computation on a component of the state, and convert its errors.\<close>

definition zoom :: "('s \<Rightarrow> 't) \<Rightarrow> ('t \<Rightarrow> 's \<Rightarrow> 's) \<Rightarrow> ('a, 'e, 't) eff \<Rightarrow> ('a, 'e, 's) eff" where
  "zoom g p m = (\<lambda>s. case m (g s) of (r, t) \<Rightarrow> (r, p t s))"

definition map_err :: "('e \<Rightarrow> 'f) \<Rightarrow> ('a, 'e) result \<Rightarrow> ('a, 'f) result" where
  "map_err f r = (case r of Ok x \<Rightarrow> Ok x | Err e \<Rightarrow> Err (f e) | Panic \<Rightarrow> Panic)"

definition conv_s :: "(('a, 'e) result \<Rightarrow> ('b, 'f) result) \<Rightarrow> ('a, 'e, 's) eff \<Rightarrow> ('b, 'f, 's) eff" where
  "conv_s g m = (\<lambda>s. case m s of (r, s') \<Rightarrow> (g r, s'))"

fun for_s :: "('x \<Rightarrow> (unit, 'e, 's) eff) \<Rightarrow> 'x list \<Rightarrow> (unit, 'e, 's) eff" where
  "for_s f [] = ret_s ()"
| "for_s f (x # xs) = bind_s (f x) (\<lambda>_. for_s f xs)"

lemma ret_s_simp [simp]: "ret_s x s = (Ok x, s)"
  by (simp add: ret_s_def)

lemma lift_r_simp [simp]: "lift_r r s = (r, s)"
  by (simp add: lift_r_def)

lemma get_s_simp [simp]: "get_s s = (Ok s, s)"
  by (simp add: get_s_def)

lemma modify_s_simp [simp]: "modify_s f s = (Ok (), f s)"
  by (simp add: modify_s_def)

lemma assert_s_simp [simp]: "assert_s b s = (if b then Ok () else Panic, s)"
  by (simp add: assert_s_def)

lemma zoom_simp: "m (g s) = (r, t) \<Longrightarrow> zoom g p m s = (r, p t s)"
  by (simp add: zoom_def)

lemma bind_s_Ok [simp]: "m s = (Ok x, s') \<Longrightarrow> bind_s m f s = f x s'"
  by (simp add: bind_s_def)

lemma bind_s_Err [simp]: "m s = (Err e, s') \<Longrightarrow> bind_s m f s = (Err e, s')"
  by (simp add: bind_s_def)

lemma bind_s_Panic [simp]: "m s = (Panic, s') \<Longrightarrow> bind_s m f s = (Panic, s')"
  by (simp add: bind_s_def)

lemma bind_s_Ok_iff [result_simps]:
  "bind_s m f s = (Ok y, t) \<longleftrightarrow> (\<exists>x s'. m s = (Ok x, s') \<and> f x s' = (Ok y, t))"
  by (auto simp: bind_s_def split: result.splits prod.splits)

lemma bind_s_cases:
  assumes "bind_s m f s = (r, t)"
  obtains x s' where "m s = (Ok x, s')" "f x s' = (r, t)"
    | e where "m s = (Err e, t)" "r = Err e"
    | "m s = (Panic, t)" "r = Panic"
  using assms by (auto simp: bind_s_def split: result.splits prod.splits)

lemma or_else_cases:
  assumes "or_else_s m h s = (r, t)"
  obtains x where "m s = (Ok x, t)" "r = Ok x"
    | e s' where "m s = (Err e, s')" "h e s' = (r, t)"
    | "m s = (Panic, t)" "r = Panic"
  using assms by (auto simp: or_else_s_def split: result.splits prod.splits)

lemma map_err_simps [simp]:
  "map_err f (Ok x) = Ok x" "map_err f (Err e) = Err (f e)" "map_err f Panic = Panic"
  by (simp_all add: map_err_def)

text \<open>A property of the state that a computation keeps, whatever its result.\<close>

definition preserves :: "('s \<Rightarrow> bool) \<Rightarrow> ('a, 'e, 's) eff \<Rightarrow> bool" where
  "preserves P m \<longleftrightarrow> (\<forall>s r s'. P s \<longrightarrow> m s = (r, s') \<longrightarrow> P s')"

lemma preservesI: "(\<And>s r s'. P s \<Longrightarrow> m s = (r, s') \<Longrightarrow> P s') \<Longrightarrow> preserves P m"
  unfolding preserves_def by blast

lemma preservesD: "preserves P m \<Longrightarrow> P s \<Longrightarrow> m s = (r, s') \<Longrightarrow> P s'"
  unfolding preserves_def by blast

lemma preserves_bind [intro]:
  assumes "preserves P m" and "\<And>x. preserves P (f x)"
  shows "preserves P (bind_s m f)"
proof (rule preservesI)
  fix s r s'
  assume P: "P s" and b: "bind_s m f s = (r, s')"
  from b show "P s'"
  proof (cases rule: bind_s_cases)
    case (1 x s1)
    have "P s1" using preservesD [OF assms(1) P 1(1)] .
    then show ?thesis using preservesD [OF assms(2) _ 1(2)] by simp
  next
    case (2 e)
    then show ?thesis using preservesD [OF assms(1) P] by simp
  next
    case 3
    then show ?thesis using preservesD [OF assms(1) P] by simp
  qed
qed

lemma preserves_or_else [intro]:
  assumes "preserves P m" and "\<And>e. preserves P (h e)"
  shows "preserves P (or_else_s m h)"
proof (rule preservesI)
  fix s r s'
  assume P: "P s" and b: "or_else_s m h s = (r, s')"
  from b show "P s'"
  proof (cases rule: or_else_cases)
    case (1 x)
    then show ?thesis using preservesD [OF assms(1) P] by simp
  next
    case (2 e s1)
    have "P s1" using preservesD [OF assms(1) P 2(1)] .
    then show ?thesis using preservesD [OF assms(2) _ 2(2)] by simp
  next
    case 3
    then show ?thesis using preservesD [OF assms(1) P] by simp
  qed
qed

lemma preserves_simps [simp, intro]:
  "preserves P (ret_s x)" "preserves P (lift_r r)" "preserves P get_s" "preserves P (assert_s b)"
  by (auto simp: preserves_def)

lemma preserves_modify: "(\<And>s. P s \<Longrightarrow> P (f s)) \<Longrightarrow> preserves P (modify_s f)"
  by (simp add: preserves_def)

subsection \<open>Standard readers and writers\<close>

datatype seek_from = SeekStart nat | SeekEnd int | SeekCurrent int

text \<open>
  The library chooses the sizes of the buffers it reads into (\<open>sz i\<close> in round \<open>i\<close>). The loop
  ends when a read returns no bytes; \<open>None\<close> is a loop that never ends.
\<close>

partial_function (option) read_to_end ::
  "('r \<Rightarrow> nat \<Rightarrow> (bytes \<times> 'r, io_error, 's) eff) \<Rightarrow> (nat \<Rightarrow> nat) \<Rightarrow> nat \<Rightarrow> 'r \<Rightarrow> 's \<Rightarrow>
   ((bytes, io_error) result \<times> 's) option"
where
  "read_to_end rd sz i r s =
     (case rd r (sz i) s of
        (Ok (b, r'), s') \<Rightarrow>
          if b = [] then Some (Ok [], s')
          else Option.bind (read_to_end rd sz (Suc i) r' s') (\<lambda>(x, s'').
                 Some (bind_r x (\<lambda>bs. Ok (b @ bs)), s''))
      | (Err e, s') \<Rightarrow> Some (Err e, s')
      | (Panic, s') \<Rightarrow> Some (Panic, s'))"

text \<open>The call as the code uses it: never ending is kept apart from the errors as \<open>Panic\<close>.\<close>

definition read_all ::
  "('r \<Rightarrow> nat \<Rightarrow> (bytes \<times> 'r, io_error, 's) eff) \<Rightarrow> (nat \<Rightarrow> nat) \<Rightarrow> 'r \<Rightarrow> (bytes, io_error, 's) eff"
where
  "read_all rd sz r = (\<lambda>s. case read_to_end rd sz 0 r s of None \<Rightarrow> (Panic, s) | Some o1 \<Rightarrow> o1)"

text \<open>A write that accepts nothing is reported as an error.\<close>

definition write_zero :: io_error where
  "write_zero = io_error_new (IoKind 23) ''failed to write whole buffer''"

function write_all :: "(bytes \<Rightarrow> (nat, io_error, 's) eff) \<Rightarrow> bytes \<Rightarrow> (unit, io_error, 's) eff" where
  "write_all wr buf s =
     (if buf = [] then (Ok (), s)
      else case wr buf s of
          (Ok n, s') \<Rightarrow> if n = 0 then (Err write_zero, s') else write_all wr (drop n buf) s'
        | (Err e, s') \<Rightarrow> (Err e, s')
        | (Panic, s') \<Rightarrow> (Panic, s'))"
  by pat_completeness auto
termination
  by (relation "measure (\<lambda>(wr, buf, s). length buf)") auto

declare write_all.simps [simp del]

end
