(* ===== verification/Crypto.thy ===== *)
theory Crypto
  imports Ids
begin

text \<open>
  \<open>src/src/base/crypto.rs\<close>: the cost and cipher codecs of the super block header and the
  authenticated encryption built on libsodium. The calls of libsodium are the fields of the
  record \<open>sodium\<close>, which every model that encrypts takes as an argument: a nonzero return
  code is \<open>None\<close>. The random generator is a function of the number of earlier draws, which
  the callers thread as a counter. What the library documents is the locale \<open>sodium_laws\<close>.

  Buffers of the code that receive a result (\<open>ctxt\<close>, \<open>msg\<close>, \<open>dst\<close>) are returned.
\<close>

datatype ops_limit = OpsInteractive | OpsModerate | OpsSensitive
datatype mem_limit = MemInteractive | MemModerate | MemSensitive

record cost =
  ops_limit :: ops_limit
  mem_limit :: mem_limit

datatype cipher = Xchacha | Aes

unbundle bit_operations_syntax

definition cost_to_u8 :: "cost \<Rightarrow> byte" where
  "cost_to_u8 c =
     (let ops = (case ops_limit c of OpsInteractive \<Rightarrow> 0 | OpsModerate \<Rightarrow> 1 | OpsSensitive \<Rightarrow> 2);
          mem = (case mem_limit c of MemInteractive \<Rightarrow> 0 | MemModerate \<Rightarrow> 1 | MemSensitive \<Rightarrow> 2)
      in ops OR push_bit 4 mem)"

definition cost_from_u8 :: "byte \<Rightarrow> cost res" where
  "cost_from_u8 c =
     bind_r (if c AND 0x0f = 0 then Ok OpsInteractive
             else if c AND 0x0f = 1 then Ok OpsModerate
             else if c AND 0x0f = 2 then Ok OpsSensitive
             else Err InvalidCost)
       (\<lambda>ops. bind_r (if drop_bit 4 c = 0 then Ok MemInteractive
                      else if drop_bit 4 c = 1 then Ok MemModerate
                      else if drop_bit 4 c = 2 then Ok MemSensitive
                      else Err InvalidCost)
          (\<lambda>mem. Ok \<lparr>ops_limit = ops, mem_limit = mem\<rparr>))"

definition cipher_into_u8 :: "cipher \<Rightarrow> byte" where
  "cipher_into_u8 c = (case c of Xchacha \<Rightarrow> 0 | Aes \<Rightarrow> 1)"

definition cipher_from_u8 :: "byte \<Rightarrow> cipher res" where
  "cipher_from_u8 s = (if s = 0 then Ok Xchacha else if s = 1 then Ok Aes else Err InvalidCipher)"

text \<open>The discriminants passed to the password hash.\<close>

definition ops_limit_val :: "ops_limit \<Rightarrow> nat" where
  "ops_limit_val l = (case l of OpsInteractive \<Rightarrow> 2 | OpsModerate \<Rightarrow> 3 | OpsSensitive \<Rightarrow> 4)"

definition mem_limit_val :: "mem_limit \<Rightarrow> nat" where
  "mem_limit_val l =
     (case l of MemInteractive \<Rightarrow> 67108864 | MemModerate \<Rightarrow> 268435456 | MemSensitive \<Rightarrow> 1073741824)"

subsection \<open>The library\<close>

type_synonym key = bytes

record sodium =
  so_encrypt :: "cipher \<Rightarrow> bytes \<Rightarrow> bytes \<Rightarrow> bytes \<Rightarrow> key \<Rightarrow> bytes option"
  so_decrypt :: "cipher \<Rightarrow> bytes \<Rightarrow> bytes \<Rightarrow> bytes \<Rightarrow> key \<Rightarrow> bytes option"
  so_hchacha20 :: "bytes \<Rightarrow> key \<Rightarrow> bytes \<Rightarrow> key"
  so_aes_available :: bool
  so_hash :: "bytes \<Rightarrow> bytes \<Rightarrow> bytes"
  so_pwhash :: "bytes \<Rightarrow> bytes \<Rightarrow> nat \<Rightarrow> nat \<Rightarrow> key option"
  so_kdf :: "key \<Rightarrow> nat \<Rightarrow> bytes \<Rightarrow> key option"
  so_random :: "nat \<Rightarrow> nat \<Rightarrow> bytes"

definition HASH_SIZE :: nat where "HASH_SIZE = 32"
definition KEY_SIZE :: nat where "KEY_SIZE = 32"
definition SALT_SIZE :: nat where "SALT_SIZE = 16"
definition ATAG_SIZE :: nat where "ATAG_SIZE = 16"
definition AES_NONCE_SIZE :: nat where "AES_NONCE_SIZE = 28"
definition XCHACHA_NONCE_SIZE :: nat where "XCHACHA_NONCE_SIZE = 24"

definition NONCE_EXT_CONST :: bytes where
  "NONCE_EXT_CONST = [0x32, 0xb9, 0xa5, 0xb8, 0xb1, 0x96, 0x83, 0x85, 0xa3, 0x4e, 0x47, 0x97,
     0x0d, 0x82, 0xc1, 0x6d]"

text \<open>
  A context. The two function pointers of the Rust structure are determined by the cipher in
  both of its constructors, and are not repeated here.
\<close>

record crypto =
  cr_cost :: cost
  cr_cipher :: cipher

definition cost_default :: cost where
  "cost_default = \<lparr>ops_limit = OpsInteractive, mem_limit = MemInteractive\<rparr>"

definition crypto_default :: crypto where
  "crypto_default = \<lparr>cr_cost = cost_default, cr_cipher = Xchacha\<rparr>"

definition crypto_new :: "sodium \<Rightarrow> cost \<Rightarrow> cipher \<Rightarrow> crypto res" where
  "crypto_new S co ci =
     (case ci of
        Xchacha \<Rightarrow> Ok \<lparr>cr_cost = co, cr_cipher = ci\<rparr>
      | Aes \<Rightarrow> if \<not> so_aes_available S then Err NoAesHardware
               else Ok \<lparr>cr_cost = co, cr_cipher = ci\<rparr>)"

definition crypto_hash :: "sodium \<Rightarrow> bytes \<Rightarrow> bytes" where
  "crypto_hash S b = so_hash S b []"

definition hash_with_key :: "sodium \<Rightarrow> bytes \<Rightarrow> bytes \<Rightarrow> bytes" where
  "hash_with_key S b k = so_hash S b k"

record pwd_hash =
  ph_salt :: bytes
  ph_cost :: cost
  ph_value :: key

definition hash_pwd :: "sodium \<Rightarrow> crypto \<Rightarrow> bytes \<Rightarrow> bytes \<Rightarrow> pwd_hash res" where
  "hash_pwd S c pwd salt =
     (case so_pwhash S pwd salt (ops_limit_val (ops_limit (cr_cost c)))
             (mem_limit_val (mem_limit (cr_cost c))) of
        Some v \<Rightarrow> Ok \<lparr>ph_salt = salt, ph_cost = cr_cost c, ph_value = v\<rparr>
      | None \<Rightarrow> Err Hashing)"

text \<open>The context string \<open>ZBox_Key\<close>.\<close>

definition KDF_CONTEXT :: bytes where
  "KDF_CONTEXT = [90, 66, 111, 120, 95, 75, 101, 121]"

definition derive_from_key :: "sodium \<Rightarrow> key \<Rightarrow> nat \<Rightarrow> key res" where
  "derive_from_key S k subkey_id = ok_or (so_kdf S k subkey_id KDF_CONTEXT) Hashing"

definition nonce_size :: "crypto \<Rightarrow> nat" where
  "nonce_size c = (case cr_cipher c of Xchacha \<Rightarrow> XCHACHA_NONCE_SIZE | Aes \<Rightarrow> AES_NONCE_SIZE)"

definition extend_nonce :: "sodium \<Rightarrow> crypto \<Rightarrow> bytes \<Rightarrow> key \<Rightarrow> (bytes \<times> key) res" where
  "extend_nonce S c nonce k =
     assert_r (cr_cipher c = Aes)
       (Ok (drop 16 nonce, so_hchacha20 S (take 16 nonce) k NONCE_EXT_CONST))"

definition encrypted_len :: "crypto \<Rightarrow> nat \<Rightarrow> nat" where
  "encrypted_len c n = nonce_size c + ATAG_SIZE + n"

definition decrypted_len :: "crypto \<Rightarrow> nat \<Rightarrow> nat res" where
  "decrypted_len c n = bind_r (sub_r n (nonce_size c)) (\<lambda>m. sub_r m ATAG_SIZE)"

text \<open>
  The nonce and key a cipher works with: the first 24 bytes of the buffer for XChaCha, the
  extended pair for AES.
\<close>

definition cipher_nonce :: "sodium \<Rightarrow> crypto \<Rightarrow> bytes \<Rightarrow> key \<Rightarrow> (bytes \<times> key) res" where
  "cipher_nonce S c nonce k =
     (case cr_cipher c of
        Xchacha \<Rightarrow> Ok (take XCHACHA_NONCE_SIZE nonce, k)
      | Aes \<Rightarrow> extend_nonce S c nonce k)"

text \<open>The encrypted text is the nonce followed by the output of the cipher.\<close>

definition encrypt_raw :: "sodium \<Rightarrow> crypto \<Rightarrow> nat \<Rightarrow> bytes \<Rightarrow> key \<Rightarrow> bytes \<Rightarrow> bytes res \<times> nat" where
  "encrypt_raw S c draws msg k ad =
     (let nonce = so_random S draws AES_NONCE_SIZE in
      (bind_r (cipher_nonce S c nonce k) (\<lambda>(n, k').
         case so_encrypt S (cr_cipher c) msg ad n k' of
           Some ct \<Rightarrow> Ok (take (nonce_size c) nonce @ ct)
         | None \<Rightarrow> Err Encrypt), Suc draws))"

definition crypto_encrypt :: "sodium \<Rightarrow> crypto \<Rightarrow> nat \<Rightarrow> bytes \<Rightarrow> key \<Rightarrow> bytes res \<times> nat" where
  "crypto_encrypt S c draws msg k = encrypt_raw S c draws msg k []"

text \<open>Slicing the nonce off a shorter text panics.\<close>

definition decrypt_raw :: "sodium \<Rightarrow> crypto \<Rightarrow> bytes \<Rightarrow> key \<Rightarrow> bytes \<Rightarrow> bytes res" where
  "decrypt_raw S c ctxt k ad =
     assert_r (nonce_size c \<le> length ctxt)
       (bind_r (cipher_nonce S c (take (nonce_size c) ctxt) k) (\<lambda>(n, k').
          case so_decrypt S (cr_cipher c) (drop (nonce_size c) ctxt) ad n k' of
            Some m \<Rightarrow> Ok m
          | None \<Rightarrow> Err Decrypt))"

text \<open>
  Decryption into a fresh vector first computes its length, which underflows on a text that is
  shorter than nonce and tag. \<open>decrypt_to\<close> writes into a buffer of the caller.
\<close>

definition decrypt_with_ad :: "sodium \<Rightarrow> crypto \<Rightarrow> bytes \<Rightarrow> key \<Rightarrow> bytes \<Rightarrow> bytes res" where
  "decrypt_with_ad S c ctxt k ad =
     bind_r (decrypted_len c (length ctxt)) (\<lambda>_. decrypt_raw S c ctxt k ad)"

definition crypto_decrypt :: "sodium \<Rightarrow> crypto \<Rightarrow> bytes \<Rightarrow> key \<Rightarrow> bytes res" where
  "crypto_decrypt S c ctxt k = decrypt_with_ad S c ctxt k []"

definition decrypt_to :: "sodium \<Rightarrow> crypto \<Rightarrow> bytes \<Rightarrow> key \<Rightarrow> bytes res" where
  "decrypt_to S c ctxt k = decrypt_raw S c ctxt k []"

subsection \<open>What libsodium documents\<close>

text \<open>
  Decrypting with the same nonce, key and associated data gives the message back; the cipher
  text is longer by the tag; messages of ordinary length are never refused; hashes, derived
  keys and random buffers have the requested length.
\<close>

locale sodium_laws =
  fixes S :: sodium
  assumes aead_roundtrip: "so_encrypt S ci m ad n k = Some ct \<Longrightarrow>
            so_decrypt S ci ct ad n k = Some m \<and> length ct = length m + ATAG_SIZE"
    and aead_accepts: "length m < 2 ^ 36 - 32 \<Longrightarrow> so_encrypt S ci m ad n k \<noteq> None"
    and hash_len: "length (so_hash S b k) = HASH_SIZE"
    and random_len: "length (so_random S d i) = i"
begin

lemma cipher_nonce_total: "\<exists>n k'. cipher_nonce S c nonce k = Ok (n, k')"
  by (cases "cr_cipher c") (auto simp: cipher_nonce_def extend_nonce_def assert_r_def)

lemma cipher_nonce_take: "cipher_nonce S c (take (nonce_size c) nonce) k = cipher_nonce S c nonce k"
  if "length nonce = AES_NONCE_SIZE"
  using that
  by (cases "cr_cipher c") (simp_all add: cipher_nonce_def nonce_size_def XCHACHA_NONCE_SIZE_def)

lemma nonce_size_le: "nonce_size c \<le> AES_NONCE_SIZE"
  by (simp add: nonce_size_def XCHACHA_NONCE_SIZE_def AES_NONCE_SIZE_def split: cipher.splits)

lemma encrypt_raw_cases:
  assumes "length msg < 2 ^ 36 - 32"
  obtains ct where "encrypt_raw S c d msg k ad = (Ok ct, Suc d)"
    "length ct = encrypted_len c (length msg)" "decrypt_raw S c ct k ad = Ok msg"
proof -
  let ?nonce = "so_random S d AES_NONCE_SIZE"
  obtain n k' where n: "cipher_nonce S c ?nonce k = Ok (n, k')"
    using cipher_nonce_total by blast
  obtain x where x: "so_encrypt S (cr_cipher c) msg ad n k' = Some x"
    using aead_accepts [OF assms] by fastforce
  let ?ct = "take (nonce_size c) ?nonce @ x"
  have l: "length (take (nonce_size c) ?nonce) = nonce_size c"
    using nonce_size_le [of c] by (simp add: random_len)
  have "cipher_nonce S c (take (nonce_size c) ?nonce) k = Ok (n, k')"
    by (simp add: cipher_nonce_take random_len n)
  then have "decrypt_raw S c ?ct k ad = Ok msg"
    using l aead_roundtrip [OF x] by (simp add: decrypt_raw_def assert_r_def)
  moreover have "length ?ct = encrypted_len c (length msg)"
    using l aead_roundtrip [OF x] by (simp add: encrypted_len_def)
  moreover have "encrypt_raw S c d msg k ad = (Ok ?ct, Suc d)"
    by (simp add: encrypt_raw_def n x)
  ultimately show ?thesis using that by blast
qed

lemma decrypted_len_encrypted: "decrypted_len c (encrypted_len c n) = Ok n"
  by (simp add: decrypted_len_def encrypted_len_def sub_r_def)

lemma encrypt_decrypt:
  assumes "length msg < 2 ^ 36 - 32"
  shows "\<exists>ct. crypto_encrypt S c d msg k = (Ok ct, Suc d) \<and>
    length ct = encrypted_len c (length msg) \<and> crypto_decrypt S c ct k = Ok msg \<and>
    decrypt_to S c ct k = Ok msg"
proof -
  obtain ct where ct: "encrypt_raw S c d msg k [] = (Ok ct, Suc d)"
    "length ct = encrypted_len c (length msg)" "decrypt_raw S c ct k [] = Ok msg"
    using assms by (rule encrypt_raw_cases)
  then show ?thesis
    by (simp add: crypto_encrypt_def crypto_decrypt_def decrypt_to_def decrypt_with_ad_def
        decrypted_len_encrypted)
qed

end

text \<open>
  A reference instance of the library: the tag is a block of zeros. It shows that the laws can
  hold together and is what concrete instances evaluate.
\<close>

definition plain_sodium :: sodium where
  "plain_sodium =
     \<lparr>so_encrypt = (\<lambda>ci m ad n k. Some (m @ replicate ATAG_SIZE 0)),
      so_decrypt = (\<lambda>ci c ad n k. if ATAG_SIZE \<le> length c then Some (take (length c - ATAG_SIZE) c) else None),
      so_hchacha20 = (\<lambda>n k x. k), so_aes_available = True,
      so_hash = (\<lambda>b k. take HASH_SIZE (rev b @ replicate HASH_SIZE 0)),
      so_pwhash = (\<lambda>p s o1 m. Some (take KEY_SIZE (p @ replicate KEY_SIZE 0))),
      so_kdf = (\<lambda>k i c. Some k), so_random = (\<lambda>d n. replicate n 0)\<rparr>"

interpretation plain: sodium_laws plain_sodium
  by unfold_locales (auto simp: plain_sodium_def HASH_SIZE_def)

subsection \<open>Properties\<close>

text \<open>
  C11. Encryption round trip for both ciphers: a message of ordinary length is always
  encrypted, the result is longer by nonce and tag as \<open>encrypted_len\<close> says,
  \<open>decrypted_len\<close> inverts that length, and both ways to decrypt give the message back.
\<close>

theorem crypto_roundtrip:
  assumes "sodium_laws S" and "length msg < 2 ^ 36 - 32"
  shows "\<exists>ct. crypto_encrypt S c d msg k = (Ok ct, Suc d) \<and>
    length ct = encrypted_len c (length msg) \<and> decrypted_len c (length ct) = Ok (length msg) \<and>
    crypto_decrypt S c ct k = Ok msg \<and> decrypt_to S c ct k = Ok msg"
  using sodium_laws.encrypt_decrypt [OF assms, of c d k] sodium_laws.decrypted_len_encrypted [OF assms(1)]
  by auto

theorem crypto_roundtrip_witness:
  "\<exists>ct. crypto_encrypt plain_sodium crypto_default 0 [1, 2] [] = (Ok ct, 1) \<and>
     crypto_decrypt plain_sodium crypto_default ct [] = Ok [1, 2]"
  using crypto_roundtrip [OF plain.sodium_laws_axioms, of "[1, 2]" crypto_default 0 "[]"] by auto

text \<open>
  A text that is shorter than nonce and tag is not reported as a decryption error: the
  computation of the plain text length underflows and panics, whatever the library does.
\<close>

lemma crypto_short_text_panics:
  assumes "length ctxt < nonce_size c + ATAG_SIZE"
  shows "crypto_decrypt S c ctxt k = Panic"
  using assms by (auto simp: crypto_decrypt_def decrypt_with_ad_def decrypted_len_def sub_r_def)

lemma nibbles: "(c :: byte) = (c AND 0x0f) OR push_bit 4 (drop_bit 4 c)"
proof (rule bit_eqI)
  fix n
  assume "possible_bit TYPE(byte) n"
  then have "n < 8" by simp
  then have "n = 0 \<or> n = 1 \<or> n = 2 \<or> n = 3 \<or> n = 4 \<or> n = 5 \<or> n = 6 \<or> n = 7" by arith
  then show "bit c n = bit ((c AND 0x0f) OR push_bit 4 (drop_bit 4 c)) n"
    by (elim disjE) (simp_all add: bit_simps)
qed

lemma cost_from_to: "cost_from_u8 (cost_to_u8 c) = Ok c"
proof -
  obtain x y where c: "c = \<lparr>ops_limit = x, mem_limit = y\<rparr>" by (cases c)
  show ?thesis by (cases x; cases y; simp add: c cost_from_u8_def cost_to_u8_def)
qed

lemma cost_to_from: "cost_from_u8 b = Ok c \<Longrightarrow> cost_to_u8 c = b"
  by (subst (2) nibbles) (auto simp: cost_from_u8_def cost_to_u8_def split: if_splits)

lemma cost_from_cases: "(\<exists>c. cost_from_u8 b = Ok c) \<or> cost_from_u8 b = Err InvalidCost"
  by (simp add: cost_from_u8_def)

text \<open>
  The byte in the super block header identifies the password hashing cost: encoding and
  decoding are inverse to each other, and every byte that is not the code of a cost is refused
  with \<open>InvalidCost\<close>.
\<close>

lemma cost_codec:
  "cost_from_u8 (cost_to_u8 c) = Ok c \<and>
   (cost_from_u8 b = Ok c' \<longrightarrow> cost_to_u8 c' = b) \<and>
   (b \<notin> range cost_to_u8 \<longrightarrow> cost_from_u8 b = Err InvalidCost)"
  using cost_from_to cost_to_from [of b] cost_from_cases [of b] by (metis rangeI)

end
