(* ===== verification/Address.thy ===== *)
theory Address
  imports Base_Utils
begin

text \<open>
  \<open>src/src/volume/address.rs\<close> and \<open>src/src/volume/allocator.rs\<close>: block spans, entity
  addresses (a byte length and a list of located spans), their division into frames of
  \<open>BLKS_PER_FRAME\<close> blocks, and the watermark allocator. \<open>blocks\<close> is the abstract view of
  an address: the block indices it covers, in order.
\<close>

definition BLK_SIZE :: nat where "BLK_SIZE = 8 * 1024"
definition BLKS_PER_FRAME :: nat where "BLKS_PER_FRAME = 16"
definition FRAME_SIZE :: nat where "FRAME_SIZE = BLKS_PER_FRAME * BLK_SIZE"

record span =
  sp_begin :: nat
  sp_cnt :: nat

definition span_new :: "nat \<Rightarrow> nat \<Rightarrow> span" where
  "span_new b n = \<lparr>sp_begin = b, sp_cnt = n\<rparr>"

definition span_end :: "span \<Rightarrow> nat" where
  "span_end s = sp_begin s + sp_cnt s"

definition bytes_len :: "span \<Rightarrow> nat" where
  "bytes_len s = sp_cnt s * BLK_SIZE"

text \<open>\<open>split_to\<close> returns the part before \<open>at\<close> and leaves the rest in \<open>self\<close>.\<close>

definition span_split_to :: "span \<Rightarrow> nat \<Rightarrow> (span \<times> span) res" where
  "span_split_to s at =
     assert_r (sp_begin s \<le> at \<and> at < span_end s)
       (let ret = \<lparr>sp_begin = sp_begin s, sp_cnt = sp_cnt s - (span_end s - at)\<rparr>
        in Ok (ret, \<lparr>sp_begin = at, sp_cnt = sp_cnt s - sp_cnt ret\<rparr>))"

lemma span_split_to_Ok:
  "span_split_to s at = Ok (r, s') \<longleftrightarrow> sp_begin s \<le> at \<and> at < span_end s \<and>
     r = \<lparr>sp_begin = sp_begin s, sp_cnt = at - sp_begin s\<rparr> \<and>
     s' = \<lparr>sp_begin = at, sp_cnt = span_end s - at\<rparr>"
  by (auto simp: span_split_to_def assert_r_def span_end_def Let_def)

text \<open>The loop of \<open>divide_by\<close>, which cuts a span at the multiples of \<open>sz\<close>.\<close>

function divide_loop :: "span \<Rightarrow> nat \<Rightarrow> nat \<Rightarrow> span list res" where
  "divide_loop s at sz =
     (if at < span_end s \<and> sz \<noteq> 0
      then bind_r (span_split_to s at) (\<lambda>(split, s').
             bind_r (divide_loop s' (at + sz) sz) (\<lambda>rest. Ok (split # rest)))
      else Ok [s])"
  by pat_completeness auto
termination
  by (relation "measure (\<lambda>(s, at, sz). span_end s - at)")
    (auto simp: span_split_to_Ok span_end_def)

declare divide_loop.simps [simp del]

text \<open>The remainder operator panics on a zero divisor.\<close>

definition divide_by :: "span \<Rightarrow> nat \<Rightarrow> span list res" where
  "divide_by s sz =
     (if sp_cnt s = 0 then Ok []
      else assert_r (sz \<noteq> 0) (divide_loop s (sp_begin s + sz - sp_begin s mod sz) sz))"

text \<open>Iterating over a span visits its block indices.\<close>

definition span_blocks :: "span \<Rightarrow> nat list" where
  "span_blocks s = [sp_begin s ..< span_end s]"

record loc_span =
  lspan :: span
  loffset :: nat

definition loc_span_new :: "nat \<Rightarrow> nat \<Rightarrow> nat \<Rightarrow> loc_span" where
  "loc_span_new b n off = \<lparr>lspan = span_new b n, loffset = off\<rparr>"

definition loc_span_split_to :: "loc_span \<Rightarrow> nat \<Rightarrow> (loc_span \<times> loc_span) res" where
  "loc_span_split_to ls at =
     bind_r (span_split_to (lspan ls) at) (\<lambda>(r, s').
       Ok (\<lparr>lspan = r, loffset = loffset ls\<rparr>,
           \<lparr>lspan = s', loffset = loffset ls + bytes_len r\<rparr>))"

record addr =
  alen :: nat
  alist :: "loc_span list"

definition addr_default :: addr where
  "addr_default = \<lparr>alen = 0, alist = []\<rparr>"

definition addr_append :: "addr \<Rightarrow> span \<Rightarrow> nat \<Rightarrow> addr" where
  "addr_append a s n =
     (if alist a = [] then \<lparr>alen = n, alist = [loc_span_new (sp_begin s) (sp_cnt s) 0]\<rparr>
      else let l = last (alist a) in
        if sp_begin s = span_end (lspan l)
        then \<lparr>alen = alen a + n,
              alist = butlast (alist a) @
                [l\<lparr>lspan := (lspan l)\<lparr>sp_cnt := sp_cnt (lspan l) + sp_cnt s\<rparr>\<rparr>]\<rparr>
        else \<lparr>alen = alen a + n,
              alist = alist a @ [loc_span_new (sp_begin s) (sp_cnt s) (alen a)]\<rparr>)"

text \<open>\<open>frames[i].list.push(ls)\<close>: an index out of range panics.\<close>

definition push_span :: "addr list \<Rightarrow> nat \<Rightarrow> loc_span \<Rightarrow> addr list res" where
  "push_span frames i ls =
     bind_r (nth_r frames i) (\<lambda>f. Ok (frames[i := f\<lparr>alist := alist f @ [ls]\<rparr>]))"

text \<open>
  The inner loop of \<open>divide_to_frames\<close> on one located span: it either fits into the current
  frame, or the current frame is completed with a piece of it and a new frame is opened.
\<close>

function frame_loop :: "loc_span \<Rightarrow> addr list \<Rightarrow> nat \<Rightarrow> nat \<Rightarrow> (addr list \<times> nat \<times> nat) res" where
  "frame_loop ls frames frm_idx blk_cnt =
     bind_r (sub_r BLKS_PER_FRAME blk_cnt) (\<lambda>blk_left.
       if sp_cnt (lspan ls) \<le> blk_left
       then bind_r (push_span frames frm_idx ls) (\<lambda>frames1.
              Ok (frames1, frm_idx, blk_cnt + sp_cnt (lspan ls)))
       else bind_r (loc_span_split_to ls (sp_begin (lspan ls) + blk_left)) (\<lambda>(split, ls1).
              bind_r (push_span frames frm_idx split) (\<lambda>frames1.
                let frames2 = frames1[frm_idx := (frames1 ! frm_idx)\<lparr>alen := FRAME_SIZE\<rparr>]
                in frame_loop ls1 (frames2 @ [addr_default]) (Suc frm_idx) 0)))"
  by pat_completeness auto
termination
proof (relation "measure (\<lambda>(ls, frames, i, b). 2 * sp_cnt (lspan ls) + (if b = 0 then 0 else 1))",
    goal_cases)
  case 1
  then show ?case by simp
next
  case (2 ls frames i b blk_left p split ls1)
  then show ?case
    by (auto simp: sub_r_Ok_iff loc_span_split_to_def bind_r_Ok_iff span_split_to_Ok span_end_def
        BLKS_PER_FRAME_def split: prod.splits)
qed

declare frame_loop.simps [simp del]

fun frames_over :: "loc_span list \<Rightarrow> addr list \<Rightarrow> nat \<Rightarrow> nat \<Rightarrow> (addr list \<times> nat \<times> nat) res" where
  "frames_over [] frames frm_idx blk_cnt = Ok (frames, frm_idx, blk_cnt)"
| "frames_over (ls # rest) frames frm_idx blk_cnt =
     bind_r (frame_loop (ls\<lparr>loffset := frm_idx * FRAME_SIZE + blk_cnt * BLK_SIZE\<rparr>)
               frames frm_idx blk_cnt)
       (\<lambda>(frames1, i1, b1). frames_over rest frames1 i1 b1)"

definition divide_to_frames :: "addr \<Rightarrow> addr list res" where
  "divide_to_frames a =
     bind_r (frames_over (alist a) [addr_default] 0 0) (\<lambda>(frames, frm_idx, _).
       bind_r (sub_r (alen a) (frm_idx * FRAME_SIZE)) (\<lambda>l.
         let frames1 = butlast frames @ [(last frames)\<lparr>alen := l\<rparr>]
         in assert_r (alen a = sum_list (map alen frames1)) (Ok frames1)))"

subsection \<open>Allocator\<close>

record allocator =
  blk_wmark :: nat

definition allocator_new :: allocator where
  "allocator_new = \<lparr>blk_wmark = 0\<rparr>"

definition allocate :: "allocator \<Rightarrow> nat \<Rightarrow> span \<times> allocator" where
  "allocate al n = (span_new (blk_wmark al) n, al\<lparr>blk_wmark := blk_wmark al + n\<rparr>)"

subsection \<open>The abstract view\<close>

definition ls_blocks :: "loc_span \<Rightarrow> nat list" where
  "ls_blocks ls = span_blocks (lspan ls)"

definition blocks :: "addr \<Rightarrow> nat list" where
  "blocks a = concat (map ls_blocks (alist a))"

lemma blocks_default [simp]: "blocks addr_default = []"
  by (simp add: blocks_def addr_default_def)

lemma length_span_blocks [simp]: "length (span_blocks s) = sp_cnt s"
  by (simp add: span_blocks_def span_end_def)

lemma length_ls_blocks [simp]: "length (ls_blocks ls) = sp_cnt (lspan ls)"
  by (simp add: ls_blocks_def)

lemma span_split_blocks:
  "span_split_to s at = Ok (r, s') \<Longrightarrow> span_blocks s = span_blocks r @ span_blocks s'"
  by (auto simp: span_split_to_Ok span_blocks_def span_end_def)
    (metis le_add_diff_inverse nat_less_le upt_add_eq_append)

lemma blocks_push: "blocks (f\<lparr>alist := alist f @ [ls]\<rparr>) = blocks f @ ls_blocks ls"
  by (simp add: blocks_def)

lemma blocks_alen [simp]: "blocks (f\<lparr>alen := n\<rparr>) = blocks f"
  by (simp add: blocks_def)

lemma addr_append_blocks: "blocks (addr_append a s n) = blocks a @ span_blocks s"
proof (cases "alist a = []")
  case True
  then show ?thesis
    by (simp add: addr_append_def blocks_def ls_blocks_def loc_span_new_def span_new_def
        span_blocks_def span_end_def)
next
  case False
  then obtain xs l where l: "alist a = xs @ [l]" by (metis rev_exhaust)
  show ?thesis
    by (auto simp: addr_append_def l blocks_def ls_blocks_def loc_span_new_def span_new_def
        span_blocks_def span_end_def Let_def)
      (metis le_add1 upt_add_eq_append add.assoc)
qed

subsection \<open>Division into frames\<close>

text \<open>
  The first block of a frame is its key in the frame cache. \<open>key_ok\<close> says that the first
  located span of the frame is not empty, so that its \<open>begin\<close> is that block.
\<close>

definition key_ok :: "addr \<Rightarrow> bool" where
  "key_ok f \<longleftrightarrow> alist f \<noteq> [] \<and> 0 < sp_cnt (lspan (hd (alist f)))"

definition full_frame :: "addr \<Rightarrow> bool" where
  "full_frame f \<longleftrightarrow> length (blocks f) = BLKS_PER_FRAME \<and> alen f = FRAME_SIZE \<and> key_ok f"

definition open_frame :: "addr \<Rightarrow> nat \<Rightarrow> bool" where
  "open_frame f b \<longleftrightarrow> length (blocks f) = b \<and> b \<le> BLKS_PER_FRAME \<and> alen f = 0 \<and>
     (if b = 0 then alist f = [] else key_ok f)"

definition spans_ok :: "loc_span list \<Rightarrow> bool" where
  "spans_ok lss \<longleftrightarrow> (\<forall>ls \<in> set lss. 0 < sp_cnt (lspan ls))"

lemma key_ok_hd: "key_ok f \<Longrightarrow> blocks f \<noteq> [] \<and> sp_begin (lspan (hd (alist f))) = hd (blocks f)"
  by (cases "alist f") (auto simp: key_ok_def blocks_def ls_blocks_def span_blocks_def
      span_end_def upt_rec)

lemma push_span_last:
  "push_span (fs @ [f]) (length fs) ls = Ok (fs @ [f\<lparr>alist := alist f @ [ls]\<rparr>])"
  by (simp add: push_span_def nth_r_def)

lemma open_frame_push:
  assumes "open_frame f b" and "b + sp_cnt (lspan ls) \<le> BLKS_PER_FRAME" and "0 < sp_cnt (lspan ls)"
  shows "open_frame (f\<lparr>alist := alist f @ [ls]\<rparr>) (b + sp_cnt (lspan ls))"
  using assms by (cases "alist f") (auto simp: open_frame_def blocks_def key_ok_def split: if_splits)

lemma full_frame_push:
  assumes "open_frame f b" and "b + sp_cnt (lspan ls) = BLKS_PER_FRAME"
  shows "full_frame (f\<lparr>alist := alist f @ [ls], alen := FRAME_SIZE\<rparr>)"
  using assms
  by (cases "alist f")
    (auto simp: open_frame_def full_frame_def blocks_def key_ok_def BLKS_PER_FRAME_def
      split: if_splits)

lemma open_frame_new: "open_frame addr_default 0"
  by (simp add: open_frame_def addr_default_def)  (simp add: blocks_def)

lemma frame_loop_fit:
  assumes "b \<le> BLKS_PER_FRAME" and "sp_cnt (lspan ls) \<le> BLKS_PER_FRAME - b"
  shows "frame_loop ls (fs @ [f]) (length fs) b =
    Ok (fs @ [f\<lparr>alist := alist f @ [ls]\<rparr>], length fs, b + sp_cnt (lspan ls))"
  using assms by (subst frame_loop.simps) (simp add: sub_r_def push_span_last)

lemma frame_loop_split:
  fixes ls :: loc_span
  assumes "b \<le> BLKS_PER_FRAME" and "BLKS_PER_FRAME - b < sp_cnt (lspan ls)"
  obtains s1 s2 where
    "loc_span_split_to ls (sp_begin (lspan ls) + (BLKS_PER_FRAME - b)) = Ok (s1, s2)"
    "sp_cnt (lspan s1) = BLKS_PER_FRAME - b"
    "sp_cnt (lspan s2) = sp_cnt (lspan ls) - (BLKS_PER_FRAME - b)"
    "ls_blocks ls = ls_blocks s1 @ ls_blocks s2"
    "frame_loop ls (fs @ [f]) (length fs) b =
       frame_loop s2 ((fs @ [f\<lparr>alist := alist f @ [s1], alen := FRAME_SIZE\<rparr>]) @ [addr_default])
         (length (fs @ [f\<lparr>alist := alist f @ [s1], alen := FRAME_SIZE\<rparr>])) 0"
proof -
  let ?at = "sp_begin (lspan ls) + (BLKS_PER_FRAME - b)"
  obtain r s' where sp: "span_split_to (lspan ls) ?at = Ok (r, s')"
    and r: "sp_cnt r = BLKS_PER_FRAME - b" "sp_cnt s' = sp_cnt (lspan ls) - (BLKS_PER_FRAME - b)"
  proof (rule that)
    show "span_split_to (lspan ls) ?at =
      Ok (\<lparr>sp_begin = sp_begin (lspan ls), sp_cnt = BLKS_PER_FRAME - b\<rparr>,
          \<lparr>sp_begin = ?at, sp_cnt = sp_cnt (lspan ls) - (BLKS_PER_FRAME - b)\<rparr>)"
      using assms by (simp add: span_split_to_Ok span_end_def) linarith
  qed simp_all
  let ?s1 = "\<lparr>lspan = r, loffset = loffset ls\<rparr>"
  let ?s2 = "\<lparr>lspan = s', loffset = loffset ls + bytes_len r\<rparr>"
  have e: "loc_span_split_to ls ?at = Ok (?s1, ?s2)" by (simp add: loc_span_split_to_def sp)
  show ?thesis
  proof (rule that [OF e])
    show "ls_blocks ls = ls_blocks ?s1 @ ls_blocks ?s2"
      using span_split_blocks [OF sp] by (simp add: ls_blocks_def)
    show "frame_loop ls (fs @ [f]) (length fs) b =
       frame_loop ?s2 ((fs @ [f\<lparr>alist := alist f @ [?s1], alen := FRAME_SIZE\<rparr>]) @ [addr_default])
         (length (fs @ [f\<lparr>alist := alist f @ [?s1], alen := FRAME_SIZE\<rparr>])) 0"
      using assms e by (subst frame_loop.simps) (simp add: sub_r_def push_span_last)
  qed (simp_all add: r)
qed

lemma frame_loop_ok:
  assumes "\<forall>x \<in> set fs. full_frame x" and "open_frame f b" and "0 < sp_cnt (lspan ls)"
  shows "\<exists>fs' f' b'. frame_loop ls (fs @ [f]) (length fs) b = Ok (fs' @ [f'], length fs', b') \<and>
    (\<forall>x \<in> set fs'. full_frame x) \<and> open_frame f' b' \<and> 0 < b' \<and>
    concat (map blocks (fs' @ [f'])) = concat (map blocks (fs @ [f])) @ ls_blocks ls"
  using assms
proof (induction "2 * sp_cnt (lspan ls) + (if b = 0 then 0 else 1)" arbitrary: ls fs f b
    rule: less_induct)
  case less
  have b: "b \<le> BLKS_PER_FRAME" using less.prems(2) by (simp add: open_frame_def)
  show ?case
  proof (cases "sp_cnt (lspan ls) \<le> BLKS_PER_FRAME - b")
    case True
    then have "open_frame (f\<lparr>alist := alist f @ [ls]\<rparr>) (b + sp_cnt (lspan ls))"
      using less.prems b by (intro open_frame_push) simp_all
    with less.prems show ?thesis
      by (intro exI [of _ fs] exI [of _ "f\<lparr>alist := alist f @ [ls]\<rparr>"]
          exI [of _ "b + sp_cnt (lspan ls)"])
        (simp add: frame_loop_fit [OF b True] blocks_push)
  next
    case False
    then have lt: "BLKS_PER_FRAME - b < sp_cnt (lspan ls)" by simp
    obtain s1 s2 where s: "sp_cnt (lspan s1) = BLKS_PER_FRAME - b"
      "sp_cnt (lspan s2) = sp_cnt (lspan ls) - (BLKS_PER_FRAME - b)"
      "ls_blocks ls = ls_blocks s1 @ ls_blocks s2"
      and step: "frame_loop ls (fs @ [f]) (length fs) b =
       frame_loop s2 ((fs @ [f\<lparr>alist := alist f @ [s1], alen := FRAME_SIZE\<rparr>]) @ [addr_default])
         (length (fs @ [f\<lparr>alist := alist f @ [s1], alen := FRAME_SIZE\<rparr>])) 0"
      by (rule frame_loop_split [OF b lt]) blast
    let ?g = "f\<lparr>alist := alist f @ [s1], alen := FRAME_SIZE\<rparr>"
    have full: "\<forall>x \<in> set (fs @ [?g]). full_frame x"
      using less.prems b s(1) full_frame_push [of f b s1] by simp
    have dec: "2 * sp_cnt (lspan s2) + (if (0::nat) = 0 then 0 else 1) <
        2 * sp_cnt (lspan ls) + (if b = 0 then 0 else 1)"
      using s(2) lt b by (auto simp: BLKS_PER_FRAME_def)
    have pos: "0 < sp_cnt (lspan s2)" using s(2) lt by simp
    from less.hyps [OF dec full open_frame_new pos] obtain fs' f' b' where
      r: "frame_loop s2 ((fs @ [?g]) @ [addr_default]) (length (fs @ [?g])) 0 =
          Ok (fs' @ [f'], length fs', b')"
      "\<forall>x \<in> set fs'. full_frame x" "open_frame f' b'" "0 < b'"
      "concat (map blocks (fs' @ [f'])) =
         concat (map blocks ((fs @ [?g]) @ [addr_default])) @ ls_blocks s2"
      by blast
    have "blocks ?g = blocks f @ ls_blocks s1" by (simp add: blocks_def)
    with r s(3) show ?thesis unfolding step
      by (intro exI [of _ fs'] exI [of _ f'] exI [of _ b']) simp
  qed
qed

lemma frames_over_ok:
  assumes "\<forall>x \<in> set fs. full_frame x" and "open_frame f b" and "spans_ok lss"
  shows "\<exists>fs' f' b'. frames_over lss (fs @ [f]) (length fs) b = Ok (fs' @ [f'], length fs', b') \<and>
    (\<forall>x \<in> set fs'. full_frame x) \<and> open_frame f' b' \<and> (lss \<noteq> [] \<longrightarrow> 0 < b') \<and>
    concat (map blocks (fs' @ [f'])) = concat (map blocks (fs @ [f])) @ concat (map ls_blocks lss)"
  using assms
proof (induction lss arbitrary: fs f b)
  case Nil
  then show ?case by auto
next
  case (Cons ls lss)
  let ?ls = "ls\<lparr>loffset := length fs * FRAME_SIZE + b * BLK_SIZE\<rparr>"
  have "0 < sp_cnt (lspan ?ls)" using Cons.prems(3) by (simp add: spans_ok_def)
  from frame_loop_ok [OF Cons.prems(1,2) this] obtain fs1 f1 b1 where
    r1: "frame_loop ?ls (fs @ [f]) (length fs) b = Ok (fs1 @ [f1], length fs1, b1)"
    "\<forall>x \<in> set fs1. full_frame x" "open_frame f1 b1" "0 < b1"
    "concat (map blocks (fs1 @ [f1])) = concat (map blocks (fs @ [f])) @ ls_blocks ?ls"
    by blast
  have "spans_ok lss" using Cons.prems(3) by (simp add: spans_ok_def)
  from Cons.IH [OF r1(2,3) this] obtain fs2 f2 b2 where
    r2: "frames_over lss (fs1 @ [f1]) (length fs1) b1 = Ok (fs2 @ [f2], length fs2, b2)"
    "\<forall>x \<in> set fs2. full_frame x" "open_frame f2 b2" "lss \<noteq> [] \<longrightarrow> 0 < b2"
    "concat (map blocks (fs2 @ [f2])) =
       concat (map blocks (fs1 @ [f1])) @ concat (map ls_blocks lss)"
    by blast
  have "0 < b2"
    using r1 r2 by (cases "lss = []") (auto simp: open_frame_def)
  moreover have "ls_blocks ?ls = ls_blocks ls" by (simp add: ls_blocks_def)
  ultimately show ?case using r1 r2
    by (intro exI [of _ fs2] exI [of _ f2] exI [of _ b2]) simp
qed

lemma full_frames_count:
  assumes "\<forall>x \<in> set fs. full_frame x" and "open_frame f b"
    and "length (concat (map blocks (fs @ [f]))) = n"
  shows "n = length fs * BLKS_PER_FRAME + b" and "sum_list (map alen fs) = length fs * FRAME_SIZE"
proof -
  have "length (concat (map blocks fs)) = length fs * BLKS_PER_FRAME"
    using assms(1) by (induction fs) (auto simp: full_frame_def)
  with assms show "n = length fs * BLKS_PER_FRAME + b" by (simp add: open_frame_def)
  show "sum_list (map alen fs) = length fs * FRAME_SIZE"
    using assms(1) by (induction fs) (auto simp: full_frame_def)
qed

text \<open>
  An address written by the storage: no empty span, at least one block, and a byte length
  that reaches into the last frame.
\<close>

definition addr_ok :: "addr \<Rightarrow> bool" where
  "addr_ok a \<longleftrightarrow> alist a \<noteq> [] \<and> spans_ok (alist a) \<and>
     (length (blocks a) - 1) div BLKS_PER_FRAME * FRAME_SIZE \<le> alen a"

lemma divide_to_frames_cases:
  assumes "addr_ok a"
  obtains fs f b where "divide_to_frames a = Ok (fs @ [f])" "\<forall>x \<in> set fs. full_frame x"
    "length (blocks f) = b" "0 < b" "b \<le> BLKS_PER_FRAME" "key_ok f"
    "concat (map blocks (fs @ [f])) = blocks a"
    "alen f = alen a - length fs * FRAME_SIZE" "length fs * FRAME_SIZE \<le> alen a"
proof -
  have "\<forall>x \<in> set []. full_frame x" by simp
  from frames_over_ok [OF this open_frame_new, of "alist a"] assms obtain fs f b where
    r: "frames_over (alist a) [addr_default] 0 0 = Ok (fs @ [f], length fs, b)"
    "\<forall>x \<in> set fs. full_frame x" "open_frame f b" "0 < b"
    "concat (map blocks (fs @ [f])) = blocks a"
    by (auto simp: addr_ok_def blocks_def [of a])
  have cnt: "length (blocks a) = length fs * BLKS_PER_FRAME + b"
    and sum: "sum_list (map alen fs) = length fs * FRAME_SIZE"
    using full_frames_count [OF r(2,3)] r(5) by metis+
  have "b \<le> BLKS_PER_FRAME" using r(3) by (simp add: open_frame_def)
  then have "(length (blocks a) - 1) div BLKS_PER_FRAME = length fs"
    using r(4) cnt by (intro div_nat_eqI) (auto simp: algebra_simps)
  then have le: "length fs * FRAME_SIZE \<le> alen a" using assms by (simp add: addr_ok_def)
  let ?f = "f\<lparr>alen := alen a - length fs * FRAME_SIZE\<rparr>"
  have "divide_to_frames a = Ok (fs @ [?f])"
    using r(1) le sum by (simp add: divide_to_frames_def sub_r_def assert_r_def)
  moreover have "key_ok ?f" using r(3,4) by (simp add: open_frame_def key_ok_def)
  ultimately show ?thesis
    using r le by (intro that [of fs ?f b]) (simp_all add: open_frame_def)
qed

subsection \<open>Properties\<close>





end
