(* ===== verification/Storable.thy ===== *)
theory Storable
  imports Address Ids
begin

text \<open>
  The trait \<open>Storable\<close> of \<open>src/src/volume/storage/mod.rs\<close>: the interface every storage back
  end implements. The models above it take the operations as a record, as the Rust code takes
  a boxed trait object, and the locale \<open>storable\<close> states what the layer above relies on. A
  back end state is observed through three maps (wal, address and block), and \<open>inv\<close> is
  what holds of an attached back end. Every operation returns its result and the new state.
\<close>

record 's storable_ops =
  st_get_super_block :: "'s \<Rightarrow> nat \<Rightarrow> bytes res \<times> 's"
  st_put_super_block :: "'s \<Rightarrow> bytes \<Rightarrow> nat \<Rightarrow> unit res \<times> 's"
  st_get_wal :: "'s \<Rightarrow> eid \<Rightarrow> bytes res \<times> 's"
  st_put_wal :: "'s \<Rightarrow> eid \<Rightarrow> bytes \<Rightarrow> unit res \<times> 's"
  st_del_wal :: "'s \<Rightarrow> eid \<Rightarrow> unit res \<times> 's"
  st_get_address :: "'s \<Rightarrow> eid \<Rightarrow> bytes res \<times> 's"
  st_put_address :: "'s \<Rightarrow> eid \<Rightarrow> bytes \<Rightarrow> unit res \<times> 's"
  st_del_address :: "'s \<Rightarrow> eid \<Rightarrow> unit res \<times> 's"
  st_get_blocks :: "'s \<Rightarrow> span \<Rightarrow> bytes res \<times> 's"
  st_put_blocks :: "'s \<Rightarrow> span \<Rightarrow> bytes \<Rightarrow> unit res \<times> 's"
  st_del_blocks :: "'s \<Rightarrow> span \<Rightarrow> unit res \<times> 's"
  st_flush :: "'s \<Rightarrow> unit res \<times> 's"

text \<open>The block map after writing \<open>bs\<close>, in pieces of one block, to consecutive indices.\<close>

fun put_blk_map :: "(nat \<rightharpoonup> bytes) \<Rightarrow> nat list \<Rightarrow> bytes \<Rightarrow> (nat \<rightharpoonup> bytes)" where
  "put_blk_map m [] bs = m"
| "put_blk_map m (i # is) bs = put_blk_map (m(i \<mapsto> take BLK_SIZE bs)) is (drop BLK_SIZE bs)"

text \<open>The bytes of a list of blocks, when all of them are present.\<close>

fun read_blks :: "(nat \<rightharpoonup> bytes) \<Rightarrow> nat list \<Rightarrow> bytes option" where
  "read_blks m [] = Some []"
| "read_blks m (i # is) =
     (case m i of None \<Rightarrow> None | Some b \<Rightarrow> map_option ((@) b) (read_blks m is))"

definition blks_sized :: "(nat \<rightharpoonup> bytes) \<Rightarrow> bool" where
  "blks_sized m \<longleftrightarrow> (\<forall>i b. m i = Some b \<longrightarrow> length b = BLK_SIZE)"

locale storable =
  fixes D :: "'s storable_ops"
    and inv :: "'s \<Rightarrow> bool"
    and wal :: "'s \<Rightarrow> eid \<rightharpoonup> bytes"
    and adr :: "'s \<Rightarrow> eid \<rightharpoonup> bytes"
    and blk :: "'s \<Rightarrow> nat \<rightharpoonup> bytes"
  assumes get_wal: "inv s \<Longrightarrow> st_get_wal D s e = (ok_or (wal s e) NotFound, s)"
    and put_wal: "inv s \<Longrightarrow> \<exists>s'. st_put_wal D s e b = (Ok (), s') \<and> inv s' \<and>
          wal s' = (wal s)(e \<mapsto> b) \<and> adr s' = adr s \<and> blk s' = blk s"
    and del_wal: "inv s \<Longrightarrow> \<exists>s'. st_del_wal D s e = (Ok (), s') \<and> inv s' \<and>
          wal s' = (wal s)(e := None) \<and> adr s' = adr s \<and> blk s' = blk s"
    and get_address: "inv s \<Longrightarrow> st_get_address D s e = (ok_or (adr s e) NotFound, s)"
    and put_address: "inv s \<Longrightarrow> \<exists>s'. st_put_address D s e b = (Ok (), s') \<and> inv s' \<and>
          wal s' = wal s \<and> adr s' = (adr s)(e \<mapsto> b) \<and> blk s' = blk s"
    and del_address: "inv s \<Longrightarrow> \<exists>s'. st_del_address D s e = (Ok (), s') \<and> inv s' \<and>
          wal s' = wal s \<and> adr s' = (adr s)(e := None) \<and> blk s' = blk s"
    and get_blocks: "inv s \<Longrightarrow> st_get_blocks D s sp =
          (ok_or (read_blks (blk s) (span_blocks sp)) NotFound, s)"
    and put_blocks: "inv s \<Longrightarrow> length b = bytes_len sp \<Longrightarrow>
          \<exists>s'. st_put_blocks D s sp b = (Ok (), s') \<and> inv s' \<and>
          wal s' = wal s \<and> adr s' = adr s \<and> blk s' = put_blk_map (blk s) (span_blocks sp) b"
    and del_blocks: "inv s \<Longrightarrow> \<exists>s'. st_del_blocks D s sp = (Ok (), s') \<and> inv s' \<and>
          wal s' = wal s \<and> adr s' = adr s \<and> blk s' = (blk s) |` (- set (span_blocks sp))"
    and sized: "inv s \<Longrightarrow> blks_sized (blk s)"

subsection \<open>Facts on block maps\<close>

lemma put_blk_map_other: "j \<notin> set is \<Longrightarrow> put_blk_map m is bs j = m j"
  by (induction m "is" bs rule: put_blk_map.induct) auto

lemma read_blks_cong: "(\<And>i. i \<in> set is \<Longrightarrow> m i = m' i) \<Longrightarrow> read_blks m is = read_blks m' is"
  by (induction "is") (auto split: option.splits)

lemma read_put_blks:
  assumes "distinct is" and "length bs = length is * BLK_SIZE"
  shows "read_blks (put_blk_map m is bs) is = Some bs"
  using assms
proof (induction "is" arbitrary: m bs)
  case Nil
  then show ?case by simp
next
  case (Cons i "is")
  have "read_blks (put_blk_map (m(i \<mapsto> take BLK_SIZE bs)) is (drop BLK_SIZE bs)) is =
      Some (drop BLK_SIZE bs)"
    using Cons.prems by (intro Cons.IH) auto
  with Cons.prems show ?case
    by (simp add: put_blk_map_other)
qed

lemma read_blks_append:
  "read_blks m (is @ js) =
     (case read_blks m is of None \<Rightarrow> None | Some b \<Rightarrow> map_option ((@) b) (read_blks m js))"
proof (induction "is")
  case Nil
  show ?case by (cases "read_blks m js") simp_all
next
  case (Cons i "is")
  then show ?case by (cases "read_blks m js") (auto split: option.splits)
qed

lemma read_blks_length:
  "blks_sized m \<Longrightarrow> read_blks m is = Some b \<Longrightarrow> length b = length is * BLK_SIZE"
  by (induction "is" arbitrary: b) (auto simp: blks_sized_def split: option.splits)

lemma put_blk_map_sized:
  "blks_sized m \<Longrightarrow> length bs = length is * BLK_SIZE \<Longrightarrow> blks_sized (put_blk_map m is bs)"
proof (induction "is" arbitrary: m bs)
  case Nil
  then show ?case by simp
next
  case (Cons i "is")
  have "blks_sized (m(i \<mapsto> take BLK_SIZE bs))"
    using Cons.prems by (simp add: blks_sized_def)
  moreover have "length (drop BLK_SIZE bs) = length is * BLK_SIZE" using Cons.prems by simp
  ultimately have "blks_sized (put_blk_map (m(i \<mapsto> take BLK_SIZE bs)) is (drop BLK_SIZE bs))"
    by (rule Cons.IH)
  then show ?case by (simp only: put_blk_map.simps)
qed

lemma distinct_span_blocks [simp]: "distinct (span_blocks sp)"
  by (simp add: span_blocks_def)

lemma read_blks_Some: "(\<And>i. i \<in> set is \<Longrightarrow> m i \<noteq> None) \<Longrightarrow> \<exists>b. read_blks m is = Some b"
  by (induction "is") force+

end
