(* ===== verification/Mem_Storage.thy ===== *)
theory Mem_Storage
  imports Storable
begin

text \<open>
  \<open>src/src/volume/storage/mem/mem.rs\<close>: the in-memory back end. The static table of depots
  is shared by all handles, so a state is a handle (\<open>MemStorage\<close>) and the table. Looking up
  the depot of a handle that has none is an \<open>unwrap\<close> on \<open>None\<close> and panics.
\<close>

record mem_depot =
  is_opened :: bool
  super_blk_map :: "nat \<rightharpoonup> bytes"
  wal_map :: "eid \<rightharpoonup> bytes"
  blk_map :: "nat \<rightharpoonup> bytes"
  addr_map :: "eid \<rightharpoonup> bytes"

definition mem_depot_new :: mem_depot where
  "mem_depot_new = \<lparr>is_opened = False, super_blk_map = Map.empty, wal_map = Map.empty,
     blk_map = Map.empty, addr_map = Map.empty\<rparr>"

record mem_storage =
  is_attached :: bool
  loc :: string

type_synonym storages = "string \<rightharpoonup> mem_depot"
type_synonym mem = "mem_storage \<times> storages"

definition mem_new :: "string \<Rightarrow> mem_storage" where
  "mem_new l = \<lparr>is_attached = False, loc = l\<rparr>"

definition lock_repo :: "mem \<Rightarrow> bool \<Rightarrow> unit res \<times> mem" where
  "lock_repo s force =
     (case s of (h, st) \<Rightarrow>
       (case st (loc h) of
          None \<Rightarrow> (Panic, s)
        | Some d \<Rightarrow>
            if is_opened d \<and> \<not> force then (Err RepoOpened, s)
            else (Ok (), (h\<lparr>is_attached := True\<rparr>, st(loc h \<mapsto> d\<lparr>is_opened := True\<rparr>)))))"

definition mem_exists :: "mem \<Rightarrow> bool res" where
  "mem_exists s = Ok (snd s (loc (fst s)) \<noteq> None)"

definition mem_init :: "mem \<Rightarrow> unit res \<times> mem" where
  "mem_init s = (case s of (h, st) \<Rightarrow> lock_repo (h, st(loc h \<mapsto> mem_depot_new)) False)"

definition mem_open :: "mem \<Rightarrow> bool \<Rightarrow> unit res \<times> mem" where
  "mem_open s force = lock_repo s force"

text \<open>Reading and updating the depot of the handle.\<close>

definition with_depot :: "mem \<Rightarrow> (mem_depot \<Rightarrow> 'a res) \<Rightarrow> 'a res \<times> mem" where
  "with_depot s f = (bind_r (unwrap_opt (snd s (loc (fst s)))) f, s)"

definition upd_depot :: "mem \<Rightarrow> (mem_depot \<Rightarrow> mem_depot) \<Rightarrow> unit res \<times> mem" where
  "upd_depot s f =
     (case snd s (loc (fst s)) of
        None \<Rightarrow> (Panic, s)
      | Some d \<Rightarrow> (Ok (), (fst s, (snd s)(loc (fst s) \<mapsto> f d))))"

text \<open>Only \<open>get_super_block\<close> reports a missing depot as an error instead of panicking.\<close>

definition mem_get_super_block :: "mem \<Rightarrow> nat \<Rightarrow> bytes res \<times> mem" where
  "mem_get_super_block s suffix =
     (bind_r (ok_or (snd s (loc (fst s))) NotFound)
        (\<lambda>d. ok_or (super_blk_map d suffix) NotFound), s)"

definition mem_put_super_block :: "mem \<Rightarrow> bytes \<Rightarrow> nat \<Rightarrow> unit res \<times> mem" where
  "mem_put_super_block s b suffix =
     upd_depot s (\<lambda>d. d\<lparr>super_blk_map := (super_blk_map d)(suffix \<mapsto> b)\<rparr>)"

definition mem_get_wal :: "mem \<Rightarrow> eid \<Rightarrow> bytes res \<times> mem" where
  "mem_get_wal s e = with_depot s (\<lambda>d. ok_or (wal_map d e) NotFound)"

definition mem_put_wal :: "mem \<Rightarrow> eid \<Rightarrow> bytes \<Rightarrow> unit res \<times> mem" where
  "mem_put_wal s e b = upd_depot s (\<lambda>d. d\<lparr>wal_map := (wal_map d)(e \<mapsto> b)\<rparr>)"

definition mem_del_wal :: "mem \<Rightarrow> eid \<Rightarrow> unit res \<times> mem" where
  "mem_del_wal s e = upd_depot s (\<lambda>d. d\<lparr>wal_map := (wal_map d)(e := None)\<rparr>)"

definition mem_get_address :: "mem \<Rightarrow> eid \<Rightarrow> bytes res \<times> mem" where
  "mem_get_address s e = with_depot s (\<lambda>d. ok_or (addr_map d e) NotFound)"

definition mem_put_address :: "mem \<Rightarrow> eid \<Rightarrow> bytes \<Rightarrow> unit res \<times> mem" where
  "mem_put_address s e b = upd_depot s (\<lambda>d. d\<lparr>addr_map := (addr_map d)(e \<mapsto> b)\<rparr>)"

definition mem_del_address :: "mem \<Rightarrow> eid \<Rightarrow> unit res \<times> mem" where
  "mem_del_address s e = upd_depot s (\<lambda>d. d\<lparr>addr_map := (addr_map d)(e := None)\<rparr>)"

text \<open>
  \<open>get_blocks\<close> fills the destination block by block: a missing block is \<open>NotFound\<close>, and
  \<open>copy_from_slice\<close> panics on a block of another length.
\<close>

fun copy_blocks :: "(nat \<rightharpoonup> bytes) \<Rightarrow> nat list \<Rightarrow> bytes res" where
  "copy_blocks m [] = Ok []"
| "copy_blocks m (i # is) =
     (case m i of
        None \<Rightarrow> Err NotFound
      | Some b \<Rightarrow> assert_r (length b = BLK_SIZE)
                    (bind_r (copy_blocks m is) (\<lambda>rest. Ok (b @ rest))))"

definition mem_get_blocks :: "mem \<Rightarrow> span \<Rightarrow> bytes res \<times> mem" where
  "mem_get_blocks s sp = with_depot s (\<lambda>d. copy_blocks (blk_map d) (span_blocks sp))"

definition mem_put_blocks :: "mem \<Rightarrow> span \<Rightarrow> bytes \<Rightarrow> unit res \<times> mem" where
  "mem_put_blocks s sp b =
     (if length b = bytes_len sp
      then upd_depot s (\<lambda>d. d\<lparr>blk_map := put_blk_map (blk_map d) (span_blocks sp) b\<rparr>)
      else (Panic, s))"

definition mem_del_blocks :: "mem \<Rightarrow> span \<Rightarrow> unit res \<times> mem" where
  "mem_del_blocks s sp =
     upd_depot s (\<lambda>d. d\<lparr>blk_map := fold (\<lambda>i m. m(i := None)) (span_blocks sp) (blk_map d)\<rparr>)"

definition mem_flush :: "mem \<Rightarrow> unit res \<times> mem" where
  "mem_flush s = (Ok (), s)"

definition mem_destroy :: "mem \<Rightarrow> unit res \<times> mem" where
  "mem_destroy s = (Ok (), (fst s, (snd s)(loc (fst s) := None)))"

text \<open>\<open>Drop\<close>: an attached handle releases the lock of its depot, if the depot still exists.\<close>

definition mem_drop :: "mem \<Rightarrow> storages" where
  "mem_drop s =
     (case s of (h, st) \<Rightarrow>
        if is_attached h
        then (case st (loc h) of None \<Rightarrow> st | Some d \<Rightarrow> st(loc h \<mapsto> d\<lparr>is_opened := False\<rparr>))
        else st)"

definition mem_ops :: "mem storable_ops" where
  "mem_ops =
     \<lparr>st_get_super_block = mem_get_super_block, st_put_super_block = mem_put_super_block,
      st_get_wal = mem_get_wal, st_put_wal = mem_put_wal, st_del_wal = mem_del_wal,
      st_get_address = mem_get_address, st_put_address = mem_put_address,
      st_del_address = mem_del_address, st_get_blocks = mem_get_blocks,
      st_put_blocks = mem_put_blocks, st_del_blocks = mem_del_blocks, st_flush = mem_flush\<rparr>"

subsection \<open>The back end contract\<close>

definition depot_of :: "mem \<Rightarrow> mem_depot option" where
  "depot_of s = snd s (loc (fst s))"

definition mem_inv :: "mem \<Rightarrow> bool" where
  "mem_inv s \<longleftrightarrow> (case depot_of s of None \<Rightarrow> False | Some d \<Rightarrow> blks_sized (blk_map d))"

definition mem_wal :: "mem \<Rightarrow> eid \<rightharpoonup> bytes" where
  "mem_wal s = (case depot_of s of None \<Rightarrow> Map.empty | Some d \<Rightarrow> wal_map d)"

definition mem_adr :: "mem \<Rightarrow> eid \<rightharpoonup> bytes" where
  "mem_adr s = (case depot_of s of None \<Rightarrow> Map.empty | Some d \<Rightarrow> addr_map d)"

definition mem_blk :: "mem \<Rightarrow> nat \<rightharpoonup> bytes" where
  "mem_blk s = (case depot_of s of None \<Rightarrow> Map.empty | Some d \<Rightarrow> blk_map d)"

lemmas mem_view_defs = mem_inv_def mem_wal_def mem_adr_def mem_blk_def depot_of_def

lemma copy_blocks_read:
  "blks_sized m \<Longrightarrow> copy_blocks m is = ok_or (read_blks m is) NotFound"
  by (induction "is")
    (auto simp: ok_or_def assert_r_def blks_sized_def split: option.splits)

lemma fold_del: "fold (\<lambda>i m. m(i := None)) is m = m |` (- set is)"
  by (induction "is" arbitrary: m) (auto simp: restrict_map_def fun_eq_iff)

lemma blks_sized_restrict: "blks_sized m \<Longrightarrow> blks_sized (m |` A)"
  by (auto simp: blks_sized_def restrict_map_def)

interpretation mem: storable mem_ops mem_inv mem_wal mem_adr mem_blk
proof unfold_locales
  fix s :: mem and e :: eid and b :: bytes and sp :: span
  assume "mem_inv s"
  then obtain d where d: "snd s (loc (fst s)) = Some d" "blks_sized (blk_map d)"
    by (auto simp: mem_view_defs split: option.splits)
  show "st_get_wal mem_ops s e = (ok_or (mem_wal s e) NotFound, s)"
    by (simp add: mem_ops_def mem_get_wal_def with_depot_def d mem_view_defs unwrap_opt_def)
  show "\<exists>s'. st_put_wal mem_ops s e b = (Ok (), s') \<and> mem_inv s' \<and>
      mem_wal s' = (mem_wal s)(e \<mapsto> b) \<and> mem_adr s' = mem_adr s \<and> mem_blk s' = mem_blk s"
    by (simp add: mem_ops_def mem_put_wal_def upd_depot_def d mem_view_defs)
  show "\<exists>s'. st_del_wal mem_ops s e = (Ok (), s') \<and> mem_inv s' \<and>
      mem_wal s' = (mem_wal s)(e := None) \<and> mem_adr s' = mem_adr s \<and> mem_blk s' = mem_blk s"
    by (simp add: mem_ops_def mem_del_wal_def upd_depot_def d mem_view_defs)
  show "st_get_address mem_ops s e = (ok_or (mem_adr s e) NotFound, s)"
    by (simp add: mem_ops_def mem_get_address_def with_depot_def d mem_view_defs unwrap_opt_def)
  show "\<exists>s'. st_put_address mem_ops s e b = (Ok (), s') \<and> mem_inv s' \<and>
      mem_wal s' = mem_wal s \<and> mem_adr s' = (mem_adr s)(e \<mapsto> b) \<and> mem_blk s' = mem_blk s"
    by (simp add: mem_ops_def mem_put_address_def upd_depot_def d mem_view_defs)
  show "\<exists>s'. st_del_address mem_ops s e = (Ok (), s') \<and> mem_inv s' \<and>
      mem_wal s' = mem_wal s \<and> mem_adr s' = (mem_adr s)(e := None) \<and> mem_blk s' = mem_blk s"
    by (simp add: mem_ops_def mem_del_address_def upd_depot_def d mem_view_defs)
  show "st_get_blocks mem_ops s sp = (ok_or (read_blks (mem_blk s) (span_blocks sp)) NotFound, s)"
    by (simp add: mem_ops_def mem_get_blocks_def with_depot_def d mem_view_defs unwrap_opt_def
        copy_blocks_read)
  show "\<exists>s'. st_put_blocks mem_ops s sp b = (Ok (), s') \<and> mem_inv s' \<and> mem_wal s' = mem_wal s \<and>
      mem_adr s' = mem_adr s \<and> mem_blk s' = put_blk_map (mem_blk s) (span_blocks sp) b"
    if "length b = bytes_len sp"
    using that d by (simp add: mem_ops_def mem_put_blocks_def upd_depot_def mem_view_defs
        put_blk_map_sized bytes_len_def)
  show "\<exists>s'. st_del_blocks mem_ops s sp = (Ok (), s') \<and> mem_inv s' \<and> mem_wal s' = mem_wal s \<and>
      mem_adr s' = mem_adr s \<and> mem_blk s' = mem_blk s |` (- set (span_blocks sp))"
    by (simp add: mem_ops_def mem_del_blocks_def upd_depot_def d mem_view_defs fold_del
        blks_sized_restrict)
  show "blks_sized (mem_blk s)" by (simp add: mem_view_defs d)
qed

subsection \<open>Properties\<close>

lemma lock_repo_Ok:
  assumes "lock_repo (h, st) force = (Ok (), (h', st'))"
  obtains d where "st (loc h) = Some d" "h' = h\<lparr>is_attached := True\<rparr>"
    "st' = st(loc h \<mapsto> d\<lparr>is_opened := True\<rparr>)"
  using assms by (cases "st (loc h)") (auto simp: lock_repo_def split: if_splits)

text \<open>
  The repository lock: after a handle has created or opened a memory repository, any
  other handle on the same location is refused with \<open>RepoOpened\<close> unless it forces the open,
  and it is accepted again once the first handle has been dropped; neither attempt changes
  the stored data.
\<close>

lemma mem_lock_excludes:
  assumes "lock_repo (h, st) force = (Ok (), (h', st'))" and "loc g = loc h"
  shows "lock_repo (g, st') False = (Err RepoOpened, (g, st')) \<and>
    (\<exists>g' st''. lock_repo (g, mem_drop (h', st')) False = (Ok (), (g', st''))
          \<and> map_option blk_map (st'' (loc h)) = map_option blk_map (st (loc h)))"
proof -
  obtain d where d: "st (loc h) = Some d" "h' = h\<lparr>is_attached := True\<rparr>"
    "st' = st(loc h \<mapsto> d\<lparr>is_opened := True\<rparr>)"
    using assms(1) by (rule lock_repo_Ok)
  have "mem_drop (h', st') = st(loc h \<mapsto> d\<lparr>is_opened := False\<rparr>)"
    by (simp add: mem_drop_def d)
  then show ?thesis
    using assms(2) by (simp add: lock_repo_def d)
qed

text \<open>
  C14. Blocks written to an attached memory repository read back unchanged, also after other
  blocks have been written or deleted that do not overlap them; deleting them makes the read
  fail with \<open>NotFound\<close> unless the span is empty.
\<close>

theorem mem_blocks_roundtrip:
  assumes "mem_inv s" and "length b = bytes_len sp"
    and "set (span_blocks sp) \<inter> set (span_blocks sq) = {}" and "length c = bytes_len sq"
  shows "\<exists>s1 s2 s3. mem_put_blocks s sp b = (Ok (), s1) \<and> mem_put_blocks s1 sq c = (Ok (), s2) \<and>
    mem_del_blocks s2 sq = (Ok (), s3) \<and>
    fst (mem_get_blocks s1 sp) = Ok b \<and> fst (mem_get_blocks s2 sp) = Ok b \<and>
    fst (mem_get_blocks s3 sp) = Ok b \<and>
    (0 < sp_cnt sq \<longrightarrow> fst (mem_get_blocks s3 sq) = Err NotFound)"
proof -
  obtain s1 where s1: "mem_put_blocks s sp b = (Ok (), s1)" "mem_inv s1"
    "mem_blk s1 = put_blk_map (mem_blk s) (span_blocks sp) b"
    using mem.put_blocks [OF assms(1,2)] by (auto simp: mem_ops_def)
  obtain s2 where s2: "mem_put_blocks s1 sq c = (Ok (), s2)" "mem_inv s2"
    "mem_blk s2 = put_blk_map (mem_blk s1) (span_blocks sq) c"
    using mem.put_blocks [OF s1(2) assms(4)] by (auto simp: mem_ops_def)
  obtain s3 where s3: "mem_del_blocks s2 sq = (Ok (), s3)" "mem_inv s3"
    "mem_blk s3 = (mem_blk s2) |` (- set (span_blocks sq))"
    using mem.del_blocks [OF s2(2), of sq] by (auto simp: mem_ops_def)
  have r1: "read_blks (mem_blk s1) (span_blocks sp) = Some b"
    using assms(2) s1(3) by (simp add: read_put_blks bytes_len_def)
  have r2: "read_blks (mem_blk s2) (span_blocks sp) = Some b"
    using assms(3) r1 s2(3) by (metis disjoint_iff put_blk_map_other read_blks_cong)
  have r3: "read_blks (mem_blk s3) (span_blocks sp) = Some b"
    using assms(3) r2 s3(3) read_blks_cong [of "span_blocks sp" "mem_blk s3" "mem_blk s2"]
    by (auto simp: restrict_map_def disjoint_iff)
  have "read_blks (mem_blk s3) (span_blocks sq) = None" if "0 < sp_cnt sq"
    using that s3(3) by (simp add: span_blocks_def span_end_def upt_conv_Cons)
  then have "0 < sp_cnt sq \<longrightarrow> fst (mem_get_blocks s3 sq) = Err NotFound"
    using mem.get_blocks [OF s3(2), of sq] by (simp add: mem_ops_def ok_or_def)
  moreover have "fst (mem_get_blocks s1 sp) = Ok b"
    using mem.get_blocks [OF s1(2), of sp] r1 by (simp add: mem_ops_def ok_or_def)
  moreover have "fst (mem_get_blocks s2 sp) = Ok b"
    using mem.get_blocks [OF s2(2), of sp] r2 by (simp add: mem_ops_def ok_or_def)
  moreover have "fst (mem_get_blocks s3 sp) = Ok b"
    using mem.get_blocks [OF s3(2), of sp] r3 by (simp add: mem_ops_def ok_or_def)
  ultimately show ?thesis using s1(1) s2(1) s3(1)
    by (intro exI [of _ s1] exI [of _ s2] exI [of _ s3] conjI)
qed

theorem mem_blocks_roundtrip_witness:
  "\<exists>s1. mem_put_blocks (mem_new ''a'', [''a'' \<mapsto> mem_depot_new]) (span_new 4 1) (replicate BLK_SIZE 7)
     = (Ok (), s1) \<and> fst (mem_get_blocks s1 (span_new 4 1)) = Ok (replicate BLK_SIZE 7)"
proof -
  have h: "mem_inv (mem_new ''a'', [''a'' \<mapsto> mem_depot_new])"
    by (simp add: mem_view_defs mem_new_def mem_depot_new_def blks_sized_def)
  have l: "length (replicate BLK_SIZE (7::byte)) = bytes_len (span_new 4 1)"
    "set (span_blocks (span_new 4 1)) \<inter> set (span_blocks (span_new 9 0)) = {}"
    "length ([] :: bytes) = bytes_len (span_new 9 0)"
    by (simp_all add: bytes_len_def span_new_def span_blocks_def span_end_def)
  from mem_blocks_roundtrip [OF h l] show ?thesis by (elim exE conjE) (intro exI conjI)
qed

end
