(* ===== verification/Storage.thy ===== *)
theory Storage
  imports Zbox_Effect Crypto Lru Storable Mem_Storage
begin

text \<open>
  \<open>src/src/volume/storage/storage.rs\<close>: the layer between the volume and a back end. It
  encrypts addresses, wal records and frames, allocates blocks, and caches decrypted frames
  (by the first block of the frame) and entity addresses.

  The back end, libsodium, the linked hash maps of the two caches and the serializer of
  addresses are the fields of an environment \<open>E\<close>. A reader or writer is a record; the
  storage it refers to is threaded. A writer holds a weak reference, so its state is an
  optional storage: \<open>None\<close> when the storage has been dropped.
\<close>

record 'd st_env =
  en_depot :: "'d storable_ops"
  en_sodium :: sodium
  en_frames :: "(nat, bytes) lhm_ops"
  en_addrs :: "(eid, addr) lhm_ops"
  en_ser :: "addr \<Rightarrow> bytes res"
  en_deser :: "bytes \<Rightarrow> addr res"

text \<open>\<open>sg_draws\<close> counts the draws from the random generator of the library.\<close>

record 'd storage =
  sg_depot :: 'd
  sg_alloc :: allocator
  sg_crypto :: crypto
  sg_key :: key
  sg_frames :: "(nat, bytes) lru"
  sg_addrs :: "(eid, addr) lru"
  sg_draws :: nat

definition FRAME_CACHE_SIZE :: nat where "FRAME_CACHE_SIZE = 4 * 1024 * 1024"
definition FRAME_CACHE_THRESHOLD :: nat where "FRAME_CACHE_THRESHOLD = 512 * 1024"
definition ADDRESS_CACHE_SIZE :: nat where "ADDRESS_CACHE_SIZE = 64"

text \<open>\<open>FrameCacheMeter\<close>: frames are measured by their length.\<close>

definition frame_meter :: "bytes \<Rightarrow> int" where
  "frame_meter b = int (length b)"

definition storage_new :: "'d \<Rightarrow> nat \<Rightarrow> 'd storage" where
  "storage_new d draws =
     \<lparr>sg_depot = d, sg_alloc = allocator_new, sg_crypto = crypto_default,
      sg_key = replicate KEY_SIZE 0, sg_frames = lru_new FRAME_CACHE_SIZE,
      sg_addrs = lru_new ADDRESS_CACHE_SIZE, sg_draws = draws\<rparr>"

subsection \<open>Access to the parts\<close>

definition on_depot :: "('a, 'e, 'd) eff \<Rightarrow> ('a, 'e, 'd storage) eff" where
  "on_depot m = zoom sg_depot (\<lambda>d s. s\<lparr>sg_depot := d\<rparr>) m"

definition sg_encrypt :: "'d st_env \<Rightarrow> bytes \<Rightarrow> (bytes, error, 'd storage) eff" where
  "sg_encrypt E b = (\<lambda>s.
     case crypto_encrypt (en_sodium E) (sg_crypto s) (sg_draws s) b (sg_key s) of
       (r, n) \<Rightarrow> (r, s\<lparr>sg_draws := n\<rparr>))"

definition sg_decrypt :: "'d st_env \<Rightarrow> bytes \<Rightarrow> (bytes, error, 'd storage) eff" where
  "sg_decrypt E b = (\<lambda>s. (crypto_decrypt (en_sodium E) (sg_crypto s) b (sg_key s), s))"

definition addr_lookup :: "'d st_env \<Rightarrow> eid \<Rightarrow> (addr option, error, 'd storage) eff" where
  "addr_lookup E e = (\<lambda>s. case get_refresh (en_addrs E) (sg_addrs s) e of
     (r, c) \<Rightarrow> (Ok r, s\<lparr>sg_addrs := c\<rparr>))"

definition addr_store :: "'d st_env \<Rightarrow> eid \<Rightarrow> addr \<Rightarrow> (unit, error, 'd storage) eff" where
  "addr_store E e a = modify_s (\<lambda>s.
     s\<lparr>sg_addrs := snd (lru_insert (en_addrs E) count_meter no_pin (sg_addrs s) e a)\<rparr>)"

subsection \<open>Addresses\<close>

definition get_address :: "'d st_env \<Rightarrow> eid \<Rightarrow> (addr, error, 'd storage) eff" where
  "get_address E e =
     bind_s (addr_lookup E e) (\<lambda>cached.
       case cached of
         Some a \<Rightarrow> ret_s a
       | None \<Rightarrow>
           bind_s (on_depot (\<lambda>d. st_get_address (en_depot E) d e)) (\<lambda>buf.
           bind_s (sg_decrypt E buf) (\<lambda>buf'.
           bind_s (lift_r (en_deser E buf')) (\<lambda>a.
           bind_s (addr_store E e a) (\<lambda>_. ret_s a)))))"

definition put_address :: "'d st_env \<Rightarrow> eid \<Rightarrow> addr \<Rightarrow> (unit, error, 'd storage) eff" where
  "put_address E e a =
     bind_s (lift_r (en_ser E a)) (\<lambda>buf.
     bind_s (sg_encrypt E buf) (\<lambda>buf'.
     bind_s (on_depot (\<lambda>d. st_put_address (en_depot E) d e buf')) (\<lambda>_. addr_store E e a)))"

text \<open>
  The inner loop of \<open>remove_address_blocks\<close>: walking over one span of an address, the cached
  frame is dropped whenever the running block count is at the start of a frame.
\<close>

function drop_frames ::
  "(nat, bytes) lhm_ops \<Rightarrow> nat \<Rightarrow> nat \<Rightarrow> nat \<Rightarrow> (nat, bytes) lru \<Rightarrow> (nat, bytes) lru"
where
  "drop_frames L inaddr_idx blk_idx end_idx c =
     (if inaddr_idx < end_idx
      then let offset = inaddr_idx mod BLKS_PER_FRAME;
               c1 = (if offset = 0 then snd (lru_remove L frame_meter c blk_idx) else c);
               step = min (end_idx - inaddr_idx) (BLKS_PER_FRAME - offset)
           in drop_frames L (inaddr_idx + step) (blk_idx + step) end_idx c1
      else c)"
  by pat_completeness auto
termination
proof (relation "measure (\<lambda>(L, i, b, e, c). e - i)", goal_cases)
  case 1
  show ?case by simp
next
  case (2 L i b e c off c1 step)
  have "off < BLKS_PER_FRAME" using 2 by (simp add: BLKS_PER_FRAME_def)
  with 2 show ?case by auto
qed

declare drop_frames.simps [simp del]

fun remove_spans :: "'d st_env \<Rightarrow> nat \<Rightarrow> loc_span list \<Rightarrow> (unit, error, 'd storage) eff" where
  "remove_spans E inaddr_idx [] = ret_s ()"
| "remove_spans E inaddr_idx (ls # rest) =
     bind_s (on_depot (\<lambda>d. st_del_blocks (en_depot E) d (lspan ls))) (\<lambda>_.
     bind_s (modify_s (\<lambda>s. s\<lparr>sg_frames := drop_frames (en_frames E) inaddr_idx
               (sp_begin (lspan ls)) (inaddr_idx + sp_cnt (lspan ls)) (sg_frames s)\<rparr>)) (\<lambda>_.
     remove_spans E (inaddr_idx + sp_cnt (lspan ls)) rest))"

definition remove_address_blocks :: "'d st_env \<Rightarrow> addr \<Rightarrow> (unit, error, 'd storage) eff" where
  "remove_address_blocks E a = remove_spans E 0 (alist a)"

definition sg_del_wal :: "'d st_env \<Rightarrow> eid \<Rightarrow> (unit, error, 'd storage) eff" where
  "sg_del_wal E e = on_depot (\<lambda>d. st_del_wal (en_depot E) d e)"

definition addr_forget :: "'d st_env \<Rightarrow> eid \<Rightarrow> (unit, error, 'd storage) eff" where
  "addr_forget E e = modify_s (\<lambda>s.
     s\<lparr>sg_addrs := snd (lru_remove (en_addrs E) count_meter (sg_addrs s) e)\<rparr>)"

text \<open>An entity that does not exist is deleted successfully.\<close>

definition sg_del :: "'d st_env \<Rightarrow> eid \<Rightarrow> (unit, error, 'd storage) eff" where
  "sg_del E e = (\<lambda>s. case get_address E e s of
       (Ok a, s1) \<Rightarrow>
         bind_s (remove_address_blocks E a) (\<lambda>_.
         bind_s (on_depot (\<lambda>d. st_del_address (en_depot E) d e)) (\<lambda>_. addr_forget E e)) s1
     | (Err err, s1) \<Rightarrow> (if error_eq err NotFound then (Ok (), s1) else (Err err, s1))
     | (Panic, s1) \<Rightarrow> (Panic, s1))"

definition sg_flush :: "'d st_env \<Rightarrow> (unit, error, 'd storage) eff" where
  "sg_flush E = on_depot (st_flush (en_depot E))"

subsection \<open>Wal records\<close>

record wal_reader =
  wr_id :: eid
  wr_read :: nat
  wr_wal :: bytes

definition wal_reader_new :: "eid \<Rightarrow> wal_reader" where
  "wal_reader_new e = \<lparr>wr_id = e, wr_read = 0, wr_wal = []\<rparr>"

definition io_not_found :: "string \<Rightarrow> error \<Rightarrow> io_error" where
  "io_not_found msg err =
     (if error_eq err NotFound then io_error_new IoNotFound msg
      else io_error_new IoOther (description err))"

text \<open>The record is fetched and decrypted by the first read, or again while it is empty.\<close>

definition wal_fetch :: "'d st_env \<Rightarrow> wal_reader \<Rightarrow> (wal_reader, io_error, 'd storage) eff" where
  "wal_fetch E r =
     (if wr_wal r = []
      then bind_s (conv_s (map_err (io_not_found ''Wal not found''))
                     (on_depot (\<lambda>d. st_get_wal (en_depot E) d (wr_id r)))) (\<lambda>w.
           bind_s (conv_s map_io_err (sg_decrypt E w)) (\<lambda>b. ret_s (r\<lparr>wr_wal := b\<rparr>)))
      else ret_s r)"

definition wal_read :: "'d st_env \<Rightarrow> wal_reader \<Rightarrow> nat \<Rightarrow> (bytes \<times> wal_reader, io_error, 'd storage) eff" where
  "wal_read E r n =
     bind_s (wal_fetch E r) (\<lambda>r1.
     bind_s (lift_r (sub_r (length (wr_wal r1)) (wr_read r1))) (\<lambda>left.
       let copy_len = min left n
       in ret_s (take copy_len (drop (wr_read r1) (wr_wal r1)), r1\<lparr>wr_read := wr_read r1 + copy_len\<rparr>)))"

record wal_writer =
  ww_id :: eid
  ww_wal :: bytes

definition wal_writer_new :: "eid \<Rightarrow> wal_writer" where
  "wal_writer_new e = \<lparr>ww_id = e, ww_wal = []\<rparr>"

definition wal_write :: "wal_writer \<Rightarrow> bytes \<Rightarrow> nat \<times> wal_writer" where
  "wal_write w buf = (length buf, w\<lparr>ww_wal := ww_wal w @ buf\<rparr>)"

definition wal_finish :: "'d st_env \<Rightarrow> wal_writer \<Rightarrow> (unit, error, 'd storage) eff" where
  "wal_finish E w =
     bind_s (sg_encrypt E (ww_wal w)) (\<lambda>enc. on_depot (\<lambda>d. st_put_wal (en_depot E) d (ww_id w) enc))"

subsection \<open>Reading an entity\<close>

text \<open>
  \<open>rd_dec_frame\<close> is the slice \<open>dec_frame[..dec_frame_len]\<close> and \<open>rd_dec_size\<close> the length of
  the whole buffer. The scratch buffer \<open>frame\<close> never carries a value from one call to the
  next and is left out.
\<close>

record reader =
  rd_addrs :: "addr list"
  rd_ent_len :: nat
  rd_frm_idx :: nat
  rd_frm_key :: nat
  rd_dec_frame :: bytes
  rd_dec_size :: nat
  rd_read :: nat

definition frame_key :: "addr \<Rightarrow> nat res" where
  "frame_key f = bind_r (nth_r (alist f) 0) (\<lambda>ls. Ok (sp_begin (lspan ls)))"

definition reader_new :: "'d st_env \<Rightarrow> eid \<Rightarrow> (reader, error, 'd storage) eff" where
  "reader_new E e =
     bind_s (get_address E e) (\<lambda>a.
     bind_s get_s (\<lambda>s.
     bind_s (lift_r (decrypted_len (sg_crypto s) FRAME_SIZE)) (\<lambda>dec_size.
     bind_s (lift_r (divide_to_frames a)) (\<lambda>addrs.
     bind_s (lift_r (bind_r (nth_r addrs 0) frame_key)) (\<lambda>k.
       ret_s \<lparr>rd_addrs = addrs, rd_ent_len = alen a, rd_frm_idx = 0, rd_frm_key = k,
              rd_dec_frame = [], rd_dec_size = dec_size, rd_read = 0\<rparr>)))))"

text \<open>The bytes copied out and whether the frame is exhausted.\<close>

definition copy_frame_out :: "reader \<Rightarrow> nat \<Rightarrow> bytes \<Rightarrow> ((bytes \<times> bool), 'e) result" where
  "copy_frame_out r n dec_frame =
     assert_r (rd_dec_size r \<noteq> 0)
       (let b = rd_read r mod rd_dec_size r in
        bind_r (sub_r (length dec_frame) b) (\<lambda>left.
          let copy_len = min n left
          in Ok (take copy_len (drop b dec_frame), length dec_frame \<le> b + copy_len)))"

text \<open>Read the spans of one frame from the back end, and decrypt its first \<open>alen\<close> bytes.\<close>

fun read_spans :: "'d st_env \<Rightarrow> loc_span list \<Rightarrow> (bytes, io_error, 'd storage) eff" where
  "read_spans E [] = ret_s []"
| "read_spans E (ls # rest) =
     bind_s (conv_s (map_err (io_not_found ''Blocks not found''))
               (on_depot (\<lambda>d. st_get_blocks (en_depot E) d (lspan ls)))) (\<lambda>b.
     bind_s (read_spans E rest) (\<lambda>bs. ret_s (b @ bs)))"

definition load_frame :: "'d st_env \<Rightarrow> addr \<Rightarrow> (bytes, io_error, 'd storage) eff" where
  "load_frame E f =
     bind_s (read_spans E (alist f)) (\<lambda>b.
     bind_s (assert_s (alen f \<le> FRAME_SIZE)) (\<lambda>_.
     bind_s get_s (\<lambda>s.
       lift_r (map_io_err (decrypt_to (en_sodium E) (sg_crypto s) (take (alen f) b) (sg_key s))))))"

definition fetch_frame :: "'d st_env \<Rightarrow> reader \<Rightarrow> (reader, io_error, 'd storage) eff" where
  "fetch_frame E r =
     bind_s get_s (\<lambda>s.
       if rd_dec_frame r = [] \<and> \<not> contains_key (sg_frames s) (rd_frm_key r)
       then bind_s (lift_r (nth_r (rd_addrs r) (rd_frm_idx r))) (\<lambda>f.
            bind_s (load_frame E f) (\<lambda>dec.
            bind_s (if rd_ent_len r < FRAME_CACHE_THRESHOLD
                    then modify_s (\<lambda>s. s\<lparr>sg_frames := snd (lru_insert (en_frames E) frame_meter
                           no_pin (sg_frames s) (rd_frm_key r) dec)\<rparr>)
                    else ret_s ()) (\<lambda>_. ret_s (r\<lparr>rd_dec_frame := dec\<rparr>))))
       else ret_s r)"

definition current_frame :: "'d st_env \<Rightarrow> reader \<Rightarrow> (bytes, io_error, 'd storage) eff" where
  "current_frame E r =
     (if rd_ent_len r < FRAME_CACHE_THRESHOLD
      then (\<lambda>s. case get_refresh (en_frames E) (sg_frames s) (rd_frm_key r) of
              (v, c) \<Rightarrow> (unwrap_opt v, s\<lparr>sg_frames := c\<rparr>))
      else ret_s (rd_dec_frame r))"

definition next_frame :: "reader \<Rightarrow> (reader, 'e) result" where
  "next_frame r =
     (let i = Suc (rd_frm_idx r); r1 = r\<lparr>rd_frm_idx := i, rd_dec_frame := []\<rparr>
      in if i < length (rd_addrs r)
         then (case alist (rd_addrs r ! i) of
                 [] \<Rightarrow> Panic | ls # _ \<Rightarrow> Ok (r1\<lparr>rd_frm_key := sp_begin (lspan ls)\<rparr>))
         else Ok r1)"

definition reader_read :: "'d st_env \<Rightarrow> reader \<Rightarrow> nat \<Rightarrow> (bytes \<times> reader, io_error, 'd storage) eff" where
  "reader_read E r n =
     (if length (rd_addrs r) \<le> rd_frm_idx r \<or> n = 0 then ret_s ([], r)
      else bind_s (fetch_frame E r) (\<lambda>r1.
           bind_s (current_frame E r1) (\<lambda>dec.
           bind_s (lift_r (copy_frame_out r1 n dec)) (\<lambda>(b, exhausted).
             let r2 = r1\<lparr>rd_read := rd_read r1 + length b\<rparr>
             in if exhausted then bind_s (lift_r (next_frame r2)) (\<lambda>r3. ret_s (b, r3))
                else ret_s (b, r2)))))"

subsection \<open>Writing an entity\<close>

text \<open>\<open>wt_stg\<close> is the slice \<open>stg[..stg_len]\<close> and \<open>wt_size\<close> the length of the buffer.\<close>

record writer =
  wt_id :: eid
  wt_addr :: addr
  wt_stg :: bytes
  wt_size :: nat

type_synonym 'd wstate = "writer \<times> 'd storage option"

text \<open>\<open>storage.upgrade().ok_or(RepoClosed)?\<close>\<close>

definition upgraded :: "('a, error, 'd storage) eff \<Rightarrow> ('a, error, 'd storage option) eff" where
  "upgraded m = (\<lambda>so. case so of
       None \<Rightarrow> (Err RepoClosed, None)
     | Some s \<Rightarrow> (case m s of (r, s') \<Rightarrow> (r, Some s')))"

definition on_storage :: "('a, error, 'd storage) eff \<Rightarrow> ('a, error, 'd wstate) eff" where
  "on_storage m = zoom snd (\<lambda>so (w, _). (w, so)) (upgraded m)"

definition writer_new :: "eid \<Rightarrow> (writer, error, 'd storage option) eff" where
  "writer_new e =
     upgraded (bind_s get_s (\<lambda>s. bind_s (lift_r (decrypted_len (sg_crypto s) FRAME_SIZE)) (\<lambda>n.
       ret_s \<lparr>wt_id = e, wt_addr = addr_default, wt_stg = [], wt_size = n\<rparr>)))"

definition sg_random :: "'d st_env \<Rightarrow> nat \<Rightarrow> (bytes, error, 'd storage) eff" where
  "sg_random E n = (\<lambda>s. (Ok (so_random (en_sodium E) (sg_draws s) n), s\<lparr>sg_draws := Suc (sg_draws s)\<rparr>))"

definition sg_allocate :: "nat \<Rightarrow> (span, error, 'd storage) eff" where
  "sg_allocate n = (\<lambda>s. case allocate (sg_alloc s) n of (sp, al) \<Rightarrow> (Ok sp, s\<lparr>sg_alloc := al\<rparr>))"

text \<open>
  Encrypt the staged bytes, pad them with random bytes to whole blocks, allocate the blocks and
  write them. The allocation is not undone when the write fails.
\<close>

definition store_frame :: "'d st_env \<Rightarrow> bytes \<Rightarrow> (span \<times> nat, error, 'd storage) eff" where
  "store_frame E stg =
     bind_s (sg_encrypt E stg) (\<lambda>enc.
       let blk_cnt = align_ceil_chunk (length enc) BLK_SIZE;
           aligned_len = blk_cnt * BLK_SIZE
       in bind_s (sg_random E (aligned_len - length enc)) (\<lambda>pad.
          bind_s (sg_allocate blk_cnt) (\<lambda>sp.
          bind_s (on_depot (\<lambda>d. st_put_blocks (en_depot E) d sp (enc @ pad))) (\<lambda>_.
            ret_s (sp, length enc)))))"

definition write_frame :: "'d st_env \<Rightarrow> (unit, error, 'd wstate) eff" where
  "write_frame E = (\<lambda>(w, so).
     if wt_stg w = [] then (Ok (), (w, so))
     else bind_s (on_storage (store_frame E (wt_stg w))) (\<lambda>(sp, enc_len).
          modify_s (\<lambda>(w, so). (w\<lparr>wt_addr := addr_append (wt_addr w) sp enc_len, wt_stg := []\<rparr>, so))) (w, so))"

definition writer_write :: "'d st_env \<Rightarrow> bytes \<Rightarrow> (nat, io_error, 'd wstate) eff" where
  "writer_write E buf =
     bind_s get_s (\<lambda>(w, so).
     bind_s (lift_r (sub_r (wt_size w) (length (wt_stg w)))) (\<lambda>room.
       let copy_len = min room (length buf); w1 = w\<lparr>wt_stg := wt_stg w @ take copy_len buf\<rparr>
       in bind_s (modify_s (\<lambda>_. (w1, so))) (\<lambda>_.
          bind_s (if wt_size w1 \<le> length (wt_stg w1)
                  then conv_s map_io_err (write_frame E) else ret_s ()) (\<lambda>_. ret_s copy_len))))"

definition replace_address :: "'d st_env \<Rightarrow> eid \<Rightarrow> addr \<Rightarrow> (unit, error, 'd storage) eff" where
  "replace_address E e a = (\<lambda>s. case get_address E e s of
       (Ok old, s1) \<Rightarrow> bind_s (remove_address_blocks E old) (\<lambda>_. put_address E e a) s1
     | (Err err, s1) \<Rightarrow> (if error_eq err NotFound then put_address E e a s1 else (Err err, s1))
     | (Panic, s1) \<Rightarrow> (Panic, s1))"

definition writer_finish :: "'d st_env \<Rightarrow> (unit, error, 'd wstate) eff" where
  "writer_finish E =
     bind_s (write_frame E) (\<lambda>_.
     bind_s get_s (\<lambda>(w, _). on_storage (replace_address E (wt_id w) (wt_addr w))))"

subsection \<open>The layer on top of a back end that keeps its contract\<close>

text \<open>The numbers of an address are machine words.\<close>

definition addr_fits :: "addr \<Rightarrow> bool" where
  "addr_fits a \<longleftrightarrow> alen a < 2 ^ 64 \<and>
     (\<forall>ls \<in> set (alist a). sp_begin (lspan ls) < 2 ^ 64 \<and> sp_cnt (lspan ls) < 2 ^ 64 \<and> loffset ls < 2 ^ 64)"

text \<open>The plain text of a wal record.\<close>

definition wal_plain :: "'d st_env \<Rightarrow> ('d \<Rightarrow> eid \<rightharpoonup> bytes) \<Rightarrow> 'd storage \<Rightarrow> eid \<rightharpoonup> bytes" where
  "wal_plain E wal s e = (case wal (sg_depot s) e of None \<Rightarrow> None
     | Some c \<Rightarrow> (case crypto_decrypt (en_sodium E) (sg_crypto s) c (sg_key s) of
                    Ok b \<Rightarrow> Some b | _ \<Rightarrow> None))"

text \<open>
  What the layer relies on: a back end in working order, libsodium, the two linked hash maps,
  and a serializer of addresses that can read what it wrote and needs at most 32 bytes per
  span (MessagePack: two array headers and three integers of at most nine bytes).
\<close>

locale storage_env =
  depot: storable "en_depot E" inv wal adr blk + sodium: sodium_laws "en_sodium E" +
  frames: linked_hash_map "en_frames E" + addrs: linked_hash_map "en_addrs E"
  for E :: "'d st_env" and inv :: "'d \<Rightarrow> bool" and wal :: "'d \<Rightarrow> eid \<rightharpoonup> bytes"
    and adr :: "'d \<Rightarrow> eid \<rightharpoonup> bytes" and blk :: "'d \<Rightarrow> nat \<rightharpoonup> bytes" +
  assumes ser_deser: "addr_fits a \<Longrightarrow> \<exists>b. en_ser E a = Ok b \<and> en_deser E b = Ok a \<and>
            length b \<le> 32 * Suc (length (alist a))"
begin

abbreviation plain_wal :: "'d storage \<Rightarrow> eid \<rightharpoonup> bytes" where
  "plain_wal \<equiv> wal_plain E wal"

lemma wal_finish_ok:
  assumes "inv (sg_depot s)" and "length (ww_wal w) < 2 ^ 36 - 32"
  obtains s' c where "wal_finish E w s = (Ok (), s')" "inv (sg_depot s')"
    "crypto_decrypt (en_sodium E) (sg_crypto s) c (sg_key s) = Ok (ww_wal w)"
    "wal (sg_depot s') = (wal (sg_depot s))(ww_id w \<mapsto> c)"
    "sg_crypto s' = sg_crypto s" "sg_key s' = sg_key s"
    "adr (sg_depot s') = adr (sg_depot s)" "blk (sg_depot s') = blk (sg_depot s)"
proof -
  obtain c where c: "crypto_encrypt (en_sodium E) (sg_crypto s) (sg_draws s) (ww_wal w) (sg_key s)
      = (Ok c, Suc (sg_draws s))"
    "crypto_decrypt (en_sodium E) (sg_crypto s) c (sg_key s) = Ok (ww_wal w)"
    using sodium.encrypt_decrypt [OF assms(2)] by blast
  obtain d where d: "st_put_wal (en_depot E) (sg_depot s) (ww_id w) c = (Ok (), d)" "inv d"
    "wal d = (wal (sg_depot s))(ww_id w \<mapsto> c)" "adr d = adr (sg_depot s)" "blk d = blk (sg_depot s)"
    using depot.put_wal [OF assms(1)] by blast
  let ?s = "s\<lparr>sg_draws := Suc (sg_draws s), sg_depot := d\<rparr>"
  have "wal_finish E w s = (Ok (), ?s)"
    by (simp add: wal_finish_def sg_encrypt_def c(1) on_depot_def zoom_def d(1))
  then show ?thesis using c(2) d by (intro that [of ?s c]) simp_all
qed

lemma wal_fetch_ok:
  assumes "inv (sg_depot s)" and "plain_wal s (wr_id r) = Some b" and "wr_wal r = [] \<or> wr_wal r = b"
  shows "wal_fetch E r s = (Ok (r\<lparr>wr_wal := b\<rparr>), s)"
proof -
  obtain c where c: "wal (sg_depot s) (wr_id r) = Some c"
    "crypto_decrypt (en_sodium E) (sg_crypto s) c (sg_key s) = Ok b"
    using assms(2) by (auto simp: wal_plain_def split: option.splits result.splits)
  show ?thesis
    using assms(1,3)
    by (auto simp: wal_fetch_def conv_s_def on_depot_def zoom_def depot.get_wal c ok_or_def
        sg_decrypt_def)
qed

lemma wal_read_ok:
  assumes "inv (sg_depot s)" and "plain_wal s (wr_id r) = Some b"
    and "wr_wal r = [] \<or> wr_wal r = b" and "wr_read r \<le> length b"
  shows "wal_read E r n s = (Ok (take n (drop (wr_read r) b),
     r\<lparr>wr_wal := b, wr_read := min (length b) (wr_read r + n)\<rparr>), s)"
proof -
  have "wr_read r + min (length b - wr_read r) n = min (length b) (wr_read r + n)"
    using assms(4) by simp
  then show ?thesis
    using assms(4) wal_fetch_ok [OF assms(1-3)]
    by (simp add: wal_read_def sub_r_def min_def)
qed

lemma wal_read_to_end_from:
  assumes "inv (sg_depot s)" and "plain_wal s (wr_id r) = Some b"
    and "wr_wal r = [] \<or> wr_wal r = b" and "wr_read r \<le> length b" and "\<And>i. 0 < sz i"
  shows "read_to_end (wal_read E) sz i r s = Some (Ok (drop (wr_read r) b), s)"
  using assms(2-4)
proof (induction "length b - wr_read r" arbitrary: r i rule: less_induct)
  case less
  let ?n = "sz i"
  let ?r = "r\<lparr>wr_wal := b, wr_read := min (length b) (wr_read r + ?n)\<rparr>"
  have rd: "wal_read E r ?n s = (Ok (take ?n (drop (wr_read r) b), ?r), s)"
    using wal_read_ok [OF assms(1) less.prems] .
  show ?case
  proof (cases "wr_read r = length b")
    case True
    then show ?thesis using rd by (simp add: read_to_end.simps [of _ _ _ r])
  next
    case False
    have n: "0 < ?n" by (rule assms(5))
    have "read_to_end (wal_read E) sz (Suc i) ?r s = Some (Ok (drop (wr_read ?r) b), s)"
      using less.prems n False by (intro less.hyps) auto
    moreover have "take ?n (drop (wr_read r) b) \<noteq> []"
      using n False less.prems(3) by auto
    moreover have "take ?n (drop (wr_read r) b) @ drop (min (length b) (wr_read r + ?n)) b = drop (wr_read r) b"
    proof -
      have "drop (min (length b) (wr_read r + ?n)) b = drop ?n (drop (wr_read r) b)"
        by (simp add: min_def add.commute)
      then show ?thesis by (metis append_take_drop_id)
    qed
    ultimately show ?thesis using rd by (simp add: read_to_end.simps [of _ _ _ r])
  qed
qed

lemma wal_read_missing:
  assumes "inv (sg_depot s)" and "wal (sg_depot s) e = None"
  shows "wal_read E (wal_reader_new e) n s = (Err (io_error_new IoNotFound ''Wal not found''), s)"
  using assms
  by (simp add: wal_read_def wal_fetch_def wal_reader_new_def conv_s_def on_depot_def zoom_def
      depot.get_wal ok_or_def io_not_found_def error_eq_def)

text \<open>Reading a whole record: the decrypted bytes, or \<open>NotFound\<close>.\<close>

lemma wal_read_all:
  assumes "inv (sg_depot s)" and "\<And>i. 0 < sz i" and "plain_wal s e = Some b"
  shows "read_all (wal_read E) sz (wal_reader_new e) s = (Ok b, s)"
  using wal_read_to_end_from [OF assms(1), of "wal_reader_new e" b sz 0] assms(2,3)
  by (simp add: read_all_def wal_reader_new_def)

lemma wal_read_all_missing:
  assumes "inv (sg_depot s)" and "wal (sg_depot s) e = None"
  shows "conv_s from_io_err (read_all (wal_read E) sz (wal_reader_new e)) s = (Err NotFound, s)"
  using wal_read_missing [OF assms]
  by (simp add: read_all_def conv_s_def read_to_end.simps [of _ _ 0] io_error_new_def)

end

end
