(* ===== verification/Armor.thy ===== *)
theory Armor
  imports Ids
begin

text \<open>
  \<open>src/src/volume/armor.rs\<close>: the two-arm scheme that makes the update of a persistent item
  atomic. Every item is stored in two slots, one per arm, whose ids are hashed from the item
  id and the arm; a save writes the slot of the other arm with the next sequence number and
  only then is that arm current, and a load takes the slot with the larger sequence number.

  The trait \<open>Armor\<close> has two implementations that differ in how they read, write and delete a
  slot; these three methods, the serializer and the accessors of \<open>ArmAccess\<close> are the fields
  of the record \<open>armor_ops\<close>. Reading and writing thread the state \<open>'v\<close> of the volume.
\<close>

datatype arm = Left | Right

definition arm_default :: arm where
  "arm_default = Left"

fun arm_other :: "arm \<Rightarrow> arm" where
  "arm_other Left = Right"
| "arm_other Right = Left"

text \<open>The slot id: the hash of the item id followed by the serialized arm.\<close>

definition arm_to_eid :: "(bytes \<Rightarrow> bytes) \<Rightarrow> (arm \<Rightarrow> bytes) \<Rightarrow> arm \<Rightarrow> eid \<Rightarrow> eid res" where
  "arm_to_eid hash ser a e = eid_from_slice (hash (e @ ser a))"

record ('i, 'v) armor_ops =
  ar_id :: "'i \<Rightarrow> eid"
  ar_seq :: "'i \<Rightarrow> nat"
  ar_inc_seq :: "'i \<Rightarrow> 'i"
  ar_arm :: "'i \<Rightarrow> arm"
  ar_set_arm :: "arm \<Rightarrow> 'i \<Rightarrow> 'i"
  ar_eid :: "arm \<Rightarrow> eid \<Rightarrow> eid res"
  ar_ser :: "'i \<Rightarrow> bytes res"
  ar_deser :: "bytes \<Rightarrow> 'i res"
  ar_read :: "'v \<Rightarrow> eid \<Rightarrow> bytes res \<times> 'v"
  ar_write :: "'v \<Rightarrow> eid \<Rightarrow> bytes \<Rightarrow> unit res \<times> 'v"
  ar_del :: "'v \<Rightarrow> eid \<Rightarrow> unit res \<times> 'v"

definition toggle :: "('i, 'v) armor_ops \<Rightarrow> 'i \<Rightarrow> 'i" where
  "toggle A i = ar_set_arm A (arm_other (ar_arm A i)) i"

definition load_one_arm :: "('i, 'v) armor_ops \<Rightarrow> 'v \<Rightarrow> eid \<Rightarrow> arm \<Rightarrow> 'i res \<times> 'v" where
  "load_one_arm A v e a =
     (case ar_eid A a e of
        Err err \<Rightarrow> (Err err, v)
      | Panic \<Rightarrow> (Panic, v)
      | Ok slot_id \<Rightarrow> (case ar_read A v slot_id of (r, v') \<Rightarrow> (bind_r r (ar_deser A), v')))"

text \<open>
  How the two results are combined: both present, the larger sequence number wins (equal
  numbers fail an assertion); an arm that is not found is ignored; any other error of
  either arm is returned.
\<close>

definition choose_arm :: "('i, 'v) armor_ops \<Rightarrow> 'i res \<Rightarrow> 'i res \<Rightarrow> 'i res" where
  "choose_arm A left_arm right_arm =
     (case left_arm of
        Ok l \<Rightarrow> (case right_arm of
             Ok r \<Rightarrow> assert_r (ar_seq A l \<noteq> ar_seq A r)
                       (if ar_seq A r < ar_seq A l then Ok l else Ok r)
           | Err err \<Rightarrow> if error_eq err NotFound then Ok l else Err err
           | Panic \<Rightarrow> Panic)
      | Err err \<Rightarrow> (if error_eq err NotFound then right_arm else Err err)
      | Panic \<Rightarrow> Panic)"

definition load_item :: "('i, 'v) armor_ops \<Rightarrow> 'v \<Rightarrow> eid \<Rightarrow> 'i res \<times> 'v" where
  "load_item A v e =
     (case load_one_arm A v e Left of (l, v1) \<Rightarrow>
      (case load_one_arm A v1 e Right of (r, v2) \<Rightarrow> (choose_arm A l r, v2)))"

text \<open>
  \<open>save_item\<close>: the sequence number and the arm change first; when the write fails the arm is
  toggled back, the sequence number stays increased.
\<close>

definition save_item :: "('i, 'v) armor_ops \<Rightarrow> 'v \<Rightarrow> 'i \<Rightarrow> unit res \<times> 'i \<times> 'v" where
  "save_item A v i0 =
     (let i = toggle A (ar_inc_seq A i0) in
      case ar_eid A (ar_arm A i) (ar_id A i) of
        Ok slot_id \<Rightarrow>
          (case (case ar_ser A i of
               Ok buf \<Rightarrow> ar_write A v slot_id buf
             | Err err \<Rightarrow> (Err err, v)
             | Panic \<Rightarrow> (Panic, v)) of
             (Ok _, v') \<Rightarrow> (Ok (), i, v')
           | (Err err, v') \<Rightarrow> (Err err, toggle A i, v')
           | (Panic, v') \<Rightarrow> (Panic, i, v'))
      | Err err \<Rightarrow> (Err err, i, v)
      | Panic \<Rightarrow> (Panic, i, v))"

text \<open>\<open>del_arm(x).and(del_arm(y))\<close>: both deletions run, the first error is reported.\<close>

definition and_then_res :: "unit res \<Rightarrow> unit res \<Rightarrow> unit res" where
  "and_then_res r1 r2 = (case r1 of Ok _ \<Rightarrow> r2 | Err e \<Rightarrow> (if r2 = Panic then Panic else Err e) | Panic \<Rightarrow> Panic)"

definition remove_other_arm :: "('i, 'v) armor_ops \<Rightarrow> 'v \<Rightarrow> 'i \<Rightarrow> unit res \<times> 'v" where
  "remove_other_arm A v i =
     (case ar_eid A (arm_other (ar_arm A i)) (ar_id A i) of
        Ok s \<Rightarrow> ar_del A v s | Err err \<Rightarrow> (Err err, v) | Panic \<Rightarrow> (Panic, v))"

definition remove_all_arms :: "('i, 'v) armor_ops \<Rightarrow> 'v \<Rightarrow> eid \<Rightarrow> unit res \<times> 'v" where
  "remove_all_arms A v e =
     (case (ar_eid A Left e, ar_eid A Right e) of
        (Ok l, Ok r) \<Rightarrow>
          (case ar_del A v l of (r1, v1) \<Rightarrow>
           (case ar_del A v1 r of (r2, v2) \<Rightarrow> (and_then_res r1 r2, v2)))
      | _ \<Rightarrow> (Panic, v))"

text \<open>An item whose serialization is within the length the encryption accepts.\<close>

definition fits :: "('i, 'v) armor_ops \<Rightarrow> 'i \<Rightarrow> bool" where
  "fits A i \<longleftrightarrow> (\<forall>b. ar_ser A i = Ok b \<longrightarrow> length b < 2 ^ 36 - 32)"

subsection \<open>The contract of a slot store and the protocol on top of it\<close>

text \<open>The decoded item in a slot, and that both slots of an item decode.\<close>

definition arm_holds ::
  "('i, 'v) armor_ops \<Rightarrow> ('v \<Rightarrow> eid \<rightharpoonup> bytes) \<Rightarrow> (arm \<Rightarrow> eid \<Rightarrow> eid) \<Rightarrow> 'v \<Rightarrow> arm \<Rightarrow> eid \<Rightarrow> 'i option"
where
  "arm_holds A slot sid v a e = (case slot v (sid a e) of None \<Rightarrow> None
     | Some b \<Rightarrow> (case ar_deser A b of Ok i \<Rightarrow> Some i | _ \<Rightarrow> None))"

definition arms_decode ::
  "('i, 'v) armor_ops \<Rightarrow> ('v \<Rightarrow> eid \<rightharpoonup> bytes) \<Rightarrow> (arm \<Rightarrow> eid \<Rightarrow> eid) \<Rightarrow> 'v \<Rightarrow> eid \<Rightarrow> bool"
where
  "arms_decode A slot sid v e \<longleftrightarrow> (\<forall>a b. slot v (sid a e) = Some b \<longrightarrow> (\<exists>i. ar_deser A b = Ok i))"

text \<open>
  The invariant of an item in memory: both slots decode, their sequence numbers differ and
  neither exceeds that of the item.
\<close>

definition arms_ok ::
  "('i, 'v) armor_ops \<Rightarrow> ('v \<Rightarrow> bool) \<Rightarrow> ('v \<Rightarrow> eid \<rightharpoonup> bytes) \<Rightarrow> (arm \<Rightarrow> eid \<Rightarrow> eid) \<Rightarrow> 'v \<Rightarrow> 'i \<Rightarrow> bool"
where
  "arms_ok A vinv slot sid v i \<longleftrightarrow> vinv v \<and> arms_decode A slot sid v (ar_id A i) \<and>
     (\<forall>a p. arm_holds A slot sid v a (ar_id A i) = Some p \<longrightarrow> ar_seq A p \<le> ar_seq A i) \<and>
     (\<forall>p q. arm_holds A slot sid v Left (ar_id A i) = Some p \<longrightarrow>
        arm_holds A slot sid v Right (ar_id A i) = Some q \<longrightarrow> ar_seq A p \<noteq> ar_seq A q)"

definition arm_newest :: "('i, 'v) armor_ops \<Rightarrow> 'i option \<Rightarrow> 'i option \<Rightarrow> 'i option" where
  "arm_newest A l r = (case l of None \<Rightarrow> r | Some p \<Rightarrow>
     (case r of None \<Rightarrow> l | Some q \<Rightarrow> if ar_seq A q < ar_seq A p then l else r))"

text \<open>
  \<open>slot\<close> observes the stored bytes. A successful write stores the bytes; a failed one leaves
  the slot as it was or has stored the bytes after all (the error came later); nothing else
  changes in either case. \<open>persist\<close> is what a value is after a round trip through the
  serializer, which skips some fields.
\<close>

locale slot_store =
  fixes A :: "('i, 'v) armor_ops"
    and inv :: "'v \<Rightarrow> bool"
    and slot :: "'v \<Rightarrow> eid \<rightharpoonup> bytes"
    and persist :: "'i \<Rightarrow> 'i"
    and sid :: "arm \<Rightarrow> eid \<Rightarrow> eid"
  assumes eid_ok: "ar_eid A a e = Ok (sid a e)"
    and eid_arms: "sid Left e \<noteq> sid Right e"
    and read_slot: "inv v \<Longrightarrow> ar_read A v s = (ok_or (slot v s) NotFound, v)"
    and write_slot: "inv v \<Longrightarrow> length b < 2 ^ 36 - 32 \<Longrightarrow> ar_write A v s b = (r, v') \<Longrightarrow>
          inv v' \<and> r \<noteq> Panic \<and> (\<forall>x. x \<noteq> s \<longrightarrow> slot v' x = slot v x) \<and>
          (slot v' s = Some b \<or> slot v' s = slot v s \<and> r \<noteq> Ok ())"
    and del_slot: "inv v \<Longrightarrow> ar_del A v s = (Ok (), v') \<Longrightarrow> inv v' \<and> slot v' = (slot v)(s := None)"
    and ser_ok: "\<exists>b. ar_ser A i = Ok b \<and> ar_deser A b = Ok (persist i)"
    and persist_seq: "ar_seq A (persist i) = ar_seq A i"
    and inc_seq: "ar_seq A (ar_inc_seq A i) = Suc (ar_seq A i)"
    and inc_frame: "ar_arm A (ar_inc_seq A i) = ar_arm A i" "ar_id A (ar_inc_seq A i) = ar_id A i"
    and set_arm: "ar_arm A (ar_set_arm A a i) = a" "ar_seq A (ar_set_arm A a i) = ar_seq A i"
          "ar_id A (ar_set_arm A a i) = ar_id A i"
begin

abbreviation holds :: "'v \<Rightarrow> arm \<Rightarrow> eid \<Rightarrow> 'i option" where
  "holds \<equiv> arm_holds A slot sid"

abbreviation decodes :: "'v \<Rightarrow> eid \<Rightarrow> bool" where
  "decodes \<equiv> arms_decode A slot sid"

abbreviation arms_inv :: "'v \<Rightarrow> 'i \<Rightarrow> bool" where
  "arms_inv \<equiv> arms_ok A inv slot sid"

abbreviation newest :: "'i option \<Rightarrow> 'i option \<Rightarrow> 'i option" where
  "newest \<equiv> arm_newest A"

lemma toggle_simps [simp]:
  "ar_arm A (toggle A i) = arm_other (ar_arm A i)" "ar_seq A (toggle A i) = ar_seq A i"
  "ar_id A (toggle A i) = ar_id A i"
  by (simp_all add: toggle_def set_arm)

lemma arm_other_other [simp]: "arm_other (arm_other a) = a"
  by (cases a) simp_all

lemma load_one_arm_holds:
  assumes "inv v" and "decodes v e"
  shows "load_one_arm A v e a = (ok_or (holds v a e) NotFound, v)"
proof (cases "slot v (sid a e)")
  case None
  with assms show ?thesis by (simp add: load_one_arm_def eid_ok read_slot arm_holds_def ok_or_def)
next
  case (Some b)
  with assms(2) obtain i where "ar_deser A b = Ok i" by (auto simp: arms_decode_def)
  with Some assms show ?thesis
    by (simp add: load_one_arm_def eid_ok read_slot arm_holds_def ok_or_def)
qed

lemma load_item_newest:
  assumes "arms_inv v i"
  shows "load_item A v (ar_id A i) =
    (ok_or (newest (holds v Left (ar_id A i)) (holds v Right (ar_id A i))) NotFound, v)"
proof -
  have i: "inv v" "decodes v (ar_id A i)" using assms by (simp_all add: arms_ok_def)
  show ?thesis
    using assms
    by (auto simp: load_item_def load_one_arm_holds [OF i] choose_arm_def arm_newest_def ok_or_def
        assert_r_def error_eq_plain arms_ok_def split: option.splits)
qed

lemma save_cases:
  assumes "inv v" and "fits A (toggle A (ar_inc_seq A i))" and "save_item A v i = (r, i', v')"
  obtains j b where "j = toggle A (ar_inc_seq A i)" "ar_deser A b = Ok (persist j)"
    "inv v'" "r \<noteq> Panic" "\<forall>x. x \<noteq> sid (ar_arm A j) (ar_id A j) \<longrightarrow> slot v' x = slot v x"
    "slot v' (sid (ar_arm A j) (ar_id A j)) = Some b \<or>
       slot v' (sid (ar_arm A j) (ar_id A j)) = slot v (sid (ar_arm A j) (ar_id A j)) \<and> r \<noteq> Ok ()"
    "i' = (if r = Ok () then j else toggle A j)"
proof -
  define j where "j = toggle A (ar_inc_seq A i)"
  obtain b where b: "ar_ser A j = Ok b" "ar_deser A b = Ok (persist j)" using ser_ok by blast
  let ?s = "sid (ar_arm A j) (ar_id A j)"
  obtain r0 v0 where w: "ar_write A v ?s b = (r0, v0)" by (cases "ar_write A v ?s b")
  have l: "length b < 2 ^ 36 - 32" using assms(2) b(1) by (simp add: fits_def j_def)
  have np: "r0 \<noteq> Panic" using write_slot [OF assms(1) l w] by simp
  have "r = r0 \<and> v' = v0 \<and> i' = (if r = Ok () then j else toggle A j)"
    using assms(3) np
    by (cases r0) (auto simp: save_item_def Let_def eid_ok b w simp flip: j_def)
  then show ?thesis
    using write_slot [OF assms(1) l w] b(2) np by (intro that [OF j_def b(2)]) auto
qed

lemma holds_other:
  assumes "\<forall>x. x \<noteq> sid (ar_arm A j) (ar_id A j) \<longrightarrow> slot v' x = slot v x"
  shows "holds v' (arm_other (ar_arm A j)) (ar_id A j) = holds v (arm_other (ar_arm A j)) (ar_id A j)"
proof -
  have "sid (arm_other (ar_arm A j)) (ar_id A j) \<noteq> sid (ar_arm A j) (ar_id A j)"
    using eid_arms [of "ar_id A j"] by (cases "ar_arm A j") auto
  with assms show ?thesis by (simp add: arm_holds_def)
qed

lemma arm_split: "(\<forall>a. P a) \<longleftrightarrow> P (b :: arm) \<and> P (arm_other b)"
  by (metis arm.exhaust arm_other.simps)

lemma save_inv:
  assumes inv: "arms_inv v i" and fit: "fits A (toggle A (ar_inc_seq A i))"
    and save: "save_item A v i = (r, i', v')"
  shows "arms_inv v' i' \<and> r \<noteq> Panic \<and> ar_id A i' = ar_id A i \<and> ar_seq A i' = Suc (ar_seq A i)"
    and "r = Ok () \<Longrightarrow> load_item A v' (ar_id A i) = (Ok (persist i'), v') \<and> ar_arm A i' = arm_other (ar_arm A i)"
    and "r \<noteq> Ok () \<Longrightarrow> ar_arm A i' = ar_arm A i \<and>
      (fst (load_item A v' (ar_id A i)) = fst (load_item A v (ar_id A i)) \<or>
       fst (load_item A v' (ar_id A i)) = Ok (persist (toggle A (ar_inc_seq A i))))"
proof -
  have iv: "inv v" using inv by (simp add: arms_ok_def)
  obtain j b where j: "j = toggle A (ar_inc_seq A i)" and d: "ar_deser A b = Ok (persist j)"
    and iv': "inv v'" and np: "r \<noteq> Panic"
    and fr: "\<forall>x. x \<noteq> sid (ar_arm A j) (ar_id A j) \<longrightarrow> slot v' x = slot v x"
    and sl: "slot v' (sid (ar_arm A j) (ar_id A j)) = Some b \<or>
       slot v' (sid (ar_arm A j) (ar_id A j)) = slot v (sid (ar_arm A j) (ar_id A j)) \<and> r \<noteq> Ok ()"
    and i': "i' = (if r = Ok () then j else toggle A j)"
    by (rule save_cases [OF iv fit save]) blast
  let ?e = "ar_id A i" and ?a = "ar_arm A j"
  have js: "ar_id A j = ?e" "ar_seq A j = Suc (ar_seq A i)" "?a = arm_other (ar_arm A i)"
    by (simp_all add: j inc_seq inc_frame)
  have is': "ar_id A i' = ?e" "ar_seq A i' = Suc (ar_seq A i)" by (simp_all add: i' js)
  have ho: "holds v' (arm_other ?a) ?e = holds v (arm_other ?a) ?e"
    using holds_other [OF fr] by (simp add: js)
  have hs: "holds v' ?a ?e = Some (persist j) \<or> holds v' ?a ?e = holds v ?a ?e \<and> r \<noteq> Ok ()"
    using sl d by (auto simp: arm_holds_def js)
  have bound: "ar_seq A p \<le> ar_seq A i" if "holds v a ?e = Some p" for a p
    using inv that by (auto simp: arms_ok_def)
  have dec: "decodes v' ?e"
    unfolding arms_decode_def arm_split [of _ ?a]
    using fr sl d inv eid_arms [of ?e] js
    by (cases ?a) (auto simp: arms_ok_def arms_decode_def)
  have pj: "ar_seq A (persist j) = Suc (ar_seq A i)" by (simp add: persist_seq js)
  have ainv: "arms_inv v' i'"
  proof -
    have "\<forall>a p. holds v' a ?e = Some p \<longrightarrow> ar_seq A p \<le> Suc (ar_seq A i)"
      unfolding arm_split [of _ ?a] using hs ho bound pj by (auto simp: le_SucI)
    moreover have "ar_seq A p \<noteq> ar_seq A q"
      if "holds v' Left ?e = Some p" "holds v' Right ?e = Some q" for p q
    proof (cases "holds v' ?a ?e = Some (persist j)")
      case True
      have "ar_seq A x \<le> ar_seq A i" if "holds v' (arm_other ?a) ?e = Some x" for x
        using that bound ho by simp
      then have "ar_seq A x \<noteq> Suc (ar_seq A i)" if "holds v' (arm_other ?a) ?e = Some x" for x
        using that by fastforce
      with that True pj show ?thesis by (cases ?a) auto
    next
      case False
      then have "holds v' ?a ?e = holds v ?a ?e" using hs by simp
      then have "holds v' Left ?e = holds v Left ?e" "holds v' Right ?e = holds v Right ?e"
        using ho by (cases ?a; simp)+
      with that inv show ?thesis by (simp add: arms_ok_def)
    qed
    ultimately show ?thesis using iv' dec is' by (simp add: arms_ok_def)
  qed
  then show "arms_inv v' i' \<and> r \<noteq> Panic \<and> ar_id A i' = ar_id A i \<and> ar_seq A i' = Suc (ar_seq A i)"
    using np is' by simp
  have ld: "load_item A v' ?e = (ok_or (newest (holds v' Left ?e) (holds v' Right ?e)) NotFound, v')"
    using load_item_newest [OF ainv] by (simp add: is')
  have new: "newest (holds v' Left ?e) (holds v' Right ?e) = Some (persist j)"
    if "holds v' ?a ?e = Some (persist j)"
  proof -
    have "ar_seq A x < ar_seq A (persist j)" if "holds v' (arm_other ?a) ?e = Some x" for x
      using that bound ho pj by (simp add: less_Suc_eq_le)
    with that show ?thesis
      by (cases ?a) (auto simp: arm_newest_def split: option.splits dest: less_asym)
  qed
  show "load_item A v' ?e = (Ok (persist i'), v') \<and> ar_arm A i' = arm_other (ar_arm A i)" if "r = Ok ()"
    using that hs ld new i' js by (simp add: ok_or_def)
  show "ar_arm A i' = ar_arm A i \<and>
      (fst (load_item A v' ?e) = fst (load_item A v ?e) \<or>
       fst (load_item A v' ?e) = Ok (persist (toggle A (ar_inc_seq A i))))" if "r \<noteq> Ok ()"
  proof -
    have "holds v' ?a ?e = holds v ?a ?e \<Longrightarrow>
        newest (holds v' Left ?e) (holds v' Right ?e) = newest (holds v Left ?e) (holds v Right ?e)"
      using ho by (cases ?a) simp_all
    then show ?thesis
      using that hs ld new load_item_newest [OF inv] i' js by (auto simp: ok_or_def j)
  qed
qed

end

subsection \<open>Properties\<close>


text \<open>
  An arm that cannot be read makes the whole load fail, also when the other arm is intact:
  only a missing arm is tolerated.
\<close>

lemma load_item_torn_arm:
  assumes "load_one_arm A v e Left = (l, v1)" and "load_one_arm A v1 e Right = (r, v2)"
    and "l = Ok i \<and> r = Err err \<or> l = Err err \<and> r = Ok i" and "err \<noteq> NotFound"
  shows "load_item A v e = (Err err, v2)"
  using assms by (auto simp: load_item_def choose_arm_def error_eq_plain)

end
