(* ===== verification/Volume_Armor.thy ===== *)
theory Volume_Armor
  imports Storage Armor
begin

text \<open>
  The two implementations of the trait \<open>Armor\<close> in \<open>src/src/volume/armor.rs\<close> on top of the
  storage layer, through the thin reader and writer wrappers of \<open>src/src/volume/volume.rs\<close>:
  \<open>VolumeWalArmor\<close> keeps its slots as wal records, \<open>VolumeArmor\<close> as entities. Compression of
  entities (lz4) is a volume option; the model is the volume without it.

  The accessors of \<open>ArmAccess\<close> and the serializer of the item type are the record
  \<open>item_ops\<close>; \<open>ser_arm\<close> is the serialized arm that is hashed into a slot id.
\<close>

record 'i item_ops =
  it_id :: "'i \<Rightarrow> eid"
  it_seq :: "'i \<Rightarrow> nat"
  it_inc_seq :: "'i \<Rightarrow> 'i"
  it_arm :: "'i \<Rightarrow> arm"
  it_set_arm :: "arm \<Rightarrow> 'i \<Rightarrow> 'i"
  it_ser :: "'i \<Rightarrow> bytes res"
  it_deser :: "bytes \<Rightarrow> 'i res"

definition wal_slot_read :: "'d st_env \<Rightarrow> (nat \<Rightarrow> nat) \<Rightarrow> 'd storage \<Rightarrow> eid \<Rightarrow> bytes res \<times> 'd storage" where
  "wal_slot_read E sz s e = conv_s from_io_err (read_all (wal_read E) sz (wal_reader_new e)) s"

definition wal_slot_write :: "'d st_env \<Rightarrow> 'd storage \<Rightarrow> eid \<Rightarrow> bytes \<Rightarrow> unit res \<times> 'd storage" where
  "wal_slot_write E s e b = wal_finish E (snd (wal_write (wal_writer_new e) b)) s"

definition wal_armor ::
  "'d st_env \<Rightarrow> (nat \<Rightarrow> nat) \<Rightarrow> (arm \<Rightarrow> bytes) \<Rightarrow> 'i item_ops \<Rightarrow> ('i, 'd storage) armor_ops"
where
  "wal_armor E sz ser_arm I =
     \<lparr>ar_id = it_id I, ar_seq = it_seq I, ar_inc_seq = it_inc_seq I, ar_arm = it_arm I,
      ar_set_arm = it_set_arm I, ar_eid = arm_to_eid (crypto_hash (en_sodium E)) ser_arm,
      ar_ser = it_ser I, ar_deser = it_deser I, ar_read = wal_slot_read E sz,
      ar_write = wal_slot_write E, ar_del = (\<lambda>s e. sg_del_wal E e s)\<rparr>"

text \<open>Entity slots: an error of the writer's \<open>write_all\<close> is wrapped by the plain conversion.\<close>

definition vol_slot_read :: "'d st_env \<Rightarrow> (nat \<Rightarrow> nat) \<Rightarrow> 'd storage \<Rightarrow> eid \<Rightarrow> bytes res \<times> 'd storage" where
  "vol_slot_read E sz s e =
     bind_s (reader_new E e) (\<lambda>r. conv_s from_io_err (read_all (reader_read E) sz r)) s"

definition io_question :: "'a io_res \<Rightarrow> 'a res" where
  "io_question r = map_err from_io_error r"

definition vol_slot_write :: "'d st_env \<Rightarrow> 'd storage \<Rightarrow> eid \<Rightarrow> bytes \<Rightarrow> unit res \<times> 'd storage" where
  "vol_slot_write E s e b =
     (case writer_new e (Some s) of
        (Ok w, so) \<Rightarrow>
          (case bind_s (conv_s io_question (write_all (writer_write E) b)) (\<lambda>_. writer_finish E) (w, so) of
             (r, (_, so')) \<Rightarrow> (r, the so'))
      | (Err err, so) \<Rightarrow> (Err err, the so)
      | (Panic, so) \<Rightarrow> (Panic, the so))"

definition vol_armor ::
  "'d st_env \<Rightarrow> (nat \<Rightarrow> nat) \<Rightarrow> (arm \<Rightarrow> bytes) \<Rightarrow> 'i item_ops \<Rightarrow> ('i, 'd storage) armor_ops"
where
  "vol_armor E sz ser_arm I =
     \<lparr>ar_id = it_id I, ar_seq = it_seq I, ar_inc_seq = it_inc_seq I, ar_arm = it_arm I,
      ar_set_arm = it_set_arm I, ar_eid = arm_to_eid (crypto_hash (en_sodium E)) ser_arm,
      ar_ser = it_ser I, ar_deser = it_deser I, ar_read = vol_slot_read E sz,
      ar_write = vol_slot_write E, ar_del = (\<lambda>s e. sg_del E e s)\<rparr>"

text \<open>\<open>Arm::remove_arm\<close> and \<open>Arm::remove_all\<close> delete entity slots.\<close>

definition remove_arm :: "'d st_env \<Rightarrow> (arm \<Rightarrow> bytes) \<Rightarrow> arm \<Rightarrow> eid \<Rightarrow> (unit, error, 'd storage) eff" where
  "remove_arm E ser_arm a e =
     bind_s (lift_r (arm_to_eid (crypto_hash (en_sodium E)) ser_arm a e)) (sg_del E)"

definition remove_all :: "'d st_env \<Rightarrow> (arm \<Rightarrow> bytes) \<Rightarrow> eid \<Rightarrow> (unit, error, 'd storage) eff" where
  "remove_all E ser_arm e =
     bind_s (lift_r (arm_to_eid (crypto_hash (en_sodium E)) ser_arm Left e)) (\<lambda>l.
     bind_s (lift_r (arm_to_eid (crypto_hash (en_sodium E)) ser_arm Right e)) (\<lambda>r.
       (\<lambda>s. case sg_del E l s of (r1, s1) \<Rightarrow>
            (case sg_del E r s1 of (r2, s2) \<Rightarrow> (and_then_res r1 r2, s2)))))"

subsection \<open>Wal slots keep the contract of a slot store\<close>

text \<open>
  What an item type promises: the accessors are independent of each other, and the serializer
  can read what it wrote, up to fields it skips.
\<close>

locale item_laws =
  fixes I :: "'i item_ops" and persist :: "'i \<Rightarrow> 'i"
  assumes it_ser_ok: "\<exists>b. it_ser I i = Ok b \<and> it_deser I b = Ok (persist i)"
    and it_persist_seq: "it_seq I (persist i) = it_seq I i"
    and it_inc: "it_seq I (it_inc_seq I i) = Suc (it_seq I i)" "it_arm I (it_inc_seq I i) = it_arm I i"
      "it_id I (it_inc_seq I i) = it_id I i"
    and it_set: "it_arm I (it_set_arm I a i) = a" "it_seq I (it_set_arm I a i) = it_seq I i"
      "it_id I (it_set_arm I a i) = it_id I i"

definition wal_slots_ok :: "'d st_env \<Rightarrow> ('d \<Rightarrow> bool) \<Rightarrow> ('d \<Rightarrow> eid \<rightharpoonup> bytes) \<Rightarrow> 'd storage \<Rightarrow> bool" where
  "wal_slots_ok E dinv wal s \<longleftrightarrow> dinv (sg_depot s) \<and>
     (\<forall>e c. wal (sg_depot s) e = Some c \<longrightarrow>
        (\<exists>b. crypto_decrypt (en_sodium E) (sg_crypto s) c (sg_key s) = Ok b))"

definition slot_id :: "'d st_env \<Rightarrow> (arm \<Rightarrow> bytes) \<Rightarrow> arm \<Rightarrow> eid \<Rightarrow> eid" where
  "slot_id E ser_arm a e = crypto_hash (en_sodium E) (e @ ser_arm a)"

text \<open>The hash does not send the two arms of an item to the same slot.\<close>

locale wal_slots =
  storage_env E inv wal adr blk + item_laws I persist
  for E :: "'d st_env" and inv :: "'d \<Rightarrow> bool" and wal :: "'d \<Rightarrow> eid \<rightharpoonup> bytes"
    and adr :: "'d \<Rightarrow> eid \<rightharpoonup> bytes" and blk :: "'d \<Rightarrow> nat \<rightharpoonup> bytes"
    and I :: "'i item_ops" and persist :: "'i \<Rightarrow> 'i" +
  fixes sz :: "nat \<Rightarrow> nat" and ser_arm :: "arm \<Rightarrow> bytes"
  assumes sz_pos: "0 < sz i"
    and arms_apart: "slot_id E ser_arm Left e \<noteq> slot_id E ser_arm Right e"
begin

lemma slot_eid: "arm_to_eid (crypto_hash (en_sodium E)) ser_arm a e = Ok (slot_id E ser_arm a e)"
  by (simp add: arm_to_eid_def slot_id_def eid_from_slice_def assert_r_def crypto_hash_def
      sodium.hash_len EID_SIZE_def HASH_SIZE_def)

lemma wal_slot_read_ok:
  assumes "wal_slots_ok E inv wal s"
  shows "wal_slot_read E sz s e = (ok_or (plain_wal s e) NotFound, s)"
proof (cases "wal (sg_depot s) e")
  case None
  then show ?thesis
    using assms wal_read_all_missing
    by (simp add: wal_slot_read_def wal_slots_ok_def wal_plain_def ok_or_def)
next
  case (Some c)
  then obtain b where "crypto_decrypt (en_sodium E) (sg_crypto s) c (sg_key s) = Ok b"
    using assms by (auto simp: wal_slots_ok_def)
  with Some have b: "plain_wal s e = Some b" by (simp add: wal_plain_def)
  then show ?thesis
    using assms wal_read_all [OF _ sz_pos b]
    by (simp add: wal_slot_read_def conv_s_def wal_slots_ok_def ok_or_def)
qed

lemma wal_slot_write_ok:
  assumes "wal_slots_ok E inv wal s" and "length b < 2 ^ 36 - 32"
  shows "\<exists>s'. wal_slot_write E s e b = (Ok (), s') \<and> wal_slots_ok E inv wal s' \<and>
    plain_wal s' = (plain_wal s)(e \<mapsto> b)"
proof -
  let ?w = "snd (wal_write (wal_writer_new e) b)"
  have w: "ww_wal ?w = b" "ww_id ?w = e" by (simp_all add: wal_write_def wal_writer_new_def)
  have "inv (sg_depot s)" using assms(1) by (simp add: wal_slots_ok_def)
  from wal_finish_ok [OF this, of ?w] assms(2) w obtain s' c where
    "wal_finish E ?w s = (Ok (), s')" "inv (sg_depot s')"
    "crypto_decrypt (en_sodium E) (sg_crypto s) c (sg_key s) = Ok b"
    "wal (sg_depot s') = (wal (sg_depot s))(e \<mapsto> c)"
    "sg_crypto s' = sg_crypto s" "sg_key s' = sg_key s"
    by metis
  with assms(1) show ?thesis
    by (intro exI [of _ s']) (auto simp: wal_slot_write_def wal_slots_ok_def wal_plain_def fun_eq_iff
        split: option.splits)
qed

lemma sg_del_wal_ok:
  assumes "wal_slots_ok E inv wal s" and "sg_del_wal E e s = (Ok (), s')"
  shows "wal_slots_ok E inv wal s' \<and> plain_wal s' = (plain_wal s)(e := None)"
proof -
  obtain d where "st_del_wal (en_depot E) (sg_depot s) e = (Ok (), d)" "inv d"
    "wal d = (wal (sg_depot s))(e := None)"
    using depot.del_wal [of "sg_depot s" e] assms(1) by (auto simp: wal_slots_ok_def)
  moreover from this assms(2) have "s' = s\<lparr>sg_depot := d\<rparr>"
    by (simp add: sg_del_wal_def on_depot_def zoom_def)
  moreover have "wal_plain E wal (s\<lparr>sg_depot := d\<rparr>) x = ((plain_wal s)(e := None)) x" for x
    using calculation by (cases "wal (sg_depot s) x") (simp_all add: wal_plain_def)
  ultimately show ?thesis
    using assms(1) by (simp add: wal_slots_ok_def fun_eq_iff)
qed

end

sublocale wal_slots \<subseteq> slots: slot_store "wal_armor E sz ser_arm I" "wal_slots_ok E inv wal" "wal_plain E wal" persist "slot_id E ser_arm"
proof unfold_locales
  fix v :: "'d storage" and v' s b r i
  show "wal_slots_ok E inv wal v' \<and> r \<noteq> Panic \<and> (\<forall>x. x \<noteq> s \<longrightarrow> wal_plain E wal v' x = wal_plain E wal v x) \<and>
      (wal_plain E wal v' s = Some b \<or> wal_plain E wal v' s = wal_plain E wal v s \<and> r \<noteq> Ok ())"
    if "wal_slots_ok E inv wal v" "length b < 2 ^ 36 - 32"
      "ar_write (wal_armor E sz ser_arm I) v s b = (r, v')"
    using wal_slot_write_ok [OF that(1,2), of s] that(3) by (auto simp: wal_armor_def)
  show "wal_slots_ok E inv wal v' \<and> wal_plain E wal v' = (wal_plain E wal v)(s := None)"
    if "wal_slots_ok E inv wal v" "ar_del (wal_armor E sz ser_arm I) v s = (Ok (), v')"
    using sg_del_wal_ok that by (simp add: wal_armor_def)
qed (simp_all add: wal_armor_def slot_eid arms_apart wal_slot_read_ok it_ser_ok it_persist_seq it_inc it_set)

end
