(* ===== verification/Reference_Env.thy ===== *)
theory Reference_Env
  imports Volume_Armor
begin

text \<open>
  The storage layer on the memory back end, with reference instances of the parts that are not
  in the repository: libsodium (\<open>plain_sodium\<close>), the linked hash map (\<open>list_lhm\<close>) and a
  fixed-width serializer of addresses. The interpretations show that everything the layers
  assume of each other holds for them together, and concrete instances of the theorems are
  evaluated here. The item is the one of the armor's own unit test: an id, a sequence number
  and an arm.
\<close>

fun ser_n :: "nat \<Rightarrow> nat \<Rightarrow> bytes" where
  "ser_n 0 x = []"
| "ser_n (Suc k) x = of_nat (x mod 256) # ser_n k (x div 256)"

definition de_n :: "bytes \<Rightarrow> nat" where
  "de_n bs = foldr (\<lambda>b n. unat b + 256 * n) bs 0"

definition ref_ser_span :: "loc_span \<Rightarrow> bytes" where
  "ref_ser_span ls = ser_n 8 (sp_begin (lspan ls)) @ ser_n 8 (sp_cnt (lspan ls)) @ ser_n 8 (loffset ls)"

definition ref_ser :: "addr \<Rightarrow> bytes res" where
  "ref_ser a = Ok (ser_n 8 (alen a) @ concat (map ref_ser_span (alist a)))"

definition ref_de_span :: "bytes \<Rightarrow> loc_span" where
  "ref_de_span c = loc_span_new (de_n (take 8 c)) (de_n (take 8 (drop 8 c))) (de_n (drop 16 c))"

definition ref_deser :: "bytes \<Rightarrow> addr res" where
  "ref_deser b = Ok \<lparr>alen = de_n (take 8 b), alist = map ref_de_span (chunks 24 (drop 8 b))\<rparr>"

definition mem_env :: "mem st_env" where
  "mem_env = \<lparr>en_depot = mem_ops, en_sodium = plain_sodium, en_frames = list_lhm,
     en_addrs = list_lhm, en_ser = ref_ser, en_deser = ref_deser\<rparr>"

lemma mem_env_simps [simp]:
  "en_depot mem_env = mem_ops" "en_sodium mem_env = plain_sodium" "en_frames mem_env = list_lhm"
  "en_addrs mem_env = list_lhm" "en_ser mem_env = ref_ser" "en_deser mem_env = ref_deser"
  by (simp_all add: mem_env_def)

lemma length_ser_n [simp]: "length (ser_n k x) = k"
  by (induction k arbitrary: x) simp_all

lemma de_ser_n: "x < 256 ^ k \<Longrightarrow> de_n (ser_n k x) = x"
proof (induction k arbitrary: x)
  case 0
  then show ?case by (simp add: de_n_def)
next
  case (Suc k)
  have "x div 256 < 256 ^ k" using Suc.prems by (simp add: div_less_iff_less_mult mult.commute)
  then have "de_n (ser_n k (x div 256)) = x div 256" by (rule Suc.IH)
  moreover have "unat (of_nat (x mod 256) :: byte) = x mod 256"
    by (simp add: unat_of_nat)
  ultimately show ?case by (simp add: de_n_def)
qed

lemma chunks_concat:
  assumes "0 < n" and "\<And>x. x \<in> set xs \<Longrightarrow> length x = n"
  shows "chunks n (concat xs) = xs"
  using assms(2)
proof (induction xs)
  case Nil
  then show ?case by simp
next
  case (Cons x xs)
  have x: "length x = n" "x \<noteq> []" using Cons.prems assms(1) by force+
  then have "chunks n (concat (x # xs)) = x # chunks n (concat xs)"
    using assms(1) by (simp add: chunks_step)
  with Cons show ?case by simp
qed

lemma length_ref_ser_span [simp]: "length (ref_ser_span ls) = 24"
  by (simp add: ref_ser_span_def)

lemma ref_ser_deser:
  assumes "addr_fits a"
  shows "\<exists>b. ref_ser a = Ok b \<and> ref_deser b = Ok a \<and> length b \<le> 32 * Suc (length (alist a))"
proof -
  have w: "(2::nat) ^ 64 = 256 ^ 8" by simp
  have sp: "ref_de_span (ref_ser_span ls) = ls" if "ls \<in> set (alist a)" for ls
  proof -
    obtain sp off where ls: "ls = \<lparr>lspan = sp, loffset = off\<rparr>" by (cases ls)
    obtain b n where "sp = \<lparr>sp_begin = b, sp_cnt = n\<rparr>" by (cases sp)
    with ls that assms have "b < 256 ^ 8" "n < 256 ^ 8" "off < 256 ^ 8"
      and ls': "ls = loc_span_new b n off"
      unfolding addr_fits_def w by (auto simp: loc_span_new_def span_new_def)
    then show ?thesis
      by (simp add: ls' ref_de_span_def ref_ser_span_def de_ser_n loc_span_new_def span_new_def)
  qed
  let ?b = "ser_n 8 (alen a) @ concat (map ref_ser_span (alist a))"
  have "chunks 24 (concat (map ref_ser_span (alist a))) = map ref_ser_span (alist a)"
    by (rule chunks_concat) auto
  moreover have "alen a < 256 ^ 8" using assms unfolding addr_fits_def w by simp
  ultimately have "ref_deser ?b = Ok a"
    using sp by (simp add: ref_deser_def de_ser_n o_def map_idI)
  moreover have "length (concat (map ref_ser_span (alist a))) = 24 * length (alist a)"
    by (simp add: length_concat o_def sum_list_triv)
  ultimately show ?thesis by (simp add: ref_ser_def)
qed

interpretation mem_sg: storage_env mem_env mem_inv mem_wal mem_adr mem_blk
  by (intro storage_env.intro storage_env_axioms.intro)
    (use ref_ser_deser in \<open>simp_all add: mem.storable_axioms plain.sodium_laws_axioms
      list_map.linked_hash_map_axioms\<close>)

subsection \<open>The item of the unit test\<close>

record ref_item =
  ri_id :: eid
  ri_seq :: nat
  ri_arm :: arm

definition ref_ser_arm :: "arm \<Rightarrow> bytes" where
  "ref_ser_arm a = [case a of Left \<Rightarrow> 0 | Right \<Rightarrow> 1]"

definition ref_ser_item :: "ref_item \<Rightarrow> bytes res" where
  "ref_ser_item i = Ok (ref_ser_arm (ri_arm i) @ replicate (ri_seq i) 1 @ [0] @ ri_id i)"

definition ref_deser_item :: "bytes \<Rightarrow> ref_item res" where
  "ref_deser_item b = Ok \<lparr>ri_id = tl (dropWhile ((=) 1) (tl b)),
     ri_seq = length (takeWhile ((=) 1) (tl b)), ri_arm = (if hd b = 0 then Left else Right)\<rparr>"

definition ref_item_ops :: "ref_item item_ops" where
  "ref_item_ops = \<lparr>it_id = ri_id, it_seq = ri_seq, it_inc_seq = (\<lambda>i. i\<lparr>ri_seq := Suc (ri_seq i)\<rparr>),
     it_arm = ri_arm, it_set_arm = (\<lambda>a i. i\<lparr>ri_arm := a\<rparr>), it_ser = ref_ser_item,
     it_deser = ref_deser_item\<rparr>"

interpretation ref_items: item_laws ref_item_ops "\<lambda>i. i"
proof unfold_locales
  fix i :: ref_item
  have "takeWhile ((=) (1::byte)) (replicate n 1 @ 0 # xs) = replicate n 1"
    and "dropWhile ((=) (1::byte)) (replicate n 1 @ 0 # xs) = 0 # xs" for n xs
    by (induction n) simp_all
  then show "\<exists>b. it_ser ref_item_ops i = Ok b \<and> it_deser ref_item_ops b = Ok i"
    by (simp add: ref_item_ops_def ref_ser_item_def ref_deser_item_def ref_ser_arm_def
        split: arm.splits)
qed (simp_all add: ref_item_ops_def)

interpretation mem_slots: wal_slots mem_env mem_inv mem_wal mem_adr mem_blk ref_item_ops "\<lambda>i. i" "\<lambda>_. 32" ref_ser_arm
  by unfold_locales
    (simp_all add: slot_id_def crypto_hash_def plain_sodium_def ref_ser_arm_def HASH_SIZE_def)

text \<open>A new memory repository and its storage.\<close>

definition mem_state :: mem where
  "mem_state = (mem_new ''a'', [''a'' \<mapsto> mem_depot_new])"

definition mem_storage0 :: "mem storage" where
  "mem_storage0 = storage_new mem_state 0"

lemma mem_state_inv: "mem_inv mem_state"
  by (simp add: mem_state_def mem_view_defs mem_new_def mem_depot_new_def blks_sized_def)

lemma mem_state_maps: "mem_wal mem_state = Map.empty" "mem_adr mem_state = Map.empty"
  "mem_blk mem_state = Map.empty"
  by (simp_all add: mem_state_def mem_view_defs mem_new_def mem_depot_new_def)

abbreviation ref_armor :: "(ref_item, mem storage) armor_ops" where
  "ref_armor \<equiv> wal_armor mem_env (\<lambda>_. 32) ref_ser_arm ref_item_ops"

abbreviation ref_item0 :: ref_item where
  "ref_item0 \<equiv> \<lparr>ri_id = replicate 32 7, ri_seq = 0, ri_arm = Left\<rparr>"

lemma ref_arms_ok:
  "arms_ok ref_armor (wal_slots_ok mem_env mem_inv mem_wal) (wal_plain mem_env mem_wal)
     (slot_id mem_env ref_ser_arm) mem_storage0 ref_item0"
  by (simp add: arms_ok_def arms_decode_def arm_holds_def wal_slots_ok_def wal_plain_def
      mem_storage0_def storage_new_def mem_state_inv mem_state_maps)

lemma ref_fits: "fits ref_armor (toggle ref_armor (ar_inc_seq ref_armor ref_item0))"
  by (simp add: fits_def wal_armor_def ref_item_ops_def ref_ser_item_def ref_ser_arm_def toggle_def)


text \<open>One arm holds a readable item, the other one cannot be decrypted.\<close>

end
