(* ===== verification/Cow.thy ===== *)
theory Cow
  imports Armor Zbox_Effect Lru
begin

text \<open>
  \<open>src/src/trans/cow.rs\<close>: the copy-on-write wrapper of every persistent object. A cow has two
  inner values, one per arm; \<open>arm\<close> selects the current one. In a transaction an update works on
  a copy in the other arm, which becomes current when the transaction is complete.

  The running thread is its transaction id \<open>tls\<close> (0 outside a transaction). Registering with
  the transaction manager (\<open>TxMgr::add_to_trans\<close>) is an argument \<open>reg\<close> that works on the state
  \<open>'t\<close> of the manager. A mutable reference to an inner value is the arm it points into; writing
  through it is \<open>inner_update\<close>.
\<close>

datatype action = New | Update | Delete

record 'a cow =
  co_id :: eid
  co_seq :: nat
  co_arm :: arm
  co_left :: "'a option"
  co_right :: "'a option"
  co_txid :: "txid option"
  co_action :: "action option"

definition cow_new :: "eid \<Rightarrow> 'a \<Rightarrow> 'a cow" where
  "cow_new e x =
     (let a = arm_other arm_default in
      \<lparr>co_id = e, co_seq = 0, co_arm = a,
       co_left = (case a of Left \<Rightarrow> Some x | Right \<Rightarrow> None),
       co_right = (case a of Left \<Rightarrow> None | Right \<Rightarrow> Some x),
       co_txid = None, co_action = None\<rparr>)"

text \<open>The slot of an arm, read and written.\<close>

definition slot_of :: "'a cow \<Rightarrow> arm \<Rightarrow> 'a option" where
  "slot_of c a = (case a of Left \<Rightarrow> co_left c | Right \<Rightarrow> co_right c)"

definition set_slot :: "arm \<Rightarrow> 'a option \<Rightarrow> 'a cow \<Rightarrow> 'a cow" where
  "set_slot a x c = (case a of Left \<Rightarrow> c\<lparr>co_left := x\<rparr> | Right \<Rightarrow> c\<lparr>co_right := x\<rparr>)"

definition has_other :: "'a cow \<Rightarrow> bool" where
  "has_other c = (slot_of c (arm_other (co_arm c)) \<noteq> None)"

text \<open>\<open>inner_by\<close> panics on an empty slot.\<close>

definition inner_by :: "'a cow \<Rightarrow> arm \<Rightarrow> ('a, 'e) result" where
  "inner_by c a = unwrap_opt (slot_of c a)"

definition cow_inner :: "'a cow \<Rightarrow> ('a, 'e) result" where
  "cow_inner c = inner_by c (co_arm c)"

definition other_inner :: "'a cow \<Rightarrow> ('a, 'e) result" where
  "other_inner c = inner_by c (arm_other (co_arm c))"

definition inner_update :: "arm \<Rightarrow> ('a \<Rightarrow> 'a) \<Rightarrow> 'a cow \<Rightarrow> 'a cow" where
  "inner_update a f c = set_slot a (map_option f (slot_of c a)) c"

definition in_trans :: "'a cow \<Rightarrow> bool" where
  "in_trans c = (co_txid c \<noteq> None)"

text \<open>
  \<open>add_to_trans\<close>: what the action recorded so far and the new one demand. \<open>Some\<close> is an early
  return (or the panic of \<open>unreachable!\<close>), \<open>None\<close> goes on to register.
\<close>

fun action_order :: "action \<Rightarrow> action \<Rightarrow> unit res option" where
  "action_order New New = Some (Ok ())"
| "action_order New Update = Some (Ok ())"
| "action_order New Delete = None"
| "action_order Update New = Some Panic"
| "action_order Update Update = Some (Ok ())"
| "action_order Update Delete = None"
| "action_order Delete Delete = Some (Ok ())"
| "action_order Delete _ = Some Panic"

definition cow_precheck :: "txid \<Rightarrow> action \<Rightarrow> 'a cow \<Rightarrow> unit res option" where
  "cow_precheck cur act c =
     (case co_txid c of
        None \<Rightarrow> None
      | Some t \<Rightarrow> if t \<noteq> cur then Some (Err InUse)
                  else (case co_action c of None \<Rightarrow> None | Some a \<Rightarrow> action_order a act))"

type_synonym 't register = "eid \<Rightarrow> txid \<Rightarrow> action \<Rightarrow> arm \<Rightarrow> (unit, error, 't) eff"

definition cow_add_to_trans ::
  "'t register \<Rightarrow> txid \<Rightarrow> action \<Rightarrow> (unit, error, 'a cow \<times> 't) eff"
where
  "cow_add_to_trans reg tls act =
     bind_s (lift_r (txid_current tls)) (\<lambda>cur.
     bind_s get_s (\<lambda>(c, _).
       case cow_precheck cur act c of
         Some r \<Rightarrow> lift_r r
       | None \<Rightarrow>
           let a = (if act = New then co_arm c else arm_other (co_arm c))
           in bind_s (zoom snd (\<lambda>t (c, _). (c, t)) (reg (co_id c) cur act a)) (\<lambda>_.
              modify_s (\<lambda>(c, t). (c\<lparr>co_txid := Some cur, co_action := Some act\<rparr>, t)))))"

text \<open>\<open>make_mut\<close> returns the arm whose inner value the reference points to.\<close>

definition make_mut :: "'t register \<Rightarrow> txid \<Rightarrow> (arm, error, 'a cow \<times> 't) eff" where
  "make_mut reg tls =
     bind_s get_s (\<lambda>(c, t).
       if co_action c = Some New
       then bind_s (lift_r (cow_inner c)) (\<lambda>_. ret_s (co_arm c))
       else bind_s (if has_other c then ret_s ()
                    else bind_s (lift_r (cow_inner c)) (\<lambda>x.
                         modify_s (\<lambda>(c, t). (set_slot (arm_other (co_arm c)) (Some x) c, t)))) (\<lambda>_.
            bind_s (cow_add_to_trans reg tls Update) (\<lambda>_.
            bind_s get_s (\<lambda>(c, _).
            bind_s (lift_r (other_inner c)) (\<lambda>_. ret_s (arm_other (co_arm c)))))))"

definition make_mut_naive :: "(arm, error, 'a cow \<times> 't) eff" where
  "make_mut_naive = bind_s get_s (\<lambda>(c, _). bind_s (lift_r (cow_inner c)) (\<lambda>_. ret_s (co_arm c)))"

definition make_del :: "'t register \<Rightarrow> txid \<Rightarrow> (unit, error, 'a cow \<times> 't) eff" where
  "make_del reg tls = cow_add_to_trans reg tls Delete"

definition into_cow_with_id :: "'t register \<Rightarrow> txid \<Rightarrow> eid \<Rightarrow> 'a \<Rightarrow> 't \<Rightarrow> ('a cow) res \<times> 't" where
  "into_cow_with_id reg tls e x t =
     (case cow_add_to_trans reg tls New (cow_new e x, t) of
        (r, (c, t')) \<Rightarrow> (bind_r r (\<lambda>_. Ok c), t'))"

text \<open>Reading through the wrapper: only the transaction that changes the cow sees the new value.\<close>

definition cow_deref :: "txid \<Rightarrow> 'a cow \<Rightarrow> ('a, 'e) result" where
  "cow_deref tls c =
     (if co_txid c = None \<or> co_txid c \<noteq> Some (txid_current_or_empty tls) \<or> co_action c = Some New
      then cow_inner c else other_inner c)"

subsection \<open>Commit and abort\<close>

text \<open>
  \<open>on_commit\<close> is the hook of the inner type; it may change the value and write to the volume.
  \<open>A\<close> is the volume armor of the cow.
\<close>

definition call_on_commit ::
  "('v \<Rightarrow> 'a \<Rightarrow> unit res \<times> 'a \<times> 'v) \<Rightarrow> arm \<Rightarrow> (unit, error, 'a cow \<times> 'v) eff"
where
  "call_on_commit hook a = (\<lambda>(c, v).
     case slot_of c a of
       None \<Rightarrow> (Panic, (c, v))
     | Some x \<Rightarrow> (case hook v x of (r, x', v') \<Rightarrow> (r, (set_slot a (Some x') c, v'))))"

definition cow_save :: "('a cow, 'v) armor_ops \<Rightarrow> (unit, error, 'a cow \<times> 'v) eff" where
  "cow_save A = (\<lambda>(c, v). case save_item A v c of (r, c', v') \<Rightarrow> (r, (c', v')))"

definition cow_toggle :: "'a cow \<Rightarrow> 'a cow" where
  "cow_toggle c = c\<lparr>co_arm := arm_other (co_arm c)\<rparr>"

definition on_cow :: "('a cow \<Rightarrow> 'a cow) \<Rightarrow> (unit, error, 'a cow \<times> 'v) eff" where
  "on_cow f = modify_s (\<lambda>(c, v). (f c, v))"

definition commit_new ::
  "('v \<Rightarrow> 'a \<Rightarrow> unit res \<times> 'a \<times> 'v) \<Rightarrow> ('a cow, 'v) armor_ops \<Rightarrow> (unit, error, 'a cow \<times> 'v) eff"
where
  "commit_new hook A =
     bind_s get_s (\<lambda>(c, _).
     bind_s (call_on_commit hook (co_arm c)) (\<lambda>_.
     bind_s (on_cow cow_toggle) (\<lambda>_.
       or_else_s (cow_save A) (\<lambda>err. bind_s (on_cow cow_toggle) (\<lambda>_. lift_r (Err err))))))"

text \<open>
  The old value is taken out while the cow is saved, so that only the new one is written, and
  put back into the current slot afterwards.
\<close>

definition commit_update ::
  "('v \<Rightarrow> 'a \<Rightarrow> unit res \<times> 'a \<times> 'v) \<Rightarrow> ('a cow, 'v) armor_ops \<Rightarrow> (unit, error, 'a cow \<times> 'v) eff"
where
  "commit_update hook A =
     bind_s get_s (\<lambda>(c0, _).
     bind_s (call_on_commit hook (arm_other (co_arm c0))) (\<lambda>_.
     bind_s get_s (\<lambda>(c, _).
       let old = slot_of c (co_arm c) in
       bind_s (on_cow (set_slot (co_arm c) None)) (\<lambda>_. (\<lambda>cv.
         case bind_s (cow_save A) (\<lambda>_. on_cow cow_toggle) cv of
           (r, (c', v')) \<Rightarrow> (r, (set_slot (co_arm c') old c', v')))))))"

definition commit_delete ::
  "('v \<Rightarrow> 'a \<Rightarrow> unit res \<times> 'a \<times> 'v) \<Rightarrow> (unit, error, 'a cow \<times> 'v) eff"
where
  "commit_delete hook = bind_s get_s (\<lambda>(c, _). call_on_commit hook (co_arm c))"

definition cow_commit ::
  "('v \<Rightarrow> 'a \<Rightarrow> unit res \<times> 'a \<times> 'v) \<Rightarrow> ('a cow, 'v) armor_ops \<Rightarrow> (unit, error, 'a cow \<times> 'v) eff"
where
  "cow_commit hook A =
     bind_s get_s (\<lambda>(c, _).
       case co_action c of
         Some New \<Rightarrow> commit_new hook A
       | Some Update \<Rightarrow> commit_update hook A
       | Some Delete \<Rightarrow> commit_delete hook
       | None \<Rightarrow> lift_r Panic)"

definition leave_trans :: "'a cow \<Rightarrow> 'a cow" where
  "leave_trans c = c\<lparr>co_txid := None, co_action := None\<rparr>"

definition cow_complete_commit :: "'a cow \<Rightarrow> ('a cow, 'e) result" where
  "cow_complete_commit c =
     (case co_action c of
        None \<Rightarrow> Panic
      | Some Update \<Rightarrow>
          let c1 = cow_toggle c
          in Ok (leave_trans (set_slot (arm_other (co_arm c1)) None c1))
      | Some _ \<Rightarrow> Ok (leave_trans c))"

definition cow_abort :: "'a cow \<Rightarrow> ('a cow, 'e) result" where
  "cow_abort c =
     (case co_action c of
        None \<Rightarrow> Panic
      | Some Update \<Rightarrow> Ok (leave_trans (set_slot (arm_other (co_arm c)) None c))
      | Some _ \<Rightarrow> Ok (leave_trans c))"

subsection \<open>The cache of cows\<close>

text \<open>
  The cache holds references; the heap maps them to cows. A cow in a transaction is pinned.
  Loading a cow that is not cached (\<open>load\<close>, which also allocates its reference) is an argument.
\<close>

definition cow_pinned :: "(nat \<Rightarrow> 'a cow) \<Rightarrow> nat \<Rightarrow> bool" where
  "cow_pinned heap r = in_trans (heap r)"

definition cache_get ::
  "(eid, nat) lhm_ops \<Rightarrow> (nat \<Rightarrow> 'a cow) \<Rightarrow> (nat \<times> (nat \<Rightarrow> 'a cow)) res \<Rightarrow> eid \<Rightarrow> (eid, nat) lru \<Rightarrow>
   nat res \<times> (nat \<Rightarrow> 'a cow) \<times> (eid, nat) lru"
where
  "cache_get L heap load e c =
     (case get_refresh L c e of
        (Some r, c1) \<Rightarrow> (Ok r, heap, c1)
      | (None, c1) \<Rightarrow>
          (case load of
             Ok (r, heap1) \<Rightarrow> (Ok r, heap1, snd (lru_insert L count_meter (cow_pinned heap1) c1 e r))
           | Err err \<Rightarrow> (Err err, heap, c1)
           | Panic \<Rightarrow> (Panic, heap, c1)))"

definition cache_insert ::
  "(eid, nat) lhm_ops \<Rightarrow> (nat \<Rightarrow> 'a cow) \<Rightarrow> nat \<Rightarrow> (eid, nat) lru \<Rightarrow> (eid, nat) lru"
where
  "cache_insert L heap r c = snd (lru_insert L count_meter (cow_pinned heap) c (co_id (heap r)) r)"

definition cache_remove :: "(eid, nat) lhm_ops \<Rightarrow> eid \<Rightarrow> (eid, nat) lru \<Rightarrow> nat option \<times> (eid, nat) lru" where
  "cache_remove L e c = lru_remove L count_meter c e"

definition cow_deleted :: "'a cow \<Rightarrow> bool" where
  "cow_deleted c = (in_trans c \<and> co_action c = Some Delete)"

text \<open>The entries of the map are removed directly, not through the cache.\<close>

definition remove_deleted ::
  "(eid, nat) lhm_ops \<Rightarrow> (nat \<Rightarrow> 'a cow) \<Rightarrow> (eid, nat) lru \<Rightarrow> (eid, nat) lru"
where
  "remove_deleted L heap c =
     c\<lparr>lmap := lhm_retain L (\<lambda>_ r. \<not> cow_deleted (heap r)) (lmap c)\<rparr>"

subsection \<open>Facts\<close>

lemma arm_other_neq [simp]: "arm_other a \<noteq> a" "a \<noteq> arm_other a"
  by (cases a; simp)+

lemma arm_other_twice [simp]: "arm_other (arm_other a) = a"
  by (cases a) simp_all

lemma slot_set [simp]: "slot_of (set_slot a x c) b = (if a = b then x else slot_of c b)"
  by (cases a; cases b) (simp_all add: slot_of_def set_slot_def)

lemma set_slot_frame [simp]:
  "co_id (set_slot a x c) = co_id c" "co_seq (set_slot a x c) = co_seq c"
  "co_arm (set_slot a x c) = co_arm c" "co_txid (set_slot a x c) = co_txid c"
  "co_action (set_slot a x c) = co_action c"
  by (cases a; simp add: set_slot_def)+

lemma set_slot_same: "slot_of c a = x \<Longrightarrow> set_slot a x c = c"
  by (cases a) (auto simp: slot_of_def set_slot_def)

lemma set_slot_set [simp]: "set_slot a x (set_slot a y c) = set_slot a x c"
  by (cases a) (simp_all add: set_slot_def)

lemma slot_of_cong [simp]:
  "slot_of (c\<lparr>co_txid := t\<rparr>) a = slot_of c a" "slot_of (c\<lparr>co_action := ac\<rparr>) a = slot_of c a"
  "slot_of (c\<lparr>co_arm := ar\<rparr>) a = slot_of c a" "slot_of (c\<lparr>co_seq := n\<rparr>) a = slot_of c a"
  by (cases a; simp add: slot_of_def)+

lemma inner_update_frame [simp]:
  "co_id (inner_update a f c) = co_id c" "co_arm (inner_update a f c) = co_arm c"
  "co_txid (inner_update a f c) = co_txid c" "co_action (inner_update a f c) = co_action c"
  "slot_of (inner_update a f c) b = (if a = b then map_option f (slot_of c a) else slot_of c b)"
  by (simp_all add: inner_update_def)

lemma leave_trans_frame [simp]:
  "co_txid (leave_trans c) = None" "co_action (leave_trans c) = None"
  "co_arm (leave_trans c) = co_arm c" "slot_of (leave_trans c) a = slot_of c a"
  "co_id (leave_trans c) = co_id c"
  by (simp_all add: leave_trans_def)

text \<open>A cow outside transactions with value \<open>x\<close>: the other arm is empty.\<close>

definition cow_idle :: "'a cow \<Rightarrow> 'a \<Rightarrow> bool" where
  "cow_idle c x \<longleftrightarrow> co_txid c = None \<and> co_action c = None \<and>
     slot_of c (co_arm c) = Some x \<and> slot_of c (arm_other (co_arm c)) = None"

text \<open>The first \<open>make_mut\<close> of a transaction on an idle cow.\<close>

lemma make_mut_idle:
  assumes "cow_idle c x" and "tls \<noteq> 0"
    and "reg (co_id c) tls Update (arm_other (co_arm c)) t = (Ok (), t')"
  shows "make_mut reg tls (c, t) = (Ok (arm_other (co_arm c)),
    ((set_slot (arm_other (co_arm c)) (Some x) c)\<lparr>co_txid := Some tls, co_action := Some Update\<rparr>, t'))"
  using assms
  by (simp add: make_mut_def cow_idle_def has_other_def cow_inner_def other_inner_def inner_by_def unwrap_opt_def
      cow_add_to_trans_def txid_current_def cow_precheck_def zoom_def bind_s_def Let_def)

lemma leave_trans_id: "co_txid c = None \<Longrightarrow> co_action c = None \<Longrightarrow> leave_trans c = c"
  by (simp add: leave_trans_def)

lemma update_abort:
  assumes "cow_idle c x"
  shows "cow_abort (inner_update (arm_other (co_arm c)) f
    ((set_slot (arm_other (co_arm c)) (Some x) c)\<lparr>co_txid := Some t, co_action := Some Update\<rparr>)) = Ok c"
  using assms
  by (cases "co_arm c")
    (auto simp: cow_idle_def cow_abort_def inner_update_def set_slot_def slot_of_def leave_trans_def)

lemma update_complete:
  assumes "cow_idle c x"
  shows "\<exists>d. cow_complete_commit (inner_update (arm_other (co_arm c)) f
      ((set_slot (arm_other (co_arm c)) (Some x) c)\<lparr>co_txid := Some t, co_action := Some Update\<rparr>)) = Ok d \<and>
    cow_idle d (f x) \<and> co_arm d = arm_other (co_arm c)"
  using assms
  by (cases "co_arm c")
    (auto simp: cow_idle_def cow_complete_commit_def cow_toggle_def inner_update_def set_slot_def
      slot_of_def leave_trans_def Let_def)

text \<open>The armor of a cow works on its own fields; the serializer skips the transaction fields.\<close>

definition cow_access :: "('a cow, 'v) armor_ops \<Rightarrow> bool" where
  "cow_access A \<longleftrightarrow> ar_id A = co_id \<and> ar_seq A = co_seq \<and> ar_arm A = co_arm \<and>
     ar_set_arm A = (\<lambda>a c. c\<lparr>co_arm := a\<rparr>) \<and> ar_inc_seq A = (\<lambda>c. c\<lparr>co_seq := Suc (co_seq c)\<rparr>)"

lemma cow_access_toggle: "cow_access A \<Longrightarrow> toggle A c = cow_toggle c"
  by (simp add: cow_access_def toggle_def cow_toggle_def)

lemma cow_toggle_frame [simp]:
  "co_arm (cow_toggle c) = arm_other (co_arm c)" "slot_of (cow_toggle c) a = slot_of c a"
  "co_id (cow_toggle c) = co_id c" "co_seq (cow_toggle c) = co_seq c"
  "co_txid (cow_toggle c) = co_txid c" "co_action (cow_toggle c) = co_action c"
  by (simp_all add: cow_toggle_def)

lemma arms_ok_same:
  "ar_id A i = ar_id A j \<Longrightarrow> ar_seq A i = ar_seq A j \<Longrightarrow>
    arms_ok A vinv slot sid v i \<longleftrightarrow> arms_ok A vinv slot sid v j"
  by (simp add: arms_ok_def)

text \<open>The image of an updated cow that is written: the new value alone, in the other arm.\<close>

definition update_image :: "'a cow \<Rightarrow> 'a \<Rightarrow> 'a cow" where
  "update_image c y = cow_toggle ((set_slot (co_arm c) None
     (set_slot (arm_other (co_arm c)) (Some y) c))\<lparr>co_seq := Suc (co_seq c)\<rparr>)"

lemma update_image_idle: "cow_idle (leave_trans (update_image c y)) y"
  by (simp add: cow_idle_def update_image_def)

lemma commit_update_cases:
  assumes S: "slot_store A vinv slot persist sid" and acc: "cow_access A"
    and act: "co_action c = Some Update" and cur: "slot_of c (co_arm c) = Some x"
    and oth: "slot_of c (arm_other (co_arm c)) = Some y" and hk: "hook v y = (Ok (), y', v1)"
    and ok: "arms_ok A vinv slot sid v1 c" and fit: "fits A (update_image c y')"
    and cm: "cow_commit hook A (c, v) = (r, (c', v'))"
  shows "r \<noteq> Panic \<and> co_arm c' = co_arm c \<and> co_action c' = Some Update \<and>
    slot_of c' (co_arm c') = Some x \<and> slot_of c' (arm_other (co_arm c')) = Some y'"
    and "r = Ok () \<Longrightarrow> load_item A v' (co_id c) = (Ok (persist (update_image c y')), v')"
    and "r \<noteq> Ok () \<Longrightarrow> fst (load_item A v' (co_id c)) = fst (load_item A v1 (co_id c)) \<or>
      fst (load_item A v' (co_id c)) = Ok (persist (update_image c y'))"
proof -
  let ?cs = "set_slot (co_arm c) None (set_slot (arm_other (co_arm c)) (Some y') c)"
  obtain r0 cs' v0 where sv: "save_item A v1 ?cs = (r0, cs', v0)"
    by (cases "save_item A v1 ?cs")
  have im: "toggle A (ar_inc_seq A ?cs) = update_image c y'"
    using acc by (simp add: cow_access_toggle update_image_def) (simp add: cow_access_def)
  have ok': "arms_ok A vinv slot sid v1 ?cs"
    using ok acc by (subst arms_ok_same [where j = c]) (simp_all add: cow_access_def)
  have fit': "fits A (toggle A (ar_inc_seq A ?cs))" using fit by (simp add: im)
  note sv' = slot_store.save_inv [OF S ok' fit' sv]
  have cs': "cs' = (if r0 = Ok () then update_image c y' else cow_toggle (update_image c y'))"
  proof -
    have "vinv v1" using ok by (simp add: arms_ok_def)
    from slot_store.save_cases [OF S this fit' sv] obtain j where
      "j = toggle A (ar_inc_seq A ?cs)" "cs' = (if r0 = Ok () then j else toggle A j)"
      by metis
    then show ?thesis by (metis im cow_access_toggle [OF acc])
  qed
  have id: "ar_id A ?cs = co_id c" using acc by (simp add: cow_access_def)
  have "r = r0 \<and> v' = v0 \<and> c' = set_slot (co_arm c) (Some x)
      (if r0 = Ok () then cow_toggle cs' else cs')"
    using cm act cur oth hk sv sv'(1) cs'
    by (cases r0) (auto simp: cow_commit_def commit_update_def call_on_commit_def cow_save_def
        on_cow_def Let_def bind_s_def update_image_def)
  then have rv: "r = r0" "v' = v0"
    and c': "c' = set_slot (co_arm c) (Some x) (if r0 = Ok () then cow_toggle cs' else cs')" by auto
  show "r \<noteq> Panic \<and> co_arm c' = co_arm c \<and> co_action c' = Some Update \<and>
    slot_of c' (co_arm c') = Some x \<and> slot_of c' (arm_other (co_arm c')) = Some y'"
    using sv'(1) act by (simp add: rv c' cs' update_image_def)
  show "load_item A v' (co_id c) = (Ok (persist (update_image c y')), v')" if "r = Ok ()"
    using sv'(2) that id by (simp add: rv cs')
  show "fst (load_item A v' (co_id c)) = fst (load_item A v1 (co_id c)) \<or>
      fst (load_item A v' (co_id c)) = Ok (persist (update_image c y'))" if "r \<noteq> Ok ()"
    using sv'(3) that id by (simp add: rv im)
qed

subsection \<open>Properties\<close>

text \<open>
  C6. Isolation and atomicity of an update in memory. After \<open>make_mut\<close> on a cow outside
  transactions and any modification through the returned reference, the transaction itself
  reads the new value while every other thread still reads the old one; an abort restores the
  cow exactly as it was, and completing the commit makes the new value the only one.
\<close>

theorem cow_update_isolation:
  assumes "cow_idle c x" and "tls \<noteq> 0"
    and "reg (co_id c) tls Update (arm_other (co_arm c)) t = (Ok (), t')"
  shows "\<exists>a c1. make_mut reg tls (c, t) = (Ok a, (c1, t')) \<and>
    (let c2 = inner_update a f c1 in
       cow_deref tls c2 = (Ok (f x) :: ('a, error) result) \<and>
       (\<forall>u. u \<noteq> tls \<longrightarrow> cow_deref u c2 = (Ok x :: ('a, error) result)) \<and>
       cow_abort c2 = (Ok c :: ('a cow, error) result) \<and>
       (\<exists>d. cow_complete_commit c2 = (Ok d :: ('a cow, error) result) \<and> cow_idle d (f x) \<and>
            co_arm d = arm_other (co_arm c)))"
proof -
  let ?c1 = "(set_slot (arm_other (co_arm c)) (Some x) c)\<lparr>co_txid := Some tls, co_action := Some Update\<rparr>"
  let ?c2 = "inner_update (arm_other (co_arm c)) f ?c1"
  have "cow_deref tls ?c2 = (Ok (f x) :: ('a, error) result)"
    using assms(2)
    by (simp add: cow_deref_def txid_current_or_empty_def txid_current_def other_inner_def
        inner_by_def unwrap_opt_def)
  moreover have "\<forall>u. u \<noteq> tls \<longrightarrow> cow_deref u ?c2 = (Ok x :: ('a, error) result)"
    using assms(1,2)
    by (auto simp: cow_deref_def txid_current_or_empty_def txid_current_def cow_inner_def
        inner_by_def unwrap_opt_def cow_idle_def)
  ultimately show ?thesis
    using make_mut_idle [of c x tls reg t t', OF assms] update_abort [OF assms(1), of f tls] update_complete [OF assms(1), of f tls]
    by (intro exI [of _ "arm_other (co_arm c)"] exI [of _ ?c1]) (simp add: Let_def)
qed

theorem cow_update_isolation_witness:
  "\<exists>a c1. make_mut (\<lambda>_ _ _ _. ret_s ()) 5 (cow_new [] (1::nat), ()) = (Ok a, (c1, ())) \<and>
     cow_deref 5 (inner_update a (\<lambda>_. 2) c1) = (Ok 2 :: (nat, error) result) \<and>
     cow_deref 0 (inner_update a (\<lambda>_. 2) c1) = (Ok 1 :: (nat, error) result)"
proof -
  have i: "cow_idle (cow_new [] (1::nat)) 1"
    by (simp add: cow_idle_def cow_new_def slot_of_def arm_default_def)
  from cow_update_isolation [OF i, of 5 "\<lambda>_ _ _ _. ret_s ()" "()" "()" "\<lambda>_. 2"] show ?thesis
    by (auto simp: Let_def)
qed


text \<open>
  An aborted update is not always forgotten: when the cow was updated and then deleted in
  the same transaction, \<open>abort\<close> sees the action \<open>Delete\<close> and keeps the modified copy, and the
  next transaction that calls \<open>make_mut\<close> gets that copy instead of the committed value.
\<close>

lemma cow_abort_after_delete_leaks:
  assumes "cow_idle c x" and "t1 \<noteq> 0" and "t2 \<noteq> 0"
  shows "\<exists>a c1 c2 c3 b c4.
    make_mut (\<lambda>_ _ _ _. ret_s ()) t1 (c, ()) = (Ok a, (c1, ())) \<and>
    make_del (\<lambda>_ _ _ _. ret_s ()) t1 (inner_update a f c1, ()) = (Ok (), (c2, ())) \<and>
    cow_abort c2 = (Ok c3 :: ('a cow, error) result) \<and>
    cow_deref 0 c3 = (Ok x :: ('a, error) result) \<and>
    make_mut (\<lambda>_ _ _ _. ret_s ()) t2 (c3, ()) = (Ok b, (c4, ())) \<and>
    cow_deref t2 c4 = (Ok (f x) :: ('a, error) result)"
proof -
  let ?reg = "\<lambda>_ _ _ _. ret_s ()"
  let ?c1 = "(set_slot (arm_other (co_arm c)) (Some x) c)\<lparr>co_txid := Some t1, co_action := Some Update\<rparr>"
  let ?c1' = "inner_update (arm_other (co_arm c)) f ?c1"
  let ?c2 = "?c1'\<lparr>co_txid := Some t1, co_action := Some Delete\<rparr>"
  let ?c3 = "leave_trans ?c2"
  let ?c4 = "?c3\<lparr>co_txid := Some t2, co_action := Some Update\<rparr>"
  have m1: "make_mut ?reg t1 (c, ()) = (Ok (arm_other (co_arm c)), (?c1, ()))"
    using make_mut_idle [of c x t1 ?reg "()" "()"] assms by simp
  have d: "make_del ?reg t1 (?c1', ()) = (Ok (), (?c2, ()))"
    using assms(2)
    by (simp add: make_del_def cow_add_to_trans_def txid_current_def cow_precheck_def zoom_def)
  have a: "cow_abort ?c2 = (Ok ?c3 :: ('a cow, error) result)"
    by (simp add: cow_abort_def)
  have r: "cow_deref 0 ?c3 = (Ok x :: ('a, error) result)"
    using assms(1)
    by (simp add: cow_deref_def cow_inner_def inner_by_def unwrap_opt_def cow_idle_def)
  have m2: "make_mut ?reg t2 (?c3, ()) = (Ok (arm_other (co_arm c)), (?c4, ()))"
    using assms(3)
    by (simp add: make_mut_def has_other_def cow_add_to_trans_def txid_current_def
        cow_precheck_def zoom_def other_inner_def inner_by_def unwrap_opt_def)
  have r2: "cow_deref t2 ?c4 = (Ok (f x) :: ('a, error) result)"
    using assms(3)
    by (simp add: cow_deref_def txid_current_or_empty_def txid_current_def other_inner_def
        inner_by_def unwrap_opt_def)
  show ?thesis using m1 d a r m2 r2 by (intro exI conjI)
qed

text \<open>
  Dropping deleted cows from the cache bypasses its counter: whenever an entry is
  dropped, the counter is no longer the number of entries, and the capacity lost is not
  recovered.
\<close>

lemma remove_deleted_breaks_counter:
  assumes "linked_hash_map L" and "lru_ok count_meter c"
    and "(e, r) \<in> set (lmap c)" and "cow_deleted (heap r)"
  shows "length (lmap (remove_deleted L heap c)) < used (remove_deleted L heap c) \<and>
    \<not> lru_ok count_meter (remove_deleted L heap c)"
proof -
  have u: "used c = length (lmap c)"
    using assms(2) by (simp add: lru_ok_def total_def count_meter_def sum_list_triv o_def)
  have "lmap (remove_deleted L heap c) = filter (\<lambda>q. \<not> cow_deleted (heap (snd q))) (lmap c)"
    using linked_hash_map.retain_filter [OF assms(1)] assms(2) by (simp add: remove_deleted_def)
  moreover have "length (filter (\<lambda>q. \<not> cow_deleted (heap (snd q))) (lmap c)) < length (lmap c)"
    using assms(3,4) by (intro length_filter_less [of "(e, r)"]) simp_all
  ultimately have "length (lmap (remove_deleted L heap c)) < used (remove_deleted L heap c)"
    using u by (simp add: remove_deleted_def)
  then show ?thesis
    by (simp add: lru_ok_def total_def count_meter_def sum_list_triv o_def)
qed

end
