(* ===== verification/Reference_Cow.thy ===== *)
theory Reference_Cow
  imports Reference_Env Cow
begin

text \<open>
  Cows of one byte on the memory back end: the item contract of the armor holds for cows,
  with a serializer that skips the transaction fields as the code's serde attributes do.
\<close>

definition ref_opt :: "byte option \<Rightarrow> bytes" where
  "ref_opt x = (case x of None \<Rightarrow> [0, 0] | Some b \<Rightarrow> [1, b])"

definition ref_ser_cow :: "byte cow \<Rightarrow> bytes res" where
  "ref_ser_cow c = Ok (ref_ser_arm (co_arm c) @ ref_opt (co_left c) @ ref_opt (co_right c) @
     replicate (co_seq c) 1 @ [0] @ co_id c)"

definition ref_de_opt :: "bytes \<Rightarrow> byte option" where
  "ref_de_opt b = (if b ! 0 = 0 then None else Some (b ! 1))"

definition ref_deser_cow :: "bytes \<Rightarrow> byte cow res" where
  "ref_deser_cow b = Ok
     \<lparr>co_id = tl (dropWhile ((=) 1) (drop 5 b)), co_seq = length (takeWhile ((=) 1) (drop 5 b)),
      co_arm = (if hd b = 0 then Left else Right), co_left = ref_de_opt (drop 1 b),
      co_right = ref_de_opt (drop 3 b), co_txid = None, co_action = None\<rparr>"

definition cow_item :: "('a cow \<Rightarrow> bytes res) \<Rightarrow> (bytes \<Rightarrow> 'a cow res) \<Rightarrow> 'a cow item_ops" where
  "cow_item ser deser =
     \<lparr>it_id = co_id, it_seq = co_seq, it_inc_seq = (\<lambda>c. c\<lparr>co_seq := Suc (co_seq c)\<rparr>),
      it_arm = co_arm, it_set_arm = (\<lambda>a c. c\<lparr>co_arm := a\<rparr>), it_ser = ser, it_deser = deser\<rparr>"

lemma unary_byte:
  "takeWhile ((=) (1::byte)) (replicate n 1 @ 0 # xs) = replicate n 1"
  "dropWhile ((=) (1::byte)) (replicate n 1 @ 0 # xs) = 0 # xs"
  by (induction n) simp_all

interpretation ref_cows: item_laws "cow_item ref_ser_cow ref_deser_cow" leave_trans
proof unfold_locales
  fix c :: "byte cow"
  show "\<exists>b. it_ser (cow_item ref_ser_cow ref_deser_cow) c = Ok b \<and>
      it_deser (cow_item ref_ser_cow ref_deser_cow) b = Ok (leave_trans c)"
    by (cases "co_arm c"; cases "co_left c"; cases "co_right c")
      (simp_all add: cow_item_def ref_ser_cow_def ref_deser_cow_def ref_opt_def ref_de_opt_def
        ref_ser_arm_def leave_trans_def unary_byte numeral_eq_Suc)
qed (simp_all add: cow_item_def leave_trans_def)

interpretation cow_slots: wal_slots mem_env mem_inv mem_wal mem_adr mem_blk "cow_item ref_ser_cow ref_deser_cow" leave_trans "\<lambda>_. 32" ref_ser_arm
  by unfold_locales (simp_all add: mem_slots.arms_apart)

abbreviation cow_armor :: "(byte cow, mem storage) armor_ops" where
  "cow_armor \<equiv> wal_armor mem_env (\<lambda>_. 32) ref_ser_arm (cow_item ref_ser_cow ref_deser_cow)"

abbreviation ref_cow :: "byte cow" where
  "ref_cow \<equiv> \<lparr>co_id = [9], co_seq = 0, co_arm = Right, co_left = Some 4, co_right = Some 3,
     co_txid = Some 1, co_action = Some Update\<rparr>"

lemma cow_armor_access: "cow_access cow_armor"
  by (simp add: cow_access_def wal_armor_def cow_item_def)

lemma cow_arms_ok:
  "arms_ok cow_armor (wal_slots_ok mem_env mem_inv mem_wal) (wal_plain mem_env mem_wal)
     (slot_id mem_env ref_ser_arm) mem_storage0 ref_cow"
  by (simp add: arms_ok_def arms_decode_def arm_holds_def wal_slots_ok_def wal_plain_def
      mem_storage0_def storage_new_def mem_state_inv mem_state_maps)

lemma ref_cow_fits: "fits cow_armor (update_image ref_cow 4)"
  by (simp add: fits_def wal_armor_def cow_item_def ref_ser_cow_def update_image_def cow_toggle_def
      set_slot_def ref_opt_def ref_ser_arm_def)


end
