(* ===== verification/Wal.thy ===== *)
theory Wal
  imports Cow
begin

text \<open>
  \<open>src/src/trans/wal.rs\<close>: the write-ahead log of a transaction, the queue of completed and
  running transactions, and its manager. The services they use are the fields of the
  environment \<open>tx_env\<close> over the state \<open>'v\<close> of the volume: the two wal armors, deleting an
  entity or its arms, flushing, the block watermark of the allocator, the keyed hash and the
  linked hash map of the log entries.

  The hash set \<open>doing\<close> and the hash map \<open>aborting\<close> are lists in one of their iteration orders.
  Fields that the serializer skips are reset by \<open>walq_persist\<close>.
\<close>

datatype entity_type = EntCow | EntDirect

record wal_entry =
  we_id :: eid
  we_action :: action
  we_type :: entity_type
  we_arm :: arm

record wal =
  wl_id :: eid
  wl_seq :: nat
  wl_arm :: arm
  wl_txid :: txid
  wl_entries :: "(eid, wal_entry) lhm"

record wal_queue =
  wq_id :: eid
  wq_seq :: nat
  wq_arm :: arm
  wq_txid_wmark :: "64 word"
  wq_blk_wmark :: nat
  wq_done :: "txid list"
  wq_doing :: "txid list"
  wq_aborting :: "(txid \<times> wal) list"

definition walq_persist :: "wal_queue \<Rightarrow> wal_queue" where
  "walq_persist q = q\<lparr>wq_aborting := []\<rparr>"

record 'v tx_env =
  te_wal :: "(wal, 'v) armor_ops"
  te_walq :: "(wal_queue, 'v) armor_ops"
  te_del :: "eid \<Rightarrow> (unit, error, 'v) eff"
  te_remove_arm :: "arm \<Rightarrow> eid \<Rightarrow> (unit, error, 'v) eff"
  te_remove_all :: "eid \<Rightarrow> (unit, error, 'v) eff"
  te_flush :: "(unit, error, 'v) eff"
  te_wmark :: "'v \<Rightarrow> nat"
  te_set_wmark :: "nat \<Rightarrow> 'v \<Rightarrow> 'v"
  te_hash :: "bytes \<Rightarrow> bytes \<Rightarrow> bytes"
  te_entries :: "(eid, wal_entry) lhm_ops"

subsection \<open>The log of one transaction\<close>

definition ID_HASH_KEY :: bytes where
  "ID_HASH_KEY = replicate 32 42"

definition wal_derive_id :: "'v tx_env \<Rightarrow> txid \<Rightarrow> eid res" where
  "wal_derive_id E t = txid_derive_id (te_hash E) t ID_HASH_KEY"

definition wal_new :: "'v tx_env \<Rightarrow> txid \<Rightarrow> wal res" where
  "wal_new E t = bind_r (wal_derive_id E t) (\<lambda>e.
     Ok \<lparr>wl_id = e, wl_seq = 0, wl_arm = arm_default, wl_txid = t, wl_entries = []\<rparr>)"

definition wal_add_entry :: "'v tx_env \<Rightarrow> eid \<Rightarrow> action \<Rightarrow> entity_type \<Rightarrow> arm \<Rightarrow> wal \<Rightarrow> wal" where
  "wal_add_entry E e act ty a w =
     w\<lparr>wl_entries := lhm_insert (te_entries E) (wl_entries w) e
         \<lparr>we_id = e, we_action = act, we_type = ty, we_arm = a\<rparr>\<rparr>"

definition wal_remove_entry :: "'v tx_env \<Rightarrow> eid \<Rightarrow> wal \<Rightarrow> wal" where
  "wal_remove_entry E e w = w\<lparr>wl_entries := lhm_remove (te_entries E) (wl_entries w) e\<rparr>"

text \<open>Recycling a retired log carries out its deletions; the armor it uses is the wal armor.\<close>

definition recycle_entry :: "'v tx_env \<Rightarrow> wal_entry \<Rightarrow> (unit, error, 'v) eff" where
  "recycle_entry E ent =
     (case we_action ent of
        Delete \<Rightarrow> (case we_type ent of
            EntCow \<Rightarrow> (\<lambda>v. remove_all_arms (te_wal E) v (we_id ent))
          | EntDirect \<Rightarrow> te_del E (we_id ent))
      | _ \<Rightarrow> ret_s ())"

definition wal_recycle :: "'v tx_env \<Rightarrow> wal \<Rightarrow> (unit, error, 'v) eff" where
  "wal_recycle E w = for_s (recycle_entry E) (lhm_values (wl_entries w))"

definition clean_entry :: "'v tx_env \<Rightarrow> wal_entry \<Rightarrow> (unit, error, 'v) eff" where
  "clean_entry E ent =
     (case we_action ent of
        New \<Rightarrow> (case we_type ent of
            EntCow \<Rightarrow> te_remove_all E (we_id ent)
          | EntDirect \<Rightarrow> te_del E (we_id ent))
      | Update \<Rightarrow> (case we_type ent of
            EntCow \<Rightarrow> te_remove_arm E (we_arm ent) (we_id ent)
          | EntDirect \<Rightarrow> te_del E (we_id ent))
      | Delete \<Rightarrow> ret_s ())"

definition clean_aborted :: "'v tx_env \<Rightarrow> wal \<Rightarrow> (unit, error, 'v) eff" where
  "clean_aborted E w = for_s (clean_entry E) (lhm_values (wl_entries w))"

subsection \<open>The queue\<close>

type_synonym 'v qstate = "wal_queue \<times> 'v"

definition COMMITTED_QUEUE_SIZE :: nat where
  "COMMITTED_QUEUE_SIZE = 2"

definition walq_new :: "eid \<Rightarrow> wal_queue" where
  "walq_new e = \<lparr>wq_id = e, wq_seq = 0, wq_arm = arm_default, wq_txid_wmark = 0, wq_blk_wmark = 0,
     wq_done = [], wq_doing = [], wq_aborting = []\<rparr>"

definition watermarks :: "wal_queue \<Rightarrow> 64 word \<times> nat" where
  "watermarks q = (wq_txid_wmark q, wq_blk_wmark q)"

definition set_watermarks :: "64 word \<Rightarrow> nat \<Rightarrow> wal_queue \<Rightarrow> wal_queue" where
  "set_watermarks t b q = q\<lparr>wq_txid_wmark := t, wq_blk_wmark := b\<rparr>"

definition has_doing :: "wal_queue \<Rightarrow> bool" where
  "has_doing q = (wq_doing q \<noteq> [])"

definition has_abort :: "wal_queue \<Rightarrow> bool" where
  "has_abort q = (wq_aborting q \<noteq> [])"

definition on_vol :: "(unit, error, 'v) eff \<Rightarrow> (unit, error, 'v qstate) eff" where
  "on_vol m = zoom snd (\<lambda>v (q, _). (q, v)) m"

definition on_walq :: "(wal_queue \<Rightarrow> wal_queue) \<Rightarrow> (unit, error, 'v qstate) eff" where
  "on_walq f = modify_s (\<lambda>(q, v). (f q, v))"

definition walq_begin_trans :: "txid \<Rightarrow> (unit, error, 'v qstate) eff" where
  "walq_begin_trans t =
     bind_s get_s (\<lambda>(q, _). bind_s (assert_s (t \<notin> set (wq_doing q))) (\<lambda>_.
       on_walq (\<lambda>q. q\<lparr>wq_doing := wq_doing q @ [t]\<rparr>)))"

text \<open>
  Recycle the transaction at the front of the done queue: load its log, carry out the
  deletions and remove the log. A log that does not exist any more is skipped.
\<close>

definition recycle_log :: "'v tx_env \<Rightarrow> eid \<Rightarrow> (unit, error, 'v) eff" where
  "recycle_log E e = (\<lambda>v. case load_item (te_wal E) v e of
       (Ok w, v1) \<Rightarrow> bind_s (wal_recycle E w) (\<lambda>_ v. remove_all_arms (te_wal E) v e) v1
     | (Err err, v1) \<Rightarrow> (if error_eq err NotFound then (Ok (), v1) else (Err err, v1))
     | (Panic, v1) \<Rightarrow> (Panic, v1))"

definition recycle_trans :: "'v tx_env \<Rightarrow> (unit, error, 'v qstate) eff" where
  "recycle_trans E =
     bind_s get_s (\<lambda>(q, _).
     bind_s (lift_r (nth_r (wq_done q) 0)) (\<lambda>t.
     bind_s (lift_r (wal_derive_id E t)) (\<lambda>e. on_vol (recycle_log E e))))"

text \<open>The loop that makes room in the done queue; every round removes one element.\<close>

function make_room :: "'v tx_env \<Rightarrow> wal_queue \<times> 'v \<Rightarrow> unit res \<times> wal_queue \<times> 'v" where
  "make_room E (q, v) =
     (if COMMITTED_QUEUE_SIZE \<le> length (wq_done q)
      then (case recycle_trans E (q, v) of
          (Ok _, (q1, v1)) \<Rightarrow> make_room E (q\<lparr>wq_done := tl (wq_done q)\<rparr>, v1)
        | (Err err, s) \<Rightarrow> (Err err, s)
        | (Panic, s) \<Rightarrow> (Panic, s))
      else (Ok (), (q, v)))"
  by pat_completeness auto
termination
  by (relation "measure (\<lambda>(E, q, v). length (wq_done q))") (auto simp: COMMITTED_QUEUE_SIZE_def)

declare make_room.simps [simp del]

definition walq_commit_trans :: "'v tx_env \<Rightarrow> wal \<Rightarrow> (unit, error, 'v qstate) eff" where
  "walq_commit_trans E w =
     bind_s (make_room E) (\<lambda>_.
       on_walq (\<lambda>q. q\<lparr>wq_doing := removeAll (wl_txid w) (wq_doing q),
                      wq_done := wq_done q @ [wl_txid w]\<rparr>))"

definition walq_begin_abort :: "wal \<Rightarrow> wal_queue \<Rightarrow> wal_queue" where
  "walq_begin_abort w q =
     q\<lparr>wq_aborting := filter (\<lambda>p. fst p \<noteq> wl_txid w) (wq_aborting q) @ [(wl_txid w, w)]\<rparr>"

definition walq_end_abort :: "txid \<Rightarrow> wal_queue \<Rightarrow> wal_queue" where
  "walq_end_abort t q =
     q\<lparr>wq_aborting := filter (\<lambda>p. fst p \<noteq> t) (wq_aborting q), wq_doing := removeAll t (wq_doing q)\<rparr>"

definition walq_hot_redo_abort :: "'v tx_env \<Rightarrow> (unit, error, 'v qstate) eff" where
  "walq_hot_redo_abort E =
     bind_s get_s (\<lambda>(q, _).
     bind_s (on_vol (for_s (clean_aborted E) (map snd (wq_aborting q)))) (\<lambda>_.
       on_walq (fold walq_end_abort (map (wl_txid \<circ> snd) (wq_aborting q)))))"

definition cold_clean :: "'v tx_env \<Rightarrow> txid \<Rightarrow> (unit, error, 'v) eff" where
  "cold_clean E t =
     bind_s (lift_r (wal_derive_id E t)) (\<lambda>e. (\<lambda>v. case load_item (te_wal E) v e of
         (Ok w, v1) \<Rightarrow> clean_aborted E w v1
       | (Err err, v1) \<Rightarrow> (if error_eq err NotFound then (Ok (), v1) else (Err err, v1))
       | (Panic, v1) \<Rightarrow> (Panic, v1)))"

definition walq_cold_redo_abort :: "'v tx_env \<Rightarrow> (unit, error, 'v qstate) eff" where
  "walq_cold_redo_abort E =
     bind_s get_s (\<lambda>(q, _).
     bind_s (on_vol (for_s (cold_clean E) (wq_doing q))) (\<lambda>_.
       on_walq (fold walq_end_abort (wq_doing q))))"

subsection \<open>The manager\<close>

record walq_mgr =
  wm_txid_wmark :: txid
  wm_walq :: wal_queue
  wm_backup :: "wal_queue option"

type_synonym 'v mstate = "walq_mgr \<times> 'v"

definition walq_mgr_new :: "eid \<Rightarrow> walq_mgr" where
  "walq_mgr_new e = \<lparr>wm_txid_wmark = 0, wm_walq = walq_new e, wm_backup = None\<rparr>"

definition run_walq :: "(unit, error, 'v qstate) eff \<Rightarrow> (unit, error, 'v mstate) eff" where
  "run_walq m = (\<lambda>(g, v). case m (wm_walq g, v) of (r, (q, v')) \<Rightarrow> (r, (g\<lparr>wm_walq := q\<rparr>, v')))"

definition backup_walq :: "(unit, error, 'v mstate) eff" where
  "backup_walq = modify_s (\<lambda>(g, v). (g\<lparr>wm_backup := Some (wm_walq g)\<rparr>, v))"

definition restore_walq :: "(unit, error, 'v mstate) eff" where
  "restore_walq = (\<lambda>(g, v). case wm_backup g of
       None \<Rightarrow> (Panic, (g, v))
     | Some q \<Rightarrow> (Ok (), (g\<lparr>wm_walq := q, wm_backup := None\<rparr>, v)))"

definition mgr_next_txid :: "walq_mgr \<Rightarrow> (txid \<times> walq_mgr) res" where
  "mgr_next_txid g = bind_r (txid_next (wm_txid_wmark g)) (\<lambda>(w, t). Ok (t, g\<lparr>wm_txid_wmark := w\<rparr>))"

definition save_walq :: "'v tx_env \<Rightarrow> (unit, error, 'v mstate) eff" where
  "save_walq E =
     bind_s (modify_s (\<lambda>(g, v).
       (g\<lparr>wm_walq := set_watermarks (wm_txid_wmark g) (te_wmark E v) (wm_walq g)\<rparr>, v))) (\<lambda>_.
     run_walq (bind_s (on_vol (te_flush E)) (\<lambda>_. (\<lambda>(q, v).
       case save_item (te_walq E) v q of (r, q', v') \<Rightarrow> (r, (q', v'))))))"

text \<open>\<open>.or_else(|err| { self.restore_walq(); Err(err) })\<close>\<close>

definition or_restore :: "(unit, error, 'v mstate) eff \<Rightarrow> (unit, error, 'v mstate) eff" where
  "or_restore m = or_else_s m (\<lambda>err. bind_s restore_walq (\<lambda>_. lift_r (Err err)))"

definition mgr_begin_trans :: "'v tx_env \<Rightarrow> txid \<Rightarrow> (unit, error, 'v mstate) eff" where
  "mgr_begin_trans E t =
     bind_s backup_walq (\<lambda>_. bind_s (run_walq (walq_begin_trans t)) (\<lambda>_. or_restore (save_walq E)))"

definition mgr_commit_trans :: "'v tx_env \<Rightarrow> wal \<Rightarrow> (unit, error, 'v mstate) eff" where
  "mgr_commit_trans E w =
     bind_s backup_walq (\<lambda>_.
       or_restore (bind_s (run_walq (walq_commit_trans E w)) (\<lambda>_. save_walq E)))"

definition mgr_begin_abort :: "wal \<Rightarrow> walq_mgr \<Rightarrow> walq_mgr" where
  "mgr_begin_abort w g = g\<lparr>wm_walq := walq_begin_abort w (wm_walq g)\<rparr>"

definition mgr_end_abort :: "'v tx_env \<Rightarrow> txid \<Rightarrow> (unit, error, 'v mstate) eff" where
  "mgr_end_abort E t =
     bind_s backup_walq (\<lambda>_. bind_s (run_walq (on_walq (walq_end_abort t))) (\<lambda>_.
       or_restore (save_walq E)))"

definition mgr_hot_redo_abort :: "'v tx_env \<Rightarrow> (unit, error, 'v mstate) eff" where
  "mgr_hot_redo_abort E =
     bind_s get_s (\<lambda>(g, _).
       if \<not> has_abort (wm_walq g) then ret_s ()
       else bind_s backup_walq (\<lambda>_.
            or_restore (bind_s (run_walq (walq_hot_redo_abort E)) (\<lambda>_. save_walq E))))"

text \<open>Opening restores the watermarks and cleans up after the transactions still running.\<close>

definition mgr_open :: "'v tx_env \<Rightarrow> eid \<Rightarrow> (unit, error, 'v mstate) eff" where
  "mgr_open E e =
     bind_s (\<lambda>(g, v). case load_item (te_walq E) v e of
         (r, v') \<Rightarrow> (r, (g, v'))) (\<lambda>q.
     bind_s (modify_s (\<lambda>(g, v). (g\<lparr>wm_walq := q, wm_txid_wmark := fst (watermarks q)\<rparr>,
               te_set_wmark E (snd (watermarks q)) v))) (\<lambda>_.
       if has_doing q
       then bind_s backup_walq (\<lambda>_.
            or_restore (bind_s (run_walq (walq_cold_redo_abort E)) (\<lambda>_. save_walq E)))
       else ret_s ()))"

subsection \<open>Facts\<close>

text \<open>The armor of the queue works on its own three fields.\<close>

definition walq_access :: "(wal_queue, 'v) armor_ops \<Rightarrow> bool" where
  "walq_access A \<longleftrightarrow> ar_id A = wq_id \<and> ar_seq A = wq_seq \<and> ar_arm A = wq_arm \<and>
     ar_set_arm A = (\<lambda>a q. q\<lparr>wq_arm := a\<rparr>) \<and> ar_inc_seq A = (\<lambda>q. q\<lparr>wq_seq := Suc (wq_seq q)\<rparr>)"

text \<open>What the queue says about transactions, apart from the armor fields and watermarks.\<close>

definition walq_view :: "wal_queue \<Rightarrow> txid list \<times> txid list \<times> (txid \<times> wal) list" where
  "walq_view q = (wq_done q, wq_doing q, wq_aborting q)"

lemma save_item_walq:
  assumes "walq_access A" and "save_item A v q = (r, q', v')"
  shows "walq_view q' = walq_view q"
  using assms
  by (auto simp: walq_access_def save_item_def toggle_def walq_view_def Let_def
      split: result.splits prod.splits)

text \<open>A manager operation that leaves the backup and the watermark alone.\<close>

definition keeps_backup :: "(unit, error, 'v mstate) eff \<Rightarrow> bool" where
  "keeps_backup m \<longleftrightarrow> (\<forall>g v r g' v'. m (g, v) = (r, (g', v')) \<longrightarrow>
     wm_backup g' = wm_backup g \<and> wm_txid_wmark g' = wm_txid_wmark g)"

lemma keeps_backupD:
  "keeps_backup m \<Longrightarrow> m (g, v) = (r, (g', v')) \<Longrightarrow>
    wm_backup g' = wm_backup g \<and> wm_txid_wmark g' = wm_txid_wmark g"
  unfolding keeps_backup_def by blast

lemma run_walq_keeps: "keeps_backup (run_walq m)"
  by (auto simp: keeps_backup_def run_walq_def split: prod.splits)

lemma bind_keeps:
  assumes "keeps_backup m" and "keeps_backup n"
  shows "keeps_backup (bind_s m (\<lambda>_. n))"
  unfolding keeps_backup_def
proof (intro allI impI)
  fix g v r g' v'
  assume "bind_s m (\<lambda>_. n) (g, v) = (r, (g', v'))"
  then show "wm_backup g' = wm_backup g \<and> wm_txid_wmark g' = wm_txid_wmark g"
  proof (cases rule: bind_s_cases)
    case (1 x s')
    obtain g1 v1 where "s' = (g1, v1)" by (cases s')
    with 1 keeps_backupD [OF assms(1)] keeps_backupD [OF assms(2)] show ?thesis by metis
  next
    case (2 e)
    then show ?thesis using keeps_backupD [OF assms(1)] by blast
  next
    case 3
    then show ?thesis using keeps_backupD [OF assms(1)] by blast
  qed
qed

lemma modify_keeps: "keeps_backup (modify_s (\<lambda>(g, v). (g\<lparr>wm_walq := f g v\<rparr>, v)))"
  by (simp add: keeps_backup_def)

lemma save_walq_keeps: "keeps_backup (save_walq E)"
  unfolding save_walq_def by (intro bind_keeps modify_keeps run_walq_keeps)

lemma or_restore_err:
  assumes "keeps_backup m" and "wm_backup g = Some q" and "or_restore m (g, v) = (Err e, (g', v'))"
  shows "wm_walq g' = q \<and> wm_txid_wmark g' = wm_txid_wmark g"
  using assms(3) unfolding or_restore_def
proof (cases rule: or_else_cases)
  case (2 e' s')
  obtain g1 v1 where s': "s' = (g1, v1)" by (cases s')
  have "wm_backup g1 = Some q" "wm_txid_wmark g1 = wm_txid_wmark g"
    using keeps_backupD [OF assms(1)] assms(2) 2(1) s' by auto
  with 2(2) s' show ?thesis by (auto simp: restore_walq_def)
qed auto

lemma restore_then_err: "bind_s restore_walq (\<lambda>_. lift_r (Err e)) s \<noteq> (Ok x, s')"
  by (simp add: bind_s_Ok_iff)

lemma or_restore_ok: "or_restore m s = (Ok (), s') \<longleftrightarrow> m s = (Ok (), s')"
proof -
  obtain r t where m: "m s = (r, t)" by (cases "m s")
  show ?thesis
    by (cases r) (simp_all add: m or_restore_def or_else_s_def restore_then_err)
qed

lemma backup_walq_simp [simp]: "backup_walq (g, v) = (Ok (), (g\<lparr>wm_backup := Some (wm_walq g)\<rparr>, v))"
  by (simp add: backup_walq_def)

lemma recycle_trans_queue: "recycle_trans E (q, v) = (r, (q', v')) \<Longrightarrow> q' = q"
  by (auto simp: recycle_trans_def on_vol_def zoom_def bind_s_def nth_r_def
      split: result.splits prod.splits if_splits)

text \<open>Making room keeps the queue apart from the done list, of which at most one entry is left.\<close>

lemma make_room_ok:
  "make_room E (q, v) = (Ok (), (q', v')) \<Longrightarrow>
    q' = q\<lparr>wq_done := drop (length (wq_done q) - 1) (wq_done q)\<rparr>"
proof (induction E "(q, v)" arbitrary: q v rule: make_room.induct)
  case (1 E q v)
  show ?case
  proof (cases "COMMITTED_QUEUE_SIZE \<le> length (wq_done q)")
    case True
    with "1.prems" obtain q1 v1 where r: "recycle_trans E (q, v) = (Ok (), (q1, v1))"
      and m: "make_room E (q\<lparr>wq_done := tl (wq_done q)\<rparr>, v1) = (Ok (), (q', v'))"
      by (subst (asm) make_room.simps) (auto split: result.splits prod.splits)
    have "q' = q\<lparr>wq_done := drop (length (wq_done q) - 1 - 1) (tl (wq_done q))\<rparr>"
      using "1.hyps" [OF True r [symmetric] refl refl] m by simp
    moreover have "drop (length (wq_done q) - 1 - 1) (tl (wq_done q)) = drop (length (wq_done q) - 1) (wq_done q)"
      using True by (simp add: COMMITTED_QUEUE_SIZE_def drop_Suc [symmetric] Suc_diff_Suc)
    ultimately show ?thesis by simp
  next
    case False
    with "1.prems" have "q' = q" by (subst (asm) make_room.simps) simp
    moreover have "length (wq_done q) - 1 = 0" using False by (simp add: COMMITTED_QUEUE_SIZE_def)
    ultimately show ?thesis by simp
  qed
qed

lemma save_walq_view:
  assumes "walq_access (te_walq E)" and "save_walq E (g, v) = (r, (g', v'))"
  shows "walq_view (wm_walq g') = walq_view (wm_walq g)"
proof -
  let ?q = "set_watermarks (wm_txid_wmark g) (te_wmark E v) (wm_walq g)"
  have v: "walq_view ?q = walq_view (wm_walq g)" by (simp add: walq_view_def set_watermarks_def)
  from assms(2) obtain r1 q1 v1 where
    "bind_s (on_vol (te_flush E)) (\<lambda>_. (\<lambda>(q, v). case save_item (te_walq E) v q of
       (r, q', v') \<Rightarrow> (r, (q', v')))) (?q, v) = (r1, (q1, v1))" "wm_walq g' = q1"
    by (auto simp: save_walq_def run_walq_def bind_s_def split: prod.splits)
  then have "walq_view (wm_walq g') = walq_view ?q"
    using save_item_walq [OF assms(1)]
    by (auto simp: on_vol_def zoom_def bind_s_def split: prod.splits result.splits)
  with v show ?thesis by simp
qed

lemma end_abort_frame [simp]:
  "wq_done (walq_end_abort t q) = wq_done q"
  "wq_doing (walq_end_abort t q) = filter (\<lambda>u. u \<noteq> t) (wq_doing q)"
  "wq_aborting (walq_end_abort t q) = filter (\<lambda>p. fst p \<noteq> t) (wq_aborting q)"
  by (auto simp: walq_end_abort_def removeAll_filter_not_eq intro: filter_cong)

lemma fold_end_abort:
  "walq_view (fold walq_end_abort ts q) =
    (wq_done q, filter (\<lambda>t. t \<notin> set ts) (wq_doing q), filter (\<lambda>p. fst p \<notin> set ts) (wq_aborting q))"
proof (induction ts arbitrary: q)
  case Nil
  then show ?case by (simp add: walq_view_def)
next
  case (Cons t ts)
  show ?case by (simp add: Cons conj_commute)
qed

lemma walq_begin_trans_no_err: "walq_begin_trans t s \<noteq> (Err e, s')"
  by (cases s) (simp add: walq_begin_trans_def on_walq_def bind_s_def)

lemma run_on_walq [simp]: "run_walq (on_walq f) (g, v) = (Ok (), (g\<lparr>wm_walq := f (wm_walq g)\<rparr>, v))"
  by (simp add: run_walq_def on_walq_def)

lemma begin_err_restores:
  assumes "mgr_begin_trans E t (g, v) = (Err e, (g', v'))"
  shows "wm_walq g' = wm_walq g \<and> wm_txid_wmark g' = wm_txid_wmark g"
proof (cases "t \<in> set (wq_doing (wm_walq g))")
  case True
  with assms show ?thesis
    by (simp add: mgr_begin_trans_def run_walq_def walq_begin_trans_def bind_s_def)
next
  case False
  let ?g = "g\<lparr>wm_backup := Some (wm_walq g), wm_walq := (wm_walq g)\<lparr>wq_doing := wq_doing (wm_walq g) @ [t]\<rparr>\<rparr>"
  have "or_restore (save_walq E) (?g, v) = (Err e, (g', v'))"
    using assms False by (simp add: mgr_begin_trans_def run_walq_def walq_begin_trans_def on_walq_def bind_s_def)
  from or_restore_err [OF save_walq_keeps _ this] show ?thesis by simp
qed

lemma commit_err_restores:
  assumes "mgr_commit_trans E w (g, v) = (Err e, (g', v'))"
  shows "wm_walq g' = wm_walq g \<and> wm_txid_wmark g' = wm_txid_wmark g"
proof -
  have "or_restore (bind_s (run_walq (walq_commit_trans E w)) (\<lambda>_. save_walq E))
      (g\<lparr>wm_backup := Some (wm_walq g)\<rparr>, v) = (Err e, (g', v'))"
    using assms by (simp add: mgr_commit_trans_def)
  from or_restore_err [OF bind_keeps [OF run_walq_keeps save_walq_keeps] _ this] show ?thesis by simp
qed

lemma end_abort_err_restores:
  assumes "mgr_end_abort E t (g, v) = (Err e, (g', v'))"
  shows "wm_walq g' = wm_walq g \<and> wm_txid_wmark g' = wm_txid_wmark g"
proof -
  have "or_restore (save_walq E) (g\<lparr>wm_backup := Some (wm_walq g), wm_walq := walq_end_abort t (wm_walq g)\<rparr>, v)
      = (Err e, (g', v'))"
    using assms by (simp add: mgr_end_abort_def)
  from or_restore_err [OF save_walq_keeps _ this] show ?thesis by simp
qed

lemma hot_redo_err_restores:
  assumes "mgr_hot_redo_abort E (g, v) = (Err e, (g', v'))"
  shows "wm_walq g' = wm_walq g \<and> wm_txid_wmark g' = wm_txid_wmark g"
proof -
  have "or_restore (bind_s (run_walq (walq_hot_redo_abort E)) (\<lambda>_. save_walq E))
      (g\<lparr>wm_backup := Some (wm_walq g)\<rparr>, v) = (Err e, (g', v'))"
    using assms by (simp add: mgr_hot_redo_abort_def split: if_splits)
  from or_restore_err [OF bind_keeps [OF run_walq_keeps save_walq_keeps] _ this] show ?thesis by simp
qed

lemma mgr_commit_view:
  assumes "walq_access (te_walq E)" and "mgr_commit_trans E w (g, v) = (Ok (), (g', v'))"
  shows "walq_view (wm_walq g') =
    (drop (length (wq_done (wm_walq g)) - 1) (wq_done (wm_walq g)) @ [wl_txid w],
     removeAll (wl_txid w) (wq_doing (wm_walq g)), wq_aborting (wm_walq g))"
proof -
  let ?q = "wm_walq g"
  from assms(2) have "bind_s (run_walq (walq_commit_trans E w)) (\<lambda>_. save_walq E)
      (g\<lparr>wm_backup := Some ?q\<rparr>, v) = (Ok (), (g', v'))"
    by (simp add: mgr_commit_trans_def or_restore_ok)
  then obtain g1 v1 where r: "run_walq (walq_commit_trans E w) (g\<lparr>wm_backup := Some ?q\<rparr>, v) = (Ok (), (g1, v1))"
    and sv: "save_walq E (g1, v1) = (Ok (), (g', v'))"
    by (auto simp: bind_s_Ok_iff)
  from r have c: "walq_commit_trans E w (?q, v) = (Ok (), (wm_walq g1, v1))"
    by (auto simp: run_walq_def split: prod.splits)
  then obtain q2 v2 where m: "make_room E (?q, v) = (Ok (), (q2, v2))"
    and q1: "wm_walq g1 = q2\<lparr>wq_doing := removeAll (wl_txid w) (wq_doing q2), wq_done := wq_done q2 @ [wl_txid w]\<rparr>"
    by (auto simp: walq_commit_trans_def bind_s_Ok_iff on_walq_def)
  show ?thesis
    using save_walq_view [OF assms(1) sv] make_room_ok [OF m] by (simp add: q1 walq_view_def)
qed

lemma mgr_hot_redo_view:
  assumes "walq_access (te_walq E)" and "mgr_hot_redo_abort E (g, v) = (Ok (), (g', v'))"
    and "\<forall>p \<in> set (wq_aborting (wm_walq g)). wl_txid (snd p) = fst p"
  shows "walq_view (wm_walq g') = (wq_done (wm_walq g),
     filter (\<lambda>t. t \<notin> fst ` set (wq_aborting (wm_walq g))) (wq_doing (wm_walq g)), [])"
proof (cases "has_abort (wm_walq g)")
  case False
  with assms(2) show ?thesis by (simp add: mgr_hot_redo_abort_def has_abort_def walq_view_def)
next
  case True
  let ?q = "wm_walq g" let ?ts = "map (wl_txid \<circ> snd) (wq_aborting ?q)"
  have "bind_s (run_walq (walq_hot_redo_abort E)) (\<lambda>_. save_walq E)
      (g\<lparr>wm_backup := Some ?q\<rparr>, v) = (Ok (), (g', v'))"
    using assms(2) True by (simp add: mgr_hot_redo_abort_def or_restore_ok)
  then obtain g1 v1 where r: "run_walq (walq_hot_redo_abort E) (g\<lparr>wm_backup := Some ?q\<rparr>, v) = (Ok (), (g1, v1))"
    and sv: "save_walq E (g1, v1) = (Ok (), (g', v'))"
    by (auto simp: bind_s_Ok_iff)
  from r have "wm_walq g1 = fold walq_end_abort ?ts ?q"
    by (auto simp: run_walq_def walq_hot_redo_abort_def on_vol_def zoom_def on_walq_def bind_s_def
        split: prod.splits result.splits)
  moreover have "set ?ts = fst ` set (wq_aborting ?q)" using assms(3) by force
  ultimately show ?thesis
    using save_walq_view [OF assms(1) sv] fold_end_abort [of ?ts ?q]
    by (simp add: filter_empty_conv)
qed

text \<open>
  A small environment for concrete instances: a volume that stores nothing and whose writes
  succeed exactly when its state says so.
\<close>

definition flag_armor ::
  "('i \<Rightarrow> eid) \<Rightarrow> ('i \<Rightarrow> nat) \<Rightarrow> ('i \<Rightarrow> 'i) \<Rightarrow> ('i \<Rightarrow> arm) \<Rightarrow> (arm \<Rightarrow> 'i \<Rightarrow> 'i) \<Rightarrow> ('i, bool) armor_ops"
where
  "flag_armor gi gs is ga sa =
     \<lparr>ar_id = gi, ar_seq = gs, ar_inc_seq = is, ar_arm = ga, ar_set_arm = sa,
      ar_eid = (\<lambda>_ e. Ok e), ar_ser = (\<lambda>_. Ok []), ar_deser = (\<lambda>_. Err NotFound),
      ar_read = (\<lambda>v _. (Err NotFound, v)),
      ar_write = (\<lambda>v _ _. (if v then Ok () else Err Closed, v)),
      ar_del = (\<lambda>v _. (Ok (), v))\<rparr>"

definition flag_env :: "bool tx_env" where
  "flag_env =
     \<lparr>te_wal = flag_armor wl_id wl_seq (\<lambda>w. w\<lparr>wl_seq := Suc (wl_seq w)\<rparr>) wl_arm (\<lambda>a w. w\<lparr>wl_arm := a\<rparr>),
      te_walq = flag_armor wq_id wq_seq (\<lambda>q. q\<lparr>wq_seq := Suc (wq_seq q)\<rparr>) wq_arm (\<lambda>a q. q\<lparr>wq_arm := a\<rparr>),
      te_del = (\<lambda>_. ret_s ()), te_remove_arm = (\<lambda>_ _. ret_s ()), te_remove_all = (\<lambda>_. ret_s ()),
      te_flush = ret_s (), te_wmark = (\<lambda>_. 0), te_set_wmark = (\<lambda>_ v. v),
      te_hash = (\<lambda>_ _. replicate 32 0), te_entries = list_lhm\<rparr>"

lemma flag_access: "walq_access (te_walq flag_env)"
  by (simp add: walq_access_def flag_env_def flag_armor_def)

lemma flag_load: "load_item (te_wal flag_env) v e = (Err NotFound, v)"
  by (simp add: load_item_def load_one_arm_def choose_arm_def flag_env_def flag_armor_def
      error_eq_plain)

lemma flag_derive: "wal_derive_id flag_env t = Ok (replicate 32 0)"
  by (simp add: wal_derive_id_def txid_derive_id_def flag_env_def eid_from_slice_def
      assert_r_def EID_SIZE_def)

lemma flag_save:
  "save_item (te_walq flag_env) True q =
     (Ok (), q\<lparr>wq_seq := Suc (wq_seq q), wq_arm := arm_other (wq_arm q)\<rparr>, True)"
  "save_item (te_walq flag_env) False q = (Err Closed, q\<lparr>wq_seq := Suc (wq_seq q)\<rparr>, False)"
  by (simp_all add: save_item_def flag_env_def flag_armor_def toggle_def Let_def)

lemma flag_recycle: "wq_done q = t # ts \<Longrightarrow> recycle_trans flag_env (q, v) = (Ok (), (q, v))"
  by (simp add: recycle_trans_def nth_r_def flag_derive on_vol_def zoom_def recycle_log_def
      flag_load error_eq_plain)

lemma flag_save_walq:
  "\<exists>g'. save_walq flag_env (g, True) = (Ok (), (g', True))"
  "\<exists>g'. save_walq flag_env (g, False) = (Err Closed, (g', False)) \<and> wm_backup g' = wm_backup g"
proof -
  have f: "te_flush flag_env = ret_s ()" by (simp add: flag_env_def)
  show "\<exists>g'. save_walq flag_env (g, True) = (Ok (), (g', True))"
    "\<exists>g'. save_walq flag_env (g, False) = (Err Closed, (g', False)) \<and> wm_backup g' = wm_backup g"
    by (simp_all add: save_walq_def run_walq_def on_vol_def zoom_def f flag_save)
qed

subsection \<open>Properties\<close>



text \<open>
  C9. The done queue holds the last two transactions. A successful commit leaves the
  committed transaction at its end, preceded by at most the one committed before it (older ones
  have been recycled), takes the transaction off the running list and touches nothing else.
\<close>

theorem walq_commit_keeps_two:
  assumes "walq_access (te_walq E)" and "mgr_commit_trans E w (g, v) = (Ok (), (g', v'))"
  shows "wq_done (wm_walq g') = drop (length (wq_done (wm_walq g)) - 1) (wq_done (wm_walq g)) @ [wl_txid w]
    \<and> length (wq_done (wm_walq g')) \<le> COMMITTED_QUEUE_SIZE
    \<and> wq_doing (wm_walq g') = removeAll (wl_txid w) (wq_doing (wm_walq g))
    \<and> wq_aborting (wm_walq g') = wq_aborting (wm_walq g)"
  using mgr_commit_view [OF assms] by (auto simp: walq_view_def COMMITTED_QUEUE_SIZE_def)

text \<open>Committing transaction 3 after 1 and 2: transaction 1 is recycled.\<close>

theorem walq_commit_keeps_two_witness:
  "\<exists>g'. mgr_commit_trans flag_env \<lparr>wl_id = [], wl_seq = 0, wl_arm = Left, wl_txid = 3, wl_entries = []\<rparr>
       ((walq_mgr_new [])\<lparr>wm_walq := (walq_new [])\<lparr>wq_done := [1, 2], wq_doing := [3]\<rparr>\<rparr>, True) =
     (Ok (), (g', True)) \<and> wq_done (wm_walq g') = [2, 3] \<and> wq_doing (wm_walq g') = []"
proof -
  let ?w = "\<lparr>wl_id = [], wl_seq = 0, wl_arm = Left, wl_txid = 3, wl_entries = []\<rparr>"
  let ?q = "(walq_new [])\<lparr>wq_done := [1, 2], wq_doing := [3]\<rparr>"
  let ?g = "(walq_mgr_new [])\<lparr>wm_walq := ?q\<rparr>"
  have "make_room flag_env (?q, True) = (Ok (), (?q\<lparr>wq_done := [2]\<rparr>, True))"
    by (simp add: make_room.simps flag_recycle [where t = 1 and ts = "[2]"] COMMITTED_QUEUE_SIZE_def)
  moreover obtain g' where "save_walq flag_env (?g\<lparr>wm_backup := Some ?q, wm_walq :=
      ?q\<lparr>wq_doing := [], wq_done := [2, 3]\<rparr>\<rparr>, True) = (Ok (), (g', True))"
    using flag_save_walq(1) by blast
  ultimately have c: "mgr_commit_trans flag_env ?w (?g, True) = (Ok (), (g', True))"
    by (simp add: mgr_commit_trans_def or_restore_ok run_walq_def walq_commit_trans_def on_walq_def
        bind_s_def)
  from walq_commit_keeps_two [OF flag_access c] c show ?thesis by auto
qed

text \<open>
  C10. Redoing failed aborts, when it succeeds, leaves no transaction waiting for it, and none
  of those is on the running list any more; the others stay.
\<close>

theorem hot_redo_clears_aborting:
  assumes "walq_access (te_walq E)" and "mgr_hot_redo_abort E (g, v) = (Ok (), (g', v'))"
    and "\<forall>p \<in> set (wq_aborting (wm_walq g)). wl_txid (snd p) = fst p"
  shows "wq_aborting (wm_walq g') = [] \<and> wq_doing (wm_walq g') =
     filter (\<lambda>t. t \<notin> fst ` set (wq_aborting (wm_walq g))) (wq_doing (wm_walq g))
    \<and> wq_done (wm_walq g') = wq_done (wm_walq g)"
  using mgr_hot_redo_view [OF assms] by (simp add: walq_view_def)

theorem hot_redo_clears_aborting_witness:
  "\<exists>g'. mgr_hot_redo_abort flag_env
      ((walq_mgr_new [])\<lparr>wm_walq := (walq_new [])\<lparr>wq_doing := [1, 2],
         wq_aborting := [(1, \<lparr>wl_id = [], wl_seq = 0, wl_arm = Left, wl_txid = 1, wl_entries = []\<rparr>)]\<rparr>\<rparr>, True) =
     (Ok (), (g', True)) \<and> wq_aborting (wm_walq g') = [] \<and> wq_doing (wm_walq g') = [2]"
proof -
  let ?w = "\<lparr>wl_id = [], wl_seq = 0, wl_arm = Left, wl_txid = 1, wl_entries = []\<rparr>"
  let ?q = "(walq_new [])\<lparr>wq_doing := [1, 2], wq_aborting := [(1, ?w)]\<rparr>"
  let ?g = "(walq_mgr_new [])\<lparr>wm_walq := ?q\<rparr>"
  obtain g' where "save_walq flag_env (?g\<lparr>wm_backup := Some ?q, wm_walq := walq_end_abort 1 ?q\<rparr>, True)
      = (Ok (), (g', True))"
    using flag_save_walq(1) by blast
  then have c: "mgr_hot_redo_abort flag_env (?g, True) = (Ok (), (g', True))"
    by (simp add: mgr_hot_redo_abort_def has_abort_def or_restore_ok run_walq_def
        walq_hot_redo_abort_def on_walq_def on_vol_def zoom_def clean_aborted_def bind_s_def)
  from hot_redo_clears_aborting [OF flag_access c] c show ?thesis by auto
qed

end
