(* ===== verification/Tx_Mgr.thy ===== *)
theory Tx_Mgr
  imports Wal
begin

text \<open>
  \<open>src/src/trans/trans.rs\<close> and \<open>src/src/trans/txmgr.rs\<close>: a transaction with its cohort of
  entities and its log, and the transaction manager. The operations of the trait \<open>Transable\<close>
  are a record; entities live in a heap, and a cohort holds references into it. \<open>Arc::strong_count\<close>
  is an argument, read at two moments of a commit.

  The thread local transaction id is a function of the thread, so that steps of several threads
  can interleave: the manager is behind one lock, and each of its operations is one step.
\<close>

record ('c, 'v) transable_ops =
  tr_action :: "'c \<Rightarrow> action res"
  tr_id :: "'c \<Rightarrow> eid"
  tr_commit :: "(unit, error, 'c \<times> 'v) eff"
  tr_complete_commit :: "'c \<Rightarrow> 'c res"
  tr_abort :: "'c \<Rightarrow> 'c res"

text \<open>The implementation by cows.\<close>

definition cow_transable ::
  "('v \<Rightarrow> 'a \<Rightarrow> unit res \<times> 'a \<times> 'v) \<Rightarrow> ('a cow, 'v) armor_ops \<Rightarrow> ('a cow, 'v) transable_ops"
where
  "cow_transable hook A =
     \<lparr>tr_action = (\<lambda>c. unwrap_opt (co_action c)), tr_id = co_id, tr_commit = cow_commit hook A,
      tr_complete_commit = cow_complete_commit, tr_abort = cow_abort\<rparr>"

record trans =
  tx_txid :: txid
  tx_cohorts :: "(eid, nat) lhm"
  tx_wal :: wal
  tx_wal_saved :: bool

record ('c, 'v) world =
  wo_heap :: "nat \<Rightarrow> 'c"
  wo_vol :: 'v

type_synonym ('c, 'v) tstate = "trans \<times> ('c, 'v) world"

subsection \<open>Transactions\<close>

definition trans_new :: "'v tx_env \<Rightarrow> txid \<Rightarrow> trans res" where
  "trans_new E t = bind_r (wal_new E t) (\<lambda>w.
     Ok \<lparr>tx_txid = t, tx_cohorts = [], tx_wal = w, tx_wal_saved = False\<rparr>)"

text \<open>\<open>self.wal_armor.save_item(&mut self.wal)\<close>\<close>

definition save_wal :: "'v tx_env \<Rightarrow> (unit, error, ('c, 'v) tstate) eff" where
  "save_wal E = (\<lambda>(t, w). case save_item (te_wal E) (wo_vol w) (tx_wal t) of
     (r, l, v) \<Rightarrow> (r, (t\<lparr>tx_wal := l\<rparr>, w\<lparr>wo_vol := v\<rparr>)))"

definition on_tx :: "(trans \<Rightarrow> trans) \<Rightarrow> (unit, error, ('c, 'v) tstate) eff" where
  "on_tx f = modify_s (\<lambda>(t, w). (f t, w))"

definition trans_begin :: "'v tx_env \<Rightarrow> (unit, error, ('c, 'v) tstate) eff" where
  "trans_begin E = save_wal E"

text \<open>\<open>entry(id).or_insert(entity)\<close>\<close>

definition or_insert :: "('k, 'x) lhm_ops \<Rightarrow> 'k \<Rightarrow> 'x \<Rightarrow> ('k, 'x) lhm \<Rightarrow> ('k, 'x) lhm" where
  "or_insert L k x m = (case map_of m k of Some _ \<Rightarrow> m | None \<Rightarrow> lhm_insert L m k x)"

definition add_entity ::
  "'v tx_env \<Rightarrow> (eid, nat) lhm_ops \<Rightarrow> eid \<Rightarrow> nat \<Rightarrow> action \<Rightarrow> entity_type \<Rightarrow> arm \<Rightarrow>
   (unit, error, ('c, 'v) tstate) eff"
where
  "add_entity E L e r act ty a =
     bind_s (on_tx (\<lambda>t. t\<lparr>tx_wal := wal_add_entry E e act ty a (tx_wal t), tx_wal_saved := False\<rparr>)) (\<lambda>_.
     bind_s (if ty = EntDirect
             then bind_s (or_else_s (save_wal E) (\<lambda>err.
                    bind_s (on_tx (\<lambda>t. t\<lparr>tx_wal := wal_remove_entry E e (tx_wal t)\<rparr>)) (\<lambda>_. lift_r (Err err))))
                  (\<lambda>_. on_tx (\<lambda>t. t\<lparr>tx_wal_saved := True\<rparr>))
             else ret_s ()) (\<lambda>_.
     on_tx (\<lambda>t. t\<lparr>tx_cohorts := or_insert L e r (tx_cohorts t)\<rparr>)))"

text \<open>
  Committing the entities one after the other. A deleted entity that is still referenced
  elsewhere is remembered by its id and checked again at the end.
\<close>

fun commit_entities ::
  "('c, 'v) transable_ops \<Rightarrow> (nat \<Rightarrow> nat) \<Rightarrow> nat list \<Rightarrow> eid list \<Rightarrow> ('c, 'v) world \<Rightarrow> eid list res \<times> ('c, 'v) world"
where
  "commit_entities T rc [] in_use w = (Ok in_use, w)"
| "commit_entities T rc (r # rs) in_use w =
     (case tr_action T (wo_heap w r) of
        Ok act \<Rightarrow>
          let in_use1 = (if act = Delete \<and> 1 < rc r then in_use @ [tr_id T (wo_heap w r)] else in_use)
          in (case tr_commit T (wo_heap w r, wo_vol w) of
                (res, (c, v)) \<Rightarrow>
                  let w1 = w\<lparr>wo_heap := (wo_heap w)(r := c), wo_vol := v\<rparr>
                  in (case res of
                        Ok _ \<Rightarrow> commit_entities T rc rs in_use1 w1
                      | Err err \<Rightarrow> (Err err, w1)
                      | Panic \<Rightarrow> (Panic, w1)))
      | Err err \<Rightarrow> (Err err, w)
      | Panic \<Rightarrow> (Panic, w))"

fun check_in_use :: "(nat \<Rightarrow> nat) \<Rightarrow> (eid, nat) lhm \<Rightarrow> eid list \<Rightarrow> unit res" where
  "check_in_use rc m [] = Ok ()"
| "check_in_use rc m (e # es) =
     (case map_of m e of
        None \<Rightarrow> Panic
      | Some r \<Rightarrow> if 1 < rc r then Err InUse else check_in_use rc m es)"

definition trans_commit ::
  "'v tx_env \<Rightarrow> ('c, 'v) transable_ops \<Rightarrow> (nat \<Rightarrow> nat) \<Rightarrow> (nat \<Rightarrow> nat) \<Rightarrow> (wal, error, ('c, 'v) tstate) eff"
where
  "trans_commit E T rc1 rc2 =
     bind_s get_s (\<lambda>(t0, _).
     bind_s (if tx_wal_saved t0 then ret_s ()
             else bind_s (save_wal E) (\<lambda>_. on_tx (\<lambda>t. t\<lparr>tx_wal_saved := True\<rparr>))) (\<lambda>_.
     bind_s (\<lambda>(t, w). case commit_entities T rc1 (lhm_values (tx_cohorts t)) [] w of
               (r, w') \<Rightarrow> (r, (t, w'))) (\<lambda>in_use.
     bind_s get_s (\<lambda>(t, _).
     bind_s (lift_r (check_in_use rc2 (tx_cohorts t) in_use)) (\<lambda>_. ret_s (tx_wal t))))))"

text \<open>Calling a method without result on every entity; a panic stops.\<close>

fun each_entity :: "('c \<Rightarrow> 'c res) \<Rightarrow> nat list \<Rightarrow> (nat \<Rightarrow> 'c) \<Rightarrow> unit res \<times> (nat \<Rightarrow> 'c)" where
  "each_entity f [] h = (Ok (), h)"
| "each_entity f (r # rs) h =
     (case f (h r) of
        Ok c \<Rightarrow> each_entity f rs (h(r := c))
      | Err err \<Rightarrow> (Err err, h)
      | Panic \<Rightarrow> (Panic, h))"

definition on_cohorts :: "('c \<Rightarrow> 'c res) \<Rightarrow> (unit, error, ('c, 'v) tstate) eff" where
  "on_cohorts f =
     bind_s (\<lambda>(t, w). case each_entity f (lhm_values (tx_cohorts t)) (wo_heap w) of
       (r, h) \<Rightarrow> (r, (t, w\<lparr>wo_heap := h\<rparr>))) (\<lambda>_.
     on_tx (\<lambda>t. t\<lparr>tx_cohorts := []\<rparr>))"

definition trans_complete_commit :: "('c, 'v) transable_ops \<Rightarrow> (unit, error, ('c, 'v) tstate) eff" where
  "trans_complete_commit T = on_cohorts (tr_complete_commit T)"

definition tx_vol :: "(unit, error, 'v) eff \<Rightarrow> (unit, error, ('c, 'v) tstate) eff" where
  "tx_vol m = zoom (\<lambda>(t, w). wo_vol w) (\<lambda>v (t, w). (t, w\<lparr>wo_vol := v\<rparr>)) m"

definition trans_abort :: "'v tx_env \<Rightarrow> ('c, 'v) transable_ops \<Rightarrow> (unit, error, ('c, 'v) tstate) eff" where
  "trans_abort E T =
     bind_s (on_cohorts (tr_abort T)) (\<lambda>_.
     bind_s get_s (\<lambda>(t, _).
     bind_s (tx_vol (clean_aborted E (tx_wal t))) (\<lambda>_.
     tx_vol (\<lambda>v. remove_all_arms (te_wal E) v (wl_id (tx_wal t))))))"

subsection \<open>The manager\<close>

record ('c, 'v) tx_mgr =
  tm_txs :: "(txid, trans) lhm"
  tm_ents :: "eid \<rightharpoonup> txid"
  tm_mgr :: walq_mgr
  tm_heap :: "nat \<Rightarrow> 'c"
  tm_vol :: 'v
  tm_tls :: "nat \<Rightarrow> txid"

definition run_mgr :: "(unit, error, 'v mstate) eff \<Rightarrow> (unit, error, ('c, 'v) tx_mgr) eff" where
  "run_mgr m = zoom (\<lambda>s. (tm_mgr s, tm_vol s)) (\<lambda>(g, v) s. s\<lparr>tm_mgr := g, tm_vol := v\<rparr>) m"

text \<open>The transaction is shared: a change is visible through the table.\<close>

definition put_trans :: "txid \<Rightarrow> trans \<Rightarrow> (txid, trans) lhm \<Rightarrow> (txid, trans) lhm" where
  "put_trans t x m = map (\<lambda>(k, y). if k = t then (k, x) else (k, y)) m"

definition run_trans :: "txid \<Rightarrow> trans \<Rightarrow> ('b, error, ('c, 'v) tstate) eff \<Rightarrow> ('b, error, ('c, 'v) tx_mgr) eff" where
  "run_trans t x m = (\<lambda>s.
     case m (x, \<lparr>wo_heap = tm_heap s, wo_vol = tm_vol s\<rparr>) of
       (r, (x', w)) \<Rightarrow> (r, s\<lparr>tm_txs := put_trans t x' (tm_txs s), tm_heap := wo_heap w, tm_vol := wo_vol w\<rparr>))"

definition get_trans :: "txid \<Rightarrow> (trans, error, ('c, 'v) tx_mgr) eff" where
  "get_trans t = (\<lambda>s. (unwrap_opt (map_of (tm_txs s) t), s))"

definition with_trans :: "txid \<Rightarrow> ('b, error, ('c, 'v) tstate) eff \<Rightarrow> ('b, error, ('c, 'v) tx_mgr) eff" where
  "with_trans t m = bind_s (get_trans t) (\<lambda>x. run_trans t x m)"

definition set_tls :: "nat \<Rightarrow> txid \<Rightarrow> (unit, error, ('c, 'v) tx_mgr) eff" where
  "set_tls th t = modify_s (\<lambda>s. s\<lparr>tm_tls := (tm_tls s)(th := t)\<rparr>)"

definition remove_trans :: "(txid, trans) lhm_ops \<Rightarrow> nat \<Rightarrow> txid \<Rightarrow> (unit, error, ('c, 'v) tx_mgr) eff" where
  "remove_trans M th t = modify_s (\<lambda>s.
     s\<lparr>tm_txs := lhm_remove M (tm_txs s) t,
       tm_ents := (\<lambda>e. if tm_ents s e = Some t then None else tm_ents s e),
       tm_tls := (tm_tls s)(th := 0)\<rparr>)"

text \<open>An abort reports nothing: its errors are only logged.\<close>

definition ignore_err :: "(unit, error, 's) eff \<Rightarrow> (unit, error, 's) eff" where
  "ignore_err m = or_else_s m (\<lambda>_. ret_s ())"

definition abort_trans ::
  "'v tx_env \<Rightarrow> ('c, 'v) transable_ops \<Rightarrow> (txid, trans) lhm_ops \<Rightarrow> nat \<Rightarrow> txid \<Rightarrow>
   (unit, error, ('c, 'v) tx_mgr) eff"
where
  "abort_trans E T M th t =
     bind_s (get_trans t) (\<lambda>x.
     bind_s (modify_s (\<lambda>s. s\<lparr>tm_mgr := mgr_begin_abort (tx_wal x) (tm_mgr s)\<rparr>)) (\<lambda>_.
     bind_s (ignore_err (bind_s (run_trans t x (trans_abort E T)) (\<lambda>_. run_mgr (mgr_end_abort E t)))) (\<lambda>_.
     remove_trans M th t)))"

definition commit_trans ::
  "'v tx_env \<Rightarrow> ('c, 'v) transable_ops \<Rightarrow> (txid, trans) lhm_ops \<Rightarrow> (nat \<Rightarrow> nat) \<Rightarrow> (nat \<Rightarrow> nat) \<Rightarrow>
   nat \<Rightarrow> txid \<Rightarrow> (unit, error, ('c, 'v) tx_mgr) eff"
where
  "commit_trans E T M rc1 rc2 th t = (\<lambda>s.
     case bind_s (with_trans t (trans_commit E T rc1 rc2)) (\<lambda>w.
          bind_s (run_mgr (mgr_commit_trans E w)) (\<lambda>_.
          with_trans t (trans_complete_commit T))) s of
       (Ok _, s1) \<Rightarrow> remove_trans M th t s1
     | (Err err, s1) \<Rightarrow> bind_s (abort_trans E T M th t) (\<lambda>_. lift_r (Err err)) s1
     | (Panic, s1) \<Rightarrow> (Panic, s1))"

definition next_txid :: "nat \<Rightarrow> (txid, error, ('c, 'v) tx_mgr) eff" where
  "next_txid th = (\<lambda>s. case mgr_next_txid (tm_mgr s) of
       Ok (t, g) \<Rightarrow> (Ok t, s\<lparr>tm_mgr := g, tm_tls := (tm_tls s)(th := t)\<rparr>)
     | Err err \<Rightarrow> (Err err, s)
     | Panic \<Rightarrow> (Panic, s))"

definition begin_trans ::
  "'v tx_env \<Rightarrow> ('c, 'v) transable_ops \<Rightarrow> (txid, trans) lhm_ops \<Rightarrow> nat \<Rightarrow> (txid, error, ('c, 'v) tx_mgr) eff"
where
  "begin_trans E T M th =
     bind_s get_s (\<lambda>s.
       if txid_is_in_trans (tm_tls s th) then lift_r (Err InTrans)
       else bind_s (run_mgr (mgr_hot_redo_abort E)) (\<lambda>_.
            bind_s (next_txid th) (\<lambda>t.
            bind_s (or_else_s (run_mgr (mgr_begin_trans E t)) (\<lambda>err.
              bind_s (set_tls th 0) (\<lambda>_. lift_r (Err err)))) (\<lambda>_.
            bind_s (lift_r (trans_new E t)) (\<lambda>x.
            bind_s (modify_s (\<lambda>s. s\<lparr>tm_txs := lhm_insert M (tm_txs s) t x\<rparr>)) (\<lambda>_.
            bind_s (or_else_s (with_trans t (trans_begin E)) (\<lambda>err.
              bind_s (abort_trans E T M th t) (\<lambda>_. lift_r (Err err)))) (\<lambda>_. ret_s t)))))))"

definition add_to_trans ::
  "'v tx_env \<Rightarrow> (eid, nat) lhm_ops \<Rightarrow> eid \<Rightarrow> txid \<Rightarrow> nat \<Rightarrow> action \<Rightarrow> entity_type \<Rightarrow> arm \<Rightarrow>
   (unit, error, ('c, 'v) tx_mgr) eff"
where
  "add_to_trans E L e t r act ty a =
     bind_s get_s (\<lambda>s.
     bind_s (modify_s (\<lambda>s. case tm_ents s e of None \<Rightarrow> s\<lparr>tm_ents := (tm_ents s)(e \<mapsto> t)\<rparr> | Some _ \<Rightarrow> s)) (\<lambda>_.
       if (case tm_ents s e of None \<Rightarrow> t | Some u \<Rightarrow> u) \<noteq> t then lift_r (Err InTrans)
       else bind_s (lift_r (ok_or (map_of (tm_txs s) t) NoTrans)) (\<lambda>x.
            run_trans t x (add_entity E L e r act ty a))))"

text \<open>
  The handle's \<open>run_all\<close>: run a closure and commit, or abort and return its error. The weak
  reference of a handle to the manager is taken to be alive.
\<close>

definition tx_run_all ::
  "'v tx_env \<Rightarrow> ('c, 'v) transable_ops \<Rightarrow> (txid, trans) lhm_ops \<Rightarrow> (nat \<Rightarrow> nat) \<Rightarrow> (nat \<Rightarrow> nat) \<Rightarrow>
   nat \<Rightarrow> txid \<Rightarrow> (unit, error, ('c, 'v) tx_mgr) eff \<Rightarrow> (unit, error, ('c, 'v) tx_mgr) eff"
where
  "tx_run_all E T M rc1 rc2 th t oper = (\<lambda>s.
     case oper s of
       (Ok _, s1) \<Rightarrow> commit_trans E T M rc1 rc2 th t s1
     | (Err err, s1) \<Rightarrow> bind_s (abort_trans E T M th t) (\<lambda>_. lift_r (Err err)) s1
     | (Panic, s1) \<Rightarrow> (Panic, s1))"

subsection \<open>Interleaved executions\<close>

definition tm_new :: "eid \<Rightarrow> (nat \<Rightarrow> 'c) \<Rightarrow> 'v \<Rightarrow> ('c, 'v) tx_mgr" where
  "tm_new walq_id h v =
     \<lparr>tm_txs = [], tm_ents = Map.empty, tm_mgr = walq_mgr_new walq_id, tm_heap = h, tm_vol = v,
      tm_tls = (\<lambda>_. 0)\<rparr>"

text \<open>
  One step: a manager operation of some thread, whatever its result, or any change of entities
  in the heap by the threads that hold references to them.
\<close>

inductive tx_step ::
  "'v tx_env \<Rightarrow> ('c, 'v) transable_ops \<Rightarrow> (eid, nat) lhm_ops \<Rightarrow> (txid, trans) lhm_ops \<Rightarrow>
   ('c, 'v) tx_mgr \<Rightarrow> ('c, 'v) tx_mgr \<Rightarrow> bool"
for E T L M where
  step_begin: "begin_trans E T M th s = (rb, s') \<Longrightarrow> tx_step E T L M s s'"
| step_add: "add_to_trans E L e t r act ty a s = (ra, s') \<Longrightarrow> tx_step E T L M s s'"
| step_commit: "commit_trans E T M rc1 rc2 th t s = (rc, s') \<Longrightarrow> tx_step E T L M s s'"
| step_abort: "abort_trans E T M th t s = (rd, s') \<Longrightarrow> tx_step E T L M s s'"
| step_heap: "tx_step E T L M s (s\<lparr>tm_heap := h\<rparr>)"

inductive tx_reach ::
  "'v tx_env \<Rightarrow> ('c, 'v) transable_ops \<Rightarrow> (eid, nat) lhm_ops \<Rightarrow> (txid, trans) lhm_ops \<Rightarrow>
   ('c, 'v) tx_mgr \<Rightarrow> bool"
for E T L M where
  reach_new: "tx_reach E T L M (tm_new q h v)"
| reach_step: "tx_reach E T L M s \<Longrightarrow> tx_step E T L M s s' \<Longrightarrow> tx_reach E T L M s'"

inductive_cases tx_stepE: "tx_step E T L M s s'"

text \<open>
  The invariant: no transaction id is used twice, none is above the watermark, and every entity
  in the cohort of a transaction is marked with that transaction.
\<close>

definition marked :: "(eid \<rightharpoonup> txid) \<Rightarrow> txid \<Rightarrow> trans \<Rightarrow> bool" where
  "marked ents t x \<longleftrightarrow> distinct (keys (tx_cohorts x)) \<and> (\<forall>e \<in> set (keys (tx_cohorts x)). ents e = Some t)"

definition tx_inv :: "('c, 'v) tx_mgr \<Rightarrow> bool" where
  "tx_inv s \<longleftrightarrow> distinct (keys (tm_txs s)) \<and>
     (\<forall>t x. map_of (tm_txs s) t = Some x \<longrightarrow>
        unat t \<le> unat (wm_txid_wmark (tm_mgr s)) \<and> marked (tm_ents s) t x)"

subsection \<open>The transaction watermark\<close>

definition keeps_wmark :: "('a, error, 'v mstate) eff \<Rightarrow> bool" where
  "keeps_wmark m \<longleftrightarrow> (\<forall>w. preserves (\<lambda>(g, v). wm_txid_wmark g = w) m)"

lemma keeps_wmarkI: "(\<And>w. preserves (\<lambda>(g, v). wm_txid_wmark g = w) m) \<Longrightarrow> keeps_wmark m"
  by (simp add: keeps_wmark_def)

lemma wmark_bind: "keeps_wmark m \<Longrightarrow> (\<And>x. keeps_wmark (f x)) \<Longrightarrow> keeps_wmark (bind_s m f)"
  by (auto simp: keeps_wmark_def)

lemma wmark_basic:
  "keeps_wmark (run_walq m)" "keeps_wmark backup_walq" "keeps_wmark restore_walq"
  "keeps_wmark (ret_s x)" "keeps_wmark (lift_r r)" "keeps_wmark get_s"
  by (auto simp: keeps_wmark_def preserves_def run_walq_def backup_walq_def restore_walq_def
      split: prod.splits option.splits)

lemma wmark_save: "keeps_wmark (save_walq E)"
  unfolding save_walq_def
  by (intro wmark_bind wmark_basic) (auto simp: keeps_wmark_def preserves_def)

lemma wmark_or_else:
  "keeps_wmark m \<Longrightarrow> (\<And>e. keeps_wmark (h e)) \<Longrightarrow> keeps_wmark (or_else_s m h)"
  by (simp add: keeps_wmark_def preserves_or_else)

lemma wmark_or_restore: "keeps_wmark m \<Longrightarrow> keeps_wmark (or_restore m)"
  unfolding or_restore_def by (intro wmark_or_else wmark_bind wmark_basic)

lemma wmark_ops:
  "keeps_wmark (mgr_begin_trans E t)" "keeps_wmark (mgr_commit_trans E w)"
  "keeps_wmark (mgr_end_abort E t)" "keeps_wmark (mgr_hot_redo_abort E)"
proof -
  show "keeps_wmark (mgr_begin_trans E t)" "keeps_wmark (mgr_commit_trans E w)"
    "keeps_wmark (mgr_end_abort E t)"
    unfolding mgr_begin_trans_def mgr_commit_trans_def mgr_end_abort_def
    by (intro wmark_bind wmark_basic wmark_save wmark_or_restore)+
  show "keeps_wmark (mgr_hot_redo_abort E)"
    unfolding mgr_hot_redo_abort_def
    by (intro wmark_bind wmark_basic) (auto intro!: wmark_bind wmark_basic wmark_save wmark_or_restore)
qed

lemma run_mgr_frame:
  assumes "keeps_wmark m" and "run_mgr m s = (r, s')"
  shows "wm_txid_wmark (tm_mgr s') = wm_txid_wmark (tm_mgr s) \<and> tm_txs s' = tm_txs s \<and>
    tm_ents s' = tm_ents s \<and> tm_tls s' = tm_tls s"
proof -
  obtain r1 g v where m: "m (tm_mgr s, tm_vol s) = (r1, (g, v))"
    by (cases "m (tm_mgr s, tm_vol s)") auto
  have "wm_txid_wmark g = wm_txid_wmark (tm_mgr s)"
    using assms(1) m unfolding keeps_wmark_def preserves_def by fastforce
  with assms(2) m show ?thesis by (auto simp: run_mgr_def zoom_def)
qed

lemma run_mgr_inv: "keeps_wmark m \<Longrightarrow> preserves tx_inv (run_mgr m)"
proof (rule preservesI)
  fix s r s'
  assume "keeps_wmark m" "tx_inv s" "run_mgr m s = (r, s')"
  with run_mgr_frame [of m s r s'] show "tx_inv s'" by (simp add: tx_inv_def)
qed

subsection \<open>Operations on one transaction\<close>

text \<open>A computation on a transaction that adds no entity to the cohort.\<close>

definition shrinks :: "('b, error, ('c, 'v) tstate) eff \<Rightarrow> bool" where
  "shrinks m \<longleftrightarrow> (\<forall>x w r x' w'. m (x, w) = (r, (x', w')) \<longrightarrow>
     tx_cohorts x' = tx_cohorts x \<or> tx_cohorts x' = [])"

lemma shrinksD: "shrinks m \<Longrightarrow> m (x, w) = (r, (x', w')) \<Longrightarrow>
    tx_cohorts x' = tx_cohorts x \<or> tx_cohorts x' = []"
  unfolding shrinks_def by blast

lemma shrinks_bind:
  assumes "shrinks m" and "\<And>y. shrinks (f y)"
  shows "shrinks (bind_s m f)"
  unfolding shrinks_def
proof (intro allI impI)
  fix x w r x' w'
  assume b: "bind_s m f (x, w) = (r, (x', w'))"
  from b show "tx_cohorts x' = tx_cohorts x \<or> tx_cohorts x' = []"
  proof (cases rule: bind_s_cases)
    case (1 y s1)
    obtain x1 w1 where s1: "s1 = (x1, w1)" by (cases s1)
    show ?thesis
      using shrinksD [OF assms(1) 1(1) [unfolded s1]] shrinksD [OF assms(2) 1(2) [unfolded s1]] by auto
  next
    case (2 e)
    then show ?thesis using shrinksD [OF assms(1)] by blast
  next
    case 3
    then show ?thesis using shrinksD [OF assms(1)] by blast
  qed
qed

lemma shrinks_basic:
  "shrinks (save_wal E)" "shrinks (ret_s y)" "shrinks (lift_r r)" "shrinks get_s" "shrinks (tx_vol v)"
  "shrinks (on_cohorts f)" "shrinks (on_tx (\<lambda>t. t\<lparr>tx_wal_saved := b\<rparr>))"
  "shrinks (\<lambda>(t, w). case commit_entities T rc (lhm_values (tx_cohorts t)) [] w of (r, w') \<Rightarrow> (r, (t, w')))"
  by (auto simp: shrinks_def save_wal_def tx_vol_def zoom_def on_cohorts_def on_tx_def bind_s_def
      split: prod.splits result.splits)

lemma shrinks_ops:
  "shrinks (trans_begin E)" "shrinks (trans_commit E T rc1 rc2)" "shrinks (trans_complete_commit T)"
  "shrinks (trans_abort E T)"
proof -
  show "shrinks (trans_begin E)" "shrinks (trans_complete_commit T)"
    by (simp_all add: trans_begin_def trans_complete_commit_def shrinks_basic)
  show "shrinks (trans_abort E T)"
    unfolding trans_abort_def
    by (intro shrinks_bind shrinks_basic) (auto intro!: shrinks_bind shrinks_basic)
  show "shrinks (trans_commit E T rc1 rc2)"
    unfolding trans_commit_def
    by (intro shrinks_bind shrinks_basic) (auto intro!: shrinks_bind shrinks_basic split: prod.splits)
qed

lemma keys_put_trans [simp]: "keys (put_trans t x m) = keys m"
  by (induction m) (auto simp: put_trans_def)

lemma map_of_put_trans:
  "map_of (put_trans t x m) u = (if u = t \<and> map_of m t \<noteq> None then Some x else map_of m u)"
  by (induction m) (auto simp: put_trans_def)

lemma marked_shrink: "marked ents t x \<Longrightarrow> tx_cohorts x' = tx_cohorts x \<or> tx_cohorts x' = [] \<Longrightarrow> marked ents t x'"
  by (auto simp: marked_def)

lemma put_trans_inv:
  assumes "tx_inv s" and "map_of (tm_txs s) t = Some x" and "marked (tm_ents s) t x'"
  shows "tx_inv (s\<lparr>tm_txs := put_trans t x' (tm_txs s), tm_heap := h, tm_vol := v\<rparr>)"
proof -
  have "unat u \<le> unat (wm_txid_wmark (tm_mgr s)) \<and> marked (tm_ents s) u y"
    if "map_of (put_trans t x' (tm_txs s)) u = Some y" for u y
    using that assms by (cases "u = t") (auto simp: map_of_put_trans tx_inv_def)
  then show ?thesis using assms(1) by (simp add: tx_inv_def)
qed

lemma marked_mono:
  "marked ents t x \<Longrightarrow> (\<And>e. ents e = Some t \<Longrightarrow> ents' e = Some t) \<Longrightarrow> marked ents' t x"
  by (auto simp: marked_def)

lemma run_trans_inv:
  assumes "tx_inv s" and "marked (tm_ents s) t x" and "shrinks m" and "run_trans t x m s = (r, s')"
  shows "tx_inv s' \<and> tm_ents s' = tm_ents s \<and> tm_tls s' = tm_tls s \<and> keys (tm_txs s') = keys (tm_txs s) \<and>
    tm_mgr s' = tm_mgr s"
proof -
  obtain r1 x' w where m: "m (x, \<lparr>wo_heap = tm_heap s, wo_vol = tm_vol s\<rparr>) = (r1, (x', w))"
    by (cases "m (x, \<lparr>wo_heap = tm_heap s, wo_vol = tm_vol s\<rparr>)") auto
  have "marked (tm_ents s) t x'" using marked_shrink [OF assms(2) shrinksD [OF assms(3) m]] .
  moreover have s': "s' = s\<lparr>tm_txs := put_trans t x' (tm_txs s), tm_heap := wo_heap w, tm_vol := wo_vol w\<rparr>"
    using assms(4) m by (simp add: run_trans_def)
  ultimately show ?thesis
    using assms(1) by (auto simp: tx_inv_def map_of_put_trans)
qed

lemma with_trans_inv:
  assumes "tx_inv s" and "shrinks m" and "with_trans t m s = (r, s')"
  shows "tx_inv s' \<and> tm_ents s' = tm_ents s \<and> tm_tls s' = tm_tls s \<and> keys (tm_txs s') = keys (tm_txs s) \<and>
    tm_mgr s' = tm_mgr s"
proof (cases "map_of (tm_txs s) t")
  case None
  with assms show ?thesis
    by (auto simp: with_trans_def get_trans_def unwrap_opt_def bind_s_def)
next
  case (Some x)
  then have "marked (tm_ents s) t x" using assms(1) by (simp add: tx_inv_def)
  moreover have "run_trans t x m s = (r, s')"
    using assms(3) Some by (simp add: with_trans_def get_trans_def unwrap_opt_def bind_s_def)
  ultimately show ?thesis using run_trans_inv assms(1,2) by blast
qed

text \<open>What most steps leave alone: the set of transactions, the marks and the thread locals.\<close>

definition same_table :: "('c, 'v) tx_mgr \<Rightarrow> ('c, 'v) tx_mgr \<Rightarrow> bool" where
  "same_table s s' \<longleftrightarrow> tx_inv s' \<and> tm_ents s' = tm_ents s \<and> tm_tls s' = tm_tls s \<and>
     keys (tm_txs s') = keys (tm_txs s)"

lemma same_table_trans: "same_table s s1 \<Longrightarrow> same_table s1 s2 \<Longrightarrow> same_table s s2"
  by (simp add: same_table_def)

lemma same_table_mgr:
  assumes "tx_inv s" and "keeps_wmark m" and "run_mgr m s = (r, s')"
  shows "same_table s s'"
  using assms run_mgr_frame [OF assms(2,3)] preservesD [OF run_mgr_inv [OF assms(2)] assms(1,3)]
  by (simp add: same_table_def)

lemma abort_body:
  assumes "tx_inv s" and "marked (tm_ents s) t x"
    and "ignore_err (bind_s (run_trans t x (trans_abort E T)) (\<lambda>_. run_mgr (mgr_end_abort E t))) s = (r, s')"
  shows "same_table s s'"
proof -
  obtain r1 s1 where b: "bind_s (run_trans t x (trans_abort E T)) (\<lambda>_. run_mgr (mgr_end_abort E t)) s = (r1, s1)"
    by (cases "bind_s (run_trans t x (trans_abort E T)) (\<lambda>_. run_mgr (mgr_end_abort E t)) s")
  have "s' = s1" using assms(3) b by (cases r1) (auto simp: ignore_err_def or_else_s_def)
  moreover from b have "same_table s s1"
  proof (cases rule: bind_s_cases)
    case (1 y s2)
    have st: "same_table s s2"
      using run_trans_inv [OF assms(1,2) shrinks_ops(4) 1(1)] by (simp add: same_table_def)
    then show ?thesis
      using same_table_mgr [OF _ wmark_ops(3) 1(2)] same_table_trans by (auto simp: same_table_def)
  next
    case (2 e)
    then show ?thesis
      using run_trans_inv [OF assms(1,2) shrinks_ops(4)] by (simp add: same_table_def)
  next
    case 3
    then show ?thesis
      using run_trans_inv [OF assms(1,2) shrinks_ops(4)] by (simp add: same_table_def)
  qed
  ultimately show ?thesis by simp
qed

subsection \<open>The manager on linked hash maps that keep their contract\<close>

text \<open>Transaction \<open>t\<close> is gone: not in the table, no entity is marked with it.\<close>

definition tx_gone :: "nat \<Rightarrow> txid \<Rightarrow> ('c, 'v) tx_mgr \<Rightarrow> ('c, 'v) tx_mgr \<Rightarrow> bool" where
  "tx_gone th t s s' \<longleftrightarrow> set (keys (tm_txs s')) = set (keys (tm_txs s)) - {t} \<and>
     (\<forall>e. tm_ents s' e = (if tm_ents s e = Some t then None else tm_ents s e)) \<and>
     tm_tls s' = (tm_tls s)(th := 0)"

lemma tx_gone_same: "same_table s s1 \<Longrightarrow> tx_gone th t s1 s' \<Longrightarrow> tx_gone th t s s'"
  by (simp add: same_table_def tx_gone_def del: set_map)

lemma same_with:
  assumes "shrinks m"
  shows "preserves (same_table s) (with_trans t m)"
proof (rule preservesI)
  fix s1 r s'
  assume st: "same_table s s1" and w: "with_trans t m s1 = (r, s')"
  have "tx_inv s1" using st by (simp add: same_table_def)
  from with_trans_inv [OF this assms w] st show "same_table s s'" by (simp add: same_table_def)
qed

lemma same_mgr:
  assumes "keeps_wmark m"
  shows "preserves (same_table s) (run_mgr m)"
proof (rule preservesI)
  fix s1 r s'
  assume st: "same_table s s1" and w: "run_mgr m s1 = (r, s')"
  have "tx_inv s1" using st by (simp add: same_table_def)
  from same_table_trans [OF st same_table_mgr [OF this assms w]] show "same_table s s'" .
qed

locale tx_system =
  cohorts: linked_hash_map L + table: linked_hash_map M
  for L :: "(eid, nat) lhm_ops" and M :: "(txid, trans) lhm_ops"
begin

lemma remove_trans_ok:
  assumes "tx_inv s" and "remove_trans M th t s = (r, s')"
  shows "tx_inv s' \<and> tx_gone th t s s'"
proof -
  have d: "distinct (keys (tm_txs s))" using assms(1) by (simp add: tx_inv_def)
  have s': "s' = s\<lparr>tm_txs := others (tm_txs s) t,
       tm_ents := (\<lambda>e. if tm_ents s e = Some t then None else tm_ents s e),
       tm_tls := (tm_tls s)(th := 0)\<rparr>"
    using assms(2) by (simp add: remove_trans_def table.remove_others d)
  have "marked (tm_ents s') u x" if "map_of (tm_txs s) u = Some x" "u \<noteq> t" for u x
    using assms(1) that by (auto simp: s' tx_inv_def marked_def)
  then show ?thesis
    using assms(1) d by (auto simp: s' tx_inv_def tx_gone_def map_of_filter_key distinct_keys_filter
        split: if_splits)
qed

lemma abort_trans_ok:
  assumes inv: "tx_inv s" and ab: "abort_trans E T M th t s = (r, s')"
  shows "tx_inv s' \<and> (r \<noteq> Panic \<longrightarrow> r = Ok () \<and> t \<in> set (keys (tm_txs s)) \<and> tx_gone th t s s')"
proof (cases "map_of (tm_txs s) t")
  case None
  with assms show ?thesis
    by (auto simp: abort_trans_def get_trans_def unwrap_opt_def bind_s_def)
next
  case (Some x)
  let ?s1 = "s\<lparr>tm_mgr := mgr_begin_abort (tx_wal x) (tm_mgr s)\<rparr>"
  let ?m = "ignore_err (bind_s (run_trans t x (trans_abort E T)) (\<lambda>_. run_mgr (mgr_end_abort E t)))"
  have i1: "tx_inv ?s1" using inv by (simp add: tx_inv_def mgr_begin_abort_def)
  have mk: "marked (tm_ents ?s1) t x" using inv Some by (simp add: tx_inv_def)
  have t: "t \<in> set (keys (tm_txs s))" using Some by (metis domI dom_map_of_conv_image_fst list.set_map)
  obtain r2 s2 where m: "?m ?s1 = (r2, s2)" by (cases "?m ?s1")
  have st: "same_table ?s1 s2" using abort_body [OF i1 mk m] .
  have ab': "bind_s ?m (\<lambda>_. remove_trans M th t) ?s1 = (r, s')"
    using ab Some by (simp add: abort_trans_def get_trans_def unwrap_opt_def)
  show ?thesis
  proof (cases r2)
    case (Ok y)
    then have rm: "remove_trans M th t s2 = (r, s')" using ab' m by simp
    then have "r = Ok ()" by (simp add: remove_trans_def)
    moreover have "tx_inv s' \<and> tx_gone th t s2 s'"
      using remove_trans_ok [OF _ rm] st by (simp add: same_table_def)
    moreover have "same_table s s2" using st by (simp add: same_table_def)
    ultimately show ?thesis using tx_gone_same t by blast
  next
    case (Err e)
    then have False using m by (auto simp: ignore_err_def or_else_s_def split: result.splits prod.splits)
    then show ?thesis ..
  next
    case Panic
    then have "r = Panic \<and> s' = s2" using ab' m by simp
    then show ?thesis using st by (simp add: same_table_def)
  qed
qed

lemma commit_body:
  assumes "tx_inv s" and "bind_s (with_trans t (trans_commit E T rc1 rc2)) (\<lambda>w.
      bind_s (run_mgr (mgr_commit_trans E w)) (\<lambda>_. with_trans t (trans_complete_commit T))) s = (r, s')"
  shows "same_table s s'"
proof -
  let ?P = "same_table s"
  have "?P s" using assms(1) by (simp add: same_table_def)
  moreover have p: "preserves ?P (bind_s (with_trans t (trans_commit E T rc1 rc2)) (\<lambda>w.
      bind_s (run_mgr (mgr_commit_trans E w)) (\<lambda>_. with_trans t (trans_complete_commit T))))"
    by (intro preserves_bind same_with same_mgr shrinks_ops wmark_ops)
  ultimately show ?thesis using preservesD [OF p _ assms(2)] by simp
qed

lemma commit_trans_ok:
  assumes inv: "tx_inv s" and cm: "commit_trans E T M rc1 rc2 th t s = (r, s')"
  shows "tx_inv s' \<and> (r \<noteq> Panic \<longrightarrow> tx_gone th t s s')"
proof -
  let ?b = "bind_s (with_trans t (trans_commit E T rc1 rc2)) (\<lambda>w.
      bind_s (run_mgr (mgr_commit_trans E w)) (\<lambda>_. with_trans t (trans_complete_commit T)))"
  obtain r1 s1 where b: "?b s = (r1, s1)" by (cases "?b s")
  have st: "same_table s s1" using commit_body [OF inv b] .
  then have i1: "tx_inv s1" by (simp add: same_table_def)
  have gone: "tx_gone th t s1 s' \<Longrightarrow> tx_gone th t s s'"
    using tx_gone_same [OF st] .
  show ?thesis
  proof (cases r1)
    case (Ok y)
    then have "remove_trans M th t s1 = (r, s')" using cm b by (simp add: commit_trans_def)
    then show ?thesis using remove_trans_ok [OF i1] gone by blast
  next
    case (Err e)
    obtain r2 s2 where a: "abort_trans E T M th t s1 = (r2, s2)" by (cases "abort_trans E T M th t s1")
    have "s' = s2" "r \<noteq> Panic \<Longrightarrow> r2 \<noteq> Panic"
      using cm b Err a by (cases r2; simp add: commit_trans_def)+
    then show ?thesis using abort_trans_ok [OF i1 a] gone by blast
  next
    case Panic
    then show ?thesis using cm b i1 by (simp add: commit_trans_def)
  qed
qed

lemma next_txid_ok:
  assumes "tx_inv s" and "next_txid th s = (r, s')"
  shows "tx_inv s' \<and> (\<forall>e. r \<noteq> Err e) \<and>
    (\<forall>t. r = Ok t \<longrightarrow> t \<noteq> 0 \<and> t \<notin> set (keys (tm_txs s)) \<and> wm_txid_wmark (tm_mgr s') = t \<and>
       tm_txs s' = tm_txs s \<and> tm_ents s' = tm_ents s \<and> tm_tls s' = (tm_tls s)(th := t))"
proof (cases "unat (wm_txid_wmark (tm_mgr s)) + 1 < 2 ^ 64")
  case False
  with assms show ?thesis by (auto simp: next_txid_def mgr_next_txid_def txid_next_def)
next
  case True
  let ?w = "wm_txid_wmark (tm_mgr s)"
  have u: "unat (?w + 1) = unat ?w + 1" using True by (rule unat_txid_next)
  have r: "r = Ok (?w + 1)" "s' = s\<lparr>tm_mgr := (tm_mgr s)\<lparr>wm_txid_wmark := ?w + 1\<rparr>,
      tm_tls := (tm_tls s)(th := ?w + 1)\<rparr>"
    using assms(2) True by (auto simp: next_txid_def mgr_next_txid_def txid_next_def)
  have "?w + 1 \<noteq> 0"
  proof
    assume "?w + 1 = 0"
    then have "unat (?w + 1) = 0" by simp
    with u show False by simp
  qed
  moreover have "?w + 1 \<notin> set (keys (tm_txs s))"
  proof
    assume "?w + 1 \<in> set (keys (tm_txs s))"
    then obtain x where "map_of (tm_txs s) (?w + 1) = Some x"
      by (metis image_set map_of_eq_None_iff not_None_eq)
    with assms(1) have "unat (?w + 1) \<le> unat ?w" by (simp add: tx_inv_def)
    with u show False by simp
  qed
  moreover have "tx_inv s'"
    using assms(1) u by (fastforce simp: r tx_inv_def)
  ultimately show ?thesis by (simp add: r)
qed

lemma insert_trans_inv:
  assumes "tx_inv s" and "t \<notin> set (keys (tm_txs s))" and "tx_cohorts x = []"
    and "wm_txid_wmark (tm_mgr s) = t"
  shows "tx_inv (s\<lparr>tm_txs := lhm_insert M (tm_txs s) t x\<rparr>) \<and>
    set (keys (lhm_insert M (tm_txs s) t x)) = insert t (set (keys (tm_txs s)))"
proof -
  have d: "distinct (keys (tm_txs s))" using assms(1) by (simp add: tx_inv_def)
  have "lhm_insert M (tm_txs s) t x = tm_txs s @ [(t, x)]"
    using table.insert_fresh [OF d assms(2)] .
  with assms d show ?thesis
    by (auto simp: tx_inv_def marked_def map_add_def split: option.splits)
qed

lemma trans_new_cases: "trans_new E t = Panic \<or> (\<exists>x. trans_new E t = Ok x \<and> tx_cohorts x = [])"
  by (auto simp: trans_new_def wal_new_def wal_derive_id_def txid_derive_id_def
      eid_from_slice_def assert_r_def)

text \<open>The second half of \<open>begin_trans\<close>: the new transaction is entered and started.\<close>

lemma start_trans_ok:
  assumes "tx_inv s" and "t \<notin> set (keys (tm_txs s))" and "wm_txid_wmark (tm_mgr s) = t"
    and "tm_tls s th = t"
    and "bind_s (lift_r (trans_new E t)) (\<lambda>x.
         bind_s (modify_s (\<lambda>s. s\<lparr>tm_txs := lhm_insert M (tm_txs s) t x\<rparr>)) (\<lambda>_.
         bind_s (or_else_s (with_trans t (trans_begin E)) (\<lambda>err.
           bind_s (abort_trans E T M th t) (\<lambda>_. lift_r (Err err)))) (\<lambda>_. ret_s t))) s = (r, s')"
  shows "tx_inv s' \<and> (r = Ok u \<longrightarrow> u = t \<and> tm_tls s' th = t \<and> t \<in> set (keys (tm_txs s'))) \<and>
    (r = Err e \<longrightarrow> tm_tls s' th = 0)"
proof (cases "trans_new E t")
  case Panic
  then show ?thesis using assms(1,5) by simp
next
  case (Err e)
  then show ?thesis using trans_new_cases [of E t] by simp
next
  case (Ok x)
  then have x: "tx_cohorts x = []" using trans_new_cases [of E t] by auto
  let ?s1 = "s\<lparr>tm_txs := lhm_insert M (tm_txs s) t x\<rparr>"
  note i1 = insert_trans_inv [OF assms(1,2) x assms(3)]
  obtain r2 s2 where w: "with_trans t (trans_begin E) ?s1 = (r2, s2)"
    by (cases "with_trans t (trans_begin E) ?s1")
  have i2: "tx_inv s2 \<and> tm_tls s2 = tm_tls ?s1 \<and> keys (tm_txs s2) = keys (tm_txs ?s1)"
    using with_trans_inv [OF conjunct1 [OF i1] shrinks_ops(1) w] by simp
  show ?thesis
  proof (cases r2)
    case (Ok y)
    then have "r = Ok t \<and> s' = s2" using assms(5) \<open>trans_new E t = Ok x\<close> w
      by (simp add: or_else_s_def)
    moreover have "t \<in> set (keys (tm_txs s2))" using i1 i2 by (simp del: set_map)
    ultimately show ?thesis using i2 assms(4) by (auto simp del: set_map)
  next
    case (Err e1)
    obtain r3 s3 where a: "abort_trans E T M th t s2 = (r3, s3)" by (cases "abort_trans E T M th t s2")
    have "(r, s') = (case r3 of Ok _ \<Rightarrow> (Err e1, s3) | Err e2 \<Rightarrow> (Err e2, s3) | Panic \<Rightarrow> (Panic, s3))"
      using assms(5) \<open>trans_new E t = Ok x\<close> w Err a
      by (simp add: or_else_s_def bind_s_def split: result.splits)
    then have "s' = s3 \<and> (r3 = Panic \<longrightarrow> r = Panic) \<and> r \<noteq> Ok u"
      by (cases r3) simp_all
    then show ?thesis
      using abort_trans_ok [OF conjunct1 [OF i2] a] by (cases "r3 = Panic") (simp_all add: tx_gone_def)
  next
    case Panic
    then have "r = Panic \<and> s' = s2" using assms(5) \<open>trans_new E t = Ok x\<close> w
      by (simp add: or_else_s_def bind_s_def)
    then show ?thesis using i2 by simp
  qed
qed

lemma begin_trans_ok:
  assumes inv: "tx_inv s" and bt: "begin_trans E T M th s = (r, s')"
  shows "tx_inv s' \<and>
    (r = Ok t \<longrightarrow> t \<noteq> 0 \<and> t \<notin> set (keys (tm_txs s)) \<and> t \<in> set (keys (tm_txs s')) \<and> tm_tls s' th = t) \<and>
    (r = Err e \<longrightarrow> s' = s \<and> e = InTrans \<and> tm_tls s th \<noteq> 0 \<or> tm_tls s' th = 0)"
proof (cases "txid_is_in_trans (tm_tls s th)")
  case True
  then show ?thesis using bt inv by (auto simp: begin_trans_def txid_is_in_trans_def)
next
  case False
  obtain r1 s1 where h: "run_mgr (mgr_hot_redo_abort E) s = (r1, s1)"
    by (cases "run_mgr (mgr_hot_redo_abort E) s")
  have st: "same_table s s1" using same_table_mgr [OF inv wmark_ops(4) h] .
  then have i1: "tx_inv s1" by (simp add: same_table_def)
  have tls0: "tm_tls s1 th = 0" using False st by (simp add: txid_is_in_trans_def same_table_def)
  obtain r2 s2 where n: "next_txid th s1 = (r2, s2)" by (cases "next_txid th s1")
  note n' = next_txid_ok [OF i1 n]
  show ?thesis
  proof (cases "\<exists>y t'. r1 = Ok y \<and> r2 = Ok t'")
    case False
    then have "tx_inv s' \<and> (\<forall>t. r \<noteq> Ok t) \<and> (\<forall>e. r = Err e \<longrightarrow> s' = s1)"
      using bt h n i1 n' \<open>\<not> txid_is_in_trans (tm_tls s th)\<close>
      by (cases r1; cases r2) (auto simp: begin_trans_def bind_s_def)
    then show ?thesis using tls0 by blast
  next
    case True
    then obtain y t' where ok: "r1 = Ok y" "r2 = Ok t'" by blast
    obtain r3 s3 where m: "run_mgr (mgr_begin_trans E t') s2 = (r3, s3)"
      by (cases "run_mgr (mgr_begin_trans E t') s2")
    have i2: "tx_inv s2" using n' by simp
    have st3: "same_table s2 s3" using same_table_mgr [OF i2 wmark_ops(1) m] .
    have w3: "wm_txid_wmark (tm_mgr s3) = t'" "tm_tls s3 th = t'" "tx_inv s3"
      using run_mgr_frame [OF wmark_ops(1) m] n' ok st3 by (auto simp: same_table_def)
    have k3: "keys (tm_txs s3) = keys (tm_txs s)" "t' \<noteq> 0" "t' \<notin> set (keys (tm_txs s))"
      using st st3 n' ok by (auto simp: same_table_def simp del: set_map)
    show ?thesis
    proof (cases r3)
      case (Ok z)
      have "bind_s (lift_r (trans_new E t')) (\<lambda>x.
         bind_s (modify_s (\<lambda>s. s\<lparr>tm_txs := lhm_insert M (tm_txs s) t' x\<rparr>)) (\<lambda>_.
         bind_s (or_else_s (with_trans t' (trans_begin E)) (\<lambda>err.
           bind_s (abort_trans E T M th t') (\<lambda>_. lift_r (Err err)))) (\<lambda>_. ret_s t'))) s3 = (r, s')"
        using bt \<open>\<not> txid_is_in_trans (tm_tls s th)\<close> h n ok m Ok
        by (simp add: begin_trans_def or_else_s_def)
      from start_trans_ok [OF w3(3) _ w3(1,2) this, of t e] k3 show ?thesis
        by (auto simp del: set_map)
    next
      case (Err e1)
      then have "r = Err e1 \<and> s' = s3\<lparr>tm_tls := (tm_tls s3)(th := 0)\<rparr>"
        using bt \<open>\<not> txid_is_in_trans (tm_tls s th)\<close> h n ok m
        by (simp add: begin_trans_def or_else_s_def set_tls_def)
      then show ?thesis using w3(3) by (simp add: tx_inv_def)
    next
      case Panic
      then have "r = Panic \<and> s' = s3"
        using bt \<open>\<not> txid_is_in_trans (tm_tls s th)\<close> h n ok m
        by (simp add: begin_trans_def or_else_s_def)
      then show ?thesis using w3(3) by simp
    qed
  qed
qed

text \<open>Adding an entity: the cohort grows by at most that entity.\<close>

definition grows :: "eid \<Rightarrow> ('b, error, ('c, 'v) tstate) eff \<Rightarrow> bool" where
  "grows e m \<longleftrightarrow> (\<forall>x w r x' w'. m (x, w) = (r, (x', w')) \<longrightarrow> distinct (keys (tx_cohorts x)) \<longrightarrow>
     distinct (keys (tx_cohorts x')) \<and> set (keys (tx_cohorts x')) \<subseteq> insert e (set (keys (tx_cohorts x))))"

lemma or_insert_keys:
  assumes "distinct (keys m)"
  shows "distinct (keys (or_insert L e r m)) \<and> set (keys (or_insert L e r m)) \<subseteq> insert e (set (keys m))"
proof (cases "map_of m e")
  case None
  then have "e \<notin> set (keys m)" by (simp add: map_of_eq_None_iff)
  with assms None show ?thesis by (simp add: or_insert_def cohorts.insert_fresh)
qed (use assms in \<open>auto simp: or_insert_def\<close>)

lemma add_entity_grows: "grows e (add_entity E L e r act ty a)"
  unfolding grows_def
proof (intro allI impI)
  fix x w res x' w'
  assume ae: "add_entity E L e r act ty a (x, w) = (res, (x', w'))" and d: "distinct (keys (tx_cohorts x))"
  have "tx_cohorts x' = tx_cohorts x \<or> tx_cohorts x' = or_insert L e r (tx_cohorts x)"
    using ae
    by (auto simp: add_entity_def on_tx_def save_wal_def or_else_s_def bind_s_def
        split: if_splits prod.splits result.splits)
  then show "distinct (keys (tx_cohorts x')) \<and> set (keys (tx_cohorts x')) \<subseteq> insert e (set (keys (tx_cohorts x)))"
    using or_insert_keys [OF d, of e r] d by (elim disjE) (simp_all del: set_map, blast)
qed

lemma run_trans_grow:
  assumes "tx_inv s" and "map_of (tm_txs s) t = Some x" and "tm_ents s e = Some t" and "grows e m"
    and "run_trans t x m s = (r, s')"
  shows "tx_inv s'"
proof -
  obtain r1 x' w where m: "m (x, \<lparr>wo_heap = tm_heap s, wo_vol = tm_vol s\<rparr>) = (r1, (x', w))"
    by (cases "m (x, \<lparr>wo_heap = tm_heap s, wo_vol = tm_vol s\<rparr>)") auto
  have mk: "marked (tm_ents s) t x" using assms(1,2) by (simp add: tx_inv_def)
  then have "marked (tm_ents s) t x'"
    using assms(3,4) m unfolding marked_def grows_def by blast
  from put_trans_inv [OF assms(1,2) this] show ?thesis
    using assms(5) m by (simp add: run_trans_def) metis
qed

lemma add_to_trans_inv:
  assumes inv: "tx_inv s" and ad: "add_to_trans E L e t r act ty a s = (res, s')"
  shows "tx_inv s'"
proof -
  let ?s1 = "case tm_ents s e of None \<Rightarrow> s\<lparr>tm_ents := (tm_ents s)(e \<mapsto> t)\<rparr> | Some _ \<Rightarrow> s"
  have ents: "tm_ents s u = Some v \<Longrightarrow> tm_ents ?s1 u = Some v" for u v
    by (cases "u = e") (auto split: option.splits)
  have "tm_txs ?s1 = tm_txs s" "tm_mgr ?s1 = tm_mgr s" by (simp_all split: option.splits)
  moreover have "marked (tm_ents s) u x \<Longrightarrow> marked (tm_ents ?s1) u x" for u x
    by (erule marked_mono) (rule ents)
  ultimately have i1: "tx_inv ?s1" using inv by (simp add: tx_inv_def)
  show ?thesis
  proof (cases "(case tm_ents s e of None \<Rightarrow> t | Some u \<Rightarrow> u) \<noteq> t \<or> map_of (tm_txs s) t = None")
    case True
    then have "s' = ?s1" using ad by (auto simp: add_to_trans_def ok_or_def bind_s_def split: if_splits)
    then show ?thesis using i1 by simp
  next
    case False
    then obtain x where x: "map_of (tm_txs s) t = Some x" by auto
    have "run_trans t x (add_entity E L e r act ty a) ?s1 = (res, s')"
      using ad False x by (simp add: add_to_trans_def ok_or_def)
    moreover have "map_of (tm_txs ?s1) t = Some x" "tm_ents ?s1 e = Some t"
      using x False by (auto split: option.splits)
    ultimately show ?thesis using run_trans_grow [OF i1 _ _ add_entity_grows] by blast
  qed
qed

lemma tx_new_inv: "tx_inv (tm_new q h v)"
  by (simp add: tx_inv_def tm_new_def)

lemma tx_step_inv: "tx_step E T L M s s' \<Longrightarrow> tx_inv s \<Longrightarrow> tx_inv s'"
proof (induction rule: tx_step.induct)
  case (step_begin th s rb s')
  then show ?case using begin_trans_ok by blast
next
  case (step_add e t r act ty a s ra s')
  then show ?case using add_to_trans_inv by blast
next
  case (step_commit rc1 rc2 th t s rc s')
  then show ?case using commit_trans_ok by blast
next
  case (step_abort th t s rd s')
  then show ?case using abort_trans_ok by blast
next
  case (step_heap s h)
  then show ?case by (simp add: tx_inv_def)
qed

lemma tx_reach_inv: "tx_reach E T L M s \<Longrightarrow> tx_inv s"
proof (induction rule: tx_reach.induct)
  case (reach_new q h v)
  show ?case by (rule tx_new_inv)
next
  case (reach_step s s')
  from tx_step_inv [OF reach_step(2,3)] show ?case .
qed

end

interpretation list_tx: tx_system list_lhm list_lhm
  by unfold_locales

subsection \<open>Properties\<close>

text \<open>
  C3. In every reachable state of the manager, under any interleaving of operations of any
  number of threads and whatever they return, an entity is in the cohort of at most one
  transaction, and it is marked as belonging to it; transaction ids in use are distinct.
\<close>

theorem entity_in_one_transaction:
  assumes "tx_system L M" and "tx_reach E T L M s"
    and "(t1, x1) \<in> set (tm_txs s)" and "(t2, x2) \<in> set (tm_txs s)"
    and "e \<in> set (keys (tx_cohorts x1))" and "e \<in> set (keys (tx_cohorts x2))"
  shows "t1 = t2 \<and> x1 = x2 \<and> tm_ents s e = Some t1"
proof -
  have inv: "tx_inv s" using tx_system.tx_reach_inv [OF assms(1,2)] .
  then have d: "distinct (keys (tm_txs s))" by (simp add: tx_inv_def)
  then have "map_of (tm_txs s) t1 = Some x1" "map_of (tm_txs s) t2 = Some x2"
    using assms(3,4) by simp_all
  then have "tm_ents s e = Some t1" "tm_ents s e = Some t2" "map_of (tm_txs s) t1 = Some x1"
    "map_of (tm_txs s) t2 = Some x2"
    using inv assms(5,6) unfolding tx_inv_def marked_def by blast+
  then show ?thesis by simp
qed


text \<open>
  Beginning a transaction either succeeds with a fresh, nonzero id that is entered in the
  table and becomes that of the thread, or fails and leaves the thread outside transactions,
  except that a thread which already is in one is refused with \<open>InTrans\<close> and nothing changes.
\<close>

lemma begin_trans_fresh:
  assumes "tx_system L M" and "tx_reach E T L M s" and "begin_trans E T M th s = (r, s')"
  shows "(\<forall>t. r = Ok t \<longrightarrow> t \<noteq> 0 \<and> t \<notin> set (keys (tm_txs s)) \<and> t \<in> set (keys (tm_txs s')) \<and> tm_tls s' th = t) \<and>
    (\<forall>e. r = Err e \<longrightarrow> s' = s \<and> e = InTrans \<and> tm_tls s th \<noteq> 0 \<or> tm_tls s' th = 0)"
  using tx_system.begin_trans_ok [OF assms(1) tx_system.tx_reach_inv [OF assms(1,2)] assms(3)] by blast

text \<open>
  An entity that belongs to one transaction cannot be added to another: the call fails
  with \<open>InTrans\<close> and changes nothing.
\<close>

lemma add_to_trans_exclusive:
  assumes "tm_ents s e = Some u" and "u \<noteq> t"
  shows "add_to_trans E L e t r act ty a s = (Err InTrans, s)"
  using assms by (simp add: add_to_trans_def)

end
