(* ===== verification/Reference_Tx.thy ===== *)
theory Reference_Tx
  imports Tx_Mgr
begin

text \<open>
  Concrete runs of the transaction manager on the small environment of \<open>Wal\<close>, with entities
  that accept every call.
\<close>

definition unit_ops :: "(unit, bool) transable_ops" where
  "unit_ops = \<lparr>tr_action = (\<lambda>_. Ok Update), tr_id = (\<lambda>_. []), tr_commit = (\<lambda>s. (Ok (), s)),
     tr_complete_commit = Ok, tr_abort = Ok\<rparr>"

definition flag_tm :: "(unit, bool) tx_mgr" where
  "flag_tm = tm_new [] (\<lambda>_. ()) True"

lemma flag_fields:
  "te_flush flag_env = ret_s ()" "te_wmark flag_env = (\<lambda>_. 0)" "te_entries flag_env = list_lhm"
  by (simp_all add: flag_env_def)

lemma flag_save_wal:
  "save_item (te_wal flag_env) True w =
     (Ok (), w\<lparr>wl_seq := Suc (wl_seq w), wl_arm := arm_other (wl_arm w)\<rparr>, True)"
  by (simp add: save_item_def flag_env_def flag_armor_def toggle_def Let_def)

lemma flag_begin:
  "\<exists>s1. begin_trans flag_env unit_ops list_lhm 0 flag_tm = (Ok 1, s1) \<and>
     tm_txs s1 = [(1, \<lparr>tx_txid = 1, tx_cohorts = [], tx_wal = \<lparr>wl_id = replicate 32 0, wl_seq = 1,
        wl_arm = Right, wl_txid = 1, wl_entries = []\<rparr>, tx_wal_saved = False\<rparr>)] \<and>
     tm_ents s1 = Map.empty \<and> tm_vol s1 = True \<and> tm_tls s1 0 = 1"
  by (simp add: begin_trans_def flag_tm_def tm_new_def txid_is_in_trans_def run_mgr_def zoom_def
      mgr_hot_redo_abort_def walq_mgr_new_def walq_new_def has_abort_def next_txid_def mgr_next_txid_def
      txid_next_def mgr_begin_trans_def run_walq_def walq_begin_trans_def on_walq_def or_restore_def
      or_else_s_def save_walq_def on_vol_def flag_fields flag_save set_watermarks_def trans_new_def
      wal_new_def flag_derive with_trans_def get_trans_def unwrap_opt_def run_trans_def trans_begin_def
      save_wal_def flag_save_wal put_trans_def list_lhm_def arm_default_def)

lemma flag_reach: "tx_reach flag_env unit_ops list_lhm list_lhm flag_tm"
  unfolding flag_tm_def by (rule reach_new)

text \<open>After beginning transaction 1 and adding entity 7 to it.\<close>

lemma flag_run:
  obtains s1 s2 x where "begin_trans flag_env unit_ops list_lhm 0 flag_tm = (Ok 1, s1)"
    "add_to_trans flag_env list_lhm [7] 1 0 Update EntCow Left s1 = (Ok (), s2)"
    "tm_txs s2 = [(1, x)]" "keys (tx_cohorts x) = [[7]]" "tm_tls s1 0 = 1"
    "tx_reach flag_env unit_ops list_lhm list_lhm s2"
proof -
  obtain s1 where s1: "begin_trans flag_env unit_ops list_lhm 0 flag_tm = (Ok 1, s1)"
    "tm_txs s1 = [(1, \<lparr>tx_txid = 1, tx_cohorts = [], tx_wal = \<lparr>wl_id = replicate 32 0, wl_seq = 1,
        wl_arm = Right, wl_txid = 1, wl_entries = []\<rparr>, tx_wal_saved = False\<rparr>)]"
    "tm_ents s1 = Map.empty" "tm_tls s1 0 = 1"
    using flag_begin by auto
  have "\<exists>s2 x. add_to_trans flag_env list_lhm [7] 1 0 Update EntCow Left s1 = (Ok (), s2) \<and>
      tm_txs s2 = [(1, x)] \<and> keys (tx_cohorts x) = [[7]]"
    by (simp add: add_to_trans_def s1 ok_or_def run_trans_def add_entity_def on_tx_def put_trans_def
        or_insert_def list_lhm_def)
  then obtain s2 x where s2: "add_to_trans flag_env list_lhm [7] 1 0 Update EntCow Left s1 = (Ok (), s2)"
    "tm_txs s2 = [(1, x)]" "keys (tx_cohorts x) = [[7]]" by (elim exE conjE)
  have "tx_reach flag_env unit_ops list_lhm list_lhm s1"
    by (rule reach_step [OF flag_reach]) (rule step_begin [OF s1(1)])
  then have "tx_reach flag_env unit_ops list_lhm list_lhm s2"
    by (rule reach_step) (rule step_add [OF s2(1)])
  from that [OF s1(1) s2 s1(4) this] show ?thesis .
qed

theorem entity_in_one_transaction_witness:
  "\<exists>s x. tx_reach flag_env unit_ops list_lhm list_lhm s \<and> tm_txs s = [(1, x)] \<and> tm_ents s [7] = Some 1"
proof -
  obtain s x where s: "tx_reach flag_env unit_ops list_lhm list_lhm s" "tm_txs s = [(1, x)]"
    "keys (tx_cohorts x) = [[7]]" using flag_run by metis
  have "(1, x) \<in> set (tm_txs s)" "[7] \<in> set (keys (tx_cohorts x))" using s by simp_all
  from entity_in_one_transaction [OF list_tx.tx_system_axioms s(1) this(1,1,2,2)] s show ?thesis by auto
qed


end
