(* ===== verification/Recycle.thy ===== *)
theory Recycle
  imports Reference_Tx Reference_Env
begin

text \<open>
  How the deletions of a retired log (\<open>Wal::recycle\<close> in \<open>src/src/trans/wal.rs\<close>) act on the
  storage when the transaction environment is built on the wal armor of
  \<open>src/src/volume/armor.rs\<close>.
\<close>

definition same_entities :: "('d \<Rightarrow> bool) \<Rightarrow> ('d \<Rightarrow> eid \<rightharpoonup> bytes) \<Rightarrow> ('d \<Rightarrow> nat \<rightharpoonup> bytes) \<Rightarrow>
    'd storage \<Rightarrow> 'd storage \<Rightarrow> bool" where
  "same_entities dinv adr blk s s' \<longleftrightarrow> dinv (sg_depot s') \<and>
     adr (sg_depot s') = adr (sg_depot s) \<and> blk (sg_depot s') = blk (sg_depot s)"

context storage_env
begin

lemma sg_del_wal_same:
  assumes "same_entities inv adr blk s s1"
  shows "\<exists>s2. sg_del_wal E e s1 = (Ok (), s2) \<and> same_entities inv adr blk s s2"
proof -
  have "inv (sg_depot s1)" using assms by (simp add: same_entities_def)
  from depot.del_wal [OF this, of e] assms show ?thesis
    by (auto simp: sg_del_wal_def on_depot_def zoom_def same_entities_def)
qed

lemma eid_hash: "arm_to_eid (crypto_hash (en_sodium E)) ser_arm a e =
    Ok (crypto_hash (en_sodium E) (e @ ser_arm a))"
  by (simp add: arm_to_eid_def eid_from_slice_def assert_r_def crypto_hash_def
      sodium.hash_len EID_SIZE_def HASH_SIZE_def)

lemma recycle_entry_same:
  assumes "same_entities inv adr blk s s1" and "te_wal X = wal_armor E sz ser_arm I"
    and "we_type ent = EntCow"
  shows "\<exists>s2. recycle_entry X ent s1 = (Ok (), s2) \<and> same_entities inv adr blk s s2"
proof (cases "we_action ent = Delete")
  case True
  obtain s2 where 2: "sg_del_wal E (crypto_hash (en_sodium E) (we_id ent @ ser_arm Left)) s1 = (Ok (), s2)"
    and "same_entities inv adr blk s s2" using sg_del_wal_same [OF assms(1)] by blast
  from sg_del_wal_same [OF this(2)] obtain s3
    where "sg_del_wal E (crypto_hash (en_sodium E) (we_id ent @ ser_arm Right)) s2 = (Ok (), s3)"
    and "same_entities inv adr blk s s3" by blast
  with 2 True assms(2,3) show ?thesis
    by (simp add: recycle_entry_def remove_all_arms_def wal_armor_def eid_hash and_then_res_def)
next
  case False
  with assms(1) show ?thesis by (simp add: recycle_entry_def split: action.split)
qed

lemma for_recycle_same:
  assumes "same_entities inv adr blk s s1" and "te_wal X = wal_armor E sz ser_arm I"
    and "\<And>ent. ent \<in> set es \<Longrightarrow> we_type ent = EntCow"
  shows "\<exists>s2. for_s (recycle_entry X) es s1 = (Ok (), s2) \<and> same_entities inv adr blk s s2"
  using assms(1,3)
proof (induction es arbitrary: s1)
  case Nil
  then show ?case by simp
next
  case (Cons ent es)
  from recycle_entry_same [OF Cons.prems(1) assms(2), of ent] Cons.prems(2) obtain s2
    where "recycle_entry X ent s1 = (Ok (), s2)" "same_entities inv adr blk s s2" by auto
  with Cons.IH [of s2] Cons.prems(2) show ?case by simp
qed

end


definition leak_env :: "mem storage tx_env" where
  "leak_env = \<lparr>te_wal = wal_armor mem_env (\<lambda>_. 32) ref_ser_arm
       \<lparr>it_id = wl_id, it_seq = wl_seq, it_inc_seq = (\<lambda>w. w\<lparr>wl_seq := Suc (wl_seq w)\<rparr>),
        it_arm = wl_arm, it_set_arm = (\<lambda>a w. w\<lparr>wl_arm := a\<rparr>), it_ser = (\<lambda>w. Ok (wl_id w)),
        it_deser = (\<lambda>b. Err (Decode []))\<rparr>,
     te_walq = wal_armor mem_env (\<lambda>_. 32) ref_ser_arm
       \<lparr>it_id = wq_id, it_seq = wq_seq, it_inc_seq = (\<lambda>w. w\<lparr>wq_seq := Suc (wq_seq w)\<rparr>),
        it_arm = wq_arm, it_set_arm = (\<lambda>a w. w\<lparr>wq_arm := a\<rparr>), it_ser = (\<lambda>w. Ok (wq_id w)),
        it_deser = (\<lambda>b. Err (Decode []))\<rparr>,
     te_del = sg_del mem_env, te_remove_arm = remove_arm mem_env ref_ser_arm,
     te_remove_all = remove_all mem_env ref_ser_arm, te_flush = sg_flush mem_env,
     te_wmark = (\<lambda>s. blk_wmark (sg_alloc s)), te_set_wmark = (\<lambda>n s. s\<lparr>sg_alloc := \<lparr>blk_wmark = n\<rparr>\<rparr>),
     te_hash = (\<lambda>b k. replicate 32 0), te_entries = list_lhm\<rparr>"

text \<open>A repository that holds the address of the left arm of cow 7, and the log of its deletion.\<close>

definition leak_state :: "mem storage" where
  "leak_state = storage_new (mem_new ''a'', [''a'' \<mapsto> mem_depot_new\<lparr>addr_map :=
     [slot_id mem_env ref_ser_arm Left (replicate 32 7) \<mapsto> [1]]\<rparr>]) 0"

definition leak_wal :: wal where
  "leak_wal = \<lparr>wl_id = [], wl_seq = 0, wl_arm = Left, wl_txid = 1, wl_entries =
     [(replicate 32 7, \<lparr>we_id = replicate 32 7, we_action = Delete, we_type = EntCow, we_arm = Left\<rparr>)]\<rparr>"


end
