(* ===== verification/Entity_Io.thy ===== *)
theory Entity_Io
  imports Volume_Armor
begin

text \<open>
  Entities of \<open>src/src/volume/storage/storage.rs\<close> from end to end. The bytes of an entity are cut
  into frames, encrypted, padded to blocks, written to fresh blocks and found again through the
  stored address; reading undoes all of it, with frames and addresses cached. The invariant
  \<open>ents_ok\<close> ties the storage to the map \<open>M\<close> from entities to their addresses and bytes, and
  every operation is described by its effect on \<open>M\<close>; this theory covers reading.
\<close>

subsection \<open>Frames\<close>

text \<open>The number of plain bytes in a full frame.\<close>

definition frame_cap :: "crypto \<Rightarrow> nat" where
  "frame_cap c = FRAME_SIZE - nonce_size c - ATAG_SIZE"

lemma nonce_small: "nonce_size c \<le> 28"
  by (simp add: nonce_size_def XCHACHA_NONCE_SIZE_def AES_NONCE_SIZE_def split: cipher.splits)

lemma frame_cap_simps:
  "(decrypted_len c FRAME_SIZE :: nat res) = Ok (frame_cap c)" "encrypted_len c (frame_cap c) = FRAME_SIZE"
  "0 < frame_cap c" "frame_cap c \<le> FRAME_SIZE"
  using nonce_small [of c]
  by (simp_all add: decrypted_len_def frame_cap_def sub_r_def encrypted_len_def FRAME_SIZE_def BLKS_PER_FRAME_def
      BLK_SIZE_def ATAG_SIZE_def)

definition enc_blks :: "crypto \<Rightarrow> bytes \<Rightarrow> nat" where
  "enc_blks c p = align_ceil_chunk (encrypted_len c (length p)) BLK_SIZE"

lemma enc_blks_bounds:
  assumes "length p \<le> frame_cap c"
  shows "0 < enc_blks c p" "enc_blks c p \<le> BLKS_PER_FRAME" "encrypted_len c (length p) \<le> enc_blks c p * BLK_SIZE"
    "encrypted_len c (length p) \<le> FRAME_SIZE"
proof -
  let ?n = "encrypted_len c (length p)"
  have n: "0 < ?n" by (simp add: encrypted_len_def ATAG_SIZE_def)
  have b: "BLK_SIZE = 2 ^ 13" by (simp add: BLK_SIZE_def)
  show m: "?n \<le> FRAME_SIZE" using assms frame_cap_simps(2) [of c] by (simp add: encrypted_len_def)
  have e: "enc_blks c p = (?n + 2 ^ 13 - 1) div 2 ^ 13"
    using n by (simp only: enc_blks_def b align_ceil_chunk_eq) simp
  show "0 < enc_blks c p" using n by (simp add: e div_greater_zero_iff)
  have "(?n + 2 ^ 13 - 1) div 2 ^ 13 \<le> (FRAME_SIZE + 2 ^ 13 - 1) div 2 ^ 13"
    using m by (intro div_le_mono) simp
  then show "enc_blks c p \<le> BLKS_PER_FRAME" by (simp add: e FRAME_SIZE_def BLKS_PER_FRAME_def BLK_SIZE_def)
  show "?n \<le> enc_blks c p * BLK_SIZE"
    using n by (simp add: e b)
qed

lemma enc_blks_full: "length p = frame_cap c \<Longrightarrow> enc_blks c p = BLKS_PER_FRAME"
  by (simp add: enc_blks_def frame_cap_simps FRAME_SIZE_def BLKS_PER_FRAME_def BLK_SIZE_def
      align_ceil_chunk_eq [of _ 13, simplified])

text \<open>The blocks \<open>bl\<close> of the block map \<open>m\<close> hold the plain bytes \<open>p\<close>.\<close>

definition frame_holds :: "sodium \<Rightarrow> crypto \<Rightarrow> key \<Rightarrow> (nat \<rightharpoonup> bytes) \<Rightarrow> nat list \<Rightarrow> bytes \<Rightarrow> bool" where
  "frame_holds S c k m bl p \<longleftrightarrow> length bl = enc_blks c p \<and>
     (\<exists>raw. read_blks m bl = Some raw \<and> decrypt_to S c (take (encrypted_len c (length p)) raw) k = Ok p)"

lemma frame_holds_cong:
  "frame_holds S c k m bl p \<Longrightarrow> (\<And>i. i \<in> set bl \<Longrightarrow> m' i = m i) \<Longrightarrow> frame_holds S c k m' bl p"
  using read_blks_cong [of bl m' m] by (simp add: frame_holds_def)

definition enc_total :: "crypto \<Rightarrow> bytes \<Rightarrow> nat" where
  "enc_total c b = sum_list (map (\<lambda>p. encrypted_len c (length p)) (chunks (frame_cap c) b))"

text \<open>The blocks of an address, frame by frame, hold the bytes \<open>b\<close>.\<close>

definition addr_holds :: "sodium \<Rightarrow> crypto \<Rightarrow> key \<Rightarrow> (nat \<rightharpoonup> bytes) \<Rightarrow> addr \<Rightarrow> bytes \<Rightarrow> bool" where
  "addr_holds S c k m a b \<longleftrightarrow> spans_ok (alist a) \<and> alen a = enc_total c b \<and>
     (\<forall>ls \<in> set (alist a). loffset ls \<le> alen a) \<and>
     list_all2 (frame_holds S c k m) (chunks BLKS_PER_FRAME (blocks a)) (chunks (frame_cap c) b)"

lemma addr_holds_cong:
  assumes "addr_holds S c k m a b" and "\<And>i. i \<in> set (blocks a) \<Longrightarrow> m' i = m i"
  shows "addr_holds S c k m' a b"
proof -
  have s: "set x \<subseteq> set (blocks a)" if "x \<in> set (chunks BLKS_PER_FRAME (blocks a))" for x
  proof -
    have "concat (chunks BLKS_PER_FRAME (blocks a)) = blocks a"
      by (rule concat_chunks) (simp add: BLKS_PER_FRAME_def)
    with that show ?thesis by (metis UN_upper set_concat)
  qed
  have "list_all2 (frame_holds S c k m') (chunks BLKS_PER_FRAME (blocks a)) (chunks (frame_cap c) b)"
    using assms(1) unfolding addr_holds_def
    by (elim conjE, elim list.rel_mono_strong) (use s assms(2) frame_holds_cong in blast)
  with assms(1) show ?thesis unfolding addr_holds_def by blast
qed

text \<open>Dividing such an address gives one frame per piece of the bytes.\<close>

lemma chunks_split_last:
  assumes "0 < n" and "xs \<noteq> []"
  obtains cs c where "chunks n xs = cs @ [c]" "\<forall>x \<in> set cs. length x = n" "c \<noteq> []" "length c \<le> n"
    "length xs = length cs * n + length c"
proof -
  have "\<exists>cs c. chunks n xs = cs @ [c] \<and> (\<forall>x \<in> set cs. length x = n) \<and> c \<noteq> [] \<and> length c \<le> n \<and>
      length xs = length cs * n + length c"
    using assms(2)
  proof (induction "length xs" arbitrary: xs rule: less_induct)
    case less
    show ?case
    proof (cases "length xs \<le> n")
      case True
      then show ?thesis using less.prems by (intro exI [of _ "[]"] exI [of _ xs]) (simp add: chunks_small)
    next
      case False
      then have "length (drop n xs) < length xs" "drop n xs \<noteq> []" using assms(1) by auto
      from less.hyps [OF this] obtain cs c where "chunks n (drop n xs) = cs @ [c]" "\<forall>x \<in> set cs. length x = n"
        "c \<noteq> []" "length c \<le> n" "length (drop n xs) = length cs * n + length c" by blast
      then show ?thesis using assms(1) less.prems False
        by (intro exI [of _ "take n xs # cs"] exI [of _ c]) (auto simp: chunks_step)
    qed
  qed
  then show ?thesis using that by blast
qed

lemma chunks_frames:
  assumes "\<forall>x \<in> set fs. full_frame x" and "blocks f \<noteq> []" and "length (blocks f) \<le> BLKS_PER_FRAME"
  shows "chunks BLKS_PER_FRAME (concat (map blocks (fs @ [f]))) = map blocks (fs @ [f])"
  using assms(1)
proof (induction fs)
  case Nil
  then show ?case using assms(2,3) by (simp add: chunks_small)
next
  case (Cons g fs)
  then have "length (blocks g) = BLKS_PER_FRAME" by (simp add: full_frame_def)
  moreover from this have "chunks BLKS_PER_FRAME (blocks g) = [blocks g]"
    by (intro chunks_small) (auto simp: BLKS_PER_FRAME_def)
  ultimately show ?case
    using Cons chunks_append [of BLKS_PER_FRAME "blocks g" "concat (map blocks (fs @ [f]))"]
    by (simp add: BLKS_PER_FRAME_def)
qed

lemma addr_holds_frames:
  assumes h: "addr_holds S c k m a b" and b: "b \<noteq> []"
  obtains ads where "divide_to_frames a = Ok ads" "map blocks ads = chunks BLKS_PER_FRAME (blocks a)"
    "length ads = length (chunks (frame_cap c) b)" "\<forall>f \<in> set ads. key_ok f"
    "\<And>i. i < length ads \<Longrightarrow> alen (ads ! i) = encrypted_len c (length (chunks (frame_cap c) b ! i))"
    "\<And>i. i < length ads \<Longrightarrow> frame_holds S c k m (blocks (ads ! i)) (chunks (frame_cap c) b ! i)"
proof -
  let ?B = BLKS_PER_FRAME let ?bs = "chunks (frame_cap c) b" let ?ls = "chunks ?B (blocks a)"
  have B: "0 < ?B" by (simp add: BLKS_PER_FRAME_def)
  obtain cs p where cs: "?bs = cs @ [p]" "\<forall>x \<in> set cs. length x = frame_cap c" "p \<noteq> []" "length p \<le> frame_cap c"
    using chunks_split_last [OF frame_cap_simps(3) b] by metis
  have sum: "alen a = length cs * FRAME_SIZE + encrypted_len c (length p)"
  proof -
    have "sum_list (map (\<lambda>p. encrypted_len c (length p)) cs) = length cs * FRAME_SIZE"
      using cs(2) by (induction cs) (simp_all add: frame_cap_simps)
    then show ?thesis using h cs(1) by (simp add: addr_holds_def enc_total_def)
  qed
  have l2: "list_all2 (frame_holds S c k m) ?ls ?bs" and sp: "spans_ok (alist a)" using h by (simp_all add: addr_holds_def)
  then have ne: "blocks a \<noteq> []" "length ?ls = Suc (length cs)" using cs(1) list_all2_lengthD by fastforce+
  obtain ds d where ds: "?ls = ds @ [d]" "\<forall>x \<in> set ds. length x = ?B" "d \<noteq> []" "length d \<le> ?B"
    "length (blocks a) = length ds * ?B + length d"
    using chunks_split_last [OF B ne(1)] by metis
  have "(length (blocks a) - 1) div ?B = length ds"
    using ds(3-5) B by (cases d) (auto intro!: div_nat_eqI simp: algebra_simps)
  moreover have "length ds = length cs" using ne(2) ds(1) by simp
  moreover have "alist a \<noteq> []" using ne(1) by (auto simp: blocks_def)
  ultimately have "addr_ok a" using sp sum by (simp add: addr_ok_def)
  from divide_to_frames_cases [OF this] obtain fs f where
    r: "divide_to_frames a = Ok (fs @ [f])" "\<forall>x \<in> set fs. full_frame x" "0 < length (blocks f)"
    "length (blocks f) \<le> ?B" "key_ok f" "concat (map blocks (fs @ [f])) = blocks a"
    "alen f = alen a - length fs * FRAME_SIZE"
    by metis
  have bl: "?ls = map blocks (fs @ [f])" using chunks_frames [OF r(2)] r(3,4,6) by fastforce
  then have len: "length fs = length cs" using ne(2) by simp
  have al: "alen ((fs @ [f]) ! i) = encrypted_len c (length (?bs ! i))" if "i < length (fs @ [f])" for i
  proof (cases "i < length fs")
    case True
    with r(2) cs(2) len show ?thesis unfolding cs(1)
      by (simp add: nth_append full_frame_def frame_cap_simps)
  next
    case False
    with that len r(7) sum show ?thesis unfolding cs(1) by (simp add: nth_append)
  qed
  have fh: "frame_holds S c k m (blocks ((fs @ [f]) ! i)) (?bs ! i)" if "i < length (fs @ [f])" for i
    using list_all2_nthD [OF l2, of i] that unfolding bl by (metis length_map nth_map)
  show ?thesis
    using that [OF r(1) bl [symmetric]] len cs(1) r(2,5) al fh by (auto simp: full_frame_def)
qed

subsection \<open>The invariant\<close>

type_synonym ent_map = "eid \<rightharpoonup> addr \<times> bytes"

text \<open>The bound on the block indices keeps addresses and their serialized form within range.\<close>

definition MAX_BLKS :: nat where "MAX_BLKS = 2 ^ 30"

text \<open>A space of blocks that an address owns below the watermark.\<close>

definition owned :: "nat \<Rightarrow> addr \<Rightarrow> bool" where
  "owned w a \<longleftrightarrow> distinct (blocks a) \<and> (\<forall>i \<in> set (blocks a). i < w)"

definition addr_stored :: "'d st_env \<Rightarrow> ('d \<Rightarrow> eid \<rightharpoonup> bytes) \<Rightarrow> 'd storage \<Rightarrow> eid \<Rightarrow> addr \<Rightarrow> bool" where
  "addr_stored E adr s e a \<longleftrightarrow> (\<exists>c buf. adr (sg_depot s) e = Some c \<and>
     crypto_decrypt (en_sodium E) (sg_crypto s) c (sg_key s) = Ok buf \<and> en_deser E buf = Ok a)"

definition ents_disk ::
  "'d st_env \<Rightarrow> ('d \<Rightarrow> bool) \<Rightarrow> ('d \<Rightarrow> eid \<rightharpoonup> bytes) \<Rightarrow> ('d \<Rightarrow> nat \<rightharpoonup> bytes) \<Rightarrow> ent_map \<Rightarrow> 'd storage \<Rightarrow> bool"
where
  "ents_disk E dinv adr blk M s \<longleftrightarrow> dinv (sg_depot s) \<and> blk_wmark (sg_alloc s) \<le> MAX_BLKS \<and>
     (\<forall>e. M e = None \<longrightarrow> adr (sg_depot s) e = None) \<and>
     (\<forall>e a b. M e = Some (a, b) \<longrightarrow> addr_stored E adr s e a \<and> b \<noteq> [] \<and> owned (blk_wmark (sg_alloc s)) a \<and>
        addr_holds (en_sodium E) (sg_crypto s) (sg_key s) (blk (sg_depot s)) a b) \<and>
     (\<forall>e e' a b a' b'. M e = Some (a, b) \<longrightarrow> M e' = Some (a', b') \<longrightarrow> e \<noteq> e' \<longrightarrow>
        set (blocks a) \<inter> set (blocks a') = {})"

definition frame_of :: "crypto \<Rightarrow> ent_map \<Rightarrow> nat \<Rightarrow> addr \<Rightarrow> bytes \<Rightarrow> bool" where
  "frame_of c M k a p \<longleftrightarrow> (\<exists>e b i. M e = Some (a, b) \<and> i < length (chunks BLKS_PER_FRAME (blocks a)) \<and>
     hd (chunks BLKS_PER_FRAME (blocks a) ! i) = k \<and> chunks (frame_cap c) b ! i = p)"

definition ents_cache :: "ent_map \<Rightarrow> 'd storage \<Rightarrow> bool" where
  "ents_cache M s \<longleftrightarrow> lru_ok frame_meter (sg_frames s) \<and> FRAME_SIZE \<le> capacity (sg_frames s) \<and>
     distinct (keys (lmap (sg_addrs s))) \<and>
     (\<forall>e a. map_of (lmap (sg_addrs s)) e = Some a \<longrightarrow> (\<exists>b. M e = Some (a, b))) \<and>
     (\<forall>k d. map_of (lmap (sg_frames s)) k = Some d \<longrightarrow> k < blk_wmark (sg_alloc s) \<and> length d \<le> FRAME_SIZE \<and>
        (\<forall>a p. frame_of (sg_crypto s) M k a p \<longrightarrow> alen a < FRAME_CACHE_THRESHOLD \<and> d = p))"

definition ents_ok ::
  "'d st_env \<Rightarrow> ('d \<Rightarrow> bool) \<Rightarrow> ('d \<Rightarrow> eid \<rightharpoonup> bytes) \<Rightarrow> ('d \<Rightarrow> nat \<rightharpoonup> bytes) \<Rightarrow> ent_map \<Rightarrow> 'd storage \<Rightarrow> bool"
where
  "ents_ok E dinv adr blk M s \<longleftrightarrow> ents_disk E dinv adr blk M s \<and> ents_cache M s"

lemma ents_cacheD:
  assumes "ents_cache M s"
  shows "lru_ok frame_meter (sg_frames s)" "FRAME_SIZE \<le> capacity (sg_frames s)"
    "distinct (keys (lmap (sg_addrs s)))" "distinct (keys (lmap (sg_frames s)))"
    "map_of (lmap (sg_addrs s)) e = Some a \<Longrightarrow> \<exists>b. M e = Some (a, b)"
    "map_of (lmap (sg_frames s)) k = Some d \<Longrightarrow> k < blk_wmark (sg_alloc s) \<and> length d \<le> FRAME_SIZE"
    "map_of (lmap (sg_frames s)) k = Some d \<Longrightarrow> frame_of (sg_crypto s) M k a p \<Longrightarrow>
       alen a < FRAME_CACHE_THRESHOLD \<and> d = p"
  using assms lru_ok_distinct unfolding ents_cache_def by blast+

lemma ents_okD:
  assumes "ents_ok E dinv adr blk M s"
  shows "ents_disk E dinv adr blk M s" "ents_cache M s" "dinv (sg_depot s)" "blk_wmark (sg_alloc s) \<le> MAX_BLKS"
    "M e = None \<Longrightarrow> adr (sg_depot s) e = None"
    "M e = Some (a, b) \<Longrightarrow> addr_stored E adr s e a \<and> b \<noteq> [] \<and> owned (blk_wmark (sg_alloc s)) a \<and>
        addr_holds (en_sodium E) (sg_crypto s) (sg_key s) (blk (sg_depot s)) a b"
    "M e = Some (a, b) \<Longrightarrow> M e' = Some (a', b') \<Longrightarrow> e \<noteq> e' \<Longrightarrow> set (blocks a) \<inter> set (blocks a') = {}"
  using assms unfolding ents_ok_def ents_disk_def by blast+

lemma hd_chunk:
  assumes "0 < n" and "i < length (chunks n xs)"
  shows "i * n < length xs \<and> hd (chunks n xs ! i) = xs ! (i * n)"
proof -
  have i: "i * n < length xs" using length_chunks_le [OF assms] .
  then have "chunks n xs ! i = take n (drop (i * n) xs)" using nth_chunks [OF assms(1)] by blast
  with i assms(1) show ?thesis by (simp add: hd_drop_conv_nth)
qed

lemma frame_of_in:
  assumes "frame_of c M k a p"
  obtains e b i where "M e = Some (a, b)" "i * BLKS_PER_FRAME < length (blocks a)" "k = blocks a ! (i * BLKS_PER_FRAME)"
    "p = chunks (frame_cap c) b ! i"
proof -
  obtain e b i where "M e = Some (a, b)" "i < length (chunks BLKS_PER_FRAME (blocks a))"
    "hd (chunks BLKS_PER_FRAME (blocks a) ! i) = k" "chunks (frame_cap c) b ! i = p"
    using assms by (auto simp: frame_of_def)
  with hd_chunk [of BLKS_PER_FRAME i "blocks a"] show ?thesis by (intro that) (auto simp: BLKS_PER_FRAME_def)
qed

lemma frame_of_unique:
  assumes ok: "ents_ok E dinv adr blk M s" and f: "frame_of c M k a p" "frame_of c M k a' p'"
  shows "a' = a \<and> p' = p"
proof -
  let ?n = BLKS_PER_FRAME
  obtain e b i where x: "M e = Some (a, b)" "i * ?n < length (blocks a)" "k = blocks a ! (i * ?n)"
    "p = chunks (frame_cap c) b ! i" using frame_of_in [OF f(1)] .
  obtain e' b' j where y: "M e' = Some (a', b')" "j * ?n < length (blocks a')" "k = blocks a' ! (j * ?n)"
    "p' = chunks (frame_cap c) b' ! j" using frame_of_in [OF f(2)] .
  have "k \<in> set (blocks a)" "k \<in> set (blocks a')" using x(2,3) y(2,3) by (metis nth_mem)+
  then have e: "e' = e" using ents_okD(7) [OF ok x(1) y(1)] by blast
  then have ab: "a' = a" "b' = b" using x(1) y(1) by simp_all
  have "distinct (blocks a)" using ents_okD(6) [OF ok x(1)] by (simp add: owned_def)
  then have "i * ?n = j * ?n" using x(2,3) y(2,3) ab by (metis nth_eq_iff_index_eq)
  then show ?thesis using ab x(4) y(4) by (simp add: BLKS_PER_FRAME_def)
qed

lemma frame_of_owned:
  assumes ok: "ents_ok E dinv adr blk M s" and f: "frame_of c M k a p"
  shows "k < blk_wmark (sg_alloc s)"
proof -
  obtain e b i where "M e = Some (a, b)" "i * BLKS_PER_FRAME < length (blocks a)" "k = blocks a ! (i * BLKS_PER_FRAME)"
    using frame_of_in [OF f] .
  then show ?thesis using ents_okD(6) [OF ok] by (metis nth_mem owned_def)
qed

text \<open>Two storages that differ at most in their caches and in the random generator.\<close>

definition same_disk :: "'d storage \<Rightarrow> 'd storage \<Rightarrow> bool" where
  "same_disk s s' \<longleftrightarrow> sg_depot s' = sg_depot s \<and> sg_alloc s' = sg_alloc s \<and> sg_crypto s' = sg_crypto s \<and>
     sg_key s' = sg_key s"

lemma same_disk_simps:
  "same_disk s s" "same_disk s s' \<Longrightarrow> same_disk s' s'' \<Longrightarrow> same_disk s s''"
  by (simp_all add: same_disk_def)

lemma ents_disk_same: "same_disk s s' \<Longrightarrow> ents_disk E dinv adr blk M s' = ents_disk E dinv adr blk M s"
  by (simp add: same_disk_def ents_disk_def addr_stored_def)

lemma ents_cache_cong:
  "lmap (sg_addrs s') = lmap (sg_addrs s) \<Longrightarrow> sg_frames s' = sg_frames s \<Longrightarrow> sg_alloc s' = sg_alloc s \<Longrightarrow>
   sg_crypto s' = sg_crypto s \<Longrightarrow> ents_cache M s' = ents_cache M s"
  by (simp add: ents_cache_def)

lemma ents_ok_same:
  "same_disk s s' \<Longrightarrow> ents_ok E dinv adr blk M s \<Longrightarrow> ents_cache M s' \<Longrightarrow> ents_ok E dinv adr blk M s'"
  using ents_disk_same by (metis ents_ok_def)

lemma frames_total:
  assumes "ents_cache M s" and "blk_wmark (sg_alloc s) \<le> MAX_BLKS"
  shows "total frame_meter (lmap (sg_frames s)) \<le> 2 ^ 47"
proof -
  let ?m = "lmap (sg_frames s)"
  have d: "distinct (keys ?m)" using ents_cacheD(4) [OF assms(1)] .
  have b: "k < MAX_BLKS \<and> length v \<le> FRAME_SIZE" if "(k, v) \<in> set ?m" for k v
  proof -
    have "map_of ?m k = Some v" using that d by simp
    then have "k < blk_wmark (sg_alloc s) \<and> length v \<le> FRAME_SIZE" by (rule ents_cacheD(6) [OF assms(1)])
    with assms(2) show ?thesis by simp
  qed
  have "set (keys ?m) \<subseteq> {..<MAX_BLKS}" using b by auto
  then have l: "length ?m \<le> MAX_BLKS"
    using card_mono [of "{..<MAX_BLKS}" "set (keys ?m)"] distinct_card [OF d] by simp
  have "sum_list (map (frame_meter \<circ> snd) ?m) \<le> sum_list (map (\<lambda>_. int FRAME_SIZE) ?m)"
    using b by (intro sum_list_mono) (auto simp: frame_meter_def)
  also have "\<dots> = int (length ?m) * int FRAME_SIZE" by (simp add: sum_list_triv)
  also have "\<dots> \<le> int MAX_BLKS * int FRAME_SIZE" using l by (intro mult_right_mono) simp_all
  also have "\<dots> = 2 ^ 47" by (simp add: MAX_BLKS_def FRAME_SIZE_def BLKS_PER_FRAME_def BLK_SIZE_def)
  finally show ?thesis by (simp add: total_def)
qed

subsection \<open>Addresses\<close>

context storage_env
begin

abbreviation eok :: "ent_map \<Rightarrow> 'd storage \<Rightarrow> bool" where "eok \<equiv> ents_ok E inv adr blk"

lemma addr_store_ok:
  assumes "ents_cache M s" and "M e = Some (a, b)"
  shows "\<exists>s'. addr_store E e a s = (Ok (), s') \<and> ents_cache M s' \<and> same_disk s s' \<and> sg_frames s' = sg_frames s"
proof -
  let ?c = "snd (lru_insert (en_addrs E) count_meter no_pin (sg_addrs s) e a)"
  have d: "distinct (keys (lmap (sg_addrs s)))" using assms(1) by (simp add: ents_cache_def)
  note look = addrs.lru_insert_lookup [OF d refl, of count_meter no_pin e a]
  have "\<exists>b. M j = Some (x, b)" if "map_of (lmap ?c) j = Some x" for j x
    using look(2) [OF that] assms by (auto simp: ents_cache_def split: if_splits)
  then have "ents_cache M (s\<lparr>sg_addrs := ?c\<rparr>)" using assms(1) look(1) by (simp add: ents_cache_def)
  then show ?thesis by (simp add: addr_store_def same_disk_def)
qed

lemma get_address_ok:
  assumes ok: "eok M s"
  shows "\<exists>s'. get_address E e s = (case M e of None \<Rightarrow> Err NotFound | Some (a, b) \<Rightarrow> Ok a, s') \<and> eok M s' \<and>
    same_disk s s' \<and> sg_frames s' = sg_frames s"
proof -
  let ?s = "s\<lparr>sg_addrs := (sg_addrs s)\<lparr>lmap := lhm_refresh (en_addrs E) (lmap (sg_addrs s)) e\<rparr>\<rparr>"
  have d: "distinct (keys (lmap (sg_addrs s)))" using ok by (simp add: ents_ok_def ents_cache_def)
  have c1: "ents_cache M ?s"
    using ok addrs.map_of_refresh [OF d] addrs.refresh_distinct [OF d] by (simp add: ents_ok_def ents_cache_def)
  have s1: "same_disk s ?s" by (simp add: same_disk_def)
  have inv: "inv (sg_depot s)" using ok by (simp add: ents_ok_def ents_disk_def)
  have look: "addr_lookup E e s = (Ok (map_of (lmap (sg_addrs s)) e), ?s)"
    by (simp add: addr_lookup_def get_refresh_def)
  have dk: "ents_disk E inv adr blk M ?s" using ok ents_disk_same [OF s1] by (simp add: ents_ok_def)
  show ?thesis
  proof (cases "map_of (lmap (sg_addrs s)) e")
    case (Some a)
    then obtain b where "M e = Some (a, b)" using ents_cacheD(5) [OF ents_okD(2) [OF ok]] by blast
    then show ?thesis using Some look c1 dk s1
      by (intro exI [of _ ?s]) (simp add: get_address_def ents_ok_def)
  next
    case None
    have get: "on_depot (\<lambda>d. st_get_address (en_depot E) d e) ?s = (ok_or (adr (sg_depot s) e) NotFound, ?s)"
      using inv by (simp add: on_depot_def zoom_def depot.get_address)
    show ?thesis
    proof (cases "M e")
      case None
      then have "adr (sg_depot s) e = None" using ok by (simp add: ents_ok_def ents_disk_def)
      with None \<open>map_of (lmap (sg_addrs s)) e = None\<close> look get c1 dk s1 show ?thesis
        by (intro exI [of _ ?s]) (simp add: get_address_def ents_ok_def ok_or_def)
    next
      case (Some p)
      then obtain a b where M: "M e = Some (a, b)" by (cases p) simp
      then obtain c buf where st: "adr (sg_depot s) e = Some c"
        "crypto_decrypt (en_sodium E) (sg_crypto s) c (sg_key s) = Ok buf" "en_deser E buf = Ok a"
        using ents_okD(6) [OF ok M] by (auto simp: addr_stored_def)
      obtain s' where s': "addr_store E e a ?s = (Ok (), s')" "ents_cache M s'" "same_disk ?s s'"
        "sg_frames s' = sg_frames ?s"
        using addr_store_ok [OF c1 M] by blast
      have "get_address E e s = (Ok a, s')"
        using None look get st s'(1) by (simp add: get_address_def ok_or_def sg_decrypt_def)
      with M s' dk s1 show ?thesis
        using ents_disk_same [OF s'(3), of E inv adr blk M] same_disk_simps(2) [OF s1 s'(3)]
        by (simp add: ents_ok_def)
    qed
  qed
qed

end

subsection \<open>Reading\<close>

text \<open>A reader of the bytes \<open>b\<close> under the address \<open>a\<close>, at position \<open>p\<close>.\<close>

definition reader_pos :: "'d storage \<Rightarrow> addr \<Rightarrow> bytes \<Rightarrow> nat \<Rightarrow> reader \<Rightarrow> bool" where
  "reader_pos s a b p r \<longleftrightarrow> rd_ent_len r = alen a \<and> divide_to_frames a = Ok (rd_addrs r) \<and>
     rd_dec_size r = frame_cap (sg_crypto s) \<and> rd_read r = p \<and> p \<le> length b \<and>
     (let i = p div frame_cap (sg_crypto s) in
      rd_frm_idx r = (if p < length b then i else length (rd_addrs r)) \<and>
      (p < length b \<longrightarrow> rd_frm_key r = hd (blocks (rd_addrs r ! i))) \<and>
      (rd_dec_frame r \<noteq> [] \<longrightarrow> p < length b \<and> rd_dec_frame r = chunks (frame_cap (sg_crypto s)) b ! i \<and>
         (alen a < FRAME_CACHE_THRESHOLD \<longrightarrow> contains_key (sg_frames s) (rd_frm_key r))))"

lemma reader_pos_cong:
  "reader_pos s a b p r \<Longrightarrow> sg_crypto s' = sg_crypto s \<Longrightarrow>
   (contains_key (sg_frames s) (rd_frm_key r) \<Longrightarrow> contains_key (sg_frames s') (rd_frm_key r)) \<Longrightarrow> reader_pos s' a b p r"
  unfolding reader_pos_def Let_def by auto

context storage_env
begin

lemma read_spans_ok:
  "inv (sg_depot s) \<Longrightarrow> read_blks (blk (sg_depot s)) (concat (map ls_blocks lss)) = Some raw \<Longrightarrow>
   read_spans E lss s = (Ok raw, s)"
proof (induction lss arbitrary: raw)
  case Nil
  then show ?case by simp
next
  case (Cons ls lss)
  then obtain x y where "read_blks (blk (sg_depot s)) (ls_blocks ls) = Some x"
    "read_blks (blk (sg_depot s)) (concat (map ls_blocks lss)) = Some y" "raw = x @ y"
    by (auto simp: read_blks_append split: option.splits)
  with Cons.IH [OF Cons.prems(1)] Cons.prems(1) show ?case
    by (simp add: conv_s_def on_depot_def zoom_def depot.get_blocks ls_blocks_def [of ls] ok_or_def)
qed

lemma load_frame_ok:
  assumes "inv (sg_depot s)" and h: "frame_holds (en_sodium E) (sg_crypto s) (sg_key s) (blk (sg_depot s)) (blocks f) p"
    and l: "alen f = encrypted_len (sg_crypto s) (length p)" "length p \<le> frame_cap (sg_crypto s)"
  shows "load_frame E f s = (Ok p, s)"
proof -
  obtain raw where raw: "read_blks (blk (sg_depot s)) (blocks f) = Some raw"
    "decrypt_to (en_sodium E) (sg_crypto s) (take (alen f) raw) (sg_key s) = Ok p"
    using h l by (auto simp: frame_holds_def)
  have "alen f \<le> FRAME_SIZE" using enc_blks_bounds(4) [OF l(2)] l(1) by simp
  then show ?thesis
    using read_spans_ok [OF assms(1), of "alist f"] raw by (simp add: load_frame_def blocks_def)
qed

lemma reader_new_ok:
  assumes ok: "eok M s" and M: "M e = Some (a, b)"
  shows "\<exists>r s'. reader_new E e s = (Ok r, s') \<and> eok M s' \<and> same_disk s s' \<and> reader_pos s' a b 0 r"
proof -
  obtain s' where s': "get_address E e s = (Ok a, s')" "eok M s'" "same_disk s s'"
    using get_address_ok [OF ok, of e] M by auto
  have b: "b \<noteq> []" and h: "addr_holds (en_sodium E) (sg_crypto s) (sg_key s) (blk (sg_depot s)) a b"
    using ents_okD(6) [OF ok M] by auto
  obtain ads where ads: "divide_to_frames a = Ok ads" "length ads = length (chunks (frame_cap (sg_crypto s)) b)"
    "\<forall>f \<in> set ads. key_ok f"
    using addr_holds_frames [OF h b] by metis
  have l: "0 < length ads" using ads(2) b by (simp add: chunks_step frame_cap_simps)
  then have "key_ok (ads ! 0)" using ads(3) by (metis nth_mem)
  then have "(frame_key (ads ! 0) :: nat res) = Ok (hd (blocks (ads ! 0)))"
    using key_ok_hd [of "ads ! 0"]
    by (cases "alist (ads ! 0)") (auto simp: frame_key_def nth_r_def key_ok_def)
  then show ?thesis
    using s' ads(1) l b
    by (simp add: reader_new_def frame_cap_simps nth_r_def reader_pos_def Let_def same_disk_def)
qed

lemma cache_frame_ok:
  assumes ok: "eok M s" and f: "frame_of (sg_crypto s) M k a p" and len: "length p \<le> FRAME_SIZE"
    and L: "alen a < FRAME_CACHE_THRESHOLD" and new: "\<not> contains_key (sg_frames s) k"
    and s': "s' = s\<lparr>sg_frames := snd (lru_insert (en_frames E) frame_meter no_pin (sg_frames s) k p)\<rparr>"
  shows "eok M s'" and "map_of (lmap (sg_frames s')) k = Some p"
proof -
  let ?fc = "snd (lru_insert (en_frames E) frame_meter no_pin (sg_frames s) k p)"
  note cache = ents_cacheD [OF ents_okD(2) [OF ok]]
  have tot: "total frame_meter (lmap (sg_frames s)) + frame_meter p < 2 ^ 64"
    using frames_total [OF ents_okD(2) [OF ok] ents_okD(4) [OF ok]] len
    by (simp add: frame_meter_def FRAME_SIZE_def BLKS_PER_FRAME_def BLK_SIZE_def)
  have nn: "\<And>v. 0 \<le> frame_meter v" by (simp add: frame_meter_def)
  have lok: "lru_ok frame_meter ?fc" using frames.lru_insert_ok [OF cache(1) nn tot] .
  have "map_of (lmap ?fc) k = Some p"
    using new cache(2) len
    by (intro frames.lru_insert_keeps_new [OF cache(1) nn tot]) (simp_all add: contains_key_def frame_meter_def)
  then show found: "map_of (lmap (sg_frames s')) k = Some p" by (simp add: s')
  note look = frames.lru_insert_lookup [OF cache(4) refl, of frame_meter no_pin k p]
  have cap: "capacity ?fc = capacity (sg_frames s)"
    by (simp add: lru_insert_def Let_def remove_lru_def split: option.split)
  have "j < blk_wmark (sg_alloc s) \<and> length d \<le> FRAME_SIZE \<and>
      (\<forall>a p. frame_of (sg_crypto s) M j a p \<longrightarrow> alen a < FRAME_CACHE_THRESHOLD \<and> d = p)"
    if "map_of (lmap ?fc) j = Some d" for j d
  proof (cases "j = k")
    case True
    then have "d = p" using that found s' by simp
    with True len L frame_of_unique [OF ok f] frame_of_owned [OF ok f] show ?thesis by auto
  next
    case False
    then have "map_of (lmap (sg_frames s)) j = Some d" using look(2) [OF that] by simp
    then show ?thesis using cache(6,7) by blast
  qed
  then have "ents_cache M s'" using lok cap ents_okD(2) [OF ok] by (simp add: ents_cache_def s')
  moreover have "same_disk s s'" by (simp add: s' same_disk_def)
  ultimately show "eok M s'" using ents_ok_same [OF _ ok] by blast
qed

lemma refresh_frame_ok:
  assumes ok: "eok M s"
    and s': "s' = s\<lparr>sg_frames := (sg_frames s)\<lparr>lmap := lhm_refresh (en_frames E) (lmap (sg_frames s)) k\<rparr>\<rparr>"
  shows "eok M s'" and "map_of (lmap (sg_frames s')) = map_of (lmap (sg_frames s))" and "same_disk s s'"
proof -
  note cache = ents_cacheD [OF ents_okD(2) [OF ok]]
  show m: "map_of (lmap (sg_frames s')) = map_of (lmap (sg_frames s))"
    using frames.map_of_refresh [OF cache(4)] by (simp add: s')
  have "ents_cache M s'"
    using m ents_okD(2) [OF ok] frames.get_refresh_ok [OF cache(1), of k]
    by (simp add: ents_cache_def get_refresh_def s')
  moreover show "same_disk s s'" by (simp add: s' same_disk_def)
  ultimately show "eok M s'" using ents_ok_same [OF _ ok] by blast
qed

text \<open>Fetching the frame at the current position, from the back end or from the cache.\<close>

lemma fetch_current_ok:
  assumes ok: "eok M s" and M: "M e = Some (a, b)" and r: "reader_pos s a b p r" and p: "p < length b"
    and i: "i = p div frame_cap (sg_crypto s)"
  shows "\<exists>r1 s1 s2. fetch_frame E r s = (Ok r1, s1) \<and> current_frame E r1 s1 = (Ok (chunks (frame_cap (sg_crypto s)) b ! i), s2) \<and>
    eok M s2 \<and> same_disk s s2 \<and> reader_pos s2 a b p r1"
proof -
  let ?c = "sg_crypto s" let ?D = "frame_cap ?c" let ?k = "rd_frm_key r" let ?L = "alen a < FRAME_CACHE_THRESHOLD"
  let ?p = "chunks ?D b ! i" let ?refresh = "\<lambda>s. s\<lparr>sg_frames := (sg_frames s)\<lparr>lmap := lhm_refresh (en_frames E) (lmap (sg_frames s)) ?k\<rparr>\<rparr>"
  have b: "b \<noteq> []" and h: "addr_holds (en_sodium E) ?c (sg_key s) (blk (sg_depot s)) a b"
    using ents_okD(6) [OF ok M] by auto
  obtain ads where ads: "divide_to_frames a = Ok ads" "map blocks ads = chunks BLKS_PER_FRAME (blocks a)"
    "length ads = length (chunks ?D b)"
    "\<And>i. i < length ads \<Longrightarrow> alen (ads ! i) = encrypted_len ?c (length (chunks ?D b ! i))"
    "\<And>i. i < length ads \<Longrightarrow> frame_holds (en_sodium E) ?c (sg_key s) (blk (sg_depot s)) (blocks (ads ! i)) (chunks ?D b ! i)"
    using addr_holds_frames [OF h b] by metis
  have il: "i < length (chunks ?D b)"
    using nth_chunks [OF frame_cap_simps(3), of i ?c b] p i
    by (metis div_times_less_eq_dividend order_le_less_trans)
  then have pl: "?p \<noteq> []" "length ?p \<le> ?D" "length ?p \<le> FRAME_SIZE"
    using chunks_length [OF frame_cap_simps(3), of ?p ?c b] frame_cap_simps(4) [of ?c] nth_mem [OF il] by auto
  have R: "rd_addrs r = ads" "rd_ent_len r = alen a" "rd_frm_idx r = i" "?k = hd (blocks (ads ! i))"
    using r p i ads(1) by (simp_all add: reader_pos_def Let_def)
  have R5: "rd_dec_frame r \<noteq> [] \<Longrightarrow> rd_dec_frame r = ?p \<and> (?L \<longrightarrow> contains_key (sg_frames s) ?k)"
    using r unfolding reader_pos_def Let_def i by blast
  have fo: "frame_of ?c M ?k a ?p"
    using M il ads(2,3) R(4) unfolding frame_of_def by (metis length_map nth_map)
  consider (load) "rd_dec_frame r = []" "\<not> contains_key (sg_frames s) ?k"
    | (cached) "contains_key (sg_frames s) ?k" | (own) "\<not> ?L" "rd_dec_frame r = ?p" "\<not> contains_key (sg_frames s) ?k"
    using R5 by blast
  then show ?thesis
  proof cases
    case load
    have ld: "load_frame E (ads ! i) s = (Ok ?p, s)"
      using load_frame_ok [OF ents_okD(3) [OF ok]] ads(3-5) il pl(2) by simp
    let ?r = "r\<lparr>rd_dec_frame := ?p\<rparr>"
    show ?thesis
    proof (cases ?L)
      case False
      then have "fetch_frame E r s = (Ok ?r, s)" "current_frame E ?r s = (Ok ?p, s)"
        using load R(1-3) ld il ads(3) by (simp_all add: fetch_frame_def current_frame_def nth_r_def)
      moreover have "reader_pos s a b p ?r" using r False p i by (simp add: reader_pos_def Let_def)
      ultimately show ?thesis using ok same_disk_simps(1) by blast
    next
      case True
      let ?s = "s\<lparr>sg_frames := snd (lru_insert (en_frames E) frame_meter no_pin (sg_frames s) ?k ?p)\<rparr>"
      note c1 = cache_frame_ok [OF ok fo pl(3) True load(2) refl]
      note c2 = refresh_frame_ok [OF c1(1) refl, of ?k]
      have run: "fetch_frame E r s = (Ok ?r, ?s)" "current_frame E ?r ?s = (Ok ?p, ?refresh ?s)"
        using load R(1-3) ld il ads(3) True c1(2)
        by (simp_all add: fetch_frame_def current_frame_def nth_r_def get_refresh_def unwrap_opt_def)
      have "same_disk s (?refresh ?s)" by (simp add: same_disk_def)
      moreover have "contains_key (sg_frames (?refresh ?s)) ?k" using c1(2) c2(2) by (simp add: contains_key_def)
      then have "reader_pos (?refresh ?s) a b p ?r" using r p i by (simp add: reader_pos_def Let_def)
      ultimately show ?thesis using run c2(1) by blast
    qed
  next
    case cached
    then obtain d where d: "map_of (lmap (sg_frames s)) ?k = Some d" by (auto simp: contains_key_def)
    then have L: "?L" "d = ?p" using ents_cacheD(7) [OF ents_okD(2) [OF ok] d fo] by auto
    note c2 = refresh_frame_ok [OF ok refl, of ?k]
    have "fetch_frame E r s = (Ok r, s)" using cached by (simp add: fetch_frame_def)
    moreover have "current_frame E r s = (Ok ?p, ?refresh s)"
      using L R(2) d by (simp add: current_frame_def get_refresh_def unwrap_opt_def)
    moreover have "reader_pos (?refresh s) a b p r"
      using c2(2) by (intro reader_pos_cong [OF r]) (simp_all add: contains_key_def)
    ultimately show ?thesis using c2(1,3) by blast
  next
    case own
    then have "fetch_frame E r s = (Ok r, s)" "current_frame E r s = (Ok ?p, s)"
      using pl(1) R(2) by (simp_all add: fetch_frame_def current_frame_def)
    then show ?thesis using ok r same_disk_simps(1) by blast
  qed
qed

lemma next_frame_ok:
  assumes r: "rd_addrs r = ads" "Suc (rd_frm_idx r) < length ads" and k: "\<forall>f \<in> set ads. key_ok f"
  shows "next_frame r = Ok (r\<lparr>rd_frm_idx := Suc (rd_frm_idx r), rd_dec_frame := [],
    rd_frm_key := hd (blocks (ads ! Suc (rd_frm_idx r)))\<rparr>)"
proof -
  have "key_ok (ads ! Suc (rd_frm_idx r))" using r(2) k by simp
  with key_ok_hd [OF this] r show ?thesis
    by (cases "alist (ads ! Suc (rd_frm_idx r))") (auto simp: next_frame_def Let_def key_ok_def)
qed

lemma chunk_rest:
  assumes "0 < D" and "p < length (b :: bytes)"
  shows "drop (p mod D) (chunks D b ! (p div D)) = take (D - p mod D) (drop p b)"
    and "length (chunks D b ! (p div D)) - p mod D = min (D - p mod D) (length b - p)"
proof -
  let ?i = "p div D"
  have p: "?i * D + p mod D = p" by simp
  then have "?i * D < length b" using assms(2) by linarith
  then have c: "chunks D b ! ?i = take D (drop (?i * D) b)" using nth_chunks [OF assms(1)] by blast
  show d: "drop (p mod D) (chunks D b ! ?i) = take (D - p mod D) (drop p b)"
    unfolding c drop_take drop_drop using p by (simp add: add.commute)
  show "length (chunks D b ! ?i) - p mod D = min (D - p mod D) (length b - p)"
    using arg_cong [OF d, of length] by (simp add: min.commute)
qed

lemma reader_read_ok:
  assumes ok: "eok M s" and M: "M e = Some (a, b)" and r: "reader_pos s a b p r" and n: "0 < n"
  shows "\<exists>x r' s'. reader_read E r n s = (Ok (x, r'), s') \<and> x = take (length x) (drop p b) \<and> length x \<le> n \<and>
    (p < length b \<longrightarrow> x \<noteq> []) \<and> eok M s' \<and> same_disk s s' \<and> reader_pos s' a b (p + length x) r'"
proof (cases "p < length b")
  case False
  then have "reader_read E r n s = (Ok ([], r), s)" using r by (simp add: reader_read_def reader_pos_def Let_def)
  with False ok r same_disk_simps(1) show ?thesis by (intro exI [of _ "[]"] exI [of _ r] exI [of _ s]) simp
next
  case p: True
  let ?D = "frame_cap (sg_crypto s)" let ?i = "p div ?D" let ?d = "chunks ?D b ! ?i"
  have b: "b \<noteq> []" and h: "addr_holds (en_sodium E) (sg_crypto s) (sg_key s) (blk (sg_depot s)) a b"
    using ents_okD(6) [OF ok M] by auto
  obtain ads where ads: "divide_to_frames a = Ok ads" "length ads = length (chunks ?D b)" "\<forall>f \<in> set ads. key_ok f"
    using addr_holds_frames [OF h b] by metis
  obtain r1 s1 s2 where f: "fetch_frame E r s = (Ok r1, s1)" "current_frame E r1 s1 = (Ok ?d, s2)" "eok M s2"
    "same_disk s s2" "reader_pos s2 a b p r1"
    using fetch_current_ok [OF ok M r p refl] by blast
  have c2: "sg_crypto s2 = sg_crypto s" using f(4) by (simp add: same_disk_def)
  have D: "0 < ?D" by (rule frame_cap_simps(3))
  have pm: "p mod ?D < ?D" "?i * ?D + p mod ?D = p" using D by simp_all
  note rest = chunk_rest [OF D p]
  define x where "x = take (min n (length ?d - p mod ?D)) (drop (p mod ?D) ?d)"
  have R: "rd_addrs r1 = ads" "rd_frm_idx r1 = ?i" "rd_read r1 = p" "rd_dec_size r1 = ?D"
    using f(5) p ads(1) by (simp_all add: reader_pos_def c2 Let_def)
  have il: "?i < length ads" using nth_chunks [OF D, of ?i b] p ads(2) pm(2) by linarith
  have len: "length x = min n (min (?D - p mod ?D) (length b - p))" unfolding x_def using rest by simp
  have lt: "p mod ?D < length ?d" using rest(2) p pm(1) by linarith
  have xs: "x = take (length x) (drop p b)"
    unfolding x_def rest(1) using rest(2) by (simp add: min_def)
  have le: "length x \<le> n" using len by simp
  have ne: "x \<noteq> []" using len n p pm(1) by auto
  have out: "(copy_frame_out r1 n ?d :: (bytes \<times> bool) io_res) = Ok (x, length ?d \<le> p mod ?D + length x)"
    using D lt len rest(2) R by (simp add: copy_frame_out_def assert_r_def sub_r_def Let_def x_def min_def)
  have go: "\<not> (length (rd_addrs r) \<le> rd_frm_idx r \<or> n = 0)"
    using r p n il ads(1) by (simp add: reader_pos_def Let_def)
  let ?q = "p + length x" let ?r2 = "r1\<lparr>rd_read := ?q\<rparr>"
  show ?thesis
  proof (cases "length ?d \<le> p mod ?D + length x")
    case False
    have "reader_read E r n s = (Ok (x, ?r2), s2)"
      using go f(1,2) out False R(3) by (simp add: reader_read_def Let_def)
    moreover have "?q < length b" "?q div ?D = ?i"
    proof -
      have "length x < min (?D - p mod ?D) (length b - p)" using False rest(2) lt by linarith
      then have "?q < length b" "p mod ?D + length x < ?D" using pm(1) by linarith+
      moreover have "?q div ?D = ?i"
      proof (rule div_nat_eqI)
        show "?D * ?i \<le> ?q" using pm(2) by (metis le_add1 mult.commute trans_le_add1)
        have "?q < ?i * ?D + ?D" using pm(2) calculation(2) by linarith
        then show "?q < ?D * Suc ?i" by (simp add: mult.commute)
      qed
      ultimately show "?q < length b" "?q div ?D = ?i" by simp_all
    qed
    then have "reader_pos s2 a b ?q ?r2" using f(5) p unfolding reader_pos_def c2 Let_def by (simp; metis)
    ultimately show ?thesis using xs le ne f(3,4) by blast
  next
    case True
    have q: "?q = min ((?i + 1) * ?D) (length b)"
    proof -
      have "length x = min (?D - p mod ?D) (length b - p)" using True rest(2) len lt by linarith
      moreover have "(?i + 1) * ?D = p + (?D - p mod ?D)" using pm add_mult_distrib [of ?i 1 ?D] by linarith
      ultimately show ?thesis using p by linarith
    qed
    show ?thesis
    proof (cases "Suc ?i < length ads")
      case more: True
      then have sl: "Suc ?i * ?D < length b" using length_chunks_le [OF D, of "Suc ?i" b] ads(2) by simp
      then have q': "?q = Suc ?i * ?D" using q by simp
      let ?r3 = "?r2\<lparr>rd_frm_idx := Suc ?i, rd_dec_frame := [], rd_frm_key := hd (blocks (ads ! Suc ?i))\<rparr>"
      have "(next_frame ?r2 :: reader io_res) = Ok ?r3" using next_frame_ok [of ?r2 ads] R more ads(3) by simp
      then have "reader_read E r n s = (Ok (x, ?r3), s2)"
        using go f(1,2) out True R by (simp add: reader_read_def Let_def)
      moreover have "reader_pos s2 a b ?q ?r3"
        using f(5) R ads(1) sl D unfolding reader_pos_def c2 Let_def q' by simp
      ultimately show ?thesis using xs le ne f(3,4) by blast
    next
      case last: False
      have "length b \<le> Suc ?i * ?D" using nth_chunks [OF D, of "Suc ?i" b] ads(2) last by force
      then have q': "?q = length b" using q by simp
      let ?r3 = "?r2\<lparr>rd_frm_idx := Suc ?i, rd_dec_frame := []\<rparr>"
      have "(next_frame ?r2 :: reader io_res) = Ok ?r3" using last R by (simp add: next_frame_def Let_def)
      then have "reader_read E r n s = (Ok (x, ?r3), s2)"
        using go f(1,2) out True R by (simp add: reader_read_def Let_def)
      moreover have "reader_pos s2 a b ?q ?r3"
        using f(5) R ads(1) last il unfolding reader_pos_def c2 Let_def q' by simp
      ultimately show ?thesis using xs le ne f(3,4) by blast
    qed
  qed
qed

lemma read_to_end_ok:
  assumes "eok M s" and M: "M e = Some (a, b)" and "reader_pos s a b p r" and sz: "\<And>i. 0 < sz i"
  shows "\<exists>s'. read_to_end (reader_read E) sz i r s = Some (Ok (drop p b), s') \<and> eok M s' \<and> same_disk s s'"
  using assms(1,3)
proof (induction "length b - p" arbitrary: p r s i rule: less_induct)
  case less
  obtain x r' s' where rd: "reader_read E r (sz i) s = (Ok (x, r'), s')" "x = take (length x) (drop p b)"
    "p < length b \<longrightarrow> x \<noteq> []" "eok M s'" "same_disk s s'" "reader_pos s' a b (p + length x) r'"
    using reader_read_ok [OF less.prems(1) M less.prems(2) sz] by blast
  show ?case
  proof (cases "x = []")
    case True
    then have "drop p b = []" using rd(3) by auto
    with True rd show ?thesis by (simp add: read_to_end.simps [of _ _ _ r])
  next
    case False
    then have "p < length b" using rd(2) by (metis drop_all leI take_Nil)
    then have "length b - (p + length x) < length b - p" using False by (cases x) auto
    from less.hyps [OF this rd(4,6)] obtain t where
      t: "read_to_end (reader_read E) sz (Suc i) r' s' = Some (Ok (drop (p + length x) b), t)" "eok M t" "same_disk s' t"
      by blast
    have "x @ drop (p + length x) b = drop p b"
      using rd(2) by (metis add.commute append_take_drop_id drop_drop)
    with False rd(1,5) t same_disk_simps(2) show ?thesis by (auto simp: read_to_end.simps [of _ _ _ r])
  qed
qed

text \<open>Reading a whole entity.\<close>

lemma vol_slot_read_ok:
  assumes ok: "eok M s" and sz: "\<And>i. 0 < sz i"
  shows "\<exists>s'. vol_slot_read E sz s e = (case M e of None \<Rightarrow> Err NotFound | Some (a, b) \<Rightarrow> Ok b, s') \<and>
    eok M s' \<and> same_disk s s'"
proof (cases "M e")
  case None
  then show ?thesis
    using get_address_ok [OF ok, of e] by (auto simp: vol_slot_read_def reader_new_def)
next
  case (Some p)
  then obtain a b where M: "M e = Some (a, b)" by (cases p) simp
  obtain r s1 where r: "reader_new E e s = (Ok r, s1)" "eok M s1" "same_disk s s1" "reader_pos s1 a b 0 r"
    using reader_new_ok [OF ok M] by blast
  obtain t where "read_to_end (reader_read E) sz 0 r s1 = Some (Ok (drop 0 b), t)" "eok M t" "same_disk s1 t"
    using read_to_end_ok [OF r(2) M r(4), of sz 0] sz by blast
  with r M same_disk_simps(2) show ?thesis
    by (auto simp: vol_slot_read_def read_all_def conv_s_def)
qed

end

end
