(* ===== verification/Entity_Write.thy ===== *)
theory Entity_Write
  imports Entity_Io
begin

text \<open>
  Writing, replacing and deleting entities: frames go to fresh blocks, which no other entity and
  no cached frame refers to, so that the invariant of \<open>Entity_Io\<close> is kept with the entity bound to
  its new bytes.
\<close>

subsection \<open>Writing\<close>

lemma chunks_full:
  assumes "0 < n" and "n dvd length xs" and "x \<in> set (chunks n xs)"
  shows "length x = n"
proof -
  have "xs \<noteq> []" using assms(3) by auto
  then obtain cs c where c: "chunks n xs = cs @ [c]" "\<forall>x \<in> set cs. length x = n" "c \<noteq> []" "length c \<le> n"
    "length xs = length cs * n + length c"
    using chunks_split_last [OF assms(1)] by metis
  then have "n dvd length c" using assms(2) by (simp add: dvd_add_right_iff)
  then have "length c = n" using c(3,4) by (simp add: dvd_imp_le le_antisym)
  with c(1,2) assms(3) show ?thesis by auto
qed

lemma length_concat_const: "(\<And>x. x \<in> set xs \<Longrightarrow> length x = n) \<Longrightarrow> length (concat xs) = length xs * n"
  by (induction xs) auto

lemma addr_holds_append:
  assumes h: "addr_holds S c k m a b" and d: "frame_cap c dvd length b"
    and p: "p \<noteq> []" "length p \<le> frame_cap c" and f: "frame_holds S c k m (span_blocks sp) p"
  shows "addr_holds S c k m (addr_append a sp (encrypted_len c (length p))) (b @ p)"
proof -
  let ?a = "addr_append a sp (encrypted_len c (length p))" let ?D = "frame_cap c" let ?B = BLKS_PER_FRAME
  have D: "0 < ?D" by (rule frame_cap_simps(3))
  have cnt: "sp_cnt sp = enc_blks c p" using f by (simp add: frame_holds_def)
  have l2: "list_all2 (frame_holds S c k m) (chunks ?B (blocks a)) (chunks ?D b)" using h by (simp add: addr_holds_def)
  have full: "length x = ?B" if "x \<in> set (chunks ?B (blocks a))" for x
  proof -
    from that l2 obtain y where "y \<in> set (chunks ?D b)" "frame_holds S c k m x y"
      by (metis in_set_conv_nth list_all2_conv_all_nth)
    then show ?thesis using chunks_full [OF D d] by (simp add: frame_holds_def enc_blks_full)
  qed
  have "length (concat (chunks ?B (blocks a))) = length (chunks ?B (blocks a)) * ?B"
    using full by (intro length_concat_const) blast
  then have "?B dvd length (blocks a)" by (simp add: concat_chunks BLKS_PER_FRAME_def)
  moreover have "span_blocks sp \<noteq> []" "length (span_blocks sp) \<le> ?B"
    using cnt enc_blks_bounds [OF p(2)] by (auto simp flip: length_greater_0_conv)
  ultimately have ch: "chunks ?B (blocks ?a) = chunks ?B (blocks a) @ [span_blocks sp]"
    by (simp add: addr_append_blocks chunks_append chunks_small BLKS_PER_FRAME_def)
  have cp: "chunks ?D (b @ p) = chunks ?D b @ [p]" using D d p by (simp add: chunks_append chunks_small)
  have z: "alen a = 0" if "alist a = []"
  proof -
    have "chunks ?D b = []" using l2 that by (simp add: blocks_def)
    then show ?thesis using h by (simp add: addr_holds_def enc_total_def)
  qed
  have al: "alen ?a = alen a + encrypted_len c (length p)" using z by (simp add: addr_append_def Let_def)
  have sp: "spans_ok (alist ?a)"
    using h cnt enc_blks_bounds(1) [OF p(2)]
    by (auto simp: addr_holds_def addr_append_def Let_def spans_ok_def loc_span_new_def span_new_def
        dest: in_set_butlastD)
  have lo: "\<forall>ls \<in> set (alist ?a). loffset ls \<le> alen ?a"
  proof -
    have o: "loffset ls \<le> alen a + x" if "ls \<in> set (alist a)" for ls x
      using that h unfolding addr_holds_def by (meson trans_le_add1)
    then have "loffset (last (alist a)) \<le> alen a + x" if "alist a \<noteq> []" for x using that by simp
    with o show ?thesis unfolding al
      by (auto simp: addr_append_def Let_def loc_span_new_def dest: in_set_butlastD)
  qed
  show ?thesis
    using sp al lo l2 f h by (simp add: addr_holds_def ch cp enc_total_def list_all2_appendI)
qed

text \<open>
  A writer that has accepted the bytes \<open>b\<close>: the full frames are in fresh blocks, the rest is
  staged.
\<close>

definition fresh_addr :: "ent_map \<Rightarrow> 'd storage \<Rightarrow> addr \<Rightarrow> bool" where
  "fresh_addr M s a \<longleftrightarrow> owned (blk_wmark (sg_alloc s)) a \<and>
     (\<forall>e a' b'. M e = Some (a', b') \<longrightarrow> set (blocks a') \<inter> set (blocks a) = {}) \<and>
     (\<forall>i \<in> set (blocks a). map_of (lmap (sg_frames s)) i = None)"

definition writer_ok ::
  "'d st_env \<Rightarrow> ('d \<Rightarrow> nat \<rightharpoonup> bytes) \<Rightarrow> ent_map \<Rightarrow> 'd storage \<Rightarrow> bytes \<Rightarrow> writer \<Rightarrow> bool"
where
  "writer_ok E blk M s b w \<longleftrightarrow> wt_size w = frame_cap (sg_crypto s) \<and> length (wt_stg w) < frame_cap (sg_crypto s) \<and>
     fresh_addr M s (wt_addr w) \<and> (\<exists>x. b = x @ wt_stg w \<and> frame_cap (sg_crypto s) dvd length x \<and>
       addr_holds (en_sodium E) (sg_crypto s) (sg_key s) (blk (sg_depot s)) (wt_addr w) x)"

definition frame_wr :: "nat \<Rightarrow> 'd storage \<Rightarrow> 'd storage \<Rightarrow> bool" where
  "frame_wr n s s' \<longleftrightarrow> sg_crypto s' = sg_crypto s \<and> sg_key s' = sg_key s \<and>
     blk_wmark (sg_alloc s') = blk_wmark (sg_alloc s) + n"

context storage_env
begin

lemma store_frame_ok:
  assumes ok: "eok M s" and p: "length p \<le> frame_cap (sg_crypto s)"
    and room: "blk_wmark (sg_alloc s) + enc_blks (sg_crypto s) p \<le> MAX_BLKS"
    and sp: "sp = span_new (blk_wmark (sg_alloc s)) (enc_blks (sg_crypto s) p)"
  shows "\<exists>s'. store_frame E p s = (Ok (sp, encrypted_len (sg_crypto s) (length p)), s') \<and> eok M s' \<and>
    frame_wr (enc_blks (sg_crypto s) p) s s' \<and> sg_frames s' = sg_frames s \<and>
    frame_holds (en_sodium E) (sg_crypto s) (sg_key s) (blk (sg_depot s')) (span_blocks sp) p \<and>
    (\<forall>i < blk_wmark (sg_alloc s). blk (sg_depot s') i = blk (sg_depot s) i)"
proof -
  let ?c = "sg_crypto s" let ?S = "en_sodium E" let ?n = "enc_blks ?c p" let ?l = "encrypted_len ?c (length p)"
  let ?w = "blk_wmark (sg_alloc s)"
  have "length p < 2 ^ 36 - 32"
    using p frame_cap_simps(4) [of ?c] by (simp add: FRAME_SIZE_def BLKS_PER_FRAME_def BLK_SIZE_def)
  from sodium.encrypt_decrypt [OF this] obtain ct where ct:
    "crypto_encrypt ?S ?c (sg_draws s) p (sg_key s) = (Ok ct, Suc (sg_draws s))" "length ct = ?l"
    "decrypt_to ?S ?c ct (sg_key s) = Ok p" by blast
  have n: "align_ceil_chunk (length ct) BLK_SIZE = ?n" by (simp add: enc_blks_def ct(2))
  note bd = enc_blks_bounds [OF p]
  define raw where "raw = ct @ so_random ?S (Suc (sg_draws s)) (?n * BLK_SIZE - length ct)"
  have raw: "length raw = bytes_len sp" "take ?l raw = ct"
    using bd(3) ct(2) by (simp_all add: raw_def sp span_new_def bytes_len_def sodium.random_len)
  obtain d where d: "st_put_blocks (en_depot E) (sg_depot s) sp raw = (Ok (), d)" "inv d" "adr d = adr (sg_depot s)"
    "blk d = put_blk_map (blk (sg_depot s)) (span_blocks sp) raw"
    using depot.put_blocks [OF ents_okD(3) [OF ok] raw(1)] by blast
  let ?s = "s\<lparr>sg_draws := Suc (Suc (sg_draws s)), sg_alloc := (sg_alloc s)\<lparr>blk_wmark := ?w + ?n\<rparr>, sg_depot := d\<rparr>"
  have run: "store_frame E p s = (Ok (sp, ?l), ?s)"
    using ct(1,2) d(1) n sp
    by (simp add: store_frame_def sg_encrypt_def Let_def sg_random_def sg_allocate_def allocate_def on_depot_def zoom_def
        raw_def)
  have blks: "span_blocks sp = [?w ..< ?w + ?n]" by (simp add: sp span_blocks_def span_end_def span_new_def)
  have old: "\<forall>i < ?w. blk d i = blk (sg_depot s) i" using d(4) blks by (simp add: put_blk_map_other)
  have "read_blks (blk d) (span_blocks sp) = Some raw"
    using raw(1) unfolding d(4) by (intro read_put_blks) (simp_all add: blks sp span_new_def bytes_len_def)
  then have holds: "frame_holds ?S ?c (sg_key s) (blk d) (span_blocks sp) p"
    using raw(2) ct(3) by (simp add: frame_holds_def blks)
  have disk: "ents_disk E inv adr blk M ?s"
  proof -
    have "addr_stored E adr ?s e a \<and> b \<noteq> [] \<and> owned (?w + ?n) a \<and> addr_holds ?S ?c (sg_key s) (blk d) a b"
      if "M e = Some (a, b)" for e a b
      using ents_okD(6) [OF ok that] old d(3) addr_holds_cong [of ?S ?c "sg_key s" "blk (sg_depot s)" a b "blk d"]
      by (auto simp: addr_stored_def owned_def)
    then show ?thesis
      using d(2,3) room ents_okD(5,7) [OF ok] unfolding ents_disk_def by simp
  qed
  moreover have "ents_cache M ?s"
    using ents_okD(2) [OF ok] unfolding ents_cache_def by (fastforce intro: trans_less_add1)
  ultimately show ?thesis using run holds old
    by (intro exI [of _ ?s]) (simp add: ents_ok_def frame_wr_def)
qed

text \<open>Flushing the staged bytes as one frame.\<close>

lemma write_frame_ok:
  assumes ok: "eok M s" and stg: "wt_stg w \<noteq> []" "length (wt_stg w) \<le> frame_cap (sg_crypto s)"
    and room: "blk_wmark (sg_alloc s) + enc_blks (sg_crypto s) (wt_stg w) \<le> MAX_BLKS"
    and fr: "fresh_addr M s (wt_addr w)" and d: "frame_cap (sg_crypto s) dvd length x"
    and h: "addr_holds (en_sodium E) (sg_crypto s) (sg_key s) (blk (sg_depot s)) (wt_addr w) x"
  shows "\<exists>a s'. write_frame E (w, Some s) = (Ok (), (w\<lparr>wt_addr := a, wt_stg := []\<rparr>, Some s')) \<and> eok M s' \<and>
    frame_wr (enc_blks (sg_crypto s) (wt_stg w)) s s' \<and> fresh_addr M s' a \<and>
    addr_holds (en_sodium E) (sg_crypto s) (sg_key s) (blk (sg_depot s')) a (x @ wt_stg w)"
proof -
  let ?c = "sg_crypto s" let ?w = "blk_wmark (sg_alloc s)" let ?n = "enc_blks ?c (wt_stg w)"
  let ?sp = "span_new ?w ?n" let ?l = "encrypted_len ?c (length (wt_stg w))"
  obtain s' where s': "store_frame E (wt_stg w) s = (Ok (?sp, ?l), s')" "eok M s'" "frame_wr ?n s s'"
    "sg_frames s' = sg_frames s" "frame_holds (en_sodium E) ?c (sg_key s) (blk (sg_depot s')) (span_blocks ?sp) (wt_stg w)"
    "\<forall>i < ?w. blk (sg_depot s') i = blk (sg_depot s) i"
    using store_frame_ok [OF ok stg(2) room refl] by blast
  let ?a = "addr_append (wt_addr w) ?sp ?l"
  have blks: "span_blocks ?sp = [?w ..< ?w + ?n]" by (simp add: span_blocks_def span_end_def span_new_def)
  have "write_frame E (w, Some s) = (Ok (), (w\<lparr>wt_addr := ?a, wt_stg := []\<rparr>, Some s'))"
    using stg(1) s'(1) by (simp add: write_frame_def on_storage_def zoom_def upgraded_def)
  moreover have "addr_holds (en_sodium E) ?c (sg_key s) (blk (sg_depot s')) ?a (x @ wt_stg w)"
  proof (rule addr_holds_append [OF _ d stg s'(5)])
    show "addr_holds (en_sodium E) ?c (sg_key s) (blk (sg_depot s')) (wt_addr w) x"
      using s'(6) fr by (intro addr_holds_cong [OF h]) (simp add: fresh_addr_def owned_def)
  qed
  moreover have "fresh_addr M s' ?a"
  proof -
    have w: "blk_wmark (sg_alloc s') = ?w + ?n" using s'(3) by (simp add: frame_wr_def)
    have "owned (?w + ?n) ?a" using fr by (auto simp: fresh_addr_def owned_def addr_append_blocks blks)
    moreover have "set (blocks a') \<inter> set (blocks ?a) = {}" if "M e = Some (a', b')" for e a' b'
    proof -
      have "\<forall>i \<in> set (blocks a'). i < ?w" using ents_okD(6) [OF ok that] by (simp add: owned_def)
      moreover have "set (blocks a') \<inter> set (blocks (wt_addr w)) = {}" using fr that unfolding fresh_addr_def by blast
      ultimately show ?thesis by (force simp: addr_append_blocks blks)
    qed
    moreover have "map_of (lmap (sg_frames s')) i = None" if "i \<in> set (blocks ?a)" for i
    proof (cases "i < ?w")
      case True
      then have "i \<in> set (blocks (wt_addr w))" using that by (auto simp: addr_append_blocks blks)
      then show ?thesis using fr s'(4) unfolding fresh_addr_def by simp
    next
      case False
      then show ?thesis using ents_cacheD(6) [OF ents_okD(2) [OF ok], of i] s'(4)
        by (cases "map_of (lmap (sg_frames s)) i") auto
    qed
    ultimately show ?thesis using w unfolding fresh_addr_def by auto
  qed
  ultimately show ?thesis using s'(2,3) by blast
qed

lemma writer_write_ok:
  assumes ok: "eok M s" and w: "writer_ok E blk M s b w" and buf: "buf \<noteq> []"
    and n: "n = min (frame_cap (sg_crypto s) - length (wt_stg w)) (length buf)"
    and room: "blk_wmark (sg_alloc s) + BLKS_PER_FRAME * ((length (wt_stg w) + n) div frame_cap (sg_crypto s)) \<le> MAX_BLKS"
  shows "\<exists>w' s'. writer_write E buf (w, Some s) = (Ok n, (w', Some s')) \<and> 0 < n \<and> n \<le> length buf \<and> eok M s' \<and>
    writer_ok E blk M s' (b @ take n buf) w' \<and> wt_id w' = wt_id w \<and>
    length (wt_stg w') = (length (wt_stg w) + n) mod frame_cap (sg_crypto s) \<and>
    frame_wr (BLKS_PER_FRAME * ((length (wt_stg w) + n) div frame_cap (sg_crypto s))) s s'"
proof -
  let ?D = "frame_cap (sg_crypto s)" let ?stg = "wt_stg w @ take n buf"
  obtain x where x: "b = x @ wt_stg w" "?D dvd length x" "wt_size w = ?D" "length (wt_stg w) < ?D"
    "fresh_addr M s (wt_addr w)"
    "addr_holds (en_sodium E) (sg_crypto s) (sg_key s) (blk (sg_depot s)) (wt_addr w) x"
    using w by (auto simp: writer_ok_def)
  have pos: "0 < n" "n \<le> length buf" using n x(4) buf by auto
  have len: "length ?stg = length (wt_stg w) + n" using pos by simp
  let ?w1 = "w\<lparr>wt_stg := ?stg\<rparr>"
  have le: "length ?stg \<le> ?D" using len n x(4) by simp
  have pre: "writer_write E buf (w, Some s) = bind_s (if ?D \<le> length ?stg
      then conv_s map_io_err (write_frame E) else ret_s ()) (\<lambda>_. ret_s n) (?w1, Some s)"
    using x(3,4) n by (simp add: writer_write_def sub_r_def Let_def)
  show ?thesis
  proof (cases "length ?stg = ?D")
    case False
    then have lt: "length ?stg < ?D" using le by simp
    then have "writer_write E buf (w, Some s) = (Ok n, (?w1, Some s))" using pre by simp
    moreover have "writer_ok E blk M s (b @ take n buf) ?w1" using x lt by (auto simp: writer_ok_def)
    ultimately show ?thesis using ok pos lt len
      by (intro exI [of _ ?w1] exI [of _ s]) (simp add: frame_wr_def)
  next
    case True
    have dv: "(length (wt_stg w) + n) div ?D = 1" "(length (wt_stg w) + n) mod ?D = 0"
      using True len frame_cap_simps(3) [of "sg_crypto s"] by simp_all
    have e: "enc_blks (sg_crypto s) (wt_stg ?w1) = BLKS_PER_FRAME" using True by (simp add: enc_blks_full)
    have "wt_stg ?w1 \<noteq> []" using pos by auto
    moreover have "length (wt_stg ?w1) \<le> ?D" using le by simp
    moreover have "blk_wmark (sg_alloc s) + enc_blks (sg_crypto s) (wt_stg ?w1) \<le> MAX_BLKS"
      using room unfolding e dv(1) by simp
    ultimately obtain a s' where f: "write_frame E (?w1, Some s) = (Ok (), (?w1\<lparr>wt_addr := a, wt_stg := []\<rparr>, Some s'))"
      "eok M s'" "frame_wr (enc_blks (sg_crypto s) (wt_stg ?w1)) s s'" "fresh_addr M s' a"
      "addr_holds (en_sodium E) (sg_crypto s) (sg_key s) (blk (sg_depot s')) a (x @ wt_stg ?w1)"
      using write_frame_ok [OF ok, of ?w1 x] x(2,5,6) by auto
    let ?w2 = "?w1\<lparr>wt_addr := a, wt_stg := []\<rparr>"
    have "writer_write E buf (w, Some s) = (Ok n, (?w2, Some s'))" using pre True f(1) by (simp add: conv_s_def)
    moreover have "writer_ok E blk M s' (b @ take n buf) ?w2"
      using f(3-5) x(1,2,3) True frame_cap_simps(3) [of "sg_crypto s"] by (auto simp: writer_ok_def frame_wr_def)
    ultimately show ?thesis
      using f(2,3) pos unfolding e dv by (intro exI [of _ ?w2] exI [of _ s']) simp
  qed
qed

lemma frame_wr_trans: "frame_wr m s s' \<Longrightarrow> frame_wr n s' s'' \<Longrightarrow> frame_wr (m + n) s s''"
  by (simp add: frame_wr_def)

lemma writer_write_all_ok:
  assumes "eok M s" and "writer_ok E blk M s b w"
    and "blk_wmark (sg_alloc s) + BLKS_PER_FRAME * ((length (wt_stg w) + length buf) div frame_cap (sg_crypto s)) \<le> MAX_BLKS"
  shows "\<exists>w' s'. write_all (writer_write E) buf (w, Some s) = (Ok (), (w', Some s')) \<and> eok M s' \<and>
    writer_ok E blk M s' (b @ buf) w' \<and> wt_id w' = wt_id w \<and>
    length (wt_stg w') = (length (wt_stg w) + length buf) mod frame_cap (sg_crypto s) \<and>
    frame_wr (BLKS_PER_FRAME * ((length (wt_stg w) + length buf) div frame_cap (sg_crypto s))) s s'"
  using assms
proof (induction "length buf" arbitrary: buf w s b rule: less_induct)
  case less
  let ?D = "frame_cap (sg_crypto s)"
  show ?case
  proof (cases "buf = []")
    case True
    have "length (wt_stg w) < ?D" using less.prems(2) by (simp add: writer_ok_def)
    then show ?thesis using True less.prems(1,2)
      by (intro exI [of _ w] exI [of _ s]) (simp add: write_all.simps [of _ "[]"] frame_wr_def)
  next
    case False
    define n where "n = min (?D - length (wt_stg w)) (length buf)"
    let ?k = "(length (wt_stg w) + n) div ?D"
    have "n \<le> length buf" by (simp add: n_def)
    then have "?k \<le> (length (wt_stg w) + length buf) div ?D" by (intro div_le_mono) simp
    then have room: "blk_wmark (sg_alloc s) + BLKS_PER_FRAME * ?k \<le> MAX_BLKS"
      using less.prems(3) by (meson add_left_mono le_trans mult_le_mono2)
    obtain w1 s1 where wr: "writer_write E buf (w, Some s) = (Ok n, (w1, Some s1))" "0 < n" "n \<le> length buf" "eok M s1"
      "writer_ok E blk M s1 (b @ take n buf) w1" "wt_id w1 = wt_id w"
      "length (wt_stg w1) = (length (wt_stg w) + n) mod ?D" "frame_wr (BLKS_PER_FRAME * ?k) s s1"
      using writer_write_ok [OF less.prems(1,2) False n_def room] by blast
    have c: "sg_crypto s1 = sg_crypto s" using wr(8) by (simp add: frame_wr_def)
    let ?k' = "(length (wt_stg w1) + length (drop n buf)) div ?D"
    have split: "length (wt_stg w) + length buf = ?k * ?D + (length (wt_stg w1) + length (drop n buf))"
      using wr(3) unfolding wr(7) by simp
    have tot: "(length (wt_stg w) + length buf) div ?D = ?k + ?k'"
      "(length (wt_stg w) + length buf) mod ?D = (length (wt_stg w1) + length (drop n buf)) mod ?D"
      using frame_cap_simps(3) [of "sg_crypto s"] unfolding split by simp_all
    have "blk_wmark (sg_alloc s1) + BLKS_PER_FRAME * ?k' \<le> MAX_BLKS"
      using wr(8) less.prems(3) unfolding tot(1) by (simp add: frame_wr_def algebra_simps)
    then obtain w' s' where rest: "write_all (writer_write E) (drop n buf) (w1, Some s1) = (Ok (), (w', Some s'))" "eok M s'"
      "writer_ok E blk M s' ((b @ take n buf) @ drop n buf) w'" "wt_id w' = wt_id w1"
      "length (wt_stg w') = (length (wt_stg w1) + length (drop n buf)) mod ?D" "frame_wr (BLKS_PER_FRAME * ?k') s1 s'"
      using less.hyps [of "drop n buf" s1 "b @ take n buf" w1] wr(2-5) False unfolding c by auto
    have "write_all (writer_write E) buf (w, Some s) = (Ok (), (w', Some s'))"
      using False wr(1,2) rest(1) by (simp add: write_all.simps [of _ buf])
    moreover have "frame_wr (BLKS_PER_FRAME * (?k + ?k')) s s'"
      using frame_wr_trans [OF wr(8) rest(6)] by (simp add: add_mult_distrib2)
    ultimately show ?thesis using rest wr(6) unfolding tot by (intro exI [of _ w'] exI [of _ s']) simp
  qed
qed

end

subsection \<open>Replacing the address\<close>

lemma addr_holds_fits:
  assumes h: "addr_holds S c k m a b" and o: "owned w a" and w: "w \<le> MAX_BLKS"
  shows "addr_fits a" and "length (alist a) \<le> MAX_BLKS"
proof -
  let ?n = "length (blocks a)"
  have "set (blocks a) \<subseteq> {..<MAX_BLKS}" using o w by (auto simp: owned_def)
  then have n: "?n \<le> MAX_BLKS"
    using card_mono [of "{..<MAX_BLKS}" "set (blocks a)"] distinct_card [of "blocks a"] o by (simp add: owned_def)
  have sp: "\<forall>ls \<in> set (alist a). 0 < sp_cnt (lspan ls)" using h by (simp add: addr_holds_def spans_ok_def)
  have cnt: "?n = sum_list (map (sp_cnt \<circ> lspan) (alist a))" by (simp add: blocks_def length_concat o_def)
  have "sum_list (map (\<lambda>_. 1) (alist a)) \<le> sum_list (map (sp_cnt \<circ> lspan) (alist a))"
    using sp by (intro sum_list_mono) (simp add: Suc_leI)
  then show l: "length (alist a) \<le> MAX_BLKS" using n cnt by (simp add: sum_list_triv)
  have "alen a \<le> length (chunks (frame_cap c) b) * FRAME_SIZE"
  proof -
    have "enc_total c b \<le> sum_list (map (\<lambda>_. FRAME_SIZE) (chunks (frame_cap c) b))"
      unfolding enc_total_def
      using chunks_length [OF frame_cap_simps(3)] enc_blks_bounds(4) by (intro sum_list_mono) blast
    then show ?thesis using h by (simp add: addr_holds_def sum_list_triv)
  qed
  moreover have "length (chunks (frame_cap c) b) = length (chunks BLKS_PER_FRAME (blocks a))"
    using h list_all2_lengthD unfolding addr_holds_def by metis
  moreover have "length (chunks BLKS_PER_FRAME (blocks a)) \<le> ?n"
  proof -
    have "sum_list (map (\<lambda>_. 1) (chunks BLKS_PER_FRAME (blocks a))) \<le> sum_list (map length (chunks BLKS_PER_FRAME (blocks a)))"
      using chunks_length [of BLKS_PER_FRAME _ "blocks a"]
      by (intro sum_list_mono) (auto simp: BLKS_PER_FRAME_def Suc_le_eq)
    also have "\<dots> = ?n" using concat_chunks [of BLKS_PER_FRAME "blocks a"] by (metis BLKS_PER_FRAME_def length_concat zero_less_numeral)
    finally show ?thesis by (simp add: sum_list_triv)
  qed
  ultimately have "alen a \<le> length (chunks (frame_cap c) b) * FRAME_SIZE" "length (chunks (frame_cap c) b) \<le> MAX_BLKS"
    using n by linarith+
  then have "alen a \<le> MAX_BLKS * FRAME_SIZE" by (metis le_trans mult_le_mono1)
  then have al: "alen a < 2 ^ 64" by (simp add: MAX_BLKS_def FRAME_SIZE_def BLKS_PER_FRAME_def BLK_SIZE_def)
  have "sp_begin (lspan ls) < 2 ^ 64 \<and> sp_cnt (lspan ls) < 2 ^ 64 \<and> loffset ls < 2 ^ 64" if ls: "ls \<in> set (alist a)" for ls
  proof -
    have "sp_begin (lspan ls) \<in> set (ls_blocks ls)" using sp ls by (simp add: ls_blocks_def span_blocks_def span_end_def)
    then have "sp_begin (lspan ls) \<in> set (blocks a)" using ls by (auto simp: blocks_def)
    then have "sp_begin (lspan ls) < MAX_BLKS" using o w by (auto simp: owned_def)
    moreover have "sp_cnt (lspan ls) \<le> ?n" unfolding cnt using ls by (intro member_le_sum_list) auto
    moreover have "loffset ls \<le> alen a" using h ls unfolding addr_holds_def by blast
    ultimately show ?thesis using n al by (simp add: MAX_BLKS_def)
  qed
  with al show "addr_fits a" by (simp add: addr_fits_def)
qed

text \<open>
  Between removing the blocks of an entity and storing its new address, everything but this
  entity is in order.
\<close>

definition ents_but ::
  "'d st_env \<Rightarrow> ('d \<Rightarrow> bool) \<Rightarrow> ('d \<Rightarrow> eid \<rightharpoonup> bytes) \<Rightarrow> ('d \<Rightarrow> nat \<rightharpoonup> bytes) \<Rightarrow> eid \<Rightarrow> ent_map \<Rightarrow> 'd storage \<Rightarrow> bool"
where
  "ents_but E dinv adr blk e M s \<longleftrightarrow> ents_disk E dinv (\<lambda>d. (adr d)(e := None)) blk (M(e := None)) s \<and>
     ents_cache (M(e := None)) (s\<lparr>sg_addrs := (sg_addrs s)\<lparr>lmap := others (lmap (sg_addrs s)) e\<rparr>\<rparr>) \<and>
     distinct (keys (lmap (sg_addrs s)))"

lemma frame_of_upd:
  assumes "frame_of c (M(e := x)) k a p"
  shows "frame_of c (M(e := None)) k a p \<or> (\<exists>b. x = Some (a, b) \<and> k \<in> set (blocks a))"
proof -
  obtain j b i where f: "(M(e := x)) j = Some (a, b)" "i < length (chunks BLKS_PER_FRAME (blocks a))"
    "hd (chunks BLKS_PER_FRAME (blocks a) ! i) = k" "chunks (frame_cap c) b ! i = p"
    using assms unfolding frame_of_def by blast
  show ?thesis
  proof (cases "j = e")
    case True
    then show ?thesis using f hd_chunk [OF _ f(2)] by (auto simp: BLKS_PER_FRAME_def)
  next
    case False
    then have "(M(e := None)) j = Some (a, b)" using f(1) by simp
    then show ?thesis using f(2-4) unfolding frame_of_def by blast
  qed
qed

text \<open>The cache of frames with some entries dropped.\<close>

definition frames_sub :: "(nat, bytes) lru \<Rightarrow> (nat, bytes) lru \<Rightarrow> bool" where
  "frames_sub c c' \<longleftrightarrow> lru_ok frame_meter c' \<and> total frame_meter (lmap c') < 2 ^ 64 \<and> capacity c' = capacity c \<and>
     map_of (lmap c') \<subseteq>\<^sub>m map_of (lmap c)"

lemma frames_sub_trans: "frames_sub c c' \<Longrightarrow> frames_sub c' c'' \<Longrightarrow> frames_sub c c''"
  using map_le_trans by (fastforce simp: frames_sub_def)

text \<open>The number of blocks that writing \<open>n\<close> bytes takes at most.\<close>

definition blks_for :: "crypto \<Rightarrow> nat \<Rightarrow> nat" where
  "blks_for c n = BLKS_PER_FRAME * (n div frame_cap c + 1)"

context storage_env
begin

lemma put_address_ok:
  assumes but: "ents_but E inv adr blk e M s" and b: "b \<noteq> []" and fr: "fresh_addr (M(e := None)) s a"
    and h: "addr_holds (en_sodium E) (sg_crypto s) (sg_key s) (blk (sg_depot s)) a b"
  shows "\<exists>s'. put_address E e a s = (Ok (), s') \<and> eok (M(e \<mapsto> (a, b))) s' \<and> frame_wr 0 s s'"
proof -
  let ?M = "M(e := None)" let ?M1 = "M(e \<mapsto> (a, b))" let ?c = "sg_crypto s" let ?S = "en_sodium E"
  have dk: "ents_disk E inv (\<lambda>d. (adr d)(e := None)) blk ?M s" using but by (simp add: ents_but_def)
  have o: "owned (blk_wmark (sg_alloc s)) a" "blk_wmark (sg_alloc s) \<le> MAX_BLKS" "inv (sg_depot s)"
    using fr dk by (simp_all add: fresh_addr_def ents_disk_def)
  note fits = addr_holds_fits [OF h o(1,2)]
  obtain buf where buf: "en_ser E a = Ok buf" "en_deser E buf = Ok a" "length buf \<le> 32 * Suc (length (alist a))"
    using ser_deser [OF fits(1)] by blast
  have "length buf < 2 ^ 36 - 32" using buf(3) fits(2) by (simp add: MAX_BLKS_def)
  from sodium.encrypt_decrypt [OF this] obtain ct where
    ct: "crypto_encrypt ?S ?c (sg_draws s) buf (sg_key s) = (Ok ct, Suc (sg_draws s))"
      "crypto_decrypt ?S ?c ct (sg_key s) = Ok buf" by blast
  obtain d where d: "st_put_address (en_depot E) (sg_depot s) e ct = (Ok (), d)" "inv d"
    "adr d = (adr (sg_depot s))(e \<mapsto> ct)" "blk d = blk (sg_depot s)"
    using depot.put_address [OF o(3)] by blast
  let ?ac = "snd (lru_insert (en_addrs E) count_meter no_pin (sg_addrs s) e a)"
  let ?s = "s\<lparr>sg_draws := Suc (sg_draws s), sg_depot := d, sg_addrs := ?ac\<rparr>"
  have "put_address E e a s = (Ok (), ?s)"
    using buf(1) ct(1) d(1) by (simp add: put_address_def sg_encrypt_def on_depot_def zoom_def addr_store_def)
  moreover have "ents_disk E inv adr blk ?M1 ?s"
  proof -
    have a: "addr_stored E adr ?s j x \<and> y \<noteq> [] \<and> owned (blk_wmark (sg_alloc s)) x \<and>
        addr_holds ?S ?c (sg_key s) (blk d) x y" if "?M1 j = Some (x, y)" for j x y
    proof (cases "j = e")
      case True
      then show ?thesis using that d(3,4) ct(2) buf(2) o(1) h b by (simp add: addr_stored_def)
    next
      case False
      then have "?M j = Some (x, y)" using that by simp
      with dk have "addr_stored E (\<lambda>d. (adr d)(e := None)) s j x \<and> y \<noteq> [] \<and> owned (blk_wmark (sg_alloc s)) x \<and>
          addr_holds ?S ?c (sg_key s) (blk (sg_depot s)) x y" unfolding ents_disk_def by blast
      then show ?thesis using False d(3,4) by (simp add: addr_stored_def)
    qed
    have n: "adr d j = None" if "?M1 j = None" for j
    proof -
      have "j \<noteq> e" "?M j = None" using that by (auto split: if_splits)
      then have "((adr (sg_depot s))(e := None)) j = None" using dk unfolding ents_disk_def by blast
      then show ?thesis using \<open>j \<noteq> e\<close> d(3) by simp
    qed
    have j: "set (blocks x) \<inter> set (blocks x') = {}" if "?M1 i = Some (x, y)" "?M1 j = Some (x', y')" "i \<noteq> j" for i j x y x' y'
    proof -
      note ij = that
      consider "i = e" "?M j = Some (x', y')" "x = a" | "j = e" "?M i = Some (x, y)" "x' = a"
        | "?M i = Some (x, y)" "?M j = Some (x', y')" using ij by (auto split: if_splits)
      then show ?thesis
      proof cases
        case 3
        then show ?thesis using dk ij(3) unfolding ents_disk_def by blast
      qed (use fr in \<open>auto simp: fresh_addr_def\<close>)
    qed
    show ?thesis using a n j o(2) d(2) unfolding ents_disk_def by simp
  qed
  moreover have "ents_cache ?M1 ?s"
  proof -
    have ch: "ents_cache ?M (s\<lparr>sg_addrs := (sg_addrs s)\<lparr>lmap := others (lmap (sg_addrs s)) e\<rparr>\<rparr>)"
      and dist: "distinct (keys (lmap (sg_addrs s)))" using but by (simp_all add: ents_but_def)
    note look = addrs.lru_insert_lookup [OF dist refl, of count_meter no_pin e a]
    have A: "\<exists>y. ?M1 j = Some (x, y)" if "map_of (lmap ?ac) j = Some x" for j x
    proof (cases "j = e")
      case True
      then show ?thesis using look(2) [OF that] by simp
    next
      case False
      then have "map_of (others (lmap (sg_addrs s)) e) j = Some x" using look(2) [OF that] by (simp add: map_of_filter_key)
      then show ?thesis using ents_cacheD(5) [OF ch] False by fastforce
    qed
    have F: "alen x < FRAME_CACHE_THRESHOLD \<and> y = p" if "map_of (lmap (sg_frames s)) k = Some y" "frame_of ?c ?M1 k x p" for k x y p
    proof -
      have "k \<notin> set (blocks a)" using fr that(1) by (auto simp: fresh_addr_def)
      then have "frame_of ?c ?M k x p" using frame_of_upd [OF that(2)] by auto
      then show ?thesis using ents_cacheD(7) [OF ch, of k y] that(1) by simp
    qed
    show ?thesis using A F look(1) ents_cacheD(1,2,6) [OF ch] unfolding ents_cache_def by simp
  qed
  ultimately show ?thesis by (intro exI [of _ ?s]) (simp add: ents_ok_def frame_wr_def)
qed

lemma lru_remove_sub:
  assumes "lru_ok frame_meter c" and "total frame_meter (lmap c) < 2 ^ 64"
  shows "frames_sub c (snd (lru_remove (en_frames E) frame_meter c k))"
proof -
  have nn: "\<And>v. 0 \<le> frame_meter v" by (simp add: frame_meter_def)
  have d: "distinct (keys (lmap c))" using assms(1) by simp
  let ?c = "snd (lru_remove (en_frames E) frame_meter c k)"
  have m: "lmap ?c = lmap c \<or> lmap ?c = others (lmap c) k" "capacity ?c = capacity c"
    using d by (auto simp: lru_remove_def frames.remove_others split: option.splits)
  then have "total frame_meter (lmap ?c) \<le> total frame_meter (lmap c)"
    using total_others_le [OF d, of frame_meter k] nn by auto
  moreover have "map_of (lmap ?c) \<subseteq>\<^sub>m map_of (lmap c)"
    using m(1) by (auto simp: map_le_def map_of_filter_key split: if_splits)
  ultimately show ?thesis
    using frames.lru_remove_ok [OF assms(1) nn assms(2), of k] assms(2) m(2) by (simp add: frames_sub_def)
qed

lemma drop_frames_sub:
  "lru_ok frame_meter c \<Longrightarrow> total frame_meter (lmap c) < 2 ^ 64 \<Longrightarrow>
   frames_sub c (drop_frames (en_frames E) i j n c)"
proof (induction "n - i" arbitrary: i j c rule: less_induct)
  case less
  show ?case
  proof (cases "i < n")
    case False
    then show ?thesis using less.prems by (simp add: drop_frames.simps [of _ i] frames_sub_def)
  next
    case True
    let ?o = "i mod BLKS_PER_FRAME" let ?st = "min (n - i) (BLKS_PER_FRAME - ?o)"
    let ?c = "if ?o = 0 then snd (lru_remove (en_frames E) frame_meter c j) else c"
    have c: "frames_sub c ?c" using lru_remove_sub less.prems by (auto simp: frames_sub_def)
    have "n - (i + ?st) < n - i" using True by (simp add: BLKS_PER_FRAME_def)
    then have "frames_sub ?c (drop_frames (en_frames E) (i + ?st) (j + ?st) n ?c)"
      using c by (intro less.hyps) (simp_all add: frames_sub_def)
    then show ?thesis
      using True frames_sub_trans [OF c] by (subst drop_frames.simps) (simp add: Let_def)
  qed
qed

lemma remove_spans_ok:
  assumes "inv (sg_depot s)" and "lru_ok frame_meter (sg_frames s)" and "total frame_meter (lmap (sg_frames s)) < 2 ^ 64"
  shows "\<exists>s'. remove_spans E i lss s = (Ok (), s') \<and> inv (sg_depot s') \<and> adr (sg_depot s') = adr (sg_depot s) \<and>
    blk (sg_depot s') = blk (sg_depot s) |` (- set (concat (map ls_blocks lss))) \<and>
    frames_sub (sg_frames s) (sg_frames s') \<and> frame_wr 0 s s' \<and> sg_addrs s' = sg_addrs s"
  using assms
proof (induction lss arbitrary: i s)
  case Nil
  then show ?case by (simp add: frames_sub_def frame_wr_def restrict_map_def)
next
  case (Cons ls lss)
  obtain d where d: "st_del_blocks (en_depot E) (sg_depot s) (lspan ls) = (Ok (), d)" "inv d" "adr d = adr (sg_depot s)"
    "blk d = (blk (sg_depot s)) |` (- set (span_blocks (lspan ls)))"
    using depot.del_blocks [OF Cons.prems(1)] by blast
  let ?n = "i + sp_cnt (lspan ls)"
  let ?f = "drop_frames (en_frames E) i (sp_begin (lspan ls)) ?n (sg_frames s)"
  let ?s = "s\<lparr>sg_depot := d, sg_frames := ?f\<rparr>"
  have sub: "frames_sub (sg_frames s) ?f" using drop_frames_sub Cons.prems(2,3) by blast
  then obtain s' where s': "remove_spans E ?n lss ?s = (Ok (), s')" "inv (sg_depot s')" "adr (sg_depot s') = adr d"
    "blk (sg_depot s') = blk d |` (- set (concat (map ls_blocks lss)))" "frames_sub ?f (sg_frames s')"
    "frame_wr 0 ?s s'" "sg_addrs s' = sg_addrs s"
    using Cons.IH [of ?s ?n] d(2) by (auto simp: frames_sub_def)
  have "remove_spans E i (ls # lss) s = (Ok (), s')" using d(1) s'(1) by (simp add: on_depot_def zoom_def)
  moreover have "- set (concat (map ls_blocks (ls # lss))) =
      - set (span_blocks (lspan ls)) \<inter> - set (concat (map ls_blocks lss))" by (auto simp: ls_blocks_def)
  ultimately show ?case
    using s' d(3,4) frames_sub_trans [OF sub s'(5)] by (intro exI [of _ s']) (simp add: frame_wr_def Int_commute)
qed

lemma remove_address_blocks_ok:
  assumes ok: "eok M s" and M: "M e = Some (a, b)"
  shows "\<exists>s'. remove_address_blocks E a s = (Ok (), s') \<and> ents_but E inv adr blk e M s' \<and> frame_wr 0 s s' \<and>
    (\<forall>i. i \<notin> set (blocks a) \<longrightarrow> blk (sg_depot s') i = blk (sg_depot s) i) \<and>
    frames_sub (sg_frames s) (sg_frames s') \<and> adr (sg_depot s') = adr (sg_depot s) \<and> sg_addrs s' = sg_addrs s"
proof -
  let ?M = "M(e := None)"
  note cache = ents_cacheD [OF ents_okD(2) [OF ok]]
  have tot: "total frame_meter (lmap (sg_frames s)) < 2 ^ 64"
    using frames_total [OF ents_okD(2) [OF ok] ents_okD(4) [OF ok]] by simp
  obtain s' where s': "remove_address_blocks E a s = (Ok (), s')" "inv (sg_depot s')" "adr (sg_depot s') = adr (sg_depot s)"
    "blk (sg_depot s') = blk (sg_depot s) |` (- set (blocks a))" "frames_sub (sg_frames s) (sg_frames s')"
    "frame_wr 0 s s'" "sg_addrs s' = sg_addrs s"
    using remove_spans_ok [OF ents_okD(3) [OF ok] cache(1) tot, of 0 "alist a"]
    by (auto simp: remove_address_blocks_def blocks_def)
  have w: "sg_crypto s' = sg_crypto s" "sg_key s' = sg_key s" "blk_wmark (sg_alloc s') = blk_wmark (sg_alloc s)"
    using s'(6) by (simp_all add: frame_wr_def)
  have out: "blk (sg_depot s') i = blk (sg_depot s) i" if "i \<notin> set (blocks a)" for i
    using that s'(4) by (simp add: restrict_map_def)
  have "ents_disk E inv (\<lambda>d. (adr d)(e := None)) blk ?M s'"
  proof -
    have a: "addr_stored E (\<lambda>d. (adr d)(e := None)) s' j x \<and> y \<noteq> [] \<and> owned (blk_wmark (sg_alloc s)) x \<and>
        addr_holds (en_sodium E) (sg_crypto s) (sg_key s) (blk (sg_depot s')) x y" if "?M j = Some (x, y)" for j x y
    proof -
      have j: "j \<noteq> e" "M j = Some (x, y)" using that by (auto split: if_splits)
      have "set (blocks x) \<inter> set (blocks a) = {}" using ents_okD(7) [OF ok j(2) M j(1)] .
      moreover have "addr_holds (en_sodium E) (sg_crypto s) (sg_key s) (blk (sg_depot s)) x y"
        using ents_okD(6) [OF ok j(2)] by blast
      ultimately have "addr_holds (en_sodium E) (sg_crypto s) (sg_key s) (blk (sg_depot s')) x y"
        using addr_holds_cong [of _ _ _ _ x y "blk (sg_depot s')"] out by blast
      then show ?thesis using ents_okD(6) [OF ok j(2)] j(1) s'(3) w by (simp add: addr_stored_def)
    qed
    have n: "((adr (sg_depot s'))(e := None)) j = None" if "?M j = None" for j
      using that ents_okD(5) [OF ok, of j] s'(3) by (simp split: if_splits)
    have j: "set (blocks x) \<inter> set (blocks x') = {}" if "?M i = Some (x, y)" "?M j = Some (x', y')" "i \<noteq> j" for i j x y x' y'
      using that ents_okD(7) [OF ok, of i x y j x' y'] by (simp split: if_splits)
    show ?thesis unfolding ents_disk_def w using s'(2) ents_okD(4) [OF ok] a n j by blast
  qed
  moreover have "ents_cache ?M (s'\<lparr>sg_addrs := (sg_addrs s')\<lparr>lmap := others (lmap (sg_addrs s')) e\<rparr>\<rparr>)"
  proof -
    have sub: "map_of (lmap (sg_frames s)) k = Some d" if "map_of (lmap (sg_frames s')) k = Some d" for k d
      using that s'(5) by (metis domI frames_sub_def map_le_def)
    have A: "\<exists>y. ?M j = Some (x, y)" if "map_of (others (lmap (sg_addrs s)) e) j = Some x" for j x
      using that cache(5) [of j x] by (auto simp: map_of_filter_key split: if_splits)
    have F: "alen x < FRAME_CACHE_THRESHOLD \<and> y = p" if "map_of (lmap (sg_frames s')) k = Some y"
      "frame_of (sg_crypto s) ?M k x p" for k x y p
    proof -
      have "frame_of (sg_crypto s) M k x p" using that(2) unfolding frame_of_def by (metis fun_upd_apply option.discI)
      then show ?thesis using cache(7) sub [OF that(1)] by blast
    qed
    show ?thesis
      using s'(5,7) w A F cache(2,3) cache(6) [OF sub] distinct_keys_filter
      unfolding ents_cache_def frames_sub_def by simp
  qed
  ultimately show ?thesis
    using s' out cache(3) by (intro exI [of _ s']) (simp add: ents_but_def)
qed

lemma ents_but_none:
  assumes ok: "eok M s" and M: "M e = None"
  shows "ents_but E inv adr blk e M s"
proof -
  have Me: "M(e := None) = M" using M by auto
  note cache = ents_cacheD [OF ents_okD(2) [OF ok]]
  have "map_of (lmap (sg_addrs s)) e = None" using cache(5) [of e] M by (cases "map_of (lmap (sg_addrs s)) e") auto
  then have "others (lmap (sg_addrs s)) e = lmap (sg_addrs s)" by (rule filter_key_None)
  moreover have "ents_disk E inv (\<lambda>d. (adr d)(e := None)) blk M s"
  proof -
    have "addr_stored E (\<lambda>d. (adr d)(e := None)) s j x" if "M j = Some (x, y)" for j x y
      using ents_okD(6) [OF ok that] that M by (auto simp: addr_stored_def)
    then show ?thesis using ents_okD(1) [OF ok] unfolding ents_disk_def by simp
  qed
  ultimately show ?thesis using cache(3) ents_okD(2) [OF ok] unfolding ents_but_def Me by simp
qed

text \<open>Storing the address of the bytes written, over the old one if there is one.\<close>

lemma replace_address_ok:
  assumes ok: "eok M s" and b: "b \<noteq> []" and fr: "fresh_addr M s a"
    and h: "addr_holds (en_sodium E) (sg_crypto s) (sg_key s) (blk (sg_depot s)) a b"
  shows "\<exists>s'. replace_address E e a s = (Ok (), s') \<and> eok (M(e \<mapsto> (a, b))) s' \<and> frame_wr 0 s s'"
proof -
  obtain s1 where s1: "get_address E e s = (case M e of None \<Rightarrow> Err NotFound | Some (a, b) \<Rightarrow> Ok a, s1)" "eok M s1"
    "same_disk s s1" "sg_frames s1 = sg_frames s" using get_address_ok [OF ok] by blast
  have sd: "sg_depot s1 = sg_depot s" "sg_alloc s1 = sg_alloc s" "sg_crypto s1 = sg_crypto s" "sg_key s1 = sg_key s"
    using s1(3) by (simp_all add: same_disk_def)
  have sub: "\<exists>y. M j = Some (x, y)" if "(M(e := None)) j = Some (x, z)" for j x z using that by (auto split: if_splits)
  show ?thesis
  proof (cases "M e")
    case None
    have fr1: "fresh_addr (M(e := None)) s1 a" using fr sub s1(4) sd by (auto simp: fresh_addr_def split: if_splits)
    from put_address_ok [OF ents_but_none [OF s1(2) None] b fr1] h sd obtain s' where
      "put_address E e a s1 = (Ok (), s')" "eok (M(e \<mapsto> (a, b))) s'" "frame_wr 0 s1 s'" by metis
    then show ?thesis using s1(1) None sd by (intro exI [of _ s']) (simp add: replace_address_def error_eq_def frame_wr_def)
  next
    case (Some z)
    then obtain a0 b0 where M: "M e = Some (a0, b0)" by (cases z) simp
    obtain s2 where s2: "remove_address_blocks E a0 s1 = (Ok (), s2)" "ents_but E inv adr blk e M s2" "frame_wr 0 s1 s2"
      "\<forall>i. i \<notin> set (blocks a0) \<longrightarrow> blk (sg_depot s2) i = blk (sg_depot s1) i" "frames_sub (sg_frames s1) (sg_frames s2)"
      using remove_address_blocks_ok [OF s1(2) M] by blast
    have w: "sg_crypto s2 = sg_crypto s" "sg_key s2 = sg_key s" "blk_wmark (sg_alloc s2) = blk_wmark (sg_alloc s)"
      using s2(3) sd by (simp_all add: frame_wr_def)
    have dis: "set (blocks a0) \<inter> set (blocks a) = {}" using fr M unfolding fresh_addr_def by blast
    have "map_of (lmap (sg_frames s2)) i = None" if "i \<in> set (blocks a)" for i
    proof -
      have "map_of (lmap (sg_frames s1)) i = None" using fr that s1(4) by (simp add: fresh_addr_def)
      then show ?thesis using s2(5) by (metis domIff frames_sub_def map_le_implies_dom_le subsetD)
    qed
    then have fr2: "fresh_addr (M(e := None)) s2 a" using fr sub w by (auto simp: fresh_addr_def split: if_splits)
    have h2: "addr_holds (en_sodium E) (sg_crypto s2) (sg_key s2) (blk (sg_depot s2)) a b"
      unfolding w using dis s2(4) sd by (intro addr_holds_cong [OF h]) auto
    obtain s' where s': "put_address E e a s2 = (Ok (), s')" "eok (M(e \<mapsto> (a, b))) s'" "frame_wr 0 s2 s'"
      using put_address_ok [OF s2(2) b fr2 h2] by blast
    have "replace_address E e a s = (Ok (), s')" using s1(1) M s2(1) s'(1) by (simp add: replace_address_def)
    then show ?thesis using s'(2,3) w by (intro exI [of _ s']) (simp add: frame_wr_def)
  qed
qed

subsection \<open>Whole entities\<close>

lemma writer_new_ok:
  assumes "eok M s"
  shows "\<exists>w. writer_new e (Some s) = (Ok w, Some s) \<and> writer_ok E blk M s [] w \<and> wt_id w = e \<and> wt_stg w = []"
proof -
  have "owned n addr_default" for n by (simp add: owned_def)
  moreover have "addr_holds S c k m addr_default []" for S c k m
    by (simp add: addr_holds_def addr_default_def spans_ok_def enc_total_def blocks_def)
  ultimately show ?thesis
    by (simp add: writer_new_def upgraded_def frame_cap_simps writer_ok_def fresh_addr_def)
qed

lemma writer_finish_ok:
  assumes ok: "eok M s" and w: "writer_ok E blk M s b w" and b: "b \<noteq> []"
    and room: "blk_wmark (sg_alloc s) + BLKS_PER_FRAME \<le> MAX_BLKS"
  shows "\<exists>a w' s' n. writer_finish E (w, Some s) = (Ok (), (w', Some s')) \<and> eok (M(wt_id w \<mapsto> (a, b))) s' \<and>
    frame_wr n s s' \<and> n \<le> BLKS_PER_FRAME"
proof -
  obtain x where x: "b = x @ wt_stg w" "frame_cap (sg_crypto s) dvd length x" "length (wt_stg w) < frame_cap (sg_crypto s)"
    "fresh_addr M s (wt_addr w)"
    "addr_holds (en_sodium E) (sg_crypto s) (sg_key s) (blk (sg_depot s)) (wt_addr w) x"
    using w by (auto simp: writer_ok_def)
  have le: "length (wt_stg w) \<le> frame_cap (sg_crypto s)" using x(3) by simp
  obtain a w1 s1 n where f: "write_frame E (w, Some s) = (Ok (), (w1, Some s1))" "eok M s1" "frame_wr n s s1"
    "n \<le> BLKS_PER_FRAME" "wt_id w1 = wt_id w" "wt_addr w1 = a" "fresh_addr M s1 a"
    "addr_holds (en_sodium E) (sg_crypto s) (sg_key s) (blk (sg_depot s1)) a b"
  proof (cases "wt_stg w = []")
    case True
    then show ?thesis using that [of w s 0 "wt_addr w"] ok x by (simp add: write_frame_def frame_wr_def)
  next
    case False
    note bd = enc_blks_bounds [OF le]
    have "blk_wmark (sg_alloc s) + enc_blks (sg_crypto s) (wt_stg w) \<le> MAX_BLKS" using bd(2) room by linarith
    from write_frame_ok [OF ok False le this x(4,2,5)] obtain a s1 where
      "write_frame E (w, Some s) = (Ok (), (w\<lparr>wt_addr := a, wt_stg := []\<rparr>, Some s1))" "eok M s1"
      "frame_wr (enc_blks (sg_crypto s) (wt_stg w)) s s1" "fresh_addr M s1 a"
      "addr_holds (en_sodium E) (sg_crypto s) (sg_key s) (blk (sg_depot s1)) a (x @ wt_stg w)" by blast
    then show ?thesis using that [of "w\<lparr>wt_addr := a, wt_stg := []\<rparr>" s1 _ a] x(1) bd(2) by simp
  qed
  have h: "addr_holds (en_sodium E) (sg_crypto s1) (sg_key s1) (blk (sg_depot s1)) a b"
    using f(3,8) by (simp add: frame_wr_def)
  obtain s' where "replace_address E (wt_id w) a s1 = (Ok (), s')" "eok (M(wt_id w \<mapsto> (a, b))) s'" "frame_wr 0 s1 s'"
    using replace_address_ok [OF f(2) b f(7) h] by blast
  moreover have "frame_wr n s s'" using f(3) calculation(3) by (simp add: frame_wr_def)
  ultimately show ?thesis using f(1,4-6)
    by (intro exI [of _ a] exI [of _ w1] exI [of _ s'] exI [of _ n])
      (simp add: writer_finish_def on_storage_def zoom_def upgraded_def)
qed

lemma vol_slot_write_ok:
  assumes ok: "eok M s" and b: "b \<noteq> []"
    and room: "blk_wmark (sg_alloc s) + blks_for (sg_crypto s) (length b) \<le> MAX_BLKS"
  shows "\<exists>a s' n. vol_slot_write E s e b = (Ok (), s') \<and> eok (M(e \<mapsto> (a, b))) s' \<and> frame_wr n s s' \<and>
    n \<le> blks_for (sg_crypto s) (length b)"
proof -
  let ?k = "BLKS_PER_FRAME * (length b div frame_cap (sg_crypto s))"
  obtain w where w: "writer_new e (Some s) = (Ok w, Some s)" "writer_ok E blk M s [] w" "wt_id w = e" "wt_stg w = []"
    using writer_new_ok [OF ok] by blast
  have r1: "blk_wmark (sg_alloc s) + ?k + BLKS_PER_FRAME \<le> MAX_BLKS" using room by (simp add: blks_for_def algebra_simps)
  then obtain w1 s1 where w1: "write_all (writer_write E) b (w, Some s) = (Ok (), (w1, Some s1))" "eok M s1"
    "writer_ok E blk M s1 b w1" "wt_id w1 = e" "frame_wr ?k s s1"
    using writer_write_all_ok [OF ok w(2), of b] w(3,4) by auto
  have "blk_wmark (sg_alloc s1) + BLKS_PER_FRAME \<le> MAX_BLKS" using w1(5) r1 by (simp add: frame_wr_def)
  from writer_finish_ok [OF w1(2,3) b this] obtain a w2 s2 n where
    "writer_finish E (w1, Some s1) = (Ok (), (w2, Some s2))" "eok (M(e \<mapsto> (a, b))) s2" "frame_wr n s1 s2" "n \<le> BLKS_PER_FRAME"
    using w1(4) by auto
  moreover from this frame_wr_trans [OF w1(5)] have "frame_wr (?k + n) s s2" by blast
  ultimately show ?thesis using w(1) w1(1)
    by (intro exI [of _ a] exI [of _ s2] exI [of _ "?k + n"])
      (simp add: vol_slot_write_def conv_s_def io_question_def blks_for_def)
qed

text \<open>Deleting an entity, whether it exists or not.\<close>

lemma sg_del_ok:
  assumes ok: "eok M s"
  shows "\<exists>s'. sg_del E e s = (Ok (), s') \<and> eok (M(e := None)) s' \<and> frame_wr 0 s s'"
proof -
  obtain s1 where s1: "get_address E e s = (case M e of None \<Rightarrow> Err NotFound | Some (a, b) \<Rightarrow> Ok a, s1)" "eok M s1"
    "same_disk s s1" using get_address_ok [OF ok] by blast
  show ?thesis
  proof (cases "M e")
    case None
    then have "M(e := None) = M" by auto
    then show ?thesis using s1 None by (intro exI [of _ s1]) (simp add: sg_del_def error_eq_def same_disk_def frame_wr_def)
  next
    case (Some z)
    then obtain a b where M: "M e = Some (a, b)" by (cases z) simp
    obtain s2 where s2: "remove_address_blocks E a s1 = (Ok (), s2)" "ents_but E inv adr blk e M s2" "frame_wr 0 s1 s2"
      using remove_address_blocks_ok [OF s1(2) M] by blast
    have dk: "ents_disk E inv (\<lambda>d. (adr d)(e := None)) blk (M(e := None)) s2"
      and ch: "ents_cache (M(e := None)) (s2\<lparr>sg_addrs := (sg_addrs s2)\<lparr>lmap := others (lmap (sg_addrs s2)) e\<rparr>\<rparr>)"
      and dist: "distinct (keys (lmap (sg_addrs s2)))" using s2(2) by (simp_all add: ents_but_def)
    have "inv (sg_depot s2)" using dk by (simp add: ents_disk_def)
    from depot.del_address [OF this] obtain d where d: "st_del_address (en_depot E) (sg_depot s2) e = (Ok (), d)" "inv d"
      "adr d = (adr (sg_depot s2))(e := None)" "blk d = blk (sg_depot s2)" by blast
    let ?ac = "snd (lru_remove (en_addrs E) count_meter (sg_addrs s2) e)"
    let ?s = "s2\<lparr>sg_depot := d, sg_addrs := ?ac\<rparr>"
    have ac: "lmap ?ac = others (lmap (sg_addrs s2)) e"
      using dist by (simp add: lru_remove_def addrs.remove_others filter_key_None split: option.split)
    have "sg_del E e s = (Ok (), ?s)"
      using s1(1) M s2(1) d(1) by (simp add: sg_del_def on_depot_def zoom_def addr_forget_def)
    moreover have "ents_disk E inv adr blk (M(e := None)) ?s"
      using dk d(2-4) unfolding ents_disk_def addr_stored_def by simp
    moreover have "ents_cache (M(e := None)) ?s"
      using ac by (intro ents_cache_cong [THEN iffD2, OF _ _ _ _ ch]) simp_all
    ultimately show ?thesis using s1(3) s2(3)
      by (intro exI [of _ ?s]) (simp add: ents_ok_def frame_wr_def same_disk_def)
  qed
qed

end

subsection \<open>Properties\<close>

text \<open>
  C20. Entity round trip: writing the bytes of an entity through encryption, framing, block
  allocation and the address table, over an old version or for the first time, succeeds; reading
  the entity then returns exactly these bytes, and every other entity is still read with the
  bytes it had or still does not exist. Reading ends, whatever the sizes of the buffers.
\<close>

theorem entity_roundtrip:
  assumes "storage_env E dinv wal adr blk" and "ents_ok E dinv adr blk M s" and "b \<noteq> []"
    and "blk_wmark (sg_alloc s) + blks_for (sg_crypto s) (length b) \<le> MAX_BLKS" and "\<forall>i. 0 < sz i"
  shows "\<exists>s' M'. vol_slot_write E s e b = (Ok (), s') \<and> ents_ok E dinv adr blk M' s' \<and>
    fst (vol_slot_read E sz s' e) = Ok b \<and>
    (\<forall>e'. e' \<noteq> e \<longrightarrow> fst (vol_slot_read E sz s' e') = fst (vol_slot_read E sz s e'))"
proof -
  have rd: "\<exists>s'. vol_slot_read E sz s e = (case M e of None \<Rightarrow> Err NotFound | Some (a, b) \<Rightarrow> Ok b, s')"
    if "ents_ok E dinv adr blk M s" for M s e
    using storage_env.vol_slot_read_ok [OF assms(1) that, of sz e] assms(5) by auto
  obtain a s' where w: "vol_slot_write E s e b = (Ok (), s')" "ents_ok E dinv adr blk (M(e \<mapsto> (a, b))) s'"
    using storage_env.vol_slot_write_ok [OF assms(1-4)] by blast
  have "fst (vol_slot_read E sz s' e') = fst (vol_slot_read E sz s e')" if "e' \<noteq> e" for e'
    using rd [OF assms(2), of e'] rd [OF w(2), of e'] that by auto
  moreover have "fst (vol_slot_read E sz s' e) = Ok b" using rd [OF w(2), of e] by auto
  ultimately show ?thesis using w by blast
qed



end
