(* ===== verification/Reference_Entity.thy ===== *)
theory Reference_Entity
  imports Reference_Env Entity_Write
begin

text \<open>The entity layer on the memory back end: concrete instances of its theorems.\<close>

lemma mem_storage0_ok: "ents_ok mem_env mem_inv mem_adr mem_blk Map.empty mem_storage0"
  by (simp add: ents_ok_def ents_disk_def ents_cache_def mem_storage0_def storage_new_def mem_state_inv mem_state_maps
      allocator_new_def lru_new_ok lru_new_def FRAME_CACHE_SIZE_def FRAME_SIZE_def BLKS_PER_FRAME_def BLK_SIZE_def
      lru_ok_def total_def)

lemma mem_room: "length b \<le> 1000 \<Longrightarrow> blk_wmark (sg_alloc mem_storage0) + blks_for (sg_crypto mem_storage0) (length b) \<le> MAX_BLKS"
  using le_trans [OF div_le_dividend [of "length b" "frame_cap crypto_default"]]
  by (simp add: mem_storage0_def storage_new_def allocator_new_def blks_for_def MAX_BLKS_def BLKS_PER_FRAME_def)

theorem entity_roundtrip_witness:
  "\<exists>s'. vol_slot_write mem_env mem_storage0 (replicate 32 5) [1, 2, 3] = (Ok (), s') \<and>
     fst (vol_slot_read mem_env (\<lambda>_. 2) s' (replicate 32 5)) = Ok [1, 2, 3]"
  using entity_roundtrip [OF mem_sg.storage_env_axioms mem_storage0_ok, of "[1, 2, 3]" "\<lambda>_. 2" "replicate 32 5"]
    mem_room [of "[1, 2, 3]"] by auto



end
