(* ===== verification/Chunk.thy ===== *)
theory Chunk
  imports Base_Utils Linked_Hash_Map Ids
begin

text \<open>
  \<open>src/src/content/chunk.rs\<close>: a chunk of a segment with its reference count, and the chunk map
  of a file, which finds the location of a chunk by its hash. Lengths and positions are
  natural numbers; the reference count is a 32 bit word.
\<close>

record chunk =
  ck_pos :: nat
  ck_len :: nat
  ck_refcnt :: refcnt

definition chunk_new :: "nat \<Rightarrow> nat \<Rightarrow> chunk" where
  "chunk_new p n = \<lparr>ck_pos = p, ck_len = n, ck_refcnt = refcnt_new\<rparr>"

text \<open>A failed count leaves the chunk unchanged.\<close>

definition chunk_inc_ref :: "chunk \<Rightarrow> (refcnt \<times> chunk) res" where
  "chunk_inc_ref c = bind_r (inc_ref (ck_refcnt c)) (\<lambda>r. Ok (r, c\<lparr>ck_refcnt := r\<rparr>))"

definition chunk_dec_ref :: "chunk \<Rightarrow> (refcnt \<times> chunk) res" where
  "chunk_dec_ref c = bind_r (dec_ref (ck_refcnt c)) (\<lambda>r. Ok (r, c\<lparr>ck_refcnt := r\<rparr>))"

definition end_pos :: "chunk \<Rightarrow> nat" where
  "end_pos c = ck_pos c + ck_len c"

definition chunk_is_orphan :: "chunk \<Rightarrow> bool" where
  "chunk_is_orphan c = (ck_refcnt c = 0)"

subsection \<open>The chunk map\<close>

type_synonym hash = bytes

record chunk_loc =
  cl_seg_id :: eid
  cl_idx :: nat

record chunk_idx =
  ci_seg_idx :: nat
  ci_chk_idx :: nat

record chunk_map =
  cm_seg_ids :: "eid list"
  cm_map :: "(hash, chunk_idx) lhm"
  cm_enabled :: bool

definition INDEX_MAP_CAPACITY :: nat where
  "INDEX_MAP_CAPACITY = 256"

definition chunk_map_new :: "bool \<Rightarrow> chunk_map" where
  "chunk_map_new en = \<lparr>cm_seg_ids = [], cm_map = [], cm_enabled = en\<rparr>"

definition cm_get_refresh ::
  "(hash, chunk_idx) lhm_ops \<Rightarrow> hash \<Rightarrow> chunk_map \<Rightarrow> chunk_loc option res \<times> chunk_map"
where
  "cm_get_refresh L h m =
     (if \<not> cm_enabled m then (Ok None, m)
      else let m' = m\<lparr>cm_map := lhm_refresh L (cm_map m) h\<rparr> in
        (case map_of (cm_map m) h of
           None \<Rightarrow> (Ok None, m')
         | Some ci \<Rightarrow> (bind_r (nth_r (cm_seg_ids m) (ci_seg_idx ci)) (\<lambda>s.
               Ok (Some \<lparr>cl_seg_id = s, cl_idx = ci_chk_idx ci\<rparr>)), m')))"

text \<open>The index of a segment id, which is appended when it is not there yet.\<close>

definition seg_slot :: "eid \<Rightarrow> eid list \<Rightarrow> nat \<times> eid list" where
  "seg_slot s ids = (case position ((=) s) ids of
     Some i \<Rightarrow> (i, ids) | None \<Rightarrow> (length ids, ids @ [s]))"

definition cm_insert ::
  "(hash, chunk_idx) lhm_ops \<Rightarrow> hash \<Rightarrow> eid \<Rightarrow> nat \<Rightarrow> chunk_map \<Rightarrow> chunk_map"
where
  "cm_insert L h s k m =
     (if \<not> cm_enabled m then m
      else case seg_slot s (cm_seg_ids m) of (i, ids) \<Rightarrow>
        let m1 = lhm_insert L (cm_map m) h \<lparr>ci_seg_idx = i, ci_chk_idx = k\<rparr>;
            m2 = (if INDEX_MAP_CAPACITY \<le> length m1 then lhm_pop_front L m1 else m1)
        in m\<lparr>cm_seg_ids := ids, cm_map := m2\<rparr>)"

definition cm_remove_chunks ::
  "(hash, chunk_idx) lhm_ops \<Rightarrow> eid \<Rightarrow> nat list \<Rightarrow> chunk_map \<Rightarrow> chunk_map"
where
  "cm_remove_chunks L s ks m =
     (if \<not> cm_enabled m then m
      else case position ((=) s) (cm_seg_ids m) of
          None \<Rightarrow> m
        | Some i \<Rightarrow> m\<lparr>cm_map := lhm_retain L
              (\<lambda>_ v. ci_seg_idx v \<noteq> i \<or> ci_chk_idx v \<notin> set ks) (cm_map m)\<rparr>)"

definition cm_remove_segment :: "(hash, chunk_idx) lhm_ops \<Rightarrow> eid \<Rightarrow> chunk_map \<Rightarrow> chunk_map" where
  "cm_remove_segment L s m =
     (if \<not> cm_enabled m then m
      else case position ((=) s) (cm_seg_ids m) of
          None \<Rightarrow> m
        | Some i \<Rightarrow> m\<lparr>cm_map := lhm_retain L (\<lambda>_ v. ci_seg_idx v \<noteq> i) (cm_map m)\<rparr>)"

subsection \<open>What the chunk map finds\<close>

text \<open>
  The abstract view is the partial function from hashes to chunk locations. The map is well
  formed when every entry names a known segment, segment ids are not repeated, and it is
  below its capacity.
\<close>

definition cm_ok :: "chunk_map \<Rightarrow> bool" where
  "cm_ok m \<longleftrightarrow> distinct (keys (cm_map m)) \<and> distinct (cm_seg_ids m) \<and>
     length (cm_map m) < INDEX_MAP_CAPACITY \<and>
     (\<forall>ci \<in> set (lhm_values (cm_map m)). ci_seg_idx ci < length (cm_seg_ids m))"

definition cm_find :: "chunk_map \<Rightarrow> hash \<rightharpoonup> chunk_loc" where
  "cm_find m h = (if cm_enabled m then map_option (\<lambda>ci.
     \<lparr>cl_seg_id = cm_seg_ids m ! ci_seg_idx ci, cl_idx = ci_chk_idx ci\<rparr>) (map_of (cm_map m) h) else None)"

lemma seg_slot_ok:
  assumes "seg_slot s ids = (i, ids')" and "distinct ids"
  shows "i < length ids' \<and> ids' ! i = s \<and> distinct ids' \<and> length ids \<le> length ids' \<and>
    (\<forall>j < length ids. ids' ! j = ids ! j)"
  using assms
  by (auto simp: seg_slot_def position_Some_iff position_None_iff nth_append split: option.splits)

lemma seg_slot_id:
  assumes "position ((=) s) ids = Some i" and "distinct ids" and "j < length ids"
  shows "ids ! j = s \<longleftrightarrow> j = i"
  using assms by (auto simp: position_Some_iff nth_eq_iff_index_eq)

lemma map_of_in_values: "map_of m h = Some v \<Longrightarrow> v \<in> set (lhm_values m)"
  by (force dest: map_of_SomeD)

context linked_hash_map
begin

lemma insert_set:
  assumes d: "distinct (keys m)"
  shows "set (lhm_insert L m k v) = insert (k, v) (set (others m k))"
proof -
  let ?n = "lhm_insert L m k v"
  have n: "(j, w) \<in> set ?n \<longleftrightarrow> map_of ?n j = Some w" for j w
    using insert_distinct [OF d] by simp
  have "(j, w) \<in> set ?n \<longleftrightarrow> (j, w) \<in> insert (k, v) (set (others m k))" for j w
  proof (cases "j = k")
    case True
    then show ?thesis using n insert_self [OF d, of k v] by auto
  next
    case False
    then have "(j, w) \<in> set ?n \<longleftrightarrow> (j, w) \<in> set (others ?n k)" by simp
    with False show ?thesis by (simp add: insert_others [OF d])
  qed
  then show ?thesis by auto
qed

lemma insert_length: "distinct (keys m) \<Longrightarrow> length (lhm_insert L m k v) \<le> Suc (length m)"
proof -
  assume d: "distinct (keys m)"
  have "set (keys (lhm_insert L m k v)) \<subseteq> insert k (set (keys m))"
    using insert_set [OF d] by auto
  then have "card (set (keys (lhm_insert L m k v))) \<le> card (insert k (set (keys m)))"
    by (rule card_mono [rotated]) simp
  also have "\<dots> \<le> Suc (length m)"
    using card_length [of "keys m"] by (simp add: card_insert_if)
  finally show ?thesis using distinct_card [OF insert_distinct [OF d]] by simp
qed

lemma map_of_tl: "distinct (keys m) \<Longrightarrow> map_of (tl m) g = (if m \<noteq> [] \<and> g = fst (hd m) then None else map_of m g)"
  by (cases m) (auto simp: map_of_eq_None_iff)

lemma map_of_retain:
  assumes "distinct (keys m)"
  shows "map_of (lhm_retain L (\<lambda>_. P) m) g =
    (case map_of m g of Some v \<Rightarrow> if P v then Some v else None | None \<Rightarrow> None)"
  using assms unfolding retain_filter [OF assms]
  by (induction m) (auto simp: map_of_eq_None_iff split: option.splits)

lemma refresh_same:
  assumes "distinct (keys m)"
  shows "set (lhm_refresh L m k) = set m" and "length (lhm_refresh L m k) = length m"
proof -
  have d: "distinct (keys (lhm_refresh L m k))" using assms by (rule refresh_distinct)
  show set: "set (lhm_refresh L m k) = set m"
    using map_of_refresh [OF assms, of k] map_of_eq_Some_iff [OF assms] map_of_eq_Some_iff [OF d]
    by (metis subrelI subset_antisym)
  show "length (lhm_refresh L m k) = length m"
    using set d assms by (metis distinct_card distinct_map)
qed

end

text \<open>The ways a chunk map changes, in terms of the lookup.\<close>

locale chunk_index = linked_hash_map L for L :: "(hash, chunk_idx) lhm_ops"
begin

lemma cm_insert_ok:
  assumes "cm_ok m"
  shows "cm_ok (cm_insert L h s k m)"
proof (cases "cm_enabled m")
  case True
  have d: "distinct (keys (cm_map m))" using assms by (simp add: cm_ok_def)
  obtain i ids where sl: "seg_slot s (cm_seg_ids m) = (i, ids)" by fastforce
  have ids: "i < length ids" "distinct ids" "length (cm_seg_ids m) \<le> length ids"
    using seg_slot_ok [OF sl] assms by (simp_all add: cm_ok_def)
  let ?m1 = "lhm_insert L (cm_map m) h \<lparr>ci_seg_idx = i, ci_chk_idx = k\<rparr>"
  have d1: "distinct (keys ?m1)" and n: "length ?m1 \<le> Suc (length (cm_map m))"
    using d by (simp_all add: insert_distinct insert_length)
  have b: "\<forall>ci \<in> set (lhm_values ?m1). ci_seg_idx ci < length ids"
    using assms ids by (auto simp: insert_set [OF d] cm_ok_def)
  then have b': "\<forall>ci \<in> set (lhm_values (tl ?m1)). ci_seg_idx ci < length ids"
    by (cases ?m1) auto
  have "distinct (keys (tl ?m1))" using d1 by (simp add: map_tl distinct_tl)
  with sl ids d1 n b b' assms True show ?thesis
    by (auto simp: cm_insert_def cm_ok_def Let_def pop_front_tl [OF d1] INDEX_MAP_CAPACITY_def)
qed (simp add: cm_insert_def assms)

lemma cm_find_insert:
  assumes ok: "cm_ok m" and en: "cm_enabled m"
  shows "cm_find (cm_insert L h s k m) h = Some \<lparr>cl_seg_id = s, cl_idx = k\<rparr>"
    and "g \<noteq> h \<Longrightarrow> cm_find (cm_insert L h s k m) g = cm_find m g \<or>
       cm_find (cm_insert L h s k m) g = None \<and> Suc (length (cm_map m)) = INDEX_MAP_CAPACITY"
proof -
  have d: "distinct (keys (cm_map m))" using ok by (simp add: cm_ok_def)
  obtain i ids where sl: "seg_slot s (cm_seg_ids m) = (i, ids)" by fastforce
  have ids: "ids ! i = s" "\<And>j. j < length (cm_seg_ids m) \<Longrightarrow> ids ! j = cm_seg_ids m ! j"
    using seg_slot_ok [OF sl] ok by (simp_all add: cm_ok_def)
  let ?v = "\<lparr>ci_seg_idx = i, ci_chk_idx = k\<rparr>"
  let ?m1 = "lhm_insert L (cm_map m) h ?v"
  have d1: "distinct (keys ?m1)" using d by (rule insert_distinct)
  have full: "h \<notin> set (keys (cm_map m)) \<and> Suc (length (cm_map m)) = INDEX_MAP_CAPACITY \<and>
      cm_map m \<noteq> []" if "INDEX_MAP_CAPACITY \<le> length ?m1"
  proof -
    have "length ?m1 = length (cm_map m)" if "h \<in> set (keys (cm_map m))"
    proof -
      have "set (keys ?m1) = set (keys (cm_map m))"
        using that by (auto simp: insert_set [OF d] image_iff)
      with d d1 show ?thesis using distinct_card by (metis length_map)
    qed
    with that ok insert_length [OF d, of h ?v] show ?thesis
      by (fastforce simp: cm_ok_def INDEX_MAP_CAPACITY_def)
  qed
  have hd: "?m1 \<noteq> [] \<and> fst (hd ?m1) \<noteq> h" if "INDEX_MAP_CAPACITY \<le> length ?m1"
    using full [OF that] insert_fresh [OF d, of h ?v] by (cases "cm_map m") auto
  show "cm_find (cm_insert L h s k m) h = Some \<lparr>cl_seg_id = s, cl_idx = k\<rparr>"
    using sl ids en d1 hd by (auto simp: cm_insert_def cm_find_def Let_def map_of_tl pop_front_tl [OF d1]
        map_of_insert [OF d])
  have in_range: "ci_seg_idx v < length (cm_seg_ids m)" if "map_of (cm_map m) g = Some v" for g v
    using map_of_in_values [OF that] ok by (auto simp: cm_ok_def)
  then show "cm_find (cm_insert L h s k m) g = cm_find m g \<or>
       cm_find (cm_insert L h s k m) g = None \<and> Suc (length (cm_map m)) = INDEX_MAP_CAPACITY" if "g \<noteq> h"
    using that sl ids en d1 full
    by (cases "map_of (cm_map m) g") (auto simp: cm_insert_def cm_find_def Let_def map_of_tl
        pop_front_tl [OF d1] map_of_insert [OF d])
qed

lemma retain_ok:
  assumes "cm_ok m"
  shows "cm_ok (m\<lparr>cm_map := lhm_retain L (\<lambda>_. P) (cm_map m)\<rparr>)"
  using assms le_less_trans [OF length_filter_le]
  by (auto simp: cm_ok_def retain_filter distinct_keys_filter)

lemma cm_find_remove_segment:
  assumes "cm_ok m"
  shows "cm_find (cm_remove_segment L s m) g =
    (case cm_find m g of Some l \<Rightarrow> if cl_seg_id l = s then None else Some l | None \<Rightarrow> None)"
proof (cases "cm_enabled m")
  case True
  have v: "ci_seg_idx v < length (cm_seg_ids m)" if "map_of (cm_map m) g = Some v" for v
    using map_of_in_values [OF that] assms by (auto simp: cm_ok_def)
  have d: "distinct (cm_seg_ids m)" and dk: "distinct (keys (cm_map m))"
    using assms by (simp_all add: cm_ok_def)
  show ?thesis
  proof (cases "position ((=) s) (cm_seg_ids m)")
    case None
    then have "s \<notin> set (cm_seg_ids m)" by (auto simp: position_None_iff)
    then have "cm_seg_ids m ! ci_seg_idx v \<noteq> s" if "map_of (cm_map m) g = Some v" for v
      using v [OF that] by auto
    with True None show ?thesis
      by (auto simp: cm_remove_segment_def cm_find_def split: option.splits)
  next
    case (Some i)
    with True v seg_slot_id [OF Some d] show ?thesis
      by (auto simp: cm_remove_segment_def cm_find_def map_of_retain [OF dk] split: option.splits)
  qed
qed (simp add: cm_remove_segment_def cm_find_def)

lemma cm_find_remove_chunks:
  assumes "cm_ok m"
  shows "cm_find (cm_remove_chunks L s ks m) g =
    (case cm_find m g of Some l \<Rightarrow> if cl_seg_id l = s \<and> cl_idx l \<in> set ks then None else Some l
     | None \<Rightarrow> None)"
proof (cases "cm_enabled m")
  case True
  have v: "ci_seg_idx v < length (cm_seg_ids m)" if "map_of (cm_map m) g = Some v" for v
    using map_of_in_values [OF that] assms by (auto simp: cm_ok_def)
  have d: "distinct (cm_seg_ids m)" and dk: "distinct (keys (cm_map m))"
    using assms by (simp_all add: cm_ok_def)
  show ?thesis
  proof (cases "position ((=) s) (cm_seg_ids m)")
    case None
    then have "s \<notin> set (cm_seg_ids m)" by (auto simp: position_None_iff)
    then have "cm_seg_ids m ! ci_seg_idx v \<noteq> s" if "map_of (cm_map m) g = Some v" for v
      using v [OF that] by auto
    with True None show ?thesis
      by (auto simp: cm_remove_chunks_def cm_find_def split: option.splits)
  next
    case (Some i)
    with True v seg_slot_id [OF Some d] show ?thesis
      by (auto simp: cm_remove_chunks_def cm_find_def map_of_retain [OF dk] split: option.splits)
  qed
qed (simp add: cm_remove_chunks_def cm_find_def)

lemma cm_removals_ok:
  assumes "cm_ok m"
  shows "cm_ok (cm_remove_segment L s m)" "cm_ok (cm_remove_chunks L s ks m)"
  using assms by (auto simp: cm_remove_segment_def cm_remove_chunks_def retain_ok split: option.splits)

lemma cm_get_refresh_ok:
  assumes "cm_ok m"
  shows "\<exists>m'. cm_get_refresh L h m = (Ok (cm_find m h), m') \<and> cm_ok m' \<and> cm_find m' = cm_find m"
proof -
  have d: "distinct (keys (cm_map m))" using assms by (simp add: cm_ok_def)
  have v: "ci_seg_idx v < length (cm_seg_ids m)" if "map_of (cm_map m) h = Some v" for v
    using map_of_in_values [OF that] assms by (auto simp: cm_ok_def)
  show ?thesis using assms v d refresh_same [OF d, of h]
    by (auto simp: cm_get_refresh_def Let_def nth_r_def cm_ok_def cm_find_def fun_eq_iff
        map_of_refresh refresh_distinct split: option.splits)
qed

end

interpretation list_chunks: chunk_index list_lhm ..

text \<open>
  C15. The chunk map implements a bounded partial function from chunk hashes to locations:
  looking up never panics and does not change what is found; an inserted chunk is found; other
  chunks are lost only when the map is full; removing a segment, or some chunks of it, removes
  exactly their locations. Every operation keeps the map well formed, below its capacity.
\<close>

theorem chunk_map_refines:
  assumes "linked_hash_map L" and "cm_ok m" and "cm_enabled m"
  shows "(\<exists>m'. cm_get_refresh L h m = (Ok (cm_find m h), m') \<and> cm_ok m' \<and> cm_find m' = cm_find m) \<and>
    cm_ok (cm_insert L h s k m) \<and>
    cm_find (cm_insert L h s k m) h = Some \<lparr>cl_seg_id = s, cl_idx = k\<rparr> \<and>
    (\<forall>g. g \<noteq> h \<longrightarrow> cm_find (cm_insert L h s k m) g = cm_find m g \<or>
       cm_find (cm_insert L h s k m) g = None \<and> Suc (length (cm_map m)) = INDEX_MAP_CAPACITY) \<and>
    cm_ok (cm_remove_segment L s m) \<and> cm_ok (cm_remove_chunks L s ks m) \<and>
    (\<forall>g. cm_find (cm_remove_segment L s m) g = (case cm_find m g of
       Some l \<Rightarrow> if cl_seg_id l = s then None else Some l | None \<Rightarrow> None)) \<and>
    (\<forall>g. cm_find (cm_remove_chunks L s ks m) g = (case cm_find m g of
       Some l \<Rightarrow> if cl_seg_id l = s \<and> cl_idx l \<in> set ks then None else Some l | None \<Rightarrow> None))"
proof -
  have c: "chunk_index L" using assms(1) by (simp add: chunk_index_def)
  note facts = chunk_index.cm_get_refresh_ok [OF c assms(2)] chunk_index.cm_insert_ok [OF c assms(2)]
    chunk_index.cm_find_insert [OF c assms(2,3)] chunk_index.cm_removals_ok [OF c assms(2)]
    chunk_index.cm_find_remove_segment [OF c assms(2)] chunk_index.cm_find_remove_chunks [OF c assms(2)]
  show ?thesis by (intro conjI allI impI facts)
qed

theorem chunk_map_refines_witness:
  "cm_find (cm_insert list_lhm [1] [2] 3 (chunk_map_new True)) [1] = Some \<lparr>cl_seg_id = [2], cl_idx = 3\<rparr>"
proof -
  have "cm_ok (chunk_map_new True)" "cm_enabled (chunk_map_new True)"
    by (simp_all add: cm_ok_def chunk_map_new_def INDEX_MAP_CAPACITY_def)
  from chunk_map_refines [OF list_map.linked_hash_map_axioms this] show ?thesis by blast
qed

end
