(* ===== verification/Segment.thy ===== *)
theory Segment
  imports Chunk Cow Tx_Mgr
begin

text \<open>
  \<open>src/src/content/segment.rs\<close>: segments, the containers of chunks, and their data. A segment
  records the position of every chunk in its data and how many bytes are referenced; when few
  are left it is shrunk into new data.
\<close>

record segment =
  sm_len :: nat
  sm_used :: nat
  sm_data_id :: eid
  sm_chunks :: "chunk list"

definition MAX_CHUNKS :: nat where
  "MAX_CHUNKS = 256"

definition segment_new :: "eid \<Rightarrow> segment" where
  "segment_new e = \<lparr>sm_len = 0, sm_used = 0, sm_data_id = e, sm_chunks = []\<rparr>"

definition chunk_cnt :: "segment \<Rightarrow> nat" where
  "chunk_cnt s = length (sm_chunks s)"

definition is_full :: "segment \<Rightarrow> bool" where
  "is_full s = (MAX_CHUNKS \<le> length (sm_chunks s))"

definition is_orphan :: "segment \<Rightarrow> bool" where
  "is_orphan s = (sm_used s = 0)"

definition is_shrinkable :: "segment \<Rightarrow> bool" where
  "is_shrinkable s = (sm_used s < sm_len s div 4)"

definition append_chunk :: "nat \<Rightarrow> segment \<Rightarrow> segment" where
  "append_chunk n s =
     s\<lparr>sm_chunks := sm_chunks s @ [chunk_new (sm_len s) n], sm_len := sm_len s + n\<rparr>"

text \<open>The chunk at an index, which panics out of range, and a change of it.\<close>

definition chunk_at :: "nat \<Rightarrow> (chunk, error, segment) eff" where
  "chunk_at i = (\<lambda>s. (nth_r (sm_chunks s) i, s))"

definition put_chunk :: "nat \<Rightarrow> chunk \<Rightarrow> (unit, error, segment) eff" where
  "put_chunk i c = modify_s (\<lambda>s. s\<lparr>sm_chunks := (sm_chunks s)[i := c]\<rparr>)"

definition ref_chunk :: "nat \<Rightarrow> (refcnt, error, segment) eff" where
  "ref_chunk i =
     bind_s (chunk_at i) (\<lambda>c.
     bind_s (lift_r (chunk_inc_ref c)) (\<lambda>(r, c').
     bind_s (put_chunk i c') (\<lambda>_.
       if r = 1
       then bind_s (modify_s (\<lambda>s. s\<lparr>sm_used := sm_used s + ck_len c'\<rparr>)) (\<lambda>_.
            bind_s get_s (\<lambda>s. bind_s (assert_s (sm_used s \<le> sm_len s)) (\<lambda>_. ret_s r)))
       else ret_s r)))"

definition ref_chunks :: "nat \<Rightarrow> nat \<Rightarrow> (unit, error, segment) eff" where
  "ref_chunks b e = for_s (\<lambda>i. bind_s (ref_chunk i) (\<lambda>_. ret_s ())) [b..<e]"

definition deref_chunk :: "nat \<Rightarrow> (refcnt, error, segment) eff" where
  "deref_chunk i =
     bind_s (chunk_at i) (\<lambda>c.
     bind_s (lift_r (chunk_dec_ref c)) (\<lambda>(r, c').
     bind_s (put_chunk i c') (\<lambda>_.
       if r = 0
       then bind_s get_s (\<lambda>s.
            bind_s (lift_r (sub_r (sm_used s) (ck_len c'))) (\<lambda>u.
            bind_s (modify_s (\<lambda>s. s\<lparr>sm_used := u\<rparr>)) (\<lambda>_. ret_s r)))
       else ret_s r)))"

definition deref_chunks :: "nat \<Rightarrow> nat \<Rightarrow> (unit, error, segment) eff" where
  "deref_chunks b e = for_s (\<lambda>i. bind_s (deref_chunk i) (\<lambda>_. ret_s ())) [b..<e]"

subsection \<open>Segment data\<close>

record seg_data =
  sd_id :: eid
  sd_action :: "action option"
  sd_data :: bytes

definition segdata_new :: "eid \<Rightarrow> seg_data" where
  "segdata_new e = \<lparr>sd_id = e, sd_action = None, sd_data = []\<rparr>"

text \<open>\<open>&v[a..b]\<close>\<close>

definition slice_r :: "nat \<Rightarrow> nat \<Rightarrow> 'a list \<Rightarrow> ('a list, 'e) result" where
  "slice_r a b xs = (if a \<le> b \<and> b \<le> length xs then Ok (take (b - a) (drop a xs)) else Panic)"

definition segdata_read :: "nat \<Rightarrow> nat \<Rightarrow> seg_data \<Rightarrow> bytes res" where
  "segdata_read n off sd = assert_r (off + n \<le> length (sd_data sd)) (slice_r off (off + n) (sd_data sd))"

definition segdata_in_trans :: "seg_data \<Rightarrow> bool" where
  "segdata_in_trans sd = (sd_action sd \<noteq> None)"

text \<open>The data is written directly and deleted when the log is recycled: a commit only checks.\<close>

definition segdata_commit :: "(unit, error, seg_data \<times> 'v) eff" where
  "segdata_commit = bind_s get_s (\<lambda>(sd, _).
     case sd_action sd of
       Some New \<Rightarrow> ret_s () | Some Delete \<Rightarrow> ret_s ()
     | Some Update \<Rightarrow> lift_r Panic | None \<Rightarrow> lift_r Panic)"

definition segdata_transable :: "(seg_data, 'v) transable_ops" where
  "segdata_transable = \<lparr>tr_action = (\<lambda>sd. unwrap_opt (sd_action sd)), tr_id = sd_id,
     tr_commit = segdata_commit, tr_complete_commit = (\<lambda>sd. Ok (sd\<lparr>sd_action := None\<rparr>)),
     tr_abort = (\<lambda>sd. Ok (sd\<lparr>sd_action := None\<rparr>))\<rparr>"

definition segdata_meter :: "seg_data \<Rightarrow> int" where
  "segdata_meter sd = int (length (sd_data sd))"

text \<open>
  The loop of \<open>Segment::shrink\<close>: the bytes of referenced chunks are gathered in \<open>buf\<close> and the
  chunks moved there; the indices of the others are returned as retired.
\<close>

fun reposition :: "bytes \<Rightarrow> nat \<Rightarrow> chunk list \<Rightarrow> bytes \<Rightarrow> (bytes \<times> chunk list \<times> nat list) res" where
  "reposition data idx [] buf = Ok (buf, [], [])"
| "reposition data idx (c # cs) buf =
     (if chunk_is_orphan c
      then bind_r (reposition data (Suc idx) cs buf) (\<lambda>(b, cs', ret). Ok (b, c # cs', idx # ret))
      else bind_r (slice_r (ck_pos c) (end_pos c) data) (\<lambda>x.
           bind_r (sub_r (length (buf @ x)) (ck_len c)) (\<lambda>p.
           bind_r (reposition data (Suc idx) cs (buf @ x)) (\<lambda>(b, cs', ret).
             Ok (b, c\<lparr>ck_pos := p\<rparr> # cs', ret)))))"

subsection \<open>The counter of used bytes\<close>

text \<open>
  The well-formedness of a segment is relative to the set \<open>V\<close> of the chunk indices that have
  not been retired by a shrink: their chunks lie in the data one after the other, neighbours
  adjacent, the last one at the end, and only they are referenced; \<open>used\<close> is the total length of referenced chunks.
\<close>

definition chunk_weight :: "chunk \<Rightarrow> nat" where
  "chunk_weight c = (if chunk_is_orphan c then 0 else ck_len c)"

definition live_len :: "chunk list \<Rightarrow> nat" where
  "live_len cs = sum_list (map chunk_weight cs)"

definition seg_ok :: "nat set \<Rightarrow> segment \<Rightarrow> bool" where
  "seg_ok V s \<longleftrightarrow> sm_used s = live_len (sm_chunks s) \<and> V \<subseteq> {..<length (sm_chunks s)} \<and>
     (\<forall>i < length (sm_chunks s). \<not> chunk_is_orphan (sm_chunks s ! i) \<longrightarrow> i \<in> V) \<and>
     (\<forall>i \<in> V. end_pos (sm_chunks s ! i) \<le> sm_len s) \<and>
     (\<forall>i \<in> V. \<forall>j \<in> V. i < j \<longrightarrow> end_pos (sm_chunks s ! i) \<le> ck_pos (sm_chunks s ! j)) \<and>
     (\<forall>i \<in> V. Suc i \<in> V \<longrightarrow> end_pos (sm_chunks s ! i) = ck_pos (sm_chunks s ! Suc i)) \<and>
     (\<forall>i \<in> V. Suc i = length (sm_chunks s) \<longrightarrow> end_pos (sm_chunks s ! i) = sm_len s)"

lemma live_len_update:
  "i < length cs \<Longrightarrow> live_len (cs[i := c]) + chunk_weight (cs ! i) = live_len cs + chunk_weight c"
  unfolding live_len_def
proof (induction cs arbitrary: i)
  case (Cons x xs)
  then show ?case by (cases i) (auto simp: algebra_simps)
qed simp

lemma live_len_prefix:
  assumes "seg_ok V s" and "k \<le> length (sm_chunks s)"
    and "\<And>i. i \<in> V \<Longrightarrow> i < k \<Longrightarrow> end_pos (sm_chunks s ! i) \<le> p"
  shows "live_len (take k (sm_chunks s)) \<le> p"
  using assms(2,3)
proof (induction k arbitrary: p)
  case 0
  then show ?case by (simp add: live_len_def)
next
  case (Suc k)
  let ?c = "sm_chunks s ! k"
  have k: "k < length (sm_chunks s)" using Suc.prems by simp
  have split: "live_len (take (Suc k) (sm_chunks s)) = live_len (take k (sm_chunks s)) + chunk_weight ?c"
    using k by (simp add: live_len_def take_Suc_conv_app_nth)
  show ?case
  proof (cases "chunk_is_orphan ?c")
    case True
    have "live_len (take k (sm_chunks s)) \<le> p" using Suc.prems by (intro Suc.IH) auto
    with True split show ?thesis by (simp add: chunk_weight_def)
  next
    case False
    then have V: "k \<in> V" using assms(1) k by (auto simp: seg_ok_def)
    have "live_len (take k (sm_chunks s)) \<le> ck_pos ?c"
      using assms(1) V k by (intro Suc.IH) (auto simp: seg_ok_def)
    moreover have "end_pos ?c \<le> p" using Suc.prems V by simp
    ultimately show ?thesis using False split by (simp add: chunk_weight_def end_pos_def)
  qed
qed

lemma used_le_len:
  assumes "seg_ok V s"
  shows "sm_used s \<le> sm_len s"
  using live_len_prefix [OF assms order_refl, of "sm_len s"] assms by (auto simp: seg_ok_def)

text \<open>A segment in which the reference count of one chunk has been set, and the counter with it.\<close>

definition set_refcnt :: "nat \<Rightarrow> refcnt \<Rightarrow> segment \<Rightarrow> segment" where
  "set_refcnt i r s = (let cs = (sm_chunks s)[i := (sm_chunks s ! i)\<lparr>ck_refcnt := r\<rparr>]
     in s\<lparr>sm_chunks := cs, sm_used := live_len cs\<rparr>)"

lemma chunks_set_refcnt:
  "length (sm_chunks (set_refcnt i r s)) = length (sm_chunks s)"
  "j < length (sm_chunks s) \<Longrightarrow> sm_chunks (set_refcnt i r s) ! j =
     (if j = i then (sm_chunks s ! i)\<lparr>ck_refcnt := r\<rparr> else sm_chunks s ! j)"
  "sm_len (set_refcnt i r s) = sm_len s" "sm_data_id (set_refcnt i r s) = sm_data_id s"
  by (auto simp: set_refcnt_def Let_def nth_list_update)

lemma set_refcnt_ok:
  assumes "seg_ok V s" and "i \<in> V"
  shows "seg_ok V (set_refcnt i r s)"
proof -
  have "V \<subseteq> {..<length (sm_chunks s)}" using assms(1) by (simp add: seg_ok_def)
  then have V: "\<And>j. j \<in> V \<Longrightarrow> j < length (sm_chunks s)" by auto
  have "sm_used (set_refcnt i r s) = live_len (sm_chunks (set_refcnt i r s))"
    by (simp add: set_refcnt_def Let_def)
  with assms V show ?thesis
    by (auto simp: seg_ok_def chunks_set_refcnt end_pos_def)
qed

lemma used_set_refcnt:
  assumes "seg_ok V s" and "i < length (sm_chunks s)"
  shows "sm_used (set_refcnt i r s) + chunk_weight (sm_chunks s ! i) =
    sm_used s + (if r = 0 then 0 else ck_len (sm_chunks s ! i))"
  using live_len_update [OF assms(2), of "(sm_chunks s ! i)\<lparr>ck_refcnt := r\<rparr>"] assms(1)
  by (simp add: set_refcnt_def Let_def seg_ok_def chunk_weight_def chunk_is_orphan_def)

lemma set_refcnt_eqI:
  assumes "sm_used (set_refcnt i r s) = u"
  shows "s\<lparr>sm_chunks := (sm_chunks s)[i := (sm_chunks s ! i)\<lparr>ck_refcnt := r\<rparr>], sm_used := u\<rparr> = set_refcnt i r s"
  using assms by (simp add: set_refcnt_def Let_def)

lemma inc_ref_cases: "inc_ref r = (if unat r < 2 ^ 32 - 1 then Ok (r + 1) else Err RefOverflow)"
proof (cases "unat r < 2 ^ 32 - 1")
  case True
  then have "inc_ref r = Ok (r + 1)" by (simp add: inc_ref_Ok_iff)
  with True show ?thesis by simp
next
  case False
  then have "unat r + unat (1 :: 32 word) \<ge> 2 ^ 32" by simp
  with False show ?thesis by (simp add: inc_ref_def checked_add32_def ok_or_def)
qed

lemma dec_ref_cases: "dec_ref r = (if r = 0 then Err RefUnderflow else Ok (r - 1))"
proof (cases "r = 0")
  case False
  then have "dec_ref r = Ok (r - 1)" by (simp add: dec_ref_Ok_iff)
  with False show ?thesis by simp
qed (simp add: dec_ref_def checked_sub32_def ok_or_def)

lemma ref_chunk_run:
  assumes "seg_ok V s" and "i \<in> V" and r: "r = ck_refcnt (sm_chunks s ! i)"
  shows "ref_chunk i s = (if unat r < 2 ^ 32 - 1 then (Ok (r + 1), set_refcnt i (r + 1) s)
     else (Err RefOverflow, s))"
proof (cases "unat r < 2 ^ 32 - 1")
  case True
  let ?s' = "set_refcnt i (r + 1) s"
  have i: "i < length (sm_chunks s)" using assms(1,2) by (auto simp: seg_ok_def)
  have nz: "r + 1 \<noteq> 0" using unat_inc [OF True] by auto
  have r1: "r + 1 = 1 \<longleftrightarrow> r = 0" by simp
  have used: "sm_used ?s' = sm_used s + (if r = 0 then ck_len (sm_chunks s ! i) else 0)"
    using used_set_refcnt [OF assms(1) i, of "r + 1"] nz r
    by (auto simp: chunk_weight_def chunk_is_orphan_def split: if_splits)
  have le: "sm_used ?s' \<le> sm_len s"
    using used_le_len [OF set_refcnt_ok [OF assms(1,2)]] by (simp add: chunks_set_refcnt)
  have "s\<lparr>sm_chunks := (sm_chunks s)[i := (sm_chunks s ! i)\<lparr>ck_refcnt := r + 1\<rparr>],
      sm_used := sm_used s + (if r = 0 then ck_len (sm_chunks s ! i) else 0)\<rparr> = ?s'"
    using used by (rule set_refcnt_eqI)
  then show ?thesis
    using True i used le r r1
    by (cases "r = 0") (simp_all add: ref_chunk_def chunk_at_def nth_r_def chunk_inc_ref_def
        inc_ref_cases put_chunk_def chunks_set_refcnt)
next
  case False
  have i: "i < length (sm_chunks s)" using assms(1,2) by (auto simp: seg_ok_def)
  with False r show ?thesis
    by (simp add: ref_chunk_def chunk_at_def nth_r_def chunk_inc_ref_def inc_ref_cases)
qed

lemma deref_chunk_run:
  assumes "seg_ok V s" and "i \<in> V" and r: "r = ck_refcnt (sm_chunks s ! i)"
  shows "deref_chunk i s = (if r = 0 then (Err RefUnderflow, s) else (Ok (r - 1), set_refcnt i (r - 1) s))"
proof (cases "r = 0")
  case False
  let ?s' = "set_refcnt i (r - 1) s"
  have i: "i < length (sm_chunks s)" using assms(1,2) by (auto simp: seg_ok_def)
  have used: "sm_used ?s' + (if r - 1 = 0 then ck_len (sm_chunks s ! i) else 0) = sm_used s"
    using used_set_refcnt [OF assms(1) i, of "r - 1"] False r
    by (auto simp: chunk_weight_def chunk_is_orphan_def)
  then have "sm_used ?s' = sm_used s - (if r - 1 = 0 then ck_len (sm_chunks s ! i) else 0)"
    by simp
  then have "s\<lparr>sm_chunks := (sm_chunks s)[i := (sm_chunks s ! i)\<lparr>ck_refcnt := r - 1\<rparr>],
      sm_used := sm_used s - (if r - 1 = 0 then ck_len (sm_chunks s ! i) else 0)\<rparr> = ?s'"
    by (rule set_refcnt_eqI)
  then show ?thesis
    using False i used r
    by (cases "r - 1 = 0") (simp_all add: deref_chunk_def chunk_at_def nth_r_def chunk_dec_ref_def
        dec_ref_cases put_chunk_def sub_r_def)
next
  case True
  have i: "i < length (sm_chunks s)" using assms(1,2) by (auto simp: seg_ok_def)
  with True r show ?thesis
    by (simp add: deref_chunk_def chunk_at_def nth_r_def chunk_dec_ref_def dec_ref_cases)
qed

lemma ref_chunks_ok:
  assumes "seg_ok V s" and "{b..<e} \<subseteq> V" and "ref_chunks b e s = (x, s')"
  shows "seg_ok V s' \<and> x \<noteq> Panic"
proof -
  have "seg_ok V s' \<and> x \<noteq> Panic"
    if "for_s (\<lambda>i. bind_s (ref_chunk i) (\<lambda>_. ret_s ())) is s = (x, s')" "seg_ok V s" "set is \<subseteq> V" for "is" s
    using that
  proof (induction "is" arbitrary: s)
    case (Cons i "is")
    have i: "i \<in> V" using Cons.prems by simp
    show ?case
      using Cons.prems Cons.IH [OF _ set_refcnt_ok [OF Cons.prems(2) i]] ref_chunk_run [OF Cons.prems(2) i refl]
      by (auto simp: bind_s_def split: if_splits)
  qed auto
  from this [OF assms(3) [unfolded ref_chunks_def] assms(1)] assms(2) show ?thesis by simp
qed

lemma deref_chunks_ok:
  assumes "seg_ok V s" and "{b..<e} \<subseteq> V" and "deref_chunks b e s = (x, s')"
  shows "seg_ok V s' \<and> x \<noteq> Panic"
proof -
  have "seg_ok V s' \<and> x \<noteq> Panic"
    if "for_s (\<lambda>i. bind_s (deref_chunk i) (\<lambda>_. ret_s ())) is s = (x, s')" "seg_ok V s" "set is \<subseteq> V" for "is" s
    using that
  proof (induction "is" arbitrary: s)
    case (Cons i "is")
    have i: "i \<in> V" using Cons.prems by simp
    show ?case
      using Cons.prems Cons.IH [OF _ set_refcnt_ok [OF Cons.prems(2) i]] deref_chunk_run [OF Cons.prems(2) i refl]
      by (auto simp: bind_s_def split: if_splits)
  qed auto
  from this [OF assms(3) [unfolded deref_chunks_def] assms(1)] assms(2) show ?thesis by simp
qed

lemma append_chunk_ok:
  assumes "seg_ok V s"
  shows "seg_ok (insert (length (sm_chunks s)) V) (append_chunk n s)"
  using assms
  by (auto simp: seg_ok_def append_chunk_def live_len_def nth_append chunk_weight_def chunk_is_orphan_def
      chunk_new_def refcnt_new_def end_pos_def less_Suc_eq subset_iff)

text \<open>
  C17. The counter of used bytes is exact. On a well-formed segment, referencing or
  dereferencing any range of valid chunks never panics, in particular the assertion
  \<open>used <= len\<close> and the subtraction never fail, whatever error the reference counts give, and
  the result is well formed: \<open>used\<close> is the total length of the chunks with references and at
  most the length of the data. Appending a chunk keeps this, and makes the chunk valid.
\<close>

theorem segment_used_exact:
  assumes "seg_ok V s" and "{b..<e} \<subseteq> V"
    and "ref_chunks b e s = (r, s') \<or> deref_chunks b e s = (r, s')"
  shows "r \<noteq> Panic \<and> seg_ok V s' \<and> sm_used s' = live_len (sm_chunks s') \<and> sm_used s' \<le> sm_len s' \<and>
    seg_ok (insert (length (sm_chunks s')) V) (append_chunk n s')"
proof -
  have "seg_ok V s' \<and> r \<noteq> Panic"
    using assms(3) ref_chunks_ok [OF assms(1,2)] deref_chunks_ok [OF assms(1,2)] by blast
  then show ?thesis using used_le_len append_chunk_ok by (auto simp: seg_ok_def)
qed

theorem segment_used_exact_witness:
  "\<exists>s'. ref_chunks 0 2 (append_chunk 5 (append_chunk 3 (segment_new []))) = (Ok (), s') \<and>
     sm_used s' = 8 \<and> sm_used s' = live_len (sm_chunks s')"
proof -
  let ?s = "append_chunk 5 (append_chunk 3 (segment_new []))"
  have "seg_ok {} (segment_new [])" by (simp add: seg_ok_def segment_new_def live_len_def)
  from append_chunk_ok [OF append_chunk_ok [OF this, of 3], of 5] have ok: "seg_ok {0, 1} ?s"
    by (simp add: append_chunk_def segment_new_def insert_commute)
  obtain s' where s': "ref_chunks 0 2 ?s = (Ok (), s')" "sm_used s' = 8"
    by (simp add: ref_chunks_def upt_rec ref_chunk_def chunk_at_def append_chunk_def segment_new_def nth_r_def
        chunk_new_def refcnt_new_def chunk_inc_ref_def inc_ref_cases put_chunk_def)
  have "{0..<2} \<subseteq> {0, 1::nat}" by auto
  from segment_used_exact [OF ok this disjI1 [OF s'(1)]] s' show ?thesis by auto
qed

subsection \<open>Shrinking\<close>

definition chunk_bytes :: "bytes \<Rightarrow> chunk \<Rightarrow> bytes" where
  "chunk_bytes data c = take (ck_len c) (drop (ck_pos c) data)"

definition live_bytes :: "bytes \<Rightarrow> chunk list \<Rightarrow> bytes" where
  "live_bytes data cs = concat (map (\<lambda>c. if chunk_is_orphan c then [] else chunk_bytes data c) cs)"

fun placed :: "nat \<Rightarrow> chunk list \<Rightarrow> chunk list" where
  "placed p [] = []"
| "placed p (c # cs) = (if chunk_is_orphan c then c # placed p cs
     else c\<lparr>ck_pos := p\<rparr> # placed (p + ck_len c) cs)"

definition in_data :: "bytes \<Rightarrow> chunk list \<Rightarrow> bool" where
  "in_data data cs \<longleftrightarrow> (\<forall>c \<in> set cs. \<not> chunk_is_orphan c \<longrightarrow> end_pos c \<le> length data)"

lemma live_bytes_simps [simp]: "live_bytes data [] = []"
  "live_bytes data (c # cs) = (if chunk_is_orphan c then [] else chunk_bytes data c) @ live_bytes data cs"
  by (simp_all add: live_bytes_def)

lemma live_len_simps [simp]: "live_len [] = 0" "live_len (c # cs) = chunk_weight c + live_len cs"
  by (simp_all add: live_len_def)

lemma in_data_simps [simp]: "in_data data []"
  "in_data data (c # cs) \<longleftrightarrow> (\<not> chunk_is_orphan c \<longrightarrow> end_pos c \<le> length data) \<and> in_data data cs"
  by (simp_all add: in_data_def)

lemma live_bytes_length: "in_data data cs \<Longrightarrow> length (live_bytes data cs) = live_len cs"
  by (induction cs) (auto simp: chunk_weight_def chunk_bytes_def end_pos_def)

lemma reposition_run:
  "in_data data cs \<Longrightarrow> reposition data idx cs buf =
     Ok (buf @ live_bytes data cs, placed (length buf) cs,
         filter (\<lambda>i. chunk_is_orphan (cs ! (i - idx))) [idx..<idx + length cs])"
proof (induction cs arbitrary: idx buf)
  case (Cons c cs)
  have f: "filter (\<lambda>i. chunk_is_orphan ((c # cs) ! (i - idx))) [Suc idx..<idx + length (c # cs)] =
      filter (\<lambda>i. chunk_is_orphan (cs ! (i - Suc idx))) [Suc idx..<Suc idx + length cs]"
  proof (rule filter_cong)
    fix x
    assume "x \<in> set [Suc idx..<Suc idx + length cs]"
    then have "x - idx = Suc (x - Suc idx)" by auto
    then show "chunk_is_orphan ((c # cs) ! (x - idx)) = chunk_is_orphan (cs ! (x - Suc idx))" by simp
  qed simp
  have u: "[idx..<idx + length (c # cs)] = idx # [Suc idx..<idx + length (c # cs)]"
    by (rule upt_conv_Cons) simp
  show ?case
  proof (cases "chunk_is_orphan c")
    case True
    with Cons show ?thesis by (simp only: u filter.simps f) simp
  next
    case False
    with Cons.prems have "slice_r (ck_pos c) (end_pos c) data = (Ok (chunk_bytes data c) :: bytes res)"
      "length (chunk_bytes data c) = ck_len c"
      by (auto simp: slice_r_def end_pos_def chunk_bytes_def)
    with False Cons show ?thesis by (simp only: u filter.simps f) (simp add: sub_r_def)
  qed
qed simp

lemma placed_length [simp]: "length (placed p cs) = length cs"
  by (induction cs arbitrary: p) auto

lemma placed_nth:
  "i < length cs \<Longrightarrow> placed p cs ! i = (if chunk_is_orphan (cs ! i) then cs ! i
     else (cs ! i)\<lparr>ck_pos := p + live_len (take i cs)\<rparr>)"
proof (induction cs arbitrary: p i)
  case (Cons c cs)
  then show ?case by (cases i) (auto simp: chunk_weight_def)
qed simp

lemma orphan_pos [simp]: "chunk_is_orphan (c\<lparr>ck_pos := p\<rparr>) = chunk_is_orphan c"
  by (simp add: chunk_is_orphan_def)

lemma live_len_placed [simp]: "live_len (placed p cs) = live_len cs"
  by (induction cs arbitrary: p) (auto simp: chunk_weight_def)

lemma live_len_take_mono: "i \<le> j \<Longrightarrow> live_len (take i cs) \<le> live_len (take j cs)"
  by (metis le_add1 le_iff_add live_len_def map_append sum_list_append take_add)

lemma live_len_take_Suc:
  "i < length cs \<Longrightarrow> \<not> chunk_is_orphan (cs ! i) \<Longrightarrow> live_len (take (Suc i) cs) = live_len (take i cs) + ck_len (cs ! i)"
  by (simp add: take_Suc_conv_app_nth live_len_def chunk_weight_def)

lemma live_bytes_at:
  assumes "in_data data cs" and "i < length cs" and "\<not> chunk_is_orphan (cs ! i)"
  shows "take (ck_len (cs ! i)) (drop (live_len (take i cs)) (live_bytes data cs)) = chunk_bytes data (cs ! i)"
proof -
  have d: "in_data data (take i cs)" using assms(1) by (auto simp: in_data_def dest: in_set_takeD)
  have "end_pos (cs ! i) \<le> length data" using assms by (simp add: in_data_def)
  then have n: "length (chunk_bytes data (cs ! i)) = ck_len (cs ! i)" by (simp add: chunk_bytes_def end_pos_def)
  have "live_bytes data cs = live_bytes data (take i cs) @ chunk_bytes data (cs ! i) @ live_bytes data (drop (Suc i) cs)"
    using arg_cong [OF id_take_nth_drop [OF assms(2)], of "live_bytes data"] assms(3) by (simp add: live_bytes_def)
  with n show ?thesis by (simp add: live_bytes_length [OF d])
qed

lemma placed_seg_ok:
  assumes "sm_used s = live_len (sm_chunks s)"
  shows "seg_ok {i. i < length (sm_chunks s) \<and> \<not> chunk_is_orphan (sm_chunks s ! i)}
    (s\<lparr>sm_chunks := placed 0 (sm_chunks s), sm_len := sm_used s, sm_data_id := e\<rparr>)"
proof -
  let ?cs = "sm_chunks s"
  have end1: "end_pos (placed 0 ?cs ! i) = live_len (take (Suc i) ?cs)"
    and pos1: "ck_pos (placed 0 ?cs ! i) = live_len (take i ?cs)"
    if "i < length ?cs" "\<not> chunk_is_orphan (?cs ! i)" for i
    using that by (simp_all add: placed_nth end_pos_def live_len_take_Suc)
  have "live_len (take (Suc i) ?cs) \<le> live_len ?cs" if "i < length ?cs" for i
    using live_len_take_mono [of "Suc i" "length ?cs" ?cs] that by simp
  moreover have "live_len (take (Suc i) ?cs) \<le> live_len (take j ?cs)" if "i < j" for i j
    using that by (intro live_len_take_mono) simp
  moreover have "\<not> chunk_is_orphan (?cs ! i)" if "i < length ?cs" "\<not> chunk_is_orphan (placed 0 ?cs ! i)" for i
    using that by (auto simp: placed_nth split: if_splits)
  ultimately show ?thesis
    using assms end1 pos1 by (auto simp: seg_ok_def)
qed

text \<open>
  C18. Shrinking loses nothing that is referenced. For a well-formed segment and its data, the
  loop never panics, the new data has exactly the used length, as the code asserts, the retired
  indices are those of the chunks without references, every other chunk keeps its length, its
  count and its bytes, and the segment with the new positions is well formed and has its
  referenced chunks adjacent.
\<close>

theorem shrink_keeps_chunks:
  assumes "seg_ok V s" and "length data = sm_len s"
  shows "\<exists>buf cs retired. reposition data 0 (sm_chunks s) [] = Ok (buf, cs, retired) \<and>
    length buf = sm_used s \<and> length cs = length (sm_chunks s) \<and>
    set retired = {i. i < length cs \<and> chunk_is_orphan (sm_chunks s ! i)} \<and>
    (\<forall>i. i < length cs \<and> i \<notin> set retired \<longrightarrow> chunk_bytes buf (cs ! i) = chunk_bytes data (sm_chunks s ! i) \<and>
       ck_len (cs ! i) = ck_len (sm_chunks s ! i) \<and> ck_refcnt (cs ! i) = ck_refcnt (sm_chunks s ! i)) \<and>
    seg_ok {i. i < length cs \<and> i \<notin> set retired} (s\<lparr>sm_chunks := cs, sm_len := sm_used s, sm_data_id := e\<rparr>)"
proof -
  let ?cs = "sm_chunks s"
  have u: "sm_used s = live_len ?cs" using assms(1) by (simp add: seg_ok_def)
  have d: "in_data data ?cs" using assms by (force simp: in_data_def seg_ok_def in_set_conv_nth)
  define retired where "retired = filter (\<lambda>i. chunk_is_orphan (?cs ! i)) [0..<length ?cs]"
  have run: "reposition data 0 ?cs [] = Ok (live_bytes data ?cs, placed 0 ?cs, retired)"
    using reposition_run [OF d, of 0 "[]"] by (simp add: retired_def)
  have b: "chunk_bytes (live_bytes data ?cs) (placed 0 ?cs ! i) = chunk_bytes data (?cs ! i)"
    if "i < length ?cs" "\<not> chunk_is_orphan (?cs ! i)" for i
    using live_bytes_at [OF d that] that by (simp add: placed_nth chunk_bytes_def)
  have live: "{i. i < length ?cs \<and> \<not> chunk_is_orphan (?cs ! i)} = {i. i < length ?cs \<and> i \<notin> set retired}"
    by (auto simp: retired_def)
  show ?thesis
    using run b placed_seg_ok [OF u, of e] u live_bytes_length [OF d]
    unfolding live by (auto simp: retired_def placed_nth)
qed

theorem shrink_keeps_chunks_witness:
  "\<exists>buf cs. reposition [1, 2, 3, 4, 5, 6, 7, 8] 0
      [\<lparr>ck_pos = 0, ck_len = 3, ck_refcnt = 0\<rparr>, \<lparr>ck_pos = 3, ck_len = 2, ck_refcnt = 1\<rparr>,
       \<lparr>ck_pos = 5, ck_len = 3, ck_refcnt = 0\<rparr>] [] = Ok (buf, cs, [0, 2]) \<and> chunk_bytes buf (cs ! 1) = [4, 5]"
proof -
  let ?cs = "[\<lparr>ck_pos = 0, ck_len = 3, ck_refcnt = 0\<rparr>, \<lparr>ck_pos = 3, ck_len = 2, ck_refcnt = 1\<rparr>,
       \<lparr>ck_pos = 5, ck_len = 3, ck_refcnt = 0\<rparr>]"
  let ?s = "\<lparr>sm_len = 8, sm_used = 2, sm_data_id = [], sm_chunks = ?cs\<rparr>"
  have "seg_ok {0, 1, 2} ?s"
    by (simp add: seg_ok_def live_len_def chunk_weight_def chunk_is_orphan_def end_pos_def All_less_Suc)
  from shrink_keeps_chunks [OF this, of "[1, 2, 3, 4, 5, 6, 7, 8]" "[]"] show ?thesis
    by (auto simp: chunk_is_orphan_def end_pos_def slice_r_def chunk_bytes_def sub_r_def)
qed

end
