(* ===== verification/Content_Span.thy ===== *)
theory Content_Span
  imports Segment
begin

text \<open>
  \<open>src/src/content/span.rs\<close>: a span is a run of chunks of a segment, from the middle of the first
  to the middle of the last one, placed at an offset of a content. Cutting a span returns the
  part kept and the whole chunks that are no longer covered.
\<close>

record seg_span =
  ss_begin :: nat
  ss_end :: nat
  ss_seg_offset :: nat
  ss_len :: nat
  ss_offset :: nat

definition ss_new :: "nat \<Rightarrow> nat \<Rightarrow> nat \<Rightarrow> nat \<Rightarrow> nat \<Rightarrow> seg_span" where
  "ss_new b e so n off = \<lparr>ss_begin = b, ss_end = e, ss_seg_offset = so, ss_len = n, ss_offset = off\<rparr>"

definition ss_end_offset :: "seg_span \<Rightarrow> nat" where
  "ss_end_offset sp = ss_offset sp + ss_len sp"

definition offset_in_seg :: "segment \<Rightarrow> seg_span \<Rightarrow> nat res" where
  "offset_in_seg seg sp = bind_r (nth_r (sm_chunks seg) (ss_begin sp)) (\<lambda>c. Ok (ck_pos c + ss_seg_offset sp))"

definition ss_locate :: "nat \<Rightarrow> segment \<Rightarrow> seg_span \<Rightarrow> (nat \<times> nat) res" where
  "ss_locate at seg sp = assert_r (ss_offset sp \<le> at \<and> at \<le> ss_end_offset sp)
     (bind_r (slice_r (ss_begin sp) (ss_end sp) (sm_chunks seg)) (\<lambda>cs.
      bind_r (offset_in_seg seg sp) (\<lambda>o1.
      bind_r (sub_r (o1 + at) (ss_offset sp)) (\<lambda>seg_at.
      bind_r (unwrap_opt (position (\<lambda>c. ck_pos c \<le> seg_at \<and> seg_at \<le> end_pos c) cs)) (\<lambda>idx.
        Ok (ss_begin sp + idx, seg_at))))))"

definition align_up :: "nat \<Rightarrow> segment \<Rightarrow> seg_span \<Rightarrow> (nat \<times> nat) res" where
  "align_up at seg sp =
     bind_r (ss_locate at seg sp) (\<lambda>(idx, seg_at).
     bind_r (nth_r (sm_chunks seg) idx) (\<lambda>c.
       if seg_at = ck_pos c then Ok (idx, at)
       else bind_r (sub_r (at + end_pos c) seg_at) (\<lambda>n. Ok (Suc idx, n))))"

definition align_down :: "nat \<Rightarrow> segment \<Rightarrow> seg_span \<Rightarrow> (nat \<times> nat) res" where
  "align_down at seg sp =
     bind_r (ss_locate at seg sp) (\<lambda>(idx, seg_at).
     bind_r (nth_r (sm_chunks seg) idx) (\<lambda>c.
       if seg_at = end_pos c then Ok (Suc idx, at)
       else bind_r (sub_r (at + ck_pos c) seg_at) (\<lambda>n. Ok (idx, n))))"

definition merge_up :: "seg_span \<Rightarrow> seg_span \<Rightarrow> seg_span res" where
  "merge_up sp up = assert_r (ss_end sp = ss_begin up \<and> ss_seg_offset up = 0)
     (Ok (sp\<lparr>ss_end := ss_end up, ss_len := ss_len sp + ss_len up\<rparr>))"

text \<open>The results are the span itself after the cut and the span that is returned.\<close>

definition ss_cut_off :: "nat \<Rightarrow> segment \<Rightarrow> seg_span \<Rightarrow> (seg_span \<times> seg_span) res" where
  "ss_cut_off at seg sp =
     bind_r (align_up at seg sp) (\<lambda>(align_idx, align_at).
     bind_r (sub_r at (ss_offset sp)) (\<lambda>n.
       Ok (sp\<lparr>ss_end := align_idx, ss_len := n\<rparr>,
           sp\<lparr>ss_begin := align_idx, ss_seg_offset := 0,
              ss_len := (if align_at < ss_end_offset sp then ss_end_offset sp - align_at else 0),
              ss_offset := align_at\<rparr>)))"

definition ss_cut_to :: "nat \<Rightarrow> segment \<Rightarrow> seg_span \<Rightarrow> (seg_span \<times> seg_span) res" where
  "ss_cut_to at seg sp =
     bind_r (align_down at seg sp) (\<lambda>(align_idx, align_at).
     bind_r (sub_r at (ss_offset sp)) (\<lambda>delta.
     bind_r (sub_r at align_at) (\<lambda>so.
     bind_r (sub_r (ss_len sp) delta) (\<lambda>n.
       Ok (sp\<lparr>ss_begin := align_idx, ss_seg_offset := so, ss_len := n, ss_offset := at\<rparr>,
           sp\<lparr>ss_end := align_idx,
              ss_len := (if ss_offset sp < align_at then align_at - ss_offset sp else 0)\<rparr>)))))"

text \<open>
  \<open>seek\<close>; the arithmetic is that of \<open>i64\<close>, and a negative offset wraps around in the cast to
  \<open>usize\<close>.
\<close>

definition as_usize :: "int \<Rightarrow> nat" where
  "as_usize i = nat (i mod 2 ^ 64)"

definition seek_target :: "seek_from \<Rightarrow> nat \<Rightarrow> nat \<Rightarrow> nat" where
  "seek_target pos off end_off = (case pos of
     SeekStart p \<Rightarrow> p
   | SeekEnd d \<Rightarrow> as_usize (int end_off + d)
   | SeekCurrent d \<Rightarrow> as_usize (int off + d))"

definition ss_seek :: "seek_from \<Rightarrow> seg_span \<Rightarrow> seg_span" where
  "ss_seek pos sp = sp\<lparr>ss_offset := seek_target pos (ss_offset sp) (ss_end_offset sp)\<rparr>"

subsection \<open>The bytes of a span\<close>

text \<open>
  A span is well formed in a segment when its chunks are adjacent, not empty, and it starts in
  its first and ends in its last chunk.
\<close>

definition span_ok :: "segment \<Rightarrow> seg_span \<Rightarrow> bool" where
  "span_ok seg sp \<longleftrightarrow> 0 < ss_len sp \<and> ss_begin sp < ss_end sp \<and> ss_end sp \<le> length (sm_chunks seg) \<and>
     (\<forall>i. ss_begin sp \<le> i \<and> i < ss_end sp \<longrightarrow> 0 < ck_len (sm_chunks seg ! i)) \<and>
     (\<forall>i. ss_begin sp \<le> i \<and> Suc i < ss_end sp \<longrightarrow>
        end_pos (sm_chunks seg ! i) = ck_pos (sm_chunks seg ! Suc i)) \<and>
     ss_seg_offset sp < ck_len (sm_chunks seg ! ss_begin sp) \<and> ss_seg_offset sp \<le> ss_offset sp \<and>
     ck_pos (sm_chunks seg ! (ss_end sp - 1)) <
       ck_pos (sm_chunks seg ! ss_begin sp) + ss_seg_offset sp + ss_len sp \<and>
     ck_pos (sm_chunks seg ! ss_begin sp) + ss_seg_offset sp + ss_len sp \<le>
       end_pos (sm_chunks seg ! (ss_end sp - 1))"

definition span_start :: "segment \<Rightarrow> seg_span \<Rightarrow> nat" where
  "span_start seg sp = ck_pos (sm_chunks seg ! ss_begin sp) + ss_seg_offset sp"

definition span_bytes :: "segment \<Rightarrow> bytes \<Rightarrow> seg_span \<Rightarrow> bytes" where
  "span_bytes seg data sp = take (ss_len sp) (drop (span_start seg sp) data)"

text \<open>A run of adjacent chunks has a first chunk that covers a given position.\<close>

lemma chunk_covering:
  assumes "b < e" and "\<And>i. b \<le> i \<Longrightarrow> Suc i < e \<Longrightarrow> end_pos (cs ! i) = ck_pos (cs ! Suc i)"
    and "\<And>i. b \<le> i \<Longrightarrow> i < e \<Longrightarrow> 0 < ck_len (cs ! i)"
    and "ck_pos (cs ! b) \<le> p" and "p \<le> end_pos (cs ! (e - 1))"
  shows "\<exists>k. b \<le> k \<and> k < e \<and> ck_pos (cs ! k) \<le> p \<and> p \<le> end_pos (cs ! k) \<and>
    (\<forall>j. b \<le> j \<and> j < k \<longrightarrow> end_pos (cs ! j) < p)"
proof -
  let ?P = "\<lambda>k. b \<le> k \<and> k < e \<and> p \<le> end_pos (cs ! k)"
  define k where "k = (LEAST k. ?P k)"
  have "?P (e - 1)" using assms(1,5) by simp
  then have k: "?P k" unfolding k_def by (rule LeastI)
  have below: "end_pos (cs ! j) < p" if "b \<le> j" "j < k" for j
    using not_less_Least [of j ?P] that k unfolding k_def [symmetric] by simp
  have "ck_pos (cs ! k) \<le> p"
  proof (cases "k = b")
    case True
    with assms(4) show ?thesis by simp
  next
    case False
    with k have "b \<le> k - 1" "Suc (k - 1) = k" by linarith+
    with assms(2) [of "k - 1"] k below [of "k - 1"] show ?thesis by simp
  qed
  with k below show ?thesis by blast
qed

lemma position_slice:
  assumes "b \<le> k" and "k < e" and "e \<le> length cs" and "P (cs ! k)"
    and "\<And>j. b \<le> j \<Longrightarrow> j < k \<Longrightarrow> \<not> P (cs ! j)"
  shows "position P (take (e - b) (drop b cs)) = Some (k - b)"
  using assms by (auto simp: position_Some_iff)

text \<open>The first chunk covering a position of the span is the one \<open>locate\<close> finds.\<close>

lemma ss_locate_ok:
  assumes "span_ok seg sp" and "ss_offset sp \<le> at" and "at \<le> ss_end_offset sp"
  defines "p \<equiv> span_start seg sp + (at - ss_offset sp)"
  obtains k where "ss_locate at seg sp = Ok (k, p)" "ss_begin sp \<le> k" "k < ss_end sp"
    "ck_pos (sm_chunks seg ! k) \<le> p" "p \<le> end_pos (sm_chunks seg ! k)"
    "\<And>j. ss_begin sp \<le> j \<Longrightarrow> j < k \<Longrightarrow> end_pos (sm_chunks seg ! j) < p"
proof -
  let ?cs = "sm_chunks seg"
  have "\<exists>k. ss_begin sp \<le> k \<and> k < ss_end sp \<and> ck_pos (?cs ! k) \<le> p \<and> p \<le> end_pos (?cs ! k) \<and>
      (\<forall>j. ss_begin sp \<le> j \<and> j < k \<longrightarrow> end_pos (?cs ! j) < p)"
    using assms by (intro chunk_covering) (auto simp: span_ok_def span_start_def ss_end_offset_def)
  then obtain k where k: "ss_begin sp \<le> k" "k < ss_end sp" "ck_pos (?cs ! k) \<le> p" "p \<le> end_pos (?cs ! k)"
    "\<And>j. ss_begin sp \<le> j \<Longrightarrow> j < k \<Longrightarrow> end_pos (?cs ! j) < p" by blast
  have "position (\<lambda>c. ck_pos c \<le> p \<and> p \<le> end_pos c)
      (take (ss_end sp - ss_begin sp) (drop (ss_begin sp) ?cs)) = Some (k - ss_begin sp)"
    using k assms(1) by (intro position_slice) (force simp: span_ok_def)+
  moreover have "sub_r (ck_pos (?cs ! ss_begin sp) + ss_seg_offset sp + at) (ss_offset sp) = (Ok p :: nat res)"
    using assms(2) by (simp add: sub_r_def p_def span_start_def)
  ultimately have "ss_locate at seg sp = Ok (k, p)"
    using assms(1-3) k(1) by (simp add: ss_locate_def assert_r_def slice_r_def offset_in_seg_def nth_r_def
        span_ok_def unwrap_opt_def)
  with k that show ?thesis by blast
qed

lemma span_bytes_length:
  assumes "span_ok seg sp" and "end_pos (sm_chunks seg ! (ss_end sp - 1)) \<le> length data"
  shows "length (span_bytes seg data sp) = ss_len sp"
  using assms by (auto simp: span_bytes_def span_ok_def span_start_def)

lemma chunk_pos_mono:
  assumes "b \<le> k" and "k < e" and "\<And>i. b \<le> i \<Longrightarrow> Suc i < e \<Longrightarrow> end_pos (cs ! i) = ck_pos (cs ! Suc i)"
  shows "ck_pos (cs ! b) \<le> ck_pos (cs ! k)"
  using assms(1,2)
proof (induction k rule: dec_induct)
  case (step n)
  then have "end_pos (cs ! n) = ck_pos (cs ! Suc n)" by (intro assms(3)) simp_all
  with step show ?case by (simp add: end_pos_def)
qed simp

lemma ss_cut_off_ok:
  assumes ok: "span_ok seg sp" and at: "ss_offset sp \<le> at" "at \<le> ss_end_offset sp"
  shows "\<exists>sp' r. ss_cut_off at seg sp = Ok (sp', r) \<and> ss_offset sp' = ss_offset sp \<and>
    ss_begin sp' = ss_begin sp \<and> ss_end sp' \<le> ss_end sp \<and> ss_len sp' = at - ss_offset sp \<and> (ss_offset sp < at \<longrightarrow> span_ok seg sp') \<and>
    span_bytes seg data sp' = take (at - ss_offset sp) (span_bytes seg data sp)"
proof -
  let ?cs = "sm_chunks seg"
  define p where "p = span_start seg sp + (at - ss_offset sp)"
  obtain k where k: "ss_locate at seg sp = Ok (k, p)" "ss_begin sp \<le> k" "k < ss_end sp"
    "ck_pos (?cs ! k) \<le> p" "p \<le> end_pos (?cs ! k)"
    "\<And>j. ss_begin sp \<le> j \<Longrightarrow> j < k \<Longrightarrow> end_pos (?cs ! j) < p"
    using ss_locate_ok [OF ok at] unfolding p_def by metis
  have len: "k < length ?cs" using k(3) ok by (simp add: span_ok_def)
  have first: "k = ss_begin sp" if "p = ck_pos (?cs ! k)"
  proof (rule ccontr)
    assume "k \<noteq> ss_begin sp"
    with k(2) have j: "ss_begin sp \<le> k - 1" "Suc (k - 1) = k" by linarith+
    then have "end_pos (?cs ! (k - 1)) = ck_pos (?cs ! k)" using ok k(3) by (simp add: span_ok_def)
    with j k(6) [of "k - 1"] that show False by simp
  qed
  define ai where "ai = (if p = ck_pos (?cs ! k) then k else Suc k)"
  have "\<exists>a. align_up at seg sp = Ok (ai, a)"
    using k(1,5) len by (auto simp: align_up_def nth_r_def sub_r_def ai_def)
  then obtain a where a: "align_up at seg sp = Ok (ai, a)" ..
  let ?sp = "sp\<lparr>ss_end := ai, ss_len := at - ss_offset sp\<rparr>"
  have "span_ok seg ?sp" if "ss_offset sp < at"
  proof -
    have "p \<noteq> ck_pos (?cs ! k)" using first that by (auto simp: p_def span_start_def)
    then have "ai = Suc k" "ck_pos (?cs ! k) < p" using k(4) by (simp_all add: ai_def)
    with that ok k at show ?thesis by (auto simp: span_ok_def p_def span_start_def)
  qed
  moreover have "span_bytes seg data ?sp = take (at - ss_offset sp) (span_bytes seg data sp)"
    using at by (simp add: span_bytes_def span_start_def ss_end_offset_def min_def)
  moreover have "ss_cut_off at seg sp = Ok (?sp, sp\<lparr>ss_begin := ai, ss_seg_offset := 0,
      ss_len := (if a < ss_end_offset sp then ss_end_offset sp - a else 0), ss_offset := a\<rparr>)"
    using a at by (simp add: ss_cut_off_def sub_r_def)
  moreover have "ai \<le> ss_end sp" using k(3) by (simp add: ai_def)
  ultimately show ?thesis by simp
qed

lemma ss_cut_to_ok:
  assumes ok: "span_ok seg sp" and at: "ss_offset sp \<le> at" "at \<le> ss_end_offset sp"
  shows "\<exists>sp' r. ss_cut_to at seg sp = Ok (sp', r) \<and> ss_offset sp' = at \<and> ss_end sp' = ss_end sp \<and>
    ss_len sp' = ss_end_offset sp - at \<and> (at < ss_end_offset sp \<longrightarrow> span_ok seg sp' \<and>
    span_bytes seg data sp' = drop (at - ss_offset sp) (span_bytes seg data sp))"
proof -
  let ?cs = "sm_chunks seg"
  define p where "p = span_start seg sp + (at - ss_offset sp)"
  obtain k where k: "ss_locate at seg sp = Ok (k, p)" "ss_begin sp \<le> k" "k < ss_end sp"
    "ck_pos (?cs ! k) \<le> p" "p \<le> end_pos (?cs ! k)"
    using ss_locate_ok [OF ok at] unfolding p_def by metis
  have len: "k < length ?cs" using k(3) ok by (simp add: span_ok_def)
  have mono: "ck_pos (?cs ! ss_begin sp) \<le> ck_pos (?cs ! k)"
    using k(2,3) ok by (intro chunk_pos_mono) (auto simp: span_ok_def)
  have low: "p \<le> at + ck_pos (?cs ! k)"
    using mono ok at by (auto simp: p_def span_start_def span_ok_def)
  define ai where "ai = (if p = end_pos (?cs ! k) then Suc k else k)"
  define so where "so = (if p = end_pos (?cs ! k) then 0 else p - ck_pos (?cs ! k))"
  have a: "align_down at seg sp = Ok (ai, at - so)" "so \<le> at"
    using k(1,4) len low by (auto simp: align_down_def nth_r_def sub_r_def ai_def so_def)
  let ?sp = "sp\<lparr>ss_begin := ai, ss_seg_offset := so, ss_len := ss_end_offset sp - at, ss_offset := at\<rparr>"
  have inside: "ai < ss_end sp \<and> ck_pos (?cs ! ai) + so = p \<and> so < ck_len (?cs ! ai)"
    if lt: "at < ss_end_offset sp"
  proof (cases "p = end_pos (?cs ! k)")
    case True
    have p: "p < span_start seg sp + ss_len sp" using at lt by (simp add: p_def ss_end_offset_def)
    have "k \<noteq> ss_end sp - 1" using p ok True by (auto simp: span_ok_def span_start_def)
    then have "Suc k < ss_end sp" using k(3) by simp
    moreover from this have "end_pos (?cs ! k) = ck_pos (?cs ! Suc k)" "0 < ck_len (?cs ! Suc k)"
      using ok k(2) by (simp_all add: span_ok_def)
    ultimately show ?thesis using True by (simp add: ai_def so_def)
  next
    case False
    with k show ?thesis by (auto simp: ai_def so_def end_pos_def)
  qed
  have "span_ok seg ?sp \<and> span_bytes seg data ?sp = drop (at - ss_offset sp) (span_bytes seg data sp)"
    if lt: "at < ss_end_offset sp"
  proof -
    have b: "ss_begin sp \<le> ai" using k(2) by (simp add: ai_def)
    have e: "p + (ss_end_offset sp - at) = span_start seg sp + ss_len sp"
      using at by (simp add: p_def ss_end_offset_def)
    have "span_start seg ?sp = p" using inside [OF lt] by (simp add: span_start_def)
    then have "span_bytes seg data ?sp = drop (at - ss_offset sp) (span_bytes seg data sp)"
      using at by (simp add: span_bytes_def drop_take p_def ss_end_offset_def add.commute)
    moreover have "span_ok seg ?sp"
      using inside [OF lt] b ok lt a(2) e by (auto simp: span_ok_def span_start_def)
    ultimately show ?thesis by simp
  qed
  moreover have "ss_cut_to at seg sp = Ok (?sp, sp\<lparr>ss_end := ai,
      ss_len := (if ss_offset sp < at - so then at - so - ss_offset sp else 0)\<rparr>)"
    using a at by (simp add: ss_cut_to_def sub_r_def ss_end_offset_def)
  ultimately show ?thesis by simp
qed

end
