(* ===== verification/Entry_List.thy ===== *)
theory Entry_List
  imports Content_Span
begin

text \<open>
  \<open>src/src/content/entry.rs\<close>: the list of entries that describes a content, one entry per run of
  chunks in the same segment, and each entry a list of spans. The trait \<open>CutableList\<close> is
  implemented by both levels: \<open>cut_list\<close> is the part of the state its default methods work on,
  and \<open>cut_ops\<close> holds the methods of the item type.
\<close>

record 'i cut_list =
  xl_len :: nat
  xl_offset :: nat
  xl_items :: "'i list"

record 'i cut_ops =
  ct_offset :: "'i \<Rightarrow> nat"
  ct_len :: "'i \<Rightarrow> nat"
  ct_cut_off :: "nat \<Rightarrow> segment \<Rightarrow> 'i \<Rightarrow> ('i \<times> 'i) res"
  ct_cut_to :: "nat \<Rightarrow> segment \<Rightarrow> 'i \<Rightarrow> ('i \<times> 'i) res"

definition end_offset :: "('i, 'x) cut_list_scheme \<Rightarrow> nat" where
  "end_offset l = xl_offset l + xl_len l"

definition list_locate :: "'i cut_ops \<Rightarrow> nat \<Rightarrow> ('i, 'x) cut_list_scheme \<Rightarrow> nat res" where
  "list_locate X at l = assert_r (xl_offset l \<le> at \<and> at \<le> end_offset l)
     (Ok (case position (\<lambda>i. ct_offset X i \<le> at \<and> at \<le> ct_offset X i + ct_len X i) (xl_items l) of
            Some p \<Rightarrow> p | None \<Rightarrow> 0))"

text \<open>\<open>Vec::remove\<close>\<close>

definition remove_at :: "nat \<Rightarrow> 'a list \<Rightarrow> 'a list" where
  "remove_at i xs = take i xs @ drop (Suc i) xs"

definition items_len :: "'i cut_ops \<Rightarrow> 'i list \<Rightarrow> nat" where
  "items_len X is = sum_list (map (ct_len X) is)"

text \<open>The results are the list itself after the split and the list that is returned.\<close>

definition split_off ::
  "'i cut_ops \<Rightarrow> nat \<Rightarrow> segment \<Rightarrow> ('i, 'x) cut_list_scheme \<Rightarrow>
   (('i, 'x) cut_list_scheme \<times> ('i, 'x) cut_list_scheme) res"
where
  "split_off X at seg l =
     bind_r (list_locate X at l) (\<lambda>pos.
     bind_r (nth_r (xl_items l) pos) (\<lambda>it.
     bind_r (ct_cut_off X at seg it) (\<lambda>(it', split).
       let items = (xl_items l)[pos := it'];
           items' = (if ct_len X it' = 0 then remove_at pos items else items);
           pos' = (if ct_len X it' = 0 then pos else Suc pos);
           tail = drop pos' items';
           tail' = (if ct_len X split = 0 then tail else split # tail);
           new_len = at - xl_offset l
       in Ok (l\<lparr>xl_len := new_len, xl_items := (if new_len = 0 then [] else take pos' items')\<rparr>,
              l\<lparr>xl_offset := ct_offset X split, xl_len := items_len X tail', xl_items := tail'\<rparr>))))"

definition split_to ::
  "'i cut_ops \<Rightarrow> nat \<Rightarrow> segment \<Rightarrow> ('i, 'x) cut_list_scheme \<Rightarrow>
   (('i, 'x) cut_list_scheme \<times> ('i, 'x) cut_list_scheme) res"
where
  "split_to X at seg l =
     bind_r (list_locate X at l) (\<lambda>pos.
     bind_r (nth_r (xl_items l) pos) (\<lambda>it.
     bind_r (ct_cut_to X at seg it) (\<lambda>(it', split).
       let items = (xl_items l)[pos := it'];
           items' = (if ct_len X it' = 0 then remove_at pos items else items);
           head = take pos items' @ (if ct_len X split = 0 then [] else [split]);
           new_len = end_offset l - at
       in Ok (l\<lparr>xl_len := new_len, xl_offset := at,
                xl_items := (if new_len = 0 then [] else drop pos items')\<rparr>,
              l\<lparr>xl_items := head, xl_len := items_len X head\<rparr>))))"

definition span_ops :: "seg_span cut_ops" where
  "span_ops = \<lparr>ct_offset = ss_offset, ct_len = ss_len, ct_cut_off = ss_cut_off, ct_cut_to = ss_cut_to\<rparr>"

subsection \<open>Entries\<close>

record entry = "seg_span cut_list" +
  en_seg_id :: eid

definition entry_ops :: "entry cut_ops" where
  "entry_ops = \<lparr>ct_offset = xl_offset, ct_len = xl_len, ct_cut_off = split_off span_ops,
     ct_cut_to = split_to span_ops\<rparr>"

definition entry_new :: "eid \<Rightarrow> nat \<Rightarrow> entry" where
  "entry_new e off = \<lparr>xl_len = 0, xl_offset = off, xl_items = [], en_seg_id = e\<rparr>"

text \<open>The new span is merged into the last one when it continues it.\<close>

definition entry_append :: "seg_span \<Rightarrow> entry \<Rightarrow> entry res" where
  "entry_append sp e =
     (if xl_items e \<noteq> [] \<and> ss_end (last (xl_items e)) = ss_begin sp \<and> ss_seg_offset sp = 0
      then bind_r (merge_up (last (xl_items e)) sp) (\<lambda>m.
             Ok (e\<lparr>xl_items := butlast (xl_items e) @ [m], xl_len := xl_len e + ss_len sp\<rparr>))
      else Ok (e\<lparr>xl_items := xl_items e @ [sp], xl_len := xl_len e + ss_len sp\<rparr>))"

text \<open>
  \<open>seek\<close> moves the items by the same distance. (From the end the distance has the opposite
  sign.)
\<close>

definition seek_delta :: "seek_from \<Rightarrow> nat \<Rightarrow> nat \<Rightarrow> int" where
  "seek_delta pos off new_off = (case pos of
     SeekStart p \<Rightarrow> int p - int off
   | SeekEnd _ \<Rightarrow> int off - int new_off
   | SeekCurrent d \<Rightarrow> d)"

definition entry_seek :: "seek_from \<Rightarrow> entry \<Rightarrow> entry" where
  "entry_seek pos e =
     (let new_off = seek_target pos (xl_offset e) (end_offset e);
          d = seek_delta pos (xl_offset e) new_off
      in e\<lparr>xl_offset := new_off, xl_items := map (ss_seek (SeekCurrent d)) (xl_items e)\<rparr>)"

subsection \<open>Entry lists\<close>

type_synonym entry_list = "entry cut_list"

definition el_new :: entry_list where
  "el_new = \<lparr>xl_len = 0, xl_offset = 0, xl_items = []\<rparr>"

definition el_append :: "eid \<Rightarrow> seg_span \<Rightarrow> entry_list \<Rightarrow> entry_list res" where
  "el_append seg_id sp l =
     (if xl_items l \<noteq> [] \<and> en_seg_id (last (xl_items l)) = seg_id
      then bind_r (entry_append sp (last (xl_items l))) (\<lambda>e.
             Ok (l\<lparr>xl_items := butlast (xl_items l) @ [e], xl_len := xl_len l + ss_len sp\<rparr>))
      else bind_r (entry_append sp (entry_new seg_id (end_offset l))) (\<lambda>e.
             Ok (l\<lparr>xl_items := xl_items l @ [e], xl_len := xl_len l + ss_len sp\<rparr>)))"

definition el_join :: "entry_list \<Rightarrow> entry_list \<Rightarrow> entry_list res" where
  "el_join other l = assert_r (end_offset l = xl_offset other)
     (Ok (l\<lparr>xl_len := xl_len l + xl_len other, xl_items := xl_items l @ xl_items other\<rparr>))"

definition el_seek :: "seek_from \<Rightarrow> entry_list \<Rightarrow> entry_list" where
  "el_seek pos l =
     (let new_off = seek_target pos (xl_offset l) (end_offset l);
          d = seek_delta pos (xl_offset l) new_off
      in l\<lparr>xl_offset := new_off, xl_items := map (entry_seek (SeekCurrent d)) (xl_items l)\<rparr>)"

text \<open>
  What the entries need of the store: a reference to a segment, reading it, running a
  computation on its mutable copy (\<open>make_mut\<close>), removing it, and shrinking it.
\<close>

record 's seg_ops =
  so_get :: "eid \<Rightarrow> (nat, error, 's) eff"
  so_read :: "nat \<Rightarrow> (segment, error, 's) eff"
  so_mut :: "nat \<Rightarrow> (unit, error, segment) eff \<Rightarrow> (unit, error, 's) eff"
  so_remove :: "nat \<Rightarrow> (unit, error, 's) eff"
  so_shrink :: "nat \<Rightarrow> (nat list, error, 's) eff"

text \<open>Cut the list at \<open>at\<close> with the segment of the entry found there.\<close>

definition cut_with ::
  "'s seg_ops \<Rightarrow> (segment \<Rightarrow> entry_list \<Rightarrow> (entry_list \<times> entry_list) res) \<Rightarrow> nat \<Rightarrow> entry_list \<Rightarrow>
   (entry_list, error, 's) eff"
where
  "cut_with O1 f at l =
     bind_s (lift_r (list_locate entry_ops at l)) (\<lambda>pos.
     bind_s (lift_r (nth_r (xl_items l) pos)) (\<lambda>e.
     bind_s (so_get O1 (en_seg_id e)) (\<lambda>r.
     bind_s (so_read O1 r) (\<lambda>seg.
     bind_s (lift_r (f seg l)) (\<lambda>(l', _). ret_s l')))))"

text \<open>The new list, the excluded head and the excluded tail.\<close>

definition write_with ::
  "'s seg_ops \<Rightarrow> entry_list \<Rightarrow> entry_list \<Rightarrow> (entry_list \<times> entry_list \<times> entry_list, error, 's) eff"
where
  "write_with O1 other l =
     (let at = xl_offset other; end_at = end_offset other in
      bind_s (assert_s (xl_offset l \<le> at \<and> at \<le> end_offset l)) (\<lambda>_.
      bind_s (if at < end_offset l then cut_with O1 (split_off entry_ops at) at l else ret_s l) (\<lambda>head.
      bind_s (lift_r (el_join other head)) (\<lambda>l1.
        let tail = (if end_at < end_offset l then l else el_new)
        in if end_at < end_offset tail
           then bind_s (cut_with O1 (split_to entry_ops end_at) end_at tail) (\<lambda>tail'.
                bind_s (lift_r (el_join tail' l1)) (\<lambda>l2. ret_s (l2, head, tail')))
           else ret_s (l1, head, tail)))))"

definition link_entry :: "'s seg_ops \<Rightarrow> entry \<Rightarrow> (unit, error, 's) eff" where
  "link_entry O1 e =
     bind_s (so_get O1 (en_seg_id e)) (\<lambda>r.
     so_mut O1 r (for_s (\<lambda>sp. ref_chunks (ss_begin sp) (ss_end sp)) (xl_items e)))"

definition el_link :: "'s seg_ops \<Rightarrow> entry_list \<Rightarrow> (unit, error, 's) eff" where
  "el_link O1 l = for_s (link_entry O1) (xl_items l)"

text \<open>The state of unlinking is the chunk map of the file and the store.\<close>

definition on_store :: "('a, error, 's) eff \<Rightarrow> ('a, error, chunk_map \<times> 's) eff" where
  "on_store m = zoom snd (\<lambda>s (c, _). (c, s)) m"

definition on_chunk_map :: "(chunk_map \<Rightarrow> chunk_map) \<Rightarrow> (unit, error, chunk_map \<times> 's) eff" where
  "on_chunk_map f = modify_s (\<lambda>(c, s). (f c, s))"

definition remove_orphan ::
  "'s seg_ops \<Rightarrow> (hash, chunk_idx) lhm_ops \<Rightarrow> nat \<Rightarrow> eid \<Rightarrow> (unit, error, chunk_map \<times> 's) eff"
where
  "remove_orphan O1 L r e =
     bind_s (on_store (so_remove O1 r)) (\<lambda>_. on_chunk_map (cm_remove_segment L e))"

definition unlink_entry ::
  "'s seg_ops \<Rightarrow> (hash, chunk_idx) lhm_ops \<Rightarrow> entry \<Rightarrow> (unit, error, chunk_map \<times> 's) eff"
where
  "unlink_entry O1 L e =
     bind_s (on_store (so_get O1 (en_seg_id e))) (\<lambda>r.
     bind_s (on_store (so_mut O1 r (for_s (\<lambda>sp. deref_chunks (ss_begin sp) (ss_end sp)) (xl_items e)))) (\<lambda>_.
     bind_s (on_store (so_read O1 r)) (\<lambda>seg.
       if is_orphan seg then remove_orphan O1 L r (en_seg_id e)
       else if is_shrinkable seg
       then bind_s (on_store (so_shrink O1 r)) (\<lambda>retired.
            on_chunk_map (cm_remove_chunks L (en_seg_id e) retired))
       else ret_s ())))"

definition el_unlink ::
  "'s seg_ops \<Rightarrow> (hash, chunk_idx) lhm_ops \<Rightarrow> entry_list \<Rightarrow> (unit, error, chunk_map \<times> 's) eff"
where
  "el_unlink O1 L l = for_s (unlink_entry O1 L) (xl_items l)"

definition unlink_weak_entry ::
  "'s seg_ops \<Rightarrow> (hash, chunk_idx) lhm_ops \<Rightarrow> entry \<Rightarrow> (unit, error, chunk_map \<times> 's) eff"
where
  "unlink_weak_entry O1 L e =
     bind_s (on_store (so_get O1 (en_seg_id e))) (\<lambda>r.
     bind_s (on_store (so_read O1 r)) (\<lambda>seg.
       if is_orphan seg then remove_orphan O1 L r (en_seg_id e) else ret_s ()))"

definition el_unlink_weak ::
  "'s seg_ops \<Rightarrow> (hash, chunk_idx) lhm_ops \<Rightarrow> entry_list \<Rightarrow> (unit, error, chunk_map \<times> 's) eff"
where
  "el_unlink_weak O1 L l = for_s (unlink_weak_entry O1 L) (xl_items l)"

text \<open>
  \<open>check\<close>: the entries, and the spans of every entry, are not empty and follow each other
  without gaps, and the lengths add up.
\<close>

fun tiles :: "'i cut_ops \<Rightarrow> nat \<Rightarrow> 'i list \<Rightarrow> bool" where
  "tiles X off [] \<longleftrightarrow> True"
| "tiles X off (i # is) \<longleftrightarrow> 0 < ct_len X i \<and> ct_offset X i = off \<and> tiles X (off + ct_len X i) is"

definition list_check :: "'i cut_ops \<Rightarrow> ('i, 'x) cut_list_scheme \<Rightarrow> bool" where
  "list_check X l \<longleftrightarrow> tiles X (xl_offset l) (xl_items l) \<and> items_len X (xl_items l) = xl_len l"

definition el_check :: "entry_list \<Rightarrow> bool" where
  "el_check l \<longleftrightarrow> list_check entry_ops l \<and> (\<forall>e \<in> set (xl_items l). list_check span_ops e)"

subsection \<open>Cutting a list\<close>

lemma tiles_append: "tiles X off (is @ js) \<longleftrightarrow> tiles X off is \<and> tiles X (off + items_len X is) js"
  by (induction "is" arbitrary: off) (auto simp: items_len_def add.assoc)

lemma items_len_append [simp]: "items_len X (is @ js) = items_len X is + items_len X js"
  by (simp add: items_len_def)

lemma items_len_simps [simp]: "items_len X [] = 0" "items_len X (i # is) = ct_len X i + items_len X is"
  by (simp_all add: items_len_def)

lemma tiles_empty: "tiles X off is \<Longrightarrow> items_len X is = 0 \<Longrightarrow> is = []"
  by (cases "is") auto

text \<open>The item that covers an offset, and how far into the list it is.\<close>

lemma tiles_locate:
  assumes "tiles X off is" and "is \<noteq> []" and "off \<le> at" and "at \<le> off + items_len X is"
  shows "\<exists>pre it post. is = pre @ it # post \<and>
    position (\<lambda>i. ct_offset X i \<le> at \<and> at \<le> ct_offset X i + ct_len X i) is = Some (length pre) \<and>
    ct_offset X it \<le> at \<and> at \<le> ct_offset X it + ct_len X it"
  using assms
proof (induction "is" arbitrary: off)
  case (Cons i "is")
  show ?case
  proof (cases "at \<le> off + ct_len X i")
    case True
    with Cons.prems show ?thesis by (intro exI [of _ "[]"]) simp
  next
    case False
    with Cons.prems have "is \<noteq> []" by (cases "is") auto
    moreover have "tiles X (off + ct_len X i) is" "off + ct_len X i \<le> at"
      "at \<le> off + ct_len X i + items_len X is" using Cons.prems False by simp_all
    ultimately obtain pre it post where IH: "is = pre @ it # post"
      "position (\<lambda>i. ct_offset X i \<le> at \<and> at \<le> ct_offset X i + ct_len X i) is = Some (length pre)"
      "ct_offset X it \<le> at" "at \<le> ct_offset X it + ct_len X it"
      using Cons.IH by blast
    with False Cons.prems show ?thesis
      by (intro exI [of _ "i # pre"] exI [of _ it] exI [of _ post]) simp
  qed
qed simp

text \<open>
  The contract of an item type: the bytes it stands for, and what cutting does to them. It is
  enough to describe the part that is kept.
\<close>

definition items_bytes :: "('i \<Rightarrow> bytes) \<Rightarrow> 'i list \<Rightarrow> bytes" where
  "items_bytes bts is = concat (map bts is)"

lemma items_bytes_append [simp]: "items_bytes bts (is @ js) = items_bytes bts is @ items_bytes bts js"
  by (simp add: items_bytes_def)

locale cutable =
  fixes X :: "'i cut_ops" and ok :: "'i \<Rightarrow> bool" and bts :: "'i \<Rightarrow> bytes" and segof :: "'i \<Rightarrow> segment"
  assumes bts_len: "ok i \<Longrightarrow> length (bts i) = ct_len X i"
    and cut_off: "ok i \<Longrightarrow> ct_offset X i \<le> at \<Longrightarrow> at \<le> ct_offset X i + ct_len X i \<Longrightarrow>
      \<exists>i' r. ct_cut_off X at (segof i) i = Ok (i', r) \<and> ct_offset X i' = ct_offset X i \<and>
        ct_len X i' = at - ct_offset X i \<and>
        (ct_offset X i < at \<longrightarrow> ok i' \<and> bts i' = take (at - ct_offset X i) (bts i))"
    and cut_to: "ok i \<Longrightarrow> ct_offset X i \<le> at \<Longrightarrow> at \<le> ct_offset X i + ct_len X i \<Longrightarrow>
      \<exists>i' r. ct_cut_to X at (segof i) i = Ok (i', r) \<and> ct_offset X i' = at \<and>
        ct_len X i' = ct_offset X i + ct_len X i - at \<and>
        (at < ct_offset X i + ct_len X i \<longrightarrow> ok i' \<and> bts i' = drop (at - ct_offset X i) (bts i))"
begin

lemma items_bytes_len: "list_all ok is \<Longrightarrow> length (items_bytes bts is) = items_len X is"
  by (induction "is") (simp_all add: list_all_iff items_bytes_def bts_len)

text \<open>The items before and after the one that is found.\<close>

lemma locate_split:
  assumes "list_check X l" and "list_all ok (xl_items l)" and "xl_items l \<noteq> []"
    and "xl_offset l \<le> at" and "at \<le> end_offset l"
  obtains pre it post where "xl_items l = pre @ it # post" "list_locate X at l = Ok (length pre)"
    "ok it" "ct_offset X it \<le> at" "at \<le> ct_offset X it + ct_len X it"
    "ct_offset X it = xl_offset l + items_len X pre" "tiles X (xl_offset l) pre"
    "tiles X (ct_offset X it + ct_len X it) post" "xl_len l = items_len X pre + ct_len X it + items_len X post"
proof -
  have t: "tiles X (xl_offset l) (xl_items l)" "items_len X (xl_items l) = xl_len l"
    using assms(1) by (simp_all add: list_check_def)
  from tiles_locate [OF t(1) assms(3,4)] assms(5) t(2) obtain pre it post
    where d: "xl_items l = pre @ it # post"
      "position (\<lambda>i. ct_offset X i \<le> at \<and> at \<le> ct_offset X i + ct_len X i) (xl_items l) = Some (length pre)"
      "ct_offset X it \<le> at" "at \<le> ct_offset X it + ct_len X it"
    by (auto simp: end_offset_def)
  have "list_locate X at l = Ok (length pre)"
    using assms(4,5) d(2) by (simp add: list_locate_def assert_r_def)
  moreover have "ok it" using assms(2) d(1) by (simp add: list_all_iff)
  ultimately show ?thesis
    using that d t by (simp add: tiles_append)
qed

lemma split_off_ok:
  assumes "list_check X l" and "list_all ok (xl_items l)" and "xl_items l \<noteq> []"
    and at: "xl_offset l \<le> at" "at \<le> end_offset l"
  shows "\<exists>pos l' r. list_locate X at l = Ok pos \<and> pos < length (xl_items l) \<and>
    split_off X at (segof (xl_items l ! pos)) l = Ok (l', r) \<and> list_check X l' \<and> list_all ok (xl_items l') \<and>
    xl_offset l' = xl_offset l \<and> xl_len l' = at - xl_offset l \<and>
    items_bytes bts (xl_items l') = take (at - xl_offset l) (items_bytes bts (xl_items l)) \<and>
    cut_list.more l' = cut_list.more l"
proof -
  obtain pre it post where d: "xl_items l = pre @ it # post" "list_locate X at l = Ok (length pre)"
    "ok it" "ct_offset X it \<le> at" "at \<le> ct_offset X it + ct_len X it"
    "ct_offset X it = xl_offset l + items_len X pre" "tiles X (xl_offset l) pre"
    using locate_split [OF assms] by metis
  from cut_off [OF d(3-5)] obtain it' r where c: "ct_cut_off X at (segof it) it = Ok (it', r)"
    "ct_offset X it' = ct_offset X it" "ct_len X it' = at - ct_offset X it"
    "ct_offset X it < at \<Longrightarrow> ok it' \<and> bts it' = take (at - ct_offset X it) (bts it)" by blast
  define head where "head = (if ct_len X it' = 0 then pre else pre @ [it'])"
  have pre: "list_all ok pre" using assms(2) d(1) by (simp add: list_all_iff)
  have head: "tiles X (xl_offset l) head" "items_len X head = at - xl_offset l" "list_all ok head"
    "items_bytes bts head = take (at - xl_offset l) (items_bytes bts (xl_items l))"
    using d c pre items_bytes_len [OF pre] bts_len [OF d(3)]
    by (auto simp: head_def tiles_append list_all_iff items_bytes_def)
  let ?new = "at - xl_offset l"
  have "(if ?new = 0 then [] else head) = head"
    using tiles_empty [OF head(1)] head(2) by simp
  then have "\<exists>r'. split_off X at (segof it) l = Ok (l\<lparr>xl_len := ?new, xl_items := head\<rparr>, r')"
    using d(1,2) c(1) by (auto simp: split_off_def nth_r_def Let_def remove_at_def head_def)
  with d(1,2) head show ?thesis
    by (auto simp: list_check_def)
qed

lemma split_to_ok:
  assumes "list_check X l" and "list_all ok (xl_items l)" and "xl_items l \<noteq> []"
    and at: "xl_offset l \<le> at" "at \<le> end_offset l"
  shows "\<exists>pos l' r. list_locate X at l = Ok pos \<and> pos < length (xl_items l) \<and>
    split_to X at (segof (xl_items l ! pos)) l = Ok (l', r) \<and> list_check X l' \<and> list_all ok (xl_items l') \<and>
    xl_offset l' = at \<and> xl_len l' = end_offset l - at \<and>
    items_bytes bts (xl_items l') = drop (at - xl_offset l) (items_bytes bts (xl_items l)) \<and>
    cut_list.more l' = cut_list.more l"
proof -
  obtain pre it post where d: "xl_items l = pre @ it # post" "list_locate X at l = Ok (length pre)"
    "ok it" "ct_offset X it \<le> at" "at \<le> ct_offset X it + ct_len X it"
    "ct_offset X it = xl_offset l + items_len X pre"
    "tiles X (ct_offset X it + ct_len X it) post" "xl_len l = items_len X pre + ct_len X it + items_len X post"
    using locate_split [OF assms] by metis
  from cut_to [OF d(3-5)] obtain it' r where c: "ct_cut_to X at (segof it) it = Ok (it', r)"
    "ct_offset X it' = at" "ct_len X it' = ct_offset X it + ct_len X it - at"
    "at < ct_offset X it + ct_len X it \<Longrightarrow> ok it' \<and> bts it' = drop (at - ct_offset X it) (bts it)" by blast
  define tail where "tail = (if ct_len X it' = 0 then post else it' # post)"
  have pre: "list_all ok pre" "list_all ok post" using assms(2) d(1) by (simp_all add: list_all_iff)
  have tail: "tiles X at tail" "items_len X tail = end_offset l - at" "list_all ok tail"
    "items_bytes bts tail = drop (at - xl_offset l) (items_bytes bts (xl_items l))"
    using d c pre items_bytes_len [OF pre(1)] bts_len [OF d(3)]
    by (auto simp: tail_def list_all_iff items_bytes_def end_offset_def)
  let ?new = "end_offset l - at"
  have "(if ?new = 0 then [] else tail) = tail"
    using tiles_empty [OF tail(1)] tail(2) by simp
  then have "\<exists>r'. split_to X at (segof it) l = Ok (l\<lparr>xl_len := ?new, xl_offset := at, xl_items := tail\<rparr>, r')"
    using d(1,2) c(1) by (auto simp: split_to_def nth_r_def Let_def remove_at_def tail_def)
  with d(1,2) tail show ?thesis
    by (auto simp: list_check_def)
qed

end

subsection \<open>The bytes of a content\<close>

text \<open>\<open>G\<close> gives the segment of an id together with its data.\<close>

type_synonym seg_map = "eid \<rightharpoonup> segment \<times> bytes"

definition span_in :: "segment \<Rightarrow> bytes \<Rightarrow> seg_span \<Rightarrow> bool" where
  "span_in seg data sp \<longleftrightarrow> span_ok seg sp \<and> end_pos (sm_chunks seg ! (ss_end sp - 1)) \<le> length data"

definition entry_ok :: "seg_map \<Rightarrow> entry \<Rightarrow> bool" where
  "entry_ok G e \<longleftrightarrow> (case G (en_seg_id e) of None \<Rightarrow> False | Some (seg, data) \<Rightarrow>
     0 < xl_len e \<and> list_check span_ops e \<and> list_all (span_in seg data) (xl_items e))"

definition entry_bytes :: "seg_map \<Rightarrow> entry \<Rightarrow> bytes" where
  "entry_bytes G e = (case G (en_seg_id e) of None \<Rightarrow> [] | Some (seg, data) \<Rightarrow>
     items_bytes (span_bytes seg data) (xl_items e))"

definition entry_seg :: "seg_map \<Rightarrow> entry \<Rightarrow> segment" where
  "entry_seg G e = fst (the (G (en_seg_id e)))"

definition content_ok :: "seg_map \<Rightarrow> entry_list \<Rightarrow> bool" where
  "content_ok G l \<longleftrightarrow> list_check entry_ops l \<and> list_all (entry_ok G) (xl_items l)"

definition content_bytes :: "seg_map \<Rightarrow> entry_list \<Rightarrow> bytes" where
  "content_bytes G l = items_bytes (entry_bytes G) (xl_items l)"

lemma span_ops_simps [simp]:
  "ct_offset span_ops = ss_offset" "ct_len span_ops = ss_len"
  "ct_cut_off span_ops = ss_cut_off" "ct_cut_to span_ops = ss_cut_to"
  by (simp_all add: span_ops_def)

lemma entry_ops_simps [simp]:
  "ct_offset entry_ops = xl_offset" "ct_len entry_ops = xl_len"
  "ct_cut_off entry_ops = split_off span_ops" "ct_cut_to entry_ops = split_to span_ops"
  by (simp_all add: entry_ops_def)

text \<open>A cut keeps the end of the data in reach.\<close>

lemma end_pos_mono:
  assumes "span_ok seg sp" and "ss_begin sp < e" and "e \<le> ss_end sp"
  shows "end_pos (sm_chunks seg ! (e - 1)) \<le> end_pos (sm_chunks seg ! (ss_end sp - 1))"
proof (cases "e = ss_end sp")
  case False
  obtain k where k: "e = Suc k" using assms(2) by (cases e) auto
  have adj: "end_pos (sm_chunks seg ! i) = ck_pos (sm_chunks seg ! Suc i)"
    if "ss_begin sp \<le> i" "Suc i < ss_end sp" for i using assms(1) that by (simp add: span_ok_def)
  have lt: "e < ss_end sp" using False assms(3) by simp
  have "end_pos (sm_chunks seg ! (e - 1)) = ck_pos (sm_chunks seg ! e)"
    using adj [of k] k lt assms(2) by simp
  also have "\<dots> \<le> ck_pos (sm_chunks seg ! (ss_end sp - 1))"
    using assms(2) lt by (intro chunk_pos_mono [where e = "ss_end sp"] adj) simp_all
  finally show ?thesis by (simp add: end_pos_def)
qed simp

interpretation spans: cutable span_ops "span_in seg data" "span_bytes seg data" "\<lambda>_. seg" for seg data
proof unfold_locales
  fix sp at
  assume in1: "span_in seg data sp"
  then have ok: "span_ok seg sp" by (simp add: span_in_def)
  show "length (span_bytes seg data sp) = ct_len span_ops sp"
    using in1 by (simp add: span_in_def span_bytes_length)
  assume at: "ct_offset span_ops sp \<le> at" "at \<le> ct_offset span_ops sp + ct_len span_ops sp"
  then have at': "ss_offset sp \<le> at" "at \<le> ss_end_offset sp" by (simp_all add: ss_end_offset_def)
  obtain sp' r where c: "ss_cut_off at seg sp = Ok (sp', r)" "ss_offset sp' = ss_offset sp"
    "ss_begin sp' = ss_begin sp" "ss_end sp' \<le> ss_end sp" "ss_len sp' = at - ss_offset sp" "ss_offset sp < at \<Longrightarrow> span_ok seg sp'"
    "span_bytes seg data sp' = take (at - ss_offset sp) (span_bytes seg data sp)"
    using ss_cut_off_ok [OF ok at', of data] by blast
  have "span_in seg data sp'" if "ss_offset sp < at"
    using c(3,4) c(6) [OF that] end_pos_mono [OF ok, of "ss_end sp'"] in1 by (auto simp: span_in_def span_ok_def)
  with c show "\<exists>i' r. ct_cut_off span_ops at seg sp = Ok (i', r) \<and>
      ct_offset span_ops i' = ct_offset span_ops sp \<and> ct_len span_ops i' = at - ct_offset span_ops sp \<and>
      (ct_offset span_ops sp < at \<longrightarrow> span_in seg data i' \<and>
       span_bytes seg data i' = take (at - ct_offset span_ops sp) (span_bytes seg data sp))" by simp
  obtain sp'' r' where d: "ss_cut_to at seg sp = Ok (sp'', r')" "ss_offset sp'' = at"
    "ss_end sp'' = ss_end sp" "ss_len sp'' = ss_end_offset sp - at" "at < ss_end_offset sp \<Longrightarrow> span_ok seg sp'' \<and>
      span_bytes seg data sp'' = drop (at - ss_offset sp) (span_bytes seg data sp)"
    using ss_cut_to_ok [OF ok at', of data] by blast
  with in1 show "\<exists>i' r. ct_cut_to span_ops at seg sp = Ok (i', r) \<and> ct_offset span_ops i' = at \<and>
      ct_len span_ops i' = ct_offset span_ops sp + ct_len span_ops sp - at \<and>
      (at < ct_offset span_ops sp + ct_len span_ops sp \<longrightarrow> span_in seg data i' \<and>
       span_bytes seg data i' = drop (at - ct_offset span_ops sp) (span_bytes seg data sp))"
    by (auto simp: span_in_def ss_end_offset_def)
qed

text \<open>Entries inherit the contract from their spans.\<close>

lemma entry_split:
  assumes "entry_ok G e" and "xl_offset e \<le> at" and "at \<le> end_offset e"
  shows "\<exists>e' r. split_off span_ops at (entry_seg G e) e = Ok (e', r) \<and> xl_offset e' = xl_offset e \<and>
      xl_len e' = at - xl_offset e \<and>
      (xl_offset e < at \<longrightarrow> entry_ok G e' \<and> entry_bytes G e' = take (at - xl_offset e) (entry_bytes G e))"
    and "\<exists>e' r. split_to span_ops at (entry_seg G e) e = Ok (e', r) \<and> xl_offset e' = at \<and>
      xl_len e' = end_offset e - at \<and>
      (at < end_offset e \<longrightarrow> entry_ok G e' \<and> entry_bytes G e' = drop (at - xl_offset e) (entry_bytes G e))"
proof -
  from assms(1) obtain seg data where G: "G (en_seg_id e) = Some (seg, data)" and len: "0 < xl_len e"
    and c: "list_check span_ops e" and a: "list_all (span_in seg data) (xl_items e)"
    by (auto simp: entry_ok_def split: option.splits)
  have ne: "xl_items e \<noteq> []" using len c by (auto simp: list_check_def)
  have id: "en_seg_id e' = en_seg_id e" if "cut_list.more e' = cut_list.more e" for e'
    using that by (cases e; cases e') (simp add: cut_list.defs entry.defs)
  show "\<exists>e' r. split_off span_ops at (entry_seg G e) e = Ok (e', r) \<and> xl_offset e' = xl_offset e \<and>
      xl_len e' = at - xl_offset e \<and>
      (xl_offset e < at \<longrightarrow> entry_ok G e' \<and> entry_bytes G e' = take (at - xl_offset e) (entry_bytes G e))"
  proof -
    obtain e' r where e': "split_off span_ops at seg e = Ok (e', r)" "list_check span_ops e'"
      "list_all (span_in seg data) (xl_items e')" "xl_offset e' = xl_offset e" "xl_len e' = at - xl_offset e"
      "items_bytes (span_bytes seg data) (xl_items e') =
         take (at - xl_offset e) (items_bytes (span_bytes seg data) (xl_items e))"
      "cut_list.more e' = cut_list.more e"
      using spans.split_off_ok [OF c a ne assms(2,3)] by blast
    with G id [OF e'(7)] show ?thesis
      by (simp add: entry_seg_def entry_ok_def entry_bytes_def)
  qed
  show "\<exists>e' r. split_to span_ops at (entry_seg G e) e = Ok (e', r) \<and> xl_offset e' = at \<and>
      xl_len e' = end_offset e - at \<and>
      (at < end_offset e \<longrightarrow> entry_ok G e' \<and> entry_bytes G e' = drop (at - xl_offset e) (entry_bytes G e))"
  proof -
    obtain e' r where e': "split_to span_ops at seg e = Ok (e', r)" "list_check span_ops e'"
      "list_all (span_in seg data) (xl_items e')" "xl_offset e' = at" "xl_len e' = end_offset e - at"
      "items_bytes (span_bytes seg data) (xl_items e') =
         drop (at - xl_offset e) (items_bytes (span_bytes seg data) (xl_items e))"
      "cut_list.more e' = cut_list.more e"
      using spans.split_to_ok [OF c a ne assms(2,3)] by blast
    with G id [OF e'(7)] show ?thesis
      by (simp add: entry_seg_def entry_ok_def entry_bytes_def)
  qed
qed

interpretation entries: cutable entry_ops "entry_ok G" "entry_bytes G" "entry_seg G" for G
proof unfold_locales
  fix e at
  assume ok: "entry_ok G e"
  then obtain seg data where G: "G (en_seg_id e) = Some (seg, data)"
    and c: "list_check span_ops e" and a: "list_all (span_in seg data) (xl_items e)"
    by (auto simp: entry_ok_def split: option.splits)
  show "length (entry_bytes G e) = ct_len entry_ops e"
    using spans.items_bytes_len [OF a] c G by (simp add: entry_bytes_def list_check_def)
  assume at: "ct_offset entry_ops e \<le> at" "at \<le> ct_offset entry_ops e + ct_len entry_ops e"
  then have at': "xl_offset e \<le> at" "at \<le> end_offset e" by (simp_all add: end_offset_def)
  note entry_split [OF ok at']
  then show "\<exists>i' r. ct_cut_off entry_ops at (entry_seg G e) e = Ok (i', r) \<and>
      ct_offset entry_ops i' = ct_offset entry_ops e \<and> ct_len entry_ops i' = at - ct_offset entry_ops e \<and>
      (ct_offset entry_ops e < at \<longrightarrow> entry_ok G i' \<and>
       entry_bytes G i' = take (at - ct_offset entry_ops e) (entry_bytes G e))"
    and "\<exists>i' r. ct_cut_to entry_ops at (entry_seg G e) e = Ok (i', r) \<and> ct_offset entry_ops i' = at \<and>
      ct_len entry_ops i' = ct_offset entry_ops e + ct_len entry_ops e - at \<and>
      (at < ct_offset entry_ops e + ct_len entry_ops e \<longrightarrow> entry_ok G i' \<and>
       entry_bytes G i' = drop (at - ct_offset entry_ops e) (entry_bytes G e))"
    by (simp_all add: end_offset_def)
qed

subsection \<open>Writing a content into another one\<close>

text \<open>The store finds the segments it holds and reading them changes none.\<close>

definition serves :: "('s \<Rightarrow> bool) \<Rightarrow> ('s \<Rightarrow> eid \<rightharpoonup> segment) \<Rightarrow> seg_map \<Rightarrow> 's \<Rightarrow> bool" where
  "serves sinv view G s \<longleftrightarrow> sinv s \<and> (\<forall>e seg data. G e = Some (seg, data) \<longrightarrow> view s e = Some seg)"

locale seg_store =
  fixes O1 :: "'s seg_ops" and sinv :: "'s \<Rightarrow> bool" and view :: "'s \<Rightarrow> eid \<rightharpoonup> segment"
  assumes get_read: "sinv s \<Longrightarrow> view s e = Some seg \<Longrightarrow>
    \<exists>r s'. so_get O1 e s = (Ok r, s') \<and> so_read O1 r s' = (Ok seg, s') \<and> sinv s' \<and> view s' = view s"
begin

lemma cut_with_run:
  assumes "serves sinv view G s" and "list_all (entry_ok G) (xl_items l)"
    and "list_locate entry_ops at l = Ok pos" and "pos < length (xl_items l)"
    and "f (entry_seg G (xl_items l ! pos)) l = Ok (l', r)"
  shows "\<exists>s'. cut_with O1 f at l s = (Ok l', s') \<and> serves sinv view G s' \<and> view s' = view s"
proof -
  let ?e = "xl_items l ! pos"
  have "entry_ok G ?e" using assms(2,4) by (simp add: list_all_length)
  then obtain data where "G (en_seg_id ?e) = Some (entry_seg G ?e, data)"
    by (auto simp: entry_ok_def entry_seg_def split: option.splits)
  then have "view s (en_seg_id ?e) = Some (entry_seg G ?e)" and inv: "sinv s"
    using assms(1) by (auto simp: serves_def)
  from get_read [OF inv this(1)] obtain q s' where g: "so_get O1 (en_seg_id ?e) s = (Ok q, s')"
    "so_read O1 q s' = (Ok (entry_seg G ?e), s')" "sinv s'" "view s' = view s" by blast
  then have "cut_with O1 f at l s = (Ok l', s')"
    using assms(3-5) by (simp add: cut_with_def nth_r_def)
  with g(3,4) assms(1) show ?thesis by (simp add: serves_def)
qed

lemma cut_off_run:
  assumes "serves sinv view G s" and "content_ok G l" and "xl_offset l \<le> at" and "at \<le> end_offset l"
    and "xl_items l \<noteq> []"
  shows "\<exists>l' s'. cut_with O1 (split_off entry_ops at) at l s = (Ok l', s') \<and> serves sinv view G s' \<and> view s' = view s \<and>
    content_ok G l' \<and> xl_offset l' = xl_offset l \<and> end_offset l' = at \<and>
    content_bytes G l' = take (at - xl_offset l) (content_bytes G l)"
proof -
  have c: "list_check entry_ops l" "list_all (entry_ok G) (xl_items l)"
    using assms(2) by (simp_all add: content_ok_def)
  obtain pos l' r where d: "list_locate entry_ops at l = Ok pos" "pos < length (xl_items l)"
    "split_off entry_ops at (entry_seg G (xl_items l ! pos)) l = Ok (l', r)"
    "list_check entry_ops l'" "list_all (entry_ok G) (xl_items l')" "xl_offset l' = xl_offset l"
    "xl_len l' = at - xl_offset l" "items_bytes (entry_bytes G) (xl_items l') =
       take (at - xl_offset l) (items_bytes (entry_bytes G) (xl_items l))"
    using entries.split_off_ok [OF c assms(5,3,4)] by blast
  from cut_with_run [where f = "split_off entry_ops at", OF assms(1) c(2) d(1-3)] d(4-) assms(3) show ?thesis
    by (auto simp: content_ok_def content_bytes_def end_offset_def)
qed

lemma cut_to_run:
  assumes "serves sinv view G s" and "content_ok G l" and "xl_offset l \<le> at" and "at \<le> end_offset l"
    and "xl_items l \<noteq> []"
  shows "\<exists>l' s'. cut_with O1 (split_to entry_ops at) at l s = (Ok l', s') \<and> serves sinv view G s' \<and> view s' = view s \<and>
    content_ok G l' \<and> xl_offset l' = at \<and> end_offset l' = end_offset l \<and>
    content_bytes G l' = drop (at - xl_offset l) (content_bytes G l)"
proof -
  have c: "list_check entry_ops l" "list_all (entry_ok G) (xl_items l)"
    using assms(2) by (simp_all add: content_ok_def)
  obtain pos l' r where d: "list_locate entry_ops at l = Ok pos" "pos < length (xl_items l)"
    "split_to entry_ops at (entry_seg G (xl_items l ! pos)) l = Ok (l', r)"
    "list_check entry_ops l'" "list_all (entry_ok G) (xl_items l')" "xl_offset l' = at"
    "xl_len l' = end_offset l - at" "items_bytes (entry_bytes G) (xl_items l') =
       drop (at - xl_offset l) (items_bytes (entry_bytes G) (xl_items l))"
    using entries.split_to_ok [OF c assms(5,3,4)] by blast
  from cut_with_run [where f = "split_to entry_ops at", OF assms(1) c(2) d(1-3)] d(4-) assms(4) show ?thesis
    by (auto simp: content_ok_def content_bytes_def end_offset_def)
qed

end

lemma content_bytes_length: "content_ok G l \<Longrightarrow> length (content_bytes G l) = xl_len l"
  by (simp add: content_bytes_def content_ok_def list_check_def entries.items_bytes_len)

lemma el_join_ok:
  assumes "content_ok G l" and "content_ok G m" and "end_offset l = xl_offset m"
  shows "\<exists>n. el_join m l = Ok n \<and> content_ok G n \<and> xl_offset n = xl_offset l \<and>
    end_offset n = end_offset m \<and> content_bytes G n = content_bytes G l @ content_bytes G m"
  using assms by (auto simp: el_join_def assert_r_def content_ok_def list_check_def tiles_append
      content_bytes_def end_offset_def)

lemma content_ok_check: "content_ok G l \<Longrightarrow> el_check l"
  by (auto simp: content_ok_def el_check_def list_all_iff entry_ok_def split: option.splits)

lemma content_items: "content_ok G l \<Longrightarrow> at < end_offset l \<Longrightarrow> xl_offset l \<le> at \<Longrightarrow> xl_items l \<noteq> []"
  by (auto simp: content_ok_def list_check_def end_offset_def)

text \<open>
  Writing one content into another overlays its bytes: for every well-formed content and
  every well-formed written part that starts within it, \<open>write_with\<close> succeeds, the result passes
  \<open>check\<close>, and its bytes are those of the old content before the written range, the written
  bytes, and those of the old content after it; the store still holds the same segments.
\<close>

lemma write_with_overlay:
  assumes "seg_store O1 sinv view" and "serves sinv view G s"
    and "content_ok G l" and "content_ok G other"
    and "xl_offset l \<le> xl_offset other" and "xl_offset other \<le> end_offset l"
  shows "\<exists>l' head tail s'. write_with O1 other l s = (Ok (l', head, tail), s') \<and> serves sinv view G s' \<and> view s' = view s \<and>
    content_ok G l' \<and> el_check l' \<and> xl_offset l' = xl_offset l \<and>
    end_offset l' = max (end_offset l) (end_offset other) \<and>
    content_bytes G l' = take (xl_offset other - xl_offset l) (content_bytes G l) @ content_bytes G other @
      drop (end_offset other - xl_offset l) (content_bytes G l)"
proof -
  let ?at = "xl_offset other" and ?fin = "end_offset other" and ?b = "content_bytes G l"
  note len = content_bytes_length [OF assms(3)]
  have "\<exists>head s1. (if ?at < end_offset l then cut_with O1 (split_off entry_ops ?at) ?at l else ret_s l) s =
      (Ok head, s1) \<and> serves sinv view G s1 \<and> view s1 = view s \<and> content_ok G head \<and>
      xl_offset head = xl_offset l \<and> end_offset head = ?at \<and>
      content_bytes G head = take (?at - xl_offset l) ?b"
  proof (cases "?at < end_offset l")
    case True
    with seg_store.cut_off_run [OF assms(1-3,5,6)] content_items [OF assms(3) True assms(5)]
    show ?thesis by simp
  next
    case False
    with assms len show ?thesis by (auto simp: end_offset_def)
  qed
  then obtain head s1 where h: "(if ?at < end_offset l then cut_with O1 (split_off entry_ops ?at) ?at l
      else ret_s l) s = (Ok head, s1)" "serves sinv view G s1" "view s1 = view s" "content_ok G head"
    "xl_offset head = xl_offset l" "end_offset head = ?at" "content_bytes G head = take (?at - xl_offset l) ?b"
    by blast
  obtain l1 where j: "el_join other head = Ok l1" "content_ok G l1" "xl_offset l1 = xl_offset l"
    "end_offset l1 = ?fin" "content_bytes G l1 = content_bytes G head @ content_bytes G other"
    using el_join_ok [OF h(4) assms(4) h(6)] h(5) by auto
  have e: "xl_offset l \<le> ?fin" using assms(5) by (simp add: end_offset_def)
  show ?thesis
  proof (cases "?fin < end_offset l")
    case True
    from seg_store.cut_to_run [OF assms(1) h(2) assms(3) e] True content_items [OF assms(3) True e]
    obtain t s2 where t: "cut_with O1 (split_to entry_ops ?fin) ?fin l s1 = (Ok t, s2)"
      "serves sinv view G s2" "view s2 = view s1" "content_ok G t" "xl_offset t = ?fin" "end_offset t = end_offset l"
      "content_bytes G t = drop (?fin - xl_offset l) ?b" by auto
    from el_join_ok [OF j(2) t(4)] j(4) t(5) obtain l2 where l2: "el_join t l1 = Ok l2" "content_ok G l2"
      "xl_offset l2 = xl_offset l1" "end_offset l2 = end_offset t"
      "content_bytes G l2 = content_bytes G l1 @ content_bytes G t" by auto
    have "write_with O1 other l s = (Ok (l2, head, t), s2)"
      using True h(1) j(1) t(1) l2(1) assms(5,6) by (simp add: write_with_def Let_def)
    with l2 t j h True content_ok_check [OF l2(2)] show ?thesis by simp
  next
    case False
    have "write_with O1 other l s = (Ok (l1, head, el_new), s1)"
      using False h(1) j(1) assms(5,6) by (simp add: write_with_def Let_def end_offset_def el_new_def)
    moreover have "drop (?fin - xl_offset l) ?b = []" using False len by (simp add: end_offset_def)
    ultimately show ?thesis using j h False content_ok_check [OF j(2)] by simp
  qed
qed

end
