(* ===== verification/Content_Append.thy ===== *)
theory Content_Append
  imports Entry_List
begin

text \<open>
  Appending whole chunks to an entry list, as the content writer does, and growing segments: a
  chunk appended to the last entry or to a new one adds exactly its bytes to the content, whether
  or not its span is merged into the last one; and the bytes of a content do not change when the
  segment it refers to gets more chunks.
\<close>

subsection \<open>Packed segments\<close>

text \<open>A segment whose chunks follow each other without gaps and cover its data.\<close>

definition packed :: "segment \<Rightarrow> bytes \<Rightarrow> bool" where
  "packed seg data \<longleftrightarrow> sm_len seg = length data \<and> (\<forall>c \<in> set (sm_chunks seg). 0 < ck_len c) \<and>
     (\<forall>i. Suc i < length (sm_chunks seg) \<longrightarrow> end_pos (sm_chunks seg ! i) = ck_pos (sm_chunks seg ! Suc i)) \<and>
     (sm_chunks seg \<noteq> [] \<longrightarrow> end_pos (last (sm_chunks seg)) = length data)"

definition chunk_bytes :: "segment \<Rightarrow> bytes \<Rightarrow> nat \<Rightarrow> bytes" where
  "chunk_bytes seg data i = take (ck_len (sm_chunks seg ! i)) (drop (ck_pos (sm_chunks seg ! i)) data)"

lemma packed_end:
  assumes "packed seg data" and "i < length (sm_chunks seg)"
  shows "end_pos (sm_chunks seg ! i) \<le> length data"
  using assms(2)
proof (induction "length (sm_chunks seg) - i" arbitrary: i rule: less_induct)
  case less
  show ?case
  proof (cases "Suc i = length (sm_chunks seg)")
    case True
    then have "sm_chunks seg ! i = last (sm_chunks seg)" "sm_chunks seg \<noteq> []"
      by (metis diff_Suc_1 last_conv_nth list.size(3) nat.distinct(1), use True in auto)
    then show ?thesis using assms(1) by (simp add: packed_def)
  next
    case False
    then have i: "Suc i < length (sm_chunks seg)" using less.prems by simp
    then have "end_pos (sm_chunks seg ! i) = ck_pos (sm_chunks seg ! Suc i)" using assms(1) by (simp add: packed_def)
    also have "\<dots> \<le> end_pos (sm_chunks seg ! Suc i)" by (simp add: end_pos_def)
    also have "\<dots> \<le> length data" using i by (intro less.hyps) simp_all
    finally show ?thesis .
  qed
qed

lemma packed_new: "packed (segment_new e) []"
  by (simp add: packed_def segment_new_def)

lemma packed_append:
  assumes "packed seg data" and "c \<noteq> []"
  shows "packed (append_chunk (length c) seg) (data @ c)"
    and "chunk_bytes (append_chunk (length c) seg) (data @ c) (length (sm_chunks seg)) = c"
proof -
  let ?cs = "sm_chunks seg"
  have new: "chunk_new (length data) (length c) = \<lparr>ck_pos = length data, ck_len = length c, ck_refcnt = refcnt_new\<rparr>"
    by (simp add: chunk_new_def)
  have "end_pos ((?cs @ [chunk_new (length data) (length c)]) ! i) = ck_pos ((?cs @ [chunk_new (length data) (length c)]) ! Suc i)"
    if "i < length ?cs" for i
  proof (cases "Suc i < length ?cs")
    case True
    then show ?thesis using assms(1) by (simp add: packed_def nth_append)
  next
    case False
    then have "i = length ?cs - 1" "?cs \<noteq> []" using that by auto
    then show ?thesis using assms(1) that new by (simp add: packed_def nth_append last_conv_nth)
  qed
  then show "packed (append_chunk (length c) seg) (data @ c)"
    using assms new by (auto simp: packed_def append_chunk_def end_pos_def)
  show "chunk_bytes (append_chunk (length c) seg) (data @ c) (length ?cs) = c"
    using assms(1) new by (simp add: chunk_bytes_def append_chunk_def packed_def)
qed

subsection \<open>Growing segments\<close>

definition seg_grows :: "segment \<times> bytes \<Rightarrow> segment \<times> bytes \<Rightarrow> bool" where
  "seg_grows x y \<longleftrightarrow> (\<exists>cs b. sm_chunks (fst y) = sm_chunks (fst x) @ cs \<and> snd y = snd x @ b)"

definition grows :: "seg_map \<Rightarrow> seg_map \<Rightarrow> bool" where
  "grows G G' \<longleftrightarrow> (\<forall>e x. G e = Some x \<longrightarrow> (\<exists>y. G' e = Some y \<and> seg_grows x y))"

lemma seg_grows_refl [simp]: "seg_grows x x"
  by (simp add: seg_grows_def)

lemma grows_refl [simp]: "grows G G"
  by (auto simp: grows_def)

lemma grows_trans: "grows G G' \<Longrightarrow> grows G' G'' \<Longrightarrow> grows G G''"
  unfolding grows_def seg_grows_def by (metis append.assoc)

lemma grows_new: "G e = None \<Longrightarrow> grows G (G(e \<mapsto> x))"
  by (auto simp: grows_def)

lemma grows_upd: "seg_grows x y \<Longrightarrow> grows (G(e \<mapsto> x)) (G(e \<mapsto> y))"
  by (cases y) (auto simp: grows_def)

lemma grows_chunk:
  assumes "seg_grows (seg, data) (seg', data')" and "i < length (sm_chunks seg)"
    and "end_pos (sm_chunks seg ! i) \<le> length data"
  shows "i < length (sm_chunks seg')" "sm_chunks seg' ! i = sm_chunks seg ! i" "chunk_bytes seg' data' i = chunk_bytes seg data i"
  using assms by (auto simp: seg_grows_def nth_append chunk_bytes_def end_pos_def)

lemma span_grows:
  assumes g: "seg_grows (seg, data) (seg', data')" and sp: "span_in seg data sp"
  shows "span_in seg' data' sp \<and> span_bytes seg' data' sp = span_bytes seg data sp \<and> span_start seg' sp = span_start seg sp \<and>
    sm_chunks seg' ! (ss_end sp - 1) = sm_chunks seg ! (ss_end sp - 1)"
proof -
  obtain cs b where e: "sm_chunks seg' = sm_chunks seg @ cs" "data' = data @ b" using g by (auto simp: seg_grows_def)
  have ok: "span_ok seg sp" "end_pos (sm_chunks seg ! (ss_end sp - 1)) \<le> length data" using sp by (simp_all add: span_in_def)
  have nth: "sm_chunks seg' ! i = sm_chunks seg ! i" if "i < ss_end sp" for i
    using that ok(1) e(1) by (simp add: span_ok_def nth_append)
  have last: "sm_chunks seg' ! (ss_end sp - 1) = sm_chunks seg ! (ss_end sp - 1)"
    and first: "sm_chunks seg' ! ss_begin sp = sm_chunks seg ! ss_begin sp"
    using nth ok(1) by (simp_all add: span_ok_def)
  have "span_ok seg' sp"
    using ok(1) nth last first e(1) unfolding span_ok_def by (metis Suc_lessD length_append trans_le_add1)
  moreover have "span_start seg' sp = span_start seg sp" by (simp add: span_start_def first)
  moreover have "span_start seg sp + ss_len sp \<le> length data" using ok by (simp add: span_ok_def span_start_def)
  ultimately show ?thesis using last ok(2) e(2) by (simp add: span_in_def span_bytes_def)
qed

lemma entry_grows:
  assumes "grows G G'" and "entry_ok G e"
  shows "entry_ok G' e \<and> entry_bytes G' e = entry_bytes G e"
proof -
  obtain seg data where G: "G (en_seg_id e) = Some (seg, data)" and l: "0 < xl_len e" "list_check span_ops e"
    "list_all (span_in seg data) (xl_items e)"
    using assms(2) by (auto simp: entry_ok_def split: option.splits)
  obtain seg' data' where G': "G' (en_seg_id e) = Some (seg', data')" and g: "seg_grows (seg, data) (seg', data')"
    using assms(1) G by (fastforce simp: grows_def)
  have "list_all (span_in seg' data') (xl_items e)" using l(3) span_grows [OF g] by (auto simp: list_all_iff)
  moreover have "items_bytes (span_bytes seg' data') (xl_items e) = items_bytes (span_bytes seg data) (xl_items e)"
    using l(3) span_grows [OF g] unfolding items_bytes_def
    by (intro arg_cong [where f = concat] map_cong) (auto simp: list_all_iff)
  ultimately show ?thesis using G G' l by (simp add: entry_ok_def entry_bytes_def)
qed

lemma content_grows:
  assumes "grows G G'" and "content_ok G l"
  shows "content_ok G' l" and "content_bytes G' l = content_bytes G l"
proof -
  have all: "\<forall>e \<in> set (xl_items l). entry_ok G e" using assms(2) by (simp add: content_ok_def list_all_iff)
  then show "content_ok G' l" using entry_grows [OF assms(1)] assms(2) by (auto simp: content_ok_def list_all_iff)
  show "content_bytes G' l = content_bytes G l"
    using all entry_grows [OF assms(1)] unfolding content_bytes_def items_bytes_def
    by (intro arg_cong [where f = concat] map_cong) auto
qed

end
