(* ===== verification/Merkle.thy ===== *)
theory Merkle
  imports Base_Utils Zbox_Effect
begin

text \<open>
  \<open>src/src/content/merkle_tree.rs\<close>: the hash tree of a content, stored as one vector with the
  root first and the leaves last. A leaf is the hash of one piece of the content. Writing updates
  the tree in place (\<open>merge\<close>), reusing the inner nodes to the left of the change.

  The hash function is an argument \<open>H\<close>. The running state of the multi-part hash is the bytes
  fed to it so far, as the library documents it; \<open>H\<close> is applied at the end. A reader is a value
  \<open>'r\<close> with operations \<open>seek\<close> and \<open>read\<close>.
\<close>

definition PIECE_SIZE :: nat where
  "PIECE_SIZE = 256 * 1024"

definition align_piece_offset :: "nat \<Rightarrow> nat" where
  "align_piece_offset n = align_offset n PIECE_SIZE"

definition align_piece_floor :: "nat \<Rightarrow> nat" where
  "align_piece_floor n = align_floor n PIECE_SIZE"

definition align_piece_floor_chunk :: "nat \<Rightarrow> nat" where
  "align_piece_floor_chunk n = align_floor_chunk n PIECE_SIZE"

definition align_piece_ceil_chunk :: "nat \<Rightarrow> nat" where
  "align_piece_ceil_chunk n = align_ceil_chunk n PIECE_SIZE"

definition mt_parent :: "nat \<Rightarrow> nat \<Rightarrow> nat \<Rightarrow> (nat, error) result" where
  "mt_parent n lvl_begin lvl_node_cnt =
     (if lvl_node_cnt = 0 then Ok 0
      else bind_r (sub_r lvl_begin ((lvl_node_cnt + 1) div 2)) (\<lambda>upper.
           bind_r (sub_r n lvl_begin) (\<lambda>d. Ok (upper + d div 2))))"

record ('r, 's) reader_ops =
  rd_seek :: "nat \<Rightarrow> 'r \<Rightarrow> 'r"
  rd_read :: "'r \<Rightarrow> nat \<Rightarrow> (bytes \<times> 'r, io_error, 's) eff"

text \<open>
  Reading a piece. The read that fills the buffer is followed by one into an empty slice, which
  returns nothing; a read that reports more than the buffer holds is out of range.
\<close>

function piece_loop ::
  "('r, 's) reader_ops \<Rightarrow> nat \<Rightarrow> bytes \<Rightarrow> 'r \<Rightarrow> 's \<Rightarrow> (bytes \<times> 'r, io_error) result \<times> 's"
where
  "piece_loop R pos acc r s =
     (case rd_read R r (PIECE_SIZE - pos) s of
        (Ok (x, r'), s') \<Rightarrow>
          if x = [] then (Ok (acc, r'), s')
          else if PIECE_SIZE < pos + length x then (Panic, s')
          else piece_loop R (pos + length x) (acc @ x) r' s'
      | (Err e, s') \<Rightarrow> (Err e, s')
      | (Panic, s') \<Rightarrow> (Panic, s'))"
  by pat_completeness auto
termination
  by (relation "measure (\<lambda>(R, pos, acc, r, s). PIECE_SIZE - pos)") (auto simp: neq_Nil_conv)

declare piece_loop.simps [simp del]

definition piece_hash ::
  "(bytes \<Rightarrow> bytes) \<Rightarrow> ('r, 's) reader_ops \<Rightarrow> nat \<Rightarrow> 'r \<Rightarrow> (bytes \<times> 'r, io_error, 's) eff"
where
  "piece_hash H R off r =
     bind_s (piece_loop R 0 [] (rd_seek R (align_piece_floor off) r)) (\<lambda>(b, r'). ret_s (H b, r'))"

function node_cnt_loop :: "nat \<Rightarrow> nat \<Rightarrow> nat" where
  "node_cnt_loop s n = (if 1 < n then node_cnt_loop (s + n) ((n + 1) div 2) else s)"
  by pat_completeness auto
termination
  by (relation "measure snd") auto

declare node_cnt_loop.simps [simp del]

definition tree_node_cnt :: "nat \<Rightarrow> nat" where
  "tree_node_cnt leaf_cnt = node_cnt_loop 1 leaf_cnt"

record leaves =
  lv_offset :: nat
  lv_len :: nat
  lv_nodes :: "bytes list"

definition lv_new :: leaves where
  "lv_new = \<lparr>lv_offset = 0, lv_len = 0, lv_nodes = []\<rparr>"

definition lv_end_offset :: "leaves \<Rightarrow> nat" where
  "lv_end_offset l = lv_offset l + lv_len l"

record merkle_tree =
  mt_len :: nat
  mt_nodes :: "bytes list"

definition root_hash :: "merkle_tree \<Rightarrow> bytes res" where
  "root_hash t = nth_r (mt_nodes t) 0"

definition leaf_cnt :: "merkle_tree \<Rightarrow> nat" where
  "leaf_cnt t = align_piece_ceil_chunk (mt_len t)"

definition inner_cnt :: "merkle_tree \<Rightarrow> (nat, error) result" where
  "inner_cnt t = sub_r (length (mt_nodes t)) (leaf_cnt t)"

definition set_r :: "'a list \<Rightarrow> nat \<Rightarrow> 'a \<Rightarrow> ('a list, error) result" where
  "set_r xs i x = (if i < length xs then Ok (xs[i := x]) else Panic)"

definition hash_up :: "(bytes \<Rightarrow> bytes) \<Rightarrow> nat list \<Rightarrow> nat \<Rightarrow> nat \<Rightarrow> bytes list \<Rightarrow> (bytes list, error) result" where
  "hash_up H indices lvl_begin lvl_node_cnt nodes =
     assert_r (length indices = 1 \<or> length indices = 2)
      (bind_r (nth_r indices 0) (\<lambda>m.
       bind_r (mt_parent m lvl_begin lvl_node_cnt) (\<lambda>p.
         if length indices = 2
         then bind_r (nth_r nodes m) (\<lambda>x. bind_r (nth_r nodes (Suc m)) (\<lambda>y. set_r nodes p (H (x @ y))))
         else bind_r (nth_r nodes m) (\<lambda>x. set_r nodes p x))))"

fun fold_r :: "('x \<Rightarrow> 'a \<Rightarrow> ('a, 'e) result) \<Rightarrow> 'x list \<Rightarrow> 'a \<Rightarrow> ('a, 'e) result" where
  "fold_r f [] a = Ok a"
| "fold_r f (x # xs) a = bind_r (f x a) (fold_r f xs)"

text \<open>The loop over the levels, bottom up.\<close>

function build_loop :: "(bytes \<Rightarrow> bytes) \<Rightarrow> nat \<Rightarrow> nat \<Rightarrow> nat \<Rightarrow> bytes list \<Rightarrow> (bytes list, error) result" where
  "build_loop H bgn fin cnt nodes =
     (if 1 \<le> bgn
      then bind_r (fold_r (\<lambda>pair. hash_up H pair bgn cnt) (chunks 2 [bgn..<fin]) nodes) (\<lambda>nodes'.
           bind_r (mt_parent bgn bgn cnt) (\<lambda>b. build_loop H b bgn ((cnt + 1) div 2) nodes'))
      else Ok nodes)"
  by pat_completeness auto
termination
  by (relation "measure (\<lambda>(H, bgn, fin, cnt, nodes). bgn)")
    (auto simp: mt_parent_def sub_r_def split: if_splits)

declare build_loop.simps [simp del]

definition build :: "(bytes \<Rightarrow> bytes) \<Rightarrow> bytes \<Rightarrow> leaves \<Rightarrow> (merkle_tree, error) result" where
  "build H empty_hash l =
     assert_r (lv_offset l = 0)
      (let cnt = length (lv_nodes l); total = tree_node_cnt cnt in
       bind_r (sub_r total cnt) (\<lambda>inner.
       bind_r (build_loop H inner total cnt (replicate inner empty_hash @ lv_nodes l)) (\<lambda>nodes.
         Ok \<lparr>mt_len = lv_len l, mt_nodes = nodes\<rparr>)))"

subsection \<open>The pieces writer\<close>

record mt_writer =
  mw_hash_offset :: nat
  mw_state :: bytes
  mw_leaves :: leaves

definition mw_new :: mt_writer where
  "mw_new = \<lparr>mw_hash_offset = 0, mw_state = [], mw_leaves = lv_new\<rparr>"

definition finish_with_leaves :: "(bytes \<Rightarrow> bytes) \<Rightarrow> mt_writer \<Rightarrow> leaves" where
  "finish_with_leaves H w =
     (if lv_len (mw_leaves w) = 0 \<or> align_piece_offset (mw_hash_offset w) \<noteq> 0
      then (mw_leaves w)\<lparr>lv_nodes := lv_nodes (mw_leaves w) @ [H (mw_state w)]\<rparr>
      else mw_leaves w)"

lemma piece_pos: "0 < PIECE_SIZE"
  by (simp add: PIECE_SIZE_def)

lemma align_piece_offset_mod: "align_piece_offset n = n mod PIECE_SIZE"
  using align_offset_mod [of n 18] by (simp add: PIECE_SIZE_def align_piece_offset_def)

function mw_loop :: "(bytes \<Rightarrow> bytes) \<Rightarrow> bytes \<Rightarrow> mt_writer \<Rightarrow> mt_writer" where
  "mw_loop H data w =
     (if data = [] then w
      else let pos = align_piece_offset (mw_hash_offset w);
               hash_len = min (PIECE_SIZE - pos) (length data);
               st = mw_state w @ take hash_len data;
               full = (align_piece_offset (mw_hash_offset w + hash_len) \<le> pos)
           in mw_loop H (drop hash_len data)
                (w\<lparr>mw_state := (if full then [] else st),
                   mw_leaves := (if full
                     then (mw_leaves w)\<lparr>lv_nodes := lv_nodes (mw_leaves w) @ [H st]\<rparr> else mw_leaves w),
                   mw_hash_offset := mw_hash_offset w + hash_len\<rparr>))"
  by pat_completeness auto
termination
proof (relation "measure (\<lambda>(H, data, w). length data)", goal_cases)
  case 1
  show ?case by simp
next
  case (2 H data w pos hash_len st full)
  have "pos < PIECE_SIZE" using 2 piece_pos by (simp add: align_piece_offset_mod)
  with 2 show ?case by simp
qed

declare mw_loop.simps [simp del]

definition mw_write :: "(bytes \<Rightarrow> bytes) \<Rightarrow> bytes \<Rightarrow> mt_writer \<Rightarrow> nat \<times> mt_writer" where
  "mw_write H data w =
     (let w' = mw_loop H data w in
      (length data, w'\<lparr>mw_leaves := (mw_leaves w')\<lparr>lv_len := lv_len (mw_leaves w') + length data\<rparr>\<rparr>))"

definition mw_seek :: "seek_from \<Rightarrow> mt_writer \<Rightarrow> (mt_writer, error) result" where
  "mw_seek pos w = assert_r (lv_offset (mw_leaves w) = 0)
     (case pos of
        SeekStart off \<Rightarrow> Ok (w\<lparr>mw_leaves := (mw_leaves w)\<lparr>lv_offset := off\<rparr>, mw_hash_offset := off\<rparr>)
      | _ \<Rightarrow> Panic)"

text \<open>The tree of the empty content.\<close>

definition mt_new :: "(bytes \<Rightarrow> bytes) \<Rightarrow> bytes \<Rightarrow> (merkle_tree, error) result" where
  "mt_new H empty_hash = build H empty_hash (finish_with_leaves H mw_new)"

subsection \<open>Merging and truncating\<close>

text \<open>\<open>Vec::resize\<close> and \<open>clone_from_slice\<close> into a range.\<close>

definition resize :: "nat \<Rightarrow> 'a \<Rightarrow> 'a list \<Rightarrow> 'a list" where
  "resize n x xs = take n xs @ replicate (n - length xs) x"

definition copy_r :: "'a list \<Rightarrow> nat \<Rightarrow> 'a list \<Rightarrow> ('a list, error) result" where
  "copy_r xs i ys = (if i + length ys \<le> length xs then Ok (take i xs @ ys @ drop (i + length ys) xs) else Panic)"

text \<open>A pair left of the change is copied from the old tree, another one is hashed.\<close>

definition merge_pair ::
  "(bytes \<Rightarrow> bytes) \<Rightarrow> nat \<Rightarrow> nat \<Rightarrow> nat \<Rightarrow> nat \<Rightarrow> nat \<Rightarrow> nat list \<Rightarrow> bytes list \<Rightarrow> (bytes list, error) result"
where
  "merge_pair H bgn cnt overlap old_bgn old_cnt pair nodes =
     (if length pair = 2 \<and> pair ! 1 < overlap
      then bind_r (mt_parent (pair ! 0) bgn cnt) (\<lambda>p.
           bind_r (sub_r (old_bgn + pair ! 0) bgn) (\<lambda>q.
           bind_r (mt_parent q old_bgn old_cnt) (\<lambda>o1.
           assert_r (o1 \<le> p)
             (if o1 \<noteq> p then bind_r (nth_r nodes o1) (\<lambda>x. set_r nodes p x) else Ok nodes))))
      else hash_up H pair bgn cnt nodes)"

function merge_loop ::
  "(bytes \<Rightarrow> bytes) \<Rightarrow> nat \<Rightarrow> nat \<Rightarrow> nat \<Rightarrow> nat \<Rightarrow> nat \<Rightarrow> nat \<Rightarrow> nat \<Rightarrow> bytes list \<Rightarrow> (bytes list, error) result"
where
  "merge_loop H bgn fin cnt ob oe old_bgn old_cnt nodes =
     (if 1 \<le> bgn
      then bind_r (fold_r (merge_pair H bgn cnt ob old_bgn old_cnt) (rev (chunks 2 [bgn..<fin])) nodes) (\<lambda>nodes'.
           bind_r (mt_parent ob bgn cnt) (\<lambda>ob'.
           bind_r (mt_parent oe bgn cnt) (\<lambda>oe'.
           bind_r (mt_parent bgn bgn cnt) (\<lambda>b.
           bind_r (if 0 < old_bgn then mt_parent old_bgn old_bgn old_cnt else Ok old_bgn) (\<lambda>old_b.
             merge_loop H b bgn ((cnt + 1) div 2) ob' oe' old_b
               (if 0 < old_bgn then (old_cnt + 1) div 2 else old_cnt) nodes')))))
      else Ok nodes)"
  by pat_completeness auto
termination
  by (relation "measure (\<lambda>(H, bgn, fin, cnt, ob, oe, old_bgn, old_cnt, nodes). bgn)")
    (auto simp: mt_parent_def sub_r_def split: if_splits)

declare merge_loop.simps [simp del]

text \<open>The leaf level of the merged tree before pieces are hashed again.\<close>

definition merge_leaves :: "bytes \<Rightarrow> leaves \<Rightarrow> merkle_tree \<Rightarrow> nat \<Rightarrow> nat \<Rightarrow> (bytes list, error) result" where
  "merge_leaves empty_hash l t node_cnt leaves_begin =
     bind_r (inner_cnt t) (\<lambda>old_begin.
     let old_leaves = drop old_begin (mt_nodes t) in
     bind_r (copy_r (resize node_cnt empty_hash (mt_nodes t)) leaves_begin old_leaves) (\<lambda>nodes.
       copy_r nodes (leaves_begin + align_piece_floor_chunk (lv_offset l)) (lv_nodes l)))"

definition rehash ::
  "(bytes \<Rightarrow> bytes) \<Rightarrow> ('r, 's) reader_ops \<Rightarrow> nat \<Rightarrow> nat \<Rightarrow> 'r \<Rightarrow> ('r, error, merkle_tree \<times> 's) eff"
where
  "rehash H R i off r =
     bind_s (conv_s (map_err from_io_error) (zoom snd (\<lambda>s (t, _). (t, s)) (piece_hash H R off r))) (\<lambda>(h, r').
     bind_s get_s (\<lambda>(t, _).
     bind_s (lift_r (set_r (mt_nodes t) i h)) (\<lambda>nodes.
     bind_s (modify_s (\<lambda>(t, s). (t\<lparr>mt_nodes := nodes\<rparr>, s))) (\<lambda>_. ret_s r'))))"

definition merge ::
  "(bytes \<Rightarrow> bytes) \<Rightarrow> bytes \<Rightarrow> ('r, 's) reader_ops \<Rightarrow> leaves \<Rightarrow> 'r \<Rightarrow> (unit, error, merkle_tree \<times> 's) eff"
where
  "merge H empty_hash R l r =
     bind_s get_s (\<lambda>(t, _).
     bind_s (assert_s (lv_offset l \<le> mt_len t)) (\<lambda>_.
     let end_off = max (mt_len t) (lv_end_offset l);
         cnt = align_piece_ceil_chunk end_off;
         node_cnt = tree_node_cnt cnt in
     bind_s (lift_r (sub_r node_cnt cnt)) (\<lambda>leaves_begin.
     bind_s (lift_r (inner_cnt t)) (\<lambda>old_begin.
     let ob = leaves_begin + align_piece_floor_chunk (lv_offset l);
         oe_off = min (mt_len t) (lv_end_offset l);
         oe = leaves_begin + align_piece_ceil_chunk oe_off;
         head = (align_piece_offset (lv_offset l) \<noteq> 0) in
     bind_s (lift_r (merge_leaves empty_hash l t node_cnt leaves_begin)) (\<lambda>nodes.
     bind_s (modify_s (\<lambda>(t, s). (t\<lparr>mt_nodes := nodes\<rparr>, s))) (\<lambda>_.
     bind_s (if head then rehash H R ob (lv_offset l) r else ret_s r) (\<lambda>r1.
     bind_s (if align_piece_offset oe_off \<noteq> 0 \<and> \<not> (ob = oe - 1 \<and> head)
             then rehash H R (oe - 1) oe_off r1 else ret_s r1) (\<lambda>_.
     bind_s get_s (\<lambda>(t1, _).
     bind_s (lift_r (merge_loop H leaves_begin node_cnt cnt ob oe old_begin (leaf_cnt t) (mt_nodes t1))) (\<lambda>nodes'.
       modify_s (\<lambda>(_, s). (\<lparr>mt_len = end_off, mt_nodes = nodes'\<rparr>, s))))))))))))"

text \<open>\<open>trunc_loop\<close> builds the new levels from the old ones, which are \<open>old\<close>.\<close>

function trunc_loop ::
  "(bytes \<Rightarrow> bytes) \<Rightarrow> bytes list \<Rightarrow> nat \<Rightarrow> nat \<Rightarrow> nat \<Rightarrow> nat \<Rightarrow> nat \<Rightarrow> nat \<Rightarrow> bytes list \<Rightarrow> (bytes list, error) result"
where
  "trunc_loop H old bgn fin cnt old_bgn old_fin old_cnt new =
     (if 1 \<le> bgn
      then bind_r (mt_parent bgn bgn cnt) (\<lambda>dst_b.
           bind_r (bind_r (sub_r fin 1) (\<lambda>n. mt_parent n bgn cnt)) (\<lambda>dst_e.
           bind_r (mt_parent old_bgn old_bgn old_cnt) (\<lambda>src_b.
           bind_r (bind_r (sub_r old_fin 1) (\<lambda>n. mt_parent n old_bgn old_cnt)) (\<lambda>src_e.
           assert_r (Suc dst_e - dst_b = Suc src_e - src_b \<and> Suc src_e \<le> length old)
             (bind_r (copy_r new dst_b (take (Suc src_e - src_b) (drop src_b old))) (\<lambda>new1.
              bind_r (hash_up H (if even (fin - bgn) then [fin - 2, fin - 1] else [fin - 1]) bgn cnt new1) (\<lambda>new2.
                trunc_loop H old dst_b bgn ((cnt + 1) div 2) src_b (Suc src_e) ((old_cnt + 1) div 2) new2)))))))
      else Ok new)"
  by pat_completeness auto
termination
  by (relation "measure (\<lambda>(H, old, bgn, fin, cnt, old_bgn, old_fin, old_cnt, new). bgn)")
    (auto simp: mt_parent_def sub_r_def split: if_splits)

declare trunc_loop.simps [simp del]

definition truncate ::
  "(bytes \<Rightarrow> bytes) \<Rightarrow> bytes \<Rightarrow> ('r, 's) reader_ops \<Rightarrow> nat \<Rightarrow> 'r \<Rightarrow> (unit, error, merkle_tree \<times> 's) eff"
where
  "truncate H empty_hash R at r =
     bind_s get_s (\<lambda>(t, _).
     bind_s (assert_s (at \<le> mt_len t)) (\<lambda>_.
     if at = mt_len t then ret_s ()
     else
     let cnt = align_piece_ceil_chunk at; node_cnt = tree_node_cnt cnt in
     bind_s (lift_r (sub_r node_cnt cnt)) (\<lambda>leaves_begin.
     bind_s (lift_r (inner_cnt t)) (\<lambda>src.
     bind_s (assert_s (src + cnt \<le> length (mt_nodes t))) (\<lambda>_.
     let leaves = take cnt (drop src (mt_nodes t)) in
     bind_s (lift_r (copy_r (replicate node_cnt empty_hash) leaves_begin leaves)) (\<lambda>new.
     bind_s (if align_piece_offset at \<noteq> 0 \<or> at = 0
             then bind_s (conv_s (map_err from_io_error) (zoom snd (\<lambda>s (t, _). (t, s)) (piece_hash H R at r))) (\<lambda>(h, _).
                  lift_r (set_r new (node_cnt - 1) h))
             else ret_s new) (\<lambda>new1.
     bind_s (lift_r (trunc_loop H (mt_nodes t) leaves_begin node_cnt cnt src (src + cnt) (leaf_cnt t) new1)) (\<lambda>nodes.
       modify_s (\<lambda>(_, s). (\<lparr>mt_len = at, mt_nodes = nodes\<rparr>, s))))))))))"

end
