(* ===== verification/Chunker.thy ===== *)
theory Chunker
  imports Zbox_Effect "HOL-Library.Sublist"
begin

text \<open>
  \<open>src/src/content/chunker.rs\<close>: content-defined chunking. A byte stream is cut where a rolling
  hash over the last 16 bytes meets a condition, between a minimal and a maximal chunk length,
  and every chunk is handed to a destination writer in one call.

  The chunker buffer has a fixed size; \<open>kr_buf\<close> is its valid prefix \<open>buf[..buf_clen]\<close>, outside
  of which the code reads nothing. The destination is a record of operations on its state.
\<close>

unbundle bit_operations_syntax

definition PRIME :: "64 word" where "PRIME = 153191"
definition MASK :: "64 word" where "MASK = 0x00ffffffffff"
definition MIN_SIZE :: nat where "MIN_SIZE = 16 * 1024"
definition AVG_SIZE :: nat where "AVG_SIZE = 32 * 1024"
definition MAX_SIZE :: nat where "MAX_SIZE = 64 * 1024"
definition FP_POLY :: "64 word" where "FP_POLY = 0xbfe6b8a5bf378d83"
definition CUT_MASK :: "64 word" where "CUT_MASK = of_nat (AVG_SIZE - MIN_SIZE - 1)"
definition WIN_SIZE :: nat where "WIN_SIZE = 16"
definition WIN_MASK :: nat where "WIN_MASK = WIN_SIZE - 1"
definition WIN_SLIDE_OFFSET :: nat where "WIN_SLIDE_OFFSET = 64"
definition WIN_SLIDE_POS :: nat where "WIN_SLIDE_POS = MIN_SIZE - WIN_SLIDE_OFFSET"
definition WTR_BUF_LEN :: nat where "WTR_BUF_LEN = 8 * MAX_SIZE"

subsection \<open>Parameters\<close>

record chunker_params =
  cp_poly_pow :: "64 word"
  cp_out_map :: "64 word list"
  cp_ir :: "64 word list"

definition params_default :: chunker_params where
  "params_default = \<lparr>cp_poly_pow = 1, cp_out_map = replicate 256 0, cp_ir = replicate 256 0\<rparr>"

text \<open>The inner loop: \<open>n\<close> rounds on \<open>(term, pow, val)\<close>.\<close>

fun ir_loop :: "nat \<Rightarrow> 64 word \<Rightarrow> 64 word \<times> 64 word \<times> 64 word \<Rightarrow> 64 word" where
  "ir_loop 0 i (trm, pow, val) = val"
| "ir_loop (Suc n) i (trm, pow, val) =
     ir_loop n i (trm * 2, (pow * PRIME) AND MASK,
       if trm AND FP_POLY \<noteq> 0 then val + ((pow * i) AND MASK) else val)"

definition params_new :: chunker_params where
  "params_new =
     (let pow = ((\<lambda>p. (p * PRIME) AND MASK) ^^ WIN_SIZE) (cp_poly_pow params_default)
      in \<lparr>cp_poly_pow = pow,
          cp_out_map = map (\<lambda>i. (of_nat i * pow) AND MASK) [0..<256],
          cp_ir = map (\<lambda>i. ir_loop WIN_SIZE (of_nat i) (1, 1, 1)) [0..<256]\<rparr>)"

subsection \<open>The chunker\<close>

record chunker =
  kr_pos :: nat
  kr_chunk_len :: nat
  kr_win_idx :: nat
  kr_roll_hash :: "64 word"
  kr_win :: bytes
  kr_buf :: bytes

record 's sink_ops =
  sk_write :: "bytes \<Rightarrow> (nat, io_error, 's) eff"
  sk_flush :: "(unit, io_error, 's) eff"
  sk_seek :: "seek_from \<Rightarrow> (nat, io_error, 's) eff"

definition chunker_new :: chunker where
  "chunker_new = \<lparr>kr_pos = WIN_SLIDE_POS, kr_chunk_len = WIN_SLIDE_POS, kr_win_idx = 0,
     kr_roll_hash = 0, kr_win = replicate WIN_SIZE 0, kr_buf = []\<rparr>"

text \<open>One byte enters the window and one is pushed out, which is returned.\<close>

definition roll_window :: "chunker_params \<Rightarrow> chunker \<Rightarrow> (nat \<times> chunker, io_error) result" where
  "roll_window P k =
     bind_r (nth_r (kr_buf k) (kr_pos k)) (\<lambda>ch.
     bind_r (nth_r (kr_win k) (kr_win_idx k)) (\<lambda>o1.
     bind_r (nth_r (cp_out_map P) (unat o1)) (\<lambda>pushed_out.
       let h1 = ((kr_roll_hash k * PRIME) AND MASK) + ucast ch;
           h2 = (h1 - pushed_out) AND MASK
       in Ok (unat o1, k\<lparr>kr_roll_hash := h2, kr_win := (kr_win k)[kr_win_idx k := ch],
            kr_win_idx := (kr_win_idx k + 1) AND WIN_MASK, kr_chunk_len := kr_chunk_len k + 1,
            kr_pos := kr_pos k + 1\<rparr>))))"

definition cut_here :: "chunker_params \<Rightarrow> nat \<Rightarrow> chunker \<Rightarrow> (bool, io_error) result" where
  "cut_here P out k =
     (if MIN_SIZE \<le> kr_chunk_len k
      then bind_r (nth_r (cp_ir P) out) (\<lambda>i.
           Ok ((kr_roll_hash k XOR i) AND CUT_MASK = 0 \<or> MAX_SIZE \<le> kr_chunk_len k))
      else Ok False)"

text \<open>After a cut: make room in the buffer and jump to the next sliding position.\<close>

definition next_chunk :: "chunker \<Rightarrow> chunker" where
  "next_chunk k =
     (let k1 = (if WTR_BUF_LEN \<le> kr_pos k + MAX_SIZE
                then k\<lparr>kr_buf := drop (kr_pos k) (kr_buf k), kr_pos := 0\<rparr> else k)
      in k1\<lparr>kr_pos := kr_pos k1 + WIN_SLIDE_POS, kr_chunk_len := WIN_SLIDE_POS\<rparr>)"

definition kr_slice :: "nat \<Rightarrow> nat \<Rightarrow> bytes \<Rightarrow> (bytes, io_error) result" where
  "kr_slice a b xs = (if a \<le> b \<and> b \<le> length xs then Ok (take (b - a) (drop a xs)) else Panic)"

definition emit_chunk :: "'s sink_ops \<Rightarrow> chunker \<Rightarrow> (unit, io_error, 's) eff" where
  "emit_chunk D k =
     bind_s (lift_r (sub_r (kr_pos k) (kr_chunk_len k))) (\<lambda>p.
     bind_s (lift_r (kr_slice p (kr_pos k) (kr_buf k))) (\<lambda>b.
     bind_s (sk_write D b) (\<lambda>written. assert_s (written = kr_chunk_len k))))"

lemma roll_window_frame:
  assumes "roll_window P k = Ok (out, k')"
  shows "kr_buf k' = kr_buf k \<and> kr_pos k' = kr_pos k + 1 \<and> kr_chunk_len k' = kr_chunk_len k + 1"
  using assms by (auto simp: roll_window_def Let_def bind_r_Ok_iff)

text \<open>The loop over the bytes of the buffer. When the destination fails, the cut is not made.\<close>

function kr_loop ::
  "chunker_params \<Rightarrow> 's sink_ops \<Rightarrow> chunker \<Rightarrow> 's \<Rightarrow> (unit, io_error) result \<times> chunker \<times> 's"
where
  "kr_loop P D k s =
     (if kr_pos k < length (kr_buf k)
      then (case roll_window P k of
              Ok (out, k1) \<Rightarrow>
                (case cut_here P out k1 of
                   Ok True \<Rightarrow>
                     (case emit_chunk D k1 s of
                        (Ok _, s1) \<Rightarrow> kr_loop P D (next_chunk k1) s1
                      | (Err e, s1) \<Rightarrow> (Err e, k1, s1)
                      | (Panic, s1) \<Rightarrow> (Panic, k1, s1))
                 | Ok False \<Rightarrow> kr_loop P D k1 s
                 | Err e \<Rightarrow> (Err e, k1, s)
                 | Panic \<Rightarrow> (Panic, k1, s))
            | Err e \<Rightarrow> (Err e, k, s)
            | Panic \<Rightarrow> (Panic, k, s))
      else (Ok (), k, s))"
  by pat_completeness auto
termination
  by (relation "measure (\<lambda>(P, D, k, s). length (kr_buf k) - kr_pos k)")
    (auto dest!: roll_window_frame simp: next_chunk_def Let_def)

declare kr_loop.simps [simp del]

definition kr_write ::
  "chunker_params \<Rightarrow> 's sink_ops \<Rightarrow> bytes \<Rightarrow> (nat, io_error, chunker \<times> 's) eff"
where
  "kr_write P D data = (\<lambda>(k, s).
     if data = [] then (Ok 0, (k, s))
     else let in_len = min (WTR_BUF_LEN - length (kr_buf k)) (length data)
       in if in_len = 0 then (Panic, (k, s))
          else (case kr_loop P D (k\<lparr>kr_buf := kr_buf k @ take in_len data\<rparr>) s of
                  (r, k', s') \<Rightarrow> (bind_r r (\<lambda>_. Ok in_len), (k', s'))))"

definition kr_flush :: "'s sink_ops \<Rightarrow> (unit, io_error, chunker \<times> 's) eff" where
  "kr_flush D = (\<lambda>(k, s).
     case sub_r (kr_pos k) (kr_chunk_len k) of
       Ok p \<Rightarrow>
         if p < length (kr_buf k)
         then (case sk_write D (drop p (kr_buf k)) s of
                 (Ok _, s1) \<Rightarrow> (case sk_flush D s1 of (r, s2) \<Rightarrow> (r, (chunker_new, s2)))
               | (Err e, s1) \<Rightarrow> (Err e, (k\<lparr>kr_chunk_len := length (kr_buf k) - p\<rparr>, s1))
               | (Panic, s1) \<Rightarrow> (Panic, (k, s1)))
         else (case sk_flush D s of (r, s2) \<Rightarrow> (r, (chunker_new, s2)))
     | Err e \<Rightarrow> (Err e, (k, s))
     | Panic \<Rightarrow> (Panic, (k, s)))"

definition kr_into_inner :: "'s sink_ops \<Rightarrow> (unit, io_error, chunker \<times> 's) eff" where
  "kr_into_inner D = kr_flush D"

definition kr_seek :: "'s sink_ops \<Rightarrow> seek_from \<Rightarrow> (nat, io_error, chunker \<times> 's) eff" where
  "kr_seek D pos = zoom snd (\<lambda>s (k, _). (k, s)) (sk_seek D pos)"

subsection \<open>The reference: cutting the whole stream at once\<close>

text \<open>The state of the window: its bytes, the index of the oldest one and the hash.\<close>

type_synonym window = "bytes \<times> nat \<times> 64 word"

definition window_of :: "chunker \<Rightarrow> window" where
  "window_of k = (kr_win k, kr_win_idx k, kr_roll_hash k)"

definition slide :: "chunker_params \<Rightarrow> byte \<Rightarrow> window \<Rightarrow> nat \<times> window" where
  "slide P ch w = (case w of (win, i, h) \<Rightarrow>
     let out = unat (win ! i)
     in (out, (win[i := ch], (i + 1) mod WIN_SIZE,
          (((h * PRIME) AND MASK) + ucast ch - cp_out_map P ! out) AND MASK)))"

definition is_cut :: "chunker_params \<Rightarrow> nat \<Rightarrow> nat \<Rightarrow> window \<Rightarrow> bool" where
  "is_cut P out n w \<longleftrightarrow> MIN_SIZE \<le> n \<and>
     ((snd (snd w) XOR cp_ir P ! out) AND CUT_MASK = 0 \<or> MAX_SIZE \<le> n)"

text \<open>The length of the chunk, of which \<open>n\<close> bytes have been passed, and the window at the cut.\<close>

fun scan :: "chunker_params \<Rightarrow> nat \<Rightarrow> bytes \<Rightarrow> window \<Rightarrow> (nat \<times> window) option" where
  "scan P n [] w = None"
| "scan P n (b # bs) w =
     (let (out, w') = slide P b w
      in if is_cut P out (Suc n) w' then Some (Suc n, w') else scan P (Suc n) bs w')"

lemma scan_bounds: "scan P n bs w = Some (m, w') \<Longrightarrow> n < m \<and> m \<le> n + length bs \<and> MIN_SIZE \<le> m"
proof (induction bs arbitrary: n w)
  case (Cons b bs)
  obtain out w1 where sl: "slide P b w = (out, w1)" by (cases "slide P b w")
  with Cons.prems Cons.IH [of "Suc n" w1] show ?case
    by (cases "is_cut P out (Suc n) w1") (auto simp: is_cut_def)
qed simp

lemma scan_max:
  assumes "n < MAX_SIZE"
  shows "(case scan P n bs w of Some (m, _) \<Rightarrow> m \<le> MAX_SIZE | None \<Rightarrow> n + length bs < MAX_SIZE)"
  using assms
proof (induction bs arbitrary: n w)
  case (Cons b bs)
  obtain out w1 where sl: "slide P b w = (out, w1)" by (cases "slide P b w")
  have M: "MIN_SIZE \<le> MAX_SIZE" by (simp add: MIN_SIZE_def MAX_SIZE_def)
  show ?case
  proof (cases "is_cut P out (Suc n) w1")
    case True
    with sl Cons.prems show ?thesis by simp
  next
    case False
    then have "Suc n < MAX_SIZE" using M by (auto simp: is_cut_def)
    from Cons.IH [OF this, of w1] sl False show ?thesis
      by (cases "scan P (Suc n) bs w1") auto
  qed
qed simp

function rest_chunks :: "chunker_params \<Rightarrow> nat \<Rightarrow> window \<Rightarrow> bytes \<Rightarrow> bytes list" where
  "rest_chunks P n w d =
     (case scan P n (drop n d) w of
        None \<Rightarrow> if d = [] then [] else [d]
      | Some (m, w') \<Rightarrow> take m d # rest_chunks P WIN_SLIDE_POS w' (drop m d))"
  by pat_completeness auto
termination
proof (relation "measure (\<lambda>(P, n, w, d). length d)", goal_cases)
  case (2 P n w d p m w')
  then have "scan P n (drop n d) w = Some (m, w')" by simp
  from scan_bounds [OF this] have "0 < m" "d \<noteq> []" by (auto simp: MIN_SIZE_def)
  then show ?case by simp
qed simp

declare rest_chunks.simps [simp del]

definition ref_chunks :: "chunker_params \<Rightarrow> bytes \<Rightarrow> bytes list" where
  "ref_chunks P d = rest_chunks P WIN_SLIDE_POS (window_of chunker_new) d"

lemma ref_chunks_partition:
  "concat (ref_chunks P d) = d \<and>
   (\<forall>c \<in> set (ref_chunks P d). 0 < length c \<and> length c \<le> MAX_SIZE) \<and>
   (\<forall>c \<in> set (butlast (ref_chunks P d)). MIN_SIZE \<le> length c)"
proof -
  have "concat (rest_chunks P n w d) = d \<and>
      (\<forall>c \<in> set (rest_chunks P n w d). 0 < length c \<and> length c \<le> MAX_SIZE) \<and>
      (\<forall>c \<in> set (butlast (rest_chunks P n w d)). MIN_SIZE \<le> length c)" if "n < MAX_SIZE" for n w
    using that
  proof (induction P n w d rule: rest_chunks.induct)
    case (1 P n w d)
    have W: "WIN_SLIDE_POS < MAX_SIZE" by (simp add: WIN_SLIDE_POS_def MIN_SIZE_def MAX_SIZE_def)
    show ?case
    proof (cases "scan P n (drop n d) w")
      case None
      with scan_max [OF 1(2), where P = P and bs = "drop n d" and w = w] have "length d \<le> MAX_SIZE" by simp
      with None show ?thesis by (subst (1 2 3) rest_chunks.simps) simp
    next
      case (Some p)
      obtain m w' where p: "p = (m, w')" by (cases p)
      note s = Some [unfolded p]
      from scan_bounds [OF s] scan_max [OF 1(2), where P = P and bs = "drop n d" and w = w] s
      have "m \<le> length d" "MIN_SIZE \<le> m" "m \<le> MAX_SIZE" "0 < m" "d \<noteq> []" by (auto simp: MIN_SIZE_def)
      with 1(1) [OF s refl W] s show ?thesis by (subst (1 2 3) rest_chunks.simps) simp
    qed
  qed
  from this [of WIN_SLIDE_POS] show ?thesis
    by (simp add: ref_chunks_def WIN_SLIDE_POS_def MIN_SIZE_def MAX_SIZE_def)
qed

subsection \<open>The streaming chunker computes the reference\<close>

text \<open>
  What the chunker relies on of its destination: \<open>got cs s\<close> says that it has received the chunks
  \<open>cs\<close>. The next chunk of the sequence \<open>want\<close> that it is to receive is taken in whole.
\<close>

locale chunk_sink =
  fixes D :: "'s sink_ops" and got :: "bytes list \<Rightarrow> 's \<Rightarrow> bool" and want :: "bytes list"
  assumes take_chunk: "got cs s \<Longrightarrow> prefix (cs @ [c]) want \<Longrightarrow> 0 < length c \<Longrightarrow> length c \<le> MAX_SIZE \<Longrightarrow>
      \<exists>s'. sk_write D c s = (Ok (length c), s') \<and> got (cs @ [c]) s'"
    and flushed: "got cs s \<Longrightarrow> \<exists>s'. sk_flush D s = (Ok (), s') \<and> got cs s'"

definition params_ok :: "chunker_params \<Rightarrow> bool" where
  "params_ok P \<longleftrightarrow> length (cp_out_map P) = 256 \<and> length (cp_ir P) = 256"

lemma params_new_ok: "params_ok params_new"
  by (simp add: params_ok_def params_new_def Let_def)

definition chunk_start :: "chunker \<Rightarrow> nat" where
  "chunk_start k = kr_pos k - kr_chunk_len k"

definition pending :: "chunker \<Rightarrow> bytes" where
  "pending k = drop (chunk_start k) (kr_buf k)"

definition kr_ok :: "chunker \<Rightarrow> bool" where
  "kr_ok k \<longleftrightarrow> length (kr_win k) = WIN_SIZE \<and> kr_win_idx k < WIN_SIZE \<and>
     kr_chunk_len k \<le> kr_pos k \<and> kr_chunk_len k < MAX_SIZE \<and> chunk_start k + MAX_SIZE < WTR_BUF_LEN \<and>
     chunk_start k \<le> length (kr_buf k)"

lemma chunker_new_ok: "kr_ok chunker_new" "pending chunker_new = []"
  by (simp_all add: kr_ok_def chunker_new_def chunk_start_def WIN_SIZE_def MAX_SIZE_def WTR_BUF_LEN_def
      WIN_SLIDE_POS_def MIN_SIZE_def pending_def)

lemma win_mask: "n AND WIN_MASK = n mod WIN_SIZE"
  using take_bit_eq_mask [of 4 n] by (simp add: WIN_MASK_def WIN_SIZE_def take_bit_eq_mod mask_eq_exp_minus_1)

lemma unat_byte: "unat (b :: byte) < 256"
  by (rule order_less_le_trans [OF unsigned_less]) simp

lemma roll_window_slide:
  assumes "params_ok P" and "kr_ok k" and "kr_pos k < length (kr_buf k)"
    and "slide P (kr_buf k ! kr_pos k) (window_of k) = (out, w)"
  shows "\<exists>k'. roll_window P k = Ok (out, k') \<and> window_of k' = w \<and> kr_buf k' = kr_buf k \<and>
    kr_pos k' = Suc (kr_pos k) \<and> kr_chunk_len k' = Suc (kr_chunk_len k) \<and>
    chunk_start k' = chunk_start k \<and> length (kr_win k') = WIN_SIZE \<and> kr_win_idx k' < WIN_SIZE"
proof -
  have "unat (kr_win k ! kr_win_idx k) < 256" by (rule unat_byte)
  with assms show ?thesis
    by (auto simp: roll_window_def nth_r_def params_ok_def kr_ok_def Let_def slide_def window_of_def
        chunk_start_def win_mask WIN_SIZE_def)
qed

lemma slide_out: "slide P b w = (out, w') \<Longrightarrow> out < 256"
  by (auto simp: slide_def Let_def unat_byte split: prod.splits)

lemma pending_nth:
  assumes "kr_ok k" and "kr_pos k < length (kr_buf k)"
  shows "drop (kr_chunk_len k) (pending k @ z) =
    kr_buf k ! kr_pos k # drop (Suc (kr_chunk_len k)) (pending k @ z)"
    and "kr_chunk_len k < length (pending k)"
proof -
  show l: "kr_chunk_len k < length (pending k)"
    using assms by (auto simp: kr_ok_def pending_def chunk_start_def)
  have "(pending k @ z) ! kr_chunk_len k = kr_buf k ! kr_pos k"
    using assms l by (simp add: nth_append) (simp add: pending_def chunk_start_def kr_ok_def)
  with l show "drop (kr_chunk_len k) (pending k @ z) =
    kr_buf k ! kr_pos k # drop (Suc (kr_chunk_len k)) (pending k @ z)"
    by (metis Cons_nth_drop_Suc length_append trans_less_add1)
qed

lemma next_chunk_ok:
  assumes "chunk_start k = kr_pos k - kr_chunk_len k" and "kr_pos k \<le> length (kr_buf k)"
    and "length (kr_win k) = WIN_SIZE" and "kr_win_idx k < WIN_SIZE" and "length (kr_buf k) \<le> WTR_BUF_LEN"
    and "kr_chunk_len k \<le> kr_pos k"
  shows "kr_ok (next_chunk k)" and "pending (next_chunk k) = drop (kr_pos k) (kr_buf k)"
    and "window_of (next_chunk k) = window_of k" and "kr_chunk_len (next_chunk k) = WIN_SLIDE_POS"
    and "length (kr_buf (next_chunk k)) \<le> WTR_BUF_LEN"
  using assms
  by (auto simp: next_chunk_def kr_ok_def chunk_start_def pending_def window_of_def Let_def
      MAX_SIZE_def WTR_BUF_LEN_def WIN_SLIDE_POS_def MIN_SIZE_def)

lemma rest_step:
  assumes "kr_ok k" and "kr_pos k < length (kr_buf k)"
    and "slide P (kr_buf k ! kr_pos k) (window_of k) = (out, w)"
  shows "rest_chunks P (kr_chunk_len k) (window_of k) (pending k @ z) =
    (if is_cut P out (Suc (kr_chunk_len k)) w
     then take (Suc (kr_chunk_len k)) (pending k) #
          rest_chunks P WIN_SLIDE_POS w (drop (Suc (kr_chunk_len k)) (pending k) @ z)
     else rest_chunks P (Suc (kr_chunk_len k)) w (pending k @ z))"
  using pending_nth [OF assms(1,2)] assms(3)
  by (subst (1 3) rest_chunks.simps) (simp add: Suc_le_eq)

context chunk_sink
begin

lemma kr_loop_ok:
  assumes "params_ok P" and "kr_ok k" and "length (kr_buf k) \<le> WTR_BUF_LEN" and "got cs s"
    and "cs @ rest_chunks P (kr_chunk_len k) (window_of k) (pending k @ y) = want"
  shows "\<exists>cs' k' s'. kr_loop P D k s = (Ok (), k', s') \<and> got (cs @ cs') s' \<and> kr_ok k' \<and>
    length (kr_buf k') \<le> kr_pos k' \<and>
    (\<forall>z. rest_chunks P (kr_chunk_len k) (window_of k) (pending k @ z) =
       cs' @ rest_chunks P (kr_chunk_len k') (window_of k') (pending k' @ z))"
  using assms(2-)
proof (induction "length (kr_buf k) - kr_pos k" arbitrary: k cs s rule: less_induct)
  case less
  show ?case
  proof (cases "kr_pos k < length (kr_buf k)")
    case False
    then have "kr_loop P D k s = (Ok (), k, s)" by (subst kr_loop.simps) simp
    with less.prems False show ?thesis by (intro exI [of _ "[]"] exI [of _ k] exI [of _ s]) simp
  next
    case True
    obtain out w where sl: "slide P (kr_buf k ! kr_pos k) (window_of k) = (out, w)"
      by (cases "slide P (kr_buf k ! kr_pos k) (window_of k)")
    from roll_window_slide [OF assms(1) less.prems(1) True sl] obtain k1 where
      k1: "roll_window P k = Ok (out, k1)" "window_of k1 = w" "kr_buf k1 = kr_buf k"
        "kr_pos k1 = Suc (kr_pos k)" "kr_chunk_len k1 = Suc (kr_chunk_len k)"
        "chunk_start k1 = chunk_start k" "length (kr_win k1) = WIN_SIZE" "kr_win_idx k1 < WIN_SIZE" by blast
    let ?n = "Suc (kr_chunk_len k)" let ?d = "pending k"
    have n: "?n \<le> MAX_SIZE" "?n \<le> kr_pos k1" using less.prems(1) k1(4) by (simp_all add: kr_ok_def)
    have cut: "cut_here P out k1 = Ok (is_cut P out ?n w)"
      using slide_out [OF sl] assms(1) k1(2,5)
      by (auto simp: cut_here_def is_cut_def nth_r_def params_ok_def window_of_def)
    have d: "pending k1 = ?d" using k1(3,6) by (simp add: pending_def)
    note rest = rest_step [OF less.prems(1) True sl]
    show ?thesis
    proof (cases "is_cut P out ?n w")
      case False
      then have lt: "?n < MAX_SIZE" using n(1) by (auto simp: is_cut_def MIN_SIZE_def MAX_SIZE_def)
      have ok1: "kr_ok k1" using less.prems(1) k1 lt n(2) by (simp add: kr_ok_def)
      have "kr_loop P D k s = kr_loop P D k1 s"
        using True k1(1) cut False by (subst kr_loop.simps) simp
      moreover have "length (kr_buf k1) - kr_pos k1 < length (kr_buf k) - kr_pos k" using True k1(3,4) by simp
      from less.hyps [OF this ok1 _ less.prems(3)] less.prems(2,4) k1(2,3,5) rest False d have
        "\<exists>cs' k' s'. kr_loop P D k1 s = (Ok (), k', s') \<and> got (cs @ cs') s' \<and> kr_ok k' \<and>
          length (kr_buf k') \<le> kr_pos k' \<and>
          (\<forall>z. rest_chunks P (kr_chunk_len k1) (window_of k1) (pending k1 @ z) =
             cs' @ rest_chunks P (kr_chunk_len k') (window_of k') (pending k' @ z))" by simp
      ultimately show ?thesis using rest False k1(2,5) d by simp
    next
      case True
      let ?c = "take ?n ?d"
      have good: "prefix (cs @ [?c]) want" "(cs @ [?c]) @ rest_chunks P WIN_SLIDE_POS w (drop ?n ?d @ y) = want"
        using less.prems(4) rest [of y] True by (auto simp: prefix_def)
      have "kr_chunk_len k < length ?d" using pending_nth(2) [OF less.prems(1)] \<open>kr_pos k < _\<close> .
      then have len: "length ?c = ?n" by simp
      obtain s1 where s1: "sk_write D ?c s = (Ok (length ?c), s1)" "got (cs @ [?c]) s1"
        using take_chunk [OF less.prems(3) good(1)] n(1) unfolding len by blast
      have st: "kr_pos k1 - ?n = chunk_start k" using k1(5,6) by (simp add: chunk_start_def)
      have pos1: "kr_pos k1 = chunk_start k + ?n" using st n(2) by simp
      have "Suc (kr_pos k) - chunk_start k = ?n" using pos1 k1(4) by simp
      then have "emit_chunk D k1 s = (Ok (), s1)"
        using s1(1) len n(2) k1(3,4,5) \<open>kr_pos k < _\<close> st pos1
        by (simp add: emit_chunk_def sub_r_def kr_slice_def pending_def)
      then have run: "kr_loop P D k s = kr_loop P D (next_chunk k1) s1"
        using \<open>kr_pos k < _\<close> k1(1) cut True by (subst kr_loop.simps) simp
      have pre: "chunk_start k1 = kr_pos k1 - kr_chunk_len k1" "kr_pos k1 \<le> length (kr_buf k1)"
        "length (kr_buf k1) \<le> WTR_BUF_LEN" "kr_chunk_len k1 \<le> kr_pos k1"
        using \<open>kr_pos k < _\<close> k1(3,4,5) less.prems(2) n(2) by (simp_all add: chunk_start_def)
      note nx = next_chunk_ok [OF pre(1,2) k1(7,8) pre(3,4)]
      have dec: "length (kr_buf (next_chunk k1)) - kr_pos (next_chunk k1) < length (kr_buf k) - kr_pos k"
        using \<open>kr_pos k < _\<close> k1(3,4) by (auto simp: next_chunk_def Let_def)
      have dd: "drop (kr_pos k1) (kr_buf k1) = drop ?n ?d" using pos1 k1(3) by (simp add: pending_def add.commute)
      from less.hyps [OF dec nx(1,5) s1(2), unfolded nx(2,3,4) k1(2) dd, OF good(2)] obtain cs' k' s' where
        IH: "kr_loop P D (next_chunk k1) s1 = (Ok (), k', s')" "got ((cs @ [?c]) @ cs') s'" "kr_ok k'"
          "length (kr_buf k') \<le> kr_pos k'"
          "\<And>z. rest_chunks P WIN_SLIDE_POS w (drop ?n ?d @ z) =
             cs' @ rest_chunks P (kr_chunk_len k') (window_of k') (pending k' @ z)"
        by blast
      with run rest True show ?thesis
        by (intro exI [of _ "?c # cs'"] exI [of _ k'] exI [of _ s']) simp
    qed
  qed
qed

lemma kr_write_ok:
  assumes "params_ok P" and "kr_ok k" and "length (kr_buf k) \<le> kr_pos k" and "got cs s" and "data \<noteq> []"
    and "cs @ rest_chunks P (kr_chunk_len k) (window_of k) (pending k @ data @ y) = want"
  shows "\<exists>m cs' k' s'. kr_write P D data (k, s) = (Ok m, (k', s')) \<and> 0 < m \<and> m \<le> length data \<and>
    got (cs @ cs') s' \<and> kr_ok k' \<and> length (kr_buf k') \<le> kr_pos k' \<and>
    (\<forall>z. rest_chunks P (kr_chunk_len k) (window_of k) (pending k @ take m data @ z) =
       cs' @ rest_chunks P (kr_chunk_len k') (window_of k') (pending k' @ z))"
proof -
  let ?m = "min (WTR_BUF_LEN - length (kr_buf k)) (length data)"
  let ?k = "k\<lparr>kr_buf := kr_buf k @ take ?m data\<rparr>"
  have room: "length (kr_buf k) < WTR_BUF_LEN"
    using assms(2,3) unfolding kr_ok_def chunk_start_def by linarith
  have m: "0 < ?m" using room assms(5) by simp
  have ok: "kr_ok ?k" "length (kr_buf ?k) \<le> WTR_BUF_LEN"
    using assms(2) room by (auto simp: kr_ok_def chunk_start_def)
  have p: "pending ?k = pending k @ take ?m data" "window_of ?k = window_of k" "kr_chunk_len ?k = kr_chunk_len k"
  proof -
    have "chunk_start ?k = chunk_start k" by (simp add: chunk_start_def)
    moreover have "chunk_start k \<le> length (kr_buf k)" using assms(2) by (simp add: kr_ok_def)
    ultimately show "pending ?k = pending k @ take ?m data" by (simp add: pending_def)
  qed (simp_all add: window_of_def)
  have "data @ y = take ?m data @ drop ?m data @ y" by simp
  then have g: "cs @ rest_chunks P (kr_chunk_len k) (window_of k) ((pending k @ take ?m data) @ drop ?m data @ y) = want"
    using assms(6) by (simp only: append_assoc)
  from kr_loop_ok [OF assms(1) ok assms(4), unfolded p, OF g] obtain cs' k' s' where
    run: "kr_loop P D ?k s = (Ok (), k', s')" "got (cs @ cs') s'" "kr_ok k'" "length (kr_buf k') \<le> kr_pos k'"
    "\<And>z. rest_chunks P (kr_chunk_len k) (window_of k) ((pending k @ take ?m data) @ z) =
       cs' @ rest_chunks P (kr_chunk_len k') (window_of k') (pending k' @ z)"
    by blast
  have "kr_write P D data (k, s) = (Ok ?m, (k', s'))"
    using m assms(5) run(1) by (simp add: kr_write_def Let_def)
  with run m show ?thesis by (intro exI [of _ ?m] exI [of _ cs'] exI [of _ k'] exI [of _ s']) simp
qed

lemma kr_write_all_ok:
  assumes "params_ok P" and "kr_ok k" and "length (kr_buf k) \<le> kr_pos k" and "got cs s"
    and "cs @ rest_chunks P (kr_chunk_len k) (window_of k) (pending k @ data @ y) = want"
  shows "\<exists>cs' k' s'. write_all (kr_write P D) data (k, s) = (Ok (), (k', s')) \<and>
    got (cs @ cs') s' \<and> kr_ok k' \<and> length (kr_buf k') \<le> kr_pos k' \<and>
    (\<forall>z. rest_chunks P (kr_chunk_len k) (window_of k) (pending k @ data @ z) =
       cs' @ rest_chunks P (kr_chunk_len k') (window_of k') (pending k' @ z))"
  using assms(2-)
proof (induction "length data" arbitrary: data k cs s rule: less_induct)
  case less
  show ?case
  proof (cases "data = []")
    case True
    with less.prems show ?thesis
      by (intro exI [of _ "[]"] exI [of _ k] exI [of _ s]) (simp add: write_all.simps)
  next
    case False
    from kr_write_ok [OF assms(1) less.prems(1-3) False less.prems(4)] obtain m cs1 k1 s1 where
      w: "kr_write P D data (k, s) = (Ok m, (k1, s1))" "0 < m" "m \<le> length data" "got (cs @ cs1) s1" "kr_ok k1"
        "length (kr_buf k1) \<le> kr_pos k1"
        "\<And>z. rest_chunks P (kr_chunk_len k) (window_of k) (pending k @ take m data @ z) =
          cs1 @ rest_chunks P (kr_chunk_len k1) (window_of k1) (pending k1 @ z)" by blast
    have "length (drop m data) < length data" using False w(2) by simp
    moreover have "(cs @ cs1) @ rest_chunks P (kr_chunk_len k1) (window_of k1) (pending k1 @ drop m data @ y) = want"
      using less.prems(4) w(7) [of "drop m data @ y"] by (simp flip: append_assoc)
    ultimately obtain cs2 k2 s2 where
      IH: "write_all (kr_write P D) (drop m data) (k1, s1) = (Ok (), (k2, s2))" "got ((cs @ cs1) @ cs2) s2"
        "kr_ok k2" "length (kr_buf k2) \<le> kr_pos k2"
        "\<And>z. rest_chunks P (kr_chunk_len k1) (window_of k1) (pending k1 @ drop m data @ z) =
          cs2 @ rest_chunks P (kr_chunk_len k2) (window_of k2) (pending k2 @ z)"
      using less.hyps [OF _ w(5,6,4)] by blast
    have "rest_chunks P (kr_chunk_len k) (window_of k) (pending k @ data @ z) =
        (cs1 @ cs2) @ rest_chunks P (kr_chunk_len k2) (window_of k2) (pending k2 @ z)" for z
      using w(7) [of "drop m data @ z"] IH(5) [of z] by (simp flip: append_assoc)
    moreover have "write_all (kr_write P D) data (k, s) = (Ok (), (k2, s2))"
      using False w(1,2) IH(1) by (subst write_all.simps) simp
    ultimately show ?thesis using IH(2-4) by (intro exI [of _ "cs1 @ cs2"] exI [of _ k2] exI [of _ s2]) simp
  qed
qed

lemma kr_writes_ok:
  assumes "params_ok P" and "kr_ok k" and "length (kr_buf k) \<le> kr_pos k" and "got cs s"
    and "cs @ rest_chunks P (kr_chunk_len k) (window_of k) (pending k @ concat bufs) = want"
  shows "\<exists>cs' k' s'. for_s (write_all (kr_write P D)) bufs (k, s) = (Ok (), (k', s')) \<and>
    got (cs @ cs') s' \<and> kr_ok k' \<and> length (kr_buf k') \<le> kr_pos k' \<and>
    (\<forall>z. rest_chunks P (kr_chunk_len k) (window_of k) (pending k @ concat bufs @ z) =
       cs' @ rest_chunks P (kr_chunk_len k') (window_of k') (pending k' @ z))"
  using assms(2-)
proof (induction bufs arbitrary: k cs s)
  case Nil
  then show ?case by (intro exI [of _ "[]"] exI [of _ k] exI [of _ s]) simp
next
  case (Cons b bufs)
  have "cs @ rest_chunks P (kr_chunk_len k) (window_of k) (pending k @ b @ concat bufs) = want"
    using Cons.prems(4) by simp
  from kr_write_all_ok [OF assms(1) Cons.prems(1-3) this] obtain cs1 k1 s1 where
    w: "write_all (kr_write P D) b (k, s) = (Ok (), (k1, s1))" "got (cs @ cs1) s1" "kr_ok k1"
      "length (kr_buf k1) \<le> kr_pos k1"
      "\<And>z. rest_chunks P (kr_chunk_len k) (window_of k) (pending k @ b @ z) =
        cs1 @ rest_chunks P (kr_chunk_len k1) (window_of k1) (pending k1 @ z)" by blast
  have "(cs @ cs1) @ rest_chunks P (kr_chunk_len k1) (window_of k1) (pending k1 @ concat bufs) = want"
    using Cons.prems(4) w(5) [of "concat bufs"] by simp
  from Cons.IH [OF w(3,4,2) this] obtain cs2 k2 s2 where
    IH: "for_s (write_all (kr_write P D)) bufs (k1, s1) = (Ok (), (k2, s2))" "got ((cs @ cs1) @ cs2) s2" "kr_ok k2"
      "length (kr_buf k2) \<le> kr_pos k2"
      "\<And>z. rest_chunks P (kr_chunk_len k1) (window_of k1) (pending k1 @ concat bufs @ z) =
        cs2 @ rest_chunks P (kr_chunk_len k2) (window_of k2) (pending k2 @ z)" by blast
  show ?case
    using w(1,5) IH by (intro exI [of _ "cs1 @ cs2"] exI [of _ k2] exI [of _ s2]) simp
qed

lemma kr_flush_ok:
  assumes "kr_ok k" and "length (kr_buf k) \<le> kr_pos k" and "got cs s"
    and "cs @ rest_chunks P (kr_chunk_len k) (window_of k) (pending k) = want"
  shows "\<exists>s'. kr_flush D (k, s) = (Ok (), (chunker_new, s')) \<and>
    got (cs @ rest_chunks P (kr_chunk_len k) (window_of k) (pending k)) s'"
proof -
  let ?d = "pending k"
  have p: "sub_r (kr_pos k) (kr_chunk_len k) = (Ok (chunk_start k) :: (nat, io_error) result)"
    using assms(1) by (simp add: sub_r_def kr_ok_def chunk_start_def)
  have "length ?d \<le> kr_chunk_len k" using assms(1,2) by (simp add: pending_def kr_ok_def chunk_start_def)
  then have rest: "rest_chunks P (kr_chunk_len k) (window_of k) ?d = (if ?d = [] then [] else [?d])"
    by (subst rest_chunks.simps) simp
  have empty: "?d = [] \<longleftrightarrow> \<not> chunk_start k < length (kr_buf k)" by (auto simp: pending_def)
  show ?thesis
  proof (cases "?d = []")
    case True
    with flushed [OF assms(3)] p rest empty show ?thesis by (auto simp: kr_flush_def)
  next
    case False
    have "length ?d \<le> MAX_SIZE" using \<open>length ?d \<le> _\<close> assms(1) by (simp add: kr_ok_def)
    moreover have "prefix (cs @ [?d]) want" using assms(4) rest False by auto
    ultimately obtain s1 where
      s1: "sk_write D ?d s = (Ok (length ?d), s1)" "got (cs @ [?d]) s1"
      using take_chunk [OF assms(3), of ?d] False by auto
    from flushed [OF s1(2)] s1 p rest empty False show ?thesis
      by (auto simp: kr_flush_def pending_def)
  qed
qed

lemma chunk_stream_ok:
  assumes "params_ok P" and "got cs s" and "cs @ ref_chunks P (concat bufs) = want"
  shows "\<exists>s'. bind_s (for_s (write_all (kr_write P D)) bufs) (\<lambda>_. kr_flush D) (chunker_new, s) =
      (Ok (), (chunker_new, s')) \<and> got (cs @ ref_chunks P (concat bufs)) s'"
proof -
  have "length (kr_buf chunker_new) \<le> kr_pos chunker_new" by (simp add: chunker_new_def)
  have n: "kr_chunk_len chunker_new = WIN_SLIDE_POS" by (simp add: chunker_new_def)
  have "cs @ rest_chunks P (kr_chunk_len chunker_new) (window_of chunker_new) (pending chunker_new @ concat bufs) = want"
    using assms(3) n chunker_new_ok(2) by (simp add: ref_chunks_def)
  from kr_writes_ok [OF assms(1) chunker_new_ok(1) \<open>length (kr_buf chunker_new) \<le> _\<close> assms(2) this] obtain cs1 k s1 where
    w: "for_s (write_all (kr_write P D)) bufs (chunker_new, s) = (Ok (), (k, s1))" "got (cs @ cs1) s1" "kr_ok k"
      "length (kr_buf k) \<le> kr_pos k"
      "\<And>z. rest_chunks P (kr_chunk_len chunker_new) (window_of chunker_new) (pending chunker_new @ concat bufs @ z) =
        cs1 @ rest_chunks P (kr_chunk_len k) (window_of k) (pending k @ z)" by blast
  from w(5) [of "[]"] chunker_new_ok(2) n
  have "ref_chunks P (concat bufs) = cs1 @ rest_chunks P (kr_chunk_len k) (window_of k) (pending k)"
    by (simp add: ref_chunks_def)
  with kr_flush_ok [OF w(3,4,2), of P] w(1) assms(3) show ?thesis by simp
qed

end

text \<open>
  C22. The streaming chunker computes the reference: writing any sequence of buffers and flushing
  never panics, succeeds, and hands exactly the reference chunks of the whole stream to the
  destination, each in one call. The chunks therefore do not depend on how the stream was divided
  into writes.
\<close>

theorem chunker_streams_reference:
  assumes "chunk_sink D got (ref_chunks params_new (concat bufs))" and "got [] s"
  shows "\<exists>s'. bind_s (for_s (write_all (kr_write params_new D)) bufs) (\<lambda>_. kr_flush D) (chunker_new, s) =
      (Ok (), (chunker_new, s')) \<and> got (ref_chunks params_new (concat bufs)) s'"
  using chunk_sink.chunk_stream_ok [OF assms(1) params_new_ok assms(2), of bufs] by simp

text \<open>A destination that records the chunks it receives.\<close>

definition record_sink :: "bytes list sink_ops" where
  "record_sink = \<lparr>sk_write = (\<lambda>c s. (Ok (length c), s @ [c])), sk_flush = ret_s (), sk_seek = (\<lambda>_. ret_s 0)\<rparr>"

lemma record_sink_ok: "chunk_sink record_sink (\<lambda>cs s. s = cs) want"
  by unfold_locales (simp_all add: record_sink_def)

theorem chunker_streams_reference_witness:
  "bind_s (for_s (write_all (kr_write params_new record_sink)) [[1, 2], [], [3]]) (\<lambda>_. kr_flush record_sink) (chunker_new, []) =
   (Ok (), (chunker_new, ref_chunks params_new [1, 2, 3]))"
  using chunker_streams_reference [OF record_sink_ok, of "[]" "[[1, 2], [], [3]]"] by simp

text \<open>
  C23. Chunking loses nothing and respects the sizes: writing any sequence of buffers and flushing
  cuts the stream into chunks which, put together, are the stream; none is empty or longer than the
  maximum of 64 KiB, and all but the last have at least the minimum of 16 KiB.
\<close>

theorem chunks_partition_stream:
  "\<exists>cs. bind_s (for_s (write_all (kr_write params_new record_sink)) bufs) (\<lambda>_. kr_flush record_sink) (chunker_new, []) =
      (Ok (), (chunker_new, cs)) \<and> concat cs = concat bufs \<and>
      list_all (\<lambda>c. 0 < length c \<and> length c \<le> 64 * 1024) cs \<and>
      list_all (\<lambda>c. 16 * 1024 \<le> length c) (butlast cs)"
proof -
  from chunk_sink.chunk_stream_ok [OF record_sink_ok params_new_ok, of "[]" "[]" bufs]
  have "bind_s (for_s (write_all (kr_write params_new record_sink)) bufs) (\<lambda>_. kr_flush record_sink) (chunker_new, []) =
      (Ok (), (chunker_new, ref_chunks params_new (concat bufs)))" by simp
  with ref_chunks_partition [of params_new "concat bufs"] show ?thesis
    by (auto simp: list_all_iff MIN_SIZE_def MAX_SIZE_def)
qed

end
