(* ===== verification/Content_Store.thy ===== *)
theory Content_Store
  imports Entry_List Merkle Chunker
begin

text \<open>
  The state that contents, segments and the content store share: the store object of
  \<open>src/src/content/store.rs\<close> in its cow, the segment and content cows and the segment data that
  references point to, the three caches over them, the volume and the transaction manager. The
  volume (\<open>'v\<close>, with entity writers \<open>'w\<close>), the registration with the transaction manager (\<open>'t\<close>),
  the hash function, the random entity ids and the linked hash maps are the fields of an
  environment. \<open>tls\<close> is the transaction id of the running thread.
\<close>

subsection \<open>Contents and the store object\<close>

record content =
  ct_ents :: entry_list
  ct_mtree :: merkle_tree
  ct_leaves :: leaves

record content_entry =
  ce_content_id :: eid
  ce_refcnt :: refcnt

definition content_entry_new :: content_entry where
  "content_entry_new = \<lparr>ce_content_id = eid_new_empty, ce_refcnt = refcnt_new\<rparr>"

definition ce_inc_ref :: "content_entry \<Rightarrow> (refcnt \<times> content_entry) res" where
  "ce_inc_ref c = bind_r (inc_ref (ce_refcnt c)) (\<lambda>r. Ok (r, c\<lparr>ce_refcnt := r\<rparr>))"

definition ce_dec_ref :: "content_entry \<Rightarrow> (refcnt \<times> content_entry) res" where
  "ce_dec_ref c = bind_r (dec_ref (ce_refcnt c)) (\<lambda>r. Ok (r, c\<lparr>ce_refcnt := r\<rparr>))"

text \<open>The parts of the store that are saved; the caches are shared by its two copies.\<close>

record store =
  sr_chunker_params :: chunker_params
  sr_dedup_file :: bool
  sr_content_map :: "hash \<rightharpoonup> content_entry"

definition SEG_CACHE_SIZE :: nat where "SEG_CACHE_SIZE = 16"
definition SEG_DATA_CACHE_SIZE :: nat where "SEG_DATA_CACHE_SIZE = 16 * 1024 * 1024"
definition CONTENT_CACHE_SIZE :: nat where "CONTENT_CACHE_SIZE = 16"

record ('v, 't) store_world =
  sw_store :: "store cow"
  sw_segs :: "nat \<Rightarrow> segment cow"
  sw_ctns :: "nat \<Rightarrow> content cow"
  sw_datas :: "nat \<Rightarrow> seg_data"
  sw_next :: nat
  sw_content_cache :: "(eid, nat) lru"
  sw_seg_cache :: "(eid, nat) lru"
  sw_segdata_cache :: "(eid, nat) lru"
  sw_vol :: 'v
  sw_tx :: 't
  sw_draws :: nat
  sw_alive :: bool

text \<open>
  \<open>se_read\<close> opens an entity of the volume and reads it to the end; \<open>se_load_seg\<close> and
  \<open>se_load_ctn\<close> are \<open>Cow::load\<close>; \<open>se_reg_data\<close> registers an entity of type \<open>Direct\<close>.
\<close>

record ('w, 'v, 't) store_env =
  se_hash :: "bytes \<Rightarrow> hash"
  se_eid :: "nat \<Rightarrow> eid"
  se_lru :: "(eid, nat) lhm_ops"
  se_chunks :: "(hash, chunk_idx) lhm_ops"
  se_reg :: "'t register"
  se_reg_data :: "eid \<Rightarrow> txid \<Rightarrow> action \<Rightarrow> (unit, error, 't) eff"
  se_load_seg :: "eid \<Rightarrow> (segment cow, error, 'v) eff"
  se_load_ctn :: "eid \<Rightarrow> (content cow, error, 'v) eff"
  se_read :: "eid \<Rightarrow> (bytes, error, 'v) eff"
  se_new :: "eid \<Rightarrow> ('w, error, 'v) eff"
  se_write :: "bytes \<Rightarrow> (nat, io_error, 'w \<times> 'v) eff"
  se_finish :: "(unit, error, 'w \<times> 'v) eff"

subsection \<open>Access to the parts\<close>

definition on_wvol :: "('a, 'e, 'v) eff \<Rightarrow> ('a, 'e, ('v, 't) store_world) eff" where
  "on_wvol m = zoom sw_vol (\<lambda>v s. s\<lparr>sw_vol := v\<rparr>) m"

definition on_wtx :: "('a, 'e, 't) eff \<Rightarrow> ('a, 'e, ('v, 't) store_world) eff" where
  "on_wtx m = zoom sw_tx (\<lambda>t s. s\<lparr>sw_tx := t\<rparr>) m"

definition on_seg :: "nat \<Rightarrow> ('a, 'e, segment cow \<times> 't) eff \<Rightarrow> ('a, 'e, ('v, 't) store_world) eff" where
  "on_seg r m = zoom (\<lambda>s. (sw_segs s r, sw_tx s))
     (\<lambda>(c, t) s. s\<lparr>sw_segs := (sw_segs s)(r := c), sw_tx := t\<rparr>) m"

definition on_ctn :: "nat \<Rightarrow> ('a, 'e, content cow \<times> 't) eff \<Rightarrow> ('a, 'e, ('v, 't) store_world) eff" where
  "on_ctn r m = zoom (\<lambda>s. (sw_ctns s r, sw_tx s))
     (\<lambda>(c, t) s. s\<lparr>sw_ctns := (sw_ctns s)(r := c), sw_tx := t\<rparr>) m"

definition on_sto :: "('a, 'e, store cow \<times> 't) eff \<Rightarrow> ('a, 'e, ('v, 't) store_world) eff" where
  "on_sto m = zoom (\<lambda>s. (sw_store s, sw_tx s)) (\<lambda>(c, t) s. s\<lparr>sw_store := c, sw_tx := t\<rparr>) m"

text \<open>\<open>upgrade().ok_or(Error::RepoClosed)\<close> on a weak reference to the store or the manager.\<close>

definition upgrade :: "(unit, error, ('v, 't) store_world) eff" where
  "upgrade = (\<lambda>s. (if sw_alive s then Ok () else Err RepoClosed, s))"

text \<open>\<open>Eid::new()\<close>\<close>

definition draw_eid :: "('w, 'v, 't) store_env \<Rightarrow> (eid, error, ('v, 't) store_world) eff" where
  "draw_eid E = (\<lambda>s. (Ok (se_eid E (sw_draws s)), s\<lparr>sw_draws := Suc (sw_draws s)\<rparr>))"

text \<open>Access to the inner value in an arm of a cow, as through the reference of \<open>make_mut\<close>.\<close>

definition inner_run :: "arm \<Rightarrow> ('b, error, 'a) eff \<Rightarrow> ('b, error, 'a cow \<times> 't) eff" where
  "inner_run a m = (\<lambda>(c, t). case slot_of c a of
       None \<Rightarrow> (Panic, (c, t))
     | Some x \<Rightarrow> (case m x of (r, x') \<Rightarrow> (r, (set_slot a (Some x') c, t))))"

definition mut_run :: "'t register \<Rightarrow> txid \<Rightarrow> ('b, error, 'a) eff \<Rightarrow> ('b, error, 'a cow \<times> 't) eff" where
  "mut_run reg tls m = bind_s (make_mut reg tls) (\<lambda>a. inner_run a m)"

text \<open>Reading a cow through \<open>Deref\<close>.\<close>

definition deref_run :: "txid \<Rightarrow> ('a, error, 'a cow \<times> 't) eff" where
  "deref_run tls = (\<lambda>(c, t). (cow_deref tls c, (c, t)))"

text \<open>\<open>into_cow\<close>: a new cow with a fresh id, registered as new; the result is its value.\<close>

definition into_cow ::
  "('w, 'v, 't) store_env \<Rightarrow> txid \<Rightarrow> 'a \<Rightarrow> ('a cow, error, ('v, 't) store_world) eff"
where
  "into_cow E tls x =
     bind_s (draw_eid E) (\<lambda>e. on_wtx (into_cow_with_id (se_reg E) tls e x))"

subsection \<open>The caches\<close>

text \<open>
  \<open>CowCache::get\<close> over a heap of cows: the state is the cache, the heap, the next free reference
  and the volume.
\<close>

definition cached_load ::
  "(eid, nat) lhm_ops \<Rightarrow> (eid \<Rightarrow> ('a cow, error, 'v) eff) \<Rightarrow> eid \<Rightarrow>
   (nat, error, (eid, nat) lru \<times> (nat \<Rightarrow> 'a cow) \<times> nat \<times> 'v) eff"
where
  "cached_load L ld e = (\<lambda>(c, h, n, v).
     if contains_key c e
     then (case cache_get L h Panic e c of (r, h', c') \<Rightarrow> (r, (c', h', n, v)))
     else (case ld e v of (x, v') \<Rightarrow>
            (case cache_get L h (bind_r x (\<lambda>cow. Ok (n, h(n := cow)))) e c of
               (r, h', c') \<Rightarrow> (r, (c', h', Suc n, v')))))"

definition get_seg :: "('w, 'v, 't) store_env \<Rightarrow> eid \<Rightarrow> (nat, error, ('v, 't) store_world) eff" where
  "get_seg E e = zoom (\<lambda>s. (sw_seg_cache s, sw_segs s, sw_next s, sw_vol s))
     (\<lambda>(c, h, n, v) s. s\<lparr>sw_seg_cache := c, sw_segs := h, sw_next := n, sw_vol := v\<rparr>)
     (cached_load (se_lru E) (se_load_seg E) e)"

definition get_content :: "('w, 'v, 't) store_env \<Rightarrow> eid \<Rightarrow> (nat, error, ('v, 't) store_world) eff" where
  "get_content E e = zoom (\<lambda>s. (sw_content_cache s, sw_ctns s, sw_next s, sw_vol s))
     (\<lambda>(c, h, n, v) s. s\<lparr>sw_content_cache := c, sw_ctns := h, sw_next := n, sw_vol := v\<rparr>)
     (cached_load (se_lru E) (se_load_ctn E) e)"

definition inject_seg_to_cache :: "('w, 'v, 't) store_env \<Rightarrow> nat \<Rightarrow> ('v, 't) store_world \<Rightarrow> ('v, 't) store_world" where
  "inject_seg_to_cache E r s = s\<lparr>sw_seg_cache := cache_insert (se_lru E) (sw_segs s) r (sw_seg_cache s)\<rparr>"

text \<open>\<open>DataCache\<close>: segment data is measured by its bytes and never pinned.\<close>

definition data_meter :: "(nat \<Rightarrow> seg_data) \<Rightarrow> nat \<Rightarrow> int" where
  "data_meter h r = segdata_meter (h r)"

definition segdata_load :: "('w, 'v, 't) store_env \<Rightarrow> eid \<Rightarrow> (seg_data, error, 'v) eff" where
  "segdata_load E e = bind_s (se_read E e) (\<lambda>b. ret_s \<lparr>sd_id = e, sd_action = None, sd_data = b\<rparr>)"

definition get_segdata :: "('w, 'v, 't) store_env \<Rightarrow> eid \<Rightarrow> (nat, error, ('v, 't) store_world) eff" where
  "get_segdata E e = (\<lambda>s.
     case get_refresh (se_lru E) (sw_segdata_cache s) e of
       (Some r, c) \<Rightarrow> (Ok r, s\<lparr>sw_segdata_cache := c\<rparr>)
     | (None, c) \<Rightarrow>
         bind_s (on_wvol (segdata_load E e)) (\<lambda>sd s.
           let n = sw_next s; h = (sw_datas s)(n := sd) in
           (Ok n, s\<lparr>sw_datas := h, sw_next := Suc n,
              sw_segdata_cache := snd (lru_insert (se_lru E) (data_meter h) no_pin (sw_segdata_cache s) e n)\<rparr>))
         (s\<lparr>sw_segdata_cache := c\<rparr>))"

definition remove_segdata_from_cache ::
  "('w, 'v, 't) store_env \<Rightarrow> eid \<Rightarrow> (nat option, error, ('v, 't) store_world) eff"
where
  "remove_segdata_from_cache E e = (\<lambda>s.
     case lru_remove (se_lru E) (data_meter (sw_datas s)) (sw_segdata_cache s) e of
       (r, c) \<Rightarrow> (Ok r, s\<lparr>sw_segdata_cache := c\<rparr>))"

definition segdata_deleted :: "seg_data \<Rightarrow> bool" where
  "segdata_deleted sd = (segdata_in_trans sd \<and> sd_action sd = Some Delete)"

definition remove_deleted_data ::
  "(eid, nat) lhm_ops \<Rightarrow> (nat \<Rightarrow> seg_data) \<Rightarrow> (eid, nat) lru \<Rightarrow> (eid, nat) lru"
where
  "remove_deleted_data L h c = c\<lparr>lmap := lhm_retain L (\<lambda>_ r. \<not> segdata_deleted (h r)) (lmap c)\<rparr>"

text \<open>\<open>Store::on_commit\<close>\<close>

definition store_on_commit :: "('w, 'v, 't) store_env \<Rightarrow> ('v, 't) store_world \<Rightarrow> ('v, 't) store_world" where
  "store_on_commit E s = s\<lparr>
     sw_content_cache := remove_deleted (se_lru E) (sw_ctns s) (sw_content_cache s),
     sw_seg_cache := remove_deleted (se_lru E) (sw_segs s) (sw_seg_cache s),
     sw_segdata_cache := remove_deleted_data (se_lru E) (sw_datas s) (sw_segdata_cache s)\<rparr>"

subsection \<open>Segments of the store\<close>

text \<open>
  \<open>SegData::add_to_trans\<close> registers a stub, which the manager keeps; the data in the cache is not
  marked.
\<close>

definition segdata_add_to_trans ::
  "('w, 'v, 't) store_env \<Rightarrow> eid \<Rightarrow> action \<Rightarrow> txid \<Rightarrow> (unit, error, ('v, 't) store_world) eff"
where
  "segdata_add_to_trans E e act t = on_wtx (se_reg_data E e t act)"

definition segdata_save :: "('w, 'v, 't) store_env \<Rightarrow> seg_data \<Rightarrow> (unit, error, ('v, 't) store_world) eff" where
  "segdata_save E sd = on_wvol (bind_s (se_new E (sd_id sd)) (\<lambda>w v.
     case bind_s (conv_s (map_err from_io_error) (write_all (se_write E) (sd_data sd))) (\<lambda>_. se_finish E) (w, v) of
       (r, (_, v')) \<Rightarrow> (r, v')))"

definition segment_remove :: "('w, 'v, 't) store_env \<Rightarrow> txid \<Rightarrow> nat \<Rightarrow> (unit, error, ('v, 't) store_world) eff" where
  "segment_remove E tls r =
     bind_s (on_seg r (deref_run tls)) (\<lambda>seg.
     bind_s (lift_r (txid_current tls)) (\<lambda>t.
     bind_s (segdata_add_to_trans E (sm_data_id seg) Delete t) (\<lambda>_.
     on_seg r (make_del (se_reg E) tls))))"

definition segment_shrink ::
  "('w, 'v, 't) store_env \<Rightarrow> txid \<Rightarrow> nat \<Rightarrow> (nat list, error, ('v, 't) store_world) eff"
where
  "segment_shrink E tls r =
     bind_s (lift_r (txid_current tls)) (\<lambda>t.
     bind_s (on_seg r (make_mut (se_reg E) tls)) (\<lambda>a.
     bind_s (on_seg r (inner_run a get_s)) (\<lambda>seg.
     bind_s (get_segdata E (sm_data_id seg)) (\<lambda>_.
     bind_s (remove_segdata_from_cache E (sm_data_id seg)) (\<lambda>d.
     bind_s (lift_r (unwrap_opt d)) (\<lambda>d.
     bind_s (segdata_add_to_trans E (sm_data_id seg) Delete t) (\<lambda>_.
     bind_s get_s (\<lambda>s.
     bind_s (lift_r (reposition (sd_data (sw_datas s d)) 0 (sm_chunks seg) [])) (\<lambda>(buf, chunks, retired).
     bind_s (on_seg r (inner_run a (modify_s (\<lambda>seg. seg\<lparr>sm_chunks := chunks\<rparr>)))) (\<lambda>_.
     bind_s (assert_s (length buf = sm_used seg)) (\<lambda>_.
     bind_s (draw_eid E) (\<lambda>e.
     bind_s (segdata_save E ((segdata_new e)\<lparr>sd_data := buf\<rparr>)) (\<lambda>_.
     bind_s (segdata_add_to_trans E e New t) (\<lambda>_.
     bind_s (on_seg r (inner_run a (modify_s (\<lambda>seg. seg\<lparr>sm_len := sm_used seg, sm_data_id := e\<rparr>)))) (\<lambda>_.
     ret_s retired)))))))))))))))"

definition store_seg_ops :: "('w, 'v, 't) store_env \<Rightarrow> txid \<Rightarrow> ('v, 't) store_world seg_ops" where
  "store_seg_ops E tls = \<lparr>so_get = get_seg E, so_read = (\<lambda>r. on_seg r (deref_run tls)),
     so_mut = (\<lambda>r m. on_seg r (mut_run (se_reg E) tls m)), so_remove = segment_remove E tls,
     so_shrink = segment_shrink E tls\<rparr>"

end
