(* ===== verification/Content.thy ===== *)
theory Content
  imports Content_Store
begin

text \<open>
  \<open>src/src/content/content.rs\<close>, the segment writer of \<open>src/src/content/segment.rs\<close> and the store
  writer and deduplication of \<open>src/src/content/store.rs\<close>: reading a content through its entries,
  writing chunks into segments with deduplication by the chunk map, and merging a written part
  into a content.
\<close>

subsection \<open>Contents\<close>

definition content_new :: "('w, 'v, 't) store_env \<Rightarrow> content res" where
  "content_new E = bind_r (mt_new (se_hash E) eid_new_empty) (\<lambda>t.
     Ok \<lparr>ct_ents = el_new, ct_mtree = t, ct_leaves = lv_new\<rparr>)"

definition content_len :: "content \<Rightarrow> nat" where
  "content_len c = xl_len (ct_ents c)"

definition content_end_offset :: "content \<Rightarrow> nat" where
  "content_end_offset c = end_offset (ct_ents c)"

definition content_hash :: "content \<Rightarrow> hash res" where
  "content_hash c = root_hash (ct_mtree c)"

definition content_append :: "eid \<Rightarrow> seg_span \<Rightarrow> content \<Rightarrow> content res" where
  "content_append e sp c = bind_r (el_append e sp (ct_ents c)) (\<lambda>l. Ok (c\<lparr>ct_ents := l\<rparr>))"

definition content_link ::
  "('w, 'v, 't) store_env \<Rightarrow> txid \<Rightarrow> content \<Rightarrow> (unit, error, ('v, 't) store_world) eff"
where
  "content_link E tls c = el_link (store_seg_ops E tls) (ct_ents c)"

definition content_unlink ::
  "('w, 'v, 't) store_env \<Rightarrow> txid \<Rightarrow> content \<Rightarrow> (unit, error, chunk_map \<times> ('v, 't) store_world) eff"
where
  "content_unlink E tls c =
     bind_s (on_store (on_sto make_mut_naive)) (\<lambda>_. el_unlink (store_seg_ops E tls) (se_chunks E) (ct_ents c))"

definition content_unlink_weak ::
  "('w, 'v, 't) store_env \<Rightarrow> txid \<Rightarrow> content \<Rightarrow> (unit, error, chunk_map \<times> ('v, 't) store_world) eff"
where
  "content_unlink_weak E tls c =
     bind_s (on_store (on_sto make_mut_naive)) (\<lambda>_. el_unlink_weak (store_seg_ops E tls) (se_chunks E) (ct_ents c))"

definition content_seek :: "seek_from \<Rightarrow> content \<Rightarrow> nat \<times> content" where
  "content_seek pos c = (let l = el_seek pos (ct_ents c) in (xl_offset l, c\<lparr>ct_ents := l\<rparr>))"

subsection \<open>The reader\<close>

record ctn_reader =
  cr_pos :: nat
  cr_content :: content

definition ctn_reader_new :: "content \<Rightarrow> ctn_reader" where
  "ctn_reader_new c = \<lparr>cr_pos = 0, cr_content = c\<rparr>"

text \<open>
  The innermost loop over one span, into a buffer of which \<open>n\<close> bytes are still free. The flag
  says that the buffer was full before the span was finished.
\<close>

function span_loop :: "seg_data \<Rightarrow> nat \<Rightarrow> nat \<Rightarrow> nat \<Rightarrow> (bytes \<times> bool) res" where
  "span_loop sd n seg_offset span_left =
     (if 0 < span_left
      then if n = 0 then Ok ([], True)
           else let read_len = min span_left n in
             bind_r (segdata_read read_len seg_offset sd) (\<lambda>b.
             bind_r (span_loop sd (n - read_len) (seg_offset + read_len) (span_left - read_len)) (\<lambda>(bs, full).
               Ok (b @ bs, full)))
      else Ok ([], False))"
  by pat_completeness auto
termination
  by (relation "measure (\<lambda>(sd, n, off, left). left)") auto

declare span_loop.simps [simp del]

fun read_ent_spans ::
  "segment \<Rightarrow> seg_data \<Rightarrow> nat \<Rightarrow> nat \<Rightarrow> seg_span list \<Rightarrow> (bytes \<times> bool) res"
where
  "read_ent_spans seg sd n pos [] = Ok ([], False)"
| "read_ent_spans seg sd n pos (sp # sps) =
     bind_r (sub_r pos (ss_offset sp)) (\<lambda>over_span.
     bind_r (offset_in_seg seg sp) (\<lambda>o1.
     bind_r (sub_r (ss_len sp) over_span) (\<lambda>span_left.
     bind_r (span_loop sd n (o1 + over_span) span_left) (\<lambda>(b, full).
       if full then Ok (b, True)
       else bind_r (read_ent_spans seg sd (n - length b) (pos + length b) sps) (\<lambda>(bs, full).
              Ok (b @ bs, full))))))"

text \<open>
  The loop over the entries. The result is what was read, also when a segment cannot be loaded:
  the position has moved by then. \<open>start\<close> is the position at the call.
\<close>

fun read_entries ::
  "('w, 'v, 't) store_env \<Rightarrow> txid \<Rightarrow> nat \<Rightarrow> nat \<Rightarrow> nat \<Rightarrow> entry list \<Rightarrow> ('v, 't) store_world \<Rightarrow>
   (unit, error) result \<times> bytes \<times> ('v, 't) store_world"
where
  "read_entries E tls start n pos [] s = (Ok (), [], s)"
| "read_entries E tls start n pos (e # es) s =
     (case bind_s (get_seg E (en_seg_id e)) (\<lambda>r.
           bind_s (on_seg r (deref_run tls)) (\<lambda>seg.
           bind_s (get_segdata E (sm_data_id seg)) (\<lambda>d.
           bind_s get_s (\<lambda>s.
             lift_r (read_ent_spans seg (sw_datas s d) n pos
               (dropWhile (\<lambda>sp. ss_end_offset sp \<le> start) (xl_items e))))))) s of
        (Ok (b, full), s1) \<Rightarrow>
          if full then (Ok (), b, s1)
          else (case read_entries E tls start (n - length b) (pos + length b) es s1 of
                  (r, bs, s2) \<Rightarrow> (r, b @ bs, s2))
      | (Err err, s1) \<Rightarrow> (Err err, [], s1)
      | (Panic, s1) \<Rightarrow> (Panic, [], s1))"

definition ctn_read ::
  "('w, 'v, 't) store_env \<Rightarrow> txid \<Rightarrow> nat \<Rightarrow> (bytes, io_error, ctn_reader \<times> ('v, 't) store_world) eff"
where
  "ctn_read E tls n = (\<lambda>(r, s).
     if n = 0 then (Ok [], (r, s))
     else (case conv_s map_io_err upgrade s of
        (Ok _, s) \<Rightarrow>
          (case read_entries E tls (cr_pos r) n (cr_pos r)
                 (dropWhile (\<lambda>e. end_offset e \<le> cr_pos r) (xl_items (ct_ents (cr_content r)))) s of
             (x, b, s') \<Rightarrow> (map_io_err (bind_r x (\<lambda>_. Ok b)), (r\<lparr>cr_pos := cr_pos r + length b\<rparr>, s')))
      | (Err e, s) \<Rightarrow> (Err e, (r, s))
      | (Panic, s) \<Rightarrow> (Panic, (r, s))))"

definition ctn_seek :: "seek_from \<Rightarrow> ctn_reader \<Rightarrow> ctn_reader" where
  "ctn_seek pos r = r\<lparr>cr_pos := (case pos of
       SeekStart p \<Rightarrow> p
     | SeekEnd d \<Rightarrow> as_usize (int (content_len (cr_content r)) + d)
     | SeekCurrent d \<Rightarrow> as_usize (int (cr_pos r) + d))\<rparr>"

text \<open>The reader as the hash tree uses it.\<close>

definition ctn_reader_ops ::
  "('w, 'v, 't) store_env \<Rightarrow> txid \<Rightarrow> (ctn_reader, ('v, 't) store_world) reader_ops"
where
  "ctn_reader_ops E tls = \<lparr>rd_seek = (\<lambda>p. ctn_seek (SeekStart p)),
     rd_read = (\<lambda>r n s. case ctn_read E tls n (r, s) of
       (x, (r', s')) \<Rightarrow> (bind_r x (\<lambda>b. Ok (b, r')), s'))\<rparr>"

subsection \<open>Merging and truncating\<close>

definition merge_from ::
  "('w, 'v, 't) store_env \<Rightarrow> txid \<Rightarrow> content \<Rightarrow> content \<Rightarrow> (content, error, ('v, 't) store_world) eff"
where
  "merge_from E tls other c =
     bind_s (write_with (store_seg_ops E tls) (ct_ents other) (ct_ents c)) (\<lambda>(l, _, _).
       let c1 = c\<lparr>ct_ents := l\<rparr> in
       (\<lambda>s. case merge (se_hash E) eid_new_empty (ctn_reader_ops E tls) (ct_leaves other)
              (ctn_reader_new c1) (ct_mtree c1, s) of
            (x, (t, s')) \<Rightarrow> (bind_r x (\<lambda>_. Ok (c1\<lparr>ct_mtree := t\<rparr>)), s')))"

definition content_truncate ::
  "('w, 'v, 't) store_env \<Rightarrow> txid \<Rightarrow> nat \<Rightarrow> content \<Rightarrow> (content, error, ('v, 't) store_world) eff"
where
  "content_truncate E tls at c =
     bind_s (assert_s (at \<le> content_len c)) (\<lambda>_.
     bind_s (cut_with (store_seg_ops E tls) (split_off entry_ops at) at (ct_ents c)) (\<lambda>l.
       let c1 = c\<lparr>ct_ents := l\<rparr> in
       (\<lambda>s. case Merkle.truncate (se_hash E) eid_new_empty (ctn_reader_ops E tls) at
              (ctn_reader_new c1) (ct_mtree c1, s) of
            (x, (t, s')) \<Rightarrow> (bind_r x (\<lambda>_. Ok (c1\<lparr>ct_mtree := t\<rparr>)), s'))))"

subsection \<open>The segment writer\<close>

text \<open>Before the first segment is made, the writer refers to a default cow.\<close>

definition cow_default :: "'a cow" where
  "cow_default = \<lparr>co_id = eid_new_empty, co_seq = 0, co_arm = arm_default, co_left = None,
     co_right = None, co_txid = None, co_action = None\<rparr>"

record 'w seg_writer =
  gw_txid :: txid
  gw_seg :: nat
  gw_data_wtr :: "'w option"

definition seg_writer_new :: "txid \<Rightarrow> ('v, 't) store_world \<Rightarrow> 'w seg_writer \<times> ('v, 't) store_world" where
  "seg_writer_new t s = (\<lparr>gw_txid = t, gw_seg = sw_next s, gw_data_wtr = None\<rparr>,
     s\<lparr>sw_segs := (sw_segs s)(sw_next s := cow_default), sw_next := Suc (sw_next s)\<rparr>)"

type_synonym ('w, 'v, 't) gstate = "'w seg_writer \<times> ('v, 't) store_world"

definition on_world :: "('a, 'e, ('v, 't) store_world) eff \<Rightarrow> ('a, 'e, 'x \<times> ('v, 't) store_world) eff" where
  "on_world m = zoom snd (\<lambda>s (x, _). (x, s)) m"

text \<open>Finish the data writer, which is consumed also when it fails.\<close>

definition finish_data :: "('w, 'v, 't) store_env \<Rightarrow> (unit, error, ('w, 'v, 't) gstate) eff" where
  "finish_data E = (\<lambda>(g, s). case gw_data_wtr g of
       None \<Rightarrow> (Ok (), (g, s))
     | Some w \<Rightarrow> (case se_finish E (w, sw_vol s) of
         (r, (_, v)) \<Rightarrow> (r, (g\<lparr>gw_data_wtr := None\<rparr>, s\<lparr>sw_vol := v\<rparr>))))"

definition alloc_seg :: "segment cow \<Rightarrow> (nat, error, ('v, 't) store_world) eff" where
  "alloc_seg c = (\<lambda>s. (Ok (sw_next s), s\<lparr>sw_segs := (sw_segs s)(sw_next s := c), sw_next := Suc (sw_next s)\<rparr>))"

definition renew :: "('w, 'v, 't) store_env \<Rightarrow> txid \<Rightarrow> (unit, error, ('w, 'v, 't) gstate) eff" where
  "renew E tls =
     bind_s (on_world upgrade) (\<lambda>_.
     bind_s (on_world (draw_eid E)) (\<lambda>data_id.
     bind_s get_s (\<lambda>(g, _).
     bind_s (on_world (segdata_add_to_trans E data_id New (gw_txid g))) (\<lambda>_.
     bind_s (finish_data E) (\<lambda>_.
     bind_s (on_world (on_wvol (se_new E data_id))) (\<lambda>w.
     bind_s (modify_s (\<lambda>(g, s). (g\<lparr>gw_data_wtr := Some w\<rparr>, s))) (\<lambda>_.
     bind_s (on_world (bind_s (into_cow E tls (segment_new data_id)) alloc_seg)) (\<lambda>r.
     bind_s (modify_s (\<lambda>(g, s). (g\<lparr>gw_seg := r\<rparr>, s))) (\<lambda>_.
     bind_s (on_world upgrade) (\<lambda>_.
     modify_s (\<lambda>(g, s). (g, inject_seg_to_cache E r s))))))))))))"

text \<open>Writing through the data writer of the current segment.\<close>

definition write_data :: "('w, 'v, 't) store_env \<Rightarrow> bytes \<Rightarrow> (unit, io_error, ('w, 'v, 't) gstate) eff" where
  "write_data E b = (\<lambda>(g, s). case gw_data_wtr g of
       None \<Rightarrow> (Panic, (g, s))
     | Some w \<Rightarrow> (case write_all (se_write E) b (w, sw_vol s) of
         (r, (w', v)) \<Rightarrow> (r, (g\<lparr>gw_data_wtr := Some w'\<rparr>, s\<lparr>sw_vol := v\<rparr>))))"

definition seg_write ::
  "('w, 'v, 't) store_env \<Rightarrow> txid \<Rightarrow> bytes \<Rightarrow> (nat, io_error, ('w, 'v, 't) gstate) eff"
where
  "seg_write E tls chunk =
     bind_s get_s (\<lambda>(g, _).
     bind_s (if gw_data_wtr g = None then conv_s map_io_err (renew E tls) else ret_s ()) (\<lambda>_.
     bind_s get_s (\<lambda>(g, _).
     bind_s (conv_s map_io_err (on_world (on_seg (gw_seg g) (deref_run tls)))) (\<lambda>seg.
       if is_full seg then ret_s 0
       else bind_s (write_data E chunk) (\<lambda>_.
            bind_s (conv_s map_io_err (on_world upgrade)) (\<lambda>_.
            bind_s (conv_s map_io_err (on_world (on_seg (gw_seg g)
              (mut_run (se_reg E) tls (modify_s (append_chunk (length chunk))))))) (\<lambda>_.
            ret_s (length chunk))))))))"

definition seg_finish :: "('w, 'v, 't) store_env \<Rightarrow> (unit, error, ('w, 'v, 't) gstate) eff" where
  "seg_finish E = finish_data E"

subsection \<open>The content writer\<close>

record 'w ctn_writer =
  cw_txid :: txid
  cw_ctn :: content
  cw_chk_map :: chunk_map
  cw_seg_wtr :: "'w seg_writer"
  cw_mtree_wtr :: mt_writer

type_synonym ('w, 'v, 't) cstate = "'w ctn_writer \<times> ('v, 't) store_world"

definition ctn_writer_new ::
  "('w, 'v, 't) store_env \<Rightarrow> txid \<Rightarrow> chunk_map \<Rightarrow> ('w ctn_writer, error, ('v, 't) store_world) eff"
where
  "ctn_writer_new E t m =
     bind_s (lift_r (content_new E)) (\<lambda>c s. case seg_writer_new t s of
       (g, s') \<Rightarrow> (Ok \<lparr>cw_txid = t, cw_ctn = c, cw_chk_map = m, cw_seg_wtr = g, cw_mtree_wtr = mw_new\<rparr>, s'))"

definition on_seg_wtr :: "('a, 'e, ('w, 'v, 't) gstate) eff \<Rightarrow> ('a, 'e, ('w, 'v, 't) cstate) eff" where
  "on_seg_wtr m = zoom (\<lambda>(w, s). (cw_seg_wtr w, s)) (\<lambda>(g, s) (w, _). (w\<lparr>cw_seg_wtr := g\<rparr>, s)) m"

definition on_cw :: "('w ctn_writer \<Rightarrow> 'w ctn_writer) \<Rightarrow> (unit, 'e, ('w, 'v, 't) cstate) eff" where
  "on_cw f = modify_s (\<lambda>(w, s). (f w, s))"

text \<open>Append a span to the content of the writer; a merge that fails is a panic.\<close>

definition cw_append_span :: "eid \<Rightarrow> seg_span \<Rightarrow> (unit, io_error, ('w, 'v, 't) cstate) eff" where
  "cw_append_span e sp =
     bind_s get_s (\<lambda>(w, _).
     bind_s (conv_s map_io_err (lift_r (content_append e sp (cw_ctn w)))) (\<lambda>c. on_cw (\<lambda>w. w\<lparr>cw_ctn := c\<rparr>)))"

definition cw_append_chunk ::
  "('w, 'v, 't) store_env \<Rightarrow> txid \<Rightarrow> bytes \<Rightarrow> hash \<Rightarrow> (unit, io_error, ('w, 'v, 't) cstate) eff"
where
  "cw_append_chunk E tls chunk h =
     bind_s (on_seg_wtr (seg_write E tls chunk)) (\<lambda>written.
     bind_s (if written = 0
             then bind_s (conv_s map_io_err (on_seg_wtr (renew E tls))) (\<lambda>_. on_seg_wtr (seg_write E tls chunk))
             else ret_s written) (\<lambda>written.
     bind_s (assert_s (written = length chunk)) (\<lambda>_.
     bind_s get_s (\<lambda>(w, s).
     bind_s (conv_s map_io_err (on_world (on_seg (gw_seg (cw_seg_wtr w)) (deref_run tls)))) (\<lambda>seg.
     bind_s (lift_r (sub_r (chunk_cnt seg) 1)) (\<lambda>i.
       let e = co_id (sw_segs s (gw_seg (cw_seg_wtr w))) in
       bind_s (cw_append_span e (ss_new i (i + 1) 0 (length chunk) (content_end_offset (cw_ctn w)))) (\<lambda>_.
       on_cw (\<lambda>w. w\<lparr>cw_chk_map := cm_insert (se_chunks E) h e i (cw_chk_map w)\<rparr>))))))))"

text \<open>The chunk map, with the entry found moved to the end.\<close>

definition cw_lookup :: "('w, 'v, 't) store_env \<Rightarrow> hash \<Rightarrow> (chunk_loc option, io_error, ('w, 'v, 't) cstate) eff" where
  "cw_lookup E h = (\<lambda>(w, s). case cm_get_refresh (se_chunks E) h (cw_chk_map w) of
     (r, m) \<Rightarrow> (map_io_err r, (w\<lparr>cw_chk_map := m\<rparr>, s)))"

definition cw_write ::
  "('w, 'v, 't) store_env \<Rightarrow> txid \<Rightarrow> bytes \<Rightarrow> (nat, io_error, ('w, 'v, 't) cstate) eff"
where
  "cw_write E tls chunk =
     (let h = se_hash E chunk in
      bind_s (on_cw (\<lambda>w. w\<lparr>cw_mtree_wtr := snd (mw_write (se_hash E) chunk (cw_mtree_wtr w))\<rparr>)) (\<lambda>_.
      bind_s (cw_lookup E h) (\<lambda>found.
      bind_s (case found of
         Some loc \<Rightarrow>
           bind_s (conv_s map_io_err (on_world upgrade)) (\<lambda>_.
           bind_s get_s (\<lambda>(w, s).
           bind_s (if cl_seg_id loc = co_id (sw_segs s (gw_seg (cw_seg_wtr w))) then ret_s (gw_seg (cw_seg_wtr w))
                   else conv_s map_io_err (on_world (get_seg E (cl_seg_id loc)))) (\<lambda>r.
           bind_s (conv_s map_io_err (on_world (on_seg r (deref_run tls)))) (\<lambda>seg.
           bind_s (lift_r (nth_r (sm_chunks seg) (cl_idx loc))) (\<lambda>ck.
           bind_s (cw_append_span (cl_seg_id loc)
             (ss_new (cl_idx loc) (cl_idx loc + 1) 0 (ck_len ck) (content_end_offset (cw_ctn w)))) (\<lambda>_.
           assert_s (length chunk = ck_len ck)))))))
       | None \<Rightarrow> cw_append_chunk E tls chunk h) (\<lambda>_. ret_s (length chunk)))))"

definition cw_flush :: "(unit, io_error, ('w, 'v, 't) cstate) eff" where
  "cw_flush = ret_s ()"

definition cw_seek :: "seek_from \<Rightarrow> (nat, io_error, ('w, 'v, 't) cstate) eff" where
  "cw_seek pos =
     bind_s (on_cw (\<lambda>w. w\<lparr>cw_ctn := snd (content_seek pos (cw_ctn w))\<rparr>)) (\<lambda>_.
     bind_s get_s (\<lambda>(w, _).
     bind_s (conv_s map_io_err (lift_r (mw_seek pos (cw_mtree_wtr w)))) (\<lambda>m.
     bind_s (on_cw (\<lambda>w. w\<lparr>cw_mtree_wtr := m\<rparr>)) (\<lambda>_. ret_s (lv_offset (mw_leaves m))))))"

text \<open>The stage content, with the leaves of what was written, and the updated chunk map.\<close>

definition cw_finish ::
  "('w, 'v, 't) store_env \<Rightarrow> (content \<times> chunk_map, error, ('w, 'v, 't) cstate) eff"
where
  "cw_finish E =
     bind_s (on_seg_wtr (seg_finish E)) (\<lambda>_.
     bind_s get_s (\<lambda>(w, _).
       ret_s ((cw_ctn w)\<lparr>ct_leaves := finish_with_leaves (se_hash E) (cw_mtree_wtr w)\<rparr>, cw_chk_map w)))"

subsection \<open>The store writer\<close>

definition ctn_sink :: "('w, 'v, 't) store_env \<Rightarrow> txid \<Rightarrow> ('w, 'v, 't) cstate sink_ops" where
  "ctn_sink E tls = \<lparr>sk_write = cw_write E tls, sk_flush = cw_flush, sk_seek = cw_seek\<rparr>"

record 'w store_writer =
  tw_chunker :: chunker
  tw_params :: chunker_params
  tw_inner :: "'w ctn_writer"

type_synonym ('w, 'v, 't) wrstate = "'w store_writer \<times> ('v, 't) store_world"

definition store_writer_new ::
  "('w, 'v, 't) store_env \<Rightarrow> txid \<Rightarrow> txid \<Rightarrow> chunk_map \<Rightarrow> ('w store_writer, error, ('v, 't) store_world) eff"
where
  "store_writer_new E tls t m =
     bind_s upgrade (\<lambda>_.
     bind_s (on_sto (deref_run tls)) (\<lambda>st.
     bind_s (ctn_writer_new E t m) (\<lambda>c.
       ret_s \<lparr>tw_chunker = chunker_new, tw_params = sr_chunker_params st, tw_inner = c\<rparr>)))"

definition on_chunker ::
  "('a, 'e, chunker \<times> ('w, 'v, 't) cstate) eff \<Rightarrow> ('a, 'e, ('w, 'v, 't) wrstate) eff"
where
  "on_chunker m = zoom (\<lambda>(w, s). (tw_chunker w, (tw_inner w, s)))
     (\<lambda>(k, (c, s)) (w, _). (w\<lparr>tw_chunker := k, tw_inner := c\<rparr>, s)) m"

definition store_write ::
  "('w, 'v, 't) store_env \<Rightarrow> txid \<Rightarrow> bytes \<Rightarrow> (nat, io_error, ('w, 'v, 't) wrstate) eff"
where
  "store_write E tls b =
     bind_s get_s (\<lambda>(w, _). on_chunker (kr_write (tw_params w) (ctn_sink E tls) b))"

definition store_flush :: "('w, 'v, 't) store_env \<Rightarrow> txid \<Rightarrow> (unit, io_error, ('w, 'v, 't) wrstate) eff" where
  "store_flush E tls = on_chunker (kr_flush (ctn_sink E tls))"

definition store_seek ::
  "('w, 'v, 't) store_env \<Rightarrow> txid \<Rightarrow> seek_from \<Rightarrow> (nat, io_error, ('w, 'v, 't) wrstate) eff"
where
  "store_seek E tls pos = on_chunker (kr_seek (ctn_sink E tls) pos)"

definition store_finish ::
  "('w, 'v, 't) store_env \<Rightarrow> txid \<Rightarrow> (content \<times> chunk_map, error, ('w, 'v, 't) wrstate) eff"
where
  "store_finish E tls =
     bind_s (conv_s (map_err from_io_error) (on_chunker (kr_into_inner (ctn_sink E tls)))) (\<lambda>_.
     zoom (\<lambda>(w, s). (tw_inner w, s)) (\<lambda>(c, s) (w, _). (w\<lparr>tw_inner := c\<rparr>, s)) (cw_finish E))"

subsection \<open>Deduplication of contents\<close>

text \<open>\<open>content.clone().into_cow\<close>: the cow is dropped, the manager keeps it; its id is returned.\<close>

definition new_content ::
  "('w, 'v, 't) store_env \<Rightarrow> txid \<Rightarrow> content \<Rightarrow> (eid, error, ('v, 't) store_world) eff"
where
  "new_content E tls c = bind_s (into_cow E tls c) (\<lambda>w. ret_s (co_id w))"

definition dedup_content ::
  "('w, 'v, 't) store_env \<Rightarrow> txid \<Rightarrow> content \<Rightarrow> (bool \<times> eid, error, ('v, 't) store_world) eff"
where
  "dedup_content E tls c =
     bind_s (on_sto (deref_run tls)) (\<lambda>st.
       if \<not> sr_dedup_file st then bind_s (new_content E tls c) (\<lambda>e. ret_s (True, e))
       else
       bind_s (on_sto (make_mut (se_reg E) tls)) (\<lambda>a.
       bind_s (lift_r (content_hash c)) (\<lambda>h.
       bind_s (on_sto (inner_run a (modify_s (\<lambda>st. case sr_content_map st h of
           None \<Rightarrow> st\<lparr>sr_content_map := (sr_content_map st)(h \<mapsto> content_entry_new)\<rparr> | Some _ \<Rightarrow> st)))) (\<lambda>_.
       bind_s (on_sto (inner_run a get_s)) (\<lambda>st.
       bind_s (lift_r (unwrap_opt (sr_content_map st h))) (\<lambda>ent.
       bind_s (lift_r (ce_inc_ref ent)) (\<lambda>(_, ent).
       bind_s (on_sto (inner_run a (modify_s (\<lambda>st. st\<lparr>sr_content_map := (sr_content_map st)(h \<mapsto> ent)\<rparr>)))) (\<lambda>_.
         if eid_is_empty (ce_content_id ent)
         then bind_s (new_content E tls c) (\<lambda>e.
              bind_s (on_sto (inner_run a (modify_s (\<lambda>st.
                st\<lparr>sr_content_map := (sr_content_map st)(h \<mapsto> ent\<lparr>ce_content_id := e\<rparr>)\<rparr>)))) (\<lambda>_.
              ret_s (True, e)))
         else ret_s (False, ce_content_id ent)))))))))"

text \<open>The result is a reference to the content when nothing refers to it any more.\<close>

definition deref_content ::
  "('w, 'v, 't) store_env \<Rightarrow> txid \<Rightarrow> eid \<Rightarrow> (nat option, error, ('v, 't) store_world) eff"
where
  "deref_content E tls content_id =
     bind_s (on_sto (deref_run tls)) (\<lambda>st.
       if \<not> sr_dedup_file st then ret_s None
       else
       bind_s (on_sto (make_mut (se_reg E) tls)) (\<lambda>a.
       bind_s (get_content E content_id) (\<lambda>r.
       bind_s (on_ctn r (deref_run tls)) (\<lambda>c.
       bind_s (lift_r (content_hash c)) (\<lambda>h.
       bind_s (on_sto (inner_run a get_s)) (\<lambda>st.
       bind_s (lift_r (ok_or (sr_content_map st h) NoContent)) (\<lambda>ent.
       bind_s (lift_r (ce_dec_ref ent)) (\<lambda>(n, ent).
       bind_s (on_sto (inner_run a (modify_s (\<lambda>st. st\<lparr>sr_content_map := (sr_content_map st)(h \<mapsto> ent)\<rparr>)))) (\<lambda>_.
         if 0 < n then ret_s None
         else bind_s (on_sto (inner_run a (modify_s (\<lambda>st.
                st\<lparr>sr_content_map := (sr_content_map st)(h := None)\<rparr>)))) (\<lambda>_. ret_s (Some r)))))))))))"

end
