(* ===== verification/Merkle_Tree.thy ===== *)
theory Merkle_Tree
  imports Merkle
begin

text \<open>
  The reference definition of the hash tree, level by level from the pieces of a content, and
  the proof that the index arithmetic of \<open>src/src/content/merkle_tree.rs\<close> computes it: building
  from all leaves, merging the leaves of a written range, and truncating.
\<close>

subsection \<open>The reference tree\<close>

fun up :: "(bytes \<Rightarrow> bytes) \<Rightarrow> bytes list \<Rightarrow> bytes list" where
  "up H (x # y # zs) = H (x @ y) # up H zs"
| "up H [x] = [x]"
| "up H [] = []"

lemma length_up [simp]: "length (up H xs) = (length xs + 1) div 2"
  by (induction H xs rule: up.induct) auto

lemma up_Nil_iff: "up H xs = [] \<longleftrightarrow> xs = []"
  by (cases "(H, xs)" rule: up.cases) auto

lemma nth_up:
  "j < (length xs + 1) div 2 \<Longrightarrow>
     up H xs ! j = (if 2 * j + 1 < length xs then H (xs ! (2 * j) @ xs ! (2 * j + 1)) else xs ! (2 * j))"
proof (induction H xs arbitrary: j rule: up.induct)
  case (1 H x y zs)
  then show ?case by (cases j) auto
qed auto

function tree_of :: "(bytes \<Rightarrow> bytes) \<Rightarrow> bytes list \<Rightarrow> bytes list" where
  "tree_of H xs = (if length xs \<le> 1 then xs else tree_of H (up H xs) @ xs)"
  by pat_completeness auto
termination
  by (relation "measure (\<lambda>(H, xs). length xs)") auto

declare tree_of.simps [simp del]

text \<open>The number of inner nodes above a level of \<open>n\<close> nodes.\<close>

function inner :: "nat \<Rightarrow> nat" where
  "inner n = (if n \<le> 1 then 0 else inner ((n + 1) div 2) + (n + 1) div 2)"
  by pat_completeness auto
termination
  by (relation "measure id") auto

declare inner.simps [simp del]

lemma inner_small [simp]: "n \<le> 1 \<Longrightarrow> inner n = 0"
  by (simp add: inner.simps)

lemma inner_step: "1 < n \<Longrightarrow> inner n = inner ((n + 1) div 2) + (n + 1) div 2"
  by (subst inner.simps) simp

lemma inner_pos_iff: "0 < inner n \<longleftrightarrow> 1 < n"
  by (subst inner.simps) auto

lemma length_tree_of: "length (tree_of H xs) = inner (length xs) + length xs"
proof (induction H xs rule: tree_of.induct)
  case (1 H xs)
  show ?case
  proof (cases "length xs \<le> 1")
    case True
    then show ?thesis by (simp add: tree_of.simps)
  next
    case False
    then have "length (tree_of H xs) = inner (length (up H xs)) + length (up H xs) + length xs"
      using 1 by (subst tree_of.simps) simp
    with False show ?thesis using inner_step [of "length xs"] by simp
  qed
qed

lemma inner_mono: "m \<le> n \<Longrightarrow> inner m \<le> inner n"
proof (induction n arbitrary: m rule: inner.induct)
  case (1 n)
  show ?case
  proof (cases "1 < m")
    case True
    then have n: "1 < n" using "1.prems" by simp
    have "inner ((m + 1) div 2) \<le> inner ((n + 1) div 2)"
      using "1.prems" n by (intro "1.IH") (auto intro!: div_le_mono)
    moreover have "(m + 1) div 2 \<le> (n + 1) div 2" using "1.prems" by (intro div_le_mono) simp
    ultimately show ?thesis using True n by (simp add: inner_step)
  qed simp
qed

lemma node_cnt_loop_inner: "1 \<le> n \<Longrightarrow> Suc (node_cnt_loop s n) = s + inner n + n"
proof (induction s n rule: node_cnt_loop.induct)
  case (1 s n)
  show ?case
  proof (cases "1 < n")
    case True
    then have "Suc (node_cnt_loop s n) = s + n + inner ((n + 1) div 2) + (n + 1) div 2"
      using 1 by (subst node_cnt_loop.simps) simp
    with True show ?thesis by (simp add: inner_step)
  next
    case False
    with 1 have "n = 1" by simp
    then show ?thesis by (simp add: node_cnt_loop.simps)
  qed
qed

lemma tree_node_cnt_inner: "1 \<le> n \<Longrightarrow> tree_node_cnt n = inner n + n"
  using node_cnt_loop_inner [of n 1] by (simp add: tree_node_cnt_def)

subsection \<open>Levels in the vector of nodes\<close>

definition level :: "nat \<Rightarrow> bytes list \<Rightarrow> bytes list \<Rightarrow> bool" where
  "level b ys nodes \<longleftrightarrow> b + length ys \<le> length nodes \<and> (\<forall>i < length ys. nodes ! (b + i) = ys ! i)"

lemma level_append: "length g = b \<Longrightarrow> level b ys (g @ ys @ rest)"
  by (simp add: level_def nth_append)

lemma level_split:
  assumes "level b ys nodes"
  shows "nodes = take b nodes @ ys @ drop (b + length ys) nodes"
proof (rule nth_equalityI)
  show "length nodes = length (take b nodes @ ys @ drop (b + length ys) nodes)"
    using assms by (simp add: level_def)
next
  fix i
  assume "i < length nodes"
  then show "nodes ! i = (take b nodes @ ys @ drop (b + length ys) nodes) ! i"
    using assms spec [of "\<lambda>k. k < length ys \<longrightarrow> nodes ! (b + k) = ys ! k" "i - b"]
    by (auto simp: level_def nth_append)
qed

lemma level_update: "level b ys nodes \<Longrightarrow> i < b \<Longrightarrow> level b ys (nodes[i := x])"
  by (simp add: level_def)

text \<open>The pairs of indices of a level.\<close>

definition pair_at :: "nat \<Rightarrow> nat \<Rightarrow> nat \<Rightarrow> nat list" where
  "pair_at b n j = (if 2 * j + 1 < n then [b + 2 * j, Suc (b + 2 * j)] else [b + 2 * j])"

lemma chunks_pairs: "chunks 2 [b..<b + n] = map (pair_at b n) [0..<(n + 1) div 2]"
proof (induction n arbitrary: b rule: less_induct)
  case (less n)
  consider "n = 0" | "n = 1" | k where "n = Suc (Suc k)" by (metis One_nat_def not0_implies_Suc)
  then show ?case
  proof cases
    case 1
    then show ?thesis by simp
  next
    case 2
    then show ?thesis by (simp add: chunks_step pair_at_def)
  next
    case 3
    have "[b..<b + n] = b # Suc b # [b + 2..<b + 2 + k]" using 3 by (simp add: upt_conv_Cons)
    then have "chunks 2 [b..<b + n] = [b, Suc b] # chunks 2 [b + 2..<b + 2 + k]"
      by (simp add: chunks_step numeral_2_eq_2)
    also have "\<dots> = [b, Suc b] # map (pair_at (b + 2) k) [0..<(k + 1) div 2]"
      using less.IH [of k "b + 2"] 3 by simp
    also have "\<dots> = pair_at b n 0 # map (pair_at b n) (map Suc [0..<(k + 1) div 2])"
      using 3 by (simp add: pair_at_def)
    also have "\<dots> = map (pair_at b n) [0..<(n + 1) div 2]"
    proof -
      have "[0..<(n + 1) div 2] = 0 # map Suc [0..<(k + 1) div 2]"
        using 3 by (simp add: upt_conv_Cons map_Suc_upt del: upt_Suc)
      then show ?thesis by simp
    qed
    finally show ?thesis .
  qed
qed

lemma mt_parent_pair:
  assumes "0 < n" and "(n + 1) div 2 \<le> b"
  shows "mt_parent (b + 2 * j) b n = Ok (b - (n + 1) div 2 + j)"
  using assms by (simp add: mt_parent_def sub_r_def)

lemma hash_up_pair:
  assumes "level b ys nodes" and "n = length ys" and "(n + 1) div 2 \<le> b" and "j < (n + 1) div 2"
  shows "hash_up H (pair_at b n j) b n nodes = Ok (nodes[b - (n + 1) div 2 + j := up H ys ! j])"
proof -
  have n: "0 < n" "2 * j < n" using assms(4) by auto
  have len: "b + n \<le> length nodes" using assms(1,2) by (simp add: level_def)
  have y: "nodes ! (b + 2 * j) = ys ! (2 * j)" using assms(1,2) n by (simp add: level_def)
  have y': "nodes ! (Suc (b + 2 * j)) = ys ! (Suc (2 * j))" if "Suc (2 * j) < n"
    using assms(1,2) that by (auto simp: level_def dest: spec [of _ "Suc (2 * j)"])
  show ?thesis
    using n len y y' assms(2-4)
    by (auto simp: hash_up_def pair_at_def assert_r_def nth_r_def set_r_def mt_parent_pair nth_up)
qed

lemma take_drop_append: "take k xs @ drop k xs @ ys = xs @ ys"
  by (metis append_assoc append_take_drop_id)

text \<open>Filling a range of a list from the left or from the right.\<close>

lemma fill_left:
  assumes "a + k < length xs" and "k < length v"
  shows "(take a xs @ take k v @ drop (a + k) xs)[a + k := v ! k] =
    take a xs @ take (Suc k) v @ drop (Suc (a + k)) xs"
proof -
  have "drop (a + k) xs = xs ! (a + k) # drop (Suc (a + k)) xs"
    using assms(1) by (rule Cons_nth_drop_Suc [symmetric])
  with assms show ?thesis by (simp add: list_update_append take_Suc_conv_app_nth)
qed

lemma fill_right:
  assumes "a + k < length xs" and "k < length v"
  shows "(take (Suc (a + k)) xs @ drop (Suc k) v @ rest)[a + k := v ! k] =
    take (a + k) xs @ drop k v @ rest"
proof -
  have "drop k v = v ! k # drop (Suc k) v" using assms(2) by (rule Cons_nth_drop_Suc [symmetric])
  with assms show ?thesis by (simp add: list_update_append take_Suc_conv_app_nth)
qed

subsection \<open>Building\<close>

lemma build_level:
  assumes "level b ys nodes" and "n = length ys" and "(n + 1) div 2 \<le> b" and "k \<le> (n + 1) div 2"
  shows "fold_r (\<lambda>pair. hash_up H pair b n) (map (pair_at b n) [k..<(n + 1) div 2])
      (take (b - (n + 1) div 2) nodes @ take k (up H ys) @ drop (b - (n + 1) div 2 + k) nodes) =
    Ok (take (b - (n + 1) div 2) nodes @ up H ys @ drop b nodes)"
  using assms(4)
proof (induction "(n + 1) div 2 - k" arbitrary: k)
  case 0
  then have "k = (n + 1) div 2" by simp
  with assms(2,3) show ?case by simp
next
  case (Suc d)
  let ?u = "(n + 1) div 2"
  let ?N = "\<lambda>k. take (b - ?u) nodes @ take k (up H ys) @ drop (b - ?u + k) nodes"
  have k: "k < ?u" using Suc by simp
  have b: "b \<le> length nodes" using assms(1) by (simp add: level_def)
  have lvl: "level b ys (?N k)"
    using assms(1-3) k b by (auto simp: level_def nth_append)
  have "(?N k)[b - ?u + k := up H ys ! k] = ?N (Suc k)"
    using fill_left [of "b - ?u" k nodes "up H ys"] k b assms(2,3) by simp
  then have "hash_up H (pair_at b n k) b n (?N k) = Ok (?N (Suc k))"
    using hash_up_pair [OF lvl assms(2,3) k, of H] by simp
  moreover have "[k..<?u] = k # [Suc k..<?u]" using k by (simp add: upt_conv_Cons)
  ultimately show ?case using Suc.hyps(1) [of "Suc k"] Suc.hyps(2) k by simp
qed

lemma build_loop_tree:
  assumes "length g = inner (length ys)" and "ys \<noteq> []"
  shows "build_loop H (inner (length ys)) (inner (length ys) + length ys) (length ys) (g @ ys @ rest) =
    Ok (tree_of H ys @ rest)"
  using assms
proof (induction "length ys" arbitrary: ys g rest rule: less_induct)
  case less
  let ?n = "length ys" let ?u = "(?n + 1) div 2" let ?b = "inner ?n"
  show ?case
  proof (cases "1 < ?n")
    case False
    then have "?b = 0" "g = []" "tree_of H ys = ys" using less.prems by (simp_all add: tree_of.simps)
    then show ?thesis by (simp add: build_loop.simps)
  next
    case True
    have b: "?b = inner ?u + ?u" using True by (rule inner_step)
    have lvl: "level ?b ys (g @ ys @ rest)" using less.prems by (intro level_append)
    have "fold_r (\<lambda>pair. hash_up H pair ?b ?n) (chunks 2 [?b..<?b + ?n]) (g @ ys @ rest) =
        Ok (take (inner ?u) g @ up H ys @ ys @ rest)"
      using build_level [OF lvl refl, of 0 H] b less.prems
      by (simp add: chunks_pairs take_drop_append)
    moreover have "up H ys \<noteq> []" using up_Nil_iff [of H ys] less.prems by simp
    then have "build_loop H (inner (length (up H ys))) (inner (length (up H ys)) + length (up H ys))
        (length (up H ys)) (take (inner ?u) g @ up H ys @ (ys @ rest)) = Ok (tree_of H (up H ys) @ (ys @ rest))"
      using True less.prems b by (intro less.hyps) auto
    moreover have "tree_of H ys = tree_of H (up H ys) @ ys" using True by (subst tree_of.simps) simp
    moreover have "mt_parent ?b ?b ?n = Ok (inner ?u)" using True b by (simp add: mt_parent_def sub_r_def)
    ultimately show ?thesis
      using b inner_pos_iff [of ?n] True by (subst build_loop.simps) (simp add: Suc_le_eq)
  qed
qed

lemma build_tree:
  assumes "lv_offset l = 0" and "lv_nodes l \<noteq> []"
  shows "build H e l = Ok \<lparr>mt_len = lv_len l, mt_nodes = tree_of H (lv_nodes l)\<rparr>"
proof -
  have "1 \<le> length (lv_nodes l)" using assms(2) by (cases "lv_nodes l") auto
  then have n: "tree_node_cnt (length (lv_nodes l)) = inner (length (lv_nodes l)) + length (lv_nodes l)"
    by (rule tree_node_cnt_inner)
  show ?thesis
    using assms build_loop_tree [of "replicate (inner (length (lv_nodes l))) e" "lv_nodes l" H "[]"] n
    by (simp add: build_def assert_r_def Let_def sub_r_def)
qed

subsection \<open>Merging\<close>

lemma tree_of_leaf: "i < length xs \<Longrightarrow> tree_of H xs ! (inner (length xs) + i) = xs ! i"
proof (cases "length xs \<le> 1")
  case False
  assume "i < length xs"
  have "tree_of H xs = tree_of H (up H xs) @ xs" using False by (subst tree_of.simps) simp
  moreover have "length (tree_of H (up H xs)) = inner (length xs)"
    using False inner_step [of "length xs"] by (simp add: length_tree_of)
  ultimately show ?thesis by (simp add: nth_append)
qed (simp add: tree_of.simps)

lemma tree_of_upper:
  assumes "1 < length xs" and "i < inner (length xs)"
  shows "tree_of H xs ! i = tree_of H (up H xs) ! i"
proof -
  have "tree_of H xs = tree_of H (up H xs) @ xs" using assms(1) by (subst tree_of.simps) simp
  moreover have "length (tree_of H (up H xs)) = inner (length xs)"
    using assms(1) inner_step [of "length xs"] by (simp add: length_tree_of)
  ultimately show ?thesis using assms(2) by (simp add: nth_append)
qed

text \<open>\<open>oi\<close> is the index of the first changed node of the level, \<open>m\<close> the size of the old level.\<close>

lemma merge_pair_ok:
  assumes lvl: "level b ys nodes" and n: "n = length ys" and u: "(n + 1) div 2 \<le> b" and k: "k < (n + 1) div 2"
    and old: "2 * k + 1 < oi \<Longrightarrow> (m + 1) div 2 \<le> ob \<and> ob - (m + 1) div 2 \<le> b - (n + 1) div 2 \<and> 0 < m \<and>
        nodes ! (ob - (m + 1) div 2 + k) = up H ys ! k"
  shows "merge_pair H b n (b + oi) ob m (pair_at b n k) nodes = Ok (nodes[b - (n + 1) div 2 + k := up H ys ! k])"
proof (cases "2 * k + 1 < oi \<and> 2 * k + 1 < n")
  case True
  let ?u = "(n + 1) div 2" and ?um = "(m + 1) div 2"
  have o1: "?um \<le> ob" "ob - ?um \<le> b - ?u" "0 < m" "nodes ! (ob - ?um + k) = up H ys ! k"
    using old True by auto
  have len: "b \<le> length nodes" using lvl by (simp add: level_def)
  define p q where "p = b - ?u + k" and "q = ob - ?um + k"
  have "mt_parent (ob + 2 * k) ob m = Ok q" unfolding q_def using o1 by (intro mt_parent_pair)
  moreover have "mt_parent (b + 2 * k) b n = Ok p" unfolding p_def using u True by (intro mt_parent_pair) auto
  moreover have "(if q \<noteq> p then bind_r (nth_r nodes q) (set_r nodes p) else Ok nodes) =
      (Ok (nodes[p := up H ys ! k]) :: bytes list res)"
  proof (cases "q = p")
    case True
    with o1(4) have "nodes[p := up H ys ! k] = nodes" unfolding q_def by (metis list_update_id)
    with True show ?thesis by simp
  next
    case False
    have "p < length nodes" "q < length nodes" using len k u o1(2) unfolding p_def q_def by linarith+
    with False o1(4) show ?thesis by (simp add: nth_r_def set_r_def q_def)
  qed
  moreover have "q \<le> p" using o1(2) by (simp add: p_def q_def)
  ultimately show ?thesis
    using True unfolding p_def [symmetric] by (simp add: merge_pair_def pair_at_def sub_r_def assert_r_def)
next
  case False
  then have "merge_pair H b n (b + oi) ob m (pair_at b n k) nodes = hash_up H (pair_at b n k) b n nodes"
    by (auto simp: merge_pair_def pair_at_def)
  then show ?thesis using hash_up_pair [OF lvl n u k] by simp
qed

lemma merge_level:
  assumes lvl: "level b ys nodes" and n: "n = length ys" and u: "(n + 1) div 2 \<le> b" and "k \<le> (n + 1) div 2"
    and old: "\<And>j. j < (n + 1) div 2 \<Longrightarrow> 2 * j + 1 < oi \<Longrightarrow> (m + 1) div 2 \<le> ob \<and>
        ob - (m + 1) div 2 \<le> b - (n + 1) div 2 \<and> 0 < m \<and> nodes ! (ob - (m + 1) div 2 + j) = up H ys ! j"
  shows "fold_r (merge_pair H b n (b + oi) ob m) (map (pair_at b n) (rev [0..<k]))
      (take (b - (n + 1) div 2 + k) nodes @ drop k (up H ys) @ drop b nodes) =
    Ok (take (b - (n + 1) div 2) nodes @ up H ys @ drop b nodes)"
  using assms(4)
proof (induction k)
  case 0
  then show ?case by simp
next
  case (Suc k)
  let ?u = "(n + 1) div 2"
  let ?N = "\<lambda>k. take (b - ?u + k) nodes @ drop k (up H ys) @ drop b nodes"
  have k: "k < ?u" using Suc by simp
  have b: "b \<le> length nodes" using lvl by (simp add: level_def)
  have lv: "level b ys (?N (Suc k))"
    using lvl n u k b by (auto simp: level_def nth_append)
  have nth: "?N (Suc k) ! i = nodes ! i" if "i < Suc (b - ?u + k)" for i
    using that b u k n by (simp add: nth_append)
  have "merge_pair H b n (b + oi) ob m (pair_at b n k) (?N (Suc k)) = Ok ((?N (Suc k))[b - ?u + k := up H ys ! k])"
    using old [OF k] nth by (intro merge_pair_ok [OF lv n u k]) auto
  also have "(?N (Suc k))[b - ?u + k := up H ys ! k] = ?N k"
    using fill_right [of "b - ?u" k nodes "up H ys" "drop b nodes"] k b n u by simp
  finally show ?case using Suc.IH k by simp
qed

lemma merge_loop_tree:
  assumes "length g = inner (length ys)" and "ys \<noteq> []" and "zs \<noteq> []" and "length zs \<le> length ys"
    and "\<And>i. i < inner (length zs) \<Longrightarrow> g ! i = tree_of H zs ! i"
    and "oi \<le> length zs" and "\<And>i. i < oi \<Longrightarrow> ys ! i = zs ! i" and "inner (length ys) \<le> oe"
  shows "merge_loop H (inner (length ys)) (inner (length ys) + length ys) (length ys) (inner (length ys) + oi) oe
      (inner (length zs)) (length zs) (g @ ys @ rest) = Ok (tree_of H ys @ rest)"
  using assms
proof (induction "length ys" arbitrary: ys zs g rest oi oe rule: less_induct)
  case less
  let ?n = "length ys" let ?u = "(?n + 1) div 2" let ?b = "inner ?n"
  let ?m = "length zs" let ?um = "(?m + 1) div 2"
  show ?case
  proof (cases "1 < ?n")
    case False
    then have "?b = 0" "g = []" "tree_of H ys = ys" using less.prems by (simp_all add: tree_of.simps)
    then show ?thesis by (simp add: merge_loop.simps)
  next
    case True
    have b: "?b = inner ?u + ?u" using True by (rule inner_step)
    have umu: "?um \<le> ?u" using less.prems(4) by (intro div_le_mono) simp
    have same: "up H ys ! j = up H zs ! j" if "2 * j + 1 < oi" for j
      using that less.prems(4,6) less.prems(7) [of "2 * j"] less.prems(7) [of "2 * j + 1"]
      by (subst (1 2) nth_up) auto
    have old: "?um \<le> inner ?m \<and> inner ?m - ?um \<le> ?b - ?u \<and> 0 < ?m \<and>
        (g @ ys @ rest) ! (inner ?m - ?um + j) = up H ys ! j" if "j < ?u" "2 * j + 1 < oi" for j
    proof -
      have m: "1 < ?m" using that(2) less.prems(6) by simp
      then have im: "inner ?m = inner ?um + ?um" by (rule inner_step)
      have j: "j < ?um" using that(2) less.prems(6) by simp
      have "inner ?m \<le> ?b" using less.prems(4) by (rule inner_mono)
      then have "(g @ ys @ rest) ! (inner ?um + j) = g ! (inner ?um + j)"
        using im j less.prems(1) by (simp add: nth_append)
      also have "\<dots> = tree_of H zs ! (inner ?um + j)" using im j by (intro less.prems(5)) simp
      also have "\<dots> = tree_of H (up H zs) ! (inner ?um + j)" using im j m by (intro tree_of_upper) simp_all
      also have "\<dots> = up H zs ! j" using tree_of_leaf [of j "up H zs" H] j by simp
      finally show ?thesis using im same [OF that(2)] inner_mono [OF umu] b less.prems(3) by simp
    qed
    have lvl: "level ?b ys (g @ ys @ rest)" using less.prems by (intro level_append)
    have fold: "fold_r (merge_pair H ?b ?n (?b + oi) (inner ?m) ?m) (rev (chunks 2 [?b..<?b + ?n])) (g @ ys @ rest) =
        Ok (take (inner ?u) g @ up H ys @ ys @ rest)"
    proof -
      have "?u \<le> ?b" using b by simp
      from merge_level [where oi = oi and m = ?m and ob = "inner ?m" and H = H, OF lvl refl this order_refl old]
      show ?thesis using b less.prems(1) by (simp add: chunks_pairs rev_map)
    qed
    define zs' where "zs' = (if 1 < ?m then up H zs else zs)"
    have m1: "?m = 1" if "\<not> 1 < ?m" using that less.prems(3) by (cases zs) auto
    have zs': "zs' \<noteq> []" "length zs' \<le> ?u" using umu less.prems(3) True m1 by (auto simp: zs'_def up_Nil_iff)
    have "merge_loop H (inner (length (up H ys))) (inner (length (up H ys)) + length (up H ys))
        (length (up H ys)) (inner (length (up H ys)) + oi div 2) (inner ?u + (oe - ?b) div 2)
        (inner (length zs')) (length zs') (take (inner ?u) g @ up H ys @ (ys @ rest)) =
        Ok (tree_of H (up H ys) @ (ys @ rest))"
    proof (rule less.hyps)
      show "length (up H ys) < ?n" using True by simp
      show "length (take (inner ?u) g) = inner (length (up H ys))" using b less.prems(1) by simp
      show "up H ys \<noteq> []" using less.prems(2) by (simp add: up_Nil_iff)
      show "zs' \<noteq> []" "length zs' \<le> length (up H ys)" using zs' by simp_all
      show "oi div 2 \<le> length zs'" using less.prems(6) m1 by (auto simp: zs'_def)
      show "up H ys ! i = zs' ! i" if "i < oi div 2" for i
        using that same [of i] m1 less.prems(6) by (auto simp: zs'_def)
      show "inner (length (up H ys)) \<le> inner ?u + (oe - ?b) div 2" by simp
      show "take (inner ?u) g ! i = tree_of H zs' ! i" if i: "i < inner (length zs')" for i
      proof (cases "1 < ?m")
        case True
        have im: "inner ?m = inner ?um + ?um" using True by (rule inner_step)
        have "i < inner ?um" using i True by (simp add: zs'_def)
        with True im less.prems(5) [of i] tree_of_upper [OF True, of i H] inner_mono [OF umu]
        show ?thesis by (simp add: zs'_def)
      next
        case False
        with i m1 show ?thesis by (simp add: zs'_def)
      qed
    qed
    moreover have "mt_parent ?b ?b ?n = Ok (inner ?u)" "mt_parent (?b + oi) ?b ?n = Ok (inner ?u + oi div 2)"
      "mt_parent oe ?b ?n = Ok (inner ?u + (oe - ?b) div 2)"
      using True b less.prems(2,8) by (simp_all add: mt_parent_def sub_r_def)
    moreover have "(if 0 < inner ?m then mt_parent (inner ?m) (inner ?m) ?m else Ok (inner ?m)) = Ok (inner (length zs'))"
      "(if 0 < inner ?m then ?um else ?m) = length zs'"
      using inner_step [of ?m] m1 by (auto simp: inner_pos_iff mt_parent_def sub_r_def zs'_def)
    moreover have "tree_of H ys = tree_of H (up H ys) @ ys" using True by (subst tree_of.simps) simp
    ultimately show ?thesis
      using inner_pos_iff [of ?n] True fold
      by (subst merge_loop.simps) (simp add: Suc_le_eq b [simplified, symmetric])
  qed
qed

subsection \<open>Pieces\<close>

definition piece :: "nat \<Rightarrow> bytes \<Rightarrow> bytes" where
  "piece i b = take PIECE_SIZE (drop (i * PIECE_SIZE) b)"

abbreviation piece_cnt :: "nat \<Rightarrow> nat" where
  "piece_cnt n \<equiv> align_piece_ceil_chunk n"

definition piece_hashes :: "(bytes \<Rightarrow> bytes) \<Rightarrow> bytes \<Rightarrow> bytes list" where
  "piece_hashes H b = map (\<lambda>i. H (piece i b)) [0..<piece_cnt (length b)]"

text \<open>The tree of a content.\<close>

definition merkle_of :: "(bytes \<Rightarrow> bytes) \<Rightarrow> bytes \<Rightarrow> merkle_tree" where
  "merkle_of H b = \<lparr>mt_len = length b, mt_nodes = tree_of H (piece_hashes H b)\<rparr>"

lemma piece_cnt_eq: "piece_cnt n = (if n = 0 then 1 else (n + PIECE_SIZE - 1) div PIECE_SIZE)"
  using align_ceil_chunk_eq [of n 18] by (simp add: PIECE_SIZE_def align_piece_ceil_chunk_def)

lemma floor_chunk_eq: "align_piece_floor_chunk n = n div PIECE_SIZE"
  using align_floor_chunk_eq [of n 18] by (simp add: PIECE_SIZE_def align_piece_floor_chunk_def)

lemma piece_floor_eq: "align_piece_floor n = n div PIECE_SIZE * PIECE_SIZE"
  using align_floor_eq [of n 18] by (simp add: PIECE_SIZE_def align_piece_floor_def)

lemma piece_cnt_pos: "1 \<le> piece_cnt n"
  using piece_pos by (auto simp: piece_cnt_eq Suc_le_eq div_greater_zero_iff)

lemma less_piece_cnt: "0 < n \<Longrightarrow> i < piece_cnt n \<longleftrightarrow> i * PIECE_SIZE < n"
proof -
  assume n: "0 < n"
  have "i < (n + PIECE_SIZE - 1) div PIECE_SIZE \<longleftrightarrow> Suc i * PIECE_SIZE \<le> n + PIECE_SIZE - 1"
    using less_eq_div_iff_mult_less_eq [OF piece_pos, of "Suc i" "n + PIECE_SIZE - 1"] by (simp add: Suc_le_eq)
  then show ?thesis using n piece_pos by (auto simp: piece_cnt_eq)
qed

lemma piece_cnt_mono: "m \<le> n \<Longrightarrow> piece_cnt m \<le> piece_cnt n"
proof (cases "m = 0")
  case True
  then show ?thesis using piece_cnt_pos [of n] by (simp add: piece_cnt_eq [of 0])
next
  case False
  assume "m \<le> n"
  then have "i < piece_cnt n" if "i < piece_cnt m" for i
    using that False less_piece_cnt [of m i] less_piece_cnt [of n i] by simp
  then show ?thesis by (metis linorder_not_le less_irrefl)
qed

lemma piece_cnt_unaligned: "n mod PIECE_SIZE \<noteq> 0 \<Longrightarrow> piece_cnt n = Suc (n div PIECE_SIZE)"
proof -
  assume a: "n mod PIECE_SIZE \<noteq> 0"
  then have n: "0 < n" by (cases n) auto
  have lt: "n div PIECE_SIZE * PIECE_SIZE < n" using a by (metis div_mult_mod_eq less_add_same_cancel1 neq0_conv)
  have "n \<le> Suc (n div PIECE_SIZE) * PIECE_SIZE"
    using piece_pos by (metis dividend_less_div_times less_imp_le_nat mult_Suc add.commute)
  then have "\<not> Suc (n div PIECE_SIZE) < piece_cnt n" using less_piece_cnt [OF n] by (simp add: not_less)
  moreover have "n div PIECE_SIZE < piece_cnt n" using less_piece_cnt [OF n] lt by blast
  ultimately show ?thesis by simp
qed

lemma piece_cnt_aligned: "0 < n \<Longrightarrow> n mod PIECE_SIZE = 0 \<Longrightarrow> piece_cnt n = n div PIECE_SIZE"
proof -
  assume n: "0 < n" and a: "n mod PIECE_SIZE = 0"
  have "n = n div PIECE_SIZE * PIECE_SIZE" using a by (metis add.right_neutral div_mult_mod_eq)
  then have "i < piece_cnt n \<longleftrightarrow> i < n div PIECE_SIZE" for i
    using less_piece_cnt [OF n, of i] piece_pos by (metis mult_less_cancel2)
  then show ?thesis by (metis linorder_neqE_nat less_irrefl)
qed

text \<open>The part of data \<open>d\<close> placed at offset \<open>off\<close> that falls into piece \<open>i\<close>.\<close>

definition part :: "nat \<Rightarrow> bytes \<Rightarrow> nat \<Rightarrow> bytes" where
  "part off d i = take (Suc i * PIECE_SIZE - max (i * PIECE_SIZE) off) (drop (i * PIECE_SIZE - off) d)"

lemma part_full: "Suc i * PIECE_SIZE \<le> off + length d \<Longrightarrow> part off (d @ x) i = part off d i"
  by (auto simp: part_def max_def)

lemma part_last:
  assumes "i * PIECE_SIZE \<le> off + length d" and "off + length (d @ x) \<le> Suc i * PIECE_SIZE"
  shows "part off (d @ x) i = part off d i @ x"
  using assms by (auto simp: part_def max_def)

lemma part_beyond: "off + length d \<le> i * PIECE_SIZE \<Longrightarrow> part off d i = []"
  by (simp add: part_def)

definition mw_inv :: "(bytes \<Rightarrow> bytes) \<Rightarrow> nat \<Rightarrow> bytes \<Rightarrow> mt_writer \<Rightarrow> bool" where
  "mw_inv H off d w \<longleftrightarrow> mw_hash_offset w = off + length d \<and> lv_offset (mw_leaves w) = off \<and>
     lv_nodes (mw_leaves w) = map (\<lambda>i. H (part off d i)) [off div PIECE_SIZE..<(off + length d) div PIECE_SIZE] \<and>
     mw_state w = part off d ((off + length d) div PIECE_SIZE)"

lemma mw_step:
  assumes inv: "mw_inv H off d w" and x: "x \<noteq> []"
    and len: "length x \<le> PIECE_SIZE - (off + length d) mod PIECE_SIZE"
  shows "mw_inv H off (d @ x) (w\<lparr>mw_state := (if align_piece_offset (mw_hash_offset w + length x) \<le>
        align_piece_offset (mw_hash_offset w) then [] else mw_state w @ x),
      mw_leaves := (if align_piece_offset (mw_hash_offset w + length x) \<le> align_piece_offset (mw_hash_offset w)
        then (mw_leaves w)\<lparr>lv_nodes := lv_nodes (mw_leaves w) @ [H (mw_state w @ x)]\<rparr> else mw_leaves w),
      mw_hash_offset := mw_hash_offset w + length x\<rparr>)"
proof -
  let ?h = "off + length d" let ?i = "?h div PIECE_SIZE"
  have h: "?i * PIECE_SIZE + ?h mod PIECE_SIZE = ?h" by simp
  have modl: "?h mod PIECE_SIZE < PIECE_SIZE" using piece_pos by simp
  have le: "?h + length x \<le> Suc ?i * PIECE_SIZE" using h len modl unfolding mult_Suc by linarith
  have st: "part off (d @ x) ?i = part off d ?i @ x"
    using le by (intro part_last) auto
  have dn: "part off (d @ x) i = part off d i" if "i < ?i" for i
  proof -
    have "Suc i * PIECE_SIZE \<le> ?i * PIECE_SIZE" using that by (intro mult_le_mono1) simp
    then show ?thesis using h by (intro part_full) linarith
  qed
  have lo: "off div PIECE_SIZE \<le> ?i" by (simp add: div_le_mono)
  show ?thesis
  proof (cases "?h + length x = Suc ?i * PIECE_SIZE")
    case True
    then have d: "(?h + length x) div PIECE_SIZE = Suc ?i" "(?h + length x) mod PIECE_SIZE = 0"
      using piece_pos by simp_all
    have "part off (d @ x) (Suc ?i) = []" using True by (intro part_beyond) simp
    with d st dn inv lo show ?thesis
      by (simp add: mw_inv_def align_piece_offset_mod add.assoc [symmetric])
  next
    case False
    with le have lt: "?h + length x < Suc ?i * PIECE_SIZE" by simp
    then have d: "(?h + length x) div PIECE_SIZE = ?i"
    proof (intro div_nat_eqI)
      show "PIECE_SIZE * ?i \<le> ?h + length x" using h by (simp add: mult.commute trans_le_add1)
      show "?h + length x < PIECE_SIZE * Suc ?i" using lt by (simp add: mult.commute)
    qed
    have "?i * PIECE_SIZE + (?h + length x) mod PIECE_SIZE = ?h + length x"
      using d by (metis div_mult_mod_eq)
    moreover have "0 < length x" using x by simp
    ultimately have "?h mod PIECE_SIZE < (?h + length x) mod PIECE_SIZE" using h by linarith
    with d st dn inv show ?thesis
      by (auto simp: mw_inv_def align_piece_offset_mod add.assoc [symmetric])
  qed
qed

lemma mw_loop_inv: "mw_inv H off d w \<Longrightarrow> mw_inv H off (d @ x) (mw_loop H x w)"
proof (induction H x w arbitrary: d rule: mw_loop.induct)
  case (1 H x w)
  show ?case
  proof (cases "x = []")
    case True
    with "1.prems" show ?thesis by (simp add: mw_loop.simps)
  next
    case False
    have off: "mw_hash_offset w = off + length d" using "1.prems" by (simp add: mw_inv_def)
    let ?k = "min (PIECE_SIZE - align_piece_offset (mw_hash_offset w)) (length x)"
    have "align_piece_offset (mw_hash_offset w) < PIECE_SIZE" using piece_pos by (simp add: align_piece_offset_mod)
    then have k: "take ?k x \<noteq> []" "length (take ?k x) \<le> PIECE_SIZE - (off + length d) mod PIECE_SIZE"
      "length (take ?k x) = ?k"
      using False off by (auto simp: align_piece_offset_mod)
    from "1.IH" [OF False refl refl refl refl mw_step [OF "1.prems" k(1,2), unfolded k(3)]] show ?thesis
      using False by (subst mw_loop.simps) (simp add: Let_def)
  qed
qed

end
