(* ===== verification/Merkle_Update.thy ===== *)
theory Merkle_Update
  imports Merkle_Tree
begin

text \<open>
  The hash tree under changes of the content: the leaves that the pieces writer produces, and the
  theorems that \<open>build\<close>, \<open>merge\<close> and \<open>truncate\<close> of \<open>src/src/content/merkle_tree.rs\<close> always
  give the reference tree of the content.
\<close>

subsection \<open>The leaves of written data\<close>

definition leaves_of :: "(bytes \<Rightarrow> bytes) \<Rightarrow> nat \<Rightarrow> bytes \<Rightarrow> leaves" where
  "leaves_of H off d = \<lparr>lv_offset = off, lv_len = length d, lv_nodes = (if d = [] then [H []]
     else map (\<lambda>i. H (part off d i)) [off div PIECE_SIZE..<piece_cnt (off + length d)])\<rparr>"

text \<open>A run of the writer: seek, some writes, finish.\<close>

definition write_pieces :: "(bytes \<Rightarrow> bytes) \<Rightarrow> nat \<Rightarrow> bytes list \<Rightarrow> leaves res" where
  "write_pieces H off ds = bind_r (mw_seek (SeekStart off) mw_new) (\<lambda>w.
     Ok (finish_with_leaves H (fold (\<lambda>d w. snd (mw_write H d w)) ds w)))"

lemma mw_loop_len: "lv_len (mw_leaves (mw_loop H x w)) = lv_len (mw_leaves w)"
proof (induction H x w rule: mw_loop.induct)
  case (1 H x w)
  then show ?case by (subst mw_loop.simps) (simp add: Let_def)
qed

lemma mw_write_inv:
  assumes "mw_inv H off d w" and "lv_len (mw_leaves w) = length d"
  shows "mw_inv H off (d @ x) (snd (mw_write H x w)) \<and>
    lv_len (mw_leaves (snd (mw_write H x w))) = length (d @ x)"
  using mw_loop_inv [OF assms(1), of x] mw_loop_len [of H x w] assms(2)
  by (simp add: mw_write_def Let_def mw_inv_def)

lemma mw_writes_inv:
  assumes "mw_inv H off d w" and "lv_len (mw_leaves w) = length d"
  shows "mw_inv H off (d @ concat ds) (fold (\<lambda>d w. snd (mw_write H d w)) ds w) \<and>
    lv_len (mw_leaves (fold (\<lambda>d w. snd (mw_write H d w)) ds w)) = length (d @ concat ds)"
  using assms
proof (induction ds arbitrary: d w)
  case (Cons x ds)
  from Cons.IH [of "d @ x" "snd (mw_write H x w)"] mw_write_inv [OF Cons.prems, of x] show ?case by simp
qed simp

lemma finish_leaves:
  assumes inv: "mw_inv H off d w" and len: "lv_len (mw_leaves w) = length d"
  shows "finish_with_leaves H w = leaves_of H off d"
proof -
  let ?h = "off + length d"
  obtain l where l: "mw_leaves w = l" "lv_offset l = off" "lv_len l = length d"
    "lv_nodes l = map (\<lambda>i. H (part off d i)) [off div PIECE_SIZE..<?h div PIECE_SIZE]"
    using inv len by (simp add: mw_inv_def)
  have w: "mw_hash_offset w = ?h" "mw_state w = part off d (?h div PIECE_SIZE)"
    using inv by (simp_all add: mw_inv_def)
  have lo: "off div PIECE_SIZE \<le> ?h div PIECE_SIZE" by (simp add: div_le_mono)
  consider "d = []" | "d \<noteq> []" "?h mod PIECE_SIZE = 0" | "d \<noteq> []" "?h mod PIECE_SIZE \<noteq> 0" by blast
  then show ?thesis
  proof cases
    case 1
    with l w show ?thesis by (cases l) (simp add: finish_with_leaves_def leaves_of_def part_def)
  next
    case 2
    then have "piece_cnt ?h = ?h div PIECE_SIZE" by (intro piece_cnt_aligned) simp_all
    with 2 l w show ?thesis
      by (cases l) (simp add: finish_with_leaves_def leaves_of_def align_piece_offset_mod)
  next
    case 3
    with l w lo piece_cnt_unaligned [of ?h] show ?thesis
      by (cases l) (simp add: finish_with_leaves_def leaves_of_def align_piece_offset_mod)
  qed
qed

lemma write_pieces_leaves: "write_pieces H off ds = Ok (leaves_of H off (concat ds))"
proof -
  define w where "w = mw_new\<lparr>mw_leaves := lv_new\<lparr>lv_offset := off\<rparr>, mw_hash_offset := off\<rparr>"
  have seek: "mw_seek (SeekStart off) mw_new = Ok w"
    by (simp add: mw_seek_def mw_new_def lv_new_def assert_r_def w_def)
  have "mw_inv H off [] w" "lv_len (mw_leaves w) = 0"
    by (simp_all add: mw_inv_def w_def mw_new_def lv_new_def part_def)
  with mw_writes_inv [of H off "[]" w ds]
  have "finish_with_leaves H (fold (\<lambda>d w. snd (mw_write H d w)) ds w) = leaves_of H off (concat ds)"
    by (intro finish_leaves) simp_all
  with seek show ?thesis by (simp add: write_pieces_def)
qed

lemma leaves_from_start: "lv_nodes (leaves_of H 0 b) = piece_hashes H b"
proof (cases "b = []")
  case True
  then show ?thesis by (simp add: leaves_of_def piece_hashes_def piece_cnt_eq piece_def)
next
  case False
  have "part 0 b i = piece i b" for i by (simp add: part_def piece_def)
  with False show ?thesis by (simp add: leaves_of_def piece_hashes_def)
qed

lemma length_piece_hashes [simp]: "length (piece_hashes H b) = piece_cnt (length b)"
  by (simp add: piece_hashes_def)

lemma piece_hashes_ne: "piece_hashes H b \<noteq> []"
  using piece_cnt_pos [of "length b"] by (auto simp: piece_hashes_def)

text \<open>
  C19. Building a tree from the leaves of data written in any number of pieces gives the
  reference tree of that data, in which the leaves are the hashes of its pieces and every inner
  node the hash of its two children, or its only child. In particular the default tree is that
  of the empty content.
\<close>

theorem merkle_build_reference:
  "bind_r (write_pieces H 0 ds) (build H e) = Ok (merkle_of H (concat ds)) \<and>
   mt_new H e = Ok (merkle_of H [])"
proof -
  have b: "build H e (leaves_of H 0 b) = Ok (merkle_of H b)" for b
    using build_tree [of "leaves_of H 0 b" H e] leaves_from_start [of H b] piece_hashes_ne [of H b]
    by (simp add: merkle_of_def) (simp add: leaves_of_def)
  have "finish_with_leaves H mw_new = leaves_of H 0 []"
    by (simp add: finish_with_leaves_def mw_new_def lv_new_def leaves_of_def)
  with b write_pieces_leaves show ?thesis by (simp add: mt_new_def)
qed

subsection \<open>Readers\<close>

text \<open>
  What merging relies on of a reader: \<open>good b p r s\<close> says that reader \<open>r\<close> in state \<open>s\<close> reads
  content \<open>b\<close> and stands at position \<open>p\<close>. A read returns some of the next bytes, none only at
  the end or for an empty buffer.
\<close>

locale byte_reader =
  fixes R :: "('r, 's) reader_ops" and good :: "bytes \<Rightarrow> nat \<Rightarrow> 'r \<Rightarrow> 's \<Rightarrow> bool"
  assumes read_ok: "good b p r s \<Longrightarrow> \<exists>x r' s'. rd_read R r n s = (Ok (x, r'), s') \<and>
      x = take (length x) (drop p b) \<and> length x \<le> n \<and> (0 < n \<and> p < length b \<longrightarrow> x \<noteq> []) \<and>
      good b (p + length x) r' s'"
    and seek_ok: "good b p r s \<Longrightarrow> good b q (rd_seek R q r) s"
begin

lemma piece_loop_ok:
  assumes "good b p r s" and "pos \<le> PIECE_SIZE"
  shows "\<exists>q r' s'. piece_loop R pos acc r s = (Ok (acc @ take (PIECE_SIZE - pos) (drop p b), r'), s') \<and> good b q r' s'"
  using assms
proof (induction "PIECE_SIZE - pos" arbitrary: pos acc p r s rule: less_induct)
  case less
  obtain x r' s' where x: "rd_read R r (PIECE_SIZE - pos) s = (Ok (x, r'), s')" "x = take (length x) (drop p b)"
    "length x \<le> PIECE_SIZE - pos" "0 < PIECE_SIZE - pos \<Longrightarrow> p < length b \<Longrightarrow> x \<noteq> []" "good b (p + length x) r' s'"
    using read_ok [OF less.prems(1), of "PIECE_SIZE - pos"] by blast
  show ?case
  proof (cases "x = []")
    case True
    then have "take (PIECE_SIZE - pos) (drop p b) = []" using x(4) by (cases "p < length b"; cases "pos < PIECE_SIZE") auto
    with True x show ?thesis by (subst piece_loop.simps) auto
  next
    case False
    then have lx: "0 < length x" by simp
    then have "PIECE_SIZE - (pos + length x) < PIECE_SIZE - pos" using x(3) by linarith
    moreover have "pos + length x \<le> PIECE_SIZE" using x(3) less.prems(2) by linarith
    ultimately obtain q r'' s'' where
      "piece_loop R (pos + length x) (acc @ x) r' s' =
         (Ok ((acc @ x) @ take (PIECE_SIZE - (pos + length x)) (drop (p + length x) b), r''), s'')"
      "good b q r'' s''" using less.hyps [OF _ x(5), of "pos + length x" "acc @ x"] by blast
    moreover have "x @ take (PIECE_SIZE - (pos + length x)) (drop (p + length x) b) = take (PIECE_SIZE - pos) (drop p b)"
    proof -
      have "take (PIECE_SIZE - pos) (drop p b) = take (length x) (drop p b) @
          take (PIECE_SIZE - pos - length x) (drop (length x) (drop p b))"
        using x(3) by (metis le_add_diff_inverse take_add)
      then show ?thesis using x(2) by (simp add: add.commute)
    qed
    ultimately show ?thesis
      using False x(1,3) less.prems(2) by (subst piece_loop.simps) auto
  qed
qed

lemma piece_hash_ok:
  assumes "good b p r s"
  shows "\<exists>q r' s'. piece_hash H R off r s = (Ok (H (piece (off div PIECE_SIZE) b), r'), s') \<and> good b q r' s'"
proof -
  have "good b (align_piece_floor off) (rd_seek R (align_piece_floor off) r) s" using assms by (rule seek_ok)
  from piece_loop_ok [OF this, of 0 "[]"] show ?thesis
    by (auto simp: piece_hash_def piece_def piece_floor_eq)
qed

lemma rehash_ok:
  assumes "good b p r s" and "i < length (mt_nodes t)"
  shows "\<exists>q r' s'. rehash H R i off r (t, s) =
    (Ok r', (t\<lparr>mt_nodes := (mt_nodes t)[i := H (piece (off div PIECE_SIZE) b)]\<rparr>, s')) \<and> good b q r' s'"
  using piece_hash_ok [OF assms(1), of H off] assms(2)
  by (auto simp: rehash_def conv_s_def zoom_def set_r_def)

end

subsection \<open>Merging the leaves of a written range\<close>

definition overlay :: "bytes \<Rightarrow> nat \<Rightarrow> bytes \<Rightarrow> bytes" where
  "overlay b off d = take off b @ d @ drop (off + length d) b"

lemma length_overlay: "off \<le> length b \<Longrightarrow> length (overlay b off d) = max (length b) (off + length d)"
  by (simp add: overlay_def)

lemma piece_before:
  assumes "off \<le> length b" and "i < off div PIECE_SIZE"
  shows "piece i (overlay b off d) = piece i b"
proof -
  have "Suc i * PIECE_SIZE \<le> off div PIECE_SIZE * PIECE_SIZE" using assms(2) by (intro mult_le_mono1) simp
  also have "\<dots> \<le> off" by simp
  finally have le: "i * PIECE_SIZE + PIECE_SIZE \<le> off" by simp
  have "piece i (overlay b off d) = take PIECE_SIZE (drop (i * PIECE_SIZE) (take off b))"
    using le assms(1) by (simp add: piece_def overlay_def)
  also have "\<dots> = piece i b" using le by (simp add: piece_def drop_take min_def)
  finally show ?thesis .
qed

lemma piece_after:
  assumes "off \<le> length b" and "off + length d \<le> i * PIECE_SIZE"
  shows "piece i (overlay b off d) = piece i b"
  using assms by (simp add: piece_def overlay_def)

text \<open>A piece of the written range needs no second hash unless it is the first or the last one.\<close>

lemma piece_written:
  assumes "off \<le> length b" and "d \<noteq> []" and "off div PIECE_SIZE \<le> i" and "i < piece_cnt (off + length d)"
    and "off mod PIECE_SIZE \<noteq> 0 \<Longrightarrow> i \<noteq> off div PIECE_SIZE"
    and "min (length b) (off + length d) mod PIECE_SIZE \<noteq> 0 \<Longrightarrow> i \<noteq> min (length b) (off + length d) div PIECE_SIZE"
  shows "piece i (overlay b off d) = part off d i"
proof -
  have start: "off \<le> i * PIECE_SIZE"
  proof (cases "i = off div PIECE_SIZE")
    case True
    then have "off mod PIECE_SIZE = 0" using assms(5) by blast
    with True show ?thesis by (metis add.right_neutral div_mult_mod_eq order_refl)
  next
    case False
    then have "off div PIECE_SIZE < i" using assms(3) by simp
    then show ?thesis using piece_pos by (simp add: less_imp_le div_less_iff_less_mult mult.commute)
  qed
  have inside: "i * PIECE_SIZE < off + length d"
    using assms(2,4) less_piece_cnt [of "off + length d" i] by simp
  have "length b \<le> off + length d \<or> Suc i * PIECE_SIZE \<le> off + length d"
  proof (rule ccontr)
    assume a: "\<not> ?thesis"
    then have m: "min (length b) (off + length d) = off + length d" by simp
    have "(off + length d) div PIECE_SIZE = i"
      using a inside by (intro div_nat_eqI) (simp_all add: mult.commute)
    moreover from this inside have "(off + length d) mod PIECE_SIZE \<noteq> 0"
      by (metis add.right_neutral div_mult_mod_eq less_irrefl)
    ultimately show False using assms(6) m by simp
  qed
  then have "take PIECE_SIZE (drop (i * PIECE_SIZE - off) (d @ drop (off + length d) b)) =
      take PIECE_SIZE (drop (i * PIECE_SIZE - off) d)"
    using start inside by auto
  then show ?thesis
    using start assms(1) by (simp add: piece_def overlay_def part_def max_def)
qed

lemma mt_of_simps [simp]:
  "mt_len (merkle_of H b) = length b" "mt_nodes (merkle_of H b) = tree_of H (piece_hashes H b)"
  "leaf_cnt (merkle_of H b) = piece_cnt (length b)" "inner_cnt (merkle_of H b) = Ok (inner (piece_cnt (length b)))"
  by (simp_all add: merkle_of_def leaf_cnt_def inner_cnt_def length_tree_of sub_r_def)

lemma drop_tree_of: "drop (inner (length xs)) (tree_of H xs) = xs"
  by (rule nth_equalityI) (simp_all add: length_tree_of tree_of_leaf)

lemma copy_nth:
  assumes "copy_r xs a v = Ok ys"
  shows "length ys = length xs" and "j < length xs \<Longrightarrow> ys ! j = (if a \<le> j \<and> j < a + length v then v ! (j - a) else xs ! j)"
proof -
  have ys: "ys = take a xs @ v @ drop (a + length v) xs" "a + length v \<le> length xs"
    using assms by (auto simp: copy_r_def split: if_splits)
  then show "length ys = length xs" by simp
  consider "j < a" | "a \<le> j" "j < a + length v" | "a + length v \<le> j" by linarith
  then show "ys ! j = (if a \<le> j \<and> j < a + length v then v ! (j - a) else xs ! j)" if "j < length xs"
    using ys that by cases (auto simp: nth_append)
qed

lemma floor_le_piece_cnt:
  assumes "off \<le> n"
  shows "off div PIECE_SIZE \<le> piece_cnt n"
proof (rule ccontr)
  assume "\<not> ?thesis"
  then have lt: "piece_cnt n < off div PIECE_SIZE" by simp
  then have "0 < off" by (cases off) auto
  then have n: "0 < n" using assms by simp
  have "n \<le> piece_cnt n * PIECE_SIZE" using less_piece_cnt [OF n, of "piece_cnt n"] by simp
  also have "\<dots> < off div PIECE_SIZE * PIECE_SIZE" using lt piece_pos by simp
  also have "\<dots> \<le> off" by simp
  finally show False using assms by simp
qed

lemma merge_leaves_ok:
  assumes "off \<le> length b" and "d \<noteq> []"
  defines "n \<equiv> piece_cnt (max (length b) (off + length d))"
  shows "\<exists>N. merge_leaves e (leaves_of H off d) (merkle_of H b) (inner n + n) (inner n) = Ok N \<and>
    length N = inner n + n \<and>
    (\<forall>i < inner (piece_cnt (length b)). N ! i = tree_of H (piece_hashes H b) ! i) \<and>
    (\<forall>i < n. N ! (inner n + i) = (if off div PIECE_SIZE \<le> i \<and> i < piece_cnt (off + length d)
        then H (part off d i) else H (piece i b)))"
proof -
  let ?m = "piece_cnt (length b)" and ?k = "piece_cnt (off + length d)" and ?o = "off div PIECE_SIZE"
  let ?T = "tree_of H (piece_hashes H b)" let ?v = "map (\<lambda>i. H (part off d i)) [?o..<?k]"
  have mn: "?m \<le> n" "?k \<le> n" unfolding n_def by (simp_all add: piece_cnt_mono)
  have im: "inner ?m \<le> inner n" using mn(1) by (rule inner_mono)
  have ok: "?o \<le> ?k" by (rule floor_le_piece_cnt) simp
  have T: "length ?T = inner ?m + ?m" by (simp add: length_tree_of)
  define B where "B = ?T @ replicate (inner n + n - length ?T) e"
  have B: "resize (inner n + n) e ?T = B" "length B = inner n + n"
    using mn im T by (simp_all add: resize_def B_def)
  define N1 where "N1 = take (inner n) B @ piece_hashes H b @ drop (inner n + ?m) B"
  have N1: "copy_r B (inner n) (piece_hashes H b) = Ok N1" "length N1 = inner n + n"
    using B mn by (simp_all add: copy_r_def N1_def)
  define N where "N = take (inner n + ?o) N1 @ ?v @ drop (inner n + ?k) N1"
  have N: "copy_r N1 (inner n + ?o) ?v = Ok N" "length N = inner n + n"
    using N1 mn ok by (simp_all add: copy_r_def N_def)
  have "drop (inner ?m) ?T = piece_hashes H b"
    using drop_tree_of [of "piece_hashes H b" H] by simp
  then have "merge_leaves e (leaves_of H off d) (merkle_of H b) (inner n + n) (inner n) = Ok N"
    using assms(2) B(1) N1(1) N(1) by (simp add: merge_leaves_def leaves_of_def floor_chunk_eq)
  moreover have "N ! i = ?T ! i" if "i < inner ?m" for i
    using that im T N1(2) B(2) copy_nth(2) [OF N(1), of i] copy_nth(2) [OF N1(1), of i]
    by (simp add: B_def nth_append)
  moreover have "N ! (inner n + i) = (if ?o \<le> i \<and> i < ?k then H (part off d i) else H (piece i b))" if "i < n" for i
  proof -
    have "i < ?m \<or> ?o \<le> i \<and> i < ?k"
    proof (cases "length b \<le> off + length d")
      case True
      then have "n = ?k" by (simp add: n_def max_def)
      moreover have "?o \<le> ?m" using assms(1) by (rule floor_le_piece_cnt)
      ultimately show ?thesis using that by linarith
    next
      case False
      then have "n = ?m" by (simp add: n_def max_def)
      with that show ?thesis by simp
    qed
    moreover have "N ! (inner n + i) = (if ?o \<le> i \<and> i < ?k then ?v ! (i - ?o) else N1 ! (inner n + i))"
      using copy_nth(2) [OF N(1), of "inner n + i"] N1(2) that ok by (simp add: less_diff_conv)
    moreover have "N1 ! (inner n + i) = (if i < ?m then piece_hashes H b ! i else B ! (inner n + i))"
      using copy_nth(2) [OF N1(1), of "inner n + i"] B(2) that by simp
    ultimately show ?thesis by (auto simp: piece_hashes_def)
  qed
  ultimately show ?thesis using N(2) by blast
qed

lemma merge_run:
  assumes "lv_offset l \<le> mt_len t" and c: "c = piece_cnt (max (mt_len t) (lv_end_offset l))"
    and L: "sub_r (tree_node_cnt c) c = (Ok L :: nat res)" and "inner_cnt t = Ok ob0"
    and "merge_leaves e l t (tree_node_cnt c) L = Ok N"
    and h: "h = (align_piece_offset (lv_offset l) \<noteq> 0)" and ov: "ov = L + align_piece_floor_chunk (lv_offset l)"
    and f: "f = min (mt_len t) (lv_end_offset l)" and oe: "oe = L + piece_cnt f"
    and run1: "(if h then rehash H R ov (lv_offset l) r else ret_s r) (t\<lparr>mt_nodes := N\<rparr>, s) = (Ok r1, (t1, s1))"
    and k: "k = (align_piece_offset f \<noteq> 0 \<and> \<not> (ov = oe - 1 \<and> h))"
    and run2: "(if k then rehash H R (oe - 1) f r1 else ret_s r1) (t1, s1) = (Ok r2, (t2, s2))"
    and "merge_loop H L (tree_node_cnt c) c ov oe ob0 (leaf_cnt t) (mt_nodes t2) = Ok nodes'"
  shows "merge H e R l r (t, s) =
    (Ok (), (\<lparr>mt_len = max (mt_len t) (lv_end_offset l), mt_nodes = nodes'\<rparr>, s2))"
proof -
  have "merge H e R l r (t, s) =
    bind_s (if h then rehash H R ov (lv_offset l) r else ret_s r) (\<lambda>r1.
     bind_s (if k then rehash H R (oe - 1) f r1 else ret_s r1) (\<lambda>_.
     bind_s get_s (\<lambda>(t1, _).
     bind_s (lift_r (merge_loop H L (tree_node_cnt c) c ov oe ob0 (leaf_cnt t) (mt_nodes t1))) (\<lambda>nodes'.
       modify_s (\<lambda>(_, s). (\<lparr>mt_len = max (mt_len t) (lv_end_offset l), mt_nodes = nodes'\<rparr>, s))))))
    (t\<lparr>mt_nodes := N\<rparr>, s)"
    using assms(1,4,5) L unfolding merge_def k oe f ov h c by (simp add: Let_def split del: if_split)
  then show ?thesis using run1 run2 assms(13) by simp
qed

text \<open>
  Updating the tree gives the same tree as rebuilding it. Let a tree be the reference tree of
  a content, and let not empty data, written in any number of calls, overlay the content from an
  offset within it. If the reader reads the new content, \<open>merge\<close> with the leaves of the data
  succeeds and leaves the reference tree of the new content, although it only hashes the pieces
  at the borders and the nodes to the right of the change.
\<close>

lemma merge_reference:
  assumes "byte_reader R good" and "good (overlay b off (concat ds)) p r s"
    and "off \<le> length b" and "concat ds \<noteq> []" and "write_pieces H off ds = Ok l"
  shows "\<exists>q r' s'. merge H e R l r (merkle_of H b, s) = (Ok (), (merkle_of H (overlay b off (concat ds)), s')) \<and>
    good (overlay b off (concat ds)) q r' s'"
proof -
  let ?d = "concat ds" let ?b = "overlay b off ?d" let ?P = PIECE_SIZE
  let ?m = "piece_cnt (length b)" and ?n = "piece_cnt (length ?b)"
  let ?o = "off div ?P" and ?eo = "min (length b) (off + length ?d)"
  have l: "l = leaves_of H off ?d" using assms(5) write_pieces_leaves by simp
  then have lv: "lv_offset l = off" "lv_end_offset l = off + length ?d"
    by (simp_all add: leaves_of_def lv_end_offset_def)
  have len: "length ?b = max (length b) (off + length ?d)" using assms(3) by (rule length_overlay)
  have d: "0 < length ?d" using assms(4) by simp
  have cnt: "tree_node_cnt ?n = inner ?n + ?n" using piece_cnt_pos by (rule tree_node_cnt_inner)
  have mn: "?m \<le> ?n" using len by (intro piece_cnt_mono) simp
  obtain N where N: "merge_leaves e l (merkle_of H b) (inner ?n + ?n) (inner ?n) = Ok N" "length N = inner ?n + ?n"
    "\<And>i. i < inner ?m \<Longrightarrow> N ! i = tree_of H (piece_hashes H b) ! i"
    "\<And>i. i < ?n \<Longrightarrow> N ! (inner ?n + i) = (if ?o \<le> i \<and> i < piece_cnt (off + length ?d)
        then H (part off ?d i) else H (piece i b))"
    using merge_leaves_ok [OF assms(3,4), of e H] unfolding len l by metis
  define fst1 where "fst1 = (align_piece_offset off \<noteq> 0)"
  define snd1 where "snd1 = (align_piece_offset ?eo \<noteq> 0 \<and>
      \<not> (inner ?n + ?o = inner ?n + piece_cnt ?eo - 1 \<and> fst1))"
  define N1 where "N1 = (if fst1 then N[inner ?n + ?o := H (piece ?o ?b)] else N)"
  define N2 where "N2 = (if snd1 then N1[inner ?n + ?eo div ?P := H (piece (?eo div ?P) ?b)] else N1)"
  have on: "?o < ?n"
  proof -
    have "?o * ?P < length ?b" using d len by (metis div_times_less_eq_dividend le_less_trans less_add_same_cancel1 max.strict_coboundedI2)
    then show ?thesis using less_piece_cnt [of "length ?b" ?o] by force
  qed
  have eon: "?eo div ?P < ?n \<and> piece_cnt ?eo = Suc (?eo div ?P)" if "align_piece_offset ?eo \<noteq> 0"
  proof -
    have u: "piece_cnt ?eo = Suc (?eo div ?P)" using that by (intro piece_cnt_unaligned) (simp add: align_piece_offset_mod)
    moreover have "piece_cnt ?eo \<le> ?n" using len by (intro piece_cnt_mono) simp
    ultimately show ?thesis by simp
  qed
  obtain q1 r1 s1 where run1: "(if fst1 then rehash H R (inner ?n + ?o) off r else ret_s r)
      (merkle_of H b\<lparr>mt_nodes := N\<rparr>, s) = (Ok r1, (merkle_of H b\<lparr>mt_nodes := N1\<rparr>, s1))" "good ?b q1 r1 s1"
  proof (cases fst1)
    case True
    from byte_reader.rehash_ok [OF assms(1,2), of "inner ?n + ?o" "merkle_of H b\<lparr>mt_nodes := N\<rparr>" H off] on N(2) True that
    show ?thesis by (auto simp: N1_def)
  next
    case False
    with assms(2) that show ?thesis by (auto simp: N1_def)
  qed
  obtain q2 r2 s2 where run2: "(if snd1 then rehash H R (inner ?n + piece_cnt ?eo - 1) ?eo r1 else ret_s r1)
      (merkle_of H b\<lparr>mt_nodes := N1\<rparr>, s1) = (Ok r2, (merkle_of H b\<lparr>mt_nodes := N2\<rparr>, s2))" "good ?b q2 r2 s2"
  proof (cases snd1)
    case True
    then have e: "?eo div ?P < ?n" "inner ?n + piece_cnt ?eo - 1 = inner ?n + ?eo div ?P"
      using eon by (simp_all add: snd1_def)
    have "length N1 = inner ?n + ?n" using N(2) by (simp add: N1_def)
    with byte_reader.rehash_ok [OF assms(1) run1(2), of "inner ?n + ?eo div ?P" "merkle_of H b\<lparr>mt_nodes := N1\<rparr>" H ?eo]
      e True that show ?thesis by (auto simp: N2_def)
  next
    case False
    with run1(2) that show ?thesis by (auto simp: N2_def)
  qed
  have len2: "length N2 = inner ?n + ?n" using N(2) by (simp add: N1_def N2_def)
  have leaf: "N2 ! (inner ?n + i) = H (piece i ?b)" if i: "i < ?n" for i
  proof (cases "(fst1 \<and> i = ?o) \<or> (snd1 \<and> i = ?eo div ?P)")
    case True
    have upd: "xs[j := x] ! k = (if j = k \<and> k < length xs then x else xs ! k)" for xs :: "bytes list" and j k x
      by (cases "j < length xs") (auto simp: nth_list_update list_update_beyond)
    from True i N(2) show ?thesis by (auto simp: N1_def N2_def upd)
  next
    case False
    then have same: "N2 ! (inner ?n + i) = N ! (inner ?n + i)" by (auto simp: N1_def N2_def nth_list_update)
    show ?thesis
    proof (cases "?o \<le> i \<and> i < piece_cnt (off + length ?d)")
      case True
      have "piece i ?b = part off ?d i"
      proof (rule piece_written [OF assms(3,4)])
        show "?o \<le> i" "i < piece_cnt (off + length ?d)" using True by simp_all
        show "i \<noteq> ?o" if "off mod ?P \<noteq> 0" using False that by (auto simp: fst1_def align_piece_offset_mod)
        show "i \<noteq> ?eo div ?P" if "?eo mod ?P \<noteq> 0"
          using False that eon by (auto simp: snd1_def fst1_def align_piece_offset_mod)
      qed
      with same N(4) [OF i] True show ?thesis by simp
    next
      case outside: False
      have "piece i ?b = piece i b"
      proof (cases "i < ?o")
        case True
        then show ?thesis by (rule piece_before [OF assms(3)])
      next
        case False
        with outside have "off + length ?d \<le> i * ?P"
          using less_piece_cnt [of "off + length ?d" i] d by simp
        then show ?thesis by (rule piece_after [OF assms(3)])
      qed
      with same N(4) [OF i] outside show ?thesis by auto
    qed
  qed
  have split: "N2 = take (inner ?n) N2 @ piece_hashes H ?b @ []"
    using level_split [of "inner ?n" "piece_hashes H ?b" N2] leaf len2
    by (simp add: level_def piece_hashes_def)
  have agree: "piece_hashes H ?b ! i = piece_hashes H b ! i" if "i < ?o" for i
    using that piece_before [OF assms(3) that, of ?d] on floor_le_piece_cnt [OF assms(3)] by (simp add: piece_hashes_def)
  have "merge_loop H (inner ?n) (inner ?n + ?n) ?n (inner ?n + ?o) (inner ?n + piece_cnt ?eo)
      (inner ?m) ?m N2 = Ok (tree_of H (piece_hashes H ?b) @ [])"
  proof (subst split, rule merge_loop_tree [where ys = "piece_hashes H ?b" and zs = "piece_hashes H b",
        simplified length_piece_hashes])
    show "length (take (inner ?n) N2) = inner ?n" using len2 by simp
    show "take (inner ?n) N2 ! i = tree_of H (piece_hashes H b) ! i" if "i < inner ?m" for i
      using that inner_mono [OF mn] N(3) by (simp add: N1_def N2_def)
  qed (use mn agree floor_le_piece_cnt [OF assms(3)] piece_hashes_ne in auto)
  then have loop: "merge_loop H (inner ?n) (tree_node_cnt ?n) ?n (inner ?n + ?o) (inner ?n + piece_cnt ?eo)
      (inner ?m) (leaf_cnt (merkle_of H b)) (mt_nodes (merkle_of H b\<lparr>mt_nodes := N2\<rparr>)) =
      Ok (tree_of H (piece_hashes H ?b))" using cnt by simp
  have "merge H e R l r (merkle_of H b, s) = (Ok (), (\<lparr>mt_len = max (mt_len (merkle_of H b)) (lv_end_offset l),
      mt_nodes = tree_of H (piece_hashes H ?b)\<rparr>, s2))"
  proof (rule merge_run [where c = ?n and L = "inner ?n" and N = N and h = fst1 and k = snd1 and f = ?eo
        and ov = "inner ?n + ?o" and oe = "inner ?n + piece_cnt ?eo", OF _ _ _ _ _ _ _ _ refl _ _ run2(1) loop])
    show "merge_leaves e l (merkle_of H b) (tree_node_cnt ?n) (inner ?n) = Ok N" using N(1) cnt by simp
    show "(if fst1 then rehash H R (inner ?n + ?o) (lv_offset l) r else ret_s r)
      (merkle_of H b\<lparr>mt_nodes := N\<rparr>, s) = (Ok r1, (merkle_of H b\<lparr>mt_nodes := N1\<rparr>, s1))"
      using run1(1) unfolding lv .
    show "fst1 = (align_piece_offset (lv_offset l) \<noteq> 0)" unfolding lv fst1_def ..
    show "snd1 = (align_piece_offset ?eo \<noteq> 0 \<and>
      \<not> (inner ?n + ?o = inner ?n + piece_cnt ?eo - 1 \<and> fst1))" by (fact snd1_def)
  qed (use assms(3) lv len cnt in \<open>simp_all add: sub_r_def floor_chunk_eq\<close>)
  then have "merge H e R l r (merkle_of H b, s) = (Ok (), (\<lparr>mt_len = length ?b, mt_nodes = tree_of H (piece_hashes H ?b)\<rparr>, s2))"
    using lv len by simp
  with run2(2) show ?thesis by (auto simp: merkle_of_def)
qed

subsection \<open>Truncating\<close>

lemma last_pair: "0 < n \<Longrightarrow> (if even n then [b + n - 2, b + n - 1] else [b + n - 1]) = pair_at b n ((n + 1) div 2 - 1)"
  by (auto simp: pair_at_def elim!: evenE oddE)

lemma list_update_length_add: "(xs @ ys)[length xs + i := y] = xs @ ys[i := y]"
  by (simp add: list_update_append)

lemma trunc_loop_tree:
  assumes "length g = inner (length ys)" and "ys \<noteq> []" and "length ys \<le> length zs"
    and "\<And>i. Suc i < length ys \<Longrightarrow> ys ! i = zs ! i"
  shows "trunc_loop H (tree_of H zs @ old) (inner (length ys)) (inner (length ys) + length ys) (length ys)
      (inner (length zs)) (inner (length zs) + length ys) (length zs) (g @ ys @ rest) = Ok (tree_of H ys @ rest)"
  using assms
proof (induction "length ys" arbitrary: ys zs g rest old rule: less_induct)
  case less
  let ?n = "length ys" let ?u = "(?n + 1) div 2" let ?b = "inner ?n"
  let ?m = "length zs" let ?um = "(?m + 1) div 2"
  show ?case
  proof (cases "1 < ?n")
    case False
    then have "?b = 0" "g = []" "tree_of H ys = ys" using less.prems by (simp_all add: tree_of.simps)
    then show ?thesis by (simp add: trunc_loop.simps)
  next
    case True
    then have m: "1 < ?m" and n0: "0 < ?n" using less.prems(3) by linarith+
    have b: "?b = inner ?u + ?u" using True by (rule inner_step)
    have im: "inner ?m = inner ?um + ?um" using m by (rule inner_step)
    have umu: "?u \<le> ?um" using less.prems(3) by (intro div_le_mono) simp
    have u: "Suc ((?n - 1) div 2) = ?u" "0 < ?u" using True by auto
    let ?old = "tree_of H zs @ old"
    have old: "?old = tree_of H (up H zs) @ (zs @ old)" using m by (subst tree_of.simps) simp
    have src: "take ?u (drop (inner ?um) ?old) = take ?u (up H zs)"
      using drop_tree_of [of "up H zs" H] umu unfolding old by (simp add: length_tree_of)
    have len_old: "inner ?um + ?u \<le> length ?old" unfolding old using umu by (simp add: length_tree_of)
    define v where "v = take ?u (up H zs)"
    have v: "length v = ?u" using umu by (simp add: v_def)
    have copy: "copy_r (g @ ys @ rest) (inner ?u) v = Ok (take (inner ?u) g @ v @ ys @ rest)"
      using b less.prems(1) v by (simp add: copy_r_def)
    have lvl: "level ?b ys (take (inner ?u) g @ v @ ys @ rest)"
      using level_append [of "take (inner ?u) g @ v" ?b ys rest] b less.prems(1) v by simp
    have "hash_up H (pair_at ?b ?n (?u - 1)) ?b ?n (take (inner ?u) g @ v @ ys @ rest) =
        Ok ((take (inner ?u) g @ v @ ys @ rest)[?b - ?u + (?u - 1) := up H ys ! (?u - 1)])"
      using lvl u(2) b by (intro hash_up_pair) auto
    also have "(take (inner ?u) g @ v @ ys @ rest)[?b - ?u + (?u - 1) := up H ys ! (?u - 1)] =
        take (inner ?u) g @ v[?u - 1 := up H ys ! (?u - 1)] @ ys @ rest"
    proof -
      have tl: "length (take (inner ?u) g) = inner ?u" using b less.prems(1) by simp
      have "?b - ?u + (?u - 1) = length (take (inner ?u) g) + (?u - 1)" unfolding tl using b by simp
      then show ?thesis using u(2) v by (simp only: list_update_length_add) (simp add: list_update_append1)
    qed
    also have "v[?u - 1 := up H ys ! (?u - 1)] = up H ys"
    proof (rule nth_equalityI)
      fix j
      assume "j < length (v[?u - 1 := up H ys ! (?u - 1)])"
      then have j: "j < ?u" using v by simp
      show "v[?u - 1 := up H ys ! (?u - 1)] ! j = up H ys ! j"
      proof (cases "j = ?u - 1")
        case True
        with v j show ?thesis by simp
      next
        case False
        then have j2: "Suc (2 * j + 1) < ?n" using j by linarith
        have "v[?u - 1 := up H ys ! (?u - 1)] ! j = up H zs ! j" using False j v by (simp add: v_def)
        also have "\<dots> = up H ys ! j"
          using j2 less.prems(3) less.prems(4) [of "2 * j"] less.prems(4) [of "2 * j + 1"]
          by (subst (1 2) nth_up) auto
        finally show ?thesis .
      qed
    qed (use v in simp)
    finally have hu: "hash_up H (if even ?n then [?b + ?n - 2, ?b + ?n - 1] else [?b + ?n - 1]) ?b ?n
        (take (inner ?u) g @ v @ ys @ rest) = Ok (take (inner ?u) g @ up H ys @ ys @ rest)"
      unfolding last_pair [OF n0] .
    have "trunc_loop H (tree_of H (up H zs) @ (zs @ old)) (inner (length (up H ys)))
        (inner (length (up H ys)) + length (up H ys)) (length (up H ys)) (inner (length (up H zs)))
        (inner (length (up H zs)) + length (up H ys)) (length (up H zs)) (take (inner ?u) g @ up H ys @ (ys @ rest)) =
        Ok (tree_of H (up H ys) @ (ys @ rest))"
    proof (rule less.hyps)
      show "up H ys ! i = up H zs ! i" if "Suc i < length (up H ys)" for i
        using that less.prems(3) less.prems(4) [of "2 * i"] less.prems(4) [of "2 * i + 1"]
        by (subst (1 2) nth_up) auto
    qed (use True b umu less.prems(1,2) in \<open>auto simp: up_Nil_iff\<close>)
    then have next1: "trunc_loop H ?old (inner ?u) ?b ?u (inner ?um) (inner ?um + ?u) ?um
        (take (inner ?u) g @ up H ys @ ys @ rest) = Ok (tree_of H ys @ rest)"
      using True b by (simp only: old [symmetric]) (simp add: tree_of.simps [of H ys])
    have par: "mt_parent ?b ?b ?n = Ok (inner ?u)" "mt_parent (?b + ?n - 1) ?b ?n = Ok (inner ?u + (?n - 1) div 2)"
      "mt_parent (inner ?m) (inner ?m) ?m = Ok (inner ?um)"
      "mt_parent (inner ?m + ?n - 1) (inner ?m) ?m = Ok (inner ?um + (?n - 1) div 2)"
      using True m b im by (auto simp: mt_parent_def sub_r_def)
    have se: "Suc (inner ?um + (?n - 1) div 2) = inner ?um + ?u" using u(1) by simp
    show ?thesis
      using True inner_pos_iff [of ?n] par u src copy hu next1 [folded se] len_old n0 less.prems(2)
      by (subst trunc_loop.simps) (simp add: Suc_le_eq sub_r_def assert_r_def v_def)
  qed
qed

lemma piece_take: "Suc i * PIECE_SIZE \<le> at \<Longrightarrow> piece i (take at b) = piece i b"
  by (simp add: piece_def drop_take min_def)

lemma trunc_leaves:
  assumes "at < length b"
  defines "c \<equiv> piece_cnt at"
  shows "(if at mod PIECE_SIZE \<noteq> 0 \<or> at = 0
      then (take c (piece_hashes H b))[c - 1 := H (piece (at div PIECE_SIZE) (take at b))]
      else take c (piece_hashes H b)) = piece_hashes H (take at b)" (is "?l = ?r")
proof (rule nth_equalityI)
  have len: "length (take at b) = at" using assms by simp
  have le: "c \<le> piece_cnt (length b)" unfolding c_def using assms(1) by (intro piece_cnt_mono) simp
  then show "length ?l = length ?r" using len by (simp add: c_def)
  fix i
  assume "i < length ?l"
  then have i: "i < c" using le by (simp split: if_splits)
  show "?l ! i = ?r ! i"
  proof (cases "(at mod PIECE_SIZE \<noteq> 0 \<or> at = 0) \<and> i = c - 1")
    case True
    then have "c - 1 = at div PIECE_SIZE"
      using piece_cnt_unaligned [of at] by (auto simp: c_def piece_cnt_eq)
    with True i le len show ?thesis by (simp add: piece_hashes_def c_def)
  next
    case False
    then have "at \<noteq> 0" using i by (cases "at = 0") (simp_all add: c_def piece_cnt_eq)
    have "Suc i \<le> at div PIECE_SIZE"
    proof (cases "at mod PIECE_SIZE = 0")
      case True
      with \<open>at \<noteq> 0\<close> i piece_cnt_aligned [of at] show ?thesis by (simp add: c_def)
    next
      case unaligned: False
      with False i piece_cnt_unaligned [of at] show ?thesis by (simp add: c_def)
    qed
    then have "Suc i * PIECE_SIZE \<le> at" by (metis div_times_less_eq_dividend mult_le_mono1 order_trans)
    then have "piece i (take at b) = piece i b" by (rule piece_take)
    with False i le len show ?thesis by (auto simp: piece_hashes_def c_def nth_list_update)
  qed
qed

text \<open>
  Truncating the tree gives the tree of the truncated content: if the tree is the reference
  tree of a content, the reader reads the content cut off at a position within it, and the
  position is not behind the end, \<open>truncate\<close> succeeds and leaves the reference tree of the
  shorter content.
\<close>

lemma truncate_reference:
  assumes "byte_reader R good" and "good (take at b) p r s" and "at \<le> length b"
  shows "\<exists>q r' s'. truncate H e R at r (merkle_of H b, s) = (Ok (), (merkle_of H (take at b), s')) \<and>
    good (take at b) q r' s'"
proof (cases "at = length b")
  case True
  then show ?thesis using assms(2) by (auto simp: truncate_def)
next
  case False
  then have at: "at < length b" using assms(3) by simp
  let ?c = "piece_cnt at" and ?m = "piece_cnt (length b)" and ?ph = "piece_hashes H b"
  let ?ys = "piece_hashes H (take at b)"
  have cnt: "tree_node_cnt ?c = inner ?c + ?c" using piece_cnt_pos by (rule tree_node_cnt_inner)
  have le: "?c \<le> ?m" using at by (intro piece_cnt_mono) simp
  have len: "length (take at b) = at" using at by simp
  have drop: "drop (inner ?m) (tree_of H ?ph) = ?ph" using drop_tree_of [of ?ph H] by simp
  define g where "g = replicate (inner ?c) e"
  have copy: "copy_r (replicate (inner ?c + ?c) e) (inner ?c) (take ?c ?ph) = Ok (g @ take ?c ?ph)"
    using le by (simp add: copy_r_def g_def)
  obtain q r1 s1 where hash: "piece_hash H R at r s = (Ok (H (piece (at div PIECE_SIZE) (take at b)), r1), s1)"
    "good (take at b) q r1 s1"
    using byte_reader.piece_hash_ok [OF assms(1,2)] by blast
  have set: "set_r (g @ take ?c ?ph) (inner ?c + ?c - 1) x = Ok (g @ (take ?c ?ph)[?c - 1 := x])" for x
    using le piece_cnt_pos [of at] list_update_length_add [of g "take ?c ?ph" "?c - 1" x]
    by (simp add: set_r_def g_def)
  have loop: "trunc_loop H (tree_of H ?ph) (inner ?c) (inner ?c + ?c) ?c (inner ?m) (inner ?m + ?c) ?m (g @ ?ys) =
      Ok (tree_of H ?ys)"
  proof -
    have "?ys ! i = ?ph ! i" if "Suc i < length ?ys" for i
    proof -
      have "Suc i * PIECE_SIZE \<le> at" using that len less_piece_cnt [of at "Suc i"] by (cases "at = 0") (auto simp: piece_cnt_eq)
      with that le len piece_take [of i at b] show ?thesis by (simp add: piece_hashes_def)
    qed
    with trunc_loop_tree [of g ?ys ?ph H "[]" "[]"] le len piece_hashes_ne show ?thesis by (simp add: g_def)
  qed
  have tgt: "merkle_of H (take at b) = \<lparr>mt_len = at, mt_nodes = tree_of H ?ys\<rparr>" using len by (simp add: merkle_of_def)
  have cond: "(align_piece_offset at \<noteq> 0 \<or> at = 0) = (at mod PIECE_SIZE \<noteq> 0 \<or> at = 0)"
    by (simp add: align_piece_offset_mod)
  show ?thesis
  proof (cases "at mod PIECE_SIZE \<noteq> 0 \<or> at = 0")
    case True
    then have "(take ?c ?ph)[?c - 1 := H (piece (at div PIECE_SIZE) (take at b))] = ?ys"
      using trunc_leaves [OF at, of H] by simp
    with True at cnt le drop copy hash(1) set loop
    have "truncate H e R at r (merkle_of H b, s) = (Ok (), (merkle_of H (take at b), s1))"
      unfolding tgt truncate_def by (simp only: cond) (simp add: Let_def sub_r_def length_tree_of conv_s_def zoom_def)
    with hash(2) show ?thesis by blast
  next
    case False
    then have "take ?c ?ph = ?ys" using trunc_leaves [OF at, of H] by simp
    with False at cnt le drop copy loop
    have "truncate H e R at r (merkle_of H b, s) = (Ok (), (merkle_of H (take at b), s))"
      unfolding tgt truncate_def by (simp only: cond) (simp add: Let_def sub_r_def length_tree_of)
    with assms(2) show ?thesis by blast
  qed
qed

text \<open>
  A write of nothing corrupts the tree: when a writer finishes without data at offset 0, its
  leaves hold the hash of the empty string, and merging them into the tree of a not empty content of
  at most one piece replaces the root by the root of the empty content.
\<close>

lemma merge_nothing_corrupts_tree:
  assumes "b \<noteq> []" and "length b \<le> PIECE_SIZE" and l: "write_pieces H 0 [] = Ok l"
  shows "merge H e R l r (merkle_of H b, s) = (Ok (), (\<lparr>mt_len = length b, mt_nodes = mt_nodes (merkle_of H [])\<rparr>, s))"
proof -
  have p: "piece_cnt (length b) = 1" using assms(1,2) less_piece_cnt [of "length b" 1] piece_cnt_pos [of "length b"]
    by (cases "piece_cnt (length b)") auto
  have one: "tree_of H [x] = [x]" for x by (simp add: tree_of.simps)
  have b: "merkle_of H b = \<lparr>mt_len = length b, mt_nodes = [H b]\<rparr>"
    using p assms(2) by (simp add: merkle_of_def piece_hashes_def one piece_def)
  have z: "tree_of H (piece_hashes H []) = [H []]"
    by (simp add: piece_hashes_def one piece_def piece_cnt_eq)
  have lv: "l = \<lparr>lv_offset = 0, lv_len = 0, lv_nodes = [H []]\<rparr>"
    using l write_pieces_leaves [of H 0 "[]"] by (simp add: leaves_of_def piece_cnt_eq part_def)
  have "merge H e R l r (merkle_of H b, s) = (Ok (), (\<lparr>mt_len = max (mt_len (merkle_of H b)) (lv_end_offset l), mt_nodes = [H []]\<rparr>, s))"
    by (rule merge_run [where c = 1 and L = 0 and N = "[H []]" and h = False and k = False and f = 0 and ov = 0 and oe = 1 and ?t1.0 = "\<lparr>mt_len = length b, mt_nodes = [H []]\<rparr>" and ?t2.0 = "\<lparr>mt_len = length b, mt_nodes = [H []]\<rparr>"])
      (use p piece_cnt_eq [of 0] tree_node_cnt_inner [of 1] in \<open>simp_all add: b lv lv_end_offset_def sub_r_def inner_cnt_def leaf_cnt_def inner_small merge_leaves_def copy_r_def
        resize_def floor_chunk_eq align_piece_offset_mod merge_loop.simps\<close>)
  then show ?thesis by (simp add: lv lv_end_offset_def z b)
qed
end
