(* ===== verification/Store_View.thy ===== *)
theory Store_View
  imports Content Merkle_Update
begin

text \<open>
  What the content store shows of the volume: the segment and the segment data that a look-up
  returns, whether they are cached or not. Caches and loading do not change this view, so that
  reading a content returns its bytes, and the interfaces of the segment store (used by the entry
  lists) and of the byte reader (used by the hash tree) are kept.
\<close>

subsection \<open>The view\<close>

definition ok_opt :: "('a, 'e) result \<Rightarrow> 'a option" where
  "ok_opt r = (case r of Ok x \<Rightarrow> Some x | _ \<Rightarrow> None)"

text \<open>
  \<open>vseg\<close> and \<open>vdat\<close> are the segment cows and the entities in the volume. A thread sees a cached
  segment as its cow shows it to the running transaction.
\<close>

definition seg_view :: "('v \<Rightarrow> eid \<rightharpoonup> segment cow) \<Rightarrow> txid \<Rightarrow> ('v, 't) store_world \<Rightarrow> eid \<rightharpoonup> segment" where
  "seg_view vseg tls s e = (case map_of (lmap (sw_seg_cache s)) e of
       Some r \<Rightarrow> ok_opt (cow_deref tls (sw_segs s r) :: segment res)
     | None \<Rightarrow> (case vseg (sw_vol s) e of None \<Rightarrow> None | Some c \<Rightarrow> ok_opt (cow_deref tls c :: segment res)))"

definition data_view :: "('v \<Rightarrow> eid \<rightharpoonup> bytes) \<Rightarrow> ('v, 't) store_world \<Rightarrow> eid \<rightharpoonup> bytes" where
  "data_view vdat s e = (case map_of (lmap (sw_segdata_cache s)) e of
       Some r \<Rightarrow> Some (sd_data (sw_datas s r))
     | None \<Rightarrow> vdat (sw_vol s) e)"

lemma seg_view_cong:
  "map_of (lmap (sw_seg_cache s')) = map_of (lmap (sw_seg_cache s)) \<Longrightarrow> sw_segs s' = sw_segs s \<Longrightarrow>
   vseg (sw_vol s') = vseg (sw_vol s) \<Longrightarrow> seg_view vseg tls s' = seg_view vseg tls s"
  by (rule ext) (simp add: seg_view_def split: option.split)

lemma data_view_cong:
  "map_of (lmap (sw_segdata_cache s')) = map_of (lmap (sw_segdata_cache s)) \<Longrightarrow> sw_datas s' = sw_datas s \<Longrightarrow>
   vdat (sw_vol s') = vdat (sw_vol s) \<Longrightarrow> data_view vdat s' = data_view vdat s"
  by (rule ext) (simp add: data_view_def split: option.split)

text \<open>
  The invariant: references are allocated, and what is cached and may be evicted is in the volume.
\<close>

definition store_inv ::
  "('v \<Rightarrow> bool) \<Rightarrow> ('v \<Rightarrow> eid \<rightharpoonup> segment cow) \<Rightarrow> ('v \<Rightarrow> eid \<rightharpoonup> bytes) \<Rightarrow> txid \<Rightarrow> ('v, 't) store_world \<Rightarrow> bool"
where
  "store_inv vinv vseg vdat tls s \<longleftrightarrow> vinv (sw_vol s) \<and>
     distinct (keys (lmap (sw_seg_cache s))) \<and> distinct (keys (lmap (sw_segdata_cache s))) \<and>
     (\<forall>e r. map_of (lmap (sw_seg_cache s)) e = Some r \<longrightarrow> r < sw_next s \<and>
        (\<not> in_trans (sw_segs s r) \<longrightarrow> (\<exists>c. vseg (sw_vol s) e = Some c \<and>
           (cow_deref tls c :: segment res) = cow_deref tls (sw_segs s r)))) \<and>
     (\<forall>e r. map_of (lmap (sw_segdata_cache s)) e = Some r \<longrightarrow> r < sw_next s \<and>
        vdat (sw_vol s) e = Some (sd_data (sw_datas s r)))"

text \<open>What the store relies on of the volume when it loads segments and segment data.\<close>

locale store_laws =
  lru: linked_hash_map "se_lru E"
  for E :: "('w, 'v, 't) store_env" +
  fixes vinv :: "'v \<Rightarrow> bool" and vseg :: "'v \<Rightarrow> eid \<rightharpoonup> segment cow" and vdat :: "'v \<Rightarrow> eid \<rightharpoonup> bytes"
  assumes load_seg: "vinv v \<Longrightarrow> vseg v e = Some c \<Longrightarrow> \<exists>v'. se_load_seg E e v = (Ok c, v') \<and> vinv v' \<and>
      vseg v' = vseg v \<and> vdat v' = vdat v"
    and load_data: "vinv v \<Longrightarrow> vdat v e = Some b \<Longrightarrow> \<exists>v'. se_read E e v = (Ok b, v') \<and> vinv v' \<and>
      vseg v' = vseg v \<and> vdat v' = vdat v"
begin

abbreviation "inv1 \<equiv> store_inv vinv vseg vdat"

lemma get_seg_ok:
  assumes "inv1 tls s" and "seg_view vseg tls s e = Some seg"
  shows "\<exists>r s'. get_seg E e s = (Ok r, s') \<and> on_seg r (deref_run tls) s' = (Ok seg, s') \<and> inv1 tls s' \<and>
    seg_view vseg tls s' = seg_view vseg tls s \<and> data_view vdat s' = data_view vdat s \<and> sw_alive s' = sw_alive s"
proof (cases "map_of (lmap (sw_seg_cache s)) e")
  case (Some r)
  let ?c = "(sw_seg_cache s)\<lparr>lmap := lhm_refresh (se_lru E) (lmap (sw_seg_cache s)) e\<rparr>"
  let ?s = "s\<lparr>sw_seg_cache := ?c\<rparr>"
  have d: "distinct (keys (lmap (sw_seg_cache s)))" using assms(1) by (simp add: store_inv_def)
  have m: "map_of (lmap ?c) = map_of (lmap (sw_seg_cache s))" using lru.map_of_refresh [OF d] by simp
  have run: "get_seg E e s = (Ok r, ?s)"
    using Some by (simp add: get_seg_def zoom_def cached_load_def contains_key_def cache_get_def get_refresh_def)
  have "(cow_deref tls (sw_segs s r) :: segment res) = Ok seg"
    using assms(2) Some by (auto simp: seg_view_def ok_opt_def split: result.splits)
  then have "on_seg r (deref_run tls) ?s = (Ok seg, ?s)"
    by (simp add: on_seg_def deref_run_def zoom_def)
  moreover have "inv1 tls ?s" using assms(1) m lru.refresh_distinct [OF d] by (simp add: store_inv_def)
  ultimately show ?thesis
    using run seg_view_cong [of ?s s vseg tls] data_view_cong [of ?s s vdat] m by auto
next
  case None
  have d: "distinct (keys (lmap (sw_seg_cache s)))" using assms(1) by (simp add: store_inv_def)
  from assms(2) None obtain c where c: "vseg (sw_vol s) e = Some c" "(cow_deref tls c :: segment res) = Ok seg"
    by (auto simp: seg_view_def ok_opt_def split: option.splits result.splits)
  have "vinv (sw_vol s)" using assms(1) by (simp add: store_inv_def)
  from load_seg [OF this c(1)] obtain v where v: "se_load_seg E e (sw_vol s) = (Ok c, v)" "vinv v"
    "vseg v = vseg (sw_vol s)" "vdat v = vdat (sw_vol s)" by blast
  let ?n = "sw_next s" let ?h = "(sw_segs s)(?n := c)"
  let ?c0 = "(sw_seg_cache s)\<lparr>lmap := lhm_refresh (se_lru E) (lmap (sw_seg_cache s)) e\<rparr>"
  define c1 where "c1 = snd (lru_insert (se_lru E) count_meter (cow_pinned ?h) ?c0 e ?n)"
  let ?s = "s\<lparr>sw_seg_cache := c1, sw_segs := ?h, sw_next := Suc ?n, sw_vol := v\<rparr>"
  have run: "get_seg E e s = (Ok ?n, ?s)"
    using None v(1)
    by (simp add: get_seg_def zoom_def cached_load_def contains_key_def cache_get_def get_refresh_def c1_def)
  have m0: "map_of (lmap ?c0) = map_of (lmap (sw_seg_cache s))" "distinct (keys (lmap ?c0))"
    using lru.map_of_refresh [OF d] lru.refresh_distinct [OF d] by simp_all
  note look = lru.lru_insert_lookup [OF m0(2) c1_def, unfolded m0(1)]
  have old: "r < ?n" "\<not> in_trans (sw_segs s r) \<Longrightarrow> \<exists>c. vseg (sw_vol s) j = Some c \<and>
      (cow_deref tls c :: segment res) = cow_deref tls (sw_segs s r)" if "map_of (lmap (sw_seg_cache s)) j = Some r" for j r
    using assms(1) that by (auto simp: store_inv_def)
  have rd: "on_seg ?n (deref_run tls) ?s = (Ok seg, ?s)"
    using c(2) by (simp add: on_seg_def deref_run_def zoom_def)
  have inv: "inv1 tls ?s"
  proof -
    have "r < Suc ?n \<and> (\<not> in_trans (?h r) \<longrightarrow> (\<exists>c. vseg v j = Some c \<and>
        (cow_deref tls c :: segment res) = cow_deref tls (?h r)))" if "map_of (lmap c1) j = Some r" for j r
      using look(2) [OF that] old [of j r] c v(3) by (auto split: if_splits)
    moreover have "r < Suc ?n" if "map_of (lmap (sw_segdata_cache s)) j = Some r" for j r
      using assms(1) that by (auto simp: store_inv_def less_Suc_eq)
    ultimately show ?thesis using assms(1) v look(1) by (auto simp: store_inv_def)
  qed
  have view: "seg_view vseg tls ?s j = seg_view vseg tls s j" for j
  proof (cases "map_of (lmap c1) j")
    case None
    show ?thesis
    proof (cases "map_of (lmap (sw_seg_cache s)) j")
      case (Some r)
      with \<open>map_of (lmap (sw_seg_cache s)) e = None\<close> have "((map_of (lmap (sw_seg_cache s)))(e \<mapsto> ?n)) j = Some r"
        by auto
      then have "\<not> cow_pinned ?h r" by (rule look(3) [OF None])
      with old [OF Some] Some None v(3) show ?thesis
        by (auto simp: seg_view_def cow_pinned_def)
    qed (use None v(3) in \<open>simp add: seg_view_def\<close>)
  next
    case (Some r)
    from look(2) [OF this] show ?thesis
    proof (cases "j = e")
      case True
      with look(2) [OF Some] Some c \<open>map_of (lmap (sw_seg_cache s)) e = None\<close> show ?thesis
        by (simp add: seg_view_def)
    next
      case False
      with look(2) [OF Some] Some old [of j r] show ?thesis by (simp add: seg_view_def)
    qed
  qed
  have "data_view vdat ?s = data_view vdat s" using v(4) by (intro data_view_cong) simp_all
  with run rd inv view show ?thesis by auto
qed

lemma get_segdata_ok:
  assumes "inv1 tls s" and "data_view vdat s e = Some b"
  shows "\<exists>r s'. get_segdata E e s = (Ok r, s') \<and> sd_data (sw_datas s' r) = b \<and> inv1 tls s' \<and>
    seg_view vseg tls s' = seg_view vseg tls s \<and> data_view vdat s' = data_view vdat s \<and> sw_alive s' = sw_alive s"
proof (cases "map_of (lmap (sw_segdata_cache s)) e")
  case (Some r)
  let ?c = "(sw_segdata_cache s)\<lparr>lmap := lhm_refresh (se_lru E) (lmap (sw_segdata_cache s)) e\<rparr>"
  let ?s = "s\<lparr>sw_segdata_cache := ?c\<rparr>"
  have d: "distinct (keys (lmap (sw_segdata_cache s)))" using assms(1) by (simp add: store_inv_def)
  have m: "map_of (lmap ?c) = map_of (lmap (sw_segdata_cache s))" using lru.map_of_refresh [OF d] by simp
  have "get_segdata E e s = (Ok r, ?s)" using Some by (simp add: get_segdata_def get_refresh_def)
  moreover have "inv1 tls ?s" using assms(1) m lru.refresh_distinct [OF d] by (simp add: store_inv_def)
  moreover have "sd_data (sw_datas ?s r) = b" using assms(2) Some by (simp add: data_view_def)
  ultimately show ?thesis
    using seg_view_cong [of ?s s vseg tls] data_view_cong [of ?s s vdat] m by auto
next
  case None
  have d: "distinct (keys (lmap (sw_segdata_cache s)))" using assms(1) by (simp add: store_inv_def)
  have b: "vdat (sw_vol s) e = Some b" using assms(2) None by (simp add: data_view_def)
  have "vinv (sw_vol s)" using assms(1) by (simp add: store_inv_def)
  from load_data [OF this b] obtain v where v: "se_read E e (sw_vol s) = (Ok b, v)" "vinv v"
    "vseg v = vseg (sw_vol s)" "vdat v = vdat (sw_vol s)" by blast
  let ?n = "sw_next s" let ?sd = "\<lparr>sd_id = e, sd_action = None, sd_data = b\<rparr>"
  let ?h = "(sw_datas s)(?n := ?sd)"
  let ?c0 = "(sw_segdata_cache s)\<lparr>lmap := lhm_refresh (se_lru E) (lmap (sw_segdata_cache s)) e\<rparr>"
  define c1 where "c1 = snd (lru_insert (se_lru E) (data_meter ?h) no_pin ?c0 e ?n)"
  let ?s = "s\<lparr>sw_segdata_cache := c1, sw_datas := ?h, sw_next := Suc ?n, sw_vol := v\<rparr>"
  have run: "get_segdata E e s = (Ok ?n, ?s)"
    using None v(1)
    by (simp add: get_segdata_def get_refresh_def on_wvol_def zoom_def segdata_load_def Let_def c1_def)
  have m0: "map_of (lmap ?c0) = map_of (lmap (sw_segdata_cache s))" "distinct (keys (lmap ?c0))"
    using lru.map_of_refresh [OF d] lru.refresh_distinct [OF d] by simp_all
  note look = lru.lru_insert_lookup [OF m0(2) c1_def, unfolded m0(1)]
  have old: "r < ?n \<and> vdat (sw_vol s) j = Some (sd_data (sw_datas s r))"
    if "map_of (lmap (sw_segdata_cache s)) j = Some r" for j r
    using assms(1) that by (auto simp: store_inv_def)
  have new: "r < Suc ?n \<and> vdat v j = Some (sd_data (?h r))" if "map_of (lmap c1) j = Some r" for j r
    using look(2) [OF that] old [of j r] b v(4) by (auto split: if_splits)
  have inv: "inv1 tls ?s"
  proof -
    have "r < Suc ?n \<and> (\<not> in_trans (sw_segs s r) \<longrightarrow> (\<exists>c. vseg v j = Some c \<and>
        (cow_deref tls c :: segment res) = cow_deref tls (sw_segs s r)))"
      if "map_of (lmap (sw_seg_cache s)) j = Some r" for j r
      using assms(1) that v(3) by (auto simp: store_inv_def less_Suc_eq)
    then show ?thesis using assms(1) v look(1) new by (auto simp: store_inv_def)
  qed
  have view: "data_view vdat ?s j = data_view vdat s j" for j
  proof (cases "map_of (lmap c1) j")
    case None
    with old [of j] v(4) show ?thesis
      by (cases "map_of (lmap (sw_segdata_cache s)) j") (auto simp: data_view_def)
  next
    case (Some r)
    with new [OF Some] old [of j] v(4) show ?thesis
      by (cases "map_of (lmap (sw_segdata_cache s)) j") (auto simp: data_view_def)
  qed
  have "seg_view vseg tls ?s = seg_view vseg tls s" using v(3) by (intro seg_view_cong) simp_all
  with run inv view show ?thesis by (intro exI [of _ ?n] exI [of _ ?s]) auto
qed

end

text \<open>The segment operations also keep the view of the segment data, which is \<open>dv\<close> throughout.\<close>

definition open_inv ::
  "('v \<Rightarrow> bool) \<Rightarrow> ('v \<Rightarrow> eid \<rightharpoonup> segment cow) \<Rightarrow> ('v \<Rightarrow> eid \<rightharpoonup> bytes) \<Rightarrow> txid \<Rightarrow> (eid \<rightharpoonup> bytes) \<Rightarrow>
   ('v, 't) store_world \<Rightarrow> bool"
where
  "open_inv vinv vseg vdat tls dv s \<longleftrightarrow> store_inv vinv vseg vdat tls s \<and> sw_alive s \<and> data_view vdat s = dv"

sublocale store_laws \<subseteq> segs: seg_store "store_seg_ops E tls" "open_inv vinv vseg vdat tls dv" "seg_view vseg tls"
proof unfold_locales
  fix s :: "('v, 't) store_world" and e seg
  assume "open_inv vinv vseg vdat tls dv s" and v: "seg_view vseg tls s e = Some seg"
  then have "inv1 tls s" "sw_alive s" "data_view vdat s = dv" by (simp_all add: open_inv_def)
  with get_seg_ok [OF _ v] show "\<exists>r s'. so_get (store_seg_ops E tls) e s = (Ok r, s') \<and>
      so_read (store_seg_ops E tls) r s' = (Ok seg, s') \<and> open_inv vinv vseg vdat tls dv s' \<and>
      seg_view vseg tls s' = seg_view vseg tls s"
    by (auto simp: store_seg_ops_def open_inv_def)
qed

subsection \<open>Reading a content\<close>

text \<open>The segments and data of \<open>G\<close> are those the store shows.\<close>

definition holds ::
  "('v \<Rightarrow> eid \<rightharpoonup> segment cow) \<Rightarrow> ('v \<Rightarrow> eid \<rightharpoonup> bytes) \<Rightarrow> txid \<Rightarrow> seg_map \<Rightarrow> ('v, 't) store_world \<Rightarrow> bool"
where
  "holds vseg vdat tls G s \<longleftrightarrow> (\<forall>e seg data. G e = Some (seg, data) \<longrightarrow>
     seg_view vseg tls s e = Some seg \<and> data_view vdat s (sm_data_id seg) = Some data)"

lemma segdata_read_ok:
  "off + n \<le> length (sd_data sd) \<Longrightarrow> segdata_read n off sd = Ok (take n (drop off (sd_data sd)))"
  by (simp add: segdata_read_def assert_r_def slice_r_def)

lemma span_loop_ok:
  "off + left \<le> length (sd_data sd) \<Longrightarrow>
   span_loop sd n off left = Ok (take (min n left) (drop off (sd_data sd)), n < left)"
proof (induction left arbitrary: n off rule: less_induct)
  case (less left)
  show ?case
  proof (cases "0 < left \<and> n \<noteq> 0")
    case True
    let ?k = "min left n"
    have "span_loop sd (n - ?k) (off + ?k) (left - ?k) =
        Ok (take (min (n - ?k) (left - ?k)) (drop (off + ?k) (sd_data sd)), n - ?k < left - ?k)"
      using less.prems True by (intro less.IH) auto
    moreover have "min (n - ?k) (left - ?k) = 0" by auto
    moreover have "n - ?k < left - ?k \<longleftrightarrow> n < left" by auto
    ultimately show ?thesis
      using True less.prems by (subst span_loop.simps) (simp add: Let_def segdata_read_ok min.commute)
  next
    case False
    then show ?thesis by (subst span_loop.simps) auto
  qed
qed

lemma take_append_drop:
  "take (min n (length x)) x @ take (n - min n (length x)) ys = take n (x @ ys)"
  by (cases "n \<le> length x") (simp_all add: min_def)

text \<open>
  Reading from a position in the first span of a list. The flag says that the buffer was too
  small.
\<close>

lemma read_ent_spans_ok:
  assumes "list_all (span_in seg (sd_data sd)) sps" and "tiles span_ops off sps" and "off \<le> pos"
    and "sps \<noteq> [] \<Longrightarrow> pos \<le> ss_end_offset (hd sps)"
  shows "read_ent_spans seg sd n pos sps =
    Ok (take n (drop (pos - off) (items_bytes (span_bytes seg (sd_data sd)) sps)),
        n < length (drop (pos - off) (items_bytes (span_bytes seg (sd_data sd)) sps)))"
  using assms
proof (induction sps arbitrary: n off pos)
  case Nil
  then show ?case by (simp add: items_bytes_def)
next
  case (Cons sp sps)
  let ?b = "span_bytes seg (sd_data sd)" let ?over = "pos - off" let ?left = "ss_len sp - ?over"
  have in1: "span_in seg (sd_data sd) sp" and sp: "ss_offset sp = off" using Cons.prems by simp_all
  have pos: "off \<le> pos" "pos \<le> off + ss_len sp" using Cons.prems by (simp_all add: ss_end_offset_def)
  have ok: "span_ok seg sp" using in1 by (simp add: span_in_def)
  have o1: "offset_in_seg seg sp = Ok (span_start seg sp)"
    using ok by (simp add: offset_in_seg_def nth_r_def span_ok_def span_start_def)
  have fit: "span_start seg sp + ss_len sp \<le> length (sd_data sd)"
    using in1 by (auto simp: span_in_def span_ok_def span_start_def)
  have len: "length (?b sp) = ss_len sp" using fit by (simp add: span_bytes_def)
  let ?x = "drop ?over (?b sp)"
  have x: "take (min n ?left) (drop (span_start seg sp + ?over) (sd_data sd)) = take (min n (length ?x)) ?x"
    using len by (simp add: span_bytes_def drop_take add.commute min_def)
  have run: "span_loop sd n (span_start seg sp + ?over) ?left = Ok (take (min n (length ?x)) ?x, n < length ?x)"
  proof -
    have lx: "length ?x = ?left" using len by simp
    have "span_loop sd n (span_start seg sp + ?over) ?left =
        Ok (take (min n ?left) (drop (span_start seg sp + ?over) (sd_data sd)), n < ?left)"
      using fit pos by (intro span_loop_ok) linarith
    then show ?thesis by (simp only: x lx)
  qed
  have all: "drop ?over (items_bytes ?b (sp # sps)) = ?x @ items_bytes ?b sps"
    using pos len by (simp add: items_bytes_def)
  show ?case
  proof (cases "n < length ?x")
    case True
    with run pos sp o1 show ?thesis
      unfolding all by (auto simp: sub_r_def)
  next
    case False
    let ?n = "n - length ?x" let ?p = "pos + length ?x"
    have p: "?p = off + ss_len sp" using pos len by simp
    have "read_ent_spans seg sd ?n ?p sps = Ok (take ?n (drop (?p - (off + ss_len sp)) (items_bytes ?b sps)),
        ?n < length (drop (?p - (off + ss_len sp)) (items_bytes ?b sps)))"
    proof (rule Cons.IH)
      show "?p \<le> ss_end_offset (hd sps)" if "sps \<noteq> []"
        using that Cons.prems(2) p by (cases sps) (simp_all add: ss_end_offset_def)
    qed (use Cons.prems p in simp_all)
    with False run pos sp o1 p show ?thesis
      unfolding all by (auto simp: sub_r_def)
  qed
qed

lemma tiles_skip:
  assumes "tiles X off xs"
  shows "\<exists>pre. xs = pre @ dropWhile (\<lambda>i. ct_offset X i + ct_len X i \<le> start) xs \<and>
    tiles X (off + items_len X pre) (dropWhile (\<lambda>i. ct_offset X i + ct_len X i \<le> start) xs) \<and>
    (pre \<noteq> [] \<longrightarrow> off + items_len X pre \<le> start) \<and>
    (\<forall>i \<in> set pre. ct_offset X i + ct_len X i \<le> start)"
  using assms
proof (induction xs arbitrary: off)
  case (Cons x xs)
  show ?case
  proof (cases "ct_offset X x + ct_len X x \<le> start")
    case True
    have "tiles X (off + ct_len X x) xs" using Cons.prems by simp
    from Cons.IH [OF this] obtain pre where
      IH: "xs = pre @ dropWhile (\<lambda>i. ct_offset X i + ct_len X i \<le> start) xs"
      "tiles X (off + ct_len X x + items_len X pre) (dropWhile (\<lambda>i. ct_offset X i + ct_len X i \<le> start) xs)"
      "pre \<noteq> [] \<Longrightarrow> off + ct_len X x + items_len X pre \<le> start"
      "\<forall>i \<in> set pre. ct_offset X i + ct_len X i \<le> start" by blast
    with True Cons.prems show ?thesis
      by (intro exI [of _ "x # pre"]) (cases pre; auto simp: add.assoc)
  next
    case False
    with Cons.prems show ?thesis by (intro exI [of _ "[]"]) simp
  qed
qed simp

text \<open>The spans of an entry that a read from \<open>start\<close> looks at.\<close>

lemma entry_spans_ok:
  assumes "entry_ok G e" and "G (en_seg_id e) = Some (seg, sd_data sd)"
    and "xl_offset e \<le> pos" and "pos \<le> end_offset e" and "pos = start \<or> start \<le> xl_offset e \<and> pos = xl_offset e"
  shows "read_ent_spans seg sd n pos (dropWhile (\<lambda>sp. ss_end_offset sp \<le> start) (xl_items e)) =
    Ok (take n (drop (pos - xl_offset e) (entry_bytes G e)), n < length (drop (pos - xl_offset e) (entry_bytes G e)))"
proof -
  let ?sps = "dropWhile (\<lambda>sp. ss_end_offset sp \<le> start) (xl_items e)"
  let ?b = "span_bytes seg (sd_data sd)"
  have e: "list_check span_ops e" "list_all (span_in seg (sd_data sd)) (xl_items e)"
    using assms(1,2) by (simp_all add: entry_ok_def)
  have "tiles span_ops (xl_offset e) (xl_items e)" using e(1) by (simp add: list_check_def)
  from tiles_skip [OF this, of start] obtain pre where pre: "xl_items e = pre @ ?sps"
    "tiles span_ops (xl_offset e + items_len span_ops pre) ?sps"
    "pre \<noteq> [] \<Longrightarrow> xl_offset e + items_len span_ops pre \<le> start" by (auto simp: ss_end_offset_def)
  let ?off = "xl_offset e + items_len span_ops pre"
  have all: "list_all (span_in seg (sd_data sd)) pre" "list_all (span_in seg (sd_data sd)) ?sps"
    using e(2) pre(1) by (metis list_all_append)+
  have off: "?off \<le> pos" using pre(3) assms(3,5) by (cases pre) auto
  have hd: "pos \<le> ss_end_offset (hd ?sps)" if "?sps \<noteq> []"
  proof -
    have "start < ss_end_offset (hd ?sps)" using hd_dropWhile [OF that] by simp
    moreover have "?off \<le> ss_end_offset (hd ?sps)" using pre(2) that by (cases ?sps) (simp_all add: ss_end_offset_def)
    ultimately show ?thesis using assms(5) by auto
  qed
  have len: "length (items_bytes ?b pre) = items_len span_ops pre" using all(1) by (rule spans.items_bytes_len)
  have "entry_bytes G e = items_bytes ?b pre @ items_bytes ?b ?sps"
    using assms(2) pre(1) by (metis entry_bytes_def items_bytes_append option.case(2) prod.case)
  then have "drop (pos - xl_offset e) (entry_bytes G e) = drop (pos - ?off) (items_bytes ?b ?sps)"
    using len off by simp
  with read_ent_spans_ok [OF all(2) pre(2) off hd, of n] show ?thesis by simp
qed

context store_laws
begin

lemma read_entries_ok:
  assumes "store_inv vinv vseg vdat tls s" and "holds vseg vdat tls G s"
    and "list_all (entry_ok G) es" and "tiles entry_ops off es" and "off \<le> pos"
    and "es \<noteq> [] \<Longrightarrow> pos \<le> end_offset (hd es)" and "pos = start \<or> start \<le> off \<and> pos = off"
  shows "\<exists>s'. read_entries E tls start n pos es s =
      (Ok (), take n (drop (pos - off) (items_bytes (entry_bytes G) es)), s') \<and>
    store_inv vinv vseg vdat tls s' \<and> seg_view vseg tls s' = seg_view vseg tls s \<and>
    data_view vdat s' = data_view vdat s \<and> sw_alive s' = sw_alive s"
  using assms
proof (induction es arbitrary: n off pos s)
  case Nil
  then show ?case by (simp add: items_bytes_def)
next
  case (Cons e es)
  have ok: "entry_ok G e" and off: "xl_offset e = off" using Cons.prems by simp_all
  from ok obtain seg data where G: "G (en_seg_id e) = Some (seg, data)"
    by (auto simp: entry_ok_def split: option.splits)
  with Cons.prems(2) have v: "seg_view vseg tls s (en_seg_id e) = Some seg" "data_view vdat s (sm_data_id seg) = Some data"
    by (auto simp: holds_def)
  obtain r s1 where g: "get_seg E (en_seg_id e) s = (Ok r, s1)" "on_seg r (deref_run tls) s1 = (Ok seg, s1)"
    "store_inv vinv vseg vdat tls s1" "seg_view vseg tls s1 = seg_view vseg tls s" "data_view vdat s1 = data_view vdat s"
    "sw_alive s1 = sw_alive s"
    using get_seg_ok [OF Cons.prems(1) v(1)] by blast
  obtain d s2 where h: "get_segdata E (sm_data_id seg) s1 = (Ok d, s2)" "sd_data (sw_datas s2 d) = data"
    "store_inv vinv vseg vdat tls s2" "seg_view vseg tls s2 = seg_view vseg tls s1" "data_view vdat s2 = data_view vdat s1"
    "sw_alive s2 = sw_alive s1"
    using get_segdata_ok [OF g(3), of "sm_data_id seg" data] v(2) g(5) by auto
  have pos: "off \<le> pos" "pos \<le> off + xl_len e" using Cons.prems(5,6) off by (simp_all add: end_offset_def)
  let ?x = "drop (pos - off) (entry_bytes G e)"
  have sp: "read_ent_spans seg (sw_datas s2 d) n pos (dropWhile (\<lambda>sp. ss_end_offset sp \<le> start) (xl_items e)) =
      Ok (take n ?x, n < length ?x)"
    using entry_spans_ok [OF ok, of seg "sw_datas s2 d" pos start n] G h(2) Cons.prems(7) off pos
    by (simp add: end_offset_def)
  have len: "length (entry_bytes G e) = xl_len e" using entries.bts_len [OF ok] by simp
  have all: "drop (pos - off) (items_bytes (entry_bytes G) (e # es)) = ?x @ items_bytes (entry_bytes G) es"
    using pos len by (simp add: items_bytes_def)
  show ?case
  proof (cases "n < length ?x")
    case True
    then have "read_entries E tls start n pos (e # es) s = (Ok (), take n ?x, s2)"
      using g(1,2) h(1) sp by simp
    with True g h show ?thesis unfolding all by simp
  next
    case False
    let ?n = "n - length ?x" let ?p = "pos + length ?x"
    have p: "?p = off + xl_len e" using pos len by simp
    have "\<exists>s'. read_entries E tls start ?n ?p es s2 =
        (Ok (), take ?n (drop (?p - (off + xl_len e)) (items_bytes (entry_bytes G) es)), s') \<and>
      store_inv vinv vseg vdat tls s' \<and> seg_view vseg tls s' = seg_view vseg tls s2 \<and>
      data_view vdat s' = data_view vdat s2 \<and> sw_alive s' = sw_alive s2"
    proof (rule Cons.IH)
      show "holds vseg vdat tls G s2" using Cons.prems(2) g(4,5) h(4,5) by (simp add: holds_def)
      show "?p \<le> end_offset (hd es)" if "es \<noteq> []"
        using that Cons.prems(4) p by (cases es) (simp_all add: end_offset_def)
      show "?p = start \<or> start \<le> off + xl_len e \<and> ?p = off + xl_len e" using Cons.prems(7) p pos by auto
    qed (use Cons.prems p h(3) in simp_all)
    then obtain s' where "read_entries E tls start ?n ?p es s2 = (Ok (), take ?n (items_bytes (entry_bytes G) es), s')"
      "store_inv vinv vseg vdat tls s'" "seg_view vseg tls s' = seg_view vseg tls s2"
      "data_view vdat s' = data_view vdat s2" "sw_alive s' = sw_alive s2" using p by auto
    moreover from False have "take n ?x = ?x" by simp
    ultimately show ?thesis
      using g h sp False unfolding all by auto
  qed
qed

lemma ctn_read_ok:
  assumes "store_inv vinv vseg vdat tls s" and "sw_alive s" and "holds vseg vdat tls G s"
    and "content_ok G (ct_ents (cr_content r))" and "xl_offset (ct_ents (cr_content r)) = 0"
    and b: "b = take n (drop (cr_pos r) (content_bytes G (ct_ents (cr_content r))))"
  shows "\<exists>s'. ctn_read E tls n (r, s) = (Ok b, (r\<lparr>cr_pos := cr_pos r + length b\<rparr>, s')) \<and>
    store_inv vinv vseg vdat tls s' \<and> sw_alive s' \<and>
    seg_view vseg tls s' = seg_view vseg tls s \<and> data_view vdat s' = data_view vdat s"
proof (cases "n = 0")
  case True
  with assms(1,2) show ?thesis by (simp add: ctn_read_def b)
next
  case False
  let ?l = "ct_ents (cr_content r)" let ?p = "cr_pos r" let ?bt = "entry_bytes G"
  let ?es = "dropWhile (\<lambda>e. end_offset e \<le> ?p) (xl_items ?l)"
  have c: "tiles entry_ops 0 (xl_items ?l)" "list_all (entry_ok G) (xl_items ?l)"
    using assms(4,5) by (simp_all add: content_ok_def list_check_def)
  from tiles_skip [OF c(1), of ?p] obtain pre where pre: "xl_items ?l = pre @ ?es"
    "tiles entry_ops (items_len entry_ops pre) ?es" "pre \<noteq> [] \<Longrightarrow> items_len entry_ops pre \<le> ?p"
    by (auto simp: end_offset_def)
  have all: "list_all (entry_ok G) pre" "list_all (entry_ok G) ?es"
    using c(2) pre(1) by (metis list_all_append)+
  have off: "items_len entry_ops pre \<le> ?p" using pre(3) by (cases pre) auto
  have hd: "?p \<le> end_offset (hd ?es)" if "?es \<noteq> []" using hd_dropWhile [OF that] by simp
  have "content_bytes G ?l = items_bytes ?bt pre @ items_bytes ?bt ?es"
    using pre(1) by (metis content_bytes_def items_bytes_append)
  then have "drop ?p (content_bytes G ?l) = drop (?p - items_len entry_ops pre) (items_bytes ?bt ?es)"
    using off entries.items_bytes_len [OF all(1)] by simp
  with read_entries_ok [OF assms(1,3) all(2) pre(2) off hd, of ?p n] False assms(2) show ?thesis
    by (auto simp: ctn_read_def conv_s_def upgrade_def b)
qed

end

text \<open>A reader over a content with the given bytes, at a position.\<close>

definition reader_at ::
  "('v \<Rightarrow> bool) \<Rightarrow> ('v \<Rightarrow> eid \<rightharpoonup> segment cow) \<Rightarrow> ('v \<Rightarrow> eid \<rightharpoonup> bytes) \<Rightarrow> txid \<Rightarrow>
   seg_map \<Rightarrow> bytes \<Rightarrow> nat \<Rightarrow> ctn_reader \<Rightarrow> ('v, 't) store_world \<Rightarrow> bool"
where
  "reader_at vinv vseg vdat tls G b p r s \<longleftrightarrow> store_inv vinv vseg vdat tls s \<and> sw_alive s \<and> cr_pos r = p \<and>
     xl_offset (ct_ents (cr_content r)) = 0 \<and>
     holds vseg vdat tls G s \<and> content_ok G (ct_ents (cr_content r)) \<and>
     content_bytes G (ct_ents (cr_content r)) = b"

sublocale store_laws \<subseteq> rdr: byte_reader "ctn_reader_ops E tls" "reader_at vinv vseg vdat tls G"
proof unfold_locales
  fix b p r n and s :: "('v, 't) store_world"
  assume "reader_at vinv vseg vdat tls G b p r s"
  then have G: "holds vseg vdat tls G s" "content_ok G (ct_ents (cr_content r))"
    "content_bytes G (ct_ents (cr_content r)) = b" "store_inv vinv vseg vdat tls s" "sw_alive s" "cr_pos r = p"
    "xl_offset (ct_ents (cr_content r)) = 0" by (auto simp: reader_at_def)
  let ?x = "take n (drop p b)"
  from ctn_read_ok [OF G(4,5,1,2,7) refl, of n] G(3,6) obtain s' where
    rd: "ctn_read E tls n (r, s) = (Ok ?x, (r\<lparr>cr_pos := p + length ?x\<rparr>, s'))" "store_inv vinv vseg vdat tls s'" "sw_alive s'"
    "seg_view vseg tls s' = seg_view vseg tls s" "data_view vdat s' = data_view vdat s" by auto
  have "holds vseg vdat tls G s'" using G(1) rd(4,5) by (simp add: holds_def)
  with G rd have "reader_at vinv vseg vdat tls G b (p + length ?x) (r\<lparr>cr_pos := p + length ?x\<rparr>) s'"
    by (auto simp: reader_at_def)
  with rd(1) show "\<exists>x r' s'. rd_read (ctn_reader_ops E tls) r n s = (Ok (x, r'), s') \<and>
      x = take (length x) (drop p b) \<and> length x \<le> n \<and> (0 < n \<and> p < length b \<longrightarrow> x \<noteq> []) \<and>
      reader_at vinv vseg vdat tls G b (p + length x) r' s'"
    by (intro exI [of _ ?x] exI [of _ "r\<lparr>cr_pos := p + length ?x\<rparr>"] exI [of _ s'])
      (auto simp: ctn_reader_ops_def min_def)
next
  fix b p q r and s :: "('v, 't) store_world"
  assume "reader_at vinv vseg vdat tls G b p r s"
  then show "reader_at vinv vseg vdat tls G b q (rd_seek (ctn_reader_ops E tls) q r) s"
    by (auto simp: reader_at_def ctn_reader_ops_def ctn_seek_def)
qed

subsection \<open>Contents under change\<close>

text \<open>
  A content of the store: its entries are well formed and start at 0, its bytes are \<open>b\<close>, and its
  hash tree is the reference tree of \<open>b\<close>.
\<close>

definition stored_content ::
  "(bytes \<Rightarrow> hash) \<Rightarrow> seg_map \<Rightarrow> bytes \<Rightarrow> content \<Rightarrow> bool"
where
  "stored_content H G b c \<longleftrightarrow> content_ok G (ct_ents c) \<and> xl_offset (ct_ents c) = 0 \<and>
     content_bytes G (ct_ents c) = b \<and> ct_mtree c = merkle_of H b"

text \<open>A staged part: entries from an offset, and the leaves of the bytes in them.\<close>

definition staged_content ::
  "(bytes \<Rightarrow> hash) \<Rightarrow> seg_map \<Rightarrow> nat \<Rightarrow> bytes \<Rightarrow> content \<Rightarrow> bool"
where
  "staged_content H G off d c \<longleftrightarrow> content_ok G (ct_ents c) \<and> xl_offset (ct_ents c) = off \<and>
     content_bytes G (ct_ents c) = d \<and> ct_leaves c = leaves_of H off d"

context store_laws
begin

lemma holds_serves:
  "holds vseg vdat tls G s \<Longrightarrow> open_inv vinv vseg vdat tls dv s \<Longrightarrow>
   serves (open_inv vinv vseg vdat tls dv) (seg_view vseg tls) G s"
  by (auto simp: holds_def serves_def)

lemma merge_from_ok:
  assumes inv: "store_inv vinv vseg vdat tls s" "sw_alive s" "holds vseg vdat tls G s"
    and c: "stored_content (se_hash E) G b c" and o: "staged_content (se_hash E) G off d other"
    and off: "off \<le> length b" and d: "d \<noteq> []"
  shows "\<exists>c' s'. merge_from E tls other c s = (Ok c', s') \<and>
    stored_content (se_hash E) G (overlay b off d) c' \<and> inv1 tls s' \<and> sw_alive s' \<and> holds vseg vdat tls G s'"
proof -
  let ?dv = "data_view vdat s" let ?inv = "open_inv vinv vseg vdat tls ?dv" let ?H = "se_hash E"
  have sv: "serves ?inv (seg_view vseg tls) G s" using inv by (intro holds_serves) (simp_all add: open_inv_def)
  have len: "xl_len (ct_ents c) = length b" "xl_len (ct_ents other) = length d"
    using c o content_bytes_length by (fastforce simp: stored_content_def staged_content_def)+
  have pre: "content_ok G (ct_ents c)" "content_ok G (ct_ents other)"
    "xl_offset (ct_ents c) \<le> xl_offset (ct_ents other)" "xl_offset (ct_ents other) \<le> end_offset (ct_ents c)"
    using c o off len by (auto simp: stored_content_def staged_content_def end_offset_def)
  from write_with_overlay [OF segs.seg_store_axioms sv pre] obtain l head tail s1 where
    w: "write_with (store_seg_ops E tls) (ct_ents other) (ct_ents c) s = (Ok (l, head, tail), s1)"
      "serves ?inv (seg_view vseg tls) G s1" "seg_view vseg tls s1 = seg_view vseg tls s" "content_ok G l"
      "xl_offset l = xl_offset (ct_ents c)"
      "content_bytes G l = take (xl_offset (ct_ents other) - xl_offset (ct_ents c)) (content_bytes G (ct_ents c)) @
         content_bytes G (ct_ents other) @ drop (end_offset (ct_ents other) - xl_offset (ct_ents c)) (content_bytes G (ct_ents c))"
    by blast
  let ?c1 = "c\<lparr>ct_ents := l\<rparr>"
  have b1: "content_bytes G l = overlay b off d" "xl_offset l = 0"
    using w(5,6) c o len by (auto simp: stored_content_def staged_content_def overlay_def end_offset_def)
  have i1: "store_inv vinv vseg vdat tls s1" "sw_alive s1" "data_view vdat s1 = ?dv"
    using w(2) by (simp_all add: serves_def open_inv_def)
  have "holds vseg vdat tls G s1" using inv(3) w(3) i1(3) by (simp add: holds_def)
  then have rd: "reader_at vinv vseg vdat tls G (overlay b off (concat [d])) 0 (ctn_reader_new ?c1) s1"
    using i1 w(4) b1 by (auto simp: reader_at_def ctn_reader_new_def)
  have lv: "write_pieces ?H off [d] = Ok (ct_leaves other)"
    using o by (simp add: write_pieces_leaves staged_content_def)
  have mt: "ct_mtree ?c1 = merkle_of ?H b" using c by (simp add: stored_content_def)
  obtain q r2 s2 where m: "merge ?H eid_new_empty (ctn_reader_ops E tls) (ct_leaves other) (ctn_reader_new ?c1)
      (merkle_of ?H b, s1) = (Ok (), (merkle_of ?H (overlay b off d), s2))" "reader_at vinv vseg vdat tls G (overlay b off d) q r2 s2"
    using merge_reference [OF rdr.byte_reader_axioms rd off _ lv, of eid_new_empty] d by auto
  have "merge_from E tls other c s = (Ok (?c1\<lparr>ct_mtree := merkle_of ?H (overlay b off d)\<rparr>), s2)"
    using w(1) m(1) mt by (simp add: merge_from_def Let_def)
  with w(4) b1 m(2) show ?thesis by (auto simp: stored_content_def reader_at_def)
qed

lemma content_truncate_ok:
  assumes inv: "store_inv vinv vseg vdat tls s" "sw_alive s" "holds vseg vdat tls G s"
    and c: "stored_content (se_hash E) G b c" and at: "at \<le> length b" and b: "b \<noteq> []"
  shows "\<exists>c' s'. content_truncate E tls at c s = (Ok c', s') \<and>
    stored_content (se_hash E) G (take at b) c' \<and> inv1 tls s' \<and> sw_alive s' \<and> holds vseg vdat tls G s'"
proof -
  let ?dv = "data_view vdat s" let ?inv = "open_inv vinv vseg vdat tls ?dv" let ?H = "se_hash E"
  have sv: "serves ?inv (seg_view vseg tls) G s" using inv by (intro holds_serves) (simp_all add: open_inv_def)
  have ok: "content_ok G (ct_ents c)" "xl_offset (ct_ents c) = 0" "content_bytes G (ct_ents c) = b"
    "ct_mtree c = merkle_of ?H b" using c by (simp_all add: stored_content_def)
  have len: "xl_len (ct_ents c) = length b" using content_bytes_length [OF ok(1)] ok(3) by simp
  have ne: "xl_items (ct_ents c) \<noteq> []" using content_items [OF ok(1), of 0] ok(2) len b by (simp add: end_offset_def)
  from segs.cut_off_run [OF sv ok(1), of at] ok(2,3) at len ne obtain l s1 where
    w: "cut_with (store_seg_ops E tls) (split_off entry_ops at) at (ct_ents c) s = (Ok l, s1)"
      "serves ?inv (seg_view vseg tls) G s1" "seg_view vseg tls s1 = seg_view vseg tls s" "content_ok G l"
      "xl_offset l = 0" "content_bytes G l = take at b"
    by (auto simp: end_offset_def)
  let ?c1 = "c\<lparr>ct_ents := l\<rparr>"
  have i1: "store_inv vinv vseg vdat tls s1" "sw_alive s1" "data_view vdat s1 = ?dv"
    using w(2) by (simp_all add: serves_def open_inv_def)
  have "holds vseg vdat tls G s1" using inv(3) w(3) i1(3) by (simp add: holds_def)
  then have rd: "reader_at vinv vseg vdat tls G (take at b) 0 (ctn_reader_new ?c1) s1"
    using i1 w(4-6) by (auto simp: reader_at_def ctn_reader_new_def)
  obtain q r2 s2 where m: "Merkle.truncate ?H eid_new_empty (ctn_reader_ops E tls) at (ctn_reader_new ?c1)
      (merkle_of ?H b, s1) = (Ok (), (merkle_of ?H (take at b), s2))" "reader_at vinv vseg vdat tls G (take at b) q r2 s2"
    using truncate_reference [OF rdr.byte_reader_axioms rd at, of ?H eid_new_empty] by auto
  have "content_truncate E tls at c s = (Ok (?c1\<lparr>ct_mtree := merkle_of ?H (take at b)\<rparr>), s2)"
    using w(1) m(1) at len ok(4) by (simp add: content_truncate_def content_len_def Let_def)
  with w(4-6) m(2) show ?thesis by (auto simp: stored_content_def reader_at_def)
qed

end

end
