(* ===== verification/Vol_Store.thy ===== *)
theory Vol_Store
  imports Store_View Entity_Write Reference_Cow
begin

text \<open>
  The content store on the volume: segments and contents are loaded through the volume's armor
  (\<open>Cow::load\<close> in \<open>src/src/trans/cow.rs\<close>), segment data through the volume's reader and writer
  (\<open>src/src/volume/volume.rs\<close>). The laws the store relies on are proved for every storage layer
  on a back end that keeps its contract, and the memory back end is an instance.
\<close>

subsection \<open>The volume as the store uses it\<close>

definition vol_load :: "'d st_env \<Rightarrow> (nat \<Rightarrow> nat) \<Rightarrow> (arm \<Rightarrow> bytes) \<Rightarrow> 'a cow item_ops \<Rightarrow> eid \<Rightarrow> ('a cow, error, 'd storage) eff" where
  "vol_load E sz ser_arm I e = (\<lambda>s. load_item (vol_armor E sz ser_arm I) s e)"

definition vol_writer_new :: "eid \<Rightarrow> (writer, error, 'd storage) eff" where
  "vol_writer_new e = (\<lambda>s. case writer_new e (Some s) of (r, so) \<Rightarrow> (r, the so))"

definition vol_write :: "'d st_env \<Rightarrow> bytes \<Rightarrow> (nat, io_error, writer \<times> 'd storage) eff" where
  "vol_write E b = (\<lambda>(w, s). case writer_write E b (w, Some s) of (r, (w', so)) \<Rightarrow> (r, (w', the so)))"

definition vol_finish :: "'d st_env \<Rightarrow> (unit, error, writer \<times> 'd storage) eff" where
  "vol_finish E = (\<lambda>(w, s). case writer_finish E (w, Some s) of (r, (w', so)) \<Rightarrow> (r, (w', the so)))"

text \<open>
  The environment of the store on a volume. The registration with the transaction manager, the
  random ids and the hash maps are the arguments left.
\<close>

definition vol_store_env ::
  "'d st_env \<Rightarrow> (nat \<Rightarrow> nat) \<Rightarrow> (arm \<Rightarrow> bytes) \<Rightarrow> segment cow item_ops \<Rightarrow> content cow item_ops \<Rightarrow>
   (eid, nat) lhm_ops \<Rightarrow> (hash, chunk_idx) lhm_ops \<Rightarrow> (nat \<Rightarrow> eid) \<Rightarrow> 't register \<Rightarrow>
   (eid \<Rightarrow> txid \<Rightarrow> action \<Rightarrow> (unit, error, 't) eff) \<Rightarrow> (writer, 'd storage, 't) store_env"
where
  "vol_store_env E sz ser_arm IS IC L LC ids reg regd =
     \<lparr>se_hash = crypto_hash (en_sodium E), se_eid = ids, se_lru = L, se_chunks = LC, se_reg = reg, se_reg_data = regd,
      se_load_seg = vol_load E sz ser_arm IS, se_load_ctn = vol_load E sz ser_arm IC,
      se_read = (\<lambda>e s. vol_slot_read E sz s e),
      se_new = vol_writer_new, se_write = vol_write E, se_finish = vol_finish E\<rparr>"

subsection \<open>The laws of the store\<close>

definition vol_inv ::
  "'d st_env \<Rightarrow> ('d \<Rightarrow> bool) \<Rightarrow> ('d \<Rightarrow> eid \<rightharpoonup> bytes) \<Rightarrow> ('d \<Rightarrow> nat \<rightharpoonup> bytes) \<Rightarrow> 'd storage \<Rightarrow> bool"
where
  "vol_inv E dinv adr blk s \<longleftrightarrow> (\<exists>M. ents_ok E dinv adr blk M s)"

definition vol_data :: "'d st_env \<Rightarrow> (nat \<Rightarrow> nat) \<Rightarrow> 'd storage \<Rightarrow> eid \<rightharpoonup> bytes" where
  "vol_data E sz s e = ok_opt (fst (vol_slot_read E sz s e))"

definition vol_cow :: "'d st_env \<Rightarrow> (nat \<Rightarrow> nat) \<Rightarrow> (arm \<Rightarrow> bytes) \<Rightarrow> 'a cow item_ops \<Rightarrow> 'd storage \<Rightarrow> eid \<rightharpoonup> 'a cow" where
  "vol_cow E sz ser_arm I s e = ok_opt (fst (vol_load E sz ser_arm I e s))"

locale vol_store =
  storage_env E inv wal adr blk + lru: linked_hash_map L
  for E :: "'d st_env" and inv :: "'d \<Rightarrow> bool" and wal :: "'d \<Rightarrow> eid \<rightharpoonup> bytes"
    and adr :: "'d \<Rightarrow> eid \<rightharpoonup> bytes" and blk :: "'d \<Rightarrow> nat \<rightharpoonup> bytes" and L :: "(eid, nat) lhm_ops" +
  fixes sz :: "nat \<Rightarrow> nat"
  assumes sz_pos: "0 < sz i"
begin

text \<open>What an entity map says about a read.\<close>

abbreviation ent_read :: "ent_map \<Rightarrow> eid \<Rightarrow> bytes res" where
  "ent_read M e \<equiv> (case M e of None \<Rightarrow> Err NotFound | Some (a, b) \<Rightarrow> Ok b)"

lemma vol_read_run:
  assumes "ents_ok E inv adr blk M s"
  obtains s' where "vol_slot_read E sz s e = (ent_read M e, s')" "ents_ok E inv adr blk M s'"
  using vol_slot_read_ok [OF assms, of sz e] sz_pos by blast

lemma vol_data_ents: "ents_ok E inv adr blk M s \<Longrightarrow> vol_data E sz s = (\<lambda>e. ok_opt (ent_read M e))"
  by (rule ext) (metis vol_read_run vol_data_def fst_conv)

definition arm_read :: "(arm \<Rightarrow> bytes) \<Rightarrow> 'a cow item_ops \<Rightarrow> ent_map \<Rightarrow> eid \<Rightarrow> arm \<Rightarrow> 'a cow res" where
  "arm_read ser_arm I M e a = bind_r (arm_to_eid (crypto_hash (en_sodium E)) ser_arm a e) (\<lambda>i. bind_r (ent_read M i) (it_deser I))"

lemma load_one_arm_run:
  assumes "ents_ok E inv adr blk M s"
  obtains s' where "load_one_arm (vol_armor E sz ser_arm I) s e a = (arm_read ser_arm I M e a, s')"
    "ents_ok E inv adr blk M s'"
proof (cases "arm_to_eid (crypto_hash (en_sodium E)) ser_arm a e :: eid res")
  case (Ok i)
  obtain s' where "vol_slot_read E sz s i = (ent_read M i, s')" "ents_ok E inv adr blk M s'"
    using vol_read_run [OF assms] by blast
  with Ok that show ?thesis by (simp add: load_one_arm_def vol_armor_def arm_read_def)
qed (use assms that in \<open>simp_all add: load_one_arm_def vol_armor_def arm_read_def\<close>)

lemma vol_load_run:
  assumes "ents_ok E inv adr blk M s"
  obtains s' where
    "vol_load E sz ser_arm I e s =
       (choose_arm (vol_armor E sz ser_arm I) (arm_read ser_arm I M e Left) (arm_read ser_arm I M e Right), s')"
    "ents_ok E inv adr blk M s'"
proof -
  obtain s1 where l: "load_one_arm (vol_armor E sz ser_arm I) s e Left = (arm_read ser_arm I M e Left, s1)"
    "ents_ok E inv adr blk M s1" using load_one_arm_run [OF assms] by blast
  obtain s2 where "load_one_arm (vol_armor E sz ser_arm I) s1 e Right = (arm_read ser_arm I M e Right, s2)"
    "ents_ok E inv adr blk M s2" using load_one_arm_run [OF l(2)] by blast
  with l that show ?thesis by (simp add: vol_load_def load_item_def)
qed

lemma vol_cow_ents:
  "ents_ok E inv adr blk M s \<Longrightarrow> vol_cow E sz ser_arm I s =
    (\<lambda>e. ok_opt (choose_arm (vol_armor E sz ser_arm I) (arm_read ser_arm I M e Left) (arm_read ser_arm I M e Right)))"
  by (rule ext) (metis vol_load_run vol_cow_def fst_conv)

text \<open>Loading a cow returns what the view says and keeps all views.\<close>

lemma vol_load_law:
  assumes "vol_inv E inv adr blk v" and c: "vol_cow E sz ser_arm I v e = Some c"
  shows "\<exists>v'. vol_load E sz ser_arm I e v = (Ok c, v') \<and> vol_inv E inv adr blk v' \<and>
    vol_cow E sz ser_arm I v' = vol_cow E sz ser_arm I v \<and> vol_data E sz v' = vol_data E sz v"
proof -
  from assms(1) obtain M where M: "ents_ok E inv adr blk M v" by (auto simp: vol_inv_def)
  obtain v' where v': "vol_load E sz ser_arm I e v = (choose_arm (vol_armor E sz ser_arm I)
      (arm_read ser_arm I M e Left) (arm_read ser_arm I M e Right), v')" "ents_ok E inv adr blk M v'"
    using vol_load_run [OF M] by blast
  with c have "vol_load E sz ser_arm I e v = (Ok c, v')"
    by (auto simp: vol_cow_def ok_opt_def split: result.splits)
  then show ?thesis
    using vol_cow_ents [OF M, of ser_arm I] vol_cow_ents [OF v'(2), of ser_arm I] vol_data_ents [OF M] vol_data_ents [OF v'(2)] v'(2)
    by (auto simp: vol_inv_def)
qed

end

sublocale vol_store \<subseteq> st: store_laws "vol_store_env E sz ser_arm IS IC L LC ids reg regd"
  "vol_inv E inv adr blk" "vol_cow E sz ser_arm IS" "vol_data E sz"
proof (intro store_laws.intro store_laws_axioms.intro)
  show "linked_hash_map (se_lru (vol_store_env E sz ser_arm IS IC L LC ids reg regd))"
    using lru.linked_hash_map_axioms by (simp add: vol_store_env_def)
next
  fix v e c
  assume "vol_inv E inv adr blk v" and "vol_cow E sz ser_arm IS v e = Some c"
  from vol_load_law [OF this]
  show "\<exists>v'. se_load_seg (vol_store_env E sz ser_arm IS IC L LC ids reg regd) e v = (Ok c, v') \<and>
      vol_inv E inv adr blk v' \<and> vol_cow E sz ser_arm IS v' = vol_cow E sz ser_arm IS v \<and> vol_data E sz v' = vol_data E sz v"
    by (simp add: vol_store_env_def)
next
  fix v e b
  assume "vol_inv E inv adr blk v" and b: "vol_data E sz v e = Some b"
  then obtain M where M: "ents_ok E inv adr blk M v" by (auto simp: vol_inv_def)
  obtain v' where v': "vol_slot_read E sz v e = (ent_read M e, v')" "ents_ok E inv adr blk M v'"
    using vol_read_run [OF M] by blast
  with b have "vol_slot_read E sz v e = (Ok b, v')"
    by (auto simp: vol_data_def ok_opt_def split: result.splits)
  then show "\<exists>v'. se_read (vol_store_env E sz ser_arm IS IC L LC ids reg regd) e v = (Ok b, v') \<and>
      vol_inv E inv adr blk v' \<and> vol_cow E sz ser_arm IS v' = vol_cow E sz ser_arm IS v \<and> vol_data E sz v' = vol_data E sz v"
    using vol_cow_ents [OF M, of ser_arm IS] vol_cow_ents [OF v'(2), of ser_arm IS] vol_data_ents [OF M] vol_data_ents [OF v'(2)] v'(2)
    by (auto simp: vol_store_env_def vol_inv_def)
qed

interpretation mem_store: vol_store mem_env mem_inv mem_wal mem_adr mem_blk list_lhm "\<lambda>_. 32"
  by unfold_locales simp

end
