(* ===== verification/Content_Change.thy ===== *)
theory Content_Change
  imports Vol_Store Reference_Entity
begin

text \<open>
  Changing a content and reading it back, from the entry lists and the merkle tree down to the
  encrypted blocks: the theorems of the content store for the store on the volume.
\<close>

abbreviation vol_store_inv where
  "vol_store_inv D dinv adr blk sz ser_arm IS \<equiv> store_inv (vol_inv D dinv adr blk) (vol_cow D sz ser_arm IS) (vol_data D sz)"

abbreviation vol_holds where
  "vol_holds D sz ser_arm IS \<equiv> holds (vol_cow D sz ser_arm IS) (vol_data D sz)"

text \<open>Reading a stored content from any position.\<close>

context store_laws
begin

lemma stored_read:
  assumes "inv1 tls s" and "sw_alive s" and "holds vseg vdat tls G s" and "stored_content H G b c"
  shows "fst (ctn_read E tls n (ctn_seek (SeekStart p) (ctn_reader_new c), s)) = Ok (take n (drop p b))"
proof -
  let ?r = "ctn_seek (SeekStart p) (ctn_reader_new c)"
  have "content_ok G (ct_ents (cr_content ?r))" "xl_offset (ct_ents (cr_content ?r)) = 0"
    "content_bytes G (ct_ents (cr_content ?r)) = b" "cr_pos ?r = p"
    using assms(4) by (simp_all add: stored_content_def ctn_seek_def ctn_reader_new_def)
  with ctn_read_ok [OF assms(1-3), of ?r "take n (drop p b)" n] show ?thesis by auto
qed

end

context vol_store
begin

lemma store_laws_vol:
  "store_laws (vol_store_env E sz ser_arm IS IC L LC ids reg regd) (vol_inv E inv adr blk) (vol_cow E sz ser_arm IS)
    (vol_data E sz)"
  by (rule st.store_laws_axioms)

end

text \<open>
  C1. A write reaches exactly the bytes it names. Let a stored content have the bytes \<open>b\<close>, and let
  a staged content hold the not empty bytes \<open>d\<close> at an offset within \<open>b\<close>. Merging succeeds and gives
  a content whose bytes are \<open>b\<close> with \<open>d\<close> laid over it, whose merkle tree is the reference tree of
  these bytes, and from which a reader returns them at every position.
\<close>

theorem content_merge_overlays:
  assumes "vol_store D dinv wal adr blk L sz"
    and S: "S = vol_store_env D sz ser_arm IS IC L LC ids reg regd"
    and "vol_store_inv D dinv adr blk sz ser_arm IS tls s" and "sw_alive s" and "vol_holds D sz ser_arm IS tls G s"
    and "stored_content (se_hash S) G b c" and "staged_content (se_hash S) G off d other"
    and "off \<le> length b" and "d \<noteq> []"
  shows "\<exists>c' s'. merge_from S tls other c s = (Ok c', s') \<and>
    stored_content (se_hash S) G (overlay b off d) c' \<and>
    (\<forall>p n. fst (ctn_read S tls n (ctn_seek (SeekStart p) (ctn_reader_new c'), s')) = Ok (take n (drop p (overlay b off d))))"
proof -
  have st: "store_laws S (vol_inv D dinv adr blk) (vol_cow D sz ser_arm IS) (vol_data D sz)"
    unfolding S by (rule vol_store.store_laws_vol [OF assms(1)])
  from store_laws.merge_from_ok [OF st assms(3-)] obtain c' s' where
    m: "merge_from S tls other c s = (Ok c', s')" "stored_content (se_hash S) G (overlay b off d) c'"
      "vol_store_inv D dinv adr blk sz ser_arm IS tls s'" "sw_alive s'" "vol_holds D sz ser_arm IS tls G s'" by blast
  with store_laws.stored_read [OF st m(3-5,2)] show ?thesis by blast
qed

text \<open>
  C2. Shortening a content keeps a prefix: truncating a not empty content to any smaller or equal
  length succeeds, and its bytes, its merkle tree and what a reader returns are those of the prefix.
\<close>

theorem content_truncate_prefix:
  assumes "vol_store D dinv wal adr blk L sz"
    and S: "S = vol_store_env D sz ser_arm IS IC L LC ids reg regd"
    and "vol_store_inv D dinv adr blk sz ser_arm IS tls s" and "sw_alive s" and "vol_holds D sz ser_arm IS tls G s"
    and "stored_content (se_hash S) G b c" and "at \<le> length b" and "b \<noteq> []"
  shows "\<exists>c' s'. content_truncate S tls at c s = (Ok c', s') \<and>
    stored_content (se_hash S) G (take at b) c' \<and>
    (\<forall>p n. fst (ctn_read S tls n (ctn_seek (SeekStart p) (ctn_reader_new c'), s')) = Ok (take n (drop p (take at b))))"
proof -
  have st: "store_laws S (vol_inv D dinv adr blk) (vol_cow D sz ser_arm IS) (vol_data D sz)"
    unfolding S by (rule vol_store.store_laws_vol [OF assms(1)])
  from store_laws.content_truncate_ok [OF st assms(3-)] obtain c' s' where
    m: "content_truncate S tls at c s = (Ok c', s')" "stored_content (se_hash S) G (take at b) c'"
      "vol_store_inv D dinv adr blk sz ser_arm IS tls s'" "sw_alive s'" "vol_holds D sz ser_arm IS tls G s'" by blast
  with store_laws.stored_read [OF st m(3-5,2)] show ?thesis by blast
qed

subsection \<open>A concrete store\<close>

text \<open>A segment of two chunks that the running transaction has created, its data in the volume.\<close>

definition ref_seg :: segment where
  "ref_seg = \<lparr>sm_len = 4, sm_used = 4, sm_data_id = [8],
     sm_chunks = [\<lparr>ck_pos = 0, ck_len = 3, ck_refcnt = 1\<rparr>, \<lparr>ck_pos = 3, ck_len = 1, ck_refcnt = 1\<rparr>]\<rparr>"

definition ref_world :: "mem storage \<Rightarrow> (mem storage, unit) store_world" where
  "ref_world v = \<lparr>sw_store = cow_new [1] \<lparr>sr_chunker_params = params_new, sr_dedup_file = False, sr_content_map = Map.empty\<rparr>,
     sw_segs = (\<lambda>_. \<lparr>co_id = [7], co_seq = 0, co_arm = Left, co_left = Some ref_seg, co_right = None,
        co_txid = Some 1, co_action = Some New\<rparr>),
     sw_ctns = (\<lambda>_. cow_default), sw_datas = (\<lambda>_. segdata_new []), sw_next = 1,
     sw_content_cache = lru_new 16, sw_seg_cache = (lru_new 16)\<lparr>lmap := [([7], 0)]\<rparr>, sw_segdata_cache = lru_new 16,
     sw_vol = v, sw_tx = (), sw_draws = 0, sw_alive = True\<rparr>"

abbreviation ref_store_env :: "(writer, mem storage, unit) store_env" where
  "ref_store_env \<equiv> vol_store_env mem_env (\<lambda>_. 32) ref_ser_arm (cow_item (\<lambda>_. Err NotFound) (\<lambda>_. Err NotFound))
     (cow_item (\<lambda>_. Err NotFound) (\<lambda>_. Err NotFound)) list_lhm list_lhm (\<lambda>n. [of_nat n])
     (\<lambda>_ _ _ _. ret_s ()) (\<lambda>_ _ _. ret_s ())"

abbreviation ref_map :: seg_map where
  "ref_map \<equiv> [[7] \<mapsto> (ref_seg, [1, 2, 3, 9])]"

definition ref_ents :: "nat \<Rightarrow> nat \<Rightarrow> nat \<Rightarrow> entry_list" where
  "ref_ents i off n = \<lparr>xl_len = n, xl_offset = off, xl_items = [\<lparr>xl_len = n, xl_offset = off,
     xl_items = [\<lparr>ss_begin = i, ss_end = Suc i, ss_seg_offset = 0, ss_len = n, ss_offset = off\<rparr>], en_seg_id = [7]\<rparr>]\<rparr>"

definition ref_content :: content where
  "ref_content = \<lparr>ct_ents = ref_ents 0 0 3, ct_mtree = merkle_of (se_hash ref_store_env) [1, 2, 3],
     ct_leaves = leaves_of (se_hash ref_store_env) 0 []\<rparr>"

definition ref_staged :: content where
  "ref_staged = \<lparr>ct_ents = ref_ents 1 1 1, ct_mtree = merkle_of (se_hash ref_store_env) [],
     ct_leaves = leaves_of (se_hash ref_store_env) 1 [9]\<rparr>"

lemmas ref_entry_simps = ref_ents_def ref_seg_def content_ok_def content_bytes_def list_check_def items_len_def items_bytes_def
  entry_ok_def entry_bytes_def span_in_def span_ok_def span_bytes_def span_start_def end_pos_def

lemma ref_entries:
  "content_ok ref_map (ref_ents 0 0 3)" "content_bytes ref_map (ref_ents 0 0 3) = [1, 2, 3]"
  "content_ok ref_map (ref_ents 1 1 1)" "content_bytes ref_map (ref_ents 1 1 1) = [9]"
  "xl_offset (ref_ents i off n) = off"
  by (auto simp: ref_entry_simps)

lemma ref_stored:
  "stored_content (se_hash ref_store_env) ref_map [1, 2, 3] ref_content"
  "staged_content (se_hash ref_store_env) ref_map 1 [9] ref_staged"
  by (simp_all add: stored_content_def staged_content_def ref_content_def ref_staged_def ref_entries [simplified] del: fun_upd_apply)

lemma ref_world_ok:
  obtains v where
    "vol_store_inv mem_env mem_inv mem_adr mem_blk (\<lambda>_. 32) ref_ser_arm IS 1 (ref_world v)"
    "vol_holds mem_env (\<lambda>_. 32) ref_ser_arm IS 1 ref_map (ref_world v)" "sw_alive (ref_world v)"
proof -
  obtain a v n where "vol_slot_write mem_env mem_storage0 [8] [1, 2, 3, 9] = (Ok (), v)"
    "ents_ok mem_env mem_inv mem_adr mem_blk (Map.empty([8] \<mapsto> (a, [1, 2, 3, 9]))) v"
    using storage_env.vol_slot_write_ok [OF mem_sg.storage_env_axioms mem_storage0_ok, of "[1, 2, 3, 9]" "[8]"] mem_room [of "[1, 2, 3, 9]"] by auto
  note e = this(2)
  have "vol_data mem_env (\<lambda>_. 32) v [8] = Some [1, 2, 3, 9]"
    using mem_store.vol_data_ents [OF e] by (simp add: ok_opt_def)
  then have "data_view (vol_data mem_env (\<lambda>_. 32)) (ref_world v) [8] = Some [1, 2, 3, 9]"
    by (simp add: data_view_def ref_world_def lru_new_def)
  moreover have "seg_view (vol_cow mem_env (\<lambda>_. 32) ref_ser_arm IS) 1 (ref_world v) [7] = Some ref_seg"
    by (simp add: seg_view_def ref_world_def lru_new_def cow_deref_def cow_inner_def inner_by_def slot_of_def ok_opt_def unwrap_opt_def)
  ultimately have "vol_holds mem_env (\<lambda>_. 32) ref_ser_arm IS 1 ref_map (ref_world v)"
    by (auto simp: holds_def ref_seg_def)
  moreover have "vol_store_inv mem_env mem_inv mem_adr mem_blk (\<lambda>_. 32) ref_ser_arm IS 1 (ref_world v)"
    using e by (auto simp: store_inv_def vol_inv_def ref_world_def lru_new_def in_trans_def)
  moreover have "sw_alive (ref_world v)" by (simp add: ref_world_def)
  ultimately show ?thesis using that by blast
qed

theorem content_merge_overlays_witness:
  "\<exists>v c' s'. merge_from ref_store_env 1 ref_staged ref_content (ref_world v) = (Ok c', s') \<and>
     fst (ctn_read ref_store_env 1 3 (ctn_seek (SeekStart 0) (ctn_reader_new c'), s')) = Ok [1, 9, 3]"
proof -
  obtain v where v: "vol_store_inv mem_env mem_inv mem_adr mem_blk (\<lambda>_. 32) ref_ser_arm (cow_item (\<lambda>_. Err NotFound) (\<lambda>_. Err NotFound)) 1 (ref_world v)"
    "vol_holds mem_env (\<lambda>_. 32) ref_ser_arm (cow_item (\<lambda>_. Err NotFound) (\<lambda>_. Err NotFound)) 1 ref_map (ref_world v)" "sw_alive (ref_world v)"
    using ref_world_ok by blast
  from content_merge_overlays [OF mem_store.vol_store_axioms refl v(1,3,2) ref_stored] obtain c' s' where
    "merge_from ref_store_env 1 ref_staged ref_content (ref_world v) = (Ok c', s')"
    "\<forall>p n. fst (ctn_read ref_store_env 1 n (ctn_seek (SeekStart p) (ctn_reader_new c'), s')) = Ok (take n (drop p (overlay [1, 2, 3] 1 [9])))"
    by auto
  from this(1) this(2) [rule_format, of 3 0] show ?thesis by (auto simp: overlay_def)
qed

theorem content_truncate_prefix_witness:
  "\<exists>v c' s'. content_truncate ref_store_env 1 2 ref_content (ref_world v) = (Ok c', s') \<and>
     fst (ctn_read ref_store_env 1 3 (ctn_seek (SeekStart 0) (ctn_reader_new c'), s')) = Ok [1, 2]"
proof -
  obtain v where v: "vol_store_inv mem_env mem_inv mem_adr mem_blk (\<lambda>_. 32) ref_ser_arm (cow_item (\<lambda>_. Err NotFound) (\<lambda>_. Err NotFound)) 1 (ref_world v)"
    "vol_holds mem_env (\<lambda>_. 32) ref_ser_arm (cow_item (\<lambda>_. Err NotFound) (\<lambda>_. Err NotFound)) 1 ref_map (ref_world v)" "sw_alive (ref_world v)"
    using ref_world_ok by blast
  from content_truncate_prefix [OF mem_store.vol_store_axioms refl v(1,3,2) ref_stored(1), of 2] obtain c' s' where
    "content_truncate ref_store_env 1 2 ref_content (ref_world v) = (Ok c', s')"
    "\<forall>p n. fst (ctn_read ref_store_env 1 n (ctn_seek (SeekStart p) (ctn_reader_new c'), s')) = Ok (take n (drop p (take 2 [1, 2, 3])))"
    by auto
  from this(1) this(2) [rule_format, of 3 0] show ?thesis by auto
qed

end
