(* ===== verification/Paths.thy ===== *)
theory Paths
  imports Main
begin

text \<open>
  What the file system uses of \<open>std::path::Path\<close> on Unix. A path is the list of its components:
  repeated separators and inner dots are gone, and comparing paths compares their components.
  \<open>components\<close> reads a string; the other operations are those of the type.
\<close>

datatype component = RootDir | CurDir | ParentDir | Normal string

type_synonym path = "component list"

fun split_slash :: "string \<Rightarrow> string list" where
  "split_slash [] = [[]]"
| "split_slash (c # s) = (if c = CHR ''/'' then [] # split_slash s
     else case split_slash s of [] \<Rightarrow> [[c]] | x # xs \<Rightarrow> (c # x) # xs)"

definition has_root_str :: "string \<Rightarrow> bool" where
  "has_root_str s = (s \<noteq> [] \<and> hd s = CHR ''/'')"

definition comp_of :: "string \<Rightarrow> component" where
  "comp_of x = (if x = ''..'' then ParentDir else Normal x)"

definition body_comps :: "string list \<Rightarrow> component list" where
  "body_comps xs = map comp_of (filter (\<lambda>x. x \<noteq> [] \<and> x \<noteq> ''.'') xs)"

definition components :: "string \<Rightarrow> path" where
  "components s =
     (if has_root_str s then RootDir # body_comps (split_slash s)
      else if hd (split_slash s) = ''.'' then CurDir # body_comps (split_slash s)
      else body_comps (split_slash s))"

definition has_root :: "path \<Rightarrow> bool" where
  "has_root p = (p \<noteq> [] \<and> hd p = RootDir)"

fun comp_str :: "component \<Rightarrow> string" where
  "comp_str RootDir = ''/''"
| "comp_str CurDir = ''.''"
| "comp_str ParentDir = ''..''"
| "comp_str (Normal x) = x"

definition path_parent :: "path \<Rightarrow> path option" where
  "path_parent p = (if p = [] \<or> last p = RootDir then None else Some (butlast p))"

definition path_file_name :: "path \<Rightarrow> string option" where
  "path_file_name p = (if p = [] then None else case last p of Normal x \<Rightarrow> Some x | _ \<Rightarrow> None)"

definition path_starts_with :: "path \<Rightarrow> path \<Rightarrow> bool" where
  "path_starts_with p q = (take (length q) p = q)"

definition path_join :: "path \<Rightarrow> string \<Rightarrow> path" where
  "path_join p x =
     (let c = components x
      in if has_root c then c else if p = [] then c else p @ filter (\<lambda>d. d \<noteq> CurDir) c)"

text \<open>A file name is a component on its own.\<close>

definition name_ok :: "string \<Rightarrow> bool" where
  "name_ok x \<longleftrightarrow> x \<noteq> [] \<and> CHR ''/'' \<notin> set x \<and> x \<noteq> ''.'' \<and> x \<noteq> ''..''"

lemma split_slash_ne: "split_slash s \<noteq> []"
  by (induction s) (auto split: list.split)

lemma split_slash_word: "CHR ''/'' \<notin> set x \<Longrightarrow> split_slash x = [x]"
  by (induction x) auto

lemma split_slash_parts: "y \<in> set (split_slash s) \<Longrightarrow> CHR ''/'' \<notin> set y"
proof (induction s arbitrary: y)
  case (Cons c s)
  then show ?case using split_slash_ne [of s] by (auto split: if_splits list.splits)
qed simp

lemma components_name: "name_ok x \<Longrightarrow> components x = [Normal x]"
  by (auto simp: components_def name_ok_def split_slash_word has_root_str_def body_comps_def comp_of_def) (metis hd_in_set)

lemma join_name: "name_ok x \<Longrightarrow> path_join p x = p @ [Normal x]"
  by (simp add: path_join_def components_name has_root_def Let_def)

lemma parent_join: "name_ok x \<Longrightarrow> path_parent (path_join p x) = Some p"
  by (simp add: join_name path_parent_def)

lemma file_name_join: "name_ok x \<Longrightarrow> path_file_name (path_join p x) = Some x"
  by (simp add: join_name path_file_name_def)

text \<open>The names in the components of a string are file names.\<close>

lemma components_names: "Normal x \<in> set (components s) \<Longrightarrow> name_ok x"
  using split_slash_parts [of x s]
  by (auto simp: components_def body_comps_def comp_of_def name_ok_def split: if_splits)

end
