(* ===== verification/Fnode.thy ===== *)
theory Fnode
  imports Content Paths
begin

text \<open>
  \<open>src/src/fs/fnode.rs\<close> and the types of \<open>src/src/fs/mod.rs\<close>: file nodes. A node is a directory
  with entries for its children or a file with a list of versions; it is kept in a cow, so that every
  change belongs to a transaction.

  A reference to a node is an address into the heap \<open>fw_nodes\<close>. A weak reference can be upgraded
  while the node is alive (\<open>fw_live\<close>); nodes are not dropped in the middle of an operation. The
  transaction of the calling thread, a thread local variable in the code, is \<open>fw_tls\<close>. The
  transaction manager is the interface \<open>fe_begin\<close>, \<open>fe_commit\<close> and \<open>fe_abort\<close>; readings of
  the clock are \<open>fe_time\<close>.
\<close>

subsection \<open>Types\<close>

datatype file_type = File | Dir

definition file_type_is_file :: "file_type \<Rightarrow> bool" where
  "file_type_is_file t = (t = File)"

definition file_type_is_dir :: "file_type \<Rightarrow> bool" where
  "file_type_is_dir t = (t = Dir)"

fun file_type_to_i32 :: "file_type \<Rightarrow> int" where
  "file_type_to_i32 File = 0"
| "file_type_to_i32 Dir = 1"

fun file_type_to_string :: "file_type \<Rightarrow> string" where
  "file_type_to_string File = ''File''"
| "file_type_to_string Dir = ''Dir''"

record options =
  op_version_limit :: "8 word"
  op_dedup_chunk :: bool
  op_dedup_file :: bool

definition DEFAULT_VERSION_LIMIT :: "8 word" where "DEFAULT_VERSION_LIMIT = 1"

definition options_default :: options where
  "options_default = \<lparr>op_version_limit = DEFAULT_VERSION_LIMIT, op_dedup_chunk = False, op_dedup_file = False\<rparr>"

record child_entry =
  ch_id :: eid
  ch_ftype :: file_type
  ch_name :: string

definition child_entry_new :: "eid \<Rightarrow> file_type \<Rightarrow> string \<Rightarrow> child_entry" where
  "child_entry_new e t x = \<lparr>ch_id = e, ch_ftype = t, ch_name = x\<rparr>"

record file_version =
  ve_num :: nat
  ve_content_id :: eid
  ve_content_len :: nat
  ve_ctime :: nat

record metadata =
  md_ftype :: file_type
  md_content_len :: nat
  md_curr_version :: nat
  md_ctime :: nat
  md_mtime :: nat

record dir_entry =
  de_path :: path
  de_name :: string
  de_metadata :: metadata

definition SUB_NODES_CNT :: nat where "SUB_NODES_CNT = 8"

record fnode =
  fn_ftype :: file_type
  fn_opts :: options
  fn_ctime :: nat
  fn_mtime :: nat
  fn_kids :: "child_entry list"
  fn_vers :: "file_version list"
  fn_chk_map :: chunk_map
  fn_parent :: "nat option"
  fn_sub_nodes :: "(string, nat) lru"

record ('v, 't) fs_world =
  fw_nodes :: "nat \<Rightarrow> fnode cow"
  fw_next :: nat
  fw_live :: "nat \<Rightarrow> bool"
  fw_cache :: "(eid, nat) lru"
  fw_sto :: "('v, 't) store_world"
  fw_ticks :: nat
  fw_tls :: txid
  fw_closed :: bool

record ('w, 'v, 't) fs_env =
  fe_store :: "('w, 'v, 't) store_env"
  fe_time :: "nat \<Rightarrow> nat"
  fe_names :: "(string, nat) lhm_ops"
  fe_load :: "eid \<Rightarrow> (fnode cow, error, 'v) eff"
  fe_begin :: "(txid, error, ('v, 't) fs_world) eff"
  fe_commit :: "txid \<Rightarrow> (unit, error, ('v, 't) fs_world) eff"
  fe_abort :: "txid \<Rightarrow> (unit, error, ('v, 't) fs_world) eff"

subsection \<open>Access to the parts\<close>

type_synonym ('v, 't) nstate = "fnode \<times> nat \<times> ('v, 't) store_world"

definition on_fsto :: "('a, 'e, ('v, 't) store_world) eff \<Rightarrow> ('a, 'e, ('v, 't) fs_world) eff" where
  "on_fsto m = zoom fw_sto (\<lambda>x s. s\<lparr>fw_sto := x\<rparr>) m"

definition on_node :: "nat \<Rightarrow> ('a, 'e, fnode cow \<times> 't) eff \<Rightarrow> ('a, 'e, ('v, 't) fs_world) eff" where
  "on_node r m = zoom (\<lambda>s. (fw_nodes s r, sw_tx (fw_sto s)))
     (\<lambda>(c, t) s. s\<lparr>fw_nodes := (fw_nodes s)(r := c), fw_sto := (fw_sto s)\<lparr>sw_tx := t\<rparr>\<rparr>) m"

text \<open>\<open>Time::now()\<close>\<close>

definition now :: "('w, 'v, 't) fs_env \<Rightarrow> (nat, error, ('v, 't) fs_world) eff" where
  "now E = (\<lambda>s. (Ok (fe_time E (fw_ticks s)), s\<lparr>fw_ticks := Suc (fw_ticks s)\<rparr>))"

text \<open>Reading a node through its lock: \<open>fnode.read().unwrap()\<close> and the \<open>Deref\<close> of the cow.\<close>

definition node_at :: "nat \<Rightarrow> (fnode, error, ('v, 't) fs_world) eff" where
  "node_at r = bind_s get_s (\<lambda>s. on_node r (deref_run (fw_tls s)))"

definition node_id :: "nat \<Rightarrow> (eid, error, ('v, 't) fs_world) eff" where
  "node_id r = bind_s get_s (\<lambda>s. ret_s (co_id (fw_nodes s r)))"

text \<open>\<open>make_mut\<close> on a node, and a method of the node behind the reference it returns.\<close>

definition node_mut :: "('w, 'v, 't) fs_env \<Rightarrow> nat \<Rightarrow> (arm, error, ('v, 't) fs_world) eff" where
  "node_mut E r = bind_s get_s (\<lambda>s. on_node r (make_mut (se_reg (fe_store E)) (fw_tls s)))"

definition on_inner :: "nat \<Rightarrow> arm \<Rightarrow> ('a, error, ('v, 't) nstate) eff \<Rightarrow> ('a, error, ('v, 't) fs_world) eff" where
  "on_inner r a m = (\<lambda>s. case slot_of (fw_nodes s r) a of
       None \<Rightarrow> (Panic, s)
     | Some x \<Rightarrow> (case m (x, fw_ticks s, fw_sto s) of (q, (x', n, st)) \<Rightarrow>
         (q, s\<lparr>fw_nodes := (fw_nodes s)(r := set_slot a (Some x') (fw_nodes s r)), fw_ticks := n, fw_sto := st\<rparr>)))"

definition put_inner :: "nat \<Rightarrow> arm \<Rightarrow> (fnode \<Rightarrow> fnode) \<Rightarrow> (unit, error, ('v, 't) fs_world) eff" where
  "put_inner r a f = on_inner r a (modify_s (\<lambda>(x, n, st). (f x, n, st)))"

definition node_del :: "('w, 'v, 't) fs_env \<Rightarrow> nat \<Rightarrow> (unit, error, ('v, 't) fs_world) eff" where
  "node_del E r = bind_s get_s (\<lambda>s. on_node r (make_del (se_reg (fe_store E)) (fw_tls s)))"

subsection \<open>Queries\<close>

definition default_sub_nodes :: "(string, nat) lru" where
  "default_sub_nodes = lru_new SUB_NODES_CNT"

definition fnode_new :: "file_type \<Rightarrow> options \<Rightarrow> nat \<Rightarrow> nat \<Rightarrow> fnode" where
  "fnode_new t op ct mt =
     \<lparr>fn_ftype = t, fn_opts = op, fn_ctime = ct, fn_mtime = mt, fn_kids = [], fn_vers = [],
      fn_chk_map = chunk_map_new (op_dedup_chunk op), fn_parent = None, fn_sub_nodes = default_sub_nodes\<rparr>"

definition is_file :: "fnode \<Rightarrow> bool" where
  "is_file x = (fn_ftype x = File)"

definition is_dir :: "fnode \<Rightarrow> bool" where
  "is_dir x = (fn_ftype x = Dir)"

definition is_root :: "fnode \<Rightarrow> bool" where
  "is_root x = (fn_parent x = None)"

definition curr_ver :: "fnode \<Rightarrow> (file_version, 'e) result" where
  "curr_ver x = unwrap_opt (if fn_vers x = [] then None else Some (last (fn_vers x)))"

definition curr_ver_num :: "fnode \<Rightarrow> nat" where
  "curr_ver_num x = (if fn_vers x = [] then 0 else ve_num (last (fn_vers x)))"

definition curr_len :: "fnode \<Rightarrow> (nat, 'e) result" where
  "curr_len x = (case fn_ftype x of
       File \<Rightarrow> bind_r (curr_ver x) (\<lambda>v. Ok (ve_content_len v))
     | Dir \<Rightarrow> Ok 0)"

definition fnode_metadata :: "fnode \<Rightarrow> (metadata, 'e) result" where
  "fnode_metadata x = bind_r (curr_len x) (\<lambda>n.
     Ok \<lparr>md_ftype = fn_ftype x, md_content_len = n, md_curr_version = curr_ver_num x,
         md_ctime = fn_ctime x, md_mtime = fn_mtime x\<rparr>)"

definition fnode_history :: "fnode \<Rightarrow> file_version list" where
  "fnode_history x = fn_vers x"

definition has_child :: "string \<Rightarrow> fnode \<Rightarrow> bool" where
  "has_child name x = (name \<in> set (map ch_name (fn_kids x)))"

definition children_cnt :: "fnode \<Rightarrow> nat" where
  "children_cnt x = length (fn_kids x)"

definition children_names :: "fnode \<Rightarrow> string list" where
  "children_names x = map ch_name (fn_kids x)"

definition fnode_ver :: "nat \<Rightarrow> fnode \<Rightarrow> file_version option" where
  "fnode_ver n x = find (\<lambda>v. ve_num v = n) (fn_vers x)"

subsection \<open>Versions\<close>

text \<open>Methods of a node that use the store; the middle part of the state counts readings of the clock.\<close>

definition on_nsto :: "('a, error, ('v, 't) store_world) eff \<Rightarrow> ('a, error, ('v, 't) nstate) eff" where
  "on_nsto m = zoom (\<lambda>(x, n, st). st) (\<lambda>st (x, n, _). (x, n, st)) m"

definition on_chk :: "('a, error, chunk_map \<times> ('v, 't) store_world) eff \<Rightarrow> ('a, error, ('v, 't) nstate) eff" where
  "on_chk m = zoom (\<lambda>(x, n, st). (fn_chk_map x, st)) (\<lambda>(c, st) (x, n, _). (x\<lparr>fn_chk_map := c\<rparr>, n, st)) m"

definition remove_version ::
  "('w, 'v, 't) fs_env \<Rightarrow> txid \<Rightarrow> nat \<Rightarrow> (unit, error, ('v, 't) nstate) eff"
where
  "remove_version E tls num =
     bind_s get_s (\<lambda>(x, _).
     bind_s (lift_r (ok_or (position (\<lambda>v. ve_num v = num) (fn_vers x)) NoVersion)) (\<lambda>i.
     bind_s (modify_s (\<lambda>(x, p). (x\<lparr>fn_vers := take i (fn_vers x) @ drop (Suc i) (fn_vers x)\<rparr>, p))) (\<lambda>_.
     bind_s (on_nsto (deref_content (fe_store E) tls (ve_content_id (fn_vers x ! i)))) (\<lambda>q. case q of
         None \<Rightarrow> ret_s ()
       | Some r \<Rightarrow>
           bind_s (on_nsto (on_ctn r (deref_run tls))) (\<lambda>c.
           bind_s (on_chk (content_unlink (fe_store E) tls c)) (\<lambda>_.
           on_nsto (on_ctn r (make_del (se_reg (fe_store E)) tls))))))))"

definition clear_versions :: "('w, 'v, 't) fs_env \<Rightarrow> txid \<Rightarrow> (unit, error, ('v, 't) nstate) eff" where
  "clear_versions E tls =
     bind_s get_s (\<lambda>(x, _). for_s (remove_version E tls) (map ve_num (fn_vers x)))"

definition version_new ::
  "('w, 'v, 't) fs_env \<Rightarrow> nat \<Rightarrow> eid \<Rightarrow> nat \<Rightarrow> (file_version, error, ('v, 't) nstate) eff"
where
  "version_new E num e len = (\<lambda>(x, n, st).
     (Ok \<lparr>ve_num = num, ve_content_id = e, ve_content_len = len, ve_ctime = fe_time E n\<rparr>, (x, Suc n, st)))"

definition add_version ::
  "('w, 'v, 't) fs_env \<Rightarrow> txid \<Rightarrow> content \<Rightarrow> (bool, error, ('v, 't) nstate) eff"
where
  "add_version E tls c =
     bind_s get_s (\<lambda>(x, _).
     bind_s (assert_s (is_file x)) (\<lambda>_.
     bind_s (on_nsto (dedup_content (fe_store E) tls c)) (\<lambda>(no_dup, e).
     bind_s (version_new E (curr_ver_num x + 1) e (content_len c)) (\<lambda>v.
     bind_s (modify_s (\<lambda>(x, p). (x\<lparr>fn_mtime := ve_ctime v, fn_vers := fn_vers x @ [v]\<rparr>, p))) (\<lambda>_.
     bind_s (if no_dup then on_nsto (content_link (fe_store E) tls c) else ret_s ()) (\<lambda>_.
     bind_s get_s (\<lambda>(x, _).
     bind_s (if unat (op_version_limit (fn_opts x)) < length (fn_vers x)
             then bind_s (lift_r (unwrap_opt (if fn_vers x = [] then None else Some (hd (fn_vers x))))) (\<lambda>v.
                  remove_version E tls (ve_num v))
             else ret_s ()) (\<lambda>_. ret_s no_dup))))))))"

text \<open>\<open>clone_current_content\<close> and \<open>version_reader\<close>; a reader is opened through a weak reference.\<close>

definition content_of :: "('w, 'v, 't) fs_env \<Rightarrow> txid \<Rightarrow> eid \<Rightarrow> (content, error, ('v, 't) store_world) eff" where
  "content_of E tls e =
     bind_s (get_content (fe_store E) e) (\<lambda>r. on_ctn r (deref_run tls))"

definition clone_current_content ::
  "('w, 'v, 't) fs_env \<Rightarrow> txid \<Rightarrow> fnode \<Rightarrow> (content, error, ('v, 't) store_world) eff"
where
  "clone_current_content E tls x =
     bind_s (lift_r (curr_ver x)) (\<lambda>v. content_of E tls (ve_content_id v))"

definition version_reader ::
  "('w, 'v, 't) fs_env \<Rightarrow> txid \<Rightarrow> nat \<Rightarrow> fnode \<Rightarrow> (ctn_reader, error, ('v, 't) store_world) eff"
where
  "version_reader E tls n x =
     bind_s (lift_r (ok_or (fnode_ver n x) NoVersion)) (\<lambda>v.
     bind_s upgrade (\<lambda>_.
     bind_s (content_of E tls (ve_content_id v)) (\<lambda>c. ret_s (ctn_reader_new c))))"

end
