(* ===== verification/Fnode_Tree.thy ===== *)
theory Fnode_Tree
  imports Fnode
begin

text \<open>
  The rest of \<open>src/src/fs/fnode.rs\<close>: loading, adding and removing children, the reader and the writer
  of a file, and setting its length.
\<close>

subsection \<open>Children\<close>

text \<open>
  \<open>CowCache::get\<close> on the cache of nodes, while the node \<open>locked\<close> is locked for writing: a cow that
  cannot be read counts as pinned.
\<close>

definition node_cache_get ::
  "('w, 'v, 't) fs_env \<Rightarrow> nat \<Rightarrow> eid \<Rightarrow> (nat, error, ('v, 't) fs_world) eff"
where
  "node_cache_get E locked e = (\<lambda>s.
     case get_refresh (se_lru (fe_store E)) (fw_cache s) e of
       (Some r, c) \<Rightarrow> (Ok r, s\<lparr>fw_cache := c\<rparr>)
     | (None, c) \<Rightarrow>
         (case fe_load E e (sw_vol (fw_sto s)) of
            (Ok cow, v) \<Rightarrow>
              (let r = fw_next s; h = (fw_nodes s)(r := cow)
               in (Ok r, s\<lparr>fw_nodes := h, fw_next := Suc r, fw_live := (fw_live s)(r := True),
                     fw_cache := snd (lru_insert (se_lru (fe_store E)) count_meter
                       (\<lambda>q. q = locked \<or> cow_pinned h q) c e r),
                     fw_sto := (fw_sto s)\<lparr>sw_vol := v\<rparr>\<rparr>))
          | (Err err, v) \<Rightarrow> (Err err, s\<lparr>fw_cache := c, fw_sto := (fw_sto s)\<lparr>sw_vol := v\<rparr>\<rparr>)
          | (Panic, v) \<Rightarrow> (Panic, s\<lparr>fw_cache := c, fw_sto := (fw_sto s)\<lparr>sw_vol := v\<rparr>\<rparr>)))"

text \<open>\<open>load_child\<close> on the node in arm \<open>a\<close> of the cell \<open>p\<close>, which is also the reference to itself.\<close>

definition load_child ::
  "('w, 'v, 't) fs_env \<Rightarrow> string \<Rightarrow> nat \<Rightarrow> arm \<Rightarrow> (nat, error, ('v, 't) fs_world) eff"
where
  "load_child E name p a =
     bind_s (on_inner p a (\<lambda>(x, n, st). case get_refresh (fe_names E) (fn_sub_nodes x) name of
         (q, c) \<Rightarrow> (Ok q, (x\<lparr>fn_sub_nodes := c\<rparr>, n, st)))) (\<lambda>q.
     bind_s get_s (\<lambda>s.
       if (case q of None \<Rightarrow> False | Some r \<Rightarrow> fw_live s r) then ret_s (the q)
       else
       bind_s (on_inner p a (\<lambda>(x, y). (Ok (find (\<lambda>c. ch_name c = name) (fn_kids x)), (x, y)))) (\<lambda>k.
       bind_s (lift_r (ok_or k NotFound)) (\<lambda>c.
       bind_s (node_cache_get E p (ch_id c)) (\<lambda>r.
       bind_s (on_node r make_mut_naive) (\<lambda>b.
       bind_s (put_inner r b (\<lambda>x. x\<lparr>fn_parent := Some p\<rparr>)) (\<lambda>_.
       bind_s (put_inner p a (\<lambda>x. x\<lparr>fn_sub_nodes :=
         snd (lru_insert (fe_names E) count_meter no_pin (fn_sub_nodes x) name r)\<rparr>)) (\<lambda>_.
       ret_s r))))))))"

definition child :: "('w, 'v, 't) fs_env \<Rightarrow> nat \<Rightarrow> string \<Rightarrow> (nat, error, ('v, 't) fs_world) eff" where
  "child E p name = bind_s (on_node p make_mut_naive) (\<lambda>a. load_child E name p a)"

fun read_entries_of ::
  "('w, 'v, 't) fs_env \<Rightarrow> nat \<Rightarrow> arm \<Rightarrow> path \<Rightarrow> string list \<Rightarrow> (dir_entry list, error, ('v, 't) fs_world) eff"
where
  "read_entries_of E p a pt [] = ret_s []"
| "read_entries_of E p a pt (name # names) =
     bind_s (load_child E name p a) (\<lambda>r.
     bind_s (node_at r) (\<lambda>x.
     bind_s (lift_r (fnode_metadata x)) (\<lambda>m.
     bind_s (read_entries_of E p a pt names) (\<lambda>es.
       ret_s (\<lparr>de_path = path_join pt name, de_name = name, de_metadata = m\<rparr> # es)))))"

definition fnode_read_dir ::
  "('w, 'v, 't) fs_env \<Rightarrow> nat \<Rightarrow> path \<Rightarrow> (dir_entry list, error, ('v, 't) fs_world) eff"
where
  "fnode_read_dir E p pt =
     bind_s (on_node p make_mut_naive) (\<lambda>a.
     bind_s (on_inner p a (\<lambda>(x, y). (Ok x, (x, y)))) (\<lambda>x.
       if \<not> is_dir x then lift_r (Err NotDir)
       else read_entries_of E p a pt (children_names x)))"

definition add_child :: "('w, 'v, 't) fs_env \<Rightarrow> nat \<Rightarrow> nat \<Rightarrow> string \<Rightarrow> (unit, error, ('v, 't) fs_world) eff" where
  "add_child E p r name =
     bind_s (node_mut E p) (\<lambda>a.
     bind_s (node_id r) (\<lambda>e.
     bind_s (node_at r) (\<lambda>kid.
     bind_s (put_inner p a (\<lambda>x. x\<lparr>fn_kids := fn_kids x @ [child_entry_new e (fn_ftype kid) name]\<rparr>)) (\<lambda>_.
     bind_s (node_mut E r) (\<lambda>b.
     bind_s (put_inner r b (\<lambda>x. x\<lparr>fn_parent := Some p\<rparr>)) (\<lambda>_.
     bind_s (put_inner p a (\<lambda>x. x\<lparr>fn_sub_nodes :=
       snd (lru_insert (fe_names E) count_meter no_pin (fn_sub_nodes x) name r)\<rparr>)) (\<lambda>_.
     bind_s (now E) (\<lambda>t. put_inner p a (\<lambda>x. x\<lparr>fn_mtime := t\<rparr>)))))))))"

definition remove_from_parent :: "('w, 'v, 't) fs_env \<Rightarrow> nat \<Rightarrow> (unit, error, ('v, 't) fs_world) eff" where
  "remove_from_parent E r =
     bind_s (node_at r) (\<lambda>x. case fn_parent x of
         None \<Rightarrow> lift_r (Err IsRoot)
       | Some p \<Rightarrow>
           bind_s (node_mut E p) (\<lambda>a.
           bind_s (node_id r) (\<lambda>e.
           bind_s (on_inner p a (\<lambda>(x, y). (Ok x, (x, y)))) (\<lambda>par.
           bind_s (lift_r (ok_or (position (\<lambda>c. ch_id c = e) (fn_kids par)) NotFound)) (\<lambda>i.
           put_inner p a (\<lambda>x. x\<lparr>fn_sub_nodes := snd (lru_remove (fe_names E) count_meter (fn_sub_nodes x)
                                        (ch_name (fn_kids par ! i))),
                               fn_kids := take i (fn_kids x) @ drop (Suc i) (fn_kids x)\<rparr>))))))"

definition alloc_node :: "fnode cow \<Rightarrow> (nat, error, ('v, 't) fs_world) eff" where
  "alloc_node c = (\<lambda>s. (Ok (fw_next s),
     s\<lparr>fw_nodes := (fw_nodes s)(fw_next s := c), fw_live := (fw_live s)(fw_next s := True), fw_next := Suc (fw_next s)\<rparr>))"

text \<open>A method of a node that is not in a cow yet.\<close>

definition on_local :: "fnode \<Rightarrow> ('a, error, ('v, 't) nstate) eff \<Rightarrow> (fnode, error, ('v, 't) fs_world) eff" where
  "on_local x m = (\<lambda>s. case m (x, fw_ticks s, fw_sto s) of
     (q, (x', n, st)) \<Rightarrow> (bind_r q (\<lambda>_. Ok x'), s\<lparr>fw_ticks := n, fw_sto := st\<rparr>))"

definition new_under ::
  "('w, 'v, 't) fs_env \<Rightarrow> nat \<Rightarrow> string \<Rightarrow> file_type \<Rightarrow> options \<Rightarrow> (nat, error, ('v, 't) fs_world) eff"
where
  "new_under E p name ft op =
     bind_s (node_mut E p) (\<lambda>a.
     bind_s (on_inner p a (\<lambda>(x, y). (Ok x, (x, y)))) (\<lambda>par.
       if \<not> is_dir par then lift_r (Err NotDir)
       else
       bind_s (now E) (\<lambda>ct.
       bind_s (now E) (\<lambda>mt.
       bind_s get_s (\<lambda>s.
       bind_s (if is_file (fnode_new ft op ct mt)
               then bind_s (lift_r (content_new (fe_store E))) (\<lambda>c.
                    on_local (fnode_new ft op ct mt) (add_version E (fw_tls s) c))
               else ret_s (fnode_new ft op ct mt)) (\<lambda>kid.
       bind_s (on_fsto (into_cow (fe_store E) (fw_tls s) kid)) (\<lambda>cow.
       bind_s (alloc_node cow) (\<lambda>r.
       bind_s (add_child E p r name) (\<lambda>_. ret_s r)))))))))"

subsection \<open>Commit\<close>

text \<open>\<open>on_commit\<close> of a node: deleted children leave the list of loaded children.\<close>

definition fnode_on_commit :: "('w, 'v, 't) fs_env \<Rightarrow> ('v, 't) fs_world \<Rightarrow> fnode \<Rightarrow> fnode" where
  "fnode_on_commit E s x = x\<lparr>fn_sub_nodes := (fn_sub_nodes x)\<lparr>lmap :=
     lhm_retain (fe_names E) (\<lambda>_ r. \<not> (fw_live s r \<and> cow_deleted (fw_nodes s r))) (lmap (fn_sub_nodes x))\<rparr>\<rparr>"

subsection \<open>Reader and writer\<close>

record fnode_reader =
  fr_ver :: nat
  fr_rdr :: ctn_reader

definition fnode_reader_new ::
  "('w, 'v, 't) fs_env \<Rightarrow> nat \<Rightarrow> nat \<Rightarrow> (fnode_reader, error, ('v, 't) fs_world) eff"
where
  "fnode_reader_new E r n =
     bind_s (node_at r) (\<lambda>x.
     bind_s get_s (\<lambda>s.
     bind_s (on_fsto (version_reader E (fw_tls s) n x)) (\<lambda>c. ret_s \<lparr>fr_ver = n, fr_rdr = c\<rparr>)))"

definition fnode_reader_current ::
  "('w, 'v, 't) fs_env \<Rightarrow> nat \<Rightarrow> (fnode_reader, error, ('v, 't) fs_world) eff"
where
  "fnode_reader_current E r =
     bind_s (node_at r) (\<lambda>x.
     bind_s get_s (\<lambda>s.
     bind_s (on_fsto (version_reader E (fw_tls s) (curr_ver_num x) x)) (\<lambda>c.
       ret_s \<lparr>fr_ver = curr_ver_num x, fr_rdr = c\<rparr>)))"

definition fnode_read ::
  "('w, 'v, 't) fs_env \<Rightarrow> nat \<Rightarrow> (bytes, io_error, fnode_reader \<times> ('v, 't) fs_world) eff"
where
  "fnode_read E n = (\<lambda>(f, s). case ctn_read (fe_store E) (fw_tls s) n (fr_rdr f, fw_sto s) of
     (q, (c, st)) \<Rightarrow> (q, (f\<lparr>fr_rdr := c\<rparr>, s\<lparr>fw_sto := st\<rparr>)))"

definition fnode_seek :: "seek_from \<Rightarrow> fnode_reader \<Rightarrow> fnode_reader" where
  "fnode_seek pos f = f\<lparr>fr_rdr := ctn_seek pos (fr_rdr f)\<rparr>"

text \<open>The writer is that of the store; its handle is the reference \<open>r\<close> of the node.\<close>

definition fnode_writer_new ::
  "('w, 'v, 't) fs_env \<Rightarrow> nat \<Rightarrow> txid \<Rightarrow> ('w store_writer, error, ('v, 't) fs_world) eff"
where
  "fnode_writer_new E r t =
     bind_s (node_at r) (\<lambda>x.
     bind_s get_s (\<lambda>s. on_fsto (store_writer_new (fe_store E) (fw_tls s) t (fn_chk_map x))))"

type_synonym ('w, 'v, 't) fwstate = "'w store_writer \<times> ('v, 't) fs_world"

definition on_wr :: "(txid \<Rightarrow> ('a, 'e, ('w, 'v, 't) wrstate) eff) \<Rightarrow> ('a, 'e, ('w, 'v, 't) fwstate) eff" where
  "on_wr m = (\<lambda>(w, s). case m (fw_tls s) (w, fw_sto s) of (q, (w', st)) \<Rightarrow> (q, (w', s\<lparr>fw_sto := st\<rparr>)))"

definition fnode_write :: "('w, 'v, 't) fs_env \<Rightarrow> bytes \<Rightarrow> (nat, io_error, ('w, 'v, 't) fwstate) eff" where
  "fnode_write E b = on_wr (\<lambda>tls. store_write (fe_store E) tls b)"

definition fnode_flush :: "('w, 'v, 't) fs_env \<Rightarrow> (unit, io_error, ('w, 'v, 't) fwstate) eff" where
  "fnode_flush E = on_wr (\<lambda>tls. store_flush (fe_store E) tls)"

definition fnode_wseek :: "('w, 'v, 't) fs_env \<Rightarrow> seek_from \<Rightarrow> (nat, io_error, ('w, 'v, 't) fwstate) eff" where
  "fnode_wseek E pos = on_wr (\<lambda>tls. store_seek (fe_store E) tls pos)"

definition fnode_finish ::
  "('w, 'v, 't) fs_env \<Rightarrow> nat \<Rightarrow> 'w store_writer \<Rightarrow> (nat, error, ('v, 't) fs_world) eff"
where
  "fnode_finish E r w =
     bind_s (on_fsto upgrade) (\<lambda>_.
     bind_s (on_fsto upgrade) (\<lambda>_.
     bind_s (\<lambda>s. case store_finish (fe_store E) (fw_tls s) (w, fw_sto s) of
               (q, (_, st)) \<Rightarrow> (q, s\<lparr>fw_sto := st\<rparr>)) (\<lambda>(stg, chk).
     bind_s (node_at r) (\<lambda>x.
     bind_s get_s (\<lambda>s.
     bind_s (on_fsto (clone_current_content E (fw_tls s) x)) (\<lambda>c.
     bind_s (on_fsto (merge_from (fe_store E) (fw_tls s) stg c)) (\<lambda>c1.
     bind_s (node_mut E r) (\<lambda>a.
     bind_s (on_inner r a (add_version E (fw_tls s) c1)) (\<lambda>no_dup.
     bind_s (if no_dup then ret_s ()
             else on_inner r a (on_chk (content_unlink_weak (fe_store E) (fw_tls s) stg))) (\<lambda>_.
     bind_s (put_inner r a (\<lambda>x. x\<lparr>fn_chk_map := chk\<rparr>)) (\<lambda>_.
     ret_s (content_end_offset stg))))))))))))"

subsection \<open>Setting the length\<close>

text \<open>A write of data takes some of it.\<close>

lemma kr_write_pos:
  assumes "kr_write P D b s = (Ok n, s')" and "b \<noteq> []"
  shows "0 < n \<and> n \<le> length b"
  using assms by (auto simp: kr_write_def Let_def bind_r_Ok_iff split: prod.splits if_splits)

lemma fnode_write_pos: "fnode_write E b s = (Ok n, s') \<Longrightarrow> b \<noteq> [] \<Longrightarrow> 0 < n \<and> n \<le> length b"
  by (auto simp: fnode_write_def on_wr_def store_write_def on_chunker_def zoom_def bind_s_Ok_iff
      split: prod.splits dest: kr_write_pos)

definition FILL_LEN :: nat where "FILL_LEN = 16 * 1024"

text \<open>The loop that appends zeros from a buffer of \<open>n\<close> bytes.\<close>

function fill_zeros ::
  "('w, 'v, 't) fs_env \<Rightarrow> nat \<Rightarrow> nat \<Rightarrow> ('w, 'v, 't) fwstate \<Rightarrow> unit io_res \<times> ('w, 'v, 't) fwstate"
where
  "fill_zeros E n left s =
     (if left = 0 \<or> n = 0 then (Ok (), s)
      else case fnode_write E (replicate (min left n) 0) s of
          (Ok k, s') \<Rightarrow> fill_zeros E n (left - k) s'
        | (Err err, s') \<Rightarrow> (Err err, s')
        | (Panic, s') \<Rightarrow> (Panic, s'))"
  by pat_completeness auto
termination
  by (relation "measure (\<lambda>(E, n, left, s). left)") (auto dest!: fnode_write_pos [OF sym])

declare fill_zeros.simps [simp del]

definition fnode_set_len ::
  "('w, 'v, 't) fs_env \<Rightarrow> nat \<Rightarrow> nat \<Rightarrow> txid \<Rightarrow> (unit, error, ('v, 't) fs_world) eff"
where
  "fnode_set_len E r len t =
     bind_s (node_at r) (\<lambda>x.
     bind_s (lift_r (curr_len x)) (\<lambda>cl.
       if cl < len
       then bind_s (fnode_writer_new E r t) (\<lambda>w.
            bind_s (\<lambda>s. case bind_s (fnode_wseek E (SeekStart cl)) (\<lambda>_.
                             fill_zeros E (min (len - cl) FILL_LEN) (len - cl)) (w, s) of
                     (q, (w', s')) \<Rightarrow> (bind_r (map_err from_io_error q) (\<lambda>_. Ok w'), s')) (\<lambda>w'.
            bind_s (fnode_finish E r w') (\<lambda>_. ret_s ())))
       else if len < cl
       then bind_s (on_fsto upgrade) (\<lambda>_.
            bind_s (on_fsto upgrade) (\<lambda>_.
            bind_s get_s (\<lambda>s.
            bind_s (on_fsto (clone_current_content E (fw_tls s) x)) (\<lambda>c.
            bind_s (on_fsto (content_truncate (fe_store E) (fw_tls s) len c)) (\<lambda>c1.
            bind_s (node_mut E r) (\<lambda>a.
            bind_s (on_inner r a (add_version E (fw_tls s) c1)) (\<lambda>_. ret_s ())))))))
       else ret_s ()))"

end
