(* ===== verification/Fs.thy ===== *)
theory Fs
  imports Fnode_Tree
begin

text \<open>
  \<open>src/src/fs/fs.rs\<close>: the operations of the file system on paths. The immutable fields of \<open>Fs\<close> are
  the record \<open>fs\<close>; nodes, caches, store and the thread's transaction are the state. The lock of
  exclusive transactions is dropped as soon as it is taken, so that \<open>run_all_exclusive\<close> is
  \<open>run_all\<close>.
\<close>

record fs =
  fs_root :: nat
  fs_opts :: options
  fs_read_only :: bool

definition FNODE_CACHE_SIZE :: nat where "FNODE_CACHE_SIZE = 16"

text \<open>\<open>TxHandle::run_all\<close> and \<open>run\<close>\<close>

definition run_all ::
  "('w, 'v, 't) fs_env \<Rightarrow> txid \<Rightarrow> ('a, error, ('v, 't) fs_world) eff \<Rightarrow> ('a, error, ('v, 't) fs_world) eff"
where
  "run_all E t oper = (\<lambda>s. case oper s of
       (Ok x, s1) \<Rightarrow> bind_s (fe_commit E t) (\<lambda>_. ret_s x) s1
     | (Err err, s1) \<Rightarrow> bind_s (fe_abort E t) (\<lambda>_. lift_r (Err err)) s1
     | (Panic, s1) \<Rightarrow> (Panic, s1))"

definition in_new_trans ::
  "('w, 'v, 't) fs_env \<Rightarrow> (txid \<Rightarrow> ('a, error, ('v, 't) fs_world) eff) \<Rightarrow> ('a, error, ('v, 't) fs_world) eff"
where
  "in_new_trans E oper = bind_s (fe_begin E) (\<lambda>t. run_all E t (oper t))"

text \<open>\<open>if self.read_only { return Err(Error::ReadOnly); }\<close>\<close>

definition not_read_only :: "fs \<Rightarrow> (unit, error, 's) eff" where
  "not_read_only F = (if fs_read_only F then lift_r (Err ReadOnly) else ret_s ())"

definition guard :: "bool \<Rightarrow> error \<Rightarrow> (unit, error, 's) eff" where
  "guard b err = (if b then lift_r (Err err) else ret_s ())"

subsection \<open>Paths\<close>

fun walk :: "('w, 'v, 't) fs_env \<Rightarrow> nat \<Rightarrow> string list \<Rightarrow> (nat, error, ('v, 't) fs_world) eff" where
  "walk E r [] = ret_s r"
| "walk E r (name # names) = bind_s (child E r name) (\<lambda>q. walk E q names)"

definition resolve :: "('w, 'v, 't) fs_env \<Rightarrow> fs \<Rightarrow> path \<Rightarrow> (nat, error, ('v, 't) fs_world) eff" where
  "resolve E F p =
     bind_s (guard (\<not> has_root p) InvalidPath) (\<lambda>_. walk E (fs_root F) (map comp_str (tl p)))"

definition resolve_parent ::
  "('w, 'v, 't) fs_env \<Rightarrow> fs \<Rightarrow> path \<Rightarrow> (nat \<times> string, error, ('v, 't) fs_world) eff"
where
  "resolve_parent E F p =
     bind_s (lift_r (ok_or (path_parent p) IsRoot)) (\<lambda>pp.
     bind_s (lift_r (ok_or (path_file_name p) InvalidPath)) (\<lambda>name.
     bind_s (resolve E F pp) (\<lambda>r. ret_s (r, name))))"

text \<open>\<open>resolve\<close> where \<open>NotFound\<close> is not an error.\<close>

definition resolve_opt :: "('w, 'v, 't) fs_env \<Rightarrow> fs \<Rightarrow> path \<Rightarrow> (nat option, error, ('v, 't) fs_world) eff" where
  "resolve_opt E F p =
     or_else_s (bind_s (resolve E F p) (\<lambda>r. ret_s (Some r)))
       (\<lambda>err. if error_eq err NotFound then ret_s None else lift_r (Err err))"

definition open_fnode :: "('w, 'v, 't) fs_env \<Rightarrow> fs \<Rightarrow> path \<Rightarrow> (nat, error, ('v, 't) fs_world) eff" where
  "open_fnode E F p = resolve E F p"

subsection \<open>Creating\<close>

definition create_fnode ::
  "('w, 'v, 't) fs_env \<Rightarrow> fs \<Rightarrow> path \<Rightarrow> file_type \<Rightarrow> options \<Rightarrow> (nat, error, ('v, 't) fs_world) eff"
where
  "create_fnode E F p ft op =
     bind_s (not_read_only F) (\<lambda>_.
     bind_s (resolve_parent E F p) (\<lambda>(r, name).
     bind_s (node_at r) (\<lambda>x.
     bind_s (guard (\<not> is_dir x) NotDir) (\<lambda>_.
     bind_s (guard (has_child name x) AlreadyExists) (\<lambda>_.
     in_new_trans E (\<lambda>_. new_under E r name ft op))))))"

function create_dir_all :: "('w, 'v, 't) fs_env \<Rightarrow> fs \<Rightarrow> path \<Rightarrow> ('v, 't) fs_world \<Rightarrow> unit res \<times> ('v, 't) fs_world" where
  "create_dir_all E F p s =
     (case create_fnode E F p Dir options_default s of
        (Ok _, s1) \<Rightarrow> (Ok (), s1)
      | (Panic, s1) \<Rightarrow> (Panic, s1)
      | (Err err, s1) \<Rightarrow>
          if \<not> error_eq err NotFound then (Err err, s1)
          else case path_parent p of
              None \<Rightarrow> (Err IsRoot, s1)
            | Some pp \<Rightarrow>
                (case create_dir_all E F pp s1 of
                   (Ok _, s2) \<Rightarrow> bind_s (create_fnode E F p Dir options_default) (\<lambda>_. ret_s ()) s2
                 | (Err err, s2) \<Rightarrow> (Err err, s2)
                 | (Panic, s2) \<Rightarrow> (Panic, s2)))"
  by pat_completeness auto
termination
  by (relation "measure (\<lambda>(E, F, p, s). length p)") (auto simp: path_parent_def split: if_splits)

declare create_dir_all.simps [simp del]

subsection \<open>Reading\<close>

definition read_dir :: "('w, 'v, 't) fs_env \<Rightarrow> fs \<Rightarrow> path \<Rightarrow> (dir_entry list, error, ('v, 't) fs_world) eff" where
  "read_dir E F p = bind_s (resolve E F p) (\<lambda>r. fnode_read_dir E r p)"

definition fs_metadata :: "('w, 'v, 't) fs_env \<Rightarrow> fs \<Rightarrow> path \<Rightarrow> (metadata, error, ('v, 't) fs_world) eff" where
  "fs_metadata E F p =
     bind_s (resolve E F p) (\<lambda>r. bind_s (node_at r) (\<lambda>x. lift_r (fnode_metadata x)))"

definition fs_history :: "('w, 'v, 't) fs_env \<Rightarrow> fs \<Rightarrow> path \<Rightarrow> (file_version list, error, ('v, 't) fs_world) eff" where
  "fs_history E F p =
     bind_s (resolve E F p) (\<lambda>r.
     bind_s (node_at r) (\<lambda>x.
     bind_s (guard (is_dir x) IsDir) (\<lambda>_. ret_s (fnode_history x))))"

subsection \<open>Copying\<close>

text \<open>The target of a copy: an existing file, a new one, or nothing to do for the source itself.\<close>

definition copy_target ::
  "('w, 'v, 't) fs_env \<Rightarrow> fs \<Rightarrow> nat \<Rightarrow> options \<Rightarrow> path \<Rightarrow> (nat option, error, ('v, 't) fs_world) eff"
where
  "copy_target E F src op p =
     bind_s (resolve_opt E F p) (\<lambda>q. case q of
         Some tgt \<Rightarrow>
           if tgt = src then ret_s None
           else bind_s (node_at tgt) (\<lambda>x.
                bind_s (guard (\<not> is_file x) NotFile) (\<lambda>_. ret_s (Some tgt)))
       | None \<Rightarrow>
           bind_s (create_fnode E F p File op) (\<lambda>_.
           bind_s (open_fnode E F p) (\<lambda>tgt. ret_s (Some tgt))))"

definition copy_content ::
  "('w, 'v, 't) fs_env \<Rightarrow> fs \<Rightarrow> nat \<Rightarrow> nat \<Rightarrow> (unit, error, ('v, 't) fs_world) eff"
where
  "copy_content E F src tgt =
     bind_s (node_at src) (\<lambda>x.
     bind_s get_s (\<lambda>s.
     bind_s (on_fsto (clone_current_content E (fw_tls s) x)) (\<lambda>c.
     bind_s (node_mut E tgt) (\<lambda>a.
     bind_s (on_inner tgt a (add_version E (fw_tls s) c)) (\<lambda>no_dup.
     assert_s (\<not> (op_dedup_file (fs_opts F) \<and> no_dup)))))))"

definition fs_copy :: "('w, 'v, 't) fs_env \<Rightarrow> fs \<Rightarrow> path \<Rightarrow> path \<Rightarrow> (unit, error, ('v, 't) fs_world) eff" where
  "fs_copy E F from to =
     bind_s (not_read_only F) (\<lambda>_.
     bind_s (resolve E F from) (\<lambda>src.
     bind_s (node_at src) (\<lambda>x.
     bind_s (guard (\<not> is_file x) NotFile) (\<lambda>_.
     bind_s (copy_target E F src (fn_opts x) to) (\<lambda>q. case q of
         None \<Rightarrow> ret_s ()
       | Some tgt \<Rightarrow> in_new_trans E (\<lambda>_. copy_content E F src tgt))))))"

text \<open>
  Recursion over a directory tree has no bound that the code knows; \<open>None\<close> is a run that needs
  more levels than the given fuel.
\<close>

type_synonym ('a, 's) fuel_eff = "'s \<Rightarrow> ('a res \<times> 's) option"

definition once :: "('a, error, 's) eff \<Rightarrow> ('a, 's) fuel_eff" where
  "once m s = Some (m s)"

definition bind_f :: "('a, 's) fuel_eff \<Rightarrow> ('a \<Rightarrow> ('b, 's) fuel_eff) \<Rightarrow> ('b, 's) fuel_eff" where
  "bind_f m f s = (case m s of
       None \<Rightarrow> None
     | Some (Ok x, s1) \<Rightarrow> f x s1
     | Some (Err err, s1) \<Rightarrow> Some (Err err, s1)
     | Some (Panic, s1) \<Rightarrow> Some (Panic, s1))"

primrec for_f :: "('x \<Rightarrow> (unit, 's) fuel_eff) \<Rightarrow> 'x list \<Rightarrow> (unit, 's) fuel_eff" where
  "for_f f [] = once (ret_s ())"
| "for_f f (x # xs) = bind_f (f x) (\<lambda>_. for_f f xs)"

definition copy_dir_head ::
  "('w, 'v, 't) fs_env \<Rightarrow> fs \<Rightarrow> path \<Rightarrow> path \<Rightarrow> (dir_entry list, error, ('v, 't) fs_world) eff"
where
  "copy_dir_head E F from to =
     bind_s (guard (path_starts_with to from) InvalidArgument) (\<lambda>_.
     bind_s (resolve E F from) (\<lambda>src.
     bind_s (node_at src) (\<lambda>x.
     bind_s (guard (\<not> is_dir x) NotDir) (\<lambda>_.
     bind_s (resolve_opt E F to) (\<lambda>q.
     bind_s (case q of
         Some tgt \<Rightarrow>
           bind_s (assert_s (tgt \<noteq> src)) (\<lambda>_.
           bind_s (node_at tgt) (\<lambda>y. guard (\<not> is_dir y) NotDir))
       | None \<Rightarrow> bind_s (create_fnode E F to Dir options_default) (\<lambda>_. ret_s ())) (\<lambda>_.
     read_dir E F from))))))"

primrec copy_dir_all ::
  "nat \<Rightarrow> ('w, 'v, 't) fs_env \<Rightarrow> fs \<Rightarrow> path \<Rightarrow> path \<Rightarrow> (unit, ('v, 't) fs_world) fuel_eff"
where
  "copy_dir_all 0 E F from to = (\<lambda>s. None)"
| "copy_dir_all (Suc n) E F from to =
     bind_f (once (not_read_only F)) (\<lambda>_.
       if from = to then once (ret_s ())
       else bind_f (once (copy_dir_head E F from to)) (for_f (\<lambda>c.
              if md_ftype (de_metadata c) = File
              then once (fs_copy E F (de_path c) (path_join to (de_name c)))
              else copy_dir_all n E F (de_path c) (path_join to (de_name c)))))"

subsection \<open>Removing\<close>

definition cache_drop :: "('w, 'v, 't) fs_env \<Rightarrow> nat \<Rightarrow> (unit, error, ('v, 't) fs_world) eff" where
  "cache_drop E r = modify_s (\<lambda>s. s\<lparr>fw_cache :=
     snd (cache_remove (se_lru (fe_store E)) (co_id (fw_nodes s r)) (fw_cache s))\<rparr>)"

definition clear_node :: "('w, 'v, 't) fs_env \<Rightarrow> nat \<Rightarrow> (unit, error, ('v, 't) fs_world) eff" where
  "clear_node E r =
     bind_s (node_mut E r) (\<lambda>a. bind_s get_s (\<lambda>s. on_inner r a (clear_versions E (fw_tls s))))"

definition remove_file :: "('w, 'v, 't) fs_env \<Rightarrow> fs \<Rightarrow> path \<Rightarrow> (unit, error, ('v, 't) fs_world) eff" where
  "remove_file E F p =
     bind_s (not_read_only F) (\<lambda>_.
     bind_s (resolve E F p) (\<lambda>r.
     bind_s (node_at r) (\<lambda>x.
     bind_s (guard (\<not> is_file x) NotFile) (\<lambda>_.
     in_new_trans E (\<lambda>_.
       bind_s (remove_from_parent E r) (\<lambda>_.
       bind_s (clear_node E r) (\<lambda>_.
       bind_s (node_del E r) (\<lambda>_. cache_drop E r))))))))"

definition remove_dir :: "('w, 'v, 't) fs_env \<Rightarrow> fs \<Rightarrow> path \<Rightarrow> (unit, error, ('v, 't) fs_world) eff" where
  "remove_dir E F p =
     bind_s (not_read_only F) (\<lambda>_.
     bind_s (resolve E F p) (\<lambda>r.
     bind_s (node_at r) (\<lambda>x.
     bind_s (guard (\<not> is_dir x) NotDir) (\<lambda>_.
     bind_s (guard (is_root x) IsRoot) (\<lambda>_.
     bind_s (guard (0 < children_cnt x) NotEmpty) (\<lambda>_.
     in_new_trans E (\<lambda>_.
       bind_s (remove_from_parent E r) (\<lambda>_.
       bind_s (node_del E r) (\<lambda>_. cache_drop E r)))))))))"

primrec remove_dir_all ::
  "nat \<Rightarrow> ('w, 'v, 't) fs_env \<Rightarrow> fs \<Rightarrow> path \<Rightarrow> (unit, ('v, 't) fs_world) fuel_eff"
where
  "remove_dir_all 0 E F p = (\<lambda>s. None)"
| "remove_dir_all (Suc n) E F p =
     bind_f (once (read_dir E F p)) (\<lambda>es.
     bind_f (for_f (\<lambda>c. if md_ftype (de_metadata c) = File then once (remove_file E F (de_path c))
                        else remove_dir_all n E F (de_path c)) es) (\<lambda>_.
     once (or_else_s (remove_dir E F p) (\<lambda>err. if error_eq err IsRoot then ret_s () else lift_r (Err err)))))"

subsection \<open>Renaming\<close>

definition rename_check :: "fnode \<Rightarrow> fnode option \<Rightarrow> unit res" where
  "rename_check src tgt =
     (if is_root src then Err IsRoot
      else case tgt of
          None \<Rightarrow> Ok ()
        | Some t \<Rightarrow>
            if is_root t then Err IsRoot
            else if is_file src \<and> is_dir t then Err IsDir
            else if is_dir src \<and> is_file t then Err NotDir
            else if is_dir src \<and> 0 < children_cnt t then Err NotEmpty
            else Ok ())"

definition rename_body ::
  "('w, 'v, 't) fs_env \<Rightarrow> nat \<Rightarrow> nat option \<Rightarrow> nat \<Rightarrow> string \<Rightarrow> (unit, error, ('v, 't) fs_world) eff"
where
  "rename_body E src tgt par name =
     bind_s (remove_from_parent E src) (\<lambda>_.
     bind_s (case tgt of
         None \<Rightarrow> ret_s ()
       | Some t \<Rightarrow>
           bind_s (remove_from_parent E t) (\<lambda>_.
           bind_s (node_at t) (\<lambda>x.
           bind_s (if is_file x then clear_node E t else ret_s ()) (\<lambda>_.
           bind_s (node_del E t) (\<lambda>_. cache_drop E t))))) (\<lambda>_.
     add_child E par src name))"

definition rename :: "('w, 'v, 't) fs_env \<Rightarrow> fs \<Rightarrow> path \<Rightarrow> path \<Rightarrow> (unit, error, ('v, 't) fs_world) eff" where
  "rename E F from to =
     bind_s (not_read_only F) (\<lambda>_.
       if from = to then ret_s ()
       else
       bind_s (guard (path_starts_with to from) InvalidArgument) (\<lambda>_.
       bind_s (resolve E F from) (\<lambda>src.
       bind_s (resolve_opt E F to) (\<lambda>tgt.
       bind_s (node_at src) (\<lambda>x.
       bind_s (case tgt of
           None \<Rightarrow> lift_r (rename_check x None)
         | Some t \<Rightarrow> bind_s (node_at t) (\<lambda>y. lift_r (rename_check x (Some y)))) (\<lambda>_.
       bind_s (resolve_parent E F to) (\<lambda>(par, name).
       in_new_trans E (\<lambda>_. rename_body E src tgt par name))))))))"

end
