(* ===== verification/Fs_Resolve.thy ===== *)
theory Fs_Resolve
  imports Fs
begin

text \<open>
  Resolving a path follows the names in the directories, whatever is cached. A tree says which node,
  by its id, has which type and which children; a state between transactions shows a tree when the
  loaded nodes and the volume agree with it. Loading and caching keep the tree, and \<open>resolve\<close> finds
  the node that the names lead to in it.
\<close>

type_synonym ntree = "eid \<rightharpoonup> file_type \<times> child_entry list"

definition kid_of :: "child_entry list \<Rightarrow> string \<Rightarrow> eid option" where
  "kid_of ks name = map_option ch_id (find (\<lambda>c. ch_name c = name) ks)"

fun id_walk :: "ntree \<Rightarrow> eid \<Rightarrow> string list \<Rightarrow> eid option" where
  "id_walk V e [] = Some e"
| "id_walk V e (name # names) = (case V e of
      None \<Rightarrow> None
    | Some (t, ks) \<Rightarrow> (case kid_of ks name of None \<Rightarrow> None | Some e' \<Rightarrow> id_walk V e' names))"

subsection \<open>States that show a tree\<close>

abbreviation ids :: "('v, 't) fs_world \<Rightarrow> nat \<Rightarrow> eid" where
  "ids s \<equiv> (\<lambda>r. co_id (fw_nodes s r))"

text \<open>The loaded children of a node that are still alive are those its entries name.\<close>

definition subs_ok :: "nat \<Rightarrow> (nat \<Rightarrow> bool) \<Rightarrow> (nat \<Rightarrow> eid) \<Rightarrow> fnode \<Rightarrow> bool" where
  "subs_ok n live idf x \<longleftrightarrow> distinct (keys (lmap (fn_sub_nodes x))) \<and>
     (\<forall>name q. map_of (lmap (fn_sub_nodes x)) name = Some q \<longrightarrow> q < n \<and>
        (live q \<longrightarrow> kid_of (fn_kids x) name = Some (idf q)))"

definition cell_ok :: "ntree \<Rightarrow> nat \<Rightarrow> (nat \<Rightarrow> bool) \<Rightarrow> (nat \<Rightarrow> eid) \<Rightarrow> fnode cow \<Rightarrow> bool" where
  "cell_ok V n live idf c \<longleftrightarrow> (\<exists>x. slot_of c (co_arm c) = Some x \<and>
     V (co_id c) = Some (fn_ftype x, fn_kids x) \<and> subs_ok n live idf x)"

definition saved_ok :: "ntree \<Rightarrow> (eid \<rightharpoonup> fnode cow) \<Rightarrow> bool" where
  "saved_ok V d \<longleftrightarrow> (\<forall>e t ks. V e = Some (t, ks) \<longrightarrow> (\<forall>k \<in> set ks. V (ch_id k) \<noteq> None) \<and>
     (\<exists>c x. d e = Some c \<and> co_id c = e \<and> slot_of c (co_arm c) = Some x \<and> fn_ftype x = t \<and> fn_kids x = ks \<and>
        lmap (fn_sub_nodes x) = []))"

definition tree_ok ::
  "('v \<Rightarrow> bool) \<Rightarrow> ('v \<Rightarrow> eid \<rightharpoonup> fnode cow) \<Rightarrow> ntree \<Rightarrow> ('v, 't) fs_world \<Rightarrow> bool"
where
  "tree_ok vinv vnode V s \<longleftrightarrow> vinv (sw_vol (fw_sto s)) \<and> saved_ok V (vnode (sw_vol (fw_sto s))) \<and>
     (\<forall>r. fw_live s r \<longrightarrow> r < fw_next s \<and> cell_ok V (fw_next s) (fw_live s) (ids s) (fw_nodes s r)) \<and>
     distinct (keys (lmap (fw_cache s))) \<and>
     (\<forall>e r. map_of (lmap (fw_cache s)) e = Some r \<longrightarrow> fw_live s r \<and> ids s r = e)"

text \<open>What stays when nodes are looked up: nodes only become alive, and keep their ids.\<close>

definition loads_more :: "('v, 't) fs_world \<Rightarrow> ('v, 't) fs_world \<Rightarrow> bool" where
  "loads_more s s' \<longleftrightarrow> (\<forall>r. fw_live s r \<longrightarrow> fw_live s' r \<and> ids s' r = ids s r \<and>
     co_arm (fw_nodes s' r) = co_arm (fw_nodes s r)) \<and> fw_tls s' = fw_tls s"

lemma loads_more_trans: "loads_more s s' \<Longrightarrow> loads_more s' s'' \<Longrightarrow> loads_more s s''"
  by (simp add: loads_more_def)

lemma loads_more_refl [simp]: "loads_more s s"
  by (simp add: loads_more_def)

lemma subs_okD:
  "subs_ok n live idf x \<Longrightarrow> map_of (lmap (fn_sub_nodes x)) name = Some q \<Longrightarrow> live q \<Longrightarrow> kid_of (fn_kids x) name = Some (idf q)"
  by (auto simp: subs_ok_def)

lemma tree_cell:
  assumes "tree_ok vinv vnode V s" and "fw_live s r"
  obtains x where "slot_of (fw_nodes s r) (co_arm (fw_nodes s r)) = Some x"
    "V (ids s r) = Some (fn_ftype x, fn_kids x)" "subs_ok (fw_next s) (fw_live s) (ids s) x"
  using assms by (auto simp: tree_ok_def cell_ok_def)

text \<open>A change of the caches inside one node.\<close>

definition put_cell :: "nat \<Rightarrow> fnode \<Rightarrow> ('v, 't) fs_world \<Rightarrow> ('v, 't) fs_world" where
  "put_cell p x s = s\<lparr>fw_nodes := (fw_nodes s)(p := set_slot (co_arm (fw_nodes s p)) (Some x) (fw_nodes s p))\<rparr>"

lemma put_cell_simps [simp]:
  "fw_live (put_cell p x s) = fw_live s" "fw_next (put_cell p x s) = fw_next s" "fw_cache (put_cell p x s) = fw_cache s"
  "fw_sto (put_cell p x s) = fw_sto s" "fw_tls (put_cell p x s) = fw_tls s" "co_id (fw_nodes (put_cell p x s) q) = co_id (fw_nodes s q)"
  "co_arm (fw_nodes (put_cell p x s) q) = co_arm (fw_nodes s q)"
  "slot_of (fw_nodes (put_cell p x s) p) (co_arm (fw_nodes s p)) = Some x"
  by (auto simp: put_cell_def)

lemma put_cell_ok:
  assumes "tree_ok vinv vnode V s" and "fw_live s p"
    and "V (ids s p) = Some (fn_ftype x, fn_kids x)" and "subs_ok (fw_next s) (fw_live s) (ids s) x"
  shows "tree_ok vinv vnode V (put_cell p x s)"
proof -
  have "cell_ok V (fw_next s) (fw_live s) (ids s) (fw_nodes (put_cell p x s) r)" if "fw_live s r" for r
  proof (cases "r = p")
    case True
    with assms(3,4) show ?thesis by (simp add: cell_ok_def put_cell_def)
  next
    case False
    with assms(1) that show ?thesis by (simp add: tree_ok_def put_cell_def)
  qed
  with assms(1) show ?thesis by (simp add: tree_ok_def)
qed

lemma run_inner:
  assumes "slot_of (fw_nodes s p) (co_arm (fw_nodes s p)) = Some x"
    and "m (x, fw_ticks s, fw_sto s) = (q, (x', fw_ticks s, fw_sto s))"
  shows "on_inner p (co_arm (fw_nodes s p)) m s = (q, put_cell p x' s)"
  using assms by (simp add: on_inner_def put_cell_def)

lemma run_put:
  "slot_of (fw_nodes s p) (co_arm (fw_nodes s p)) = Some x \<Longrightarrow>
    put_inner p (co_arm (fw_nodes s p)) f s = (Ok (), put_cell p (f x) s)"
  unfolding put_inner_def by (rule run_inner) auto

lemma run_get:
  "slot_of (fw_nodes s p) (co_arm (fw_nodes s p)) = Some x \<Longrightarrow>
    on_inner p (co_arm (fw_nodes s p)) (\<lambda>(x, y). (Ok (f x), (x, y))) s = (Ok (f x), s)"
  by (simp add: on_inner_def set_slot_same)

lemma run_naive:
  "slot_of (fw_nodes s p) (co_arm (fw_nodes s p)) = Some x \<Longrightarrow>
    on_node p make_mut_naive s = (Ok (co_arm (fw_nodes s p)), s)"
  by (simp add: on_node_def zoom_def make_mut_naive_def cow_inner_def inner_by_def unwrap_opt_def)

subsection \<open>Looking up\<close>

text \<open>What the file system relies on when it loads a node from the volume.\<close>

text \<open>A child that has left the list of its parent and the cache.\<close>

definition forgotten :: "('v, 't) fs_world \<Rightarrow> nat \<Rightarrow> string \<Rightarrow> eid \<Rightarrow> bool" where
  "forgotten s p name e \<longleftrightarrow> map_of (lmap (fw_cache s)) e = None \<and>
     (case slot_of (fw_nodes s p) (co_arm (fw_nodes s p)) of
        None \<Rightarrow> False | Some x \<Rightarrow> map_of (lmap (fn_sub_nodes x)) name = None)"

locale node_loads =
  names: linked_hash_map "fe_names E" + lru: linked_hash_map "se_lru (fe_store E)"
  for E :: "('w, 'v, 't) fs_env" +
  fixes vinv :: "'v \<Rightarrow> bool" and vnode :: "'v \<Rightarrow> eid \<rightharpoonup> fnode cow"
  assumes load_node: "vinv v \<Longrightarrow> vnode v e = Some c \<Longrightarrow>
      \<exists>v'. fe_load E e v = (Ok c, v') \<and> vinv v' \<and> vnode v' = vnode v"
begin

abbreviation "tok \<equiv> tree_ok vinv vnode"

lemma cache_get_ok:
  assumes "tok V s" and "V e = Some (t, ks)"
  shows "\<exists>r s'. node_cache_get E p e s = (Ok r, s') \<and> tok V s' \<and> fw_live s' r \<and> ids s' r = e \<and> loads_more s s' \<and>
    (map_of (lmap (fw_cache s)) e = None \<longrightarrow> r = fw_next s)"
proof -
  let ?c = "(fw_cache s)\<lparr>lmap := lhm_refresh (se_lru (fe_store E)) (lmap (fw_cache s)) e\<rparr>"
  have d: "distinct (keys (lmap (fw_cache s)))" using assms(1) by (simp add: tree_ok_def)
  have m: "map_of (lmap ?c) = map_of (lmap (fw_cache s))" "distinct (keys (lmap ?c))"
    using lru.map_of_refresh [OF d] lru.refresh_distinct [OF d] by simp_all
  show ?thesis
  proof (cases "map_of (lmap (fw_cache s)) e")
    case (Some r)
    let ?s = "s\<lparr>fw_cache := ?c\<rparr>"
    have "node_cache_get E p e s = (Ok r, ?s)" using Some by (simp add: node_cache_get_def get_refresh_def)
    moreover have "tok V ?s" using assms(1) m by (simp add: tree_ok_def)
    ultimately show ?thesis using assms(1) Some by (auto simp: tree_ok_def loads_more_def)
  next
    case None
    have "vinv (sw_vol (fw_sto s))" "saved_ok V (vnode (sw_vol (fw_sto s)))" using assms(1) by (simp_all add: tree_ok_def)
    with assms(2) obtain c x where c: "vnode (sw_vol (fw_sto s)) e = Some c" "co_id c = e"
      "slot_of c (co_arm c) = Some x" "fn_ftype x = t" "fn_kids x = ks" "lmap (fn_sub_nodes x) = []"
      unfolding saved_ok_def by blast
    from load_node [OF \<open>vinv _\<close> c(1)] obtain v where v: "fe_load E e (sw_vol (fw_sto s)) = (Ok c, v)" "vinv v"
      "vnode v = vnode (sw_vol (fw_sto s))" by blast
    let ?r = "fw_next s" let ?h = "(fw_nodes s)(?r := c)" let ?l = "(fw_live s)(?r := True)"
    define c1 where "c1 = snd (lru_insert (se_lru (fe_store E)) count_meter (\<lambda>q. q = p \<or> cow_pinned ?h q) ?c e ?r)"
    let ?s = "s\<lparr>fw_nodes := ?h, fw_next := Suc ?r, fw_live := ?l, fw_cache := c1, fw_sto := (fw_sto s)\<lparr>sw_vol := v\<rparr>\<rparr>"
    have run: "node_cache_get E p e s = (Ok ?r, ?s)"
      using None v(1) by (simp add: node_cache_get_def get_refresh_def c1_def Let_def)
    note look = lru.lru_insert_lookup [OF m(2) c1_def, unfolded m(1)]
    have lt: "r < ?r" if "fw_live s r" for r using assms(1) that by (simp add: tree_ok_def)
    have idq: "ids ?s q = ids s q" if "fw_live s q" for q using lt [OF that] by simp
    have cell: "cell_ok V (Suc ?r) ?l (ids ?s) (?h r)" if "?l r" for r
    proof (cases "r = ?r")
      case True
      with c assms(2) show ?thesis by (auto simp: cell_ok_def subs_ok_def)
    next
      case False
      with that have "fw_live s r" by simp
      from tree_cell [OF assms(1) this] obtain y where y: "slot_of (fw_nodes s r) (co_arm (fw_nodes s r)) = Some y"
        "V (ids s r) = Some (fn_ftype y, fn_kids y)" "subs_ok (fw_next s) (fw_live s) (ids s) y" by blast
      then have "subs_ok (Suc ?r) ?l (ids ?s) y" by (fastforce simp: subs_ok_def less_Suc_eq)
      with y False show ?thesis by (auto simp: cell_ok_def)
    qed
    have "fw_live ?s q \<and> ids ?s q = j" if "map_of (lmap c1) j = Some q" for j q
      using look(2) [OF that] assms(1) lt c(2) by (auto simp: tree_ok_def split: if_splits)
    with cell look(1) v assms(1) have "tok V ?s" by (auto simp: tree_ok_def less_Suc_eq)
    moreover have "loads_more s ?s" using lt by (auto simp: loads_more_def)
    ultimately show ?thesis using run c by auto
  qed
qed

lemma load_child_ok:
  assumes ok: "tok V s" and p: "fw_live s p" and V: "V (ids s p) = Some (t, ks)"
  shows "\<exists>q s'. load_child E name p (co_arm (fw_nodes s p)) s = (q, s') \<and> tok V s' \<and> loads_more s s' \<and>
    (case kid_of ks name of
       None \<Rightarrow> q = Err NotFound
     | Some e \<Rightarrow> \<exists>r. q = Ok r \<and> fw_live s' r \<and> ids s' r = e \<and> (forgotten s p name e \<longrightarrow> r = fw_next s))"
proof -
  let ?a = "co_arm (fw_nodes s p)"
  from tree_cell [OF ok p] obtain x where x: "slot_of (fw_nodes s p) ?a = Some x"
    "V (ids s p) = Some (fn_ftype x, fn_kids x)" "subs_ok (fw_next s) (fw_live s) (ids s) x" by blast
  then have ks: "fn_kids x = ks" "fn_ftype x = t" using V by simp_all
  have d: "distinct (keys (lmap (fn_sub_nodes x)))" using x(3) by (simp add: subs_ok_def)
  let ?sub = "map_of (lmap (fn_sub_nodes x)) name"
  define x1 where "x1 = x\<lparr>fn_sub_nodes := snd (get_refresh (fe_names E) (fn_sub_nodes x) name)\<rparr>"
  let ?s1 = "put_cell p x1 s"
  have r1: "on_inner p ?a (\<lambda>(x, n, st). case get_refresh (fe_names E) (fn_sub_nodes x) name of
         (q, c) \<Rightarrow> (Ok q, (x\<lparr>fn_sub_nodes := c\<rparr>, n, st))) s = (Ok ?sub, ?s1)"
    using x(1) by (intro run_inner) (auto simp: x1_def get_refresh_def)
  have x1: "subs_ok (fw_next s) (fw_live s) (ids s) x1" "fn_kids x1 = ks" "fn_ftype x1 = t"
    using x(3) ks names.map_of_refresh [OF d] names.refresh_distinct [OF d]
    by (simp_all add: subs_ok_def x1_def get_refresh_def)
  have ok1: "tok V ?s1" using put_cell_ok [OF ok p _ x1(1)] V x1 by simp
  have r2: "on_inner p ?a (\<lambda>(x, y). (Ok (find (\<lambda>c. ch_name c = name) (fn_kids x)), (x, y))) ?s1 =
      (Ok (find (\<lambda>c. ch_name c = name) ks), ?s1)"
    using run_get [of ?s1 p x1 "\<lambda>x. find (\<lambda>c. ch_name c = name) (fn_kids x)"] x1(2) by simp
  show ?thesis
  proof (cases "\<exists>q. ?sub = Some q \<and> fw_live s q")
    case True
    then obtain q where q: "?sub = Some q" "fw_live s q" by blast
    with subs_okD [OF x(3)] ks have "kid_of ks name = Some (ids s q)" by simp
    moreover have "load_child E name p ?a s = (Ok q, ?s1)" using r1 q by (simp add: load_child_def)
    ultimately show ?thesis using ok1 q x(1) by (auto simp: loads_more_def forgotten_def)
  next
    case False
    then have dead: "\<not> (case ?sub of None \<Rightarrow> False | Some r \<Rightarrow> fw_live ?s1 r)" by (auto split: option.splits)
    show ?thesis
    proof (cases "find (\<lambda>c. ch_name c = name) ks")
      case None
      then have "load_child E name p ?a s = (Err NotFound, ?s1)"
        using r1 r2 dead by (simp add: load_child_def ok_or_def)
      then show ?thesis using ok1 None by (auto simp: loads_more_def kid_of_def)
    next
      case (Some k)
      then have "k \<in> set ks" by (auto simp: find_Some_iff)
      moreover have "saved_ok V (vnode (sw_vol (fw_sto s)))" using ok by (simp add: tree_ok_def)
      ultimately have "V (ch_id k) \<noteq> None" using V unfolding saved_ok_def by blast
      then obtain t1 ks1 where "V (ch_id k) = Some (t1, ks1)" by auto
      from cache_get_ok [OF ok1 this, of p] obtain r s2 where
        g: "node_cache_get E p (ch_id k) ?s1 = (Ok r, s2)" "tok V s2" "fw_live s2 r" "ids s2 r = ch_id k" "loads_more ?s1 s2"
        "map_of (lmap (fw_cache ?s1)) (ch_id k) = None \<longrightarrow> r = fw_next ?s1"
        by (elim exE conjE) (rule that)
      have p2: "fw_live s2 p" "ids s2 p = ids s p" "co_arm (fw_nodes s2 p) = ?a" using g(5) p by (simp_all add: loads_more_def)
      from tree_cell [OF g(2,3)] obtain y where y: "slot_of (fw_nodes s2 r) (co_arm (fw_nodes s2 r)) = Some y"
        "V (ids s2 r) = Some (fn_ftype y, fn_kids y)" "subs_ok (fw_next s2) (fw_live s2) (ids s2) y" by blast
      let ?y = "y\<lparr>fn_parent := Some p\<rparr>" let ?s3 = "put_cell r ?y s2"
      have ok3: "tok V ?s3" using put_cell_ok [OF g(2,3), of ?y] y by (simp add: subs_ok_def)
      have "fw_live ?s3 p" using p2 by simp
      from tree_cell [OF ok3 this] obtain z where z: "slot_of (fw_nodes ?s3 p) (co_arm (fw_nodes ?s3 p)) = Some z"
        "V (ids ?s3 p) = Some (fn_ftype z, fn_kids z)" "subs_ok (fw_next ?s3) (fw_live ?s3) (ids ?s3) z" by blast
      have kz: "fn_kids z = ks" "fn_ftype z = t" using z(2) p2 V by simp_all
      have dz: "distinct (keys (lmap (fn_sub_nodes z)))" using z(3) by (simp add: subs_ok_def)
      define sb where "sb = snd (lru_insert (fe_names E) count_meter no_pin (fn_sub_nodes z) name r)"
      let ?z = "z\<lparr>fn_sub_nodes := sb\<rparr>" let ?s4 = "put_cell p ?z ?s3"
      note look = names.lru_insert_lookup [OF dz sb_def]
      have r3: "r < fw_next s2" using g(2,3) by (simp add: tree_ok_def)
      have kid: "kid_of ks name = Some (ids s2 r)" using Some g(4) by (simp add: kid_of_def)
      have "subs_ok (fw_next ?s3) (fw_live ?s3) (ids ?s3) ?z"
      proof -
        have "q < fw_next s2 \<and> (fw_live s2 q \<longrightarrow> kid_of ks j = Some (ids s2 q))" if "map_of (lmap sb) j = Some q" for j q
          using look(2) [OF that] r3 kid z(3) kz by (auto simp: subs_ok_def split: if_splits)
        with look(1) kz show ?thesis by (simp add: subs_ok_def)
      qed
      then have ok4: "tok V ?s4" using put_cell_ok [OF ok3, of p ?z] p2 z(2) by simp
      have r5: "on_node r make_mut_naive s2 = (Ok (co_arm (fw_nodes s2 r)), s2)" using y(1) by (rule run_naive)
      have r6: "put_inner r (co_arm (fw_nodes s2 r)) (\<lambda>x. x\<lparr>fn_parent := Some p\<rparr>) s2 = (Ok (), ?s3)"
        using y(1) by (rule run_put)
      have r7: "put_inner p ?a (\<lambda>x. x\<lparr>fn_sub_nodes :=
          snd (lru_insert (fe_names E) count_meter no_pin (fn_sub_nodes x) name r)\<rparr>) ?s3 = (Ok (), ?s4)"
        using run_put [OF z(1)] p2 by (simp add: sb_def)
      have "load_child E name p ?a s = (Ok r, ?s4)"
        using r1 r2 dead Some g(1) r5 r6 r7 by (simp add: load_child_def ok_or_def)
      moreover have "loads_more s ?s4" using g(5) by (simp add: loads_more_def)
      ultimately show ?thesis using ok4 g(3,4,6) kid by (auto simp: forgotten_def)
    qed
  qed
qed

lemma child_ok:
  assumes ok: "tok V s" and p: "fw_live s p" and V: "V (ids s p) = Some (t, ks)"
  shows "\<exists>q s'. child E p name s = (q, s') \<and> tok V s' \<and> loads_more s s' \<and>
    (case kid_of ks name of
       None \<Rightarrow> q = Err NotFound
     | Some e \<Rightarrow> \<exists>r. q = Ok r \<and> fw_live s' r \<and> ids s' r = e \<and> (forgotten s p name e \<longrightarrow> r = fw_next s))"
proof -
  from tree_cell [OF ok p] obtain x where "slot_of (fw_nodes s p) (co_arm (fw_nodes s p)) = Some x" by blast
  then have "child E p name s = load_child E name p (co_arm (fw_nodes s p)) s"
    by (simp add: child_def run_naive)
  with load_child_ok [OF assms] show ?thesis by simp
qed

lemma walk_ok:
  assumes "tok V s" and "fw_live s p" and "V (ids s p) \<noteq> None"
  shows "\<exists>q s'. walk E p names s = (q, s') \<and> tok V s' \<and> loads_more s s' \<and>
    (case id_walk V (ids s p) names of
       None \<Rightarrow> q = Err NotFound
     | Some e \<Rightarrow> \<exists>r. q = Ok r \<and> fw_live s' r \<and> ids s' r = e)"
  using assms
proof (induction names arbitrary: s p)
  case Nil
  then show ?case by auto
next
  case (Cons name names)
  then obtain t ks where V: "V (ids s p) = Some (t, ks)" by auto
  from child_ok [OF Cons.prems(1,2) V, of name] obtain q s1 where
    c: "child E p name s = (q, s1)" "tok V s1" "loads_more s s1"
      "case kid_of ks name of None \<Rightarrow> q = Err NotFound | Some e \<Rightarrow> \<exists>r. q = Ok r \<and> fw_live s1 r \<and> ids s1 r = e"
    by (auto split: option.splits)
  show ?case
  proof (cases "kid_of ks name")
    case None
    with c V show ?thesis by auto
  next
    case (Some e)
    with c(4) obtain r where r: "q = Ok r" "fw_live s1 r" "ids s1 r = e" by auto
    have "V (ids s1 r) \<noteq> None"
      using tree_cell [OF c(2) r(2)] by fastforce
    from Cons.IH [OF c(2) r(2) this] c(1,3) r V Some loads_more_trans [OF c(3)] show ?thesis
      by (auto split: option.splits)
  qed
qed

end

text \<open>
  C25. Resolving a path gives the node the names lead to. In every state between transactions that
  shows a tree, whatever is cached or loaded, a path from the root that exists in the tree resolves to
  the node with that id, and every other path from the root to the error \<open>NotFound\<close>; the state still
  shows the tree. A relative path is refused.
\<close>

theorem resolve_follows_names:
  assumes "node_loads E vinv vnode" and "tree_ok vinv vnode V s" and "fw_live s (fs_root F)"
  shows "if has_root p then
      (\<exists>q s'. resolve E F p s = (q, s') \<and> tree_ok vinv vnode V s' \<and>
        (case id_walk V (ids s (fs_root F)) (map comp_str (tl p)) of
           None \<Rightarrow> q = Err NotFound
         | Some e \<Rightarrow> \<exists>r. q = Ok r \<and> fw_live s' r \<and> ids s' r = e))
    else resolve E F p s = (Err InvalidPath, s)"
proof (cases "has_root p")
  case True
  have "V (ids s (fs_root F)) \<noteq> None" using tree_cell [OF assms(2,3)] by fastforce
  from node_loads.walk_ok [OF assms this, of "map comp_str (tl p)"] True show ?thesis
    by (auto simp: resolve_def guard_def)
qed (simp add: resolve_def guard_def)

text \<open>
  C27. A file that is open can be loaded a second time: when a node that is still in use has left the
  bounded list of its parent and the bounded cache, looking it up gives a second node for the same
  entity, while the first one stays alive. From then on the two are changed and saved independently.
\<close>

theorem open_node_loaded_twice:
  assumes "node_loads E vinv vnode" and "tree_ok vinv vnode V s" and "fw_live s p"
    and "V (ids s p) = Some (t, ks)" and "kid_of ks name = Some e"
    and "fw_live s r0" and "ids s r0 = e" and "forgotten s p name e"
  shows "\<exists>r s'. child E p name s = (Ok r, s') \<and> r \<noteq> r0 \<and> fw_live s' r \<and> fw_live s' r0 \<and> ids s' r = ids s' r0"
proof -
  have "r0 < fw_next s" using assms(2,6) by (simp add: tree_ok_def)
  with node_loads.child_ok [OF assms(1-4), of name] assms(5-8) show ?thesis by (auto simp: loads_more_def)
qed

end
