(* ===== verification/Vol_Fs.thy ===== *)
theory Vol_Fs
  imports Vol_Store Fs_Resolve
begin

text \<open>
  The file system on the volume: nodes are loaded through the volume's armor (\<open>Cow::load\<close>), and the
  law that path resolution relies on holds for every storage layer on a back end that keeps its
  contract.
\<close>

definition vol_fs_env ::
  "'d st_env \<Rightarrow> (nat \<Rightarrow> nat) \<Rightarrow> (arm \<Rightarrow> bytes) \<Rightarrow> fnode cow item_ops \<Rightarrow> ('w, 'd storage, 't) store_env \<Rightarrow>
   (nat \<Rightarrow> nat) \<Rightarrow> (string, nat) lhm_ops \<Rightarrow> (txid, error, ('d storage, 't) fs_world) eff \<Rightarrow>
   (txid \<Rightarrow> (unit, error, ('d storage, 't) fs_world) eff) \<Rightarrow>
   (txid \<Rightarrow> (unit, error, ('d storage, 't) fs_world) eff) \<Rightarrow> ('w, 'd storage, 't) fs_env"
where
  "vol_fs_env D sz ser_arm IN S tm LN bg cm ab =
     \<lparr>fe_store = S, fe_time = tm, fe_names = LN, fe_load = vol_load D sz ser_arm IN,
      fe_begin = bg, fe_commit = cm, fe_abort = ab\<rparr>"

locale vol_fs =
  vol_store E inv wal adr blk L sz + names: linked_hash_map LN
  for E :: "'d st_env" and inv :: "'d \<Rightarrow> bool" and wal :: "'d \<Rightarrow> eid \<rightharpoonup> bytes"
    and adr :: "'d \<Rightarrow> eid \<rightharpoonup> bytes" and blk :: "'d \<Rightarrow> nat \<rightharpoonup> bytes" and L :: "(eid, nat) lhm_ops"
    and sz :: "nat \<Rightarrow> nat" and LN :: "(string, nat) lhm_ops"

sublocale vol_fs \<subseteq> nl: node_loads
  "vol_fs_env E sz ser_arm IN (vol_store_env E sz ser_arm IS IC L LC idg reg regd) tm LN bg cm ab"
  "vol_inv E inv adr blk" "vol_cow E sz ser_arm IN"
proof (intro node_loads.intro node_loads_axioms.intro)
  let ?F = "vol_fs_env E sz ser_arm IN (vol_store_env E sz ser_arm IS IC L LC idg reg regd) tm LN bg cm ab"
  show "linked_hash_map (fe_names ?F)" using names.linked_hash_map_axioms by (simp add: vol_fs_env_def)
  show "linked_hash_map (se_lru (fe_store ?F))"
    using lru.linked_hash_map_axioms by (simp add: vol_fs_env_def vol_store_env_def)
  fix v e c
  assume "vol_inv E inv adr blk v" and "vol_cow E sz ser_arm IN v e = Some c"
  then show "\<exists>v'. fe_load ?F e v = (Ok c, v') \<and> vol_inv E inv adr blk v' \<and>
      vol_cow E sz ser_arm IN v' = vol_cow E sz ser_arm IN v"
    using vol_load_law [of v ser_arm IN e c] by (auto simp: vol_fs_env_def)
qed

interpretation mem_fs: vol_fs mem_env mem_inv mem_wal mem_adr mem_blk list_lhm "\<lambda>_. 32" list_lhm
  by unfold_locales

end
