(* ===== verification/Fnode_Versions.thy ===== *)
theory Fnode_Versions
  imports Fnode
begin

text \<open>
  The versions of a file: they are numbered without gaps, the newest is the last, and at most as many
  are kept as the options of the file say.
\<close>

definition versions_ok :: "fnode \<Rightarrow> bool" where
  "versions_ok x \<longleftrightarrow> 0 < op_version_limit (fn_opts x) \<and>
     length (fn_vers x) \<le> unat (op_version_limit (fn_opts x)) \<and>
     (\<exists>a > 0. map ve_num (fn_vers x) = [a..<a + length (fn_vers x)])"

lemma on_nsto_frame: "on_nsto m (x, n, st) = (r, (x', n', st')) \<Longrightarrow> x' = x"
  by (auto simp: on_nsto_def zoom_def split: prod.splits)

lemma on_chk_frame:
  "on_chk m (x, n, st) = (r, (x', n', st')) \<Longrightarrow>
    fn_vers x' = fn_vers x \<and> fn_opts x' = fn_opts x \<and> fn_ftype x' = fn_ftype x"
  by (auto simp: on_chk_def zoom_def split: prod.splits)

lemma remove_version_ok:
  assumes "remove_version E tls num (x, n, st) = (Ok (), (x', n', st'))"
  shows "\<exists>i. position (\<lambda>v. ve_num v = num) (fn_vers x) = Some i \<and>
    fn_vers x' = take i (fn_vers x) @ drop (Suc i) (fn_vers x) \<and> fn_opts x' = fn_opts x \<and> fn_ftype x' = fn_ftype x"
  using assms
  by (auto simp: remove_version_def bind_s_Ok_iff ok_or_Ok_iff split: option.splits dest!: on_nsto_frame on_chk_frame)

lemma version_nums:
  assumes "map ve_num vs = [a..<a + length vs]"
  shows "i < length vs \<Longrightarrow> ve_num (vs ! i) = a + i" and "vs \<noteq> [] \<Longrightarrow> ve_num (last vs) + 1 = a + length vs"
proof -
  show n: "ve_num (vs ! i) = a + i" if "i < length vs" for i
    using that nth_map [of i vs ve_num] assms by simp
  show "ve_num (last vs) + 1 = a + length vs" if "vs \<noteq> []"
    using that n [of "length vs - 1"] by (simp add: last_conv_nth)
qed

lemma link_frame: "(if b then on_nsto m else ret_s ()) (x, n, st) = (r, (x', n', st')) \<Longrightarrow> x' = x"
  by (auto split: if_splits dest: on_nsto_frame)

text \<open>What a successful call has done before it looks at the limit.\<close>

lemma add_version_steps:
  assumes "add_version E tls c (x, n, st) = (Ok no_dup, (x', n', st'))"
  shows "\<exists>v x1 n1 st1. ve_num v = curr_ver_num x + 1 \<and> ve_content_len v = content_len c \<and>
    fn_vers x1 = fn_vers x @ [v] \<and> fn_opts x1 = fn_opts x \<and>
    (if unat (op_version_limit (fn_opts x)) < length (fn_vers x1)
     then bind_s (lift_r (unwrap_opt (if fn_vers x1 = [] then None else Some (hd (fn_vers x1))))) (\<lambda>v.
          remove_version E tls (ve_num v))
     else ret_s ()) (x1, n1, st1) = (Ok (), (x', n', st'))"
  using assms
  apply (clarsimp simp: add_version_def bind_s_Ok_iff version_new_def simp del: if_split split del: if_split
      split: prod.splits dest!: on_nsto_frame)
  subgoal for e n0 st0 x1 n1 st1
    by (frule link_frame, rule exI [of _ "\<lparr>ve_num = Suc (curr_ver_num x), ve_content_id = e,
        ve_content_len = content_len c, ve_ctime = fe_time E n0\<rparr>"], intro conjI exI [of _ x1] exI [of _ n1] exI [of _ st1])
      (simp_all split del: if_split)
  done

text \<open>
  C26. Writing a version: the new version is the last one, its number is one more than the previous
  one and its length is that of the content; only when the limit is exceeded the oldest version is
  dropped. So the numbers stay without gaps and the limit is kept.
\<close>

theorem add_version_keeps_limit:
  assumes "add_version E tls c (x, n, st) = (Ok no_dup, (x', n', st'))" and ok: "versions_ok x"
  shows "versions_ok x' \<and> curr_ver_num x' = curr_ver_num x + 1 \<and>
    ve_content_len (last (fn_vers x')) = content_len c \<and>
    butlast (fn_vers x') =
      drop (Suc (length (fn_vers x)) - unat (op_version_limit (fn_opts x))) (fn_vers x)"
proof -
  let ?vs = "fn_vers x" let ?lim = "unat (op_version_limit (fn_opts x))"
  from ok obtain a where a: "0 < a" "map ve_num ?vs = [a..<a + length ?vs]" and lim: "0 < ?lim" "length ?vs \<le> ?lim"
    "0 < op_version_limit (fn_opts x)"
    by (auto simp: versions_ok_def unat_gt_0 word_gt_0)
  have num: "?vs \<noteq> [] \<Longrightarrow> curr_ver_num x + 1 = a + length ?vs"
    using version_nums(2) [OF a(2)] by (simp add: curr_ver_num_def)
  from add_version_steps [OF assms(1)] obtain v x1 n1 st1 where
    v: "ve_num v = curr_ver_num x + 1" "ve_content_len v = content_len c"
    and x1: "fn_vers x1 = ?vs @ [v]" "fn_opts x1 = fn_opts x"
    and ev: "(if ?lim < length (fn_vers x1)
             then bind_s (lift_r (unwrap_opt (if fn_vers x1 = [] then None else Some (hd (fn_vers x1))))) (\<lambda>v.
                  remove_version E tls (ve_num v))
             else ret_s ()) (x1, n1, st1) = (Ok (), (x', n', st'))" by metis
  show ?thesis
  proof (cases "?lim < length (fn_vers x1)")
    case False
    then have "x' = x1" using ev by simp
    moreover have "map ve_num (fn_vers x1) = [b..<b + length (fn_vers x1)]" if "b = (if ?vs = [] then 1 else a)" for b
      using that a v(1) x1 num by (auto simp: curr_ver_num_def)
    ultimately show ?thesis
      using False a(1) lim x1 v by (auto simp: versions_ok_def curr_ver_num_def intro: exI [of _ "if ?vs = [] then 1 else a"])
  next
    case True
    then have len: "length ?vs = ?lim" using lim(2) x1 by simp
    then have ne: "?vs \<noteq> []" using lim by auto
    from True ev x1 have "remove_version E tls (ve_num (hd (fn_vers x1))) (x1, n1, st1) = (Ok (), (x', n', st'))"
      by (auto simp: bind_s_Ok_iff unwrap_opt_def)
    from remove_version_ok [OF this] obtain i where i:
      "position (\<lambda>w. ve_num w = ve_num (hd (fn_vers x1))) (fn_vers x1) = Some i"
      "fn_vers x' = take i (fn_vers x1) @ drop (Suc i) (fn_vers x1)" "fn_opts x' = fn_opts x1" by blast
    then have "i = 0" using x1 ne by (cases ?vs) auto
    with i x1 ne have vs': "fn_vers x' = tl ?vs @ [v]" by (cases ?vs) auto
    have "map ve_num (tl ?vs @ [v]) = [Suc a..<Suc a + length (tl ?vs @ [v])]"
    proof -
      have "map ve_num (tl ?vs) = [Suc a..<a + length ?vs]" using a(2) by (simp add: map_tl tl_upt)
      moreover have "length (tl ?vs @ [v]) = length ?vs" "0 < length ?vs" using ne by simp_all
      ultimately show ?thesis using num [OF ne] v(1) by (simp add: Suc_le_eq)
    qed
    then show ?thesis
      using vs' i(3) x1(2) lim len v ne a(1)
      by (auto simp: versions_ok_def curr_ver_num_def drop_Suc intro: exI [of _ "Suc a"])
  qed
qed

text \<open>
  Removed versions are not freed: when the store does not deduplicate files, removing a version
  takes it out of the list and leaves the store as it is, so that its content is neither unlinked nor
  deleted.
\<close>

lemma removed_version_not_freed:
  assumes "(cow_deref tls (sw_store st) :: store res) = Ok sr" and "\<not> sr_dedup_file sr"
    and "position (\<lambda>v. ve_num v = num) (fn_vers x) = Some i"
  shows "remove_version E tls num (x, n, st) =
    (Ok (), (x\<lparr>fn_vers := take i (fn_vers x) @ drop (Suc i) (fn_vers x)\<rparr>, n, st))"
  using assms
  by (simp add: remove_version_def ok_or_def on_nsto_def zoom_def deref_content_def on_sto_def deref_run_def)

end
