(* ===== verification/Reference_Fs.thy ===== *)
theory Reference_Fs
  imports Fs_Resolve Fnode_Versions
begin

text \<open>
  A small concrete file system: a volume that is a table of saved nodes, and a transaction manager that
  commits and aborts the cows of the running transaction. The theorems of the file system are applied
  to it, and one operation is run on it.
\<close>

definition all_nodes :: "(fnode cow \<Rightarrow> fnode cow res) \<Rightarrow> txid \<Rightarrow> ('v, 't) fs_world \<Rightarrow> nat \<Rightarrow> fnode cow" where
  "all_nodes f t s r = (if co_txid (fw_nodes s r) = Some t
     then (case f (fw_nodes s r) of Ok c \<Rightarrow> c | _ \<Rightarrow> fw_nodes s r) else fw_nodes s r)"

definition ref_begin :: "(txid, error, ('v, 't) fs_world) eff" where
  "ref_begin = (\<lambda>s. if fw_tls s \<noteq> 0 then (Err InTrans, s) else (Ok 1, s\<lparr>fw_tls := 1\<rparr>))"

definition ref_commit :: "txid \<Rightarrow> (unit, error, ('v, 't) fs_world) eff" where
  "ref_commit t = modify_s (\<lambda>s. s\<lparr>fw_nodes := all_nodes cow_complete_commit t s, fw_tls := 0\<rparr>)"

definition ref_abort :: "txid \<Rightarrow> (unit, error, ('v, 't) fs_world) eff" where
  "ref_abort t = modify_s (\<lambda>s. s\<lparr>fw_nodes := all_nodes cow_abort t s, fw_tls := 0\<rparr>)"

definition tab_store_env :: "(unit, eid \<rightharpoonup> fnode cow, unit) store_env" where
  "tab_store_env = \<lparr>se_hash = (\<lambda>b. b), se_eid = (\<lambda>n. [of_nat n, 100]), se_lru = list_lhm, se_chunks = list_lhm,
     se_reg = (\<lambda>_ _ _ _. ret_s ()), se_reg_data = (\<lambda>_ _ _. ret_s ()),
     se_load_seg = (\<lambda>_. lift_r (Err NotFound)), se_load_ctn = (\<lambda>_. lift_r (Err NotFound)),
     se_read = (\<lambda>_. lift_r (Err NotFound)), se_new = (\<lambda>_. ret_s ()),
     se_write = (\<lambda>b. ret_s (length b)), se_finish = ret_s ()\<rparr>"

definition tab_env :: "(unit, eid \<rightharpoonup> fnode cow, unit) fs_env" where
  "tab_env = \<lparr>fe_store = tab_store_env, fe_time = (\<lambda>n. n), fe_names = list_lhm,
     fe_load = (\<lambda>e v. (case v e of None \<Rightarrow> Err NotFound | Some c \<Rightarrow> Ok c, v)),
     fe_begin = ref_begin, fe_commit = ref_commit, fe_abort = ref_abort\<rparr>"

interpretation tab: node_loads tab_env "\<lambda>_. True" "\<lambda>v. v"
  by (intro node_loads.intro node_loads_axioms.intro)
    (simp_all add: tab_env_def tab_store_env_def list_map.linked_hash_map_axioms)

text \<open>A root directory with two files.\<close>

definition tab_node :: "file_type \<Rightarrow> child_entry list \<Rightarrow> fnode" where
  "tab_node t ks = (fnode_new t options_default 0 0)\<lparr>fn_kids := ks\<rparr>"

definition tab_cow :: "eid \<Rightarrow> fnode \<Rightarrow> fnode cow" where
  "tab_cow e x = \<lparr>co_id = e, co_seq = 0, co_arm = Left, co_left = Some x, co_right = None, co_txid = None, co_action = None\<rparr>"

definition tab_root :: fnode where
  "tab_root = tab_node Dir [child_entry_new [2] File ''a'', child_entry_new [3] File ''b'']"

definition tab_vol :: "eid \<rightharpoonup> fnode cow" where
  "tab_vol = [[1] \<mapsto> tab_cow [1] tab_root, [2] \<mapsto> tab_cow [2] (tab_node File []), [3] \<mapsto> tab_cow [3] (tab_node File [])]"

definition tab_sto :: "(eid \<rightharpoonup> fnode cow, unit) store_world" where
  "tab_sto = \<lparr>sw_store = cow_new [9] \<lparr>sr_chunker_params = params_new, sr_dedup_file = False, sr_content_map = Map.empty\<rparr>,
     sw_segs = (\<lambda>_. cow_default), sw_ctns = (\<lambda>_. cow_default),
     sw_datas = (\<lambda>_. segdata_new []), sw_next = 0, sw_content_cache = lru_new 16, sw_seg_cache = lru_new 16,
     sw_segdata_cache = lru_new 16, sw_vol = tab_vol, sw_tx = (), sw_draws = 0, sw_alive = True\<rparr>"

definition tab_world :: "(eid \<rightharpoonup> fnode cow, unit) fs_world" where
  "tab_world = \<lparr>fw_nodes = (\<lambda>_. tab_cow [1] tab_root), fw_next = 1, fw_live = (\<lambda>r. r = 0), fw_cache = lru_new 16,
     fw_sto = tab_sto, fw_ticks = 0, fw_tls = 0, fw_closed = False\<rparr>"

definition tab_fs :: fs where
  "tab_fs = \<lparr>fs_root = 0, fs_opts = options_default, fs_read_only = False\<rparr>"

subsection \<open>Its tree\<close>

lemmas tab_defs = tab_env_def tab_store_env_def tab_world_def tab_fs_def tab_sto_def tab_vol_def tab_cow_def tab_root_def tab_node_def fnode_new_def options_default_def DEFAULT_VERSION_LIMIT_def default_sub_nodes_def lru_new_def child_entry_new_def chunk_map_new_def SUB_NODES_CNT_def

lemmas fs_run_defs = guard_def child_def load_child_def on_node_def zoom_def make_mut_naive_def cow_inner_def inner_by_def unwrap_opt_def on_inner_def put_inner_def slot_of_def set_slot_def get_refresh_def node_cache_get_def ok_or_def Let_def lru_insert_def list_lhm_def count_meter_def add_used_def no_pin_def

lemmas fs_tx_defs = node_at_def deref_run_def cow_deref_def in_new_trans_def run_all_def ref_begin_def ref_commit_def all_nodes_def rename_body_def remove_from_parent_def add_child_def node_mut_def make_mut_def cow_add_to_trans_def cow_precheck_def has_other_def other_inner_def node_id_def now_def cow_complete_commit_def cow_toggle_def leave_trans_def lru_remove_def in_trans_def

definition tab_tree :: ntree where
  "tab_tree = [[1] \<mapsto> (Dir, [child_entry_new [2] File ''a'', child_entry_new [3] File ''b'']),
     [2] \<mapsto> (File, []), [3] \<mapsto> (File, [])]"

definition tab_opened :: "(eid \<rightharpoonup> fnode cow, unit) fs_world" where
  "tab_opened = tab_world\<lparr>fw_nodes := (\<lambda>r. if r = 0 then tab_cow [1] tab_root else tab_cow [2] (tab_node File [])),
     fw_next := 2, fw_live := (\<lambda>r. r < 2)\<rparr>"

lemma tab_saved: "saved_ok tab_tree tab_vol"
  by (auto simp: saved_ok_def tab_tree_def tab_defs slot_of_def)

lemma tab_trees: "tree_ok (\<lambda>_. True) (\<lambda>v. v) tab_tree tab_world" "tree_ok (\<lambda>_. True) (\<lambda>v. v) tab_tree tab_opened"
  using tab_saved
  by (auto simp: tree_ok_def cell_ok_def subs_ok_def tab_opened_def tab_world_def tab_sto_def tab_tree_def
      tab_cow_def tab_root_def tab_node_def fnode_new_def default_sub_nodes_def lru_new_def slot_of_def)

theorem resolve_follows_names_witness:
  "\<exists>r s'. resolve tab_env tab_fs [RootDir, Normal ''b''] tab_world = (Ok r, s') \<and> ids s' r = [3]"
proof -
  have "fw_live tab_world (fs_root tab_fs)" by (simp add: tab_world_def tab_fs_def)
  from resolve_follows_names [OF tab.node_loads_axioms tab_trees(1) this, of "[RootDir, Normal ''b'']"]
  show ?thesis by (auto simp: has_root_def tab_defs tab_tree_def kid_of_def)
qed

theorem open_node_loaded_twice_witness:
  "\<exists>r s'. child tab_env 0 ''a'' tab_opened = (Ok r, s') \<and> r \<noteq> 1 \<and> fw_live s' r \<and> fw_live s' 1 \<and> ids s' r = ids s' 1"
  by (rule open_node_loaded_twice [OF tab.node_loads_axioms tab_trees(2), of 0 Dir
        "[child_entry_new [2] File ''a'', child_entry_new [3] File ''b'']" _ "[2]"])
    (simp_all add: tab_opened_def tab_defs tab_tree_def kid_of_def forgotten_def slot_of_def)

theorem add_version_keeps_limit_witness:
  "\<exists>v st. fn_vers (fst (snd (add_version tab_env 1 \<lparr>ct_ents = el_new, ct_mtree = \<lparr>mt_len = 0, mt_nodes = []\<rparr>, ct_leaves = lv_new\<rparr>
       ((tab_node File [])\<lparr>fn_vers := [\<lparr>ve_num = 1, ve_content_id = [7], ve_content_len = 5, ve_ctime = 0\<rparr>]\<rparr>, 3, tab_sto)))) = [v] \<and>
     ve_num v = 2 \<and> ve_content_len v = 0"
proof -
  let ?x = "(tab_node File [])\<lparr>fn_vers := [\<lparr>ve_num = 1, ve_content_id = [7], ve_content_len = 5, ve_ctime = 0\<rparr>]\<rparr>"
  let ?c = "\<lparr>ct_ents = el_new, ct_mtree = \<lparr>mt_len = 0, mt_nodes = []\<rparr>, ct_leaves = lv_new\<rparr>"
  obtain x' n' st' where run: "add_version tab_env 1 ?c (?x, 3, tab_sto) = (Ok True, (x', n', st'))"
    by (simp add: add_version_def is_file_def tab_defs bind_s_def modify_s_def on_nsto_def zoom_def dedup_content_def on_sto_def
        deref_run_def cow_deref_def cow_new_def cow_inner_def inner_by_def slot_of_def unwrap_opt_def new_content_def into_cow_def
        draw_eid_def on_wtx_def into_cow_with_id_def cow_add_to_trans_def txid_current_def cow_precheck_def Let_def
        version_new_def content_link_def el_link_def el_new_def remove_version_def ok_or_def deref_content_def arm_default_def)
  have ok: "versions_ok ?x" by (simp add: versions_ok_def tab_defs)
  from add_version_keeps_limit [OF run ok] run show ?thesis
    by (cases "fn_vers x'" rule: rev_cases) (auto simp: tab_defs curr_ver_num_def versions_ok_def content_len_def el_new_def)
qed

end
