(* ===== verification/File.thy ===== *)
theory File
  imports Fs
begin

text \<open>
  \<open>src/src/file.rs\<close>: an open file. It has a position, perhaps a reader on the current version, and
  during a write a writer and the handle of its transaction, which stays the transaction of the thread
  until the write is finished.
\<close>

record 'w rfile =
  fl_node :: nat
  fl_pos :: nat
  fl_rdr :: "fnode_reader option"
  fl_wtr :: "'w store_writer option"
  fl_tx :: "txid option"
  fl_can_read :: bool
  fl_can_write :: bool

type_synonym ('w, 'v, 't) flstate = "'w rfile \<times> ('v, 't) fs_world"

definition file_new :: "nat \<Rightarrow> nat \<Rightarrow> bool \<Rightarrow> bool \<Rightarrow> 'w rfile" where
  "file_new r pos rd wr = \<lparr>fl_node = r, fl_pos = pos, fl_rdr = None, fl_wtr = None, fl_tx = None,
     fl_can_read = rd, fl_can_write = wr\<rparr>"

definition on_fw :: "('a, 'e, ('v, 't) fs_world) eff \<Rightarrow> ('a, 'e, ('w, 'v, 't) flstate) eff" where
  "on_fw m = zoom snd (\<lambda>s (f, _). (f, s)) m"

definition on_file :: "('w rfile \<Rightarrow> 'w rfile) \<Rightarrow> (unit, 'e, ('w, 'v, 't) flstate) eff" where
  "on_file g = modify_s (\<lambda>(f, s). (g f, s))"

definition check_closed :: "(unit, error, ('v, 't) fs_world) eff" where
  "check_closed = (\<lambda>s. (if fw_closed s then Err RepoClosed else Ok (), s))"

text \<open>The node of the file, and \<open>TxHandle::run\<close>.\<close>

definition file_node :: "(fnode, error, ('w, 'v, 't) flstate) eff" where
  "file_node = bind_s get_s (\<lambda>(f, _). on_fw (node_at (fl_node f)))"

definition tx_run ::
  "('w, 'v, 't) fs_env \<Rightarrow> txid \<Rightarrow> ('a, error, ('w, 'v, 't) flstate) eff \<Rightarrow> ('a, error, ('w, 'v, 't) flstate) eff"
where
  "tx_run E t oper = or_else_s oper (\<lambda>err. bind_s (on_fw (fe_abort E t)) (\<lambda>_. lift_r (Err err)))"

subsection \<open>Queries\<close>

definition file_metadata :: "(metadata, error, ('w, 'v, 't) flstate) eff" where
  "file_metadata = bind_s (on_fw check_closed) (\<lambda>_. bind_s file_node (\<lambda>x. lift_r (fnode_metadata x)))"

definition file_history :: "(file_version list, error, ('w, 'v, 't) flstate) eff" where
  "file_history = bind_s (on_fw check_closed) (\<lambda>_. bind_s file_node (\<lambda>x. ret_s (fnode_history x)))"

definition file_curr_version :: "(nat, error, ('w, 'v, 't) flstate) eff" where
  "file_curr_version = bind_s (on_fw check_closed) (\<lambda>_. bind_s file_node (\<lambda>x. ret_s (curr_ver_num x)))"

definition file_curr_len :: "(nat, error, ('w, 'v, 't) flstate) eff" where
  "file_curr_len = bind_s file_node (\<lambda>x. lift_r (curr_len x))"

text \<open>\<open>VersionReader\<close>: the handle is the reference of the node.\<close>

type_synonym ver_reader = "nat \<times> fnode_reader"

definition version_reader_new ::
  "('w, 'v, 't) fs_env \<Rightarrow> nat \<Rightarrow> nat \<Rightarrow> (ver_reader, error, ('v, 't) fs_world) eff"
where
  "version_reader_new E r n = bind_s (fnode_reader_new E r n) (\<lambda>rdr. ret_s (r, rdr))"

definition version_reader_read ::
  "('w, 'v, 't) fs_env \<Rightarrow> nat \<Rightarrow> (bytes, io_error, ver_reader \<times> ('v, 't) fs_world) eff"
where
  "version_reader_read E n = (\<lambda>((h, r), s). case fnode_read E n (r, s) of (q, (r', s')) \<Rightarrow> (q, ((h, r'), s')))"

definition version_reader_seek :: "seek_from \<Rightarrow> ver_reader \<Rightarrow> ver_reader" where
  "version_reader_seek pos v = (fst v, fnode_seek pos (snd v))"

definition file_version_reader ::
  "('w, 'v, 't) fs_env \<Rightarrow> nat \<Rightarrow> (ver_reader, error, ('w, 'v, 't) flstate) eff"
where
  "file_version_reader E n =
     bind_s (on_fw check_closed) (\<lambda>_.
     bind_s get_s (\<lambda>(f, _).
     bind_s (guard (\<not> fl_can_read f) CannotRead) (\<lambda>_.
     on_fw (version_reader_new E (fl_node f) n))))"

definition version_reader_version :: "ver_reader \<Rightarrow> (file_version, error, ('v, 't) fs_world) eff" where
  "version_reader_version v =
     bind_s (node_at (fst v)) (\<lambda>x. lift_r (ok_or (fnode_ver (fr_ver (snd v)) x) NoVersion))"

definition seek_pos :: "seek_from \<Rightarrow> (nat, error, ('w, 'v, 't) flstate) eff" where
  "seek_pos pos =
     bind_s file_curr_len (\<lambda>cl.
     bind_s get_s (\<lambda>(f, _). ret_s (case pos of
         SeekStart p \<Rightarrow> p
       | SeekEnd d \<Rightarrow> as_usize (int cl + d)
       | SeekCurrent d \<Rightarrow> as_usize (d + int (fl_pos f)))))"

definition renew_reader :: "('w, 'v, 't) fs_env \<Rightarrow> (unit, error, ('w, 'v, 't) flstate) eff" where
  "renew_reader E =
     bind_s get_s (\<lambda>(f, _).
     bind_s (on_fw (fnode_reader_current E (fl_node f))) (\<lambda>r.
     on_file (\<lambda>f. f\<lparr>fl_rdr := Some (fnode_seek (SeekStart (fl_pos f)) r)\<rparr>)))"

definition renew_if_reader :: "('w, 'v, 't) fs_env \<Rightarrow> (unit, error, ('w, 'v, 't) flstate) eff" where
  "renew_if_reader E = bind_s get_s (\<lambda>(f, _). if fl_rdr f = None then ret_s () else renew_reader E)"

subsection \<open>Writing\<close>

definition file_set_len :: "('w, 'v, 't) fs_env \<Rightarrow> nat \<Rightarrow> (unit, error, ('w, 'v, 't) flstate) eff" where
  "file_set_len E len =
     bind_s (on_fw check_closed) (\<lambda>_.
     bind_s get_s (\<lambda>(f, _).
     bind_s (guard (fl_wtr f \<noteq> None) NotFinish) (\<lambda>_.
     bind_s (guard (\<not> fl_can_write f) CannotWrite) (\<lambda>_.
     bind_s (on_fw (on_fsto upgrade)) (\<lambda>_.
     bind_s (on_fw (in_new_trans E (\<lambda>t. fnode_set_len E (fl_node f) len t))) (\<lambda>_.
     renew_if_reader E))))))"

text \<open>A method of the writer, which the file holds.\<close>

definition on_wtr :: "('a, 'e, ('w, 'v, 't) fwstate) eff \<Rightarrow> ('a, 'e, ('w, 'v, 't) flstate) eff" where
  "on_wtr m = (\<lambda>(f, s). case fl_wtr f of
       None \<Rightarrow> (Panic, (f, s))
     | Some w \<Rightarrow> (case m (w, s) of (q, (w', s')) \<Rightarrow> (q, (f\<lparr>fl_wtr := Some w'\<rparr>, s'))))"

definition begin_write :: "('w, 'v, 't) fs_env \<Rightarrow> (unit, error, ('w, 'v, 't) flstate) eff" where
  "begin_write E =
     bind_s get_s (\<lambda>(f, _).
     bind_s (guard (\<not> fl_can_write f) CannotWrite) (\<lambda>_.
     bind_s (guard (fl_wtr f \<noteq> None) NotFinish) (\<lambda>_.
     bind_s (assert_s (fl_tx f = None)) (\<lambda>_.
     bind_s file_curr_len (\<lambda>cl.
     bind_s (if cl < fl_pos f
             then bind_s (file_set_len E (fl_pos f)) (\<lambda>_.
                  bind_s (seek_pos (SeekEnd 0)) (\<lambda>p. on_file (\<lambda>f. f\<lparr>fl_pos := p\<rparr>)))
             else ret_s ()) (\<lambda>_.
     bind_s (on_fw (on_fsto upgrade)) (\<lambda>_.
     bind_s (on_fw (fe_begin E)) (\<lambda>t.
     bind_s (tx_run E t
        (bind_s (on_fw (fnode_writer_new E (fl_node f) t)) (\<lambda>w.
         bind_s get_s (\<lambda>(f, _).
         bind_s (seek_pos (SeekStart (fl_pos f))) (\<lambda>p.
         (\<lambda>(f, s). case conv_s (map_err from_io_error) (fnode_wseek E (SeekStart p)) (w, s) of
            (q, (w', s')) \<Rightarrow> (bind_r q (\<lambda>_. Ok ()),
              (case q of Ok _ \<Rightarrow> f\<lparr>fl_wtr := Some w'\<rparr> | _ \<Rightarrow> f, s')))))))) (\<lambda>_.
     on_file (\<lambda>f. f\<lparr>fl_tx := Some t\<rparr>))))))))))"

definition file_finish :: "('w, 'v, 't) fs_env \<Rightarrow> (unit, error, ('w, 'v, 't) flstate) eff" where
  "file_finish E =
     bind_s (on_fw check_closed) (\<lambda>_.
     bind_s get_s (\<lambda>(f, _). case fl_wtr f of
         None \<Rightarrow> lift_r (Err NotWrite)
       | Some w \<Rightarrow>
           bind_s (on_file (\<lambda>f. f\<lparr>fl_wtr := None\<rparr>)) (\<lambda>_.
           bind_s (lift_r (unwrap_opt (fl_tx f))) (\<lambda>t.
           bind_s (on_file (\<lambda>f. f\<lparr>fl_tx := None\<rparr>)) (\<lambda>_.
           bind_s (on_fw (run_all E t (fnode_finish E (fl_node f) w))) (\<lambda>end_pos.
           bind_s (on_file (\<lambda>f. f\<lparr>fl_pos := end_pos\<rparr>)) (\<lambda>_.
           renew_if_reader E)))))))"

definition write_once :: "('w, 'v, 't) fs_env \<Rightarrow> bytes \<Rightarrow> (unit, error, ('w, 'v, 't) flstate) eff" where
  "write_once E b =
     bind_s (on_fw check_closed) (\<lambda>_.
     bind_s get_s (\<lambda>(f, _).
     bind_s (guard (fl_wtr f \<noteq> None) NotFinish) (\<lambda>_.
     bind_s (begin_write E) (\<lambda>_.
     bind_s get_s (\<lambda>(f, _).
     bind_s (lift_r (unwrap_opt (fl_tx f))) (\<lambda>t.
     bind_s (tx_run E t (conv_s (map_err from_io_error) (on_wtr (write_all (fnode_write E) b)))) (\<lambda>_.
     file_finish E)))))))"

text \<open>\<open>Write\<close> for a file: after an error the transaction has been aborted and the writer is dropped.\<close>

definition file_write :: "('w, 'v, 't) fs_env \<Rightarrow> bytes \<Rightarrow> (nat, io_error, ('w, 'v, 't) flstate) eff" where
  "file_write E b =
     bind_s (conv_s map_io_err (on_fw check_closed)) (\<lambda>_.
     bind_s get_s (\<lambda>(f, _).
     bind_s (if fl_wtr f = None then conv_s map_io_err (begin_write E) else ret_s ()) (\<lambda>_.
     bind_s get_s (\<lambda>(f, _).
     conv_s map_io_err
       (bind_s (lift_r (unwrap_opt (fl_tx f))) (\<lambda>t.
        or_else_s (tx_run E t (conv_s (map_err from_io_error) (on_wtr (fnode_write E b))))
          (\<lambda>err. bind_s (on_file (\<lambda>f. f\<lparr>fl_wtr := None, fl_tx := None\<rparr>)) (\<lambda>_. lift_r (Err err)))))))))"

definition file_flush :: "('w, 'v, 't) fs_env \<Rightarrow> (unit, io_error, ('w, 'v, 't) flstate) eff" where
  "file_flush E =
     bind_s (conv_s map_io_err (on_fw check_closed)) (\<lambda>_.
     bind_s get_s (\<lambda>(f, _).
       if fl_wtr f = None then lift_r (Err (io_error_new IoPermissionDenied (description CannotWrite)))
       else conv_s map_io_err
         (bind_s (lift_r (unwrap_opt (fl_tx f))) (\<lambda>t.
          tx_run E t (conv_s (map_err from_io_error) (on_wtr (fnode_flush E)))))))"

subsection \<open>Reading and seeking\<close>

definition file_read :: "('w, 'v, 't) fs_env \<Rightarrow> nat \<Rightarrow> (bytes, io_error, ('w, 'v, 't) flstate) eff" where
  "file_read E n =
     bind_s (conv_s map_io_err (on_fw check_closed)) (\<lambda>_.
     bind_s get_s (\<lambda>(f, _).
       if \<not> fl_can_read f then lift_r (Err (io_error_new IoOther (description CannotRead)))
       else
       bind_s (if fl_rdr f = None then conv_s map_io_err (renew_reader E) else ret_s ()) (\<lambda>_.
       (\<lambda>(f, s). case fl_rdr f of
          None \<Rightarrow> (Panic, (f, s))
        | Some r \<Rightarrow> (case fnode_read E n (r, s) of
            (q, (r', s')) \<Rightarrow> (q, (case q of
                Ok _ \<Rightarrow> f\<lparr>fl_rdr := Some r', fl_pos := cr_pos (fr_rdr r')\<rparr>
              | _ \<Rightarrow> f\<lparr>fl_rdr := Some r'\<rparr>, s')))))))"

definition file_seek :: "seek_from \<Rightarrow> (nat, io_error, ('w, 'v, 't) flstate) eff" where
  "file_seek pos =
     bind_s (conv_s map_io_err (on_fw check_closed)) (\<lambda>_.
     bind_s get_s (\<lambda>(f, _).
       if fl_wtr f \<noteq> None then lift_r (Err (io_error_new IoOther (description NotFinish)))
       else case fl_rdr f of
           Some r \<Rightarrow>
             bind_s (on_file (\<lambda>f. f\<lparr>fl_rdr := Some (fnode_seek pos r), fl_pos := cr_pos (fr_rdr (fnode_seek pos r))\<rparr>)) (\<lambda>_.
             ret_s (cr_pos (fr_rdr (fnode_seek pos r))))
         | None \<Rightarrow>
             bind_s (conv_s map_io_err (seek_pos pos)) (\<lambda>p.
             bind_s (on_file (\<lambda>f. f\<lparr>fl_pos := p\<rparr>)) (\<lambda>_. ret_s p))))"

end
