(* ===== verification/Super_Block.thy ===== *)
theory Super_Block
  imports Storage
begin

text \<open>
  \<open>src/src/volume/super_block.rs\<close>: the super block of a volume. Its head is plain, its body, which
  holds the master key, is encrypted with the hash of the password; both are kept in two copies. The
  serializer of bodies and the clock are parameters; \<open>now\<close> is the reading of the clock in a call.
\<close>

subsection \<open>The head\<close>

record sb_head =
  sh_salt :: bytes
  sh_cost :: cost
  sh_cipher :: cipher

definition HEAD_LEN :: nat where "HEAD_LEN = SALT_SIZE + 1 + 1"

definition head_seri :: "sb_head \<Rightarrow> bytes" where
  "head_seri h = sh_salt h @ [cost_to_u8 (sh_cost h)] @ [cipher_into_u8 (sh_cipher h)]"

definition head_deseri :: "bytes \<Rightarrow> sb_head res" where
  "head_deseri buf =
     (if length buf < HEAD_LEN then Err InvalidSuperBlk
      else bind_r (cost_from_u8 (buf ! SALT_SIZE)) (\<lambda>co.
           bind_r (cipher_from_u8 (buf ! (SALT_SIZE + 1))) (\<lambda>ci.
           Ok \<lparr>sh_salt = take SALT_SIZE buf, sh_cost = co, sh_cipher = ci\<rparr>)))"

subsection \<open>The body\<close>

record sb_body =
  sb_seq :: nat
  sb_volume_id :: eid
  sb_ver :: version
  sb_key :: key
  sb_uri :: string
  sb_compress :: bool
  sb_ctime :: nat
  sb_mtime :: nat
  sb_payload :: bytes

record 'd sb_env =
  be_st :: "'d st_env"
  be_ser :: "sb_body \<Rightarrow> bytes res"
  be_deser :: "bytes \<Rightarrow> sb_body res"

text \<open>A new sequence number and modification time, then the bytes.\<close>

definition next_body :: "nat \<Rightarrow> sb_body \<Rightarrow> sb_body" where
  "next_body now b = b\<lparr>sb_seq := sb_seq b + 1, sb_mtime := now\<rparr>"

definition body_seri :: "'d sb_env \<Rightarrow> nat \<Rightarrow> sb_body \<Rightarrow> bytes res" where
  "body_seri B now b = assert_r (sb_seq b + 1 < 2 ^ 64) (be_ser B (next_body now b))"

subsection \<open>Saving and loading\<close>

record super_blk =
  su_head :: sb_head
  su_body :: sb_body

definition SB_MAGIC :: bytes where "SB_MAGIC = [233, 239, 241, 251]"

definition le_bytes :: "nat \<Rightarrow> bytes" where
  "le_bytes n = map (\<lambda>i. of_nat (n div 256 ^ i mod 256)) [0 ..< 8]"

fun from_le_bytes :: "bytes \<Rightarrow> nat" where
  "from_le_bytes [] = 0"
| "from_le_bytes (b # bs) = unat b + 256 * from_le_bytes bs"

text \<open>The length, the body and the padding, which fill one block together with the head.\<close>

definition compose :: "crypto \<Rightarrow> nat \<Rightarrow> bytes \<Rightarrow> bytes res" where
  "compose c head_len body_buf =
     bind_r (sub_r BLK_SIZE head_len) (\<lambda>n.
     bind_r (decrypted_len c n) (\<lambda>new_len.
       if new_len < 8 + length body_buf then Err InvalidSuperBlk
       else Ok (le_bytes (length body_buf) @ body_buf @ replicate (new_len - (8 + length body_buf)) 0)))"

definition sg_put_super :: "'d st_env \<Rightarrow> bytes \<Rightarrow> nat \<Rightarrow> (unit, error, 'd storage) eff" where
  "sg_put_super E b suffix = on_depot (\<lambda>d. st_put_super_block (en_depot E) d b suffix)"

definition sg_get_super :: "'d st_env \<Rightarrow> nat \<Rightarrow> (bytes, error, 'd storage) eff" where
  "sg_get_super E suffix = on_depot (\<lambda>d. st_get_super_block (en_depot E) d suffix)"

text \<open>\<open>Result::and\<close> of two calls: both are made, and the first error is the result.\<close>

definition and_s :: "(unit, 'e, 's) eff \<Rightarrow> (unit, 'e, 's) eff \<Rightarrow> (unit, 'e, 's) eff" where
  "and_s m1 m2 = (\<lambda>s. case m1 s of
       (Panic, s1) \<Rightarrow> (Panic, s1)
     | (Ok _, s1) \<Rightarrow> m2 s1
     | (Err err, s1) \<Rightarrow> (case m2 s1 of (Panic, s2) \<Rightarrow> (Panic, s2) | (_, s2) \<Rightarrow> (Err err, s2)))"

definition sb_encrypt :: "'d st_env \<Rightarrow> crypto \<Rightarrow> bytes \<Rightarrow> key \<Rightarrow> (bytes, error, 'd storage) eff" where
  "sb_encrypt E c b k = (\<lambda>s.
     case encrypt_raw (en_sodium E) c (sg_draws s) b k SB_MAGIC of (r, n) \<Rightarrow> (r, s\<lparr>sg_draws := n\<rparr>))"

text \<open>
  \<open>save\<close>. The caller's copy, which gets the new sequence number, is dropped by every caller and
  not returned.
\<close>

definition sb_save :: "'d sb_env \<Rightarrow> nat \<Rightarrow> bytes \<Rightarrow> super_blk \<Rightarrow> (unit, error, 'd storage) eff" where
  "sb_save B now pwd sb =
     bind_s (lift_r (crypto_new (en_sodium (be_st B)) (sh_cost (su_head sb)) (sh_cipher (su_head sb)))) (\<lambda>c.
     bind_s (lift_r (hash_pwd (en_sodium (be_st B)) c pwd (sh_salt (su_head sb)))) (\<lambda>ph.
     bind_s (lift_r (body_seri B now (su_body sb))) (\<lambda>body_buf.
     bind_s (lift_r (compose c (length (head_seri (su_head sb))) body_buf)) (\<lambda>comp_buf.
     bind_s (sb_encrypt (be_st B) c comp_buf (ph_value ph)) (\<lambda>enc_buf.
       and_s (sg_put_super (be_st B) (head_seri (su_head sb) @ enc_buf) 0)
             (sg_put_super (be_st B) (head_seri (su_head sb) @ enc_buf) 1))))))"

text \<open>What is in the bytes of one arm.\<close>

definition parse_arm :: "'d sb_env \<Rightarrow> bytes \<Rightarrow> bytes \<Rightarrow> super_blk res" where
  "parse_arm B pwd buf =
     bind_r (head_deseri buf) (\<lambda>h.
     bind_r (crypto_new (en_sodium (be_st B)) (sh_cost h) (sh_cipher h)) (\<lambda>c.
     bind_r (hash_pwd (en_sodium (be_st B)) c pwd (sh_salt h)) (\<lambda>ph.
     bind_r (decrypt_with_ad (en_sodium (be_st B)) c (drop HEAD_LEN buf) (ph_value ph) SB_MAGIC) (\<lambda>comp_buf.
     assert_r (8 \<le> length comp_buf)
       (let n = from_le_bytes (take 8 comp_buf) in
        assert_r (8 + n \<le> length comp_buf)
          (bind_r (be_deser B (take n (drop 8 comp_buf))) (\<lambda>b. Ok \<lparr>su_head = h, su_body = b\<rparr>)))))))"

definition load_arm :: "'d sb_env \<Rightarrow> nat \<Rightarrow> bytes \<Rightarrow> (super_blk, error, 'd storage) eff" where
  "load_arm B suffix pwd = bind_s (sg_get_super (be_st B) suffix) (\<lambda>buf. lift_r (parse_arm B pwd buf))"

definition sb_load :: "'d sb_env \<Rightarrow> bytes \<Rightarrow> (super_blk, error, 'd storage) eff" where
  "sb_load B pwd =
     bind_s (load_arm B 0 pwd) (\<lambda>left.
     bind_s (load_arm B 1 pwd) (\<lambda>right.
       if sb_seq (su_body left) = sb_seq (su_body right) then ret_s left
       else lift_r (Err InvalidSuperBlk)))"

text \<open>The result of a call as a value, for a caller that looks at the error.\<close>

definition try_s :: "('a, 'e, 's) eff \<Rightarrow> (('a, 'e) result, 'f, 's) eff" where
  "try_s m = (\<lambda>s. case m s of (Panic, s1) \<Rightarrow> (Panic, s1) | (r, s1) \<Rightarrow> (Ok r, s1))"

definition sb_repair :: "'d sb_env \<Rightarrow> nat \<Rightarrow> bytes \<Rightarrow> (unit, error, 'd storage) eff" where
  "sb_repair B now pwd =
     bind_s (try_s (load_arm B 0 pwd)) (\<lambda>left_arm.
     bind_s (try_s (load_arm B 1 pwd)) (\<lambda>right_arm.
       case left_arm of
         Ok left \<Rightarrow> (case right_arm of
             Ok right \<Rightarrow>
               if sb_volume_id (su_body left) \<noteq> sb_volume_id (su_body right) \<or>
                  sb_key (su_body left) \<noteq> sb_key (su_body right)
               then lift_r (Err InvalidSuperBlk)
               else if sb_seq (su_body right) < sb_seq (su_body left) then sb_save B now pwd left
               else if sb_seq (su_body left) < sb_seq (su_body right) then sb_save B now pwd right
               else ret_s ()
           | _ \<Rightarrow> sb_save B now pwd left)
       | Err err \<Rightarrow> (case right_arm of
             Ok right \<Rightarrow> sb_save B now pwd right
           | _ \<Rightarrow> lift_r (Err err))
       | Panic \<Rightarrow> lift_r Panic))"

subsection \<open>Bytes of the head and of the length\<close>

lemma length_le_bytes [simp]: "length (le_bytes n) = 8"
  by (simp add: le_bytes_def)

lemma from_le_digits:
  "from_le_bytes (map (\<lambda>i. of_nat (n div 256 ^ i mod 256)) [0 ..< k]) = n mod 256 ^ k"
proof (induction k arbitrary: n)
  case 0
  show ?case by simp
next
  case (Suc k)
  have "map (\<lambda>i. of_nat (n div 256 ^ i mod 256) :: byte) [0 ..< Suc k] =
      of_nat (n mod 256) # map (\<lambda>i. of_nat (n div 256 div 256 ^ i mod 256)) [0 ..< k]"
    by (simp add: upt_conv_Cons map_Suc_upt [symmetric] div_mult2_eq [symmetric] del: upt_Suc)
  moreover have "unat (of_nat (n mod 256) :: byte) = n mod 256"
    by (simp add: unat_of_nat)
  ultimately show ?case
    by (simp add: Suc.IH mod_mult2_eq)
qed

lemma from_le_bytes_le [simp]: "n < 2 ^ 64 \<Longrightarrow> from_le_bytes (le_bytes n) = n"
  by (simp only: le_bytes_def from_le_digits) simp

lemma length_head_seri: "length (sh_salt h) = SALT_SIZE \<Longrightarrow> length (head_seri h) = HEAD_LEN"
  by (simp add: head_seri_def HEAD_LEN_def)

lemma cipher_from_into: "cipher_from_u8 (cipher_into_u8 c) = Ok c"
  by (cases c) (simp_all add: cipher_from_u8_def cipher_into_u8_def)

text \<open>The head that was written is read back, whatever follows it.\<close>

lemma head_roundtrip:
  assumes "length (sh_salt h) = SALT_SIZE"
  shows "head_deseri (head_seri h @ rest) = Ok h"
  using assms
  by (simp add: head_deseri_def head_seri_def HEAD_LEN_def nth_append cost_from_to cipher_from_into)

subsection \<open>What a saved super block is\<close>

text \<open>The password hash can be computed and the body fits into the block.\<close>

definition sb_fits :: "'d sb_env \<Rightarrow> bytes \<Rightarrow> sb_head \<Rightarrow> sb_body \<Rightarrow> bool" where
  "sb_fits B pwd h b \<longleftrightarrow>
     length (sh_salt h) = SALT_SIZE \<and>
     (case crypto_new (en_sodium (be_st B)) (sh_cost h) (sh_cipher h) of
        Ok c \<Rightarrow> (case hash_pwd (en_sodium (be_st B)) c pwd (sh_salt h) of Ok _ \<Rightarrow> True | _ \<Rightarrow> False) \<and>
          (case be_ser B b of
             Ok x \<Rightarrow> HEAD_LEN + nonce_size c + ATAG_SIZE + 8 + length x \<le> BLK_SIZE
           | _ \<Rightarrow> False)
      | _ \<Rightarrow> False)"

definition savable :: "'d sb_env \<Rightarrow> nat \<Rightarrow> bytes \<Rightarrow> super_blk \<Rightarrow> bool" where
  "savable B now pwd sb \<longleftrightarrow>
     sb_seq (su_body sb) + 1 < 2 ^ 64 \<and> sb_fits B pwd (su_head sb) (next_body now (su_body sb))"

text \<open>The content of an arm, given the stored super blocks, and the arm that is to be kept.\<close>

definition arm_value :: "'d sb_env \<Rightarrow> bytes \<Rightarrow> (nat \<rightharpoonup> bytes) \<Rightarrow> nat \<Rightarrow> super_blk res" where
  "arm_value B pwd m i = bind_r (ok_or (m i) NotFound) (parse_arm B pwd)"

fun newest :: "super_blk res \<Rightarrow> super_blk res \<Rightarrow> super_blk option" where
  "newest (Ok l) (Ok r) =
     (if sb_volume_id (su_body l) \<noteq> sb_volume_id (su_body r) \<or> sb_key (su_body l) \<noteq> sb_key (su_body r) then None
      else if sb_seq (su_body r) < sb_seq (su_body l) then Some l
      else if sb_seq (su_body l) < sb_seq (su_body r) then Some r else None)"
| "newest (Ok l) (Err _) = Some l"
| "newest (Err _) (Ok r) = Some r"
| "newest _ _ = None"

lemma compose_fits:
  assumes "HEAD_LEN + nonce_size c + ATAG_SIZE + 8 + length x \<le> BLK_SIZE"
  shows "\<exists>buf. compose c HEAD_LEN x = Ok buf \<and> length buf \<le> BLK_SIZE"
proof -
  have "decrypted_len c (BLK_SIZE - HEAD_LEN) = Ok (BLK_SIZE - HEAD_LEN - nonce_size c - ATAG_SIZE)"
    using assms by (auto simp: decrypted_len_def sub_r_def)
  with assms show ?thesis by (auto simp: compose_def sub_r_def)
qed

locale super_storable = storable D inv wal adr blk
  for D :: "'s storable_ops" and inv and wal and adr and blk +
  fixes sbs :: "'s \<Rightarrow> nat \<rightharpoonup> bytes"
  assumes get_super: "inv s \<Longrightarrow> st_get_super_block D s i = (ok_or (sbs s i) NotFound, s)"
    and put_super: "inv s \<Longrightarrow> \<exists>s'. st_put_super_block D s b i = (Ok (), s') \<and> inv s' \<and>
          sbs s' = (sbs s)(i \<mapsto> b) \<and> wal s' = wal s \<and> adr s' = adr s \<and> blk s' = blk s"

locale super_blocks =
  super_storable "en_depot (be_st B)" inv wal adr blk sbs + sodium_laws "en_sodium (be_st B)"
  for B :: "'d sb_env" and inv and wal and adr and blk and sbs +
  assumes body_roundtrip: "be_ser B b = Ok x \<Longrightarrow> be_deser B x = Ok b"
begin

lemma load_arm_value: "inv (sg_depot s) \<Longrightarrow> load_arm B i pwd s = (arm_value B pwd (sbs (sg_depot s)) i, s)"
  by (auto simp: load_arm_def sg_get_super_def on_depot_def zoom_def get_super arm_value_def bind_s_def ok_or_def
      split: option.splits)

text \<open>Parsing what \<open>save\<close> composes.\<close>

lemma parse_composed:
  assumes h: "length (sh_salt h) = SALT_SIZE"
    and c: "crypto_new (en_sodium (be_st B)) (sh_cost h) (sh_cipher h) = Ok c"
    and ph: "hash_pwd (en_sodium (be_st B)) c pwd (sh_salt h) = Ok ph"
    and x: "be_ser B b = Ok x" and comp: "compose c HEAD_LEN x = Ok buf"
    and enc: "decrypt_raw (en_sodium (be_st B)) c ct (ph_value ph) SB_MAGIC = Ok buf"
      "length ct = encrypted_len c (length buf)"
  shows "parse_arm B pwd (head_seri h @ ct) = Ok \<lparr>su_head = h, su_body = b\<rparr>"
proof -
  obtain pad where buf: "buf = le_bytes (length x) @ x @ pad" and n: "length x \<le> BLK_SIZE"
    using comp by (auto simp: compose_def sub_r_def decrypted_len_def split: if_splits)
  have "length x < 2 ^ 64" using n by (simp add: BLK_SIZE_def)
  moreover have "decrypt_with_ad (en_sodium (be_st B)) c ct (ph_value ph) SB_MAGIC = Ok buf"
    by (simp add: decrypt_with_ad_def enc decrypted_len_encrypted)
  ultimately show ?thesis
    using h by (simp add: parse_arm_def head_roundtrip length_head_seri c ph buf assert_r_def body_roundtrip [OF x])
qed

lemma put_both:
  assumes "inv (sg_depot s)"
  shows "\<exists>d. and_s (sg_put_super (be_st B) b 0) (sg_put_super (be_st B) b 1) s = (Ok (), s\<lparr>sg_depot := d\<rparr>) \<and>
    inv d \<and> sbs d = (sbs (sg_depot s))(0 \<mapsto> b, 1 \<mapsto> b) \<and>
    wal d = wal (sg_depot s) \<and> adr d = adr (sg_depot s) \<and> blk d = blk (sg_depot s)"
proof -
  obtain d1 where d1: "st_put_super_block (en_depot (be_st B)) (sg_depot s) b 0 = (Ok (), d1)" "inv d1"
    "sbs d1 = (sbs (sg_depot s))(0 \<mapsto> b)" "wal d1 = wal (sg_depot s)" "adr d1 = adr (sg_depot s)"
    "blk d1 = blk (sg_depot s)"
    using put_super [OF assms] by blast
  obtain d2 where d2: "st_put_super_block (en_depot (be_st B)) d1 b 1 = (Ok (), d2)" "inv d2"
    "sbs d2 = (sbs d1)(1 \<mapsto> b)" "wal d2 = wal d1" "adr d2 = adr d1" "blk d2 = blk d1"
    using put_super [OF d1(2)] by blast
  show ?thesis
    by (rule exI [of _ d2])
      (simp add: and_s_def sg_put_super_def on_depot_def zoom_def d1 d2 del: One_nat_def)
qed

lemma save_stores:
  assumes inv: "inv (sg_depot s)" and sv: "savable B now pwd sb"
  obtains buf d where "sb_save B now pwd sb s = (Ok (), s\<lparr>sg_draws := Suc (sg_draws s), sg_depot := d\<rparr>)"
    "parse_arm B pwd buf = Ok (sb\<lparr>su_body := next_body now (su_body sb)\<rparr>)"
    "inv d" "sbs d = (sbs (sg_depot s))(0 \<mapsto> buf, 1 \<mapsto> buf)"
    "wal d = wal (sg_depot s)" "adr d = adr (sg_depot s)" "blk d = blk (sg_depot s)"
proof -
  let ?b = "next_body now (su_body sb)" and ?h = "su_head sb" and ?S = "en_sodium (be_st B)"
  let ?s1 = "s\<lparr>sg_draws := Suc (sg_draws s)\<rparr>"
  obtain c ph x where c: "crypto_new ?S (sh_cost ?h) (sh_cipher ?h) = Ok c"
    and ph: "hash_pwd ?S c pwd (sh_salt ?h) = Ok ph" and x: "be_ser B ?b = Ok x"
    and n: "HEAD_LEN + nonce_size c + ATAG_SIZE + 8 + length x \<le> BLK_SIZE"
    and h: "length (sh_salt ?h) = SALT_SIZE" and q: "sb_seq (su_body sb) + 1 < 2 ^ 64"
    using sv by (auto simp: savable_def sb_fits_def split: result.splits)
  obtain buf where buf: "compose c HEAD_LEN x = Ok buf" and l: "length buf \<le> BLK_SIZE"
    using compose_fits [OF n] by blast
  have "length buf < 2 ^ 36 - 32" using l by (simp add: BLK_SIZE_def)
  then obtain ct where ct: "encrypt_raw ?S c (sg_draws s) buf (ph_value ph) SB_MAGIC = (Ok ct, Suc (sg_draws s))"
    "length ct = encrypted_len c (length buf)" "decrypt_raw ?S c ct (ph_value ph) SB_MAGIC = Ok buf"
    by (rule encrypt_raw_cases)
  obtain d where d: "and_s (sg_put_super (be_st B) (head_seri ?h @ ct) 0) (sg_put_super (be_st B) (head_seri ?h @ ct) 1)
      ?s1 = (Ok (), ?s1\<lparr>sg_depot := d\<rparr>)" "inv d"
    "sbs d = (sbs (sg_depot s))(0 \<mapsto> head_seri ?h @ ct, 1 \<mapsto> head_seri ?h @ ct)"
    "wal d = wal (sg_depot s)" "adr d = adr (sg_depot s)" "blk d = blk (sg_depot s)"
    using put_both [of ?s1 "head_seri ?h @ ct"] inv by auto
  have "parse_arm B pwd (head_seri ?h @ ct) = Ok (sb\<lparr>su_body := ?b\<rparr>)"
    using parse_composed [OF h c ph x buf ct(3) ct(2)] by (cases sb) simp
  moreover have "sb_save B now pwd sb s = (Ok (), ?s1\<lparr>sg_depot := d\<rparr>)"
    using q by (simp add: sb_save_def c ph body_seri_def assert_r_def x length_head_seri h buf sb_encrypt_def ct
        bind_s_def d(1) del: One_nat_def)
  ultimately show ?thesis using d(2-6) that by blast
qed

lemma load_both:
  assumes "inv (sg_depot s)" and "sbs (sg_depot s) 0 = Some buf" and "sbs (sg_depot s) 1 = Some buf"
    and "parse_arm B pwd buf = Ok sb"
  shows "sb_load B pwd s = (Ok sb, s)"
  using assms by (simp add: sb_load_def bind_s_def load_arm_value arm_value_def ok_or_def)

lemma save_load:
  assumes "inv (sg_depot s)" and "savable B now pwd sb"
  shows "\<exists>d. sb_save B now pwd sb s = (Ok (), s\<lparr>sg_draws := Suc (sg_draws s), sg_depot := d\<rparr>) \<and> inv d \<and>
    wal d = wal (sg_depot s) \<and> adr d = adr (sg_depot s) \<and> blk d = blk (sg_depot s) \<and>
    (\<forall>t. inv (sg_depot t) \<and> sbs (sg_depot t) = sbs d \<longrightarrow>
       sb_load B pwd t = (Ok (sb\<lparr>su_body := next_body now (su_body sb)\<rparr>), t))"
proof -
  obtain buf d where d: "sb_save B now pwd sb s = (Ok (), s\<lparr>sg_draws := Suc (sg_draws s), sg_depot := d\<rparr>)"
    "parse_arm B pwd buf = Ok (sb\<lparr>su_body := next_body now (su_body sb)\<rparr>)"
    "inv d" "sbs d = (sbs (sg_depot s))(0 \<mapsto> buf, 1 \<mapsto> buf)"
    "wal d = wal (sg_depot s)" "adr d = adr (sg_depot s)" "blk d = blk (sg_depot s)"
    by (rule save_stores [OF assms])
  have "sb_load B pwd t = (Ok (sb\<lparr>su_body := next_body now (su_body sb)\<rparr>), t)"
    if "inv (sg_depot t) \<and> sbs (sg_depot t) = sbs d" for t
    using that by (intro load_both [OF _ _ _ d(2)]) (simp_all add: d(4))
  with d show ?thesis by blast
qed

text \<open>A successful save is one of a super block that fits.\<close>

lemma saved_savable:
  assumes "sb_save B now pwd sb s = (Ok (), s')" and h: "length (sh_salt (su_head sb)) = SALT_SIZE"
  shows "savable B now pwd sb"
proof -
  obtain c ph x buf where "crypto_new (en_sodium (be_st B)) (sh_cost (su_head sb)) (sh_cipher (su_head sb)) = Ok c"
    "hash_pwd (en_sodium (be_st B)) c pwd (sh_salt (su_head sb)) = Ok ph"
    "body_seri B now (su_body sb) = Ok x" "compose c (length (head_seri (su_head sb))) x = Ok buf"
    using assms(1) unfolding sb_save_def by (auto simp: bind_s_Ok_iff)
  moreover have "HEAD_LEN + nonce_size c + ATAG_SIZE + 8 + length x \<le> BLK_SIZE"
    using calculation(4) by (auto simp: length_head_seri [OF h] compose_def sub_r_def decrypted_len_def split: if_splits)
  ultimately show ?thesis
    using h by (auto simp: savable_def sb_fits_def body_seri_def assert_r_def split: if_splits)
qed

text \<open>Repair restores the newest arm that can be read.\<close>

lemma repair_newest:
  assumes inv: "inv (sg_depot s)"
    and "newest (arm_value B pwd (sbs (sg_depot s)) 0) (arm_value B pwd (sbs (sg_depot s)) 1) = Some sb"
  shows "sb_repair B now pwd s = sb_save B now pwd sb s"
  using assms(2) inv
  by (cases "arm_value B pwd (sbs (sg_depot s)) 0"; cases "arm_value B pwd (sbs (sg_depot s)) 1")
    (auto simp: sb_repair_def bind_s_def try_s_def load_arm_value simp del: One_nat_def split: if_splits)

end

subsection \<open>Super blocks on the memory back end\<close>

definition mem_sup :: "mem \<Rightarrow> nat \<rightharpoonup> bytes" where
  "mem_sup s = (case depot_of s of None \<Rightarrow> Map.empty | Some d \<Rightarrow> super_blk_map d)"

interpretation mem_super: super_storable mem_ops mem_inv mem_wal mem_adr mem_blk mem_sup
proof unfold_locales
  fix s :: mem and i :: nat and b :: bytes
  assume "mem_inv s"
  then obtain d where d: "depot_of s = Some d" "blks_sized (blk_map d)"
    by (auto simp: mem_inv_def split: option.splits)
  then show "st_get_super_block mem_ops s i = (ok_or (mem_sup s i) NotFound, s)"
    by (simp add: mem_ops_def mem_get_super_block_def mem_sup_def depot_of_def ok_or_def)
  show "\<exists>s'. st_put_super_block mem_ops s b i = (Ok (), s') \<and> mem_inv s' \<and> mem_sup s' = (mem_sup s)(i \<mapsto> b) \<and>
      mem_wal s' = mem_wal s \<and> mem_adr s' = mem_adr s \<and> mem_blk s' = mem_blk s"
    using d by (simp add: mem_ops_def mem_put_super_block_def upd_depot_def mem_sup_def mem_view_defs)
qed

subsection \<open>Properties\<close>



end
