(* ===== verification/Volume.thy ===== *)
theory Volume
  imports Super_Block Fnode
begin

text \<open>
  \<open>src/src/volume/volume.rs\<close>: making, opening and repairing a volume, over the storage layer
  (\<open>Storage::new\<close>, \<open>init\<close> and \<open>open\<close> in \<open>src/src/volume/storage/storage.rs\<close>) and the super block.
  The part of the trait \<open>Storable\<close> that attaches a back end is in the environment; \<open>clk i\<close> is the
  \<open>i\<close>-th reading of the clock in a call.
\<close>

subsection \<open>Choosing the back end\<close>

datatype storage_kind = KMem | KFile | KSqlite | KRedis | KFaulty | KZbox

text \<open>\<open>str::find\<close> of a pattern: the index of its first occurrence.\<close>

fun str_find :: "string \<Rightarrow> string \<Rightarrow> nat option" where
  "str_find pat [] = (if pat = [] then Some 0 else None)"
| "str_find pat (c # cs) =
     (if take (length pat) (c # cs) = pat then Some 0 else map_option Suc (str_find pat cs))"

definition is_ascii :: "string \<Rightarrow> bool" where
  "is_ascii cs = list_all (\<lambda>c. (of_char c :: nat) < 128) cs"

definition kind_of :: "string \<Rightarrow> storage_kind option" where
  "kind_of t =
     (if t = ''mem'' then Some KMem else if t = ''file'' then Some KFile
      else if t = ''sqlite'' then Some KSqlite else if t = ''redis'' then Some KRedis
      else if t = ''faulty'' then Some KFaulty else if t = ''zbox'' then Some KZbox else None)"

text \<open>
  \<open>features\<close> are the storages that are built in, and \<open>mk\<close> is the constructor of a back end.
\<close>

definition parse_uri :: "storage_kind set \<Rightarrow> (storage_kind \<Rightarrow> string \<Rightarrow> 'd res) \<Rightarrow> string \<Rightarrow> 'd res" where
  "parse_uri features mk uri =
     (if \<not> is_ascii uri then Err InvalidUri
      else bind_r (ok_or (str_find ''://'' uri) InvalidUri) (\<lambda>idx.
           let l = drop (idx + 3) uri in
           if l = [] then Err InvalidUri
           else case kind_of (take idx uri) of
                  None \<Rightarrow> Err InvalidUri
                | Some k \<Rightarrow> if k \<in> features then mk k l else Err InvalidUri))"

subsection \<open>Attaching a storage\<close>

record 'd vol_env =
  ve_sb :: "'d sb_env"
  ve_exists :: "'d \<Rightarrow> bool res"
  ve_connect :: "bool \<Rightarrow> (unit, error, 'd) eff"
  ve_init :: "crypto \<Rightarrow> key \<Rightarrow> (unit, error, 'd) eff"
  ve_open :: "crypto \<Rightarrow> key \<Rightarrow> bool \<Rightarrow> (unit, error, 'd) eff"
  ve_destroy :: "(unit, error, 'd) eff"

abbreviation ve_sodium :: "'d vol_env \<Rightarrow> sodium" where
  "ve_sodium V \<equiv> en_sodium (be_st (ve_sb V))"

definition draw :: "'d vol_env \<Rightarrow> nat \<Rightarrow> (bytes, error, 'd storage) eff" where
  "draw V n = (\<lambda>s. (Ok (so_random (ve_sodium V) (sg_draws s) n), s\<lparr>sg_draws := Suc (sg_draws s)\<rparr>))"

text \<open>\<open>Key::derive\<close>, with its \<open>unwrap\<close>.\<close>

definition key_derive :: "'d vol_env \<Rightarrow> key \<Rightarrow> nat \<Rightarrow> key res" where
  "key_derive V k i = (case derive_from_key (ve_sodium V) k i of Ok x \<Rightarrow> Ok x | _ \<Rightarrow> Panic)"

definition sg_connect :: "'d vol_env \<Rightarrow> bool \<Rightarrow> (unit, error, 'd storage) eff" where
  "sg_connect V force = on_depot (ve_connect V force)"

definition sg_init :: "'d vol_env \<Rightarrow> cost \<Rightarrow> cipher \<Rightarrow> (unit, error, 'd storage) eff" where
  "sg_init V co ci =
     bind_s (lift_r (crypto_new (ve_sodium V) co ci)) (\<lambda>c.
     bind_s (modify_s (\<lambda>s. s\<lparr>sg_crypto := c\<rparr>)) (\<lambda>_.
     bind_s (draw V KEY_SIZE) (\<lambda>k.
     bind_s (modify_s (\<lambda>s. s\<lparr>sg_key := k\<rparr>)) (\<lambda>_.
     bind_s (lift_r (key_derive V k 0)) (\<lambda>k0.
     on_depot (ve_init V c k0))))))"

definition sg_open :: "'d vol_env \<Rightarrow> cost \<Rightarrow> cipher \<Rightarrow> key \<Rightarrow> bool \<Rightarrow> (unit, error, 'd storage) eff" where
  "sg_open V co ci k force =
     bind_s (lift_r (crypto_new (ve_sodium V) co ci)) (\<lambda>c.
     bind_s (modify_s (\<lambda>s. s\<lparr>sg_crypto := c, sg_key := k\<rparr>)) (\<lambda>_.
     bind_s (lift_r (key_derive V k 0)) (\<lambda>k0.
     on_depot (ve_open V c k0 force))))"

subsection \<open>The volume\<close>

text \<open>\<open>Config\<close> of \<open>src/src/fs/mod.rs\<close>\<close>

record config =
  cf_cost :: cost
  cf_cipher :: cipher
  cf_compress :: bool
  cf_opts :: options

definition config_default :: "sodium \<Rightarrow> config" where
  "config_default S = \<lparr>cf_cost = cost_default, cf_cipher = (if so_aes_available S then Aes else Xchacha),
     cf_compress = False, cf_opts = options_default\<rparr>"

record vol_info =
  vi_id :: eid
  vi_ver :: version
  vi_uri :: string
  vi_compress :: bool
  vi_cost :: cost
  vi_cipher :: cipher
  vi_ctime :: nat

definition info_default :: vol_info where
  "info_default = \<lparr>vi_id = eid_new_empty, vi_ver = \<lparr>major = 0, minor = 0, patch = 0\<rparr>, vi_uri = [],
     vi_compress = False, vi_cost = cost_default, vi_cipher = Xchacha, vi_ctime = 0\<rparr>"

record 'd volume =
  vo_info :: vol_info
  vo_storage :: "'d storage"

definition on_sg :: "('a, 'e, 'd storage) eff \<Rightarrow> ('a, 'e, 'd volume) eff" where
  "on_sg m = zoom vo_storage (\<lambda>s v. v\<lparr>vo_storage := s\<rparr>) m"

definition on_info :: "(vol_info \<Rightarrow> vol_info) \<Rightarrow> (unit, 'e, 'd volume) eff" where
  "on_info g = modify_s (\<lambda>v. v\<lparr>vo_info := g (vo_info v)\<rparr>)"

definition volume_new ::
  "storage_kind set \<Rightarrow> (storage_kind \<Rightarrow> string \<Rightarrow> 'd res) \<Rightarrow> nat \<Rightarrow> string \<Rightarrow> 'd volume res"
where
  "volume_new features mk draws uri =
     bind_r (parse_uri features mk uri) (\<lambda>d.
     Ok \<lparr>vo_info = info_default\<lparr>vi_uri := uri\<rparr>, vo_storage = storage_new d draws\<rparr>)"

definition volume_init ::
  "'d vol_env \<Rightarrow> (nat \<Rightarrow> nat) \<Rightarrow> bytes \<Rightarrow> config \<Rightarrow> bytes \<Rightarrow> (unit, error, 'd volume) eff"
where
  "volume_init V clk pwd cfg payload =
     bind_s (on_sg (sg_connect V False)) (\<lambda>_.
     bind_s (on_sg (sg_init V (cf_cost cfg) (cf_cipher cfg))) (\<lambda>_.
     bind_s (on_sg (draw V EID_SIZE)) (\<lambda>r.
     bind_s (on_info (\<lambda>i. i\<lparr>vi_id := eid_new r, vi_ver := repo_version, vi_compress := cf_compress cfg,
               vi_cost := cf_cost cfg, vi_cipher := cf_cipher cfg, vi_ctime := clk 0\<rparr>)) (\<lambda>_.
     bind_s (on_sg (draw V SALT_SIZE)) (\<lambda>salt.
     bind_s get_s (\<lambda>v.
       on_sg (sb_save (ve_sb V) (clk 1) pwd
         \<lparr>su_head = \<lparr>sh_salt = salt, sh_cost = cf_cost cfg, sh_cipher = cf_cipher cfg\<rparr>,
          su_body = \<lparr>sb_seq = 0, sb_volume_id = vi_id (vo_info v), sb_ver = vi_ver (vo_info v),
            sb_key = sg_key (vo_storage v), sb_uri = vi_uri (vo_info v), sb_compress = cf_compress cfg,
            sb_ctime = vi_ctime (vo_info v), sb_mtime = 0, sb_payload = payload\<rparr>\<rparr>)))))))"

definition volume_open :: "'d vol_env \<Rightarrow> bytes \<Rightarrow> bool \<Rightarrow> (bytes, error, 'd volume) eff" where
  "volume_open V pwd force =
     bind_s (on_sg (sg_connect V force)) (\<lambda>_.
     bind_s (on_sg (sb_load (ve_sb V) pwd)) (\<lambda>sb.
       if \<not> match_repo_version (sb_ver (su_body sb)) then lift_r (Err WrongVersion)
       else
       bind_s (on_sg (sg_open V (sh_cost (su_head sb)) (sh_cipher (su_head sb)) (sb_key (su_body sb)) force)) (\<lambda>_.
       bind_s (on_info (\<lambda>i. i\<lparr>vi_id := sb_volume_id (su_body sb), vi_ver := sb_ver (su_body sb),
                 vi_compress := sb_compress (su_body sb), vi_cost := sh_cost (su_head sb),
                 vi_cipher := sh_cipher (su_head sb), vi_ctime := sb_ctime (su_body sb)\<rparr>)) (\<lambda>_.
       ret_s (sb_payload (su_body sb))))))"

definition repair_super_block :: "'d vol_env \<Rightarrow> nat \<Rightarrow> bytes \<Rightarrow> (unit, error, 'd volume) eff" where
  "repair_super_block V clk pwd =
     bind_s (on_sg (sg_connect V False)) (\<lambda>_. on_sg (sb_repair (ve_sb V) clk pwd))"

definition volume_exists :: "'d vol_env \<Rightarrow> 'd volume \<Rightarrow> bool res" where
  "volume_exists V v = ve_exists V (sg_depot (vo_storage v))"

definition reset_password ::
  "'d vol_env \<Rightarrow> nat \<Rightarrow> bytes \<Rightarrow> bytes \<Rightarrow> cost \<Rightarrow> (unit, error, 'd volume) eff"
where
  "reset_password V clk old_pwd new_pwd co =
     bind_s (on_sg (sb_load (ve_sb V) old_pwd)) (\<lambda>sb.
     bind_s (on_sg (sb_save (ve_sb V) clk new_pwd (sb\<lparr>su_head := (su_head sb)\<lparr>sh_cost := co\<rparr>\<rparr>))) (\<lambda>_.
     on_info (\<lambda>i. i\<lparr>vi_cost := co\<rparr>)))"

definition volume_del_wal :: "'d vol_env \<Rightarrow> eid \<Rightarrow> (unit, error, 'd volume) eff" where
  "volume_del_wal V e = on_sg (sg_del_wal (be_st (ve_sb V)) e)"

definition volume_del :: "'d vol_env \<Rightarrow> eid \<Rightarrow> (unit, error, 'd volume) eff" where
  "volume_del V e = on_sg (sg_del (be_st (ve_sb V)) e)"

definition volume_flush :: "'d vol_env \<Rightarrow> (unit, error, 'd volume) eff" where
  "volume_flush V = on_sg (sg_flush (be_st (ve_sb V)))"

definition volume_destroy :: "'d vol_env \<Rightarrow> (unit, error, 'd volume) eff" where
  "volume_destroy V = on_sg (on_depot (ve_destroy V))"

subsection \<open>What a volume relies on\<close>

text \<open>
  Connecting, initialising and opening a back end; \<open>unlocked\<close> means that nobody else has it open.
  libsodium derives a sub key from every key.
\<close>

locale volume_laws = super_blocks "ve_sb V" inv wal adr blk sbs
  for V :: "'d vol_env" and inv and wal and adr and blk and sbs +
  fixes unlocked :: "'d \<Rightarrow> bool"
  assumes connects: "\<exists>d'. ve_connect V f d = (Ok (), d') \<and>
        (inv d \<longrightarrow> inv d' \<and> sbs d' = sbs d \<and> (unlocked d \<longrightarrow> unlocked d'))"
    and inits: "ve_init V c k d = (Ok (), d') \<Longrightarrow> inv d'"
    and opens: "inv d \<Longrightarrow> unlocked d \<or> f \<Longrightarrow> \<exists>d'. ve_open V c k f d = (Ok (), d') \<and> inv d' \<and> sbs d' = sbs d \<and>
        wal d' = wal d \<and> adr d' = adr d \<and> blk d' = blk d"
    and kdf: "so_kdf (ve_sodium V) k i ctx \<noteq> None"

text \<open>The part of a volume's information that a super block determines.\<close>

definition info_of :: "super_blk \<Rightarrow> vol_info \<Rightarrow> vol_info" where
  "info_of sb i = i\<lparr>vi_id := sb_volume_id (su_body sb), vi_ver := sb_ver (su_body sb),
     vi_compress := sb_compress (su_body sb), vi_cost := sh_cost (su_head sb),
     vi_cipher := sh_cipher (su_head sb), vi_ctime := sb_ctime (su_body sb)\<rparr>"

definition loads :: "'d vol_env \<Rightarrow> ('d \<Rightarrow> bool) \<Rightarrow> ('d \<Rightarrow> nat \<rightharpoonup> bytes) \<Rightarrow> bytes \<Rightarrow> (nat \<rightharpoonup> bytes) \<Rightarrow> super_blk \<Rightarrow> bool" where
  "loads V dinv sbs pwd m sb \<longleftrightarrow>
     (\<forall>t. dinv (sg_depot t) \<and> sbs (sg_depot t) = m \<longrightarrow> sb_load (ve_sb V) pwd t = (Ok sb, t))"

lemma parsed_head:
  assumes "parse_arm B pwd buf = Ok sb"
  shows "length (sh_salt (su_head sb)) = SALT_SIZE"
    and "\<exists>c. crypto_new (en_sodium (be_st B)) (sh_cost (su_head sb)) (sh_cipher (su_head sb)) = Ok c"
proof -
  obtain h where h: "head_deseri buf = Ok h" and sb: "su_head sb = h"
    and c: "\<exists>c. crypto_new (en_sodium (be_st B)) (sh_cost h) (sh_cipher h) = Ok c"
    using assms by (auto simp: parse_arm_def bind_r_Ok_iff assert_r_def Let_def split: if_splits)
  have "length (sh_salt h) = SALT_SIZE"
    using h by (auto simp: head_deseri_def HEAD_LEN_def bind_r_Ok_iff split: if_splits)
  then show "length (sh_salt (su_head sb)) = SALT_SIZE" by (simp add: sb)
  show "\<exists>c. crypto_new (en_sodium (be_st B)) (sh_cost (su_head sb)) (sh_cipher (su_head sb)) = Ok c"
    using c by (simp add: sb)
qed

context volume_laws
begin

lemma loads_parsed:
  assumes "sb_load (ve_sb V) pwd s = (Ok sb, s')" and "inv (sg_depot s)"
  shows "s' = s" and "loads V inv sbs pwd (sbs (sg_depot s)) sb"
    and "\<exists>buf. parse_arm (ve_sb V) pwd buf = Ok sb"
proof -
  have l: "sb_load (ve_sb V) pwd t =
      (bind_r (arm_value (ve_sb V) pwd (sbs (sg_depot t)) 0) (\<lambda>l.
       bind_r (arm_value (ve_sb V) pwd (sbs (sg_depot t)) 1) (\<lambda>r.
       if sb_seq (su_body l) = sb_seq (su_body r) then Ok l else Err InvalidSuperBlk)), t)"
    if "inv (sg_depot t)" for t
    using that
    by (cases "arm_value (ve_sb V) pwd (sbs (sg_depot t)) 0"; cases "arm_value (ve_sb V) pwd (sbs (sg_depot t)) 1")
      (simp_all add: sb_load_def bind_s_def load_arm_value del: One_nat_def)
  show s: "s' = s" using assms(1) unfolding l [OF assms(2)] by simp
  have "sb_load (ve_sb V) pwd t = (Ok sb, t)"
    if "inv (sg_depot t)" and "sbs (sg_depot t) = sbs (sg_depot s)" for t
    using assms(1) unfolding l [OF that(1)] l [OF assms(2)] that(2) by auto
  then show "loads V inv sbs pwd (sbs (sg_depot s)) sb" by (simp add: loads_def)
  show "\<exists>buf. parse_arm (ve_sb V) pwd buf = Ok sb"
    using assms l [OF assms(2)] by (auto simp: bind_r_Ok_iff arm_value_def split: if_splits)
qed

lemma derives: "\<exists>k'. key_derive V k i = Ok k'"
  using kdf [of k i KDF_CONTEXT] by (auto simp: key_derive_def derive_from_key_def ok_or_def)

lemma open_loads:
  assumes inv: "inv (sg_depot (vo_storage w))" and lock: "unlocked (sg_depot (vo_storage w)) \<or> force"
    and load: "loads V inv sbs pwd (sbs (sg_depot (vo_storage w))) sb"
    and ver: "match_repo_version (sb_ver (su_body sb))"
    and c: "crypto_new (ve_sodium V) (sh_cost (su_head sb)) (sh_cipher (su_head sb)) = Ok c"
  shows "\<exists>w'. volume_open V pwd force w = (Ok (sb_payload (su_body sb)), w') \<and>
    vo_info w' = info_of sb (vo_info w) \<and> sg_key (vo_storage w') = sb_key (su_body sb) \<and>
    sg_crypto (vo_storage w') = c \<and> inv (sg_depot (vo_storage w')) \<and>
    sbs (sg_depot (vo_storage w')) = sbs (sg_depot (vo_storage w))"
proof -
  obtain d1 where d1: "ve_connect V force (sg_depot (vo_storage w)) = (Ok (), d1)" "inv d1"
    "sbs d1 = sbs (sg_depot (vo_storage w))" "unlocked d1 \<or> force"
    using connects [of force "sg_depot (vo_storage w)"] inv lock by blast
  obtain k where k: "key_derive V (sb_key (su_body sb)) 0 = Ok k" using derives by blast
  obtain d2 where d2: "ve_open V c k force d1 = (Ok (), d2)" "inv d2" "sbs d2 = sbs d1"
    using opens [OF d1(2,4)] by blast
  have "sb_load (ve_sb V) pwd ((vo_storage w)\<lparr>sg_depot := d1\<rparr>) = (Ok sb, (vo_storage w)\<lparr>sg_depot := d1\<rparr>)"
    using load d1 by (simp add: loads_def)
  then show ?thesis
    by (simp add: volume_open_def sg_connect_def sg_open_def on_sg_def on_info_def on_depot_def zoom_def bind_s_def
        d1(1) d1(3) d2 ver c k info_of_def)
qed

lemma init_saves:
  assumes "volume_init V clk pwd cfg payload v = (Ok (), v')"
  obtains sb s where "sb_save (ve_sb V) (clk 1) pwd sb s = (Ok (), vo_storage v')" "inv (sg_depot s)"
    "length (sh_salt (su_head sb)) = SALT_SIZE" "sb_ver (su_body sb) = repo_version"
    "sb_payload (su_body sb) = payload" "sg_key s = sb_key (su_body sb)"
    "crypto_new (ve_sodium V) (sh_cost (su_head sb)) (sh_cipher (su_head sb)) = Ok (sg_crypto s)"
    "info_of sb (vo_info v') = vo_info v'"
proof -
  obtain d1 where d1: "ve_connect V False (sg_depot (vo_storage v)) = (Ok (), d1)"
    using connects by blast
  obtain c where c: "crypto_new (ve_sodium V) (cf_cost cfg) (cf_cipher cfg) = Ok c"
    using assms by (auto simp: volume_init_def sg_init_def on_sg_def zoom_def bind_s_def
        split: result.splits prod.splits)
  let ?n = "sg_draws (vo_storage v)"
  let ?k = "so_random (ve_sodium V) ?n KEY_SIZE"
  obtain k where k: "key_derive V ?k 0 = Ok k" using derives by blast
  obtain d2 where d2: "ve_init V c k d1 = (Ok (), d2)"
    using assms by (cases "ve_init V c k d1"; cases "fst (ve_init V c k d1)")
      (auto simp: volume_init_def sg_init_def sg_connect_def draw_def on_sg_def on_depot_def zoom_def bind_s_def d1 c k)
  let ?id = "eid_new (so_random (ve_sodium V) (Suc ?n) EID_SIZE)"
  let ?salt = "so_random (ve_sodium V) (Suc (Suc ?n)) SALT_SIZE"
  let ?sb = "\<lparr>su_head = \<lparr>sh_salt = ?salt, sh_cost = cf_cost cfg, sh_cipher = cf_cipher cfg\<rparr>,
      su_body = \<lparr>sb_seq = 0, sb_volume_id = ?id, sb_ver = repo_version, sb_key = ?k, sb_uri = vi_uri (vo_info v),
        sb_compress = cf_compress cfg, sb_ctime = clk 0, sb_mtime = 0, sb_payload = payload\<rparr>\<rparr>"
  let ?s = "(vo_storage v)\<lparr>sg_crypto := c, sg_key := ?k, sg_depot := d2, sg_draws := Suc (Suc (Suc ?n))\<rparr>"
  have "sb_save (ve_sb V) (clk 1) pwd ?sb ?s = (Ok (), vo_storage v')"
    and "vo_info v' = info_of ?sb (vo_info v)"
    using assms
    by (auto simp: volume_init_def sg_init_def sg_connect_def draw_def on_sg_def on_info_def on_depot_def zoom_def
        bind_s_def d1 c k d2 info_of_def split: prod.splits)
  moreover have "inv d2" using inits [OF d2] .
  ultimately show ?thesis
    by (intro that [of ?sb ?s]) (simp_all add: random_len c info_of_def)
qed

lemma init_open:
  assumes init: "volume_init V clk pwd cfg payload v = (Ok (), v')"
    and w: "inv (sg_depot (vo_storage w))" "sbs (sg_depot (vo_storage w)) = sbs (sg_depot (vo_storage v'))"
      "unlocked (sg_depot (vo_storage w)) \<or> force"
  shows "\<exists>w'. volume_open V pwd force w = (Ok payload, w') \<and>
    vo_info w' = (vo_info v')\<lparr>vi_uri := vi_uri (vo_info w)\<rparr> \<and>
    sg_key (vo_storage w') = sg_key (vo_storage v') \<and> sg_crypto (vo_storage w') = sg_crypto (vo_storage v')"
proof -
  obtain sb s where sb: "sb_save (ve_sb V) (clk 1) pwd sb s = (Ok (), vo_storage v')" "inv (sg_depot s)"
    "length (sh_salt (su_head sb)) = SALT_SIZE" "sb_ver (su_body sb) = repo_version"
    "sb_payload (su_body sb) = payload" "sg_key s = sb_key (su_body sb)"
    "crypto_new (ve_sodium V) (sh_cost (su_head sb)) (sh_cipher (su_head sb)) = Ok (sg_crypto s)"
    "info_of sb (vo_info v') = vo_info v'"
    by (rule init_saves [OF init])
  let ?sb = "sb\<lparr>su_body := next_body (clk 1) (su_body sb)\<rparr>"
  obtain d where d: "vo_storage v' = s\<lparr>sg_draws := Suc (sg_draws s), sg_depot := d\<rparr>"
    "\<forall>t. inv (sg_depot t) \<and> sbs (sg_depot t) = sbs d \<longrightarrow> sb_load (ve_sb V) pwd t = (Ok ?sb, t)"
    using save_load [OF sb(2) saved_savable [OF sb(1,3)]] sb(1) by auto
  have "loads V inv sbs pwd (sbs (sg_depot (vo_storage w))) ?sb"
    using d w(2) by (simp add: loads_def)
  from open_loads [OF w(1,3) this] sb d(1)
  obtain w' where w': "volume_open V pwd force w = (Ok payload, w')" "vo_info w' = info_of ?sb (vo_info w)"
    "sg_key (vo_storage w') = sb_key (su_body sb)" "sg_crypto (vo_storage w') = sg_crypto s"
    by (auto simp: next_body_def match_repo_version_def)
  have "info_of ?sb (vo_info w) = (info_of sb (vo_info v'))\<lparr>vi_uri := vi_uri (vo_info w)\<rparr>"
    by (cases "vo_info v'"; cases "vo_info w") (simp add: info_of_def next_body_def)
  with w' sb(6,8) d(1) show ?thesis by simp
qed

lemma reset_open:
  assumes inv: "inv (sg_depot (vo_storage v))"
    and reset: "reset_password V t old_pwd new_pwd co v = (Ok (), v')"
    and before: "volume_open V old_pwd f u = (Ok payload, u')" "inv (sg_depot (vo_storage u))"
      "sbs (sg_depot (vo_storage u)) = sbs (sg_depot (vo_storage v))"
    and w: "inv (sg_depot (vo_storage w))" "sbs (sg_depot (vo_storage w)) = sbs (sg_depot (vo_storage v'))"
      "unlocked (sg_depot (vo_storage w)) \<or> force"
  shows "\<exists>w'. volume_open V new_pwd force w = (Ok payload, w') \<and>
    vo_info w' = (vo_info u')\<lparr>vi_uri := vi_uri (vo_info w), vi_cost := co\<rparr> \<and>
    sg_key (vo_storage w') = sg_key (vo_storage u')"
proof -
  obtain sb s1 where s1: "sb_load (ve_sb V) old_pwd (vo_storage v) = (Ok sb, s1)"
    and save1: "sb_save (ve_sb V) t new_pwd (sb\<lparr>su_head := (su_head sb)\<lparr>sh_cost := co\<rparr>\<rparr>) s1 = (Ok (), vo_storage v')"
    using reset
    by (auto simp: reset_password_def on_sg_def on_info_def zoom_def bind_s_def split: result.splits prod.splits)
  have eq: "s1 = vo_storage v" by (rule loads_parsed(1) [OF s1 inv])
  note load = s1 [unfolded eq] and save = save1 [unfolded eq]
  note lp = loads_parsed(2,3) [OF load inv]
  obtain buf where buf: "parse_arm (ve_sb V) old_pwd buf = Ok sb" using lp(2) by blast
  obtain d1 where d1: "ve_connect V f (sg_depot (vo_storage u)) = (Ok (), d1)" "inv d1"
    "sbs d1 = sbs (sg_depot (vo_storage u))"
    using connects [of f "sg_depot (vo_storage u)"] before(2) by blast
  have "sb_load (ve_sb V) old_pwd ((vo_storage u)\<lparr>sg_depot := d1\<rparr>) = (Ok sb, (vo_storage u)\<lparr>sg_depot := d1\<rparr>)"
    using lp(1) d1 before(3) by (simp add: loads_def)
  then have u': "payload = sb_payload (su_body sb)" "match_repo_version (sb_ver (su_body sb))"
    "vo_info u' = info_of sb (vo_info u)" "sg_key (vo_storage u') = sb_key (su_body sb)"
    using before(1)
    by (auto simp: volume_open_def sg_connect_def sg_open_def on_sg_def on_info_def on_depot_def zoom_def bind_s_def
        d1(1) info_of_def split: result.splits prod.splits if_splits)
  let ?h = "(su_head sb)\<lparr>sh_cost := co\<rparr>"
  let ?sb = "sb\<lparr>su_head := ?h, su_body := next_body t (su_body sb)\<rparr>"
  have salt: "length (sh_salt (su_head (sb\<lparr>su_head := ?h\<rparr>))) = SALT_SIZE"
    using parsed_head(1) [OF buf] by simp
  have sv: "savable (ve_sb V) t new_pwd (sb\<lparr>su_head := ?h\<rparr>)"
    by (rule saved_savable [OF save salt])
  then obtain c where c: "crypto_new (ve_sodium V) co (sh_cipher (su_head sb)) = Ok c"
    by (auto simp: savable_def sb_fits_def split: result.splits)
  obtain d where d: "vo_storage v' = (vo_storage v)\<lparr>sg_draws := Suc (sg_draws (vo_storage v)), sg_depot := d\<rparr>"
    "\<forall>x. inv (sg_depot x) \<and> sbs (sg_depot x) = sbs d \<longrightarrow> sb_load (ve_sb V) new_pwd x = (Ok ?sb, x)"
    using save_load [OF inv sv] save by auto
  have "loads V inv sbs new_pwd (sbs (sg_depot (vo_storage w))) ?sb"
    using d w(2) by (simp add: loads_def)
  from open_loads [OF w(1,3) this] u' c
  obtain w' where w': "volume_open V new_pwd force w = (Ok payload, w')" "vo_info w' = info_of ?sb (vo_info w)"
    "sg_key (vo_storage w') = sb_key (su_body sb)"
    by (auto simp: next_body_def)
  have "info_of ?sb (vo_info w) = (info_of sb (vo_info u))\<lparr>vi_uri := vi_uri (vo_info w), vi_cost := co\<rparr>"
    by (cases "vo_info u"; cases "vo_info w") (simp add: info_of_def next_body_def)
  with w' u' show ?thesis by simp
qed

end

subsection \<open>Properties\<close>

text \<open>
  C31. A volume that was initialised can be opened again with the same password: the payload is the one
  that was stored, the master key, the cipher and the information of the volume are those of the
  initialised one. Only the location is that of the opening handle.
\<close>

theorem volume_open_after_init:
  assumes "volume_laws V dinv wal adr blk sbs unlocked"
    and "volume_init V clk pwd cfg payload v = (Ok (), v')"
    and "dinv (sg_depot (vo_storage w))" and "sbs (sg_depot (vo_storage w)) = sbs (sg_depot (vo_storage v'))"
    and "unlocked (sg_depot (vo_storage w)) \<or> force"
  shows "\<exists>w'. volume_open V pwd force w = (Ok payload, w') \<and>
    vo_info w' = (vo_info v')\<lparr>vi_uri := vi_uri (vo_info w)\<rparr> \<and>
    sg_key (vo_storage w') = sg_key (vo_storage v') \<and> sg_crypto (vo_storage w') = sg_crypto (vo_storage v')"
  by (rule volume_laws.init_open [OF assms])

text \<open>
  C32. Resetting the password keeps the volume: opening it with the new password gives the payload, the
  master key and the information that opening it with the old password gave before, with the new
  password hashing cost.
\<close>

theorem reset_password_keeps_volume:
  assumes "volume_laws V dinv wal adr blk sbs unlocked" and "dinv (sg_depot (vo_storage v))"
    and "reset_password V t old_pwd new_pwd co v = (Ok (), v')"
    and "volume_open V old_pwd f u = (Ok payload, u')" and "dinv (sg_depot (vo_storage u))"
    and "sbs (sg_depot (vo_storage u)) = sbs (sg_depot (vo_storage v))"
    and "dinv (sg_depot (vo_storage w))" and "sbs (sg_depot (vo_storage w)) = sbs (sg_depot (vo_storage v'))"
    and "unlocked (sg_depot (vo_storage w)) \<or> force"
  shows "\<exists>w'. volume_open V new_pwd force w = (Ok payload, w') \<and>
    vo_info w' = (vo_info u')\<lparr>vi_uri := vi_uri (vo_info w), vi_cost := co\<rparr> \<and>
    sg_key (vo_storage w') = sg_key (vo_storage u')"
  by (rule volume_laws.reset_open [OF assms])

end
