(* ===== verification/Reference_Volume.thy ===== *)
theory Reference_Volume
  imports Volume Reference_Env
begin

text \<open>
  Volumes on the memory back end, with a concrete serializer of super block bodies. The laws that
  super blocks and volumes rely on hold for them, and the theorems are applied to a volume that is
  initialised, torn, repaired, reopened and given a new password.
\<close>

subsection \<open>A serializer of bodies\<close>

definition put_bytes :: "bytes \<Rightarrow> bytes" where
  "put_bytes b = ser_n 8 (length b) @ b"

definition get_bytes :: "bytes \<Rightarrow> bytes \<times> bytes" where
  "get_bytes b = (let n = de_n (take 8 b); r = drop 8 b in (take n r, drop n r))"

definition ref_ser_body :: "sb_body \<Rightarrow> bytes res" where
  "ref_ser_body b =
     (if list_all (\<lambda>n. n < 256 ^ 8) [sb_seq b, sb_ctime b, sb_mtime b, length (sb_volume_id b), length (sb_key b),
          length (sb_uri b), length (sb_payload b)]
      then Ok (ser_n 8 (sb_seq b) @ ser_n 8 (sb_ctime b) @ ser_n 8 (sb_mtime b) @
        [major (sb_ver b), minor (sb_ver b), patch (sb_ver b), if sb_compress b then 1 else 0] @
        put_bytes (sb_volume_id b) @ put_bytes (sb_key b) @
        put_bytes (map (\<lambda>c. of_nat (of_char c)) (sb_uri b)) @ put_bytes (sb_payload b))
      else Err InvalidArgument)"

definition ref_deser_body :: "bytes \<Rightarrow> sb_body res" where
  "ref_deser_body x =
     (let (vid, x1) = get_bytes (drop 28 x); (k, x2) = get_bytes x1; (u, x3) = get_bytes x2; (p, _) = get_bytes x3
      in Ok \<lparr>sb_seq = de_n (take 8 x), sb_volume_id = vid,
        sb_ver = \<lparr>major = x ! 24, minor = x ! 25, patch = x ! 26\<rparr>, sb_key = k,
        sb_uri = map (\<lambda>b. char_of (unat b)) u, sb_compress = (x ! 27 = 1),
        sb_ctime = de_n (take 8 (drop 8 x)), sb_mtime = de_n (take 8 (drop 16 x)), sb_payload = p\<rparr>)"

lemma get_put_bytes: "length b < 256 ^ 8 \<Longrightarrow> get_bytes (put_bytes b @ r) = (b, r)"
  by (simp add: get_bytes_def put_bytes_def de_ser_n)

lemma uri_roundtrip: "map (\<lambda>b. char_of (unat b)) (map (\<lambda>c. of_nat (of_char c) :: byte) u) = u"
proof -
  have "char_of (unat (of_nat (of_char c) :: byte)) = c" for c
  proof -
    have "(of_char c :: nat) < 256" by simp
    then show ?thesis by (simp add: unat_of_nat)
  qed
  then show ?thesis by (simp add: o_def map_idI)
qed

lemma ref_body_roundtrip:
  assumes "ref_ser_body b = Ok x"
  shows "ref_deser_body x = Ok b"
proof -
  let ?P = "ser_n 8 (sb_seq b) @ ser_n 8 (sb_ctime b) @ ser_n 8 (sb_mtime b) @
    [major (sb_ver b), minor (sb_ver b), patch (sb_ver b), if sb_compress b then 1 else 0]"
  let ?u = "map (\<lambda>c. of_nat (of_char c)) (sb_uri b)"
  have n: "sb_seq b < 256 ^ 8" "sb_ctime b < 256 ^ 8" "sb_mtime b < 256 ^ 8" "length (sb_volume_id b) < 256 ^ 8"
    "length (sb_key b) < 256 ^ 8" "length ?u < 256 ^ 8" "length (sb_payload b) < 256 ^ 8"
    and x: "x = ?P @ put_bytes (sb_volume_id b) @ put_bytes (sb_key b) @ put_bytes ?u @ put_bytes (sb_payload b) @ []"
    using assms by (simp_all add: ref_ser_body_def split: if_splits)
  have d: "drop 28 x = put_bytes (sb_volume_id b) @ put_bytes (sb_key b) @ put_bytes ?u @ put_bytes (sb_payload b) @ []"
    by (simp add: x)
  have v: "x ! 24 = major (sb_ver b)" "x ! 25 = minor (sb_ver b)" "x ! 26 = patch (sb_ver b)"
    "x ! 27 = (if sb_compress b then 1 else 0)"
    by (simp_all add: x nth_append)
  have "de_n (take 8 x) = sb_seq b" "de_n (take 8 (drop 8 x)) = sb_ctime b" "de_n (take 8 (drop 16 x)) = sb_mtime b"
    using n(1-3) by (simp_all add: x de_ser_n)
  then show ?thesis
    unfolding ref_deser_body_def d v get_put_bytes [OF n(4)] get_put_bytes [OF n(5)] get_put_bytes [OF n(6)]
      get_put_bytes [OF n(7)] prod.case Let_def
    by (cases b; cases "sb_ver b") (simp add: uri_roundtrip del: map_map)
qed

subsection \<open>The laws\<close>

definition mem_sb_env :: "mem sb_env" where
  "mem_sb_env = \<lparr>be_st = mem_env, be_ser = ref_ser_body, be_deser = ref_deser_body\<rparr>"

definition mem_vol_env :: "mem vol_env" where
  "mem_vol_env = \<lparr>ve_sb = mem_sb_env, ve_exists = mem_exists, ve_connect = (\<lambda>f s. (Ok (), s)),
     ve_init = (\<lambda>c k. mem_init), ve_open = (\<lambda>c k f s. mem_open s f), ve_destroy = mem_destroy\<rparr>"

definition mem_unlocked :: "mem \<Rightarrow> bool" where
  "mem_unlocked s \<longleftrightarrow> (case depot_of s of None \<Rightarrow> True | Some d \<Rightarrow> \<not> is_opened d)"

lemma mem_sb_simps [simp]: "be_st mem_sb_env = mem_env" "be_ser mem_sb_env = ref_ser_body"
  "be_deser mem_sb_env = ref_deser_body" "ve_sb mem_vol_env = mem_sb_env"
  by (simp_all add: mem_sb_env_def mem_vol_env_def)

interpretation mem_sb: super_blocks mem_sb_env mem_inv mem_wal mem_adr mem_blk mem_sup
  by (intro super_blocks.intro super_blocks_axioms.intro)
    (use ref_body_roundtrip in \<open>simp_all add: mem_super.super_storable_axioms plain.sodium_laws_axioms\<close>)

interpretation mem_vol: volume_laws mem_vol_env mem_inv mem_wal mem_adr mem_blk mem_sup mem_unlocked
proof (intro volume_laws.intro volume_laws_axioms.intro)
  show "super_blocks (ve_sb mem_vol_env) mem_inv mem_wal mem_adr mem_blk mem_sup"
    by (simp add: mem_sb.super_blocks_axioms)
  show "\<exists>d'. ve_connect mem_vol_env f d = (Ok (), d') \<and>
      (mem_inv d \<longrightarrow> mem_inv d' \<and> mem_sup d' = mem_sup d \<and> (mem_unlocked d \<longrightarrow> mem_unlocked d'))" for f d
    by (simp add: mem_vol_env_def)
  show "mem_inv d'" if "ve_init mem_vol_env c k d = (Ok (), d')" for c k d d'
    using that by (auto simp: mem_vol_env_def mem_init_def lock_repo_def mem_view_defs mem_depot_new_def blks_sized_def
        split: prod.splits)
  show "\<exists>d'. ve_open mem_vol_env c k f d = (Ok (), d') \<and> mem_inv d' \<and> mem_sup d' = mem_sup d \<and>
      mem_wal d' = mem_wal d \<and> mem_adr d' = mem_adr d \<and> mem_blk d' = mem_blk d"
    if "mem_inv d" "mem_unlocked d \<or> f" for d f c k
    using that by (cases d) (auto simp: mem_vol_env_def mem_open_def lock_repo_def mem_unlocked_def mem_sup_def mem_view_defs
        split: option.splits)
  show "so_kdf (ve_sodium mem_vol_env) k i ctx \<noteq> None" for k i ctx
    by (simp add: plain_sodium_def)
qed

subsection \<open>A torn super block\<close>

definition ref_head :: sb_head where
  "ref_head = \<lparr>sh_salt = replicate SALT_SIZE 7, sh_cost = cost_default, sh_cipher = Xchacha\<rparr>"

definition ref_body :: sb_body where
  "ref_body = \<lparr>sb_seq = 3, sb_volume_id = [1, 2], sb_ver = repo_version, sb_key = [9], sb_uri = ''mem://r'',
     sb_compress = False, sb_ctime = 5, sb_mtime = 5, sb_payload = [4, 4]\<rparr>"

definition ref_sb :: super_blk where
  "ref_sb = \<lparr>su_head = ref_head, su_body = ref_body\<rparr>"

definition ref_sg :: "(nat \<rightharpoonup> bytes) \<Rightarrow> mem storage" where
  "ref_sg m = storage_new (mem_new ''r'', [''r'' \<mapsto> mem_depot_new\<lparr>super_blk_map := m\<rparr>]) 0"

text \<open>Only the first copy of a saved super block reached the storage.\<close>

definition ref_torn :: "mem storage" where
  "ref_torn = ref_sg ((mem_sup (sg_depot (snd (sb_save mem_sb_env 6 [112] ref_sb (ref_sg Map.empty)))))(1 := None))"

lemma ref_sg_inv [simp]: "mem_inv (sg_depot (ref_sg m))" "mem_sup (sg_depot (ref_sg m)) = m"
  by (simp_all add: ref_sg_def storage_new_def mem_view_defs mem_sup_def mem_new_def mem_depot_new_def blks_sized_def)

lemmas ref_fit_defs = savable_def sb_fits_def next_body_def ref_sb_def ref_head_def ref_body_def crypto_new_def
  hash_pwd_def plain_sodium_def ref_ser_body_def put_bytes_def HEAD_LEN_def nonce_size_def XCHACHA_NONCE_SIZE_def
  ATAG_SIZE_def SALT_SIZE_def BLK_SIZE_def

lemma ref_savable: "savable mem_sb_env 6 [112] ref_sb"
  by (simp add: ref_fit_defs)



subsection \<open>A volume\<close>

definition ref_cfg :: config where
  "ref_cfg = \<lparr>cf_cost = cost_default, cf_cipher = Xchacha, cf_compress = False, cf_opts = options_default\<rparr>"

definition ref_vol :: "mem volume" where
  "ref_vol = \<lparr>vo_info = info_default\<lparr>vi_uri := ''mem://r''\<rparr>, vo_storage = storage_new (mem_new ''r'', Map.empty) 0\<rparr>"

abbreviation ref_init :: "(unit, error, mem volume) eff" where
  "ref_init \<equiv> volume_init mem_vol_env (\<lambda>i. 5 + i) [112] ref_cfg [4, 4]"

definition ref_sb0 :: super_blk where
  "ref_sb0 = \<lparr>su_head = \<lparr>sh_salt = replicate SALT_SIZE 0, sh_cost = cost_default, sh_cipher = Xchacha\<rparr>,
    su_body = \<lparr>sb_seq = 0, sb_volume_id = eid_new (replicate EID_SIZE 0), sb_ver = repo_version,
      sb_key = replicate KEY_SIZE 0, sb_uri = ''mem://r'', sb_compress = False, sb_ctime = 5, sb_mtime = 0,
      sb_payload = [4, 4]\<rparr>\<rparr>"

lemma ref_init_ok:
  obtains v' where "ref_init ref_vol = (Ok (), v')" "mem_inv (sg_depot (vo_storage v'))"
    "sb_load mem_sb_env [112] (vo_storage v') =
       (Ok (ref_sb0\<lparr>su_body := next_body 6 (su_body ref_sb0)\<rparr>), vo_storage v')"
proof -
  let ?s = "(vo_storage ref_vol)\<lparr>sg_crypto := crypto_default, sg_key := replicate KEY_SIZE 0,
    sg_depot := ((mem_new ''r'')\<lparr>is_attached := True\<rparr>, [''r'' \<mapsto> mem_depot_new\<lparr>is_opened := True\<rparr>]), sg_draws := 3\<rparr>"
  have inv: "mem_inv (sg_depot ?s)"
    by (simp add: mem_view_defs mem_new_def mem_depot_new_def blks_sized_def)
  have sv: "savable mem_sb_env 6 [112] ref_sb0"
    by (simp add: ref_sb0_def ref_fit_defs eid_new_def EID_SIZE_def KEY_SIZE_def)
  let ?sb = "ref_sb0\<lparr>su_body := next_body 6 (su_body ref_sb0)\<rparr>"
  obtain d where d: "sb_save mem_sb_env 6 [112] ref_sb0 ?s = (Ok (), ?s\<lparr>sg_draws := Suc (sg_draws ?s), sg_depot := d\<rparr>)"
    "mem_inv d"
    and l: "\<forall>t. mem_inv (sg_depot t) \<and> mem_sup (sg_depot t) = mem_sup d \<longrightarrow> sb_load mem_sb_env [112] t = (Ok ?sb, t)"
    using mem_sb.save_load [OF inv sv] by (elim exE conjE) (rule that)
  have eq: "ref_init ref_vol =
      (case sb_save mem_sb_env 6 [112] ref_sb0 ?s of (r, s) \<Rightarrow>
        (r, ref_vol\<lparr>vo_info := (vo_info ref_vol)\<lparr>vi_id := eid_new (replicate EID_SIZE 0), vi_ver := repo_version,
           vi_compress := False, vi_cost := cost_default, vi_cipher := Xchacha, vi_ctime := 5\<rparr>, vo_storage := s\<rparr>))"
    by (simp add: volume_init_def sg_init_def sg_connect_def draw_def key_derive_def derive_from_key_def on_sg_def
        on_info_def on_depot_def zoom_def bind_s_def mem_vol_env_def ref_cfg_def crypto_new_def crypto_default_def
        ref_vol_def info_default_def plain_sodium_def ok_or_def mem_init_def lock_repo_def mem_new_def mem_depot_new_def
        storage_new_def numeral_3_eq_3 ref_sb0_def split: prod.splits)
  show ?thesis
    by (rule that [of "snd (ref_init ref_vol)"]) (simp_all add: eq d l)
qed

theorem volume_open_after_init_witness:
  "\<exists>v' w'. ref_init ref_vol = (Ok (), v') \<and> volume_open mem_vol_env [112] True v' = (Ok [4, 4], w')"
proof -
  obtain v' where v': "ref_init ref_vol = (Ok (), v')" "mem_inv (sg_depot (vo_storage v'))"
    by (rule ref_init_ok)
  from volume_open_after_init [OF mem_vol.volume_laws_axioms v'(1), of v' True] v'(2)
  obtain w' where "volume_open mem_vol_env [112] True v' = (Ok [4, 4], w')" by auto
  with v'(1) show ?thesis by blast
qed

theorem reset_password_keeps_volume_witness:
  "\<exists>v v' w'. reset_password mem_vol_env 9 [112] [113] cost_default v = (Ok (), v') \<and>
     volume_open mem_vol_env [113] True v' = (Ok [4, 4], w')"
proof -
  let ?sb = "ref_sb0\<lparr>su_body := next_body 6 (su_body ref_sb0)\<rparr>"
  obtain v where v: "ref_init ref_vol = (Ok (), v)" "mem_inv (sg_depot (vo_storage v))"
    and sb: "sb_load mem_sb_env [112] (vo_storage v) = (Ok ?sb, vo_storage v)"
    by (rule ref_init_ok)
  obtain u' where u': "volume_open mem_vol_env [112] True v = (Ok [4, 4], u')"
    using mem_vol.init_open [OF v(1,2), of True] by auto
  have sv: "savable mem_sb_env 9 [113] (?sb\<lparr>su_head := (su_head ?sb)\<lparr>sh_cost := cost_default\<rparr>\<rparr>)"
    by (simp add: ref_sb0_def ref_fit_defs eid_new_def EID_SIZE_def KEY_SIZE_def)
  obtain v' where v': "reset_password mem_vol_env 9 [112] [113] cost_default v = (Ok (), v')"
      "mem_inv (sg_depot (vo_storage v'))"
    using mem_sb.save_load [OF v(2) sv] sb
    by (auto simp: reset_password_def on_sg_def on_info_def zoom_def bind_s_def)
  from reset_password_keeps_volume [OF mem_vol.volume_laws_axioms v(2) v'(1) u' v(2) refl v'(2) refl, of True]
  obtain w' where "volume_open mem_vol_env [113] True v' = (Ok [4, 4], w')" by auto
  with v'(1) show ?thesis by blast
qed

end
