(* ===== verification/Index_Mgr.thy ===== *)
theory Index_Mgr
  imports Zbox_Effect Crypto Lru Armor "HOL-Library.List_Lexorder" "HOL-Library.Product_Lexorder"
begin

text \<open>
  \<open>src/src/volume/storage/index_mgr.rs\<close>: the index of entity addresses that the file and the cloud
  back end keep, a log structured merge tree. New addresses go to a table in memory; when it is full,
  its oldest entries become a sorted tab on level 0, and a level that is full is merged into the next
  one. An empty address marks a deletion.

  Tabs, the tree and the memory table are made persistent by three accessors (the trait \<open>Accessor\<close>),
  which are interfaces here; \<open>ix_ticks\<close> counts the random ids drawn so far. Ids and addresses are
  compared lexicographically, as vectors of bytes are.
\<close>

subsection \<open>Tabs\<close>

type_synonym tab_item = "eid \<times> bytes"

record tab =
  tb_id :: eid
  tb_seq :: nat
  tb_arm :: arm
  tb_items :: "tab_item list"

definition tab_new :: "eid \<Rightarrow> tab" where
  "tab_new e = \<lparr>tb_id = e, tb_seq = 0, tb_arm = arm_default, tb_items = []\<rparr>"

definition tab_of :: "eid \<Rightarrow> tab_item list \<Rightarrow> tab" where
  "tab_of e items = (tab_new e)\<lparr>tb_items := items\<rparr>"

definition tab_sort :: "tab_item list \<Rightarrow> tab_item list" where
  "tab_sort items = sort items"

text \<open>\<open>slice::binary_search_by\<close> of the standard library, on the range of \<open>n\<close> items from \<open>b\<close>.\<close>

function bsearch_base :: "tab_item list \<Rightarrow> eid \<Rightarrow> nat \<Rightarrow> nat \<Rightarrow> nat" where
  "bsearch_base items e b n =
     (if 1 < n
      then bsearch_base items e (if e < fst (items ! (b + n div 2)) then b else b + n div 2) (n - n div 2)
      else b)"
  by pat_completeness auto
termination
  by (relation "measure (\<lambda>(items, e, b, n). n)") auto

declare bsearch_base.simps [simp del]

definition bsearch :: "tab_item list \<Rightarrow> eid \<Rightarrow> nat option" where
  "bsearch items e =
     (if items = [] then None
      else let b = bsearch_base items e 0 (length items) in if fst (items ! b) = e then Some b else None)"

definition tab_search :: "tab_item list \<Rightarrow> eid \<Rightarrow> bytes option" where
  "tab_search items e = map_option (\<lambda>i. snd (items ! i)) (bsearch items e)"

text \<open>The loop of \<open>Tab::merge\<close>: the own items win, and an own deletion mark removes both.\<close>

fun merge_items :: "tab_item list \<Rightarrow> tab_item list \<Rightarrow> tab_item list" where
  "merge_items (low # ls) (high # hs) =
     (if fst low < fst high then low # merge_items ls (high # hs)
      else if fst low = fst high
      then (if snd low \<noteq> [] then [low] else []) @ merge_items ls hs
      else high # merge_items (low # ls) hs)"
| "merge_items [] hs = hs"
| "merge_items ls [] = ls"

subsection \<open>Levels\<close>

record tab_info =
  ti_id :: eid
  ti_begin :: eid
  ti_end :: eid
  ti_cnt :: nat

definition tab_info_new :: "tab \<Rightarrow> tab_info res" where
  "tab_info_new t =
     assert_r (tb_items t \<noteq> [])
       (Ok \<lparr>ti_id = tb_id t, ti_begin = fst (hd (tb_items t)), ti_end = fst (last (tb_items t)),
            ti_cnt = length (tb_items t)\<rparr>)"

definition ti_contains :: "tab_info \<Rightarrow> eid \<Rightarrow> bool" where
  "ti_contains t e = (ti_begin t \<le> e \<and> e \<le> ti_end t)"

definition is_overlapping :: "tab_info \<Rightarrow> eid \<Rightarrow> eid \<Rightarrow> bool" where
  "is_overlapping t b e = (\<not> (e < ti_begin t \<or> ti_end t < b))"

record level =
  lv_num :: nat
  lv_tabs :: "tab_info list"

definition ITEM_CAP_BASE :: nat where "ITEM_CAP_BASE = 4096"

definition level_new :: "nat \<Rightarrow> level" where
  "level_new n = \<lparr>lv_num = n, lv_tabs = []\<rparr>"

definition item_cap :: "nat \<Rightarrow> nat" where
  "item_cap n = ITEM_CAP_BASE * 10 ^ n"

definition item_cnt :: "level \<Rightarrow> nat" where
  "item_cnt l = sum_list (map ti_cnt (lv_tabs l))"

definition level_is_full :: "level \<Rightarrow> bool" where
  "level_is_full l = (item_cap (lv_num l) \<le> item_cnt l)"

definition find_tabs_contain :: "level \<Rightarrow> eid \<Rightarrow> eid list" where
  "find_tabs_contain l e = map ti_id (filter (\<lambda>t. ti_contains t e) (rev (lv_tabs l)))"

definition level_push :: "tab \<Rightarrow> level \<Rightarrow> level res" where
  "level_push t l = bind_r (tab_info_new t) (\<lambda>i. Ok (l\<lparr>lv_tabs := lv_tabs l @ [i]\<rparr>))"

definition level_remove :: "eid \<Rightarrow> level \<Rightarrow> level res" where
  "level_remove e l =
     bind_r (unwrap_opt (position (\<lambda>t. ti_id t = e) (lv_tabs l))) (\<lambda>i.
     Ok (l\<lparr>lv_tabs := take i (lv_tabs l) @ drop (Suc i) (lv_tabs l)\<rparr>))"

subsection \<open>The state\<close>

record lsmt =
  ls_id :: eid
  ls_seq :: nat
  ls_arm :: arm
  ls_lvls :: "level list"
  ls_cache :: "(eid, tab) lru"

definition TAB_CNT_BASE :: nat where "TAB_CNT_BASE = 4"
definition TAB_CACHE_SIZE :: nat where "TAB_CACHE_SIZE = 4"

definition lsmt_new :: lsmt where
  "lsmt_new = \<lparr>ls_id = eid_new_empty, ls_seq = 0, ls_arm = arm_default, ls_lvls = [level_new 0],
     ls_cache = lru_new TAB_CACHE_SIZE\<rparr>"

record memtab =
  mm_id :: eid
  mm_seq :: nat
  mm_arm :: arm
  mm_map :: "(eid, bytes) lhm"
  mm_changed :: bool

definition MEMTAB_CAPACITY :: nat where "MEMTAB_CAPACITY = 4 * 1024"
definition RESIDENCE_CAP :: nat where "RESIDENCE_CAP = 3 * 1024"

definition memtab_new :: memtab where
  "memtab_new = \<lparr>mm_id = eid_new_empty, mm_seq = 0, mm_arm = arm_default, mm_map = [], mm_changed = False\<rparr>"

text \<open>The trait \<open>Accessor\<close>; its crypto context is part of the state behind it.\<close>

record ('i, 'v) accessor =
  ac_ctx :: "crypto \<Rightarrow> key \<Rightarrow> 'v \<Rightarrow> 'v"
  ac_load :: "eid \<Rightarrow> ('i, error, 'v) eff"
  ac_save :: "(unit, error, 'i \<times> 'v) eff"
  ac_remove :: "eid \<Rightarrow> (unit, error, 'v) eff"

record 'v ix_env =
  ie_lsmt :: "(lsmt, 'v) accessor"
  ie_memtab :: "(memtab, 'v) accessor"
  ie_tab :: "(tab, 'v) accessor"
  ie_eid :: "nat \<Rightarrow> eid"
  ie_cache :: "(eid, tab) lhm_ops"
  ie_map :: "(eid, bytes) lhm_ops"
  ie_sodium :: sodium

record 'v index_mgr =
  ix_lsmt :: lsmt
  ix_memtab :: memtab
  ix_disk :: 'v
  ix_ticks :: nat

definition index_new :: "'v \<Rightarrow> nat \<Rightarrow> 'v index_mgr" where
  "index_new v n = \<lparr>ix_lsmt = lsmt_new, ix_memtab = memtab_new, ix_disk = v, ix_ticks = n\<rparr>"

definition on_disk :: "('a, 'e, 'v) eff \<Rightarrow> ('a, 'e, 'v index_mgr) eff" where
  "on_disk m = zoom ix_disk (\<lambda>v s. s\<lparr>ix_disk := v\<rparr>) m"

definition upd_lsmt :: "(lsmt \<Rightarrow> lsmt) \<Rightarrow> (unit, 'e, 'v index_mgr) eff" where
  "upd_lsmt g = modify_s (\<lambda>s. s\<lparr>ix_lsmt := g (ix_lsmt s)\<rparr>)"

definition upd_memtab :: "(memtab \<Rightarrow> memtab) \<Rightarrow> (unit, 'e, 'v index_mgr) eff" where
  "upd_memtab g = modify_s (\<lambda>s. s\<lparr>ix_memtab := g (ix_memtab s)\<rparr>)"

definition fresh_id :: "'v ix_env \<Rightarrow> (eid, 'e, 'v index_mgr) eff" where
  "fresh_id E = (\<lambda>s. (Ok (ie_eid E (ix_ticks s)), s\<lparr>ix_ticks := Suc (ix_ticks s)\<rparr>))"

definition level_at :: "nat \<Rightarrow> (level, 'e, 'v index_mgr) eff" where
  "level_at n = (\<lambda>s. (nth_r (ls_lvls (ix_lsmt s)) n, s))"

text \<open>Change a level, which may panic.\<close>

definition on_level :: "nat \<Rightarrow> (level \<Rightarrow> level res) \<Rightarrow> (unit, error, 'v index_mgr) eff" where
  "on_level n g =
     bind_s (level_at n) (\<lambda>l.
     bind_s (lift_r (g l)) (\<lambda>l'. upd_lsmt (\<lambda>t. t\<lparr>ls_lvls := (ls_lvls t)[n := l']\<rparr>)))"

definition save_tab :: "'v ix_env \<Rightarrow> tab \<Rightarrow> (tab, error, 'v index_mgr) eff" where
  "save_tab E t = (\<lambda>s. case ac_save (ie_tab E) (t, ix_disk s) of
     (r, (t', v)) \<Rightarrow> (bind_r r (\<lambda>_. Ok t'), s\<lparr>ix_disk := v\<rparr>))"

subsection \<open>Looking up\<close>

definition cached_tab :: "'v ix_env \<Rightarrow> eid \<Rightarrow> (tab, error, 'v index_mgr) eff" where
  "cached_tab E tab_id =
     bind_s get_s (\<lambda>s.
     bind_s (if contains_key (ls_cache (ix_lsmt s)) tab_id then ret_s ()
             else bind_s (on_disk (ac_load (ie_tab E) tab_id)) (\<lambda>t.
                  upd_lsmt (\<lambda>l. l\<lparr>ls_cache := snd (lru_insert (ie_cache E) count_meter no_pin (ls_cache l) tab_id t)\<rparr>)))
       (\<lambda>_.
     (\<lambda>s. case get_refresh (ie_cache E) (ls_cache (ix_lsmt s)) tab_id of
        (r, c) \<Rightarrow> (unwrap_opt r, s\<lparr>ix_lsmt := (ix_lsmt s)\<lparr>ls_cache := c\<rparr>\<rparr>))))"

text \<open>\<open>Some []\<close> is a deletion mark.\<close>

fun search_tabs :: "'v ix_env \<Rightarrow> eid \<Rightarrow> eid list \<Rightarrow> (bytes option, error, 'v index_mgr) eff" where
  "search_tabs E e [] = ret_s None"
| "search_tabs E e (tab_id # rest) =
     bind_s (cached_tab E tab_id) (\<lambda>t.
       case tab_search (tb_items t) e of
         Some addr \<Rightarrow> ret_s (Some addr)
       | None \<Rightarrow> search_tabs E e rest)"

fun search_lvls :: "'v ix_env \<Rightarrow> eid \<Rightarrow> level list \<Rightarrow> (bytes option, error, 'v index_mgr) eff" where
  "search_lvls E e [] = ret_s None"
| "search_lvls E e (l # ls) =
     bind_s (search_tabs E e (find_tabs_contain l e)) (\<lambda>r.
       case r of Some addr \<Rightarrow> ret_s (Some addr) | None \<Rightarrow> search_lvls E e ls)"

definition not_mark :: "bytes option \<Rightarrow> bytes res" where
  "not_mark r = (case r of None \<Rightarrow> Err NotFound | Some a \<Rightarrow> if a = [] then Err NotFound else Ok a)"

definition lsmt_get_address :: "'v ix_env \<Rightarrow> eid \<Rightarrow> (bytes, error, 'v index_mgr) eff" where
  "lsmt_get_address E e =
     bind_s get_s (\<lambda>s.
     bind_s (search_lvls E e (ls_lvls (ix_lsmt s))) (\<lambda>r. lift_r (not_mark r)))"

definition memtab_get_address :: "'v ix_env \<Rightarrow> eid \<Rightarrow> (bytes option, error, 'v index_mgr) eff" where
  "memtab_get_address E e = (\<lambda>s.
     (Ok (map_of (mm_map (ix_memtab s)) e),
      s\<lparr>ix_memtab := (ix_memtab s)\<lparr>mm_map := lhm_refresh (ie_map E) (mm_map (ix_memtab s)) e\<rparr>\<rparr>))"

definition index_get :: "'v ix_env \<Rightarrow> eid \<Rightarrow> (bytes, error, 'v index_mgr) eff" where
  "index_get E e =
     bind_s (memtab_get_address E e) (\<lambda>r.
       case r of Some addr \<Rightarrow> lift_r (not_mark (Some addr)) | None \<Rightarrow> lsmt_get_address E e)"

subsection \<open>Compaction\<close>

fun load_all :: "'v ix_env \<Rightarrow> tab_info list \<Rightarrow> (tab_item list, error, 'v index_mgr) eff" where
  "load_all E [] = ret_s []"
| "load_all E (i # is) =
     bind_s (on_disk (ac_load (ie_tab E) (ti_id i))) (\<lambda>t.
     bind_s (load_all E is) (\<lambda>items. ret_s (tb_items t @ items)))"

definition read_all_tabs_in_level :: "'v ix_env \<Rightarrow> nat \<Rightarrow> (tab, error, 'v index_mgr) eff" where
  "read_all_tabs_in_level E n =
     bind_s (level_at n) (\<lambda>l.
     bind_s (fresh_id E) (\<lambda>e.
     bind_s (load_all E (lv_tabs l)) (\<lambda>items.
     ret_s (tab_of e (if n = 0 then tab_sort items else items)))))"

definition combine_tabs :: "'v ix_env \<Rightarrow> tab_info list \<Rightarrow> (tab, error, 'v index_mgr) eff" where
  "combine_tabs E tabs =
     bind_s (fresh_id E) (\<lambda>e. bind_s (load_all E tabs) (\<lambda>items. ret_s (tab_of e items)))"

definition find_overlapping :: "nat \<Rightarrow> tab \<Rightarrow> (tab_info list, error, 'v index_mgr) eff" where
  "find_overlapping n t =
     bind_s (level_at n) (\<lambda>l.
     bind_s (assert_s (tb_items t \<noteq> [])) (\<lambda>_.
     ret_s (filter (\<lambda>i. is_overlapping i (fst (hd (tb_items t))) (fst (last (tb_items t)))) (lv_tabs l))))"

fun remove_tabs :: "'v ix_env \<Rightarrow> eid list \<Rightarrow> (unit, error, 'v index_mgr) eff" where
  "remove_tabs E [] = ret_s ()"
| "remove_tabs E (e # es) = bind_s (on_disk (ac_remove (ie_tab E) e)) (\<lambda>_. remove_tabs E es)"

definition level_clear :: "'v ix_env \<Rightarrow> nat \<Rightarrow> (unit, error, 'v index_mgr) eff" where
  "level_clear E n =
     bind_s (level_at n) (\<lambda>l.
     bind_s (remove_tabs E (map ti_id (lv_tabs l))) (\<lambda>_.
     on_level n (\<lambda>l. Ok (l\<lparr>lv_tabs := []\<rparr>))))"

fun drop_overlap :: "'v ix_env \<Rightarrow> nat \<Rightarrow> tab_info list \<Rightarrow> (unit, error, 'v index_mgr) eff" where
  "drop_overlap E n [] = ret_s ()"
| "drop_overlap E n (i # is) =
     bind_s (on_disk (ac_remove (ie_tab E) (ti_id i))) (\<lambda>_.
     bind_s (on_level n (level_remove (ti_id i))) (\<lambda>_. drop_overlap E n is))"

text \<open>\<open>divide\<close> makes all tabs first; then they are saved one by one.\<close>

fun divide_items :: "'v ix_env \<Rightarrow> tab_item list list \<Rightarrow> (tab list, error, 'v index_mgr) eff" where
  "divide_items E [] = ret_s []"
| "divide_items E (c # cs) =
     bind_s (fresh_id E) (\<lambda>e. bind_s (divide_items E cs) (\<lambda>ts. ret_s (tab_of e c # ts)))"

fun push_tabs :: "'v ix_env \<Rightarrow> nat \<Rightarrow> tab list \<Rightarrow> (unit, error, 'v index_mgr) eff" where
  "push_tabs E n [] = ret_s ()"
| "push_tabs E n (t # ts) =
     bind_s (save_tab E t) (\<lambda>t'. bind_s (on_level n (level_push t')) (\<lambda>_. push_tabs E n ts))"

definition compact :: "'v ix_env \<Rightarrow> nat \<Rightarrow> (unit, error, 'v index_mgr) eff" where
  "compact E cur =
     bind_s (read_all_tabs_in_level E cur) (\<lambda>t.
     bind_s get_s (\<lambda>s.
       if length (ls_lvls (ix_lsmt s)) \<le> cur + 1
       then
         bind_s (save_tab E t) (\<lambda>t'.
         bind_s (level_clear E cur) (\<lambda>_.
         bind_s (lift_r (level_push t' (level_new (cur + 1)))) (\<lambda>l.
         upd_lsmt (\<lambda>lt. lt\<lparr>ls_lvls := ls_lvls lt @ [l]\<rparr>))))
       else
         bind_s (find_overlapping (cur + 1) t) (\<lambda>overlap.
         bind_s (combine_tabs E overlap) (\<lambda>ot.
         bind_s (fresh_id E) (\<lambda>_.
         bind_s (drop_overlap E (cur + 1) overlap) (\<lambda>_.
         bind_s (divide_items E (chunks (item_cap (cur + 1) div (TAB_CNT_BASE * (cur + 2)))
                   (merge_items (tb_items t) (tb_items ot)))) (\<lambda>ts.
         bind_s (push_tabs E (cur + 1) ts) (\<lambda>_.
         level_clear E cur))))))))"

fun compact_lvls :: "'v ix_env \<Rightarrow> nat list \<Rightarrow> (unit, error, 'v index_mgr) eff" where
  "compact_lvls E [] = ret_s ()"
| "compact_lvls E (n # ns) =
     bind_s (level_at n) (\<lambda>l.
     bind_s (if level_is_full l then compact E n else ret_s ()) (\<lambda>_. compact_lvls E ns))"

definition push_young :: "'v ix_env \<Rightarrow> tab \<Rightarrow> (unit, error, 'v index_mgr) eff" where
  "push_young E young =
     bind_s (save_tab E young) (\<lambda>t.
     bind_s (on_level 0 (level_push t)) (\<lambda>_.
     bind_s get_s (\<lambda>s. compact_lvls E [0 ..< length (ls_lvls (ix_lsmt s))])))"

subsection \<open>The memory table and the manager\<close>

definition memtab_is_full :: "memtab \<Rightarrow> bool" where
  "memtab_is_full m = (MEMTAB_CAPACITY \<le> length (mm_map m))"

definition memtab_insert :: "'v ix_env \<Rightarrow> eid \<Rightarrow> bytes \<Rightarrow> memtab \<Rightarrow> memtab" where
  "memtab_insert E e addr m = m\<lparr>mm_map := lhm_insert (ie_map E) (mm_map m) e addr, mm_changed := True\<rparr>"

definition extract_young :: "'v ix_env \<Rightarrow> (tab, error, 'v index_mgr) eff" where
  "extract_young E =
     bind_s get_s (\<lambda>s.
     bind_s (lift_r (sub_r (length (mm_map (ix_memtab s))) RESIDENCE_CAP)) (\<lambda>n.
     bind_s (fresh_id E) (\<lambda>e.
     ret_s (tab_of e (tab_sort (take n (mm_map (ix_memtab s))))))))"

definition evict_young :: "'v ix_env \<Rightarrow> tab_item list \<Rightarrow> memtab \<Rightarrow> memtab" where
  "evict_young E items m =
     m\<lparr>mm_map := fold (\<lambda>i acc. lhm_remove (ie_map E) acc (fst i)) items (mm_map m), mm_changed := True\<rparr>"

definition save_lsmt :: "'v ix_env \<Rightarrow> (unit, error, 'v index_mgr) eff" where
  "save_lsmt E = (\<lambda>s. case ac_save (ie_lsmt E) (ix_lsmt s, ix_disk s) of
     (r, (t, v)) \<Rightarrow> (r, s\<lparr>ix_lsmt := t, ix_disk := v\<rparr>))"

definition save_memtab :: "'v ix_env \<Rightarrow> (unit, error, 'v index_mgr) eff" where
  "save_memtab E = (\<lambda>s. case ac_save (ie_memtab E) (ix_memtab s, ix_disk s) of
     (r, (t, v)) \<Rightarrow> (r, s\<lparr>ix_memtab := t, ix_disk := v\<rparr>))"

definition index_insert :: "'v ix_env \<Rightarrow> eid \<Rightarrow> bytes \<Rightarrow> (unit, error, 'v index_mgr) eff" where
  "index_insert E e addr =
     bind_s (upd_memtab (memtab_insert E e addr)) (\<lambda>_.
     bind_s get_s (\<lambda>s.
       if \<not> memtab_is_full (ix_memtab s) then ret_s ()
       else bind_s (extract_young E) (\<lambda>young.
            bind_s (push_young E young) (\<lambda>_.
            bind_s (save_lsmt E) (\<lambda>_.
            upd_memtab (evict_young E (tb_items young)))))))"

definition index_delete :: "'v ix_env \<Rightarrow> eid \<Rightarrow> (unit, error, 'v index_mgr) eff" where
  "index_delete E e = index_insert E e []"

definition index_flush :: "'v ix_env \<Rightarrow> (unit, error, 'v index_mgr) eff" where
  "index_flush E =
     bind_s get_s (\<lambda>s.
       if mm_changed (ix_memtab s)
       then bind_s (save_memtab E) (\<lambda>_. upd_memtab (\<lambda>m. m\<lparr>mm_changed := False\<rparr>))
       else ret_s ())"

definition index_init :: "'v ix_env \<Rightarrow> (unit, error, 'v index_mgr) eff" where
  "index_init E = bind_s (save_lsmt E) (\<lambda>_. save_memtab E)"

definition lsmt_open :: "'v ix_env \<Rightarrow> (unit, error, 'v index_mgr) eff" where
  "lsmt_open E =
     bind_s get_s (\<lambda>s.
     bind_s (on_disk (ac_load (ie_lsmt E) (ls_id (ix_lsmt s)))) (\<lambda>t.
     upd_lsmt (\<lambda>l. l\<lparr>ls_seq := ls_seq t, ls_arm := ls_arm t, ls_lvls := ls_lvls t\<rparr>)))"

definition index_open :: "'v ix_env \<Rightarrow> (unit, error, 'v index_mgr) eff" where
  "index_open E =
     bind_s (lsmt_open E) (\<lambda>_.
     bind_s get_s (\<lambda>s.
     bind_s (on_disk (ac_load (ie_memtab E) (mm_id (ix_memtab s)))) (\<lambda>m. upd_memtab (\<lambda>_. m))))"

definition SUBKEY_ID_LSMT :: nat where "SUBKEY_ID_LSMT = 17"
definition SUBKEY_ID_MEMTAB :: nat where "SUBKEY_ID_MEMTAB = 18"
definition SUBKEY_ID_TAB :: nat where "SUBKEY_ID_TAB = 19"

text \<open>\<open>Key::derive\<close> and \<open>Eid::from_slice\<close> panic when they fail.\<close>

definition sub_key :: "'v ix_env \<Rightarrow> key \<Rightarrow> nat \<Rightarrow> key res" where
  "sub_key E k i = (case derive_from_key (ie_sodium E) k i of Ok x \<Rightarrow> Ok x | _ \<Rightarrow> Panic)"

definition derived_id :: "'v ix_env \<Rightarrow> key \<Rightarrow> eid res" where
  "derived_id E k = bind_r (sub_key E k 0) eid_from_slice"

definition index_set_crypto_ctx :: "'v ix_env \<Rightarrow> crypto \<Rightarrow> key \<Rightarrow> (unit, error, 'v index_mgr) eff" where
  "index_set_crypto_ctx E c k =
     bind_s (lift_r (sub_key E k SUBKEY_ID_LSMT)) (\<lambda>k1.
     bind_s (lift_r (derived_id E k1)) (\<lambda>e1.
     bind_s (upd_lsmt (\<lambda>l. l\<lparr>ls_id := e1\<rparr>)) (\<lambda>_.
     bind_s (on_disk (modify_s (ac_ctx (ie_lsmt E) c k1))) (\<lambda>_.
     bind_s (lift_r (sub_key E k SUBKEY_ID_MEMTAB)) (\<lambda>k2.
     bind_s (lift_r (derived_id E k2)) (\<lambda>e2.
     bind_s (upd_memtab (\<lambda>m. m\<lparr>mm_id := e2\<rparr>)) (\<lambda>_.
     bind_s (on_disk (modify_s (ac_ctx (ie_memtab E) c k2))) (\<lambda>_.
     bind_s (lift_r (sub_key E k SUBKEY_ID_TAB)) (\<lambda>k3.
     on_disk (modify_s (ac_ctx (ie_tab E) c k3)))))))))))"

end
