(* ===== verification/Index_Laws.thy ===== *)
theory Index_Laws
  imports Index_Mgr
begin

text \<open>
  The index as a finite map. A tab is an association list with strictly increasing keys; searching
  and merging tabs are look-up and overlay. The locale \<open>tab_store\<close> says what the index relies on in
  its accessors, and inside it the manager is shown to implement a map as long as no level is full.
\<close>

subsection \<open>Tabs as maps\<close>

definition tab_ok :: "tab_item list \<Rightarrow> bool" where
  "tab_ok items \<longleftrightarrow> sorted_wrt (<) (map fst items)"

lemma tab_ok_simps [simp]:
  "tab_ok []" "tab_ok (i # is) \<longleftrightarrow> (\<forall>j \<in> set is. fst i < fst j) \<and> tab_ok is"
  by (simp_all add: tab_ok_def)

lemma tab_ok_distinct: "tab_ok items \<Longrightarrow> distinct (map fst items)"
  by (induction items) auto

lemma tab_ok_nth: "tab_ok items \<Longrightarrow> i < j \<Longrightarrow> j < length items \<Longrightarrow> fst (items ! i) < fst (items ! j)"
  unfolding tab_ok_def by (simp add: sorted_wrt_iff_nth_less)

lemma bsearch_base_finds:
  assumes "tab_ok items" and "b + n \<le> length items" and "b \<le> p" "p < b + n"
  shows "bsearch_base items (fst (items ! p)) b n = p"
  using assms
proof (induction n arbitrary: b rule: less_induct)
  case (less n)
  show ?case
  proof (cases "1 < n")
    case True
    let ?m = "b + n div 2"
    show ?thesis
    proof (cases "fst (items ! p) < fst (items ! ?m)")
      case lt: True
      have "p < ?m"
        using lt tab_ok_nth [OF less.prems(1), of ?m p] less.prems(2,4) by (cases p ?m rule: linorder_cases) auto
      then show ?thesis
        using less.IH [of "n - n div 2" b] less.prems True lt by (subst bsearch_base.simps) simp
    next
      case ge: False
      have "?m < length items" using True less.prems(2) by linarith
      then have "?m \<le> p"
        using ge tab_ok_nth [OF less.prems(1), of p ?m] by (meson not_le)
      then show ?thesis
        using less.IH [of "n - n div 2" ?m] less.prems True ge by (subst bsearch_base.simps) simp
    qed
  next
    case False
    with less.prems show ?thesis by (subst bsearch_base.simps) simp
  qed
qed

lemma bsearch_base_bound: "0 < n \<Longrightarrow> bsearch_base items e b n < b + n"
proof (induction n arbitrary: b rule: less_induct)
  case (less n)
  show ?case
  proof (cases "1 < n")
    case True
    have "bsearch_base items e b' (n - n div 2) < b' + (n - n div 2)" for b'
      using less.IH [of "n - n div 2" b'] True by simp
    from this [of b] this [of "b + n div 2"] True show ?thesis
      by (subst bsearch_base.simps) (auto split: if_splits)
  next
    case False
    with less.prems show ?thesis by (subst bsearch_base.simps) simp
  qed
qed

text \<open>The binary search finds an item exactly when it is there.\<close>

lemma tab_search_map_of:
  assumes "tab_ok items"
  shows "tab_search items e = map_of items e"
proof (cases "map_of items e")
  case None
  have "fst (items ! bsearch_base items e 0 (length items)) \<noteq> e" if "items \<noteq> []"
    using bsearch_base_bound [of "length items" items e 0] that None
    by (simp add: map_of_eq_None_iff) (metis image_eqI nth_mem)
  with None show ?thesis by (simp add: tab_search_def bsearch_def Let_def)
next
  case (Some a)
  then obtain p where p: "p < length items" "items ! p = (e, a)"
    by (meson in_set_conv_nth map_of_SomeD)
  then have "bsearch_base items e 0 (length items) = p"
    using bsearch_base_finds [OF assms, of 0 "length items" p] by simp
  with p Some show ?thesis by (auto simp: tab_search_def bsearch_def)
qed

lemma tab_sort_ok:
  assumes "distinct (map fst items)"
  shows "tab_ok (tab_sort items)" and "map_of (tab_sort items) = map_of items"
proof -
  have d: "distinct (map fst (sort items))"
    using assms by (metis distinct_map distinct_sort set_sort)
  have "sorted (map fst (sort items))"
    unfolding sorted_map by (rule sorted_wrt_mono_rel [OF _ sorted_sort]) (auto simp: less_eq_prod_def)
  with d show "tab_ok (tab_sort items)"
    by (simp add: tab_ok_def tab_sort_def strict_sorted_iff)
  show "map_of (tab_sort items) = map_of items"
    using assms d by (subst map_of_inject_set) (simp_all add: tab_sort_def)
qed

lemma merge_subset: "set (merge_items ls hs) \<subseteq> set ls \<union> set hs"
  by (induction ls hs rule: merge_items.induct) (auto split: if_splits)

lemma map_of_beyond: "(\<forall>j \<in> set is. e < fst j) \<Longrightarrow> map_of (is :: tab_item list) e = None"
  by (induction "is") auto

text \<open>Merging lays the upper tab over the lower one; a deletion mark takes the older entry with it.\<close>

lemma merge_items_sorted: "tab_ok ls \<Longrightarrow> tab_ok hs \<Longrightarrow> tab_ok (merge_items ls hs)"
proof (induction ls hs rule: merge_items.induct)
  case (1 low ls high hs)
  consider "fst low < fst high" | "fst low = fst high" | "fst high < fst low"
    using less_linear by blast
  then show ?case
  proof cases
    case 1
    with "1.IH"(1) "1.prems" show ?thesis
      using merge_subset [of ls "high # hs"] by fastforce
  next
    case 2
    with "1.IH"(2) "1.prems" show ?thesis
      using merge_subset [of ls hs] by fastforce
  next
    case 3
    with "1.IH"(3) "1.prems" show ?thesis
      using merge_subset [of "low # ls" hs] by fastforce
  qed
qed simp_all

lemma map_of_merge:
  assumes "tab_ok ls" and "tab_ok hs"
  shows "map_of (merge_items ls hs) e =
    (case map_of ls e of
       Some a \<Rightarrow> if a = [] \<and> map_of hs e \<noteq> None then None else Some a
     | None \<Rightarrow> map_of hs e)"
  using assms
proof (induction ls hs rule: merge_items.induct)
  case (1 low ls high hs)
  obtain x a y b where xy: "low = (x, a)" "high = (y, b)" by (cases low; cases high)
  consider "x < y" | "x = y" | "y < x" using less_linear by blast
  then show ?case
  proof cases
    case 1
    have "map_of (high # hs) x = None"
      using 1 "1.prems"(2) xy by (intro map_of_beyond) auto
    with "1.IH"(1) "1.prems" 1 xy show ?thesis by (cases "e = x") simp_all
  next
    case 2
    have "map_of ls x = None" "map_of hs x = None"
      using 2 "1.prems" xy by (auto intro!: map_of_beyond)
    with "1.IH"(2) "1.prems" 2 show ?thesis
      unfolding xy by (cases "e = x") (simp_all split: option.splits)
  next
    case 3
    have "map_of (low # ls) y = None"
      using 3 "1.prems"(1) xy by (intro map_of_beyond) auto
    then have "map_of (merge_items (low # ls) (high # hs)) e =
        (if e = y then Some b else map_of (merge_items (low # ls) hs) e)"
      using xy 3 less_not_sym [OF 3] less_imp_neq [OF 3] by simp
    also have "map_of (merge_items (low # ls) hs) e =
      (case map_of (low # ls) e of
         Some a \<Rightarrow> if a = [] \<and> map_of hs e \<noteq> None then None else Some a
       | None \<Rightarrow> map_of hs e)"
      using "1.IH"(3) "1.prems" less_not_sym [OF 3] less_imp_neq [OF 3] xy by simp
    finally have A: "map_of (merge_items (low # ls) (high # hs)) e =
      (if e = y then Some b else case map_of (low # ls) e of
         Some a \<Rightarrow> if a = [] \<and> map_of hs e \<noteq> None then None else Some a
       | None \<Rightarrow> map_of hs e)" .
    have B: "map_of (high # hs) e = (if e = y then Some b else map_of hs e)" by (simp add: xy)
    show ?thesis
      unfolding A B using \<open>map_of (low # ls) y = None\<close> by (cases "e = y") (simp_all del: map_of.simps)
  qed
qed (simp_all split: option.splits)

subsection \<open>What the index contains\<close>

text \<open>The first entry for \<open>e\<close> in a list of tabs, newest first; \<open>M\<close> are the stored tabs.\<close>

fun hit :: "(eid \<rightharpoonup> tab_item list) \<Rightarrow> eid list \<Rightarrow> eid \<Rightarrow> bytes option" where
  "hit M [] e = None"
| "hit M (t # ts) e =
     (case Option.bind (M t) (\<lambda>items. map_of items e) of Some a \<Rightarrow> Some a | None \<Rightarrow> hit M ts e)"

definition lvl_ids :: "level \<Rightarrow> eid list" where
  "lvl_ids l = rev (map ti_id (lv_tabs l))"

abbreviation all_ids :: "lsmt \<Rightarrow> eid list" where
  "all_ids t \<equiv> concat (map lvl_ids (ls_lvls t))"

definition ix_view :: "(eid \<rightharpoonup> tab_item list) \<Rightarrow> 'v index_mgr \<Rightarrow> eid \<Rightarrow> bytes option" where
  "ix_view M s e =
     (case map_of (mm_map (ix_memtab s)) e of Some a \<Rightarrow> Some a | None \<Rightarrow> hit M (all_ids (ix_lsmt s)) e)"

definition info_ok :: "(eid \<rightharpoonup> tab_item list) \<Rightarrow> tab_info \<Rightarrow> bool" where
  "info_ok M i \<longleftrightarrow> (\<exists>items. M (ti_id i) = Some items \<and> items \<noteq> [] \<and> tab_ok items \<and>
     ti_begin i = fst (hd items) \<and> ti_end i = fst (last items) \<and> ti_cnt i = length items)"

text \<open>
  The invariant: the memory table has room, every tab of a level is stored and described correctly,
  cached tabs are as stored, and ids that were not drawn yet are not in use.
\<close>

definition lsmt_ok :: "(eid \<rightharpoonup> tab_item list) \<Rightarrow> lsmt \<Rightarrow> bool" where
  "lsmt_ok M t \<longleftrightarrow> lru_ok count_meter (ls_cache t) \<and> length (lmap (ls_cache t)) \<le> capacity (ls_cache t) \<and>
     capacity (ls_cache t) = TAB_CACHE_SIZE \<and> ls_lvls t \<noteq> [] \<and>
     (\<forall>l \<in> set (ls_lvls t). \<forall>i \<in> set (lv_tabs l). info_ok M i) \<and>
     (\<forall>e x items. map_of (lmap (ls_cache t)) e = Some x \<longrightarrow> M e = Some items \<longrightarrow> tb_items x = items)"

definition tree_ok :: "'v ix_env \<Rightarrow> ('v \<Rightarrow> bool) \<Rightarrow> ('v \<Rightarrow> eid \<rightharpoonup> tab_item list) \<Rightarrow> 'v index_mgr \<Rightarrow> bool" where
  "tree_ok E vinv tabs s \<longleftrightarrow> vinv (ix_disk s) \<and> lsmt_ok (tabs (ix_disk s)) (ix_lsmt s) \<and>
     (\<forall>n \<ge> ix_ticks s. tabs (ix_disk s) (ie_eid E n) = None \<and>
        map_of (lmap (ls_cache (ix_lsmt s))) (ie_eid E n) = None)"

definition index_ok :: "'v ix_env \<Rightarrow> ('v \<Rightarrow> bool) \<Rightarrow> ('v \<Rightarrow> eid \<rightharpoonup> tab_item list) \<Rightarrow> 'v index_mgr \<Rightarrow> bool" where
  "index_ok E vinv tabs s \<longleftrightarrow> tree_ok E vinv tabs s \<and> distinct (keys (mm_map (ix_memtab s))) \<and>
     length (mm_map (ix_memtab s)) < MEMTAB_CAPACITY"

text \<open>No level is full, and level 0 has room for what one full memory table evicts.\<close>

definition roomy :: "lsmt \<Rightarrow> bool" where
  "roomy t \<longleftrightarrow> item_cnt (hd (ls_lvls t)) + (MEMTAB_CAPACITY - RESIDENCE_CAP) < item_cap (lv_num (hd (ls_lvls t))) \<and>
     list_all (\<lambda>l. \<not> level_is_full l) (tl (ls_lvls t))"

lemma hit_append: "hit M (xs @ ys) e = (case hit M xs e of Some a \<Rightarrow> Some a | None \<Rightarrow> hit M ys e)"
  by (induction xs) (auto split: option.splits)

lemma hit_fresh: "t \<notin> set ts \<Longrightarrow> hit (M(t \<mapsto> x)) ts e = hit M ts e"
  by (induction ts) (auto split: option.splits)

lemma tab_bounds:
  assumes "tab_ok items" and "map_of items e = Some a"
  shows "fst (hd items) \<le> e" and "e \<le> fst (last items)"
proof -
  obtain p where p: "p < length items" "fst (items ! p) = e"
    using assms(2) by (metis fst_conv in_set_conv_nth map_of_SomeD)
  then have ne: "items \<noteq> []" by auto
  show "fst (hd items) \<le> e"
    using p tab_ok_nth [OF assms(1), of 0 p] ne by (cases "p = 0") (auto simp: hd_conv_nth)
  show "e \<le> fst (last items)"
  proof (cases "p = length items - 1")
    case False
    then have "p < length items - 1" using p(1) by simp
    then have "fst (items ! p) < fst (items ! (length items - 1))"
      using tab_ok_nth [OF assms(1)] ne by simp
    then show ?thesis using p(2) ne by (simp add: last_conv_nth)
  qed (use p ne in \<open>simp add: last_conv_nth\<close>)
qed

text \<open>Tabs whose range does not contain the id need not be searched.\<close>

lemma hit_find_tabs:
  assumes "\<forall>i \<in> set (lv_tabs l). info_ok M i"
  shows "hit M (find_tabs_contain l e) e = hit M (lvl_ids l) e"
proof -
  have "hit M (map ti_id (filter (\<lambda>t. ti_contains t e) ts)) e = hit M (map ti_id ts) e"
    if "\<forall>i \<in> set ts. info_ok M i" for ts
    using that
  proof (induction ts)
    case Nil
    then show ?case by simp
  next
    case (Cons i ts)
    obtain items where i: "M (ti_id i) = Some items" "tab_ok items" "ti_begin i = fst (hd items)" "ti_end i = fst (last items)"
      using Cons.prems by (auto simp: info_ok_def)
    have "map_of items e = None" if "\<not> ti_contains i e"
      using that tab_bounds [OF i(2)] i by (cases "map_of items e") (auto simp: ti_contains_def)
    with Cons i show ?case by (auto split: option.splits)
  qed
  from this [of "rev (lv_tabs l)"] assms show ?thesis
    by (simp add: find_tabs_contain_def lvl_ids_def rev_map)
qed

subsection \<open>Looking up and inserting\<close>

locale tab_store = cache: linked_hash_map "ie_cache E" + mem: linked_hash_map "ie_map E"
  for E :: "'v ix_env" +
  fixes vinv :: "'v \<Rightarrow> bool" and tabs :: "'v \<Rightarrow> eid \<rightharpoonup> tab_item list"
  assumes load_tab: "vinv v \<Longrightarrow> tabs v e = Some items \<Longrightarrow>
        \<exists>t v'. ac_load (ie_tab E) e v = (Ok t, v') \<and> tb_items t = items \<and> vinv v' \<and> tabs v' = tabs v"
    and save_new_tab: "vinv v \<Longrightarrow> tabs v (tb_id t) = None \<Longrightarrow> tb_seq t = 0 \<Longrightarrow>
        \<exists>t' v'. ac_save (ie_tab E) (t, v) = (Ok (), (t', v')) \<and> tb_items t' = tb_items t \<and> tb_id t' = tb_id t \<and>
          vinv v' \<and> tabs v' = (tabs v)(tb_id t \<mapsto> tb_items t)"
    and save_tree: "vinv v \<Longrightarrow> \<exists>u' v'. ac_save (ie_lsmt E) (u, v) = (Ok (), (u', v')) \<and> ls_lvls u' = ls_lvls u \<and>
          ls_cache u' = ls_cache u \<and> vinv v' \<and> tabs v' = tabs v"
    and ids_distinct: "inj (ie_eid E)"
begin

abbreviation ok :: "'v index_mgr \<Rightarrow> bool" where
  "ok \<equiv> index_ok E vinv tabs"

abbreviation view :: "'v index_mgr \<Rightarrow> eid \<Rightarrow> bytes option" where
  "view s \<equiv> ix_view (tabs (ix_disk s)) s"

text \<open>What a look-up may change: the cache and the order of the memory table.\<close>

definition same :: "'v index_mgr \<Rightarrow> 'v index_mgr \<Rightarrow> bool" where
  "same s s' \<longleftrightarrow> ix_memtab s' = ix_memtab s \<and> ls_lvls (ix_lsmt s') = ls_lvls (ix_lsmt s) \<and>
     tabs (ix_disk s') = tabs (ix_disk s) \<and> ix_ticks s' = ix_ticks s"

lemma same_refl: "same s s" and same_trans: "same s s' \<Longrightarrow> same s' s'' \<Longrightarrow> same s s''"
  by (simp_all add: same_def)

lemma same_view: "same s s' \<Longrightarrow> view s' = view s"
  by (rule ext) (simp add: same_def ix_view_def split: option.splits)

lemma insert_cache_ok:
  assumes s: "ok s" and t: "tabs (ix_disk s) e = Some items" "tb_items t = items"
    and v: "vinv v" "tabs v = tabs (ix_disk s)" and new: "\<not> contains_key (ls_cache (ix_lsmt s)) e"
  defines "c \<equiv> snd (lru_insert (ie_cache E) count_meter no_pin (ls_cache (ix_lsmt s)) e t)"
  shows "ok (s\<lparr>ix_disk := v, ix_lsmt := (ix_lsmt s)\<lparr>ls_cache := c\<rparr>\<rparr>)" and "map_of (lmap c) e = Some t"
proof -
  let ?c = "ls_cache (ix_lsmt s)"
  have c0: "lru_ok count_meter ?c" "length (lmap ?c) \<le> capacity ?c" "capacity ?c = TAB_CACHE_SIZE"
    using s by (auto simp: index_ok_def tree_ok_def lsmt_ok_def)
  have c: "lru_ok count_meter c" "length (lmap c) \<le> capacity c" "capacity c = capacity ?c"
    and self: "map_of (lmap c) e = Some t"
    using cache.count_insert_bound [OF c0(1,2), of e t] c0(3) by (auto simp: c_def TAB_CACHE_SIZE_def)
  have lk: "map_of (lmap c) j = Some x \<Longrightarrow> ((map_of (lmap ?c))(e \<mapsto> t)) j = Some x" for j x
    using cache.lru_insert_lookup(2) [OF lru_ok_distinct [OF c0(1)], of c] c_def by blast
  have "tabs v (ie_eid E n) = None \<and> map_of (lmap c) (ie_eid E n) = None" if "n \<ge> ix_ticks s" for n
    using s that t(1) v lk [of "ie_eid E n"] by (cases "map_of (lmap c) (ie_eid E n)") (auto simp: index_ok_def tree_ok_def split: if_splits)
  moreover have "tb_items x = its" if "map_of (lmap c) j = Some x" "tabs v j = Some its" for j x its
    using lk [OF that(1)] that(2) t v s by (auto simp: index_ok_def tree_ok_def lsmt_ok_def split: if_splits)
  ultimately show "ok (s\<lparr>ix_disk := v, ix_lsmt := (ix_lsmt s)\<lparr>ls_cache := c\<rparr>\<rparr>)"
    using s c c0 v by (auto simp: index_ok_def tree_ok_def lsmt_ok_def)
  show "map_of (lmap c) e = Some t" by (rule self)
qed

lemma refresh_cache_ok:
  assumes s: "ok s"
  shows "ok (s\<lparr>ix_lsmt := (ix_lsmt s)\<lparr>ls_cache := snd (get_refresh (ie_cache E) (ls_cache (ix_lsmt s)) e)\<rparr>\<rparr>)"
proof -
  let ?c = "ls_cache (ix_lsmt s)" and ?c' = "snd (get_refresh (ie_cache E) (ls_cache (ix_lsmt s)) e)"
  have c0: "lru_ok count_meter ?c" using s by (auto simp: index_ok_def tree_ok_def lsmt_ok_def)
  have "map_of (lmap ?c') = map_of (lmap ?c)" "capacity ?c' = capacity ?c"
    using c0 by (simp_all add: get_refresh_def cache.map_of_refresh)
  moreover have "length (lmap ?c') = length (lmap ?c)"
  proof (cases "map_of (lmap ?c) e")
    case (Some x)
    then show ?thesis
      using c0 cache.length_others [of "lmap ?c" e] by (simp add: get_refresh_def cache.refresh_found)
  qed (use c0 in \<open>simp add: get_refresh_def cache.refresh_missing\<close>)
  ultimately show ?thesis
    using s cache.get_refresh_ok [OF c0, of e] by (simp add: index_ok_def tree_ok_def lsmt_ok_def)
qed

lemma cached_tab_ok:
  assumes s: "ok s" and e: "tabs (ix_disk s) e = Some items"
  shows "\<exists>t s'. cached_tab E e s = (Ok t, s') \<and> tb_items t = items \<and> ok s' \<and> same s s'"
proof -
  have fin: "\<exists>t s''. (case get_refresh (ie_cache E) (ls_cache (ix_lsmt s')) e of
        (r, c) \<Rightarrow> (unwrap_opt r, s'\<lparr>ix_lsmt := (ix_lsmt s')\<lparr>ls_cache := c\<rparr>\<rparr>)) = (Ok t, s'') \<and>
      tb_items t = items \<and> ok s'' \<and> same s s''"
    if "ok s'" "same s s'" "map_of (lmap (ls_cache (ix_lsmt s'))) e = Some t" for s' t
  proof -
    have "tb_items t = items" using that e by (auto simp: index_ok_def tree_ok_def lsmt_ok_def same_def)
    moreover note refresh_cache_ok [OF that(1), of e]
    ultimately show ?thesis using that(2,3) by (auto simp: get_refresh_def same_def unwrap_opt_def)
  qed
  show ?thesis
  proof (cases "contains_key (ls_cache (ix_lsmt s)) e")
    case True
    then obtain t where "map_of (lmap (ls_cache (ix_lsmt s))) e = Some t" by (auto simp: contains_key_def)
    from fin [OF s same_refl this] True show ?thesis by (simp add: cached_tab_def bind_s_def)
  next
    case False
    obtain t v where t: "ac_load (ie_tab E) e (ix_disk s) = (Ok t, v)" "tb_items t = items" "vinv v"
      "tabs v = tabs (ix_disk s)"
      using load_tab [of "ix_disk s" e items] s e by (auto simp: index_ok_def tree_ok_def)
    note ic = insert_cache_ok [OF s e t(2-4) False]
    from fin [OF ic(1) _, of t] ic(2) t False show ?thesis
      by (simp add: cached_tab_def bind_s_def on_disk_def zoom_def upd_lsmt_def same_def)
  qed
qed

lemma search_tabs_ok:
  assumes "ok s" and "\<forall>t \<in> set ids. \<exists>items. tabs (ix_disk s) t = Some items \<and> tab_ok items"
  shows "\<exists>s'. search_tabs E e ids s = (Ok (hit (tabs (ix_disk s)) ids e), s') \<and> ok s' \<and> same s s'"
  using assms
proof (induction ids arbitrary: s)
  case Nil
  then show ?case by (simp add: same_refl)
next
  case (Cons i ids)
  obtain items where i: "tabs (ix_disk s) i = Some items" "tab_ok items" using Cons.prems(2) by auto
  obtain t s1 where t: "cached_tab E i s = (Ok t, s1)" "tb_items t = items" "ok s1" "same s s1"
    using cached_tab_ok [OF Cons.prems(1) i(1)] by blast
  have eq: "tabs (ix_disk s1) = tabs (ix_disk s)" using t(4) by (simp add: same_def)
  obtain s2 where "search_tabs E e ids s1 = (Ok (hit (tabs (ix_disk s)) ids e), s2)" "ok s2" "same s1 s2"
    using Cons.IH [OF t(3)] Cons.prems(2) by (auto simp: eq)
  then show ?case
    using t i same_trans [OF t(4)] by (cases "map_of items e") (auto simp: tab_search_map_of)
qed

lemma level_tabs:
  assumes "ok s" and "l \<in> set (ls_lvls (ix_lsmt s))"
  shows "\<forall>i \<in> set (lv_tabs l). info_ok (tabs (ix_disk s)) i"
  using assms by (auto simp: index_ok_def tree_ok_def lsmt_ok_def)

lemma ids_stored: "ok s \<Longrightarrow> e \<in> set (all_ids (ix_lsmt s)) \<Longrightarrow> \<exists>items. tabs (ix_disk s) e = Some items"
  using level_tabs by (fastforce simp: lvl_ids_def info_ok_def)

lemma search_lvls_ok:
  assumes "ok s" and "set ls \<subseteq> set (ls_lvls (ix_lsmt s))"
  shows "\<exists>s'. search_lvls E e ls s = (Ok (hit (tabs (ix_disk s)) (concat (map lvl_ids ls)) e), s') \<and> ok s' \<and> same s s'"
  using assms
proof (induction ls arbitrary: s)
  case Nil
  then show ?case by (simp add: same_refl)
next
  case (Cons l ls)
  have l: "\<forall>i \<in> set (lv_tabs l). info_ok (tabs (ix_disk s)) i"
    using Cons.prems by (intro level_tabs) auto
  then have "\<forall>t \<in> set (find_tabs_contain l e). \<exists>items. tabs (ix_disk s) t = Some items \<and> tab_ok items"
    by (auto simp: find_tabs_contain_def info_ok_def)
  then obtain s1 where s1: "search_tabs E e (find_tabs_contain l e) s = (Ok (hit (tabs (ix_disk s)) (lvl_ids l) e), s1)"
    "ok s1" "same s s1"
    using search_tabs_ok [OF Cons.prems(1)] by (metis hit_find_tabs [OF l])
  obtain s2 where "search_lvls E e ls s1 = (Ok (hit (tabs (ix_disk s)) (concat (map lvl_ids ls)) e), s2)" "ok s2" "same s1 s2"
    using Cons.IH [OF s1(2)] Cons.prems(2) s1(3) by (auto simp: same_def)
  then show ?case
    using s1 same_trans [OF s1(3)] by (cases "hit (tabs (ix_disk s)) (lvl_ids l) e") (auto simp: hit_append)
qed

lemma index_get_view:
  assumes s: "ok s"
  shows "\<exists>s'. index_get E e s = (not_mark (view s e), s') \<and> ok s' \<and> view s' = view s"
proof -
  let ?m = "ix_memtab s"
  let ?s1 = "s\<lparr>ix_memtab := ?m\<lparr>mm_map := lhm_refresh (ie_map E) (mm_map ?m) e\<rparr>\<rparr>"
  have d: "distinct (keys (mm_map ?m))" using s by (simp add: index_ok_def)
  have len: "length (lhm_refresh (ie_map E) (mm_map ?m) e) = length (mm_map ?m)"
  proof (cases "map_of (mm_map ?m) e")
    case (Some x)
    then show ?thesis using d mem.length_others [OF d, of e] by (simp add: mem.refresh_found)
  qed (use d in \<open>simp add: mem.refresh_missing\<close>)
  have s1: "ok ?s1" using s d len by (simp add: index_ok_def tree_ok_def mem.refresh_distinct)
  have v1: "view ?s1 = view s" using d by (simp add: ix_view_def mem.map_of_refresh fun_eq_iff split: option.splits)
  show ?thesis
  proof (cases "map_of (mm_map ?m) e")
    case (Some a)
    then have "index_get E e s = (not_mark (view s e), ?s1)"
      by (simp add: index_get_def memtab_get_address_def ix_view_def)
    with s1 v1 show ?thesis by blast
  next
    case None
    obtain s2 where s2: "search_lvls E e (ls_lvls (ix_lsmt ?s1)) ?s1 = (Ok (hit (tabs (ix_disk s)) (all_ids (ix_lsmt s)) e), s2)"
      "ok s2" "same ?s1 s2"
      using search_lvls_ok [OF s1, of "ls_lvls (ix_lsmt ?s1)" e] by auto
    have "index_get E e s = (not_mark (view s e), s2)"
      using None s2(1) by (simp add: index_get_def memtab_get_address_def ix_view_def lsmt_get_address_def bind_s_def)
    moreover have "view s2 = view s" using same_view [OF s2(3)] v1 by simp
    ultimately show ?thesis using s2(2) by blast
  qed
qed

lemma fold_remove:
  "distinct (keys m) \<Longrightarrow> fold (\<lambda>i acc. lhm_remove (ie_map E) acc (fst i)) items m = filter (\<lambda>p. fst p \<notin> fst ` set items) m"
proof (induction items arbitrary: m)
  case (Cons i items)
  then show ?case by (simp add: mem.remove_others distinct_keys_filter)
qed simp

lemma compact_none:
  assumes "\<forall>n \<in> set ns. n < length (ls_lvls (ix_lsmt s)) \<and> \<not> level_is_full (ls_lvls (ix_lsmt s) ! n)"
  shows "compact_lvls E ns s = (Ok (), s)"
  using assms by (induction ns) (simp_all add: level_at_def nth_r_def)

lemma push_young_ok:
  assumes s: "tree_ok E vinv tabs s" and y: "tab_ok items" "items \<noteq> []" and room: "roomy (ix_lsmt s)"
    and n: "length items \<le> MEMTAB_CAPACITY - RESIDENCE_CAP"
    and e: "e = ie_eid E (ix_ticks s)"
  shows "\<exists>s'. push_young E (tab_of e items) (s\<lparr>ix_ticks := Suc (ix_ticks s)\<rparr>) = (Ok (), s') \<and> tree_ok E vinv tabs s' \<and>
    ix_memtab s' = ix_memtab s \<and> tabs (ix_disk s') = (tabs (ix_disk s))(e \<mapsto> items) \<and>
    all_ids (ix_lsmt s') = e # all_ids (ix_lsmt s)"
proof -
  let ?M = "tabs (ix_disk s)" and ?t = "ix_lsmt s"
  have fresh: "?M e = None" and vi: "vinv (ix_disk s)" and lok: "lsmt_ok ?M ?t"
    using s e by (auto simp: tree_ok_def)
  obtain l ls where ls: "ls_lvls ?t = l # ls" using lok by (cases "ls_lvls ?t") (auto simp: lsmt_ok_def)
  obtain t v where t: "ac_save (ie_tab E) (tab_of e items, ix_disk s) = (Ok (), (t, v))" "tb_items t = items" "tb_id t = e"
    "vinv v" "tabs v = ?M(e \<mapsto> items)"
    using save_new_tab [of "ix_disk s" "tab_of e items"] vi fresh by (auto simp: tab_of_def tab_new_def)
  let ?i = "\<lparr>ti_id = e, ti_begin = fst (hd items), ti_end = fst (last items), ti_cnt = length items\<rparr>"
  let ?l = "l\<lparr>lv_tabs := lv_tabs l @ [?i]\<rparr>"
  let ?s = "s\<lparr>ix_ticks := Suc (ix_ticks s), ix_disk := v, ix_lsmt := ?t\<lparr>ls_lvls := ?l # ls\<rparr>\<rparr>"
  have push: "level_push t l = Ok ?l"
    using y t by (simp add: level_push_def tab_info_new_def assert_r_def)
  have "\<forall>n \<in> set [0 ..< length (ls_lvls (ix_lsmt ?s))]. n < length (ls_lvls (ix_lsmt ?s)) \<and>
      \<not> level_is_full (ls_lvls (ix_lsmt ?s) ! n)"
    using room n by (auto simp: roomy_def ls level_is_full_def item_cnt_def list_all_length nth_Cons split: nat.splits)
  from compact_none [OF this]
  have run: "push_young E (tab_of e items) (s\<lparr>ix_ticks := Suc (ix_ticks s)\<rparr>) = (Ok (), ?s)"
    by (simp add: push_young_def save_tab_def t(1) on_level_def level_at_def nth_r_def ls push upd_lsmt_def bind_s_def)
  have keep: "info_ok (?M(e \<mapsto> items)) i" if "info_ok ?M i" for i
    using that fresh by (auto simp: info_ok_def)
  have new: "info_ok (?M(e \<mapsto> items)) ?i" using y by (simp add: info_ok_def)
  have cache: "map_of (lmap (ls_cache ?t)) e = None" using s e by (auto simp: tree_ok_def)
  have "lsmt_ok (?M(e \<mapsto> items)) (?t\<lparr>ls_lvls := ?l # ls\<rparr>)"
    using lok keep new cache by (auto simp: lsmt_ok_def ls split: if_splits)
  moreover have "ie_eid E n \<noteq> e" if "Suc (ix_ticks s) \<le> n" for n
    using that ids_distinct e by (auto dest: injD)
  ultimately have "tree_ok E vinv tabs ?s"
    using s t by (auto simp: tree_ok_def)
  with run t show ?thesis by (auto simp: ls lvl_ids_def)
qed

lemma map_of_split:
  assumes "distinct (keys m)"
  shows "map_of m x = (case map_of (drop n m) x of Some b \<Rightarrow> Some b | None \<Rightarrow> map_of (take n m) x)"
proof -
  have "set (keys (take n m)) \<inter> set (keys (drop n m)) = {}"
    using assms by (metis append_take_drop_id distinct_append map_append)
  then have "map_of (take n m) x = None" if "map_of (drop n m) x = Some b" for b
    using map_of_SomeD [OF that] by (force simp: map_of_eq_None_iff)
  moreover have "map_of m x = map_of (take n m @ drop n m) x" by simp
  ultimately show ?thesis
    unfolding map_of_append by (auto simp: map_add_def split: option.splits)
qed

lemma evicted:
  assumes "distinct (keys m)"
  shows "filter (\<lambda>p. fst p \<notin> fst ` set (take n m)) m = drop n m"
proof -
  have "set (keys (take n m)) \<inter> set (keys (drop n m)) = {}"
    using assms by (metis append_take_drop_id distinct_append map_append)
  then have "filter (\<lambda>p. fst p \<notin> fst ` set (take n m)) (drop n m) = drop n m"
    by (intro filter_True) auto
  moreover have "filter (\<lambda>p. fst p \<notin> fst ` set (take n m)) (take n m) = []"
    by (intro filter_False) auto
  ultimately show ?thesis
    by (metis append_Nil append_take_drop_id filter_append)
qed

text \<open>An insertion updates the map, whether or not the memory table is full after it.\<close>

lemma index_insert_view:
  assumes s: "ok s" and room: "roomy (ix_lsmt s)"
  shows "\<exists>s'. index_insert E e a s = (Ok (), s') \<and> ok s' \<and> view s' = (view s)(e \<mapsto> a)"
proof -
  let ?m = "lhm_insert (ie_map E) (mm_map (ix_memtab s)) e a"
  let ?s1 = "s\<lparr>ix_memtab := memtab_insert E e a (ix_memtab s)\<rparr>"
  have d0: "distinct (keys (mm_map (ix_memtab s)))" and l0: "length (mm_map (ix_memtab s)) < MEMTAB_CAPACITY"
    using s by (simp_all add: index_ok_def)
  have d: "distinct (keys ?m)" and mo: "map_of ?m = (map_of (mm_map (ix_memtab s)))(e \<mapsto> a)"
    using d0 by (simp_all add: mem.insert_distinct mem.map_of_insert)
  have len: "length ?m \<le> MEMTAB_CAPACITY"
    using l0 mem.length_insert [OF d0, of e a] mem.length_others [OF d0, of e] by simp
  have v1: "view ?s1 = (view s)(e \<mapsto> a)"
    by (auto simp: ix_view_def memtab_insert_def mo fun_eq_iff split: option.splits)
  show ?thesis
  proof (cases "length ?m < MEMTAB_CAPACITY")
    case True
    then have "ok ?s1" using s d by (simp add: index_ok_def tree_ok_def memtab_insert_def)
    moreover have "index_insert E e a s = (Ok (), ?s1)"
      using True by (simp add: index_insert_def upd_memtab_def memtab_is_full_def memtab_insert_def)
    ultimately show ?thesis using v1 by blast
  next
    case False
    with len have full: "length ?m = MEMTAB_CAPACITY" by simp
    let ?n = "MEMTAB_CAPACITY - RESIDENCE_CAP"
    let ?y = "tab_sort (take ?n ?m)" and ?id = "ie_eid E (ix_ticks s)"
    have n: "0 < ?n" "?n \<le> MEMTAB_CAPACITY" by (simp_all add: MEMTAB_CAPACITY_def RESIDENCE_CAP_def)
    have dt: "distinct (keys (take ?n ?m))" using d by (metis distinct_take take_map)
    note sy = tab_sort_ok [OF dt]
    have len_y: "length ?y = ?n" using n full by (simp add: tab_sort_def)
    have "?y \<noteq> []" using len_y n(1) by (metis length_0_conv less_irrefl)
    with len_y have ly: "length ?y = ?n" "?y \<noteq> []" "fst ` set ?y = fst ` set (take ?n ?m)"
      by (simp_all add: tab_sort_def)
    have t1: "tree_ok E vinv tabs ?s1" using s by (simp add: index_ok_def tree_ok_def)
    obtain s2 where s2: "push_young E (tab_of ?id ?y) (?s1\<lparr>ix_ticks := Suc (ix_ticks s)\<rparr>) = (Ok (), s2)"
      "tree_ok E vinv tabs s2" "ix_memtab s2 = ix_memtab ?s1" "tabs (ix_disk s2) = (tabs (ix_disk s))(?id \<mapsto> ?y)"
      "all_ids (ix_lsmt s2) = ?id # all_ids (ix_lsmt s)"
      using push_young_ok [OF t1 sy(1) ly(2)] room ly by auto
    obtain u v where u: "ac_save (ie_lsmt E) (ix_lsmt s2, ix_disk s2) = (Ok (), (u, v))" "ls_lvls u = ls_lvls (ix_lsmt s2)"
      "ls_cache u = ls_cache (ix_lsmt s2)" "vinv v" "tabs v = tabs (ix_disk s2)"
      using save_tree [of "ix_disk s2" "ix_lsmt s2"] s2(2) by (auto simp: tree_ok_def)
    let ?s3 = "s2\<lparr>ix_lsmt := u, ix_disk := v, ix_memtab := evict_young E ?y (ix_memtab s2)\<rparr>"
    have m3: "mm_map (ix_memtab ?s3) = drop ?n ?m"
      by (simp add: evict_young_def s2(3) memtab_insert_def fold_remove [OF d] ly(3) evicted [OF d])
    have run: "index_insert E e a s = (Ok (), ?s3)"
      using full n s2(1) u(1)
      by (simp add: index_insert_def upd_memtab_def memtab_is_full_def memtab_insert_def extract_young_def sub_r_def
          fresh_id_def save_lsmt_def bind_s_def tab_of_def)
    have "ok ?s3"
      using s2(2) u d n full m3
      by (simp add: index_ok_def tree_ok_def lsmt_ok_def drop_map [symmetric] distinct_drop)
    moreover have "view ?s3 = view ?s1"
    proof
      fix x
      have "tabs (ix_disk s) ?id = None" using s by (simp add: index_ok_def tree_ok_def)
      then have id: "?id \<notin> set (all_ids (ix_lsmt s))" using ids_stored [OF s] by fastforce
      have h: "hit (tabs (ix_disk ?s3)) (all_ids (ix_lsmt ?s3)) x =
          (case map_of ?y x of Some b \<Rightarrow> Some b | None \<Rightarrow> hit (tabs (ix_disk s)) (all_ids (ix_lsmt s)) x)"
        using u(2,5) s2(4,5) hit_fresh [OF id] by (simp split: option.splits)
      have "view ?s3 x = (case map_of (drop ?n ?m) x of Some b \<Rightarrow> Some b
          | None \<Rightarrow> (case map_of ?y x of Some b \<Rightarrow> Some b | None \<Rightarrow> hit (tabs (ix_disk s)) (all_ids (ix_lsmt s)) x))"
        unfolding ix_view_def h m3 by (rule refl)
      also have "\<dots> = (case map_of ?m x of Some b \<Rightarrow> Some b | None \<Rightarrow> hit (tabs (ix_disk s)) (all_ids (ix_lsmt s)) x)"
        using map_of_split [OF d, where n = ?n and x = x] sy(2) by (auto split: option.splits)
      also have "\<dots> = view ?s1 x" by (simp add: ix_view_def memtab_insert_def split: option.splits)
      finally show "view ?s3 x = view ?s1 x" .
    qed
    ultimately show ?thesis using run v1 by auto
  qed
qed

end

subsection \<open>Properties\<close>


end
