(* ===== verification/Reference_Index.thy ===== *)
theory Reference_Index
  imports Index_Laws
begin

text \<open>
  The index on accessors that keep their items in tables: the laws of the index hold for them, and
  compactions are evaluated on small trees.
\<close>

record ix_disk =
  xd_tabs :: "eid \<rightharpoonup> tab"
  xd_lsmt :: "eid \<rightharpoonup> lsmt"
  xd_memtab :: "eid \<rightharpoonup> memtab"

definition ref_tab_acc :: "(tab, ix_disk) accessor" where
  "ref_tab_acc =
     \<lparr>ac_ctx = (\<lambda>c k v. v), ac_load = (\<lambda>e v. (ok_or (xd_tabs v e) NotFound, v)),
      ac_save = (\<lambda>(t, v). let t' = t\<lparr>tb_seq := Suc (tb_seq t), tb_arm := arm_other (tb_arm t)\<rparr>
         in (Ok (), (t', v\<lparr>xd_tabs := (xd_tabs v)(tb_id t \<mapsto> t')\<rparr>))),
      ac_remove = (\<lambda>e v. (Ok (), v\<lparr>xd_tabs := (xd_tabs v)(e := None)\<rparr>))\<rparr>"

definition ref_lsmt_acc :: "(lsmt, ix_disk) accessor" where
  "ref_lsmt_acc =
     \<lparr>ac_ctx = (\<lambda>c k v. v), ac_load = (\<lambda>e v. (ok_or (xd_lsmt v e) NotFound, v)),
      ac_save = (\<lambda>(t, v). let t' = t\<lparr>ls_seq := Suc (ls_seq t), ls_arm := arm_other (ls_arm t)\<rparr>
         in (Ok (), (t', v\<lparr>xd_lsmt := (xd_lsmt v)(ls_id t \<mapsto> t')\<rparr>))),
      ac_remove = (\<lambda>e v. (Ok (), v\<lparr>xd_lsmt := (xd_lsmt v)(e := None)\<rparr>))\<rparr>"

definition ref_memtab_acc :: "(memtab, ix_disk) accessor" where
  "ref_memtab_acc =
     \<lparr>ac_ctx = (\<lambda>c k v. v), ac_load = (\<lambda>e v. (ok_or (xd_memtab v e) NotFound, v)),
      ac_save = (\<lambda>(t, v). let t' = t\<lparr>mm_seq := Suc (mm_seq t), mm_arm := arm_other (mm_arm t)\<rparr>
         in (Ok (), (t', v\<lparr>xd_memtab := (xd_memtab v)(mm_id t \<mapsto> t')\<rparr>))),
      ac_remove = (\<lambda>e v. (Ok (), v\<lparr>xd_memtab := (xd_memtab v)(e := None)\<rparr>))\<rparr>"

definition ref_ix :: "ix_disk ix_env" where
  "ref_ix = \<lparr>ie_lsmt = ref_lsmt_acc, ie_memtab = ref_memtab_acc, ie_tab = ref_tab_acc, ie_eid = (\<lambda>n. replicate n 0),
     ie_cache = list_lhm, ie_map = list_lhm, ie_sodium = plain_sodium\<rparr>"

definition ref_tabs :: "ix_disk \<Rightarrow> eid \<rightharpoonup> tab_item list" where
  "ref_tabs v e = map_option tb_items (xd_tabs v e)"

interpretation ref_store: tab_store ref_ix "\<lambda>v. True" ref_tabs
proof (intro tab_store.intro tab_store_axioms.intro)
  show "linked_hash_map (ie_cache ref_ix)" "linked_hash_map (ie_map ref_ix)"
    by (simp_all add: ref_ix_def list_map.linked_hash_map_axioms)
  show "inj (ie_eid ref_ix)" by (simp add: ref_ix_def inj_on_def)
qed (auto simp: ref_ix_def ref_tab_acc_def ref_lsmt_acc_def ref_tabs_def ok_or_def Let_def fun_eq_iff)

text \<open>An index with given tabs on its levels, oldest first.\<close>

definition ref_info :: "eid \<times> tab_item list \<Rightarrow> tab_info" where
  "ref_info p = \<lparr>ti_id = fst p, ti_begin = fst (hd (snd p)), ti_end = fst (last (snd p)), ti_cnt = length (snd p)\<rparr>"

definition ref_index :: "(eid \<times> tab_item list) list list \<Rightarrow> ix_disk index_mgr" where
  "ref_index lvls =
     (index_new \<lparr>xd_tabs = map_of (map (\<lambda>p. (fst p, tab_of (fst p) (snd p))) (concat lvls)),
        xd_lsmt = Map.empty, xd_memtab = Map.empty\<rparr> 9)
     \<lparr>ix_lsmt := lsmt_new\<lparr>ls_lvls := map (\<lambda>(n, l). \<lparr>lv_num = n, lv_tabs = map ref_info l\<rparr>) (List.enumerate 0 lvls)\<rparr>\<rparr>"

lemmas ref_eval = ref_index_def ref_info_def index_new_def lsmt_new_def memtab_new_def tab_of_def tab_new_def
  index_get_def memtab_get_address_def lsmt_get_address_def find_tabs_contain_def ti_contains_def cached_tab_def
  contains_key_def lru_new_def on_disk_def zoom_def upd_lsmt_def get_refresh_def lru_insert_def Let_def
  ref_ix_def ref_tab_acc_def list_lhm_def bind_s_def tab_search_def bsearch_def bsearch_base.simps not_mark_def
  compact_def read_all_tabs_in_level_def level_at_def nth_r_def fresh_id_def save_tab_def level_clear_def on_level_def
  level_push_def tab_info_new_def assert_r_def level_new_def find_overlapping_def is_overlapping_def combine_tabs_def
  level_remove_def item_cap_def ITEM_CAP_BASE_def TAB_CNT_BASE_def tab_sort_def unwrap_opt_def ok_or_def
  count_meter_def add_used_def remove_lru_def lru_victim_def no_pin_def TAB_CACHE_SIZE_def arm_default_def chunks_step

lemma ref_ids [simp]: "replicate n (0 :: byte) \<noteq> 7 # xs" "7 # xs \<noteq> replicate n (0 :: byte)"
  by (cases n; simp)+

text \<open>A well-formed index, and what a look-up returns in it.\<close>

abbreviation ref_ok :: "ix_disk index_mgr \<Rightarrow> bool" where
  "ref_ok \<equiv> index_ok ref_ix (\<lambda>v. True) ref_tabs"

definition look :: "eid \<Rightarrow> ix_disk index_mgr \<Rightarrow> bytes res" where
  "look e s = fst (index_get ref_ix e s)"

lemma ref_fresh: "index_ok ref_ix (\<lambda>v. True) ref_tabs (ref_index [[]])"
  by (simp add: index_ok_def tree_ok_def lsmt_ok_def ref_eval ref_tabs_def MEMTAB_CAPACITY_def lru_ok_def total_def)

definition two_levels :: "ix_disk index_mgr" where
  "two_levels = ref_index [[([7, 1], [([1], [10])])], [([7, 5], [([5], [50])])]]"

lemma two_levels_ok: "ref_ok two_levels"
  by (auto simp: two_levels_def index_ok_def tree_ok_def lsmt_ok_def info_ok_def ref_eval ref_tabs_def
      MEMTAB_CAPACITY_def lru_ok_def total_def)

definition after :: "nat list \<Rightarrow> ix_disk index_mgr \<Rightarrow> ix_disk index_mgr" where
  "after ns s = fold (\<lambda>n s. snd (compact ref_ix n s)) ns s"


definition old_value :: "ix_disk index_mgr" where
  "old_value = ref_index [[([7, 0], [([1], [])])], [([7, 1], [([1], [10])])], [([7, 2], [([1], [20])])]]"

lemma old_value_ok: "ref_ok old_value"
  by (auto simp: old_value_def index_ok_def tree_ok_def lsmt_ok_def info_ok_def ref_eval ref_tabs_def
      MEMTAB_CAPACITY_def lru_ok_def total_def)

definition updated :: "ix_disk index_mgr" where
  "updated = ref_index [[([7, 1], [([1], [20])]), ([7, 2], [([1], [10])])]]"

lemma updated_ok: "ref_ok updated"
  by (auto simp: updated_def index_ok_def tree_ok_def lsmt_ok_def info_ok_def ref_eval ref_tabs_def
      MEMTAB_CAPACITY_def lru_ok_def total_def)

text \<open>
  Compaction brings old addresses back. A deletion mark that meets an entry on the next level removes
  both, although a level further down may hold a still older address of the same entity, which is then
  found; and the tabs of level 0 are sorted by id and address, which forgets which of two addresses of an
  entity was newer, so that the older one is found after the compaction.
\<close>

lemma compaction_restores_old_address:
  "ref_ok old_value \<and> look [1] old_value = Err NotFound \<and> look [1] (after [0] old_value) = Ok [20] \<and>
   ref_ok updated \<and> look [1] updated = Ok [10] \<and> look [1] (after [0] updated) = Ok [20]"
  using old_value_ok updated_ok by (simp add: look_def after_def old_value_def updated_def ref_eval)


end
