(* ===== verification/Fs_Open.thy ===== *)
theory Fs_Open
  imports Volume Fs
begin

text \<open>
  Creating and opening a file system: \<open>Fs::create\<close> and \<open>Fs::open\<close> in \<open>src/src/fs/fs.rs\<close>, and
  \<open>Store::new\<close> and \<open>Store::open\<close> in \<open>src/src/content/store.rs\<close>. The volume is set up first; then the
  transaction manager, the store and the root node make up the state that the operations on paths
  work on. A constructor returns its result and the storage it leaves behind, if there is one.
\<close>

text \<open>\<open>mask_uri\<close>: the part before the first at sign is not to be logged.\<close>

definition mask_uri :: "string \<Rightarrow> string res" where
  "mask_uri uri =
     (case str_find ''@'' uri of
        None \<Rightarrow> Ok uri
      | Some e \<Rightarrow>
          bind_r (unwrap_opt (str_find ''://'' uri)) (\<lambda>i.
          assert_r (i + 3 \<le> e) (Ok (take (i + 3) uri @ ''***'' @ drop e uri))))"

text \<open>\<open>Payload\<close>: the part of the super block that belongs to the file system.\<close>

record fs_payload =
  py_root_id :: eid
  py_walq_id :: eid
  py_store_id :: eid
  py_opts :: options

text \<open>
  What mounting relies on: the volume, the constructors of back ends, the serializer of payloads,
  loading the store, and the transaction manager, made anew or opened with its log.
\<close>

record ('w, 'd, 't) mount_env =
  me_vol :: "'d vol_env"
  me_features :: "storage_kind set"
  me_mk :: "storage_kind \<Rightarrow> string \<Rightarrow> 'd res"
  me_fs :: "('w, 'd storage, 't) fs_env"
  me_ser :: "fs_payload \<Rightarrow> bytes res"
  me_deser :: "bytes \<Rightarrow> fs_payload res"
  me_load_store :: "eid \<Rightarrow> (store cow, error, 'd storage) eff"
  me_tx_new :: "eid \<Rightarrow> 't"
  me_tx_open :: "eid \<Rightarrow> ('t, error, 'd storage) eff"

definition store_new :: "bool \<Rightarrow> store" where
  "store_new dedup = \<lparr>sr_chunker_params = params_new, sr_dedup_file = dedup, sr_content_map = Map.empty\<rparr>"

text \<open>
  A store on a volume with empty caches. Cells of a heap that no reference points to hold an
  arbitrary value; here it is that of an empty object.
\<close>

definition no_content :: content where
  "no_content = \<lparr>ct_ents = el_new, ct_mtree = \<lparr>mt_len = 0, mt_nodes = []\<rparr>, ct_leaves = lv_new\<rparr>"

definition store_world_of :: "store cow \<Rightarrow> 't \<Rightarrow> 'd storage \<Rightarrow> ('d storage, 't) store_world" where
  "store_world_of c t sg =
     \<lparr>sw_store = c, sw_segs = (\<lambda>_. cow_new eid_new_empty (segment_new eid_new_empty)),
      sw_ctns = (\<lambda>_. cow_new eid_new_empty no_content), sw_datas = (\<lambda>_. segdata_new eid_new_empty),
      sw_next = 0, sw_content_cache = lru_new CONTENT_CACHE_SIZE, sw_seg_cache = lru_new SEG_CACHE_SIZE,
      sw_segdata_cache = lru_new SEG_DATA_CACHE_SIZE, sw_vol = sg, sw_tx = t, sw_draws = sg_draws sg, sw_alive = True\<rparr>"

definition store_open ::
  "('w, 'd, 't) mount_env \<Rightarrow> eid \<Rightarrow> 't \<Rightarrow> (('d storage, 't) store_world, error, 'd storage) eff"
where
  "store_open M e t =
     bind_s (me_load_store M e) (\<lambda>c sg.
       case make_mut_naive (c, t) of (q, (c', t')) \<Rightarrow> (bind_r q (\<lambda>_. Ok (store_world_of c' t' sg)), sg))"

text \<open>The nodes of a file system: at first there is none, and the shutter is open.\<close>

definition fs_world_of :: "('d storage, 't) store_world \<Rightarrow> ('d storage, 't) fs_world" where
  "fs_world_of st =
     \<lparr>fw_nodes = (\<lambda>_. cow_new eid_new_empty (fnode_new Dir options_default 0 0)), fw_next = 0,
      fw_live = (\<lambda>_. False), fw_cache = lru_new FNODE_CACHE_SIZE, fw_sto = st, fw_ticks = 0, fw_tls = 0,
      fw_closed = False\<rparr>"

subsection \<open>Creating\<close>

definition fs_exists :: "('w, 'd, 't) mount_env \<Rightarrow> nat \<Rightarrow> string \<Rightarrow> bool res" where
  "fs_exists M n uri = bind_r (volume_new (me_features M) (me_mk M) n uri) (volume_exists (me_vol M))"

text \<open>The initial transaction saves the store and an empty root directory; the result is the root.\<close>

definition initial_trans ::
  "('w, 'v, 't) fs_env \<Rightarrow> fs_payload \<Rightarrow> (nat, error, ('v, 't) fs_world) eff"
where
  "initial_trans E py = in_new_trans E (\<lambda>t.
     bind_s get_s (\<lambda>s.
     bind_s (on_fsto (on_wtx (into_cow_with_id (se_reg (fe_store E)) (fw_tls s) (py_store_id py)
               (store_new (op_dedup_file (py_opts py)))))) (\<lambda>c.
     bind_s (now E) (\<lambda>ct.
     bind_s (now E) (\<lambda>mt.
     bind_s (on_fsto (on_wtx (into_cow_with_id (se_reg (fe_store E)) (fw_tls s) (py_root_id py)
               (fnode_new Dir (py_opts py) ct mt)))) (\<lambda>root.
     bind_s (alloc_node root) (\<lambda>r.
     bind_s (on_fsto (modify_s (\<lambda>st. st\<lparr>sw_store := c\<rparr>))) (\<lambda>_. ret_s r))))))))"

text \<open>
  \<open>n\<close> counts the random draws so far: the first three are the ids of the payload. An \<open>Fs\<close> is its
  immutable fields, the information of its volume and the state.
\<close>

type_synonym ('d, 't) fs_inst = "fs \<times> vol_info \<times> ('d storage, 't) fs_world"

definition create_payload :: "('w, 'd, 't) mount_env \<Rightarrow> nat \<Rightarrow> options \<Rightarrow> fs_payload" where
  "create_payload M n op =
     \<lparr>py_root_id = se_eid (fe_store (me_fs M)) n, py_walq_id = se_eid (fe_store (me_fs M)) (Suc n),
      py_store_id = se_eid (fe_store (me_fs M)) (Suc (Suc n)), py_opts = op\<rparr>"

definition fs_of_created ::
  "('w, 'd, 't) mount_env \<Rightarrow> fs_payload \<Rightarrow> 'd volume \<Rightarrow> ('d, 't) fs_inst res \<times> 'd storage"
where
  "fs_of_created M py v =
     (case initial_trans (me_fs M) py (fs_world_of (store_world_of
             (cow_new (py_store_id py) (store_new (op_dedup_file (py_opts py))))
             (me_tx_new M (py_walq_id py)) (vo_storage v))) of
        (q, s) \<Rightarrow> (bind_r q (\<lambda>r. Ok (\<lparr>fs_root = r, fs_opts = py_opts py, fs_read_only = False\<rparr>, vo_info v, s)),
                   sw_vol (fw_sto s)))"

text \<open>What is left of the volume, if it came to be.\<close>

definition with_volume ::
  "'d volume res \<Rightarrow> ('d volume \<Rightarrow> 'a res \<times> 'd storage) \<Rightarrow> 'a res \<times> 'd storage option"
where
  "with_volume v f = (case v of
       Ok x \<Rightarrow> (case f x of (r, sg) \<Rightarrow> (r, Some sg))
     | Err err \<Rightarrow> (Err err, None)
     | Panic \<Rightarrow> (Panic, None))"

definition then_volume ::
  "'b res \<times> 'd volume \<Rightarrow> ('b \<Rightarrow> 'd volume \<Rightarrow> 'a res \<times> 'd storage) \<Rightarrow> 'a res \<times> 'd storage"
where
  "then_volume q f = (case q of
       (Ok x, v) \<Rightarrow> f x v
     | (Err err, v) \<Rightarrow> (Err err, vo_storage v)
     | (Panic, v) \<Rightarrow> (Panic, vo_storage v))"

definition fs_create ::
  "('w, 'd, 't) mount_env \<Rightarrow> (nat \<Rightarrow> nat) \<Rightarrow> nat \<Rightarrow> string \<Rightarrow> bytes \<Rightarrow> config \<Rightarrow>
   ('d, 't) fs_inst res \<times> 'd storage option"
where
  "fs_create M clk n uri pwd cfg =
     with_volume (volume_new (me_features M) (me_mk M) (n + 3) uri) (\<lambda>v.
       then_volume (bind_s (lift_r (me_ser M (create_payload M n (cf_opts cfg))))
           (\<lambda>py. volume_init (me_vol M) clk pwd cfg py) v) (\<lambda>_ v'.
         fs_of_created M (create_payload M n (cf_opts cfg)) v'))"

subsection \<open>Opening\<close>

definition load_root :: "('w, 'v, 't) fs_env \<Rightarrow> eid \<Rightarrow> (nat, error, ('v, 't) fs_world) eff" where
  "load_root E e = bind_s (on_fsto (on_wvol (fe_load E e))) alloc_node"

definition fs_of_opened ::
  "('w, 'd, 't) mount_env \<Rightarrow> bool \<Rightarrow> fs_payload \<Rightarrow> 'd volume \<Rightarrow> ('d, 't) fs_inst res \<times> 'd storage"
where
  "fs_of_opened M ro py v =
     (case bind_s (me_tx_open M (py_walq_id py)) (store_open M (py_store_id py)) (vo_storage v) of
        (Ok st, sg) \<Rightarrow>
          (case load_root (me_fs M) (py_root_id py) (fs_world_of st) of
             (q, s) \<Rightarrow> (bind_r q (\<lambda>r. Ok (\<lparr>fs_root = r, fs_opts = py_opts py, fs_read_only = ro\<rparr>, vo_info v, s)),
                        sw_vol (fw_sto s)))
      | (Err err, sg) \<Rightarrow> (Err err, sg)
      | (Panic, sg) \<Rightarrow> (Panic, sg))"

definition fs_open ::
  "('w, 'd, 't) mount_env \<Rightarrow> nat \<Rightarrow> string \<Rightarrow> bytes \<Rightarrow> bool \<Rightarrow> bool \<Rightarrow> ('d, 't) fs_inst res \<times> 'd storage option"
where
  "fs_open M n uri pwd ro force =
     with_volume (volume_new (me_features M) (me_mk M) n uri) (\<lambda>v.
       then_volume (bind_s (volume_open (me_vol M) pwd force) (\<lambda>b. lift_r (me_deser M b)) v)
         (fs_of_opened M ro))"

subsection \<open>Operations on the volume\<close>

definition is_read_only :: "('d, 't) fs_inst \<Rightarrow> bool" where
  "is_read_only i = fs_read_only (fst i)"

definition get_opts :: "('d, 't) fs_inst \<Rightarrow> options" where
  "get_opts i = fs_opts (fst i)"

record fs_info =
  if_opts :: options
  if_vol_info :: vol_info
  if_read_only :: bool

definition info_of_fs :: "('d, 't) fs_inst \<Rightarrow> fs_info" where
  "info_of_fs i = (case i of (F, vi, s) \<Rightarrow>
     \<lparr>if_opts = fs_opts F, if_vol_info = vi, if_read_only = fs_read_only F\<rparr>)"

definition fs_reset_password ::
  "('w, 'd, 't) mount_env \<Rightarrow> nat \<Rightarrow> bytes \<Rightarrow> bytes \<Rightarrow> cost \<Rightarrow> (unit, error, ('d, 't) fs_inst) eff"
where
  "fs_reset_password M clk old_pwd new_pwd co = (\<lambda>(F, vi, s).
     if fs_read_only F then (Err ReadOnly, (F, vi, s))
     else case reset_password (me_vol M) clk old_pwd new_pwd co \<lparr>vo_info = vi, vo_storage = sw_vol (fw_sto s)\<rparr> of
         (q, v) \<Rightarrow> (q, (F, vo_info v, s\<lparr>fw_sto := (fw_sto s)\<lparr>sw_vol := vo_storage v\<rparr>\<rparr>)))"

definition fs_repair_super_block ::
  "('w, 'd, 't) mount_env \<Rightarrow> nat \<Rightarrow> nat \<Rightarrow> string \<Rightarrow> bytes \<Rightarrow> unit res \<times> 'd storage option"
where
  "fs_repair_super_block M clk n uri pwd =
     with_volume (volume_new (me_features M) (me_mk M) n uri) (\<lambda>v.
       then_volume (repair_super_block (me_vol M) clk pwd v) (\<lambda>_ v'. (Ok (), vo_storage v')))"

definition fs_destroy :: "('w, 'd, 't) mount_env \<Rightarrow> nat \<Rightarrow> string \<Rightarrow> unit res \<times> 'd storage option" where
  "fs_destroy M n uri =
     with_volume (volume_new (me_features M) (me_mk M) n uri) (\<lambda>v.
       then_volume (volume_destroy (me_vol M) v) (\<lambda>_ v'. (Ok (), vo_storage v')))"

text \<open>
  Dropping the file system closes the shutter, which open files check, and then releases the store and
  the transaction manager, to which files have weak references only.
\<close>

definition shutter_close :: "('v, 't) fs_world \<Rightarrow> ('v, 't) fs_world" where
  "shutter_close s = s\<lparr>fw_closed := True\<rparr>"

definition fs_drop :: "('d, 't) fs_inst \<Rightarrow> ('d storage, 't) fs_world" where
  "fs_drop i = (let s = shutter_close (snd (snd i)) in s\<lparr>fw_sto := (fw_sto s)\<lparr>sw_alive := False\<rparr>\<rparr>)"

end
