(* ===== verification/Repo.thy ===== *)
theory Repo
  imports Fs_Open File
begin

text \<open>
  \<open>src/src/repo.rs\<close>: the interface of the program. A repository is opened through a builder of options
  and files through another; both check their arguments and then call the file system.
\<close>

subsection \<open>Opening a repository\<close>

record repo_opener =
  ro_cfg :: config
  ro_create :: bool
  ro_create_new :: bool
  ro_read_only :: bool
  ro_force :: bool

definition repo_opener_new :: "sodium \<Rightarrow> repo_opener" where
  "repo_opener_new S = \<lparr>ro_cfg = config_default S, ro_create = False, ro_create_new = False,
     ro_read_only = False, ro_force = False\<rparr>"

definition with_cfg :: "(config \<Rightarrow> config) \<Rightarrow> repo_opener \<Rightarrow> repo_opener" where
  "with_cfg g r = r\<lparr>ro_cfg := g (ro_cfg r)\<rparr>"

definition with_opts :: "(options \<Rightarrow> options) \<Rightarrow> repo_opener \<Rightarrow> repo_opener" where
  "with_opts g = with_cfg (\<lambda>c. c\<lparr>cf_opts := g (cf_opts c)\<rparr>)"

definition ro_set_ops_limit :: "ops_limit \<Rightarrow> repo_opener \<Rightarrow> repo_opener" where
  "ro_set_ops_limit l = with_cfg (\<lambda>c. c\<lparr>cf_cost := (cf_cost c)\<lparr>ops_limit := l\<rparr>\<rparr>)"

definition ro_set_mem_limit :: "mem_limit \<Rightarrow> repo_opener \<Rightarrow> repo_opener" where
  "ro_set_mem_limit l = with_cfg (\<lambda>c. c\<lparr>cf_cost := (cf_cost c)\<lparr>mem_limit := l\<rparr>\<rparr>)"

definition ro_set_cipher :: "cipher \<Rightarrow> repo_opener \<Rightarrow> repo_opener" where
  "ro_set_cipher ci = with_cfg (\<lambda>c. c\<lparr>cf_cipher := ci\<rparr>)"

definition ro_set_create :: "bool \<Rightarrow> repo_opener \<Rightarrow> repo_opener" where
  "ro_set_create b r = r\<lparr>ro_create := b\<rparr>"

definition ro_set_create_new :: "bool \<Rightarrow> repo_opener \<Rightarrow> repo_opener" where
  "ro_set_create_new b r =
     (let r = r\<lparr>ro_create_new := b\<rparr> in if b then r\<lparr>ro_create := True\<rparr> else r)"

definition ro_set_compress :: "bool \<Rightarrow> repo_opener \<Rightarrow> repo_opener" where
  "ro_set_compress b = with_cfg (\<lambda>c. c\<lparr>cf_compress := b\<rparr>)"

definition ro_set_version_limit :: "8 word \<Rightarrow> repo_opener \<Rightarrow> repo_opener" where
  "ro_set_version_limit n = with_opts (\<lambda>p. p\<lparr>op_version_limit := n\<rparr>)"

definition ro_set_dedup_chunk :: "bool \<Rightarrow> repo_opener \<Rightarrow> repo_opener" where
  "ro_set_dedup_chunk b = with_opts (\<lambda>p. p\<lparr>op_dedup_chunk := b\<rparr>)"

definition ro_set_dedup_file :: "bool \<Rightarrow> repo_opener \<Rightarrow> repo_opener" where
  "ro_set_dedup_file b = with_opts (\<lambda>p. p\<lparr>op_dedup_file := b\<rparr>)"

definition ro_set_read_only :: "bool \<Rightarrow> repo_opener \<Rightarrow> repo_opener" where
  "ro_set_read_only b r = r\<lparr>ro_read_only := b\<rparr>"

definition ro_set_force :: "bool \<Rightarrow> repo_opener \<Rightarrow> repo_opener" where
  "ro_set_force b r = r\<lparr>ro_force := b\<rparr>"

text \<open>A repository is its file system. \<open>clk\<close> is the clock and \<open>n\<close> counts random draws.\<close>

type_synonym ('d, 't) repo = "('d, 't) fs_inst"

definition repo_exists :: "('w, 'd, 't) mount_env \<Rightarrow> nat \<Rightarrow> string \<Rightarrow> bool res" where
  "repo_exists M n uri = fs_exists M n uri"

definition repo_create ::
  "('w, 'd, 't) mount_env \<Rightarrow> (nat \<Rightarrow> nat) \<Rightarrow> nat \<Rightarrow> string \<Rightarrow> bytes \<Rightarrow> config \<Rightarrow>
   ('d, 't) repo res \<times> 'd storage option"
where
  "repo_create M clk n uri pwd cfg = fs_create M clk n uri pwd cfg"

definition repo_open ::
  "('w, 'd, 't) mount_env \<Rightarrow> nat \<Rightarrow> string \<Rightarrow> bytes \<Rightarrow> bool \<Rightarrow> bool \<Rightarrow> ('d, 't) repo res \<times> 'd storage option"
where
  "repo_open M n uri pwd ro force = fs_open M n uri pwd ro force"

definition opener_open ::
  "('w, 'd, 't) mount_env \<Rightarrow> (nat \<Rightarrow> nat) \<Rightarrow> nat \<Rightarrow> repo_opener \<Rightarrow> string \<Rightarrow> bytes \<Rightarrow>
   ('d, 't) repo res \<times> 'd storage option"
where
  "opener_open M clk n r uri pwd =
     (if op_version_limit (cf_opts (ro_cfg r)) = 0 then (Err InvalidArgument, None)
      else if ro_create r
      then if ro_read_only r then (Err InvalidArgument, None)
        else case repo_exists M n uri of
            Ok True \<Rightarrow>
              if ro_create_new r then (Err RepoExists, None)
              else repo_open M n uri pwd (ro_read_only r) (ro_force r)
          | Ok False \<Rightarrow> repo_create M clk n uri pwd (ro_cfg r)
          | Err err \<Rightarrow> (Err err, None)
          | Panic \<Rightarrow> (Panic, None)
      else repo_open M n uri pwd (ro_read_only r) (ro_force r))"

definition repo_repair_super_block ::
  "('w, 'd, 't) mount_env \<Rightarrow> nat \<Rightarrow> nat \<Rightarrow> string \<Rightarrow> bytes \<Rightarrow> unit res \<times> 'd storage option"
where
  "repo_repair_super_block M clk n uri pwd = fs_repair_super_block M clk n uri pwd"

definition repo_destroy :: "('w, 'd, 't) mount_env \<Rightarrow> nat \<Rightarrow> string \<Rightarrow> unit res \<times> 'd storage option" where
  "repo_destroy M n uri = fs_destroy M n uri"

subsection \<open>Opening a file\<close>

record open_options =
  oo_read :: bool
  oo_write :: bool
  oo_append :: bool
  oo_truncate :: bool
  oo_create :: bool
  oo_create_new :: bool
  oo_version_limit :: "8 word option"
  oo_dedup_chunk :: "bool option"

definition open_options_new :: open_options where
  "open_options_new = \<lparr>oo_read = True, oo_write = False, oo_append = False, oo_truncate = False,
     oo_create = False, oo_create_new = False, oo_version_limit = None, oo_dedup_chunk = None\<rparr>"

definition oo_set_read :: "bool \<Rightarrow> open_options \<Rightarrow> open_options" where
  "oo_set_read b q = q\<lparr>oo_read := b\<rparr>"

definition oo_set_write :: "bool \<Rightarrow> open_options \<Rightarrow> open_options" where
  "oo_set_write b q = q\<lparr>oo_write := b\<rparr>"

definition oo_set_append :: "bool \<Rightarrow> open_options \<Rightarrow> open_options" where
  "oo_set_append b q = (let q = q\<lparr>oo_append := b\<rparr> in if b then q\<lparr>oo_write := True\<rparr> else q)"

definition oo_set_truncate :: "bool \<Rightarrow> open_options \<Rightarrow> open_options" where
  "oo_set_truncate b q = (let q = q\<lparr>oo_truncate := b\<rparr> in if b then q\<lparr>oo_write := True\<rparr> else q)"

definition oo_set_create :: "bool \<Rightarrow> open_options \<Rightarrow> open_options" where
  "oo_set_create b q = (let q = q\<lparr>oo_create := b\<rparr> in if b then q\<lparr>oo_write := True\<rparr> else q)"

definition oo_set_create_new :: "bool \<Rightarrow> open_options \<Rightarrow> open_options" where
  "oo_set_create_new b q =
     (let q = q\<lparr>oo_create_new := b\<rparr> in if b then q\<lparr>oo_create := True, oo_write := True\<rparr> else q)"

definition oo_set_version_limit :: "8 word \<Rightarrow> open_options \<Rightarrow> open_options" where
  "oo_set_version_limit n q = q\<lparr>oo_version_limit := Some n\<rparr>"

definition oo_set_dedup_chunk :: "bool \<Rightarrow> open_options \<Rightarrow> open_options" where
  "oo_set_dedup_chunk b q = q\<lparr>oo_dedup_chunk := Some b\<rparr>"

definition file_opts :: "open_options \<Rightarrow> options \<Rightarrow> options" where
  "file_opts q p =
     (let p1 = (case oo_version_limit q of None \<Rightarrow> p | Some n \<Rightarrow> p\<lparr>op_version_limit := n\<rparr>)
      in case oo_dedup_chunk q of None \<Rightarrow> p1 | Some b \<Rightarrow> p1\<lparr>op_dedup_chunk := b\<rparr>)"

definition open_wants_write :: "open_options \<Rightarrow> bool" where
  "open_wants_write q \<longleftrightarrow> oo_write q \<or> oo_append q \<or> oo_truncate q \<or> oo_create q \<or> oo_create_new q"

text \<open>The file is there, or it is created: the match on the result of \<open>resolve\<close>.\<close>

definition find_or_create ::
  "('w, 'v, 't) fs_env \<Rightarrow> fs \<Rightarrow> path \<Rightarrow> open_options \<Rightarrow> (unit, error, ('v, 't) fs_world) eff"
where
  "find_or_create E F p q = (\<lambda>s. case resolve E F p s of
       (Ok _, s1) \<Rightarrow> guard (oo_create_new q) AlreadyExists s1
     | (Err err, s1) \<Rightarrow>
         if error_eq err NotFound \<and> oo_create q
         then bind_s (create_fnode E F p File (file_opts q (fs_opts F))) (\<lambda>_. ret_s ()) s1
         else (Err err, s1)
     | (Panic, s1) \<Rightarrow> (Panic, s1))"

text \<open>The rest, once the node \<open>r\<close> and its length are known.\<close>

definition start_file ::
  "('w, 'v, 't) fs_env \<Rightarrow> nat \<Rightarrow> nat \<Rightarrow> open_options \<Rightarrow> ('w rfile, error, ('v, 't) fs_world) eff"
where
  "start_file E r cl q = (\<lambda>s.
     let f = file_new r (if oo_append q then cl else 0) (oo_read q) (oo_write q)
     in if oo_truncate q \<and> 0 < cl
        then (case file_set_len E 0 (f, s) of (q', (f', s')) \<Rightarrow> (bind_r q' (\<lambda>_. Ok f'), s'))
        else (Ok f, s))"

definition open_file_with_options ::
  "('w, 'v, 't) fs_env \<Rightarrow> fs \<Rightarrow> path \<Rightarrow> open_options \<Rightarrow> ('w rfile, error, ('v, 't) fs_world) eff"
where
  "open_file_with_options E F p q =
     bind_s (guard (fs_read_only F \<and> open_wants_write q) ReadOnly) (\<lambda>_.
     bind_s (find_or_create E F p q) (\<lambda>_.
     bind_s (open_fnode E F p) (\<lambda>r.
     bind_s (node_at r) (\<lambda>x.
     bind_s (guard (is_dir x) IsDir) (\<lambda>_.
     bind_s (lift_r (curr_len x)) (\<lambda>cl. start_file E r cl q))))))"

definition options_open ::
  "('w, 'v, 't) fs_env \<Rightarrow> fs \<Rightarrow> path \<Rightarrow> open_options \<Rightarrow> ('w rfile, error, ('v, 't) fs_world) eff"
where
  "options_open E F p q =
     bind_s (guard (oo_version_limit q = Some 0) InvalidArgument) (\<lambda>_. open_file_with_options E F p q)"

subsection \<open>Information\<close>

record repo_info =
  ri_volume_id :: eid
  ri_ver :: version
  ri_uri :: string
  ri_cost :: cost
  ri_cipher :: cipher
  ri_compress :: bool
  ri_version_limit :: "8 word"
  ri_dedup_chunk :: bool
  ri_dedup_file :: bool
  ri_read_only :: bool
  ri_ctime :: nat

definition info_of_repo :: "('d, 't) repo \<Rightarrow> repo_info" where
  "info_of_repo i =
     (let m = info_of_fs i; vi = if_vol_info m; op = if_opts m
      in \<lparr>ri_volume_id = vi_id vi, ri_ver = vi_ver vi, ri_uri = vi_uri vi, ri_cost = vi_cost vi,
          ri_cipher = vi_cipher vi, ri_compress = vi_compress vi, ri_version_limit = op_version_limit op,
          ri_dedup_chunk = op_dedup_chunk op, ri_dedup_file = op_dedup_file op, ri_read_only = if_read_only m,
          ri_ctime = vi_ctime vi\<rparr>)"

subsection \<open>Operations\<close>

definition on_repo ::
  "(fs \<Rightarrow> ('a, error, ('d storage, 't) fs_world) eff) \<Rightarrow> ('a, error, ('d, 't) repo) eff"
where
  "on_repo m = (\<lambda>(F, vi, s). case m F s of (q, s') \<Rightarrow> (q, (F, vi, s')))"

definition on_repo_f :: "(fs \<Rightarrow> ('a, ('d storage, 't) fs_world) fuel_eff) \<Rightarrow> ('a, ('d, 't) repo) fuel_eff" where
  "on_repo_f m = (\<lambda>(F, vi, s). map_option (\<lambda>(q, s'). (q, (F, vi, s'))) (m F s))"

definition repo_reset_password ::
  "('w, 'd, 't) mount_env \<Rightarrow> nat \<Rightarrow> bytes \<Rightarrow> bytes \<Rightarrow> ops_limit \<Rightarrow> mem_limit \<Rightarrow> (unit, error, ('d, 't) repo) eff"
where
  "repo_reset_password M clk old_pwd new_pwd ops mem =
     fs_reset_password M clk old_pwd new_pwd \<lparr>ops_limit = ops, mem_limit = mem\<rparr>"

definition path_exists :: "('w, 'd, 't) mount_env \<Rightarrow> path \<Rightarrow> (bool, error, ('d, 't) repo) eff" where
  "path_exists M p = on_repo (\<lambda>F.
     or_else_s (bind_s (resolve (me_fs M) F p) (\<lambda>_. ret_s True)) (\<lambda>_. ret_s False))"

text \<open>The kind of the node at a path; a path that does not resolve is neither a file nor a directory.\<close>

definition repo_node_is ::
  "('w, 'd, 't) mount_env \<Rightarrow> (fnode \<Rightarrow> bool) \<Rightarrow> path \<Rightarrow> (bool, error, ('d, 't) repo) eff"
where
  "repo_node_is M P p = on_repo (\<lambda>F s. case resolve (me_fs M) F p s of
       (Ok r, s1) \<Rightarrow> bind_s (node_at r) (\<lambda>x. ret_s (P x)) s1
     | (Err _, s1) \<Rightarrow> (Ok False, s1)
     | (Panic, s1) \<Rightarrow> (Panic, s1))"

definition repo_is_file :: "('w, 'd, 't) mount_env \<Rightarrow> path \<Rightarrow> (bool, error, ('d, 't) repo) eff" where
  "repo_is_file M p = repo_node_is M is_file p"

definition repo_is_dir :: "('w, 'd, 't) mount_env \<Rightarrow> path \<Rightarrow> (bool, error, ('d, 't) repo) eff" where
  "repo_is_dir M p = repo_node_is M is_dir p"

definition create_file :: "('w, 'd, 't) mount_env \<Rightarrow> path \<Rightarrow> ('w rfile, error, ('d, 't) repo) eff" where
  "create_file M p = on_repo (\<lambda>F.
     options_open (me_fs M) F p (oo_set_truncate True (oo_set_create True open_options_new)))"

definition open_file :: "('w, 'd, 't) mount_env \<Rightarrow> path \<Rightarrow> ('w rfile, error, ('d, 't) repo) eff" where
  "open_file M p = on_repo (\<lambda>F. options_open (me_fs M) F p open_options_new)"

definition create_dir :: "('w, 'd, 't) mount_env \<Rightarrow> path \<Rightarrow> (unit, error, ('d, 't) repo) eff" where
  "create_dir M p = on_repo (\<lambda>F. bind_s (create_fnode (me_fs M) F p Dir options_default) (\<lambda>_. ret_s ()))"

definition repo_create_dir_all :: "('w, 'd, 't) mount_env \<Rightarrow> path \<Rightarrow> (unit, error, ('d, 't) repo) eff" where
  "repo_create_dir_all M p = on_repo (\<lambda>F. create_dir_all (me_fs M) F p)"

definition repo_read_dir :: "('w, 'd, 't) mount_env \<Rightarrow> path \<Rightarrow> (dir_entry list, error, ('d, 't) repo) eff" where
  "repo_read_dir M p = on_repo (\<lambda>F. read_dir (me_fs M) F p)"

definition repo_metadata :: "('w, 'd, 't) mount_env \<Rightarrow> path \<Rightarrow> (metadata, error, ('d, 't) repo) eff" where
  "repo_metadata M p = on_repo (\<lambda>F. fs_metadata (me_fs M) F p)"

definition repo_history :: "('w, 'd, 't) mount_env \<Rightarrow> path \<Rightarrow> (file_version list, error, ('d, 't) repo) eff" where
  "repo_history M p = on_repo (\<lambda>F. fs_history (me_fs M) F p)"

definition repo_copy :: "('w, 'd, 't) mount_env \<Rightarrow> path \<Rightarrow> path \<Rightarrow> (unit, error, ('d, 't) repo) eff" where
  "repo_copy M from to = on_repo (\<lambda>F. fs_copy (me_fs M) F from to)"

definition repo_copy_dir_all :: "nat \<Rightarrow> ('w, 'd, 't) mount_env \<Rightarrow> path \<Rightarrow> path \<Rightarrow> (unit, ('d, 't) repo) fuel_eff" where
  "repo_copy_dir_all k M from to = on_repo_f (\<lambda>F. copy_dir_all k (me_fs M) F from to)"

definition repo_remove_file :: "('w, 'd, 't) mount_env \<Rightarrow> path \<Rightarrow> (unit, error, ('d, 't) repo) eff" where
  "repo_remove_file M p = on_repo (\<lambda>F. remove_file (me_fs M) F p)"

definition repo_remove_dir :: "('w, 'd, 't) mount_env \<Rightarrow> path \<Rightarrow> (unit, error, ('d, 't) repo) eff" where
  "repo_remove_dir M p = on_repo (\<lambda>F. remove_dir (me_fs M) F p)"

definition repo_remove_dir_all :: "nat \<Rightarrow> ('w, 'd, 't) mount_env \<Rightarrow> path \<Rightarrow> (unit, ('d, 't) repo) fuel_eff" where
  "repo_remove_dir_all k M p = on_repo_f (\<lambda>F. remove_dir_all k (me_fs M) F p)"

definition repo_rename :: "('w, 'd, 't) mount_env \<Rightarrow> path \<Rightarrow> path \<Rightarrow> (unit, error, ('d, 't) repo) eff" where
  "repo_rename M from to = on_repo (\<lambda>F. rename (me_fs M) F from to)"

subsection \<open>Facts\<close>

lemma guard_Ok_iff: "guard b err s = (Ok u, s') \<longleftrightarrow> \<not> b \<and> s' = s"
  by (auto simp: guard_def)

lemma on_fw_Ok_iff: "on_fw m (f, s) = (Ok x, (f', s')) \<longleftrightarrow> f' = f \<and> m s = (Ok x, s')"
  by (auto simp: on_fw_def zoom_def split: prod.splits)

lemma set_len_keeps_file:
  assumes "file_set_len E n (f, s) = (Ok u, (f', s'))" and "fl_rdr f = None"
  shows "f' = f"
  using assms
  by (auto simp: file_set_len_def bind_s_Ok_iff on_fw_Ok_iff guard_Ok_iff renew_if_reader_def split: prod.splits if_splits)

lemma opened_file:
  assumes "options_open E F p q s = (Ok f, s')"
  obtains s0 r s1 x s2 n where "find_or_create E F p q s = (Ok (), s0)" "resolve E F p s0 = (Ok r, s1)"
    "node_at r s1 = (Ok x, s2)" "is_file x" "(curr_len x :: nat res) = Ok n" "oo_version_limit q \<noteq> Some 0"
    "f = file_new r (if oo_append q then n else 0) (oo_read q) (oo_write q)"
    "oo_truncate q \<and> 0 < n \<longrightarrow> file_set_len E 0 (f, s2) = (Ok (), (f, s'))"
proof -
  obtain s0 r s1 x s2 n where st: "find_or_create E F p q s = (Ok (), s0)" "resolve E F p s0 = (Ok r, s1)"
    "node_at r s1 = (Ok x, s2)" "\<not> is_dir x" "(curr_len x :: nat res) = Ok n" and v: "oo_version_limit q \<noteq> Some 0"
    and fin: "start_file E r n q s2 = (Ok f, s')"
    using assms unfolding options_open_def open_file_with_options_def bind_s_Ok_iff guard_Ok_iff open_fnode_def
    by (auto simp: lift_r_def)
  let ?f = "file_new r (if oo_append q then n else 0) (oo_read q) (oo_write q)"
  have f: "f = ?f \<and> (oo_truncate q \<and> 0 < n \<longrightarrow> file_set_len E 0 (?f, s2) = (Ok (), (?f, s')))"
  proof (cases "oo_truncate q \<and> 0 < n")
    case True
    then obtain u f' where l: "file_set_len E 0 (?f, s2) = (Ok u, (f', s'))" and "f' = f"
      using fin by (auto simp: start_file_def Let_def bind_r_Ok_iff split: prod.splits)
    moreover have "f' = ?f" using set_len_keeps_file [OF l] by (simp add: file_new_def)
    ultimately show ?thesis by simp
  qed (use fin in \<open>auto simp: start_file_def Let_def\<close>)
  have "is_file x" using st(4) by (cases "fn_ftype x") (auto simp: is_dir_def is_file_def)
  with st v f show ?thesis by (intro that) auto
qed



end
