(* ===== verification/Reference_Repo.thy ===== *)
theory Reference_Repo
  imports Repo Reference_Fs
begin

text \<open>The theorems of the repository applied to the small file system, with a file of five bytes.\<close>

definition tab_file :: fnode where
  "tab_file = (tab_node File [])\<lparr>fn_vers := [\<lparr>ve_num = 1, ve_content_id = [7], ve_content_len = 5, ve_ctime = 0\<rparr>]\<rparr>"

definition tab_file_world :: "(eid \<rightharpoonup> fnode cow, unit) fs_world" where
  "tab_file_world = tab_world\<lparr>fw_sto := tab_sto\<lparr>sw_vol := tab_vol([2] \<mapsto> tab_cow [2] tab_file)\<rparr>\<rparr>"


definition ro_fs :: fs where
  "ro_fs = \<lparr>fs_root = 0, fs_opts = options_default, fs_read_only = True\<rparr>"


end
