(* ===== verification/Os_Files.thy ===== *)
theory Os_Files
  imports Zbox_Effect "HOL-Library.Sublist"
begin

text \<open>
  The part of \<open>std::fs\<close> that the file back end uses (\<open>src/src/base/vio.rs\<close> exports it), and the
  helpers for directories in \<open>src/src/base/utils.rs\<close>. A path is the list of its components. Names
  lead to inodes, so that an open file keeps its data when its name is removed or taken by another
  file. \<open>os_faults\<close> is a schedule of failures: each call takes one element off, and fails if that is an
  error; a failing write stores a prefix of its data, of the length given there. When the schedule
  has run out nothing fails any more.

  \<open>os_draws\<close> counts the random draws of the process, which encryption needs.
\<close>

type_synonym os_path = "string list"

record os =
  os_names :: "(os_path \<times> nat) list"
  os_data :: "nat \<Rightarrow> bytes"
  os_next :: nat
  os_dirs :: "os_path list"
  os_faults :: "(io_error \<times> nat) option list"
  os_draws :: nat

record fhandle =
  fh_ino :: nat
  fh_pos :: nat

definition os_ino :: "os \<Rightarrow> os_path \<rightharpoonup> nat" where
  "os_ino s = map_of (os_names s)"

definition os_file :: "os \<Rightarrow> os_path \<rightharpoonup> bytes" where
  "os_file s p = map_option (os_data s) (os_ino s p)"

definition is_os_dir :: "os \<Rightarrow> os_path \<Rightarrow> bool" where
  "is_os_dir s p = (p \<in> set (os_dirs s))"

subsection \<open>Calls\<close>

text \<open>One call, which may fail by schedule.\<close>

definition tick :: "os \<Rightarrow> os" where
  "tick s = s\<lparr>os_faults := tl (os_faults s)\<rparr>"

definition next_fault :: "os \<Rightarrow> (io_error \<times> nat) option" where
  "next_fault s = (case os_faults s of [] \<Rightarrow> None | f # _ \<Rightarrow> f)"

definition os_call :: "('a, io_error, os) eff \<Rightarrow> ('a, io_error, os) eff" where
  "os_call m = (\<lambda>s. case next_fault s of
       None \<Rightarrow> m (tick s)
     | Some (err, _) \<Rightarrow> (Err err, tick s))"

definition not_found :: io_error where
  "not_found = io_error_new IoNotFound ''No such file or directory''"

definition os_open :: "bool \<Rightarrow> bool \<Rightarrow> os_path \<Rightarrow> (fhandle, io_error, os) eff" where
  "os_open create trunc p = os_call (\<lambda>s. case os_ino s p of
       Some i \<Rightarrow> (Ok \<lparr>fh_ino = i, fh_pos = 0\<rparr>, if trunc then s\<lparr>os_data := (os_data s)(i := [])\<rparr> else s)
     | None \<Rightarrow>
         if is_os_dir s p then (Err (io_error_new IoOther ''Is a directory''), s)
         else if create \<and> is_os_dir s (butlast p)
         then (Ok \<lparr>fh_ino = os_next s, fh_pos = 0\<rparr>,
               s\<lparr>os_names := (p, os_next s) # os_names s, os_data := (os_data s)(os_next s := []),
                 os_next := Suc (os_next s)\<rparr>)
         else (Err not_found, s))"

text \<open>\<open>read_to_end\<close> of at most \<open>n\<close> bytes, \<open>read_to_end\<close>, and \<open>read_exact\<close> after a seek.\<close>

definition os_read_some :: "nat \<Rightarrow> fhandle \<Rightarrow> (bytes \<times> fhandle, io_error, os) eff" where
  "os_read_some n h = os_call (\<lambda>s.
     let b = take n (drop (fh_pos h) (os_data s (fh_ino h)))
     in (Ok (b, h\<lparr>fh_pos := fh_pos h + length b\<rparr>), s))"

definition os_read_all :: "fhandle \<Rightarrow> (bytes, io_error, os) eff" where
  "os_read_all h = os_call (\<lambda>s. (Ok (drop (fh_pos h) (os_data s (fh_ino h))), s))"

definition os_read_exact :: "nat \<Rightarrow> nat \<Rightarrow> fhandle \<Rightarrow> (bytes, io_error, os) eff" where
  "os_read_exact pos n h = os_call (\<lambda>s.
     let b = take n (drop pos (os_data s (fh_ino h)))
     in (if length b = n then Ok b else Err (io_error_new (IoKind 0) ''failed to fill whole buffer''), s))"

text \<open>Writing behind the end fills the gap with zeros.\<close>

definition os_splice :: "nat \<Rightarrow> bytes \<Rightarrow> bytes \<Rightarrow> bytes" where
  "os_splice pos b d = take pos d @ replicate (pos - length d) 0 @ b @ drop (pos + length b) d"

definition os_store :: "nat \<Rightarrow> nat \<Rightarrow> bytes \<Rightarrow> os \<Rightarrow> os" where
  "os_store i pos b s = s\<lparr>os_data := (os_data s)(i := os_splice pos b (os_data s i))\<rparr>"

definition os_write_at :: "nat \<Rightarrow> bytes \<Rightarrow> fhandle \<Rightarrow> (fhandle, io_error, os) eff" where
  "os_write_at pos b h = (\<lambda>s.
     if b = [] then (Ok h, s)
     else case next_fault s of
         None \<Rightarrow> (Ok (h\<lparr>fh_pos := pos + length b\<rparr>), os_store (fh_ino h) pos b (tick s))
       | Some (err, k) \<Rightarrow> (Err err, os_store (fh_ino h) pos (take k b) (tick s)))"

definition os_write_all :: "bytes \<Rightarrow> fhandle \<Rightarrow> (fhandle, io_error, os) eff" where
  "os_write_all b h = os_write_at (fh_pos h) b h"

definition unname :: "os_path \<Rightarrow> os \<Rightarrow> os" where
  "unname p s = s\<lparr>os_names := filter (\<lambda>(q, _). q \<noteq> p) (os_names s)\<rparr>"

definition os_remove_file :: "os_path \<Rightarrow> (unit, io_error, os) eff" where
  "os_remove_file p = os_call (\<lambda>s.
     if os_ino s p = None then (Err not_found, s) else (Ok (), unname p s))"

definition os_rename :: "os_path \<Rightarrow> os_path \<Rightarrow> (unit, io_error, os) eff" where
  "os_rename a b = os_call (\<lambda>s. case os_ino s a of
       None \<Rightarrow> (Err not_found, s)
     | Some i \<Rightarrow>
         if is_os_dir s b then (Err (io_error_new IoOther ''Is a directory''), s)
         else if \<not> is_os_dir s (butlast b) then (Err not_found, s)
         else (Ok (), let s' = unname b (unname a s) in s'\<lparr>os_names := (b, i) # os_names s'\<rparr>))"

text \<open>Directories; \<open>Path::exists\<close> does not tell an error from absence.\<close>

definition os_exists :: "os_path \<Rightarrow> (bool, 'e, os) eff" where
  "os_exists p = (\<lambda>s. (Ok (next_fault s = None \<and> (os_ino s p \<noteq> None \<or> is_os_dir s p)), tick s))"

definition os_metadata :: "os_path \<Rightarrow> (unit, io_error, os) eff" where
  "os_metadata p = os_call (\<lambda>s. (if os_ino s p \<noteq> None \<or> is_os_dir s p then Ok () else Err not_found, s))"

definition os_create_dir_all :: "os_path \<Rightarrow> (unit, io_error, os) eff" where
  "os_create_dir_all p = os_call (\<lambda>s.
     if list_ex (\<lambda>q. os_ino s q \<noteq> None) (prefixes p)
     then (Err (io_error_new IoOther ''Not a directory''), s)
     else (Ok (), s\<lparr>os_dirs := prefixes p @ os_dirs s\<rparr>))"

definition dir_entries :: "os_path \<Rightarrow> os \<Rightarrow> os_path list" where
  "dir_entries p s = filter (\<lambda>q. q \<noteq> [] \<and> butlast q = p) (map fst (os_names s) @ os_dirs s)"

definition os_read_dir :: "os_path \<Rightarrow> (os_path list, io_error, os) eff" where
  "os_read_dir p = os_call (\<lambda>s. (if p \<noteq> [] \<and> is_os_dir s p then Ok (dir_entries p s) else Err not_found, s))"

definition os_remove_dir :: "os_path \<Rightarrow> (unit, io_error, os) eff" where
  "os_remove_dir p = os_call (\<lambda>s.
     if \<not> is_os_dir s p then (Err not_found, s)
     else if dir_entries p s \<noteq> [] then (Err (io_error_new IoOther ''Directory not empty''), s)
     else (Ok (), s\<lparr>os_dirs := filter (\<lambda>q. q \<noteq> p) (os_dirs s)\<rparr>))"

definition os_remove_dir_all :: "os_path \<Rightarrow> (unit, io_error, os) eff" where
  "os_remove_dir_all p = os_call (\<lambda>s.
     if \<not> is_os_dir s p then (Err not_found, s)
     else (Ok (), s\<lparr>os_names := filter (\<lambda>(q, _). \<not> prefix p q) (os_names s),
                    os_dirs := filter (\<lambda>q. \<not> prefix p q) (os_dirs s)\<rparr>))"

subsection \<open>Helpers of the code\<close>

text \<open>The question mark on an I/O error.\<close>

definition io :: "('a, io_error, os) eff \<Rightarrow> ('a, error, os) eff" where
  "io m = conv_s (map_err from_io_error) m"

definition ensure_parents_dir :: "os_path \<Rightarrow> (unit, error, os) eff" where
  "ensure_parents_dir p =
     bind_s (lift_r (if p = [] then Panic else Ok (butlast p))) (\<lambda>parent.
     bind_s (os_exists parent) (\<lambda>b. if b then ret_s () else io (os_create_dir_all parent)))"

fun remove_empty_dirs :: "os_path list \<Rightarrow> (unit, error, os) eff" where
  "remove_empty_dirs [] = ret_s ()"
| "remove_empty_dirs (p # ps) = (\<lambda>s. case os_read_dir p s of
       (Ok es, s1) \<Rightarrow>
         if 0 < length es then (Ok (), s1)
         else bind_s (io (os_remove_dir p)) (\<lambda>_. remove_empty_dirs ps) s1
     | (Err err, s1) \<Rightarrow> if kind err = IoNotFound then (Ok (), s1) else (Err (from_io_error err), s1)
     | (Panic, s1) \<Rightarrow> (Panic, s1))"

text \<open>\<open>path.ancestors().skip(1)\<close> goes up from the parent.\<close>

definition remove_empty_parent_dir :: "os_path \<Rightarrow> (unit, error, os) eff" where
  "remove_empty_parent_dir p = remove_empty_dirs (rev (prefixes (butlast p)))"

text \<open>\<open>Path::set_extension\<close> on a file name without a dot.\<close>

definition with_ext :: "string \<Rightarrow> os_path \<Rightarrow> os_path" where
  "with_ext ext p = butlast p @ [takeWhile (\<lambda>c. c \<noteq> CHR ''.'') (last p) @ ''.'' @ ext]"

subsection \<open>The calls when nothing fails\<close>

text \<open>
  A tidy file system: no failure is scheduled, every name has an inode of its own and is in a
  directory, and the directories are closed under taking the parent.
\<close>

definition os_ok :: "os \<Rightarrow> bool" where
  "os_ok s \<longleftrightarrow> os_faults s = [] \<and> inj_on (os_ino s) (dom (os_ino s)) \<and>
     (\<forall>p i. os_ino s p = Some i \<longrightarrow> i < os_next s \<and> is_os_dir s (butlast p) \<and> \<not> is_os_dir s p) \<and>
     (\<forall>p. is_os_dir s p \<longrightarrow> is_os_dir s (butlast p))"

lemma tick_simps [simp]:
  "os_names (tick s) = os_names s" "os_data (tick s) = os_data s" "os_next (tick s) = os_next s"
  "os_dirs (tick s) = os_dirs s" "os_draws (tick s) = os_draws s"
  "os_ino (tick s) = os_ino s" "os_file (tick s) = os_file s" "is_os_dir (tick s) = is_os_dir s"
  by (auto simp: tick_def os_ino_def os_file_def is_os_dir_def os_ok_def fun_eq_iff)

lemma os_ok_no_fault [simp]: "os_ok s \<Longrightarrow> tick s = s" "os_ok s \<Longrightarrow> next_fault s = None"
  by (simp_all add: os_ok_def tick_def next_fault_def)

lemma os_call_ok [simp]: "os_ok s \<Longrightarrow> os_call m s = m s"
  by (simp add: os_call_def)

lemma io_Ok [simp]: "m s = (Ok x, s') \<Longrightarrow> io m s = (Ok x, s')"
  by (simp add: io_def conv_s_def)

lemma unname_ino: "os_ino (unname p s) = (os_ino s)(p := None)"
proof
  fix q
  have "map_of (filter (\<lambda>(q, _). q \<noteq> p) xs) q = (if q = p then None else map_of xs q)" for xs :: "(os_path \<times> nat) list"
    by (induction xs) auto
  then show "os_ino (unname p s) q = ((os_ino s)(p := None)) q" by (simp add: os_ino_def unname_def)
qed

lemma unname_simps [simp]:
  "os_data (unname p s) = os_data s" "os_dirs (unname p s) = os_dirs s" "os_faults (unname p s) = os_faults s"
  "os_next (unname p s) = os_next s" "os_draws (unname p s) = os_draws s" "is_os_dir (unname p s) = is_os_dir s"
  by (simp_all add: unname_def is_os_dir_def fun_eq_iff)

text \<open>What a call may change besides the names and data it is about.\<close>

definition os_same :: "os \<Rightarrow> os \<Rightarrow> bool" where
  "os_same s s' \<longleftrightarrow> os_ino s' = os_ino s \<and> os_file s' = os_file s \<and> (\<forall>p. is_os_dir s p \<longrightarrow> is_os_dir s' p)"

lemma os_file_inj:
  assumes "os_ok s" and "os_ino s p = Some i"
  shows "(\<lambda>q. map_option ((os_data s)(i := d)) (os_ino s q)) = (os_file s)(p \<mapsto> d)"
proof
  fix q
  have "q = p" if "os_ino s q = Some i"
    using assms that unfolding os_ok_def inj_on_def by (metis domI)
  then show "map_option ((os_data s)(i := d)) (os_ino s q) = ((os_file s)(p \<mapsto> d)) q"
    using assms(2) by (cases "os_ino s q") (auto simp: os_file_def)
qed

lemma os_upd_simps [simp]:
  "os_ino (s\<lparr>os_data := D\<rparr>) = os_ino s" "is_os_dir (s\<lparr>os_data := D\<rparr>) = is_os_dir s"
  "os_ino (s\<lparr>os_dirs := X\<rparr>) = os_ino s" "os_file (s\<lparr>os_dirs := X\<rparr>) = os_file s"
  "is_os_dir (s\<lparr>os_dirs := X\<rparr>) p = (p \<in> set X)"
  "os_ino (s\<lparr>os_draws := n\<rparr>) = os_ino s" "os_file (s\<lparr>os_draws := n\<rparr>) = os_file s"
  "is_os_dir (s\<lparr>os_draws := n\<rparr>) = is_os_dir s"
  by (simp_all add: os_ino_def os_file_def is_os_dir_def fun_eq_iff)

lemma os_ok_draws [simp]: "os_ok (s\<lparr>os_draws := n\<rparr>) = os_ok s"
  by (simp add: os_ok_def)

lemma os_set_data:
  assumes "os_ok s" and "os_ino s p = Some i"
  shows "os_ok (s\<lparr>os_data := (os_data s)(i := d)\<rparr>)"
    "os_file (s\<lparr>os_data := (os_data s)(i := d)\<rparr>) = (os_file s)(p \<mapsto> d)"
proof -
  show "os_ok (s\<lparr>os_data := (os_data s)(i := d)\<rparr>)" using assms(1) by (simp add: os_ok_def)
  show "os_file (s\<lparr>os_data := (os_data s)(i := d)\<rparr>) = (os_file s)(p \<mapsto> d)"
    using os_file_inj [OF assms, of d] by (simp add: os_file_def [abs_def])
qed

lemma os_file_ino: "os_file s p = Some d \<longleftrightarrow> (\<exists>i. os_ino s p = Some i \<and> os_data s i = d)"
  by (auto simp: os_file_def)

lemma os_file_None: "os_file s p = None \<longleftrightarrow> os_ino s p = None"
  by (simp add: os_file_def)

subsection \<open>Effects\<close>

text \<open>
  Opening for writing, with the name of the file and the data it has then. \<open>os_open\<close> changes no
  other file, and no name but a missing one.
\<close>

lemma os_open_write:
  assumes ok: "os_ok s" and p: "\<not> is_os_dir s p" "is_os_dir s (butlast p)"
  obtains h s' where "os_open True trunc p s = (Ok h, s')" "fh_pos h = 0" "os_ok s'"
    "os_ino s' p = Some (fh_ino h)" "os_ino s p \<noteq> None \<Longrightarrow> os_ino s' = os_ino s" "\<And>q. q \<noteq> p \<Longrightarrow> os_ino s' q = os_ino s q"
    "os_file s' = (os_file s)(p \<mapsto> (if trunc then [] else case os_file s p of None \<Rightarrow> [] | Some d \<Rightarrow> d))"
    "is_os_dir s' = is_os_dir s" "os_draws s' = os_draws s"
proof (cases "os_ino s p")
  case (Some i)
  let ?s' = "if trunc then s\<lparr>os_data := (os_data s)(i := [])\<rparr> else s"
  have t: "os_ok s" "os_ino s p = Some i" using ok Some by simp_all
  have f: "os_file s p = Some (os_data s i)" using Some by (simp add: os_file_def)
  show ?thesis
    by (rule that [of "\<lparr>fh_ino = i, fh_pos = 0\<rparr>" ?s'])
      (use ok Some f os_set_data [OF t, of "[]"] in \<open>auto simp: os_open_def fun_eq_iff split: if_splits\<close>)
next
  case None
  let ?s' = "s\<lparr>os_names := (p, os_next s) # os_names s, os_data := (os_data s)(os_next s := []),
      os_next := Suc (os_next s)\<rparr>"
  have i: "os_ino ?s' = (os_ino s)(p \<mapsto> os_next s)" by (auto simp: os_ino_def)
  have d: "is_os_dir ?s' = is_os_dir s" by (simp add: is_os_dir_def fun_eq_iff)
  have lt: "j < os_next s" if "os_ino s q = Some j" for q j using ok that by (auto simp: os_ok_def)
  have inj: "inj_on (os_ino ?s') (dom (os_ino ?s'))"
    unfolding i using ok lt by (auto simp: os_ok_def inj_on_def dom_def split: if_splits)
      (metis domI less_irrefl)+
  have "os_ok ?s'"
    using ok p inj lt unfolding os_ok_def i d by (auto split: if_splits intro: less_SucI simp: less_Suc_eq)
  moreover have "os_file ?s' = (os_file s)(p \<mapsto> [])"
  proof
    fix q
    show "os_file ?s' q = ((os_file s)(p \<mapsto> [])) q"
      using lt [of q] by (cases "os_ino s q") (auto simp: os_file_def i)
  qed
  ultimately show ?thesis
    by (intro that [of "\<lparr>fh_ino = os_next s, fh_pos = 0\<rparr>" ?s'])
      (use ok p None i d in \<open>auto simp: os_open_def os_file_def\<close>)
qed

lemma os_open_read:
  assumes "os_ok s" and "\<not> is_os_dir s p"
  shows "os_open False False p s =
    (case os_ino s p of None \<Rightarrow> Err not_found | Some i \<Rightarrow> Ok \<lparr>fh_ino = i, fh_pos = 0\<rparr>, s)"
  using assms by (simp add: os_open_def split: option.splits)

lemma os_write_at_ok:
  assumes ok: "os_ok s" and h: "os_ino s p = Some (fh_ino h)" and d: "os_file s p = Some d"
  obtains s' where "os_write_at pos b h s = (Ok (if b = [] then h else h\<lparr>fh_pos := pos + length b\<rparr>), s')" "os_ok s'"
    "os_ino s' = os_ino s" "os_file s' = (os_file s)(p \<mapsto> (if b = [] then d else os_splice pos b d))"
    "is_os_dir s' = is_os_dir s" "os_draws s' = os_draws s"
proof (cases "b = []")
  case True
  then show ?thesis using ok d by (intro that [of s]) (auto simp: os_write_at_def)
next
  case False
  have t: "os_ok s" "os_ino s p = Some (fh_ino h)" and i: "os_data s (fh_ino h) = d"
    using ok h d by (simp_all add: os_file_def)
  note w = os_set_data [OF t, of "os_splice pos b d"]
  show ?thesis
    by (rule that [of "os_store (fh_ino h) pos b s"])
      (use False ok w i in \<open>simp_all add: os_write_at_def os_store_def os_ok_def\<close>)
qed

lemma os_read_exact_ok:
  assumes "os_ok s" and "os_ino s p = Some (fh_ino h)" and "os_file s p = Some d" and "pos + n \<le> length d"
  shows "os_read_exact pos n h s = (Ok (take n (drop pos d)), s)"
  using assms by (auto simp: os_read_exact_def Let_def os_file_def)

lemma os_unname:
  assumes "os_ok s"
  shows "os_ok (unname p s)" "os_file (unname p s) = (os_file s)(p := None)"
  using assms
  by (auto simp: os_ok_def unname_ino os_file_def fun_eq_iff intro: inj_on_subset split: if_splits)
    (auto simp: inj_on_def dom_def)

lemma os_remove_file_ok:
  assumes "os_ok s"
  shows "os_remove_file p s = (if os_file s p = None then (Err not_found, s) else (Ok (), unname p s))"
  using assms by (simp add: os_remove_file_def os_file_None)

lemma os_rename_ok:
  assumes ok: "os_ok s" and a: "os_ino s a = Some i" and b: "\<not> is_os_dir s b" "is_os_dir s (butlast b)" "a \<noteq> b"
  obtains s' where "os_rename a b s = (Ok (), s')" "os_ok s'" "os_ino s' = (os_ino s)(a := None, b \<mapsto> i)"
    "os_file s' = (os_file s)(a := None, b := os_file s a)" "is_os_dir s' = is_os_dir s" "os_draws s' = os_draws s"
proof -
  let ?u = "unname b (unname a s)"
  let ?s' = "?u\<lparr>os_names := (b, i) # os_names ?u\<rparr>"
  have i: "os_ino ?s' = (os_ino s)(a := None, b \<mapsto> i)"
    using unname_ino [of b "unname a s"] unname_ino [of a s] by (auto simp: os_ino_def fun_eq_iff)
  have d: "is_os_dir ?s' = is_os_dir s" by (simp add: is_os_dir_def fun_eq_iff)
  have "inj_on (os_ino ?s') (dom (os_ino ?s'))"
    using ok a unfolding i by (auto simp: os_ok_def inj_on_def dom_def split: if_splits)
  then have "os_ok ?s'" using ok a b unfolding os_ok_def i d by (auto split: if_splits)
  moreover have "os_file ?s' = (os_file s)(a := None, b := os_file s a)"
    unfolding os_file_def i using a by (auto simp: fun_eq_iff os_file_def)
  moreover have "os_rename a b s = (Ok (), ?s')" using ok a b by (simp add: os_rename_def Let_def)
  ultimately show ?thesis using i d by (intro that [of ?s']) simp_all
qed

lemma os_same_refl: "os_same s s"
  by (simp add: os_same_def)

text \<open>Making the parent directory.\<close>

lemma is_dir_prefix:
  assumes "os_ok s" and "is_os_dir s p" and "prefix q p"
  shows "is_os_dir s q"
  using assms(3,2)
proof (induction p rule: rev_induct)
  case (snoc x xs)
  have "is_os_dir s (butlast (xs @ [x]))" using assms(1) snoc.prems(2) unfolding os_ok_def by blast
  with snoc show ?case by (auto simp: prefix_snoc)
qed simp

lemma ensure_parents_dir_ok:
  assumes ok: "os_ok s" and p: "p \<noteq> []" and q: "\<And>q. prefix q (butlast p) \<Longrightarrow> os_file s q = None"
  obtains s' where "ensure_parents_dir p s = (Ok (), s')" "os_ok s'" "os_ino s' = os_ino s" "os_file s' = os_file s"
    "is_os_dir s' (butlast p)" "\<And>x. is_os_dir s' x \<longleftrightarrow> is_os_dir s x \<or> prefix x (butlast p)" "os_draws s' = os_draws s"
proof (cases "is_os_dir s (butlast p)")
  case True
  have "prefix x (butlast p) \<Longrightarrow> is_os_dir s x" for x using is_dir_prefix [OF ok True] .
  then show ?thesis
    using ok p True
    by (intro that [of s]) (auto simp: ensure_parents_dir_def os_exists_def os_ok_def bind_s_def)
next
  case False
  let ?s' = "s\<lparr>os_dirs := prefixes (butlast p) @ os_dirs s\<rparr>"
  have n: "os_ino s x = None" if "prefix x (butlast p)" for x using q [OF that] by (simp add: os_file_None)
  have d: "is_os_dir ?s' x \<longleftrightarrow> is_os_dir s x \<or> prefix x (butlast p)" for x
    by (auto simp: is_os_dir_def)
  have "prefix (butlast x) (butlast p)" if "prefix x (butlast p)" for x
    using that by (metis append_butlast_last_id butlast.simps(1) prefix_order.trans prefixI)
  then have "os_ok ?s'" using ok n unfolding os_ok_def d by auto
  moreover have "ensure_parents_dir p s = (Ok (), ?s')"
  proof -
    have c: "os_exists (butlast p) s = (Ok False, s)"
      using ok False n [of "butlast p"] by (simp add: os_exists_def)
    have e: "os_create_dir_all (butlast p) s = (Ok (), ?s')"
      using ok n by (auto simp: os_create_dir_all_def list_ex_iff)
    show ?thesis using p by (simp add: ensure_parents_dir_def bind_s_def c io_def conv_s_def e)
  qed
  ultimately show ?thesis using d by (intro that [of ?s']) simp_all
qed

text \<open>Removing empty directories changes no file.\<close>

lemma remove_empty_dirs_ok:
  assumes "os_ok s"
  shows "\<exists>s'. remove_empty_dirs ps s = (Ok (), s') \<and> os_ok s' \<and> os_ino s' = os_ino s \<and> os_file s' = os_file s \<and>
    (\<forall>p. is_os_dir s' p \<longrightarrow> is_os_dir s p) \<and> os_draws s' = os_draws s"
  using assms
proof (induction ps arbitrary: s)
  case (Cons p ps)
  let ?go = "p \<noteq> [] \<and> is_os_dir s p \<and> dir_entries p s = []"
  show ?case
  proof (cases ?go)
    case False
    then show ?thesis using Cons.prems by (auto simp: os_read_dir_def not_found_def io_error_new_def)
  next
    case True
    let ?s' = "s\<lparr>os_dirs := filter (\<lambda>q. q \<noteq> p) (os_dirs s)\<rparr>"
    have d: "is_os_dir ?s' x \<longleftrightarrow> is_os_dir s x \<and> x \<noteq> p" for x by (auto simp: is_os_dir_def)
    have nf: "butlast x \<noteq> p" if "os_ino s x = Some i \<or> is_os_dir s x" "x \<noteq> []" for x i
      using True that by (auto simp: dir_entries_def filter_empty_conv os_ino_def is_os_dir_def dest!: map_of_SomeD)
    have "is_os_dir ?s' (butlast x)" if "os_ino s x = Some i \<or> is_os_dir s x \<and> x \<noteq> p" for x i
    proof (cases "x = []")
      case True
      have "os_ino s [] = None" using Cons.prems unfolding os_ok_def by (metis butlast.simps(1) not_None_eq)
      then show ?thesis using that True \<open>?go\<close> unfolding d by auto
    next
      case False
      then show ?thesis using that nf [of x i] Cons.prems unfolding d by (auto simp: os_ok_def)
    qed
    then have ok: "os_ok ?s'" using Cons.prems unfolding os_ok_def d by auto
    have r: "os_remove_dir p s = (Ok (), ?s')"
      using Cons.prems True by (simp add: os_remove_dir_def)
    from Cons.IH [OF ok] obtain s' where "remove_empty_dirs ps ?s' = (Ok (), s')" "os_ok s'" "os_ino s' = os_ino s"
      "os_file s' = os_file s" "\<forall>q. is_os_dir s' q \<longrightarrow> is_os_dir s q" "os_draws s' = os_draws s" unfolding d by auto
    then show ?thesis
      using Cons.prems True by (auto simp: os_read_dir_def bind_s_def io_def conv_s_def r)
  qed
qed simp

end
