(* ===== verification/File_Armor.thy ===== *)
theory File_Armor
  imports Os_Files Volume_Armor Index_Mgr
begin

text \<open>
  \<open>src/src/volume/storage/file/file_armor.rs\<close>: items of the file back end, kept in two files each, one
  per arm. A file is a sequence of encrypted frames of \<open>FILE_FRAME_SIZE\<close> bytes, the last one shorter.
  Other than the armors of the volume, this one ignores an arm that cannot be read as long as the other
  one can.
\<close>

definition FILE_FRAME_SIZE :: nat where "FILE_FRAME_SIZE = 16 * 1024"

record file_armor =
  fa_base :: os_path
  fa_crypto :: crypto
  fa_key :: key

definition file_armor_new :: "os_path \<Rightarrow> file_armor" where
  "file_armor_new base = \<lparr>fa_base = base, fa_crypto = crypto_default, fa_key = replicate KEY_SIZE 0\<rparr>"

definition fa_set_crypto_ctx :: "crypto \<Rightarrow> key \<Rightarrow> file_armor \<Rightarrow> file_armor" where
  "fa_set_crypto_ctx c k fa = fa\<lparr>fa_crypto := c, fa_key := k\<rparr>"

subsection \<open>Reading\<close>

text \<open>\<open>kd_limit\<close> is the limit of the \<open>Take\<close>; \<open>kd_frame\<close> is the decrypted part of the buffer.\<close>

record crypto_reader =
  kd_file :: fhandle
  kd_limit :: nat
  kd_enc :: bytes
  kd_frame :: bytes
  kd_read :: nat

definition crypto_reader_new :: "fhandle \<Rightarrow> crypto_reader" where
  "crypto_reader_new h = \<lparr>kd_file = h, kd_limit = FILE_FRAME_SIZE, kd_enc = [], kd_frame = [], kd_read = 0\<rparr>"

text \<open>A new frame; \<open>False\<close> is the end of the file.\<close>

definition crypto_next_frame ::
  "sodium \<Rightarrow> file_armor \<Rightarrow> crypto_reader \<Rightarrow> (bool \<times> crypto_reader, io_error, os) eff"
where
  "crypto_next_frame S fa r =
     bind_s (os_read_some (kd_limit r) (kd_file r)) (\<lambda>(b, h).
       let r1 = r\<lparr>kd_file := h, kd_limit := kd_limit r - length b, kd_enc := kd_enc r @ b\<rparr>
       in if kd_enc r1 = [] then ret_s (False, r1)
          else bind_s (lift_r (map_io_err (decrypt_to S (fa_crypto fa) (kd_enc r1) (fa_key fa)))) (\<lambda>m.
               ret_s (True, r1\<lparr>kd_frame := m, kd_limit := FILE_FRAME_SIZE, kd_enc := [], kd_read := 0\<rparr>)))"

definition crypto_read ::
  "sodium \<Rightarrow> file_armor \<Rightarrow> crypto_reader \<Rightarrow> nat \<Rightarrow> (bytes \<times> crypto_reader, io_error, os) eff"
where
  "crypto_read S fa r n =
     bind_s (if length (kd_frame r) \<le> kd_read r then crypto_next_frame S fa r else ret_s (True, r)) (\<lambda>(more, r1).
       if \<not> more then ret_s ([], r1)
       else bind_s (assert_s (kd_read r1 < length (kd_frame r1))) (\<lambda>_.
            let b = take n (drop (kd_read r1) (kd_frame r1))
            in ret_s (b, r1\<lparr>kd_read := kd_read r1 + length b\<rparr>)))"

subsection \<open>Writing\<close>

text \<open>\<open>kw_stg\<close> is the filled part of the stage, \<open>kw_cap\<close> the length of its buffer.\<close>

record crypto_writer =
  kw_file :: fhandle
  kw_stg :: bytes
  kw_cap :: nat
  kw_written :: nat

definition crypto_writer_new :: "crypto \<Rightarrow> fhandle \<Rightarrow> crypto_writer res" where
  "crypto_writer_new c h = bind_r (decrypted_len c FILE_FRAME_SIZE) (\<lambda>n.
     Ok \<lparr>kw_file = h, kw_stg = [], kw_cap = n, kw_written = 0\<rparr>)"

definition crypto_write_frame :: "sodium \<Rightarrow> file_armor \<Rightarrow> (unit, error, crypto_writer \<times> os) eff" where
  "crypto_write_frame S fa = (\<lambda>(w, s).
     if kw_stg w = [] then (Ok (), (w, s))
     else case crypto_encrypt S (fa_crypto fa) (os_draws s) (kw_stg w) (fa_key fa) of
         (Ok ct, n) \<Rightarrow>
           (case os_write_all ct (kw_file w) (s\<lparr>os_draws := n\<rparr>) of
              (Ok h, s') \<Rightarrow> (Ok (), (w\<lparr>kw_file := h, kw_stg := [], kw_written := kw_written w + length ct\<rparr>, s'))
            | (Err err, s') \<Rightarrow> (Err (from_io_error err), (w, s'))
            | (Panic, s') \<Rightarrow> (Panic, (w, s')))
       | (Err err, n) \<Rightarrow> (Err err, (w, s\<lparr>os_draws := n\<rparr>))
       | (Panic, n) \<Rightarrow> (Panic, (w, s\<lparr>os_draws := n\<rparr>)))"

definition crypto_write :: "sodium \<Rightarrow> file_armor \<Rightarrow> bytes \<Rightarrow> (nat, io_error, crypto_writer \<times> os) eff" where
  "crypto_write S fa b = (\<lambda>(w, s).
     let n = min (length b) (kw_cap w - length (kw_stg w));
         w1 = w\<lparr>kw_stg := kw_stg w @ take n b\<rparr>
     in if kw_cap w \<le> length (kw_stg w1)
        then (case crypto_write_frame S fa (w1, s) of (q, ws) \<Rightarrow> (map_io_err (bind_r q (\<lambda>_. Ok n)), ws))
        else (Ok n, (w1, s)))"

definition crypto_finish :: "sodium \<Rightarrow> file_armor \<Rightarrow> (unit, error, crypto_writer \<times> os) eff" where
  "crypto_finish S fa = crypto_write_frame S fa"

subsection \<open>Slots\<close>

definition get_item_reader :: "file_armor \<Rightarrow> eid \<Rightarrow> (crypto_reader, error, os) eff" where
  "get_item_reader fa e =
     bind_s (lift_r (eid_to_path (fa_base fa) e)) (\<lambda>p.
     bind_s (conv_s from_io_err (os_open False False p)) (\<lambda>h. ret_s (crypto_reader_new h)))"

definition get_item_writer :: "file_armor \<Rightarrow> eid \<Rightarrow> (crypto_writer, error, os) eff" where
  "get_item_writer fa e =
     bind_s (lift_r (eid_to_path (fa_base fa) e)) (\<lambda>p.
     bind_s (ensure_parents_dir p) (\<lambda>_.
     bind_s (io (os_open True True p)) (\<lambda>h. lift_r (crypto_writer_new (fa_crypto fa) h))))"

definition del_arm :: "file_armor \<Rightarrow> eid \<Rightarrow> (unit, error, os) eff" where
  "del_arm fa e =
     bind_s (lift_r (eid_to_path (fa_base fa) e)) (\<lambda>p s.
       case os_remove_file p s of
         (Ok _, s1) \<Rightarrow> remove_empty_parent_dir p s1
       | (Err err, s1) \<Rightarrow>
           if kind err = IoNotFound then remove_empty_parent_dir p s1 else (Err (from_io_error err), s1)
       | (Panic, s1) \<Rightarrow> (Panic, s1))"

definition file_slot_read :: "sodium \<Rightarrow> file_armor \<Rightarrow> (nat \<Rightarrow> nat) \<Rightarrow> os \<Rightarrow> eid \<Rightarrow> bytes res \<times> os" where
  "file_slot_read S fa sz s e =
     bind_s (get_item_reader fa e) (\<lambda>r. conv_s from_io_err (read_all (crypto_read S fa) sz r)) s"

definition file_slot_write :: "sodium \<Rightarrow> file_armor \<Rightarrow> os \<Rightarrow> eid \<Rightarrow> bytes \<Rightarrow> unit res \<times> os" where
  "file_slot_write S fa s e b =
     bind_s (get_item_writer fa e) (\<lambda>w s1.
       case bind_s (conv_s io_question (write_all (crypto_write S fa) b)) (\<lambda>_. crypto_finish S fa) (w, s1) of
         (q, (_, s2)) \<Rightarrow> (q, s2)) s"

definition file_armor_ops ::
  "sodium \<Rightarrow> file_armor \<Rightarrow> (nat \<Rightarrow> nat) \<Rightarrow> (arm \<Rightarrow> bytes) \<Rightarrow> 'i item_ops \<Rightarrow> ('i, os) armor_ops"
where
  "file_armor_ops S fa sz ser_arm I =
     \<lparr>ar_id = it_id I, ar_seq = it_seq I, ar_inc_seq = it_inc_seq I, ar_arm = it_arm I,
      ar_set_arm = it_set_arm I, ar_eid = arm_to_eid (crypto_hash S) ser_arm,
      ar_ser = it_ser I, ar_deser = it_deser I, ar_read = file_slot_read S fa sz,
      ar_write = file_slot_write S fa, ar_del = (\<lambda>s e. del_arm fa e s)\<rparr>"

subsection \<open>Items\<close>

text \<open>\<open>load_item\<close> of the file armor: one readable arm is enough.\<close>

definition file_choose_arm :: "('i, 'v) armor_ops \<Rightarrow> 'i res \<Rightarrow> 'i res \<Rightarrow> 'i res" where
  "file_choose_arm A left_arm right_arm =
     (case left_arm of
        Ok l \<Rightarrow> (case right_arm of
             Ok r \<Rightarrow> assert_r (ar_seq A l \<noteq> ar_seq A r) (if ar_seq A r < ar_seq A l then Ok l else Ok r)
           | Err _ \<Rightarrow> Ok l
           | Panic \<Rightarrow> Panic)
      | Err _ \<Rightarrow> right_arm
      | Panic \<Rightarrow> Panic)"

definition file_load_item :: "('i, 'v) armor_ops \<Rightarrow> 'v \<Rightarrow> eid \<Rightarrow> 'i res \<times> 'v" where
  "file_load_item A v e =
     (case load_one_arm A v e Left of
        (Panic, v1) \<Rightarrow> (Panic, v1)
      | (l, v1) \<Rightarrow> (case load_one_arm A v1 e Right of (r, v2) \<Rightarrow> (file_choose_arm A l r, v2)))"

text \<open>
  The trait \<open>Accessor\<close> of the index manager. Behind the index are three armors, each with a key of its
  own; \<open>fa\<close> and \<open>upd\<close> select one of them.
\<close>

record file_disk =
  fd_lsmt :: file_armor
  fd_memtab :: file_armor
  fd_tab :: file_armor
  fd_os :: os

definition file_accessor ::
  "sodium \<Rightarrow> (nat \<Rightarrow> nat) \<Rightarrow> (arm \<Rightarrow> bytes) \<Rightarrow> 'i item_ops \<Rightarrow> (file_disk \<Rightarrow> file_armor) \<Rightarrow>
   ((file_armor \<Rightarrow> file_armor) \<Rightarrow> file_disk \<Rightarrow> file_disk) \<Rightarrow> ('i, file_disk) accessor"
where
  "file_accessor S sz ser_arm I fa upd =
     \<lparr>ac_ctx = (\<lambda>c k. upd (fa_set_crypto_ctx c k)),
      ac_load = (\<lambda>e v. case file_load_item (file_armor_ops S (fa v) sz ser_arm I) (fd_os v) e of
         (q, s) \<Rightarrow> (q, v\<lparr>fd_os := s\<rparr>)),
      ac_save = (\<lambda>(i, v). case save_item (file_armor_ops S (fa v) sz ser_arm I) (fd_os v) i of
         (q, i', s) \<Rightarrow> (q, (i', v\<lparr>fd_os := s\<rparr>))),
      ac_remove = (\<lambda>e v. case remove_all_arms (file_armor_ops S (fa v) sz ser_arm I) (fd_os v) e of
         (q, s) \<Rightarrow> (q, v\<lparr>fd_os := s\<rparr>))\<rparr>"

subsection \<open>What a file holds\<close>

text \<open>The message in a file of frames; a frame with nothing in it fails the assertion of the reader.\<close>

function file_decode :: "sodium \<Rightarrow> file_armor \<Rightarrow> bytes \<Rightarrow> bytes res" where
  "file_decode S fa f =
     (if f = [] then Ok []
      else bind_r (decrypt_to S (fa_crypto fa) (take FILE_FRAME_SIZE f) (fa_key fa)) (\<lambda>m.
           assert_r (m \<noteq> []) (bind_r (file_decode S fa (drop FILE_FRAME_SIZE f)) (\<lambda>r. Ok (m @ r)))))"
  by pat_completeness auto
termination
  by (relation "measure (\<lambda>(S, fa, f). length f)") (auto simp: FILE_FRAME_SIZE_def)

declare file_decode.simps [simp del]

lemma file_decode_Nil [simp]: "file_decode S fa [] = Ok []"
  by (simp add: file_decode.simps)

lemma file_decode_append:
  assumes "FILE_FRAME_SIZE dvd length d" and "file_decode S fa d = Ok a"
  shows "file_decode S fa (d @ x) = bind_r (file_decode S fa x) (\<lambda>r. Ok (a @ r))"
  using assms
proof (induction "length d" arbitrary: d a rule: less_induct)
  case less
  show ?case
  proof (cases "d = []")
    case True
    then show ?thesis using less.prems by (cases "file_decode S fa x") simp_all
  next
    case False
    then have l: "FILE_FRAME_SIZE \<le> length d" using less.prems(1) by (auto dest: dvd_imp_le)
    obtain m r where m: "decrypt_to S (fa_crypto fa) (take FILE_FRAME_SIZE d) (fa_key fa) = Ok m" "m \<noteq> []"
      "file_decode S fa (drop FILE_FRAME_SIZE d) = Ok r" "a = m @ r"
      using less.prems(2) False by (auto simp: file_decode.simps [of _ _ d] bind_r_Ok_iff assert_r_Ok_iff)
    have "file_decode S fa (drop FILE_FRAME_SIZE d @ x) = bind_r (file_decode S fa x) (\<lambda>y. Ok (r @ y))"
      using less.prems(1) l False m(3)
      by (intro less.hyps) (auto simp: FILE_FRAME_SIZE_def dvd_minus_self)
    then show ?thesis
      using m l False
      by (cases "file_decode S fa x") (simp_all add: file_decode.simps [of _ _ "d @ x"] assert_r_def)
  qed
qed

lemma take_length_append: "take n xs = take (length (take n xs)) (xs @ ys)"
  by (cases "n \<le> length xs") simp_all

text \<open>A reader at the position of a file from which the rest decodes.\<close>

definition reads_on :: "sodium \<Rightarrow> file_armor \<Rightarrow> os \<Rightarrow> crypto_reader \<Rightarrow> bytes \<Rightarrow> bool" where
  "reads_on S fa s r rest \<longleftrightarrow> kd_enc r = [] \<and> kd_limit r = FILE_FRAME_SIZE \<and> kd_read r \<le> length (kd_frame r) \<and>
     (\<exists>m. file_decode S fa (drop (fh_pos (kd_file r)) (os_data s (fh_ino (kd_file r)))) = Ok m \<and>
        rest = drop (kd_read r) (kd_frame r) @ m)"

lemma crypto_read_ok:
  assumes ok: "os_ok s" and r: "reads_on S fa s r rest" and n: "0 < n"
  obtains b r' where "crypto_read S fa r n s = (Ok (b, r'), s)" "b = take (length b) rest"
    "rest \<noteq> [] \<Longrightarrow> b \<noteq> []" "reads_on S fa s r' (drop (length b) rest)"
proof (cases "kd_read r < length (kd_frame r)")
  case True
  let ?b = "take n (drop (kd_read r) (kd_frame r))"
  obtain m where m: "file_decode S fa (drop (fh_pos (kd_file r)) (os_data s (fh_ino (kd_file r)))) = Ok m"
    "rest = drop (kd_read r) (kd_frame r) @ m" using r by (auto simp: reads_on_def)
  have "crypto_read S fa r n s = (Ok (?b, r\<lparr>kd_read := kd_read r + length ?b\<rparr>), s)"
    using True by (simp add: crypto_read_def bind_s_def Let_def)
  moreover have "reads_on S fa s (r\<lparr>kd_read := kd_read r + length ?b\<rparr>) (drop (length ?b) rest)"
    using r m True by (auto simp: reads_on_def add.commute)
  ultimately show ?thesis
    using True n m(2) take_length_append [of n "drop (kd_read r) (kd_frame r)" m]
    by (intro that [of ?b]) (simp_all del: length_take take_append)
next
  case False
  let ?f = "kd_file r"
  let ?d = "drop (fh_pos ?f) (os_data s (fh_ino ?f))"
  have d: "file_decode S fa ?d = Ok rest" and e: "kd_enc r = []" "kd_limit r = FILE_FRAME_SIZE"
    using r False by (auto simp: reads_on_def)
  show ?thesis
  proof (cases "?d = []")
    case True
    then have "rest = []" using d by simp
    moreover have "crypto_read S fa r n s = (Ok ([], r), s)"
      using ok False True e by (simp add: crypto_read_def crypto_next_frame_def os_read_some_def bind_s_def Let_def)
    ultimately show ?thesis using r by (intro that) auto
  next
    case ne: False
    let ?c = "take FILE_FRAME_SIZE ?d"
    obtain m rest' where m: "decrypt_to S (fa_crypto fa) ?c (fa_key fa) = Ok m" "m \<noteq> []"
      "file_decode S fa (drop FILE_FRAME_SIZE ?d) = Ok rest'" "rest = m @ rest'"
      using d ne by (auto simp: file_decode.simps [of _ _ ?d] bind_r_Ok_iff assert_r_Ok_iff)
    let ?h = "?f\<lparr>fh_pos := fh_pos ?f + length ?c\<rparr>"
    let ?r = "\<lparr>kd_file = ?h, kd_limit = FILE_FRAME_SIZE, kd_enc = [], kd_frame = m, kd_read = length (take n m)\<rparr>"
    have c: "?c \<noteq> []" using ne by (simp add: FILE_FRAME_SIZE_def)
    have "crypto_next_frame S fa r s = (Ok (True, ?r\<lparr>kd_read := 0\<rparr>), s)"
      using ok e c m(1)
      by (cases r) (simp add: crypto_next_frame_def os_read_some_def bind_s_def Let_def)
    then have "crypto_read S fa r n s = (Ok (take n m, ?r), s)"
      using False m(2) by (simp add: crypto_read_def bind_s_def Let_def)
    moreover have "drop (fh_pos ?h) (os_data s (fh_ino ?h)) = drop FILE_FRAME_SIZE ?d"
      by (cases "FILE_FRAME_SIZE \<le> length ?d") (simp_all add: add.commute)
    then have "reads_on S fa s ?r (drop (length (take n m)) rest)"
      using m(3,4) by (auto simp: reads_on_def)
    ultimately show ?thesis
      using m n take_length_append [of n m rest'] by (intro that [of "take n m"]) (simp_all del: length_take take_append)
  qed
qed

lemma crypto_read_to_end:
  assumes ok: "os_ok s" and "reads_on S fa s r rest" and sz: "\<And>i. 0 < sz i"
  shows "read_to_end (crypto_read S fa) sz i r s = Some (Ok rest, s)"
  using assms(2)
proof (induction "length rest" arbitrary: rest r i rule: less_induct)
  case less
  obtain b r' where b: "crypto_read S fa r (sz i) s = (Ok (b, r'), s)" "b = take (length b) rest"
    "rest \<noteq> [] \<Longrightarrow> b \<noteq> []" "reads_on S fa s r' (drop (length b) rest)"
    using crypto_read_ok [OF ok less.prems sz] by blast
  show ?case
  proof (cases "b = []")
    case True
    then show ?thesis using b by (auto simp: read_to_end.simps [of _ _ _ r])
  next
    case False
    then have "length (drop (length b) rest) < length rest" using b(2) by (cases rest) auto
    from less.hyps [OF this b(4)] show ?thesis
      using False b(1,2) by (simp add: read_to_end.simps [of _ _ _ r]) (metis append_take_drop_id)
  qed
qed

subsection \<open>Writing a file\<close>

definition file_cap :: "file_armor \<Rightarrow> nat" where
  "file_cap fa = FILE_FRAME_SIZE - nonce_size (fa_crypto fa) - ATAG_SIZE"

text \<open>
  A writer has written \<open>msg\<close> to the file \<open>p\<close>: the full frames are in the file, the rest is staged.
\<close>

definition writes_on :: "sodium \<Rightarrow> file_armor \<Rightarrow> os \<Rightarrow> os_path \<Rightarrow> crypto_writer \<Rightarrow> bytes \<Rightarrow> bool" where
  "writes_on S fa s p w msg \<longleftrightarrow> (\<exists>d m. os_ino s p = Some (fh_ino (kw_file w)) \<and> os_file s p = Some d \<and>
     fh_pos (kw_file w) = length d \<and> FILE_FRAME_SIZE dvd length d \<and> file_decode S fa d = Ok m \<and> msg = m @ kw_stg w) \<and>
     kw_cap w = file_cap fa"

text \<open>What writing to the file \<open>p\<close> leaves alone.\<close>

definition only_file :: "os_path \<Rightarrow> os \<Rightarrow> os \<Rightarrow> bool" where
  "only_file p s s' \<longleftrightarrow> os_ino s' = os_ino s \<and> (\<forall>q. q \<noteq> p \<longrightarrow> os_file s' q = os_file s q) \<and> is_os_dir s' = is_os_dir s"

lemma only_file_trans: "only_file p s s' \<Longrightarrow> only_file p s' s'' \<Longrightarrow> only_file p s s''"
  by (simp add: only_file_def)

context sodium_laws
begin

lemma file_cap_pos: "0 < file_cap fa" "encrypted_len (fa_crypto fa) (file_cap fa) = FILE_FRAME_SIZE"
  "decrypted_len (fa_crypto fa) FILE_FRAME_SIZE = Ok (file_cap fa)"
  using nonce_size_le [of "fa_crypto fa"]
  by (auto simp: file_cap_def FILE_FRAME_SIZE_def ATAG_SIZE_def AES_NONCE_SIZE_def encrypted_len_def decrypted_len_def sub_r_def)

lemma write_frame_ok:
  assumes ok: "os_ok s" and w: "writes_on S fa s p w msg" and l: "length (kw_stg w) \<le> file_cap fa"
  obtains w' s' f where "crypto_write_frame S fa (w, s) = (Ok (), (w', s'))" "os_ok s'" "only_file p s s'"
    "os_file s' p = Some f" "file_decode S fa f = Ok msg" "kw_stg w' = []"
    "kw_stg w = [] \<or> length (kw_stg w) = file_cap fa \<Longrightarrow> writes_on S fa s' p w' msg"
proof -
  obtain d m where d: "os_ino s p = Some (fh_ino (kw_file w))" "os_file s p = Some d" "fh_pos (kw_file w) = length d"
    "FILE_FRAME_SIZE dvd length d" "file_decode S fa d = Ok m" "msg = m @ kw_stg w" "kw_cap w = file_cap fa"
    using w by (auto simp: writes_on_def)
  show ?thesis
  proof (cases "kw_stg w = []")
    case True
    then show ?thesis
      using ok w d by (intro that [of w s d]) (auto simp: crypto_write_frame_def only_file_def)
  next
    case False
    have "file_cap fa < 2 ^ 36 - 32" by (simp add: file_cap_def FILE_FRAME_SIZE_def)
    then obtain ct where ct: "crypto_encrypt S (fa_crypto fa) (os_draws s) (kw_stg w) (fa_key fa) = (Ok ct, Suc (os_draws s))"
      "length ct = encrypted_len (fa_crypto fa) (length (kw_stg w))" "decrypt_to S (fa_crypto fa) ct (fa_key fa) = Ok (kw_stg w)"
      using encrypt_decrypt [of "kw_stg w"] l by (meson le_less_trans)
    let ?s = "s\<lparr>os_draws := Suc (os_draws s)\<rparr>"
    have ok': "os_ok ?s" "os_ino ?s p = Some (fh_ino (kw_file w))" "os_file ?s p = Some d" using ok d by simp_all
    have ne: "ct \<noteq> []" using ct(2) False by (auto simp: encrypted_len_def ATAG_SIZE_def)
    obtain s' where s': "os_write_all ct (kw_file w) ?s = (Ok ((kw_file w)\<lparr>fh_pos := length d + length ct\<rparr>), s')" "os_ok s'"
      "os_ino s' = os_ino s" "os_file s' = (os_file s)(p \<mapsto> d @ ct)" "is_os_dir s' = is_os_dir s"
      by (rule os_write_at_ok [OF ok', of "length d" ct]) (use ne d(3) in \<open>auto simp: os_write_all_def os_splice_def\<close>)
    have lc: "length ct \<le> FILE_FRAME_SIZE"
      using ct(2) l file_cap_pos(2) [of fa] by (simp add: encrypted_len_def)
    have "file_decode S fa ct = Ok (kw_stg w)"
      using ne lc ct(3) False by (simp add: file_decode.simps [of _ _ ct] assert_r_def)
    then have dec: "file_decode S fa (d @ ct) = Ok msg"
      using file_decode_append [OF d(4,5), of ct] by (simp add: d(6))
    let ?w = "w\<lparr>kw_file := (kw_file w)\<lparr>fh_pos := length d + length ct\<rparr>, kw_stg := [], kw_written := kw_written w + length ct\<rparr>"
    have "writes_on S fa s' p ?w msg" if "length (kw_stg w) = file_cap fa"
      using that d s' dec ct(2) file_cap_pos(2) [of fa] by (auto simp: writes_on_def)
    moreover have "crypto_write_frame S fa (w, s) = (Ok (), (?w, s'))"
      using False ct(1) s'(1) by (simp add: crypto_write_frame_def)
    ultimately show ?thesis
      using s' dec False by (intro that [of ?w s' "d @ ct"]) (auto simp: only_file_def)
  qed
qed

lemma crypto_write_ok:
  assumes ok: "os_ok s" and w: "writes_on S fa s p w msg" and l: "length (kw_stg w) < file_cap fa" and b: "b \<noteq> []"
  obtains n w' s' where "crypto_write S fa b (w, s) = (Ok n, (w', s'))" "0 < n" "n \<le> length b" "os_ok s'" "only_file p s s'"
    "writes_on S fa s' p w' (msg @ take n b)" "length (kw_stg w') < file_cap fa"
proof -
  have cap: "kw_cap w = file_cap fa" using w by (simp add: writes_on_def)
  define n where "n = min (length b) (kw_cap w - length (kw_stg w))"
  let ?w = "w\<lparr>kw_stg := kw_stg w @ take n b\<rparr>"
  have n: "0 < n" "n \<le> length b" using b l cap by (auto simp: n_def)
  have w1: "writes_on S fa s p ?w (msg @ take n b)" using w by (auto simp: writes_on_def)
  show ?thesis
  proof (cases "kw_cap w \<le> length (kw_stg ?w)")
    case False
    then have "crypto_write S fa b (w, s) = (Ok n, (?w, s))"
      using n(2) by (simp add: crypto_write_def Let_def n_def [symmetric] min.absorb2)
    with False w1 n ok cap show ?thesis by (intro that) (auto simp: only_file_def)
  next
    case True
    then have lw: "length (kw_stg ?w) = file_cap fa" using l cap by (auto simp: n_def)
    then have "length (kw_stg ?w) \<le> file_cap fa" by simp
    from write_frame_ok [OF ok w1 this] obtain w' s' where
      f: "crypto_write_frame S fa (?w, s) = (Ok (), (w', s'))" "os_ok s'" "only_file p s s'" "kw_stg w' = []"
        "writes_on S fa s' p w' (msg @ take n b)" using lw by blast
    have "crypto_write S fa b (w, s) = (Ok n, (w', s'))"
      using True f(1) n(2) by (simp add: crypto_write_def Let_def n_def [symmetric] min.absorb2)
    with f n file_cap_pos(1) show ?thesis by (intro that) auto
  qed
qed

lemma crypto_write_all_ok:
  assumes "os_ok s" and "writes_on S fa s p w msg" and "length (kw_stg w) < file_cap fa"
  shows "\<exists>w' s'. write_all (crypto_write S fa) b (w, s) = (Ok (), (w', s')) \<and> os_ok s' \<and> only_file p s s' \<and>
    writes_on S fa s' p w' (msg @ b) \<and> length (kw_stg w') < file_cap fa"
  using assms
proof (induction "length b" arbitrary: b w s msg rule: less_induct)
  case less
  show ?case
  proof (cases "b = []")
    case True
    then show ?thesis using less.prems by (simp add: write_all.simps [of _ "[]"] only_file_def)
  next
    case False
    obtain n w1 s1 where w1: "crypto_write S fa b (w, s) = (Ok n, (w1, s1))" "0 < n" "n \<le> length b" "os_ok s1" "only_file p s s1"
      "writes_on S fa s1 p w1 (msg @ take n b)" "length (kw_stg w1) < file_cap fa"
      using crypto_write_ok [OF less.prems False] by blast
    have "length (drop n b) < length b" using w1(2,3) by simp
    from less.hyps [OF this w1(4,6,7)] obtain w' s' where
      "write_all (crypto_write S fa) (drop n b) (w1, s1) = (Ok (), (w', s'))" "os_ok s'" "only_file p s1 s'"
      "writes_on S fa s' p w' (msg @ b)" "length (kw_stg w') < file_cap fa" by (auto simp del: append_assoc simp: append_assoc)
    then show ?thesis
      using w1 False only_file_trans [OF w1(5)] by (auto simp: write_all.simps [of _ b])
  qed
qed

end

subsection \<open>Slots\<close>

text \<open>
  The layout of a directory \<open>base\<close> of slots: all files in it are two levels down, and there is no
  directory deeper than that.
\<close>

definition below :: "os_path \<Rightarrow> os_path \<Rightarrow> bool" where
  "below base p \<longleftrightarrow> prefix base p \<and> length p = length base + 3"

definition flat :: "os_path \<Rightarrow> os \<Rightarrow> bool" where
  "flat base s \<longleftrightarrow> os_ok s \<and>
     (\<forall>q. os_file s q \<noteq> None \<longrightarrow> \<not> prefix q base \<and> (prefix base q \<longrightarrow> below base q)) \<and>
     (\<forall>q. is_os_dir s q \<longrightarrow> prefix base q \<longrightarrow> length q \<le> length base + 2)"

lemma flat_ok: "flat base s \<Longrightarrow> os_ok s"
  by (simp add: flat_def)

lemma below_butlast: "below base p \<Longrightarrow> p \<noteq> [] \<and> length (butlast p) = length base + 2 \<and> prefix base (butlast p)"
  by (cases p rule: rev_cases) (auto simp: below_def prefix_snoc)

lemma flat_room:
  assumes "flat base s" and "below base p"
  shows "\<not> is_os_dir s p" "\<And>q. prefix q (butlast p) \<Longrightarrow> os_file s q = None"
proof -
  show "\<not> is_os_dir s p" using assms by (auto simp: flat_def below_def)
  fix q assume q: "prefix q (butlast p)"
  have b: "length (butlast p) = length base + 2" "prefix base (butlast p)" using below_butlast [OF assms(2)] by auto
  have "prefix q base \<or> prefix base q" using prefix_same_cases [OF q b(2)] .
  moreover have "length q \<le> length base + 2" using prefix_length_le [OF q] b(1) by simp
  ultimately show "os_file s q = None" using assms(1) by (cases "os_file s q") (auto simp: flat_def below_def)
qed

lemma flat_change:
  assumes "flat base s" and "os_ok s'" and "below base p"
    and "\<And>q. q \<noteq> p \<Longrightarrow> os_file s' q \<noteq> None \<Longrightarrow> os_file s q \<noteq> None"
    and "\<And>q. is_os_dir s' q \<Longrightarrow> is_os_dir s q \<or> prefix q (butlast p)"
  shows "flat base s'"
proof -
  have "\<not> prefix p base" using assms(3) by (auto simp: below_def dest: prefix_length_le)
  moreover have "length q \<le> length base + 2" if "prefix q (butlast p)" for q
    using prefix_length_le [OF that] below_butlast [OF assms(3)] by simp
  ultimately show ?thesis using assms unfolding flat_def by metis
qed

text \<open>The path of a slot.\<close>

definition slot_path :: "file_armor \<Rightarrow> eid \<Rightarrow> os_path" where
  "slot_path fa e = (let s = eid_to_string e in fa_base fa @ [take 2 s, take 2 (drop 2 s), s])"

lemma slot_path_below: "below (fa_base fa) (slot_path fa e)"
  by (simp add: slot_path_def below_def Let_def)

lemma slot_path_ok: "length e = EID_SIZE \<Longrightarrow> eid_to_path (fa_base fa) e = Ok (slot_path fa e)"
  by (simp add: eid_to_path_def slot_path_def Let_def assert_r_def length_eid_to_string EID_SIZE_def)

lemma slot_path_inj:
  "length e = EID_SIZE \<Longrightarrow> length e' = EID_SIZE \<Longrightarrow> slot_path fa e = slot_path fa e' \<longleftrightarrow> e = e'"
  by (auto simp: slot_path_def Let_def dest: eid_to_string_inj)

text \<open>Another slot is changed, and perhaps the directories on the way to it.\<close>

definition only_slot :: "os_path \<Rightarrow> os \<Rightarrow> os \<Rightarrow> bool" where
  "only_slot p s s' \<longleftrightarrow> (\<forall>q. q \<noteq> p \<longrightarrow> os_ino s' q = os_ino s q \<and> os_file s' q = os_file s q)"

context sodium_laws
begin

lemma slot_read_ok:
  assumes s: "flat (fa_base fa) s" and e: "length e = EID_SIZE" and sz: "\<And>i. 0 < sz i"
    and f: "case os_file s (slot_path fa e) of None \<Rightarrow> True | Some f \<Rightarrow> \<exists>b. file_decode S fa f = Ok b"
  shows "file_slot_read S fa sz s e =
    (case os_file s (slot_path fa e) of None \<Rightarrow> Err NotFound | Some f \<Rightarrow> file_decode S fa f, s)"
proof -
  have ok: "os_ok s" using s by (rule flat_ok)
  note op = os_open_read [OF ok flat_room(1) [OF s slot_path_below]]
  show ?thesis
  proof (cases "os_ino s (slot_path fa e)")
    case None
    then show ?thesis
      using op by (simp add: file_slot_read_def get_item_reader_def slot_path_ok [OF e] bind_s_def conv_s_def
          not_found_def io_error_new_def os_file_def)
  next
    case (Some i)
    let ?r = "crypto_reader_new \<lparr>fh_ino = i, fh_pos = 0\<rparr>"
    obtain b where b: "file_decode S fa (os_data s i) = Ok b" using f Some by (auto simp: os_file_def)
    have "reads_on S fa s ?r b" using b by (simp add: reads_on_def crypto_reader_new_def)
    from crypto_read_to_end [where sz = sz and i = 0, OF ok this sz] have "read_all (crypto_read S fa) sz ?r s = (Ok b, s)"
      by (simp add: read_all_def)
    then show ?thesis
      using op Some b by (simp add: file_slot_read_def get_item_reader_def slot_path_ok [OF e] bind_s_def conv_s_def os_file_def)
  qed
qed

lemma slot_write_ok:
  assumes s: "flat (fa_base fa) s" and e: "length e = EID_SIZE"
  obtains s' f where "file_slot_write S fa s e b = (Ok (), s')" "flat (fa_base fa) s'" "only_slot (slot_path fa e) s s'"
    "os_file s' (slot_path fa e) = Some f" "file_decode S fa f = Ok b"
    "\<And>q. is_os_dir s q \<Longrightarrow> is_os_dir s' q"
proof -
  let ?p = "slot_path fa e"
  note pb = slot_path_below [of fa e]
  have p: "?p \<noteq> []" by (simp add: slot_path_def Let_def)
  obtain s1 where s1: "ensure_parents_dir ?p s = (Ok (), s1)" "os_ok s1" "os_ino s1 = os_ino s" "os_file s1 = os_file s"
    "is_os_dir s1 (butlast ?p)" "\<And>x. is_os_dir s1 x \<longleftrightarrow> is_os_dir s x \<or> prefix x (butlast ?p)"
    using ensure_parents_dir_ok [OF flat_ok [OF s] p flat_room(2) [OF s pb]] by blast
  have "flat (fa_base fa) s1" using s1 by (intro flat_change [OF s s1(2) pb]) auto
  then have nd: "\<not> is_os_dir s1 ?p" using flat_room(1) pb by blast
  obtain h s2 where s2: "os_open True True ?p s1 = (Ok h, s2)" "fh_pos h = 0" "os_ok s2" "os_ino s2 ?p = Some (fh_ino h)"
    "\<And>q. q \<noteq> ?p \<Longrightarrow> os_ino s2 q = os_ino s1 q" "os_file s2 = (os_file s1)(?p \<mapsto> [])" "is_os_dir s2 = is_os_dir s1"
    by (rule os_open_write [OF s1(2) nd s1(5), of True]) auto
  let ?w = "\<lparr>kw_file = h, kw_stg = [], kw_cap = file_cap fa, kw_written = 0\<rparr>"
  have gw: "get_item_writer fa e s = (Ok ?w, s2)"
    using s1(1) s2(1) file_cap_pos(3) [of fa]
    by (simp add: get_item_writer_def slot_path_ok [OF e] crypto_writer_new_def)
  have w0: "writes_on S fa s2 ?p ?w []" using s2 by (auto simp: writes_on_def)
  obtain w3 s3 where s3: "write_all (crypto_write S fa) b (?w, s2) = (Ok (), (w3, s3))" "os_ok s3" "only_file ?p s2 s3"
    "writes_on S fa s3 ?p w3 b" "length (kw_stg w3) < file_cap fa"
    using crypto_write_all_ok [OF s2(3) w0, of b] file_cap_pos(1) by auto
  obtain w4 s4 f where s4: "crypto_write_frame S fa (w3, s3) = (Ok (), (w4, s4))" "os_ok s4" "only_file ?p s3 s4"
    "os_file s4 ?p = Some f" "file_decode S fa f = Ok b"
    using write_frame_ok [OF s3(2,4) less_imp_le [OF s3(5)]] by blast
  have fr: "only_file ?p s2 s4" using only_file_trans [OF s3(3) s4(3)] .
  have run: "file_slot_write S fa s e b = (Ok (), s4)"
    using s3(1) s4(1) by (simp add: file_slot_write_def gw conv_s_def io_question_def crypto_finish_def bind_s_def)
  have os: "only_slot ?p s s4" using fr s1(3,4) s2(5,6) by (simp add: only_slot_def only_file_def)
  have "flat (fa_base fa) s4"
    using os fr s1(6) s2(7) by (intro flat_change [OF s s4(2) pb]) (auto simp: only_slot_def only_file_def)
  then show ?thesis
    using run os s4(4,5) fr s1(6) s2(7) by (intro that [of s4 f]) (auto simp: only_file_def)
qed

end

lemma del_arm_ok:
  assumes s: "flat (fa_base fa) s" and e: "length e = EID_SIZE"
  obtains s' where "del_arm fa e s = (Ok (), s')" "flat (fa_base fa) s'" "only_slot (slot_path fa e) s s'"
    "os_file s' (slot_path fa e) = None"
proof -
  let ?p = "slot_path fa e"
  note ok = flat_ok [OF s]
  let ?s1 = "if os_file s ?p = None then s else unname ?p s"
  have ok1: "os_ok ?s1" "os_file ?s1 = (os_file s)(?p := None)" "\<And>q. q \<noteq> ?p \<Longrightarrow> os_ino ?s1 q = os_ino s q"
    "is_os_dir ?s1 = is_os_dir s"
    using ok os_unname [OF ok, of ?p] by (auto simp: unname_ino)
  obtain s' where s': "remove_empty_parent_dir ?p ?s1 = (Ok (), s')" "os_ok s'" "os_ino s' = os_ino ?s1"
    "os_file s' = os_file ?s1" "\<forall>p. is_os_dir s' p \<longrightarrow> is_os_dir ?s1 p"
    using remove_empty_dirs_ok [OF ok1(1)] unfolding remove_empty_parent_dir_def by blast
  have "del_arm fa e s = (Ok (), s')"
    using s'(1) os_remove_file_ok [OF ok, of ?p] ok
    by (auto simp: del_arm_def slot_path_ok [OF e] not_found_def io_error_new_def split: if_splits)
  moreover have "flat (fa_base fa) s'"
    using s' ok1 by (intro flat_change [OF s s'(2) slot_path_below [of fa e]]) auto
  ultimately show ?thesis using s' ok1 by (intro that [of s']) (auto simp: only_slot_def)
qed

subsection \<open>Items\<close>

text \<open>
  The stored item of an arm, and the newest of the two. Files of an item are sound when they decode and
  their sequence numbers differ.
\<close>

definition arm_path :: "sodium \<Rightarrow> file_armor \<Rightarrow> (arm \<Rightarrow> bytes) \<Rightarrow> arm \<Rightarrow> eid \<Rightarrow> os_path" where
  "arm_path S fa ser_arm a e = slot_path fa (crypto_hash S (e @ ser_arm a))"

definition file_arm ::
  "sodium \<Rightarrow> file_armor \<Rightarrow> (arm \<Rightarrow> bytes) \<Rightarrow> 'i item_ops \<Rightarrow> (os_path \<rightharpoonup> bytes) \<Rightarrow> arm \<Rightarrow> eid \<Rightarrow> 'i option"
where
  "file_arm S fa ser_arm I fs a e = (case fs (arm_path S fa ser_arm a e) of
       None \<Rightarrow> None
     | Some f \<Rightarrow> (case bind_r (file_decode S fa f) (it_deser I) of Ok i \<Rightarrow> Some i | _ \<Rightarrow> None))"

definition file_item ::
  "sodium \<Rightarrow> file_armor \<Rightarrow> (arm \<Rightarrow> bytes) \<Rightarrow> 'i item_ops \<Rightarrow> (os_path \<rightharpoonup> bytes) \<Rightarrow> eid \<Rightarrow> 'i option"
where
  "file_item S fa ser_arm I fs e =
     (case file_arm S fa ser_arm I fs Left e of
        None \<Rightarrow> file_arm S fa ser_arm I fs Right e
      | Some l \<Rightarrow> (case file_arm S fa ser_arm I fs Right e of
           None \<Rightarrow> Some l
         | Some r \<Rightarrow> if it_seq I r < it_seq I l then Some l else Some r))"

definition arms_sound ::
  "sodium \<Rightarrow> file_armor \<Rightarrow> (arm \<Rightarrow> bytes) \<Rightarrow> 'i item_ops \<Rightarrow> (os_path \<rightharpoonup> bytes) \<Rightarrow> eid \<Rightarrow> bool"
where
  "arms_sound S fa ser_arm I fs e \<longleftrightarrow>
     (\<forall>a f. fs (arm_path S fa ser_arm a e) = Some f \<longrightarrow> (\<exists>b i. file_decode S fa f = Ok b \<and> it_deser I b = Ok i)) \<and>
     (\<forall>l r. file_arm S fa ser_arm I fs Left e = Some l \<longrightarrow> file_arm S fa ser_arm I fs Right e = Some r \<longrightarrow>
        it_seq I l \<noteq> it_seq I r)"

lemma soundD:
  "arms_sound S fa ser_arm I fs e \<Longrightarrow> fs (arm_path S fa ser_arm a e) = Some f \<Longrightarrow>
     \<exists>b i. file_decode S fa f = Ok b \<and> it_deser I b = Ok i"
  unfolding arms_sound_def by blast

lemma file_item_cong:
  assumes "\<And>a. fs (arm_path S fa ser_arm a e) = fs' (arm_path S fa ser_arm a e)"
  shows "file_item S fa ser_arm I fs e = file_item S fa ser_arm I fs' e"
    "arms_sound S fa ser_arm I fs e = arms_sound S fa ser_arm I fs' e"
proof -
  have arm: "file_arm S fa ser_arm I fs a e = file_arm S fa ser_arm I fs' a e" for a by (simp add: file_arm_def assms)
  show "file_item S fa ser_arm I fs e = file_item S fa ser_arm I fs' e"
    "arms_sound S fa ser_arm I fs e = arms_sound S fa ser_arm I fs' e"
    unfolding file_item_def arms_sound_def arm assms by (rule refl)+
qed

text \<open>The hash keeps the arms of the items that are in use, those with an id in \<open>ids\<close>, apart.\<close>

locale file_items = sodium_laws S + item_laws I persist
  for S :: sodium and I :: "'i item_ops" and persist :: "'i \<Rightarrow> 'i" +
  fixes sz :: "nat \<Rightarrow> nat" and ser_arm :: "arm \<Rightarrow> bytes" and ids :: "eid set"
  assumes sz_pos: "0 < sz i"
    and arms_apart: "e \<in> ids \<Longrightarrow> e' \<in> ids \<Longrightarrow>
      crypto_hash S (e @ ser_arm a) = crypto_hash S (e' @ ser_arm a') \<longleftrightarrow> e = e' \<and> a = a'"
begin

abbreviation A :: "file_armor \<Rightarrow> ('i, os) armor_ops" where
  "A fa \<equiv> file_armor_ops S fa sz ser_arm I"

abbreviation path :: "file_armor \<Rightarrow> arm \<Rightarrow> eid \<Rightarrow> os_path" where
  "path fa \<equiv> arm_path S fa ser_arm"

abbreviation stored :: "file_armor \<Rightarrow> os \<Rightarrow> arm \<Rightarrow> eid \<Rightarrow> 'i option" where
  "stored fa s \<equiv> file_arm S fa ser_arm I (os_file s)"

abbreviation item :: "file_armor \<Rightarrow> os \<Rightarrow> eid \<Rightarrow> 'i option" where
  "item fa s \<equiv> file_item S fa ser_arm I (os_file s)"

abbreviation sound :: "file_armor \<Rightarrow> os \<Rightarrow> eid \<Rightarrow> bool" where
  "sound fa s \<equiv> arms_sound S fa ser_arm I (os_file s)"

lemma hash_size: "length (crypto_hash S b) = EID_SIZE"
  by (simp add: crypto_hash_def hash_len EID_SIZE_def HASH_SIZE_def)

lemma arm_id: "arm_to_eid (crypto_hash S) ser_arm a e = Ok (crypto_hash S (e @ ser_arm a))"
  using hash_size by (simp add: arm_to_eid_def eid_from_slice_def assert_r_def)

lemma path_inj: "e \<in> ids \<Longrightarrow> e' \<in> ids \<Longrightarrow> path fa a e = path fa a' e' \<longleftrightarrow> e = e' \<and> a = a'"
  by (simp add: arm_path_def slot_path_inj hash_size arms_apart)

lemma load_arm_ok:
  assumes s: "flat (fa_base fa) s" and d: "sound fa s e"
  shows "load_one_arm (A fa) s e a = (ok_or (stored fa s a e) NotFound, s)"
proof -
  have "case os_file s (slot_path fa (crypto_hash S (e @ ser_arm a))) of None \<Rightarrow> True | Some f \<Rightarrow> \<exists>b. file_decode S fa f = Ok b"
    using d unfolding arms_sound_def arm_path_def by (cases "os_file s (slot_path fa (crypto_hash S (e @ ser_arm a)))") (simp, fastforce)
  note r = slot_read_ok [where sz = sz, OF s hash_size sz_pos this]
  show ?thesis
  proof (cases "os_file s (path fa a e)")
    case None
    then show ?thesis
      using r by (simp add: load_one_arm_def file_armor_ops_def arm_id file_arm_def arm_path_def ok_or_def)
  next
    case (Some f)
    then obtain b i where "file_decode S fa f = Ok b" "it_deser I b = Ok i" using soundD [OF d] by blast
    then show ?thesis
      using r Some by (simp add: load_one_arm_def file_armor_ops_def arm_id file_arm_def arm_path_def ok_or_def)
  qed
qed

lemma load_ok:
  assumes s: "flat (fa_base fa) s" and d: "sound fa s e"
  shows "file_load_item (A fa) s e = (ok_or (item fa s e) NotFound, s)"
proof -
  have "it_seq I l \<noteq> it_seq I r" if "stored fa s Left e = Some l" "stored fa s Right e = Some r" for l r
    using d that by (simp add: arms_sound_def)
  moreover have "ar_seq (A fa) = it_seq I" by (simp add: file_armor_ops_def)
  ultimately show ?thesis
    by (auto simp: file_load_item_def load_arm_ok [OF s d] file_choose_arm_def file_item_def
        ok_or_def assert_r_def split: option.splits)
qed

lemma save_ok:
  assumes s: "flat (fa_base fa) s" and d: "sound fa s (it_id I i)" and mem: "it_id I i \<in> ids"
    and seq: "\<And>a j. stored fa s a (it_id I i) = Some j \<Longrightarrow> it_seq I j \<le> it_seq I i"
  obtains j s' where "save_item (A fa) s i = (Ok (), j, s')" "j = it_set_arm I (arm_other (it_arm I i)) (it_inc_seq I i)"
    "flat (fa_base fa) s'" "only_slot (path fa (it_arm I j) (it_id I i)) s s'" "sound fa s' (it_id I i)"
    "item fa s' (it_id I i) = Some (persist j)"
    "\<And>a k. stored fa s' a (it_id I i) = Some k \<Longrightarrow> it_seq I k \<le> it_seq I j"
    "\<And>q. is_os_dir s q \<Longrightarrow> is_os_dir s' q"
proof -
  let ?e = "it_id I i"
  define j where "j = it_set_arm I (arm_other (it_arm I i)) (it_inc_seq I i)"
  let ?a = "it_arm I j"
  have js: "?a = arm_other (it_arm I i)" "it_id I j = ?e" "it_seq I j = Suc (it_seq I i)"
    by (simp_all add: j_def it_set it_inc)
  obtain b where b: "it_ser I j = Ok b" "it_deser I b = Ok (persist j)" using it_ser_ok by blast
  obtain s' f where s': "file_slot_write S fa s (crypto_hash S (?e @ ser_arm ?a)) b = (Ok (), s')" "flat (fa_base fa) s'"
    "only_slot (slot_path fa (crypto_hash S (?e @ ser_arm ?a))) s s'"
    "os_file s' (slot_path fa (crypto_hash S (?e @ ser_arm ?a))) = Some f" "file_decode S fa f = Ok b"
    "\<And>q. is_os_dir s q \<Longrightarrow> is_os_dir s' q"
    using slot_write_ok [OF s hash_size] by blast
  have run: "save_item (A fa) s i = (Ok (), j, s')"
    using s'(1) b(1) by (simp add: save_item_def toggle_def file_armor_ops_def Let_def it_inc j_def [symmetric] arm_id js)
  have fr: "only_slot (path fa ?a ?e) s s'" and new: "stored fa s' ?a ?e = Some (persist j)"
    using s' b(2) by (simp_all add: arm_path_def file_arm_def)
  have other: "stored fa s' (arm_other ?a) ?e = stored fa s (arm_other ?a) ?e"
    using fr by (cases ?a) (auto simp: only_slot_def file_arm_def path_inj mem)
  have lt: "it_seq I k < it_seq I (persist j)" if "stored fa s' (arm_other ?a) ?e = Some k" for k
    using seq [of "arm_other ?a" k] that other by (simp add: it_persist_seq js)
  have dec: "\<exists>b i. file_decode S fa g = Ok b \<and> it_deser I b = Ok i" if "os_file s' (path fa a ?e) = Some g" for a g
  proof (cases "a = ?a")
    case True
    then show ?thesis using that s'(4,5) b(2) by (auto simp: arm_path_def)
  next
    case False
    then have "os_file s (path fa a ?e) = Some g" using that fr by (auto simp: only_slot_def path_inj mem)
    then show ?thesis using soundD [OF d] by blast
  qed
  have "sound fa s' ?e"
    unfolding arms_sound_def using dec new lt by (cases ?a) (auto dest: less_imp_neq)
  moreover have "item fa s' ?e = Some (persist j)"
    using new lt by (cases ?a) (auto simp: file_item_def split: option.splits dest: less_asym)
  moreover have "it_seq I k \<le> it_seq I j" if "stored fa s' a ?e = Some k" for a k
  proof (cases "a = ?a")
    case True
    then have "k = persist j" using that new by simp
    then show ?thesis by (simp add: it_persist_seq)
  next
    case False
    then have "a = arm_other ?a" by (cases a; cases ?a) simp_all
    then show ?thesis using that lt [of k] by (simp add: it_persist_seq)
  qed
  ultimately show ?thesis using run s'(2,6) fr by (intro that [OF run j_def]) auto
qed

lemma remove_ok:
  assumes s: "flat (fa_base fa) s" and mem: "e \<in> ids"
  obtains s' where "remove_all_arms (A fa) s e = (Ok (), s')" "flat (fa_base fa) s'"
    "\<And>q. q \<noteq> path fa Left e \<Longrightarrow> q \<noteq> path fa Right e \<Longrightarrow> os_ino s' q = os_ino s q \<and> os_file s' q = os_file s q"
    "item fa s' e = None" "sound fa s' e" "\<And>a. stored fa s' a e = None"
proof -
  let ?h = "\<lambda>a. crypto_hash S (e @ ser_arm a)"
  obtain s1 where s1: "del_arm fa (?h Left) s = (Ok (), s1)" "flat (fa_base fa) s1" "only_slot (slot_path fa (?h Left)) s s1"
    "os_file s1 (slot_path fa (?h Left)) = None" by (rule del_arm_ok [OF s hash_size])
  obtain s2 where s2: "del_arm fa (?h Right) s1 = (Ok (), s2)" "flat (fa_base fa) s2" "only_slot (slot_path fa (?h Right)) s1 s2"
    "os_file s2 (slot_path fa (?h Right)) = None" by (rule del_arm_ok [OF s1(2) hash_size])
  have run: "remove_all_arms (A fa) s e = (Ok (), s2)"
    using s1(1) s2(1) by (simp add: remove_all_arms_def file_armor_ops_def arm_id and_then_res_def)
  have none: "os_file s2 (path fa a e) = None" for a
    using s1 s2 by (cases a) (auto simp: only_slot_def arm_path_def slot_path_inj hash_size arms_apart mem)
  then have st: "stored fa s2 a e = None" for a by (simp add: file_arm_def)
  have "item fa s2 e = None" "sound fa s2 e" using none st by (simp_all add: file_item_def arms_sound_def)
  then show ?thesis
    using run s1 s2 st by (intro that [of s2]) (auto simp: only_slot_def arm_path_def)
qed

end

end
