(* ===== verification/File_Sector.thy ===== *)
theory File_Sector
  imports File_Armor Storable
begin

text \<open>
  \<open>src/src/volume/storage/file/sector.rs\<close>: the blocks of the file back end. Blocks are grouped into
  sectors; a sector has a data file and a map from blocks to their places in that file, which is kept
  as an item of the file armor. When the last block of a sector has been written the sector is
  finished. Blocks are only marked as deleted; a finished sector most of whose blocks are deleted is
  copied to a smaller file, and one without blocks is removed.

  The size of a sector in blocks is an argument of the model (\<open>sn_blks\<close>), so that small instances can
  be run; the code has \<open>BLKS_PER_SECTOR\<close>.
\<close>

definition BLKS_PER_SECTOR :: nat where "BLKS_PER_SECTOR = 4 * 1024"
definition BLK_DELETE_MARK :: nat where "BLK_DELETE_MARK = 2 ^ 16 - 1"
definition SECTOR_CACHE_SIZE :: nat where "SECTOR_CACHE_SIZE = 16"
definition SECTOR_DATA_CACHE_SIZE :: nat where "SECTOR_DATA_CACHE_SIZE = 4"

subsection \<open>Sectors\<close>

record fsector =
  sc_id :: eid
  sc_seq :: nat
  sc_arm :: arm
  sc_idx :: nat
  sc_curr_size :: nat
  sc_actual_size :: nat
  sc_blk_map :: "nat list"

definition sector_new :: "nat \<Rightarrow> eid \<Rightarrow> nat \<Rightarrow> fsector" where
  "sector_new n e idx = \<lparr>sc_id = e, sc_seq = 0, sc_arm = arm_default, sc_idx = idx, sc_curr_size = 0,
     sc_actual_size = 0, sc_blk_map = [0 ..< n]\<rparr>"

definition is_finished :: "fsector \<Rightarrow> bool" where
  "is_finished sec = (0 < sc_curr_size sec)"

definition sec_is_shrinkable :: "fsector \<Rightarrow> bool" where
  "sec_is_shrinkable sec = (sc_actual_size sec \<le> sc_curr_size sec div 4)"

text \<open>The loop over the blocks of a span, which counts the bytes it deletes.\<close>

fun mark_loop :: "nat list \<Rightarrow> nat list \<Rightarrow> (nat list \<times> nat) res" where
  "mark_loop m [] = Ok (m, 0)"
| "mark_loop m (i # is) =
     bind_r (nth_r m i) (\<lambda>o1.
       if o1 \<noteq> BLK_DELETE_MARK
       then bind_r (mark_loop (m[i := BLK_DELETE_MARK]) is) (\<lambda>(m', k). Ok (m', k + BLK_SIZE))
       else mark_loop m is)"

definition mark_blocks_deletion :: "nat \<Rightarrow> span \<Rightarrow> fsector \<Rightarrow> fsector res" where
  "mark_blocks_deletion n sp sec =
     (let i = sp_begin sp mod n
      in bind_r (mark_loop (sc_blk_map sec) [i ..< i + sp_cnt sp]) (\<lambda>(m, deleted).
         let sec1 = sec\<lparr>sc_blk_map := m\<rparr>
         in if is_finished sec1
            then bind_r (sub_r (sc_actual_size sec1) deleted) (\<lambda>k. Ok (sec1\<lparr>sc_actual_size := k\<rparr>))
            else Ok sec1))"

text \<open>The accessors of \<open>Id\<close>, \<open>Seq\<close> and \<open>ArmAccess\<close>; the serializer is a parameter.\<close>

definition sector_items :: "(fsector \<Rightarrow> bytes res) \<Rightarrow> (bytes \<Rightarrow> fsector res) \<Rightarrow> fsector item_ops" where
  "sector_items ser deser =
     \<lparr>it_id = sc_id, it_seq = sc_seq, it_inc_seq = (\<lambda>x. x\<lparr>sc_seq := Suc (sc_seq x)\<rparr>), it_arm = sc_arm,
      it_set_arm = (\<lambda>a x. x\<lparr>sc_arm := a\<rparr>), it_ser = ser, it_deser = deser\<rparr>"

subsection \<open>The sector manager\<close>

record sec_env =
  sn_sodium :: sodium
  sn_sz :: "nat \<Rightarrow> nat"
  sn_ser_arm :: "arm \<Rightarrow> bytes"
  sn_ser :: "fsector \<Rightarrow> bytes res"
  sn_deser :: "bytes \<Rightarrow> fsector res"
  sn_lru :: "(nat, fsector) lhm_ops"
  sn_map :: "(nat, fhandle) lhm_ops"
  sn_blks :: nat

record sector_mgr =
  sx_base :: os_path
  sx_armor :: file_armor
  sx_cache :: "(nat, fsector) lru"
  sx_datas :: "(nat, fhandle) lhm"
  sx_hash_key :: bytes
  sx_os :: os

definition sector_mgr_new :: "os_path \<Rightarrow> os \<Rightarrow> sector_mgr" where
  "sector_mgr_new base s = \<lparr>sx_base = base, sx_armor = file_armor_new base, sx_cache = lru_new SECTOR_CACHE_SIZE,
     sx_datas = [], sx_hash_key = replicate HASH_SIZE 0, sx_os = s\<rparr>"

definition sec_set_crypto_ctx :: "crypto \<Rightarrow> key \<Rightarrow> bytes \<Rightarrow> sector_mgr \<Rightarrow> sector_mgr" where
  "sec_set_crypto_ctx c k hk m = m\<lparr>sx_armor := fa_set_crypto_ctx c k (sx_armor m), sx_hash_key := hk\<rparr>"

definition sec_ops :: "sec_env \<Rightarrow> sector_mgr \<Rightarrow> (fsector, os) armor_ops" where
  "sec_ops E m = file_armor_ops (sn_sodium E) (sx_armor m) (sn_sz E) (sn_ser_arm E) (sector_items (sn_ser E) (sn_deser E))"

definition on_os :: "('a, 'e, os) eff \<Rightarrow> ('a, 'e, sector_mgr) eff" where
  "on_os m = zoom sx_os (\<lambda>s x. x\<lparr>sx_os := s\<rparr>) m"

definition sector_idx_to_id :: "sec_env \<Rightarrow> sector_mgr \<Rightarrow> nat \<Rightarrow> eid res" where
  "sector_idx_to_id E m idx =
     eid_from_slice (hash_with_key (sn_sodium E) (le_bytes64 (of_nat idx)) (sx_hash_key m))"

definition sector_data_path :: "sec_env \<Rightarrow> sector_mgr \<Rightarrow> nat \<Rightarrow> os_path res" where
  "sector_data_path E m idx =
     bind_r (sector_idx_to_id E m idx) (\<lambda>e.
     bind_r (eid_to_path (sx_base m) e) (\<lambda>p. Ok (with_ext ''data'' p)))"

definition cache_sector :: "sec_env \<Rightarrow> nat \<Rightarrow> fsector \<Rightarrow> sector_mgr \<Rightarrow> sector_mgr" where
  "cache_sector E idx sec m =
     m\<lparr>sx_cache := snd (lru_insert (sn_lru E) count_meter no_pin (sx_cache m) idx sec)\<rparr>"

text \<open>Changing a cached sector through the reference that \<open>get_refresh\<close> returns.\<close>

definition put_sector :: "nat \<Rightarrow> fsector \<Rightarrow> sector_mgr \<Rightarrow> sector_mgr" where
  "put_sector idx sec m = m\<lparr>sx_cache := (sx_cache m)\<lparr>lmap :=
     map (\<lambda>(k, v). (k, if k = idx then sec else v)) (lmap (sx_cache m))\<rparr>\<rparr>"

definition refresh_sector :: "sec_env \<Rightarrow> nat \<Rightarrow> (fsector, error, sector_mgr) eff" where
  "refresh_sector E idx = (\<lambda>m. case get_refresh (sn_lru E) (sx_cache m) idx of
     (q, c) \<Rightarrow> (unwrap_opt q, m\<lparr>sx_cache := c\<rparr>))"

text \<open>\<open>sec_armor.save_item(&mut sec)\<close> on a sector that the caller holds.\<close>

definition save_sec :: "sec_env \<Rightarrow> fsector \<Rightarrow> (fsector, error, sector_mgr) eff" where
  "save_sec E sec = (\<lambda>m. case save_item (sec_ops E m) (sx_os m) sec of
     (q, sec', s) \<Rightarrow> (bind_r q (\<lambda>_. Ok sec'), m\<lparr>sx_os := s\<rparr>))"

definition load_sector :: "sec_env \<Rightarrow> nat \<Rightarrow> bool \<Rightarrow> (unit, error, sector_mgr) eff" where
  "load_sector E idx create =
     bind_s get_s (\<lambda>m.
     bind_s (lift_r (sector_idx_to_id E m idx)) (\<lambda>e m.
       case file_load_item (sec_ops E m) (sx_os m) e of
         (Ok sec, s) \<Rightarrow> (Ok (), cache_sector E idx sec (m\<lparr>sx_os := s\<rparr>))
       | (Err err, s) \<Rightarrow>
           if error_eq err NotFound
           then if create
             then bind_s (save_sec E (sector_new (sn_blks E) e idx)) (\<lambda>sec. modify_s (cache_sector E idx sec)) (m\<lparr>sx_os := s\<rparr>)
             else (Err NotFound, m\<lparr>sx_os := s\<rparr>)
           else (Err err, m\<lparr>sx_os := s\<rparr>)
       | (Panic, s) \<Rightarrow> (Panic, m\<lparr>sx_os := s\<rparr>)))"

definition open_sector :: "sec_env \<Rightarrow> nat \<Rightarrow> bool \<Rightarrow> (fsector, error, sector_mgr) eff" where
  "open_sector E idx create =
     bind_s get_s (\<lambda>m.
     bind_s (if contains_key (sx_cache m) idx then ret_s () else load_sector E idx create) (\<lambda>_.
     refresh_sector E idx))"

text \<open>A failed save leaves the increased sequence number in the cached sector.\<close>

definition save_sector :: "sec_env \<Rightarrow> nat \<Rightarrow> (unit, error, sector_mgr) eff" where
  "save_sector E idx =
     bind_s (refresh_sector E idx) (\<lambda>sec m.
       case save_item (sec_ops E m) (sx_os m) sec of
         (q, sec', s) \<Rightarrow> (q, put_sector idx sec' (m\<lparr>sx_os := s\<rparr>)))"

subsection \<open>Data files\<close>

definition new_sector_data :: "sec_env \<Rightarrow> nat \<Rightarrow> bool \<Rightarrow> (unit, error, sector_mgr) eff" where
  "new_sector_data E idx create =
     bind_s get_s (\<lambda>m.
     bind_s (lift_r (sector_data_path E m idx)) (\<lambda>p.
     bind_s (if create then ret_s () else bind_s (on_os (os_exists p)) (\<lambda>b. if b then ret_s () else lift_r (Err NotFound))) (\<lambda>_.
     bind_s (on_os (ensure_parents_dir p)) (\<lambda>_.
     bind_s (on_os (io (os_open True False p))) (\<lambda>h.
     modify_s (\<lambda>m. let d = lhm_insert (sn_map E) (sx_datas m) idx h
       in m\<lparr>sx_datas := if SECTOR_DATA_CACHE_SIZE \<le> length d then lhm_pop_front (sn_map E) d else d\<rparr>))))))"

definition open_sector_data :: "sec_env \<Rightarrow> nat \<Rightarrow> bool \<Rightarrow> (fhandle, error, sector_mgr) eff" where
  "open_sector_data E idx create =
     bind_s get_s (\<lambda>m.
     bind_s (if map_of (sx_datas m) idx \<noteq> None then ret_s () else new_sector_data E idx create) (\<lambda>_.
     bind_s get_s (\<lambda>m.
     bind_s (lift_r (unwrap_opt (map_of (sx_datas m) idx))) (\<lambda>h.
     bind_s (modify_s (\<lambda>m. m\<lparr>sx_datas := lhm_refresh (sn_map E) (sx_datas m) idx\<rparr>)) (\<lambda>_.
     on_os (io (os_call (ret_s h))))))))"

subsection \<open>Reading blocks\<close>

definition read_sector :: "sec_env \<Rightarrow> span \<Rightarrow> (bytes, error, sector_mgr) eff" where
  "read_sector E sp =
     (let n = sn_blks E; idx = sp_begin sp div n; i = sp_begin sp mod n
      in bind_s (open_sector_data E idx False) (\<lambda>h.
         bind_s (open_sector E idx False) (\<lambda>sec.
         bind_s (lift_r (nth_r (sc_blk_map sec) i)) (\<lambda>insec.
         bind_s (assert_s (i + sp_cnt sp \<le> length (sc_blk_map sec))) (\<lambda>_.
           if list_ex (\<lambda>b. b = BLK_DELETE_MARK) (take (sp_cnt sp) (drop i (sc_blk_map sec)))
           then lift_r (Err NotFound)
           else on_os (io (os_read_exact (insec * BLK_SIZE) (bytes_len sp) h)))))))"

fun read_sectors :: "sec_env \<Rightarrow> span list \<Rightarrow> (bytes, error, sector_mgr) eff" where
  "read_sectors E [] = ret_s []"
| "read_sectors E (sp # sps) =
     bind_s (read_sector E sp) (\<lambda>b. bind_s (read_sectors E sps) (\<lambda>bs. ret_s (b @ bs)))"

definition read_blocks :: "sec_env \<Rightarrow> span \<Rightarrow> (bytes, error, sector_mgr) eff" where
  "read_blocks E sp = bind_s (lift_r (divide_by sp (sn_blks E))) (read_sectors E)"

subsection \<open>Shrinking\<close>

text \<open>
  The copy loop: the state is the target file and the manager; the result is the new map and the
  number of blocks written. The first place behind the current size ends the loop.
\<close>

fun shrink_loop ::
  "sec_env \<Rightarrow> nat \<Rightarrow> fhandle \<Rightarrow> fhandle \<Rightarrow> nat list \<Rightarrow> nat \<Rightarrow> (nat list \<times> nat, error, sector_mgr) eff"
where
  "shrink_loop E sz src dst [] k = ret_s ([], k)"
| "shrink_loop E sz src dst (o1 # os) k =
     (if o1 = BLK_DELETE_MARK
      then bind_s (shrink_loop E sz src dst os k) (\<lambda>(m, k'). ret_s (o1 # m, k'))
      else if sz \<le> o1 * BLK_SIZE then ret_s (o1 # os, k)
      else
      bind_s (on_os (io (os_read_exact (o1 * BLK_SIZE) BLK_SIZE src))) (\<lambda>b.
      bind_s (on_os (io (os_write_all b dst))) (\<lambda>dst'.
      bind_s (shrink_loop E sz src dst' os (Suc k)) (\<lambda>(m, k'). ret_s (k # m, k')))))"

definition shrink_sector :: "sec_env \<Rightarrow> nat \<Rightarrow> (unit, error, sector_mgr) eff" where
  "shrink_sector E idx =
     bind_s (open_sector E idx False) (\<lambda>sec.
     bind_s (open_sector_data E idx False) (\<lambda>src.
     bind_s get_s (\<lambda>m.
     bind_s (lift_r (sector_data_path E m (sc_idx sec))) (\<lambda>p.
     bind_s (on_os (io (os_open True True (with_ext ''shrink'' p)))) (\<lambda>dst.
     bind_s (shrink_loop E (sc_curr_size sec) src dst (sc_blk_map sec) 0) (\<lambda>(bm, k).
     bind_s (save_sec E (sec\<lparr>sc_blk_map := bm, sc_actual_size := k * BLK_SIZE, sc_curr_size := k * BLK_SIZE\<rparr>)) (\<lambda>sec'.
     bind_s (modify_s (cache_sector E (sc_idx sec) sec')) (\<lambda>_.
     bind_s (modify_s (\<lambda>m. m\<lparr>sx_datas := lhm_remove (sn_map E) (sx_datas m) idx\<rparr>)) (\<lambda>_.
     on_os (io (os_rename (with_ext ''shrink'' p) p)))))))))))"

subsection \<open>Writing blocks\<close>

text \<open>Marks of an earlier, aborted deletion are taken back; the result is how many there were.\<close>

fun correct_loop :: "nat list \<Rightarrow> nat list \<Rightarrow> (nat list \<times> nat) res" where
  "correct_loop m [] = Ok (m, 0)"
| "correct_loop m (i # is) =
     bind_r (nth_r m i) (\<lambda>o1.
       if o1 = BLK_DELETE_MARK
       then bind_r (correct_loop (m[i := i]) is) (\<lambda>(m', k). Ok (m', Suc k))
       else correct_loop m is)"

definition live_cnt :: "nat list \<Rightarrow> nat" where
  "live_cnt m = length (filter (\<lambda>b. b \<noteq> BLK_DELETE_MARK) m)"

definition finish_sector :: "sec_env \<Rightarrow> nat \<Rightarrow> (unit, error, sector_mgr) eff" where
  "finish_sector E idx =
     bind_s (open_sector E idx False) (\<lambda>sec.
     let sec1 = sec\<lparr>sc_curr_size := BLK_SIZE * sn_blks E, sc_actual_size := BLK_SIZE * live_cnt (sc_blk_map sec)\<rparr>
     in bind_s (modify_s (put_sector idx sec1)) (\<lambda>_.
        if sec_is_shrinkable sec1 then shrink_sector E idx else save_sector E idx))"

definition write_sector :: "sec_env \<Rightarrow> span \<Rightarrow> bytes \<Rightarrow> (unit, error, sector_mgr) eff" where
  "write_sector E sp b =
     (let n = sn_blks E; idx = sp_begin sp div n; i = sp_begin sp mod n
      in bind_s (open_sector_data E idx True) (\<lambda>h.
         bind_s (on_os (io (os_write_at (i * BLK_SIZE) b h))) (\<lambda>_.
         bind_s (open_sector E idx True) (\<lambda>sec.
         bind_s (assert_s (\<not> is_finished sec)) (\<lambda>_.
         bind_s (lift_r (correct_loop (sc_blk_map sec) [i ..< i + sp_cnt sp])) (\<lambda>(bm, k).
         bind_s (modify_s (put_sector idx (sec\<lparr>sc_blk_map := bm\<rparr>))) (\<lambda>_.
         bind_s (if 0 < k then save_sector E idx else ret_s ()) (\<lambda>_.
         if span_end sp mod n = 0 then finish_sector E idx else ret_s ()))))))))"

fun write_sectors :: "sec_env \<Rightarrow> span list \<Rightarrow> bytes \<Rightarrow> (unit, error, sector_mgr) eff" where
  "write_sectors E [] b = ret_s ()"
| "write_sectors E (sp # sps) b =
     bind_s (write_sector E sp (take (bytes_len sp) b)) (\<lambda>_. write_sectors E sps (drop (bytes_len sp) b))"

definition write_blocks :: "sec_env \<Rightarrow> span \<Rightarrow> bytes \<Rightarrow> (unit, error, sector_mgr) eff" where
  "write_blocks E sp b =
     bind_s (assert_s (length b = bytes_len sp)) (\<lambda>_.
     bind_s (lift_r (divide_by sp (sn_blks E))) (\<lambda>sps. write_sectors E sps b))"

subsection \<open>Deleting blocks\<close>

definition remove_sector :: "sec_env \<Rightarrow> nat \<Rightarrow> eid \<Rightarrow> (unit, error, sector_mgr) eff" where
  "remove_sector E idx e =
     bind_s (\<lambda>m. case remove_all_arms (sec_ops E m) (sx_os m) e of (q, s) \<Rightarrow> (q, m\<lparr>sx_os := s\<rparr>)) (\<lambda>_.
     bind_s get_s (\<lambda>m.
     bind_s (lift_r (sector_data_path E m idx)) (\<lambda>p.
     bind_s (on_os (io (os_remove_file p))) (\<lambda>_.
     bind_s (on_os (remove_empty_parent_dir p)) (\<lambda>_.
     modify_s (\<lambda>m. m\<lparr>sx_cache := snd (lru_remove (sn_lru E) count_meter (sx_cache m) idx)\<rparr>))))))"

definition del_sector :: "sec_env \<Rightarrow> span \<Rightarrow> (unit, error, sector_mgr) eff" where
  "del_sector E sp =
     (let n = sn_blks E; idx = sp_begin sp div n
      in (\<lambda>m. case open_sector E idx False m of
           (Ok sec, m1) \<Rightarrow>
             bind_s (lift_r (mark_blocks_deletion n sp sec)) (\<lambda>sec1.
             bind_s (modify_s (put_sector idx sec1)) (\<lambda>_.
               if \<not> is_finished sec1 then save_sector E idx
               else if sc_actual_size sec1 = 0 then remove_sector E idx (sc_id sec1)
               else if sec_is_shrinkable sec1 then shrink_sector E idx
               else save_sector E idx)) m1
         | (Err err, m1) \<Rightarrow> if error_eq err NotFound then (Ok (), m1) else (Err err, m1)
         | (Panic, m1) \<Rightarrow> (Panic, m1)))"

definition sec_del_blocks :: "sec_env \<Rightarrow> span \<Rightarrow> (unit, error, sector_mgr) eff" where
  "sec_del_blocks E sp = bind_s (lift_r (divide_by sp (sn_blks E))) (for_s (del_sector E))"

end
