(* ===== verification/Sector_Laws.thy ===== *)
theory Sector_Laws
  imports File_Sector
begin

text \<open>
  What the sector manager does to blocks: a finished or growing sector with its data file is a map from
  block numbers to blocks, and reading, writing behind the last block, deleting and shrinking act on
  that map, as long as the operating system reports no error.
\<close>

subsection \<open>Sectors as maps\<close>

text \<open>The block with index \<open>i\<close> in a sector with the map \<open>m\<close> and the data \<open>d\<close>.\<close>

definition blk_at :: "nat list \<Rightarrow> bytes \<Rightarrow> nat \<Rightarrow> bytes option" where
  "blk_at m d i = (let o1 = m ! i in
     if o1 = BLK_DELETE_MARK \<or> length d < Suc o1 * BLK_SIZE then None
     else Some (take BLK_SIZE (drop (o1 * BLK_SIZE) d)))"

text \<open>Neighbours that are both present have neighbouring places.\<close>

definition adjacent :: "nat list \<Rightarrow> bool" where
  "adjacent m \<longleftrightarrow> (\<forall>i. Suc i < length m \<longrightarrow> m ! i \<noteq> BLK_DELETE_MARK \<longrightarrow> m ! Suc i \<noteq> BLK_DELETE_MARK \<longrightarrow>
     m ! Suc i = Suc (m ! i))"

definition sector_wf :: "nat \<Rightarrow> fsector \<Rightarrow> bytes \<Rightarrow> bool" where
  "sector_wf n sec d \<longleftrightarrow> length (sc_blk_map sec) = n \<and> adjacent (sc_blk_map sec) \<and>
     (if is_finished sec
      then sc_actual_size sec = BLK_SIZE * live_cnt (sc_blk_map sec) \<and> sc_curr_size sec = length d \<and>
        (\<forall>o1 \<in> set (sc_blk_map sec). o1 = BLK_DELETE_MARK \<or> Suc o1 * BLK_SIZE \<le> length d)
      else \<forall>i < n. sc_blk_map sec ! i = BLK_DELETE_MARK \<or> sc_blk_map sec ! i = i)"

text \<open>Deleting marks.\<close>

lemma live_cnt_upd:
  assumes "i < length m" and "m ! i \<noteq> BLK_DELETE_MARK"
  shows "live_cnt m = Suc (live_cnt (m[i := BLK_DELETE_MARK]))"
proof -
  have "m = take i m @ m ! i # drop (Suc i) m" using assms(1) by (rule id_take_nth_drop)
  then have "live_cnt m = live_cnt (take i m @ m ! i # drop (Suc i) m)" by simp
  then show ?thesis using assms by (simp add: live_cnt_def upd_conv_take_nth_drop)
qed

lemma adjacent_mark:
  assumes "adjacent m"
  shows "adjacent (m[i := BLK_DELETE_MARK])"
  unfolding adjacent_def
proof (intro allI impI)
  fix j
  assume j: "Suc j < length (m[i := BLK_DELETE_MARK])" "m[i := BLK_DELETE_MARK] ! j \<noteq> BLK_DELETE_MARK"
    "m[i := BLK_DELETE_MARK] ! Suc j \<noteq> BLK_DELETE_MARK"
  then have "j \<noteq> i" "Suc j \<noteq> i" by auto
  with j assms show "m[i := BLK_DELETE_MARK] ! Suc j = Suc (m[i := BLK_DELETE_MARK] ! j)"
    by (simp add: adjacent_def)
qed

lemma mark_loop_ok:
  assumes "\<forall>i \<in> set is. i < length m" and "adjacent m"
  shows "\<exists>m' k. mark_loop m is = Ok (m', k) \<and> length m' = length m \<and> adjacent m' \<and>
    BLK_SIZE * live_cnt m = BLK_SIZE * live_cnt m' + k \<and>
    (\<forall>i < length m. m' ! i = (if i \<in> set is then BLK_DELETE_MARK else m ! i))"
  using assms
proof (induction "is" arbitrary: m)
  case (Cons i "is")
  show ?case
  proof (cases "m ! i = BLK_DELETE_MARK")
    case True
    from Cons.IH [of m] Cons.prems obtain m' k where
      "mark_loop m is = Ok (m', k)" "length m' = length m" "adjacent m'" "BLK_SIZE * live_cnt m = BLK_SIZE * live_cnt m' + k"
      "\<forall>j < length m. m' ! j = (if j \<in> set is then BLK_DELETE_MARK else m ! j)" by auto
    with True Cons.prems show ?thesis by (auto simp: nth_r_def)
  next
    case False
    let ?m = "m[i := BLK_DELETE_MARK]"
    from Cons.IH [of ?m] Cons.prems adjacent_mark obtain m' k where
      "mark_loop ?m is = Ok (m', k)" "length m' = length m" "adjacent m'" "BLK_SIZE * live_cnt ?m = BLK_SIZE * live_cnt m' + k"
      "\<forall>j < length m. m' ! j = (if j \<in> set is then BLK_DELETE_MARK else ?m ! j)" by auto
    moreover have "live_cnt m = Suc (live_cnt ?m)" using live_cnt_upd [of i m] False Cons.prems by simp
    ultimately show ?thesis using False Cons.prems by (auto simp: nth_r_def nth_list_update)
  qed
qed simp

lemma mark_sector_ok:
  assumes wf: "sector_wf n sec d" and sp: "sp_begin sp mod n + sp_cnt sp \<le> n"
  defines "i \<equiv> sp_begin sp mod n"
  obtains sec' where "mark_blocks_deletion n sp sec = Ok sec'" "sector_wf n sec' d"
    "is_finished sec' = is_finished sec" "sc_curr_size sec' = sc_curr_size sec"
    "sc_id sec' = sc_id sec" "sc_idx sec' = sc_idx sec" "sc_seq sec' = sc_seq sec" "sc_arm sec' = sc_arm sec"
    "\<And>j. j < n \<Longrightarrow> sc_blk_map sec' ! j = (if i \<le> j \<and> j < i + sp_cnt sp then BLK_DELETE_MARK else sc_blk_map sec ! j)"
proof -
  let ?m = "sc_blk_map sec"
  have l: "length ?m = n" "adjacent ?m" using wf by (auto simp: sector_wf_def)
  have "\<forall>j \<in> set [i ..< i + sp_cnt sp]. j < length ?m" using sp l by (auto simp: i_def)
  from mark_loop_ok [OF this l(2)] obtain m' k where m': "mark_loop ?m [i ..< i + sp_cnt sp] = Ok (m', k)"
    "length m' = n" "adjacent m'" "BLK_SIZE * live_cnt ?m = BLK_SIZE * live_cnt m' + k"
    "\<And>j. j < n \<Longrightarrow> m' ! j = (if i \<le> j \<and> j < i + sp_cnt sp then BLK_DELETE_MARK else ?m ! j)"
    using l by auto
  have places: "o1 = BLK_DELETE_MARK \<or> o1 \<in> set ?m" if "o1 \<in> set m'" for o1
    using that m'(2,5) l by (auto simp: in_set_conv_nth split: if_splits)
  let ?sec = "if is_finished sec then sec\<lparr>sc_blk_map := m', sc_actual_size := BLK_SIZE * live_cnt m'\<rparr>
    else sec\<lparr>sc_blk_map := m'\<rparr>"
  have "mark_blocks_deletion n sp sec = Ok ?sec"
    using m'(1,4) wf by (auto simp: mark_blocks_deletion_def Let_def i_def [symmetric] is_finished_def sector_wf_def sub_r_def)
  moreover have "sector_wf n ?sec d"
  proof (cases "is_finished sec")
    case True
    then have "\<forall>o1 \<in> set m'. o1 = BLK_DELETE_MARK \<or> Suc o1 * BLK_SIZE \<le> length d"
      using wf places unfolding sector_wf_def by metis
    with True wf m' show ?thesis by (simp add: sector_wf_def is_finished_def)
  next
    case False
    with wf m' show ?thesis by (simp add: sector_wf_def is_finished_def)
  qed
  ultimately show ?thesis using m'(5) by (intro that [of ?sec]) (auto simp: is_finished_def)
qed

text \<open>Shrinking: the places that are left are numbered anew, and their blocks are put together.\<close>

fun renumber :: "nat list \<Rightarrow> nat \<Rightarrow> nat list" where
  "renumber [] k = []"
| "renumber (o1 # os) k = (if o1 = BLK_DELETE_MARK then o1 # renumber os k else k # renumber os (Suc k))"

definition gather :: "bytes \<Rightarrow> nat list \<Rightarrow> bytes" where
  "gather d m = concat (map (\<lambda>o1. take BLK_SIZE (drop (o1 * BLK_SIZE) d)) (filter (\<lambda>o1. o1 \<noteq> BLK_DELETE_MARK) m))"

definition places_in :: "bytes \<Rightarrow> nat list \<Rightarrow> bool" where
  "places_in d m \<longleftrightarrow> (\<forall>o1 \<in> set m. o1 = BLK_DELETE_MARK \<or> Suc o1 * BLK_SIZE \<le> length d)"

lemma length_renumber [simp]: "length (renumber m k) = length m"
  by (induction m arbitrary: k) simp_all

lemma length_gather: "places_in d m \<Longrightarrow> length (gather d m) = live_cnt m * BLK_SIZE"
proof (induction m)
  case (Cons o1 os)
  have "length (take BLK_SIZE (drop (o1 * BLK_SIZE) d)) = BLK_SIZE" if "o1 \<noteq> BLK_DELETE_MARK"
    using Cons.prems that by (auto simp: places_in_def)
  with Cons show ?case by (auto simp: gather_def live_cnt_def places_in_def)
qed (simp add: gather_def live_cnt_def)

lemma renumber_deleted:
  "k + length m \<le> BLK_DELETE_MARK \<Longrightarrow> i < length m \<Longrightarrow> renumber m k ! i = BLK_DELETE_MARK \<longleftrightarrow> m ! i = BLK_DELETE_MARK"
  by (induction m arbitrary: k i) (auto simp: nth_Cons split: nat.splits)

lemma renumber_live_cnt: "k + length m \<le> BLK_DELETE_MARK \<Longrightarrow> live_cnt (renumber m k) = live_cnt m"
  by (induction m arbitrary: k) (auto simp: live_cnt_def)

lemma renumber_hd: "m \<noteq> [] \<Longrightarrow> hd m \<noteq> BLK_DELETE_MARK \<Longrightarrow> hd (renumber m k) = k"
  by (cases m) auto

lemma adjacent_Cons:
  "adjacent (x # m) \<longleftrightarrow> adjacent m \<and> (m \<noteq> [] \<longrightarrow> x \<noteq> BLK_DELETE_MARK \<longrightarrow> hd m \<noteq> BLK_DELETE_MARK \<longrightarrow> hd m = Suc x)"
  by (cases m) (auto simp: adjacent_def nth_Cons split: nat.splits)

lemma adjacent_renumber: "k + length m \<le> BLK_DELETE_MARK \<Longrightarrow> adjacent (renumber m k)"
proof (induction m arbitrary: k)
  case Nil
  then show ?case by (simp add: adjacent_def)
next
  case (Cons o1 os)
  have "hd (renumber os (Suc k)) = Suc k" if "os \<noteq> []" "hd (renumber os (Suc k)) \<noteq> BLK_DELETE_MARK"
    using that by (cases os) (auto split: if_splits)
  moreover have "renumber os j = [] \<longleftrightarrow> os = []" for j by (metis length_0_conv length_renumber)
  ultimately show ?case using Cons by (auto simp: adjacent_Cons)
qed

lemma renumber_bound: "o1 \<in> set (renumber m k) \<Longrightarrow> o1 = BLK_DELETE_MARK \<or> (k \<le> o1 \<and> o1 < k + live_cnt m)"
  by (induction m arbitrary: k) (force simp: live_cnt_def split: if_splits)+

lemma blk_at_renumber:
  assumes "places_in d m" and "k + length m \<le> BLK_DELETE_MARK" and "length pre = k * BLK_SIZE" and "i < length m"
  shows "blk_at (renumber m k) (pre @ gather d m) i = blk_at m d i"
  using assms
proof (induction m arbitrary: k pre i)
  case (Cons o1 os)
  have pl: "places_in d os" using Cons.prems(1) by (simp add: places_in_def)
  show ?case
  proof (cases "o1 = BLK_DELETE_MARK")
    case True
    have g: "gather d (o1 # os) = gather d os" using True by (simp add: gather_def)
    show ?thesis
    proof (cases i)
      case 0
      with True show ?thesis by (simp add: blk_at_def)
    next
      case (Suc j)
      then have "blk_at (renumber os k) (pre @ gather d os) j = blk_at os d j" using Cons.prems pl by (intro Cons.IH) auto
      with True Suc g show ?thesis by (simp add: blk_at_def)
    qed
  next
    case False
    let ?b = "take BLK_SIZE (drop (o1 * BLK_SIZE) d)"
    have g: "gather d (o1 # os) = ?b @ gather d os" using False by (simp add: gather_def)
    have l: "Suc o1 * BLK_SIZE \<le> length d" using Cons.prems(1) False by (simp add: places_in_def)
    then have lb: "length ?b = BLK_SIZE" by simp
    show ?thesis
    proof (cases i)
      case 0
      have "k \<noteq> BLK_DELETE_MARK" using Cons.prems(2) by simp
      with False 0 g l lb Cons.prems(3) show ?thesis by (simp add: blk_at_def)
    next
      case (Suc j)
      have lp: "length (pre @ ?b) = Suc k * BLK_SIZE" using lb Cons.prems(3) by (simp only: length_append) simp
      have "blk_at (renumber os (Suc k)) ((pre @ ?b) @ gather d os) j = blk_at os d j"
        using Cons.prems pl Suc by (intro Cons.IH [OF pl _ lp]) auto
      with False Suc g show ?thesis by (simp add: blk_at_def)
    qed
  qed
qed simp

lemma read_run:
  assumes "\<And>j. j < c \<Longrightarrow> f (a + j) = Some (take BLK_SIZE (drop ((p + j) * BLK_SIZE) d))"
  shows "read_blks f [a ..< a + c] = Some (take (c * BLK_SIZE) (drop (p * BLK_SIZE) d))"
  using assms
proof (induction c arbitrary: a p)
  case (Suc c)
  have "f (Suc a + j) = Some (take BLK_SIZE (drop ((Suc p + j) * BLK_SIZE) d))" if "j < c" for j
    using Suc.prems [of "Suc j"] that by simp
  from Suc.IH [OF this] have r: "read_blks f [Suc a ..< Suc a + c] = Some (take (c * BLK_SIZE) (drop (Suc p * BLK_SIZE) d))" .
  have "[a ..< a + Suc c] = a # [Suc a ..< Suc a + c]" by (simp add: upt_conv_Cons)
  moreover have "f a = Some (take BLK_SIZE (drop (p * BLK_SIZE) d))" using Suc.prems [of 0] by simp
  moreover have "take BLK_SIZE (drop (p * BLK_SIZE) d) @ take (c * BLK_SIZE) (drop (Suc p * BLK_SIZE) d) =
      take (Suc c * BLK_SIZE) (drop (p * BLK_SIZE) d)"
    by (simp add: take_add add.commute)
  ultimately show ?case using r by (simp only: read_blks.simps option.case option.map)
qed simp

lemma adjacent_run:
  assumes "adjacent m" and "i + c \<le> length m" and "\<And>j. j < c \<Longrightarrow> m ! (i + j) \<noteq> BLK_DELETE_MARK" and "j < c"
  shows "m ! (i + j) = m ! i + j"
  using assms(4)
proof (induction j)
  case (Suc j)
  then have "Suc (i + j) < length m" "m ! (i + j) \<noteq> BLK_DELETE_MARK" "m ! Suc (i + j) \<noteq> BLK_DELETE_MARK"
    using assms(2) assms(3) [of j] assms(3) [of "Suc j"] by simp_all
  then have "m ! Suc (i + j) = Suc (m ! (i + j))" using assms(1) unfolding adjacent_def by blast
  with Suc show ?case by simp
qed simp

lemma read_blks_None: "i \<in> set is \<Longrightarrow> f i = None \<Longrightarrow> read_blks f is = None"
  by (induction "is") (auto split: option.splits)

subsection \<open>Paths\<close>

lemma hex_no_dot: "hex_digit n \<noteq> CHR ''.''"
proof -
  have "hex_digit n \<in> set ''0123456789abcdef''" unfolding hex_digit_def by (rule nth_mem) simp
  then show ?thesis by auto
qed

lemma eid_no_dot: "CHR ''.'' \<notin> set (eid_to_string e)"
proof (induction e)
  case (Cons b e)
  have "CHR ''.'' \<notin> set (hex_byte b)" using hex_no_dot [symmetric] by (simp add: hex_byte_def)
  with Cons show ?case by (simp add: eid_to_string_def)
qed (simp add: eid_to_string_def)

definition ext_path :: "string \<Rightarrow> file_armor \<Rightarrow> eid \<Rightarrow> os_path" where
  "ext_path x fa e = (let s = eid_to_string e in fa_base fa @ [take 2 s, take 2 (drop 2 s), s @ ''.'' @ x])"

lemma with_ext_slot: "with_ext x (slot_path fa e) = ext_path x fa e"
proof -
  have "takeWhile (\<lambda>c. c \<noteq> CHR ''.'') (eid_to_string e) = eid_to_string e"
    using eid_no_dot [of e] by (auto intro!: takeWhile_eq_all_conv [THEN iffD2])
  then show ?thesis by (simp add: with_ext_def slot_path_def ext_path_def Let_def butlast_append)
qed

lemma with_ext_ext: "with_ext x (ext_path y fa e) = ext_path x fa e"
proof -
  have "takeWhile (\<lambda>c. c \<noteq> CHR ''.'') (eid_to_string e @ ''.'' @ y) = eid_to_string e"
    using eid_no_dot [of e] by (auto simp: takeWhile_append)
  then show ?thesis by (simp add: with_ext_def ext_path_def Let_def butlast_append)
qed

lemma ext_path_below: "below (fa_base fa) (ext_path x fa e)"
  by (simp add: ext_path_def below_def Let_def)

lemma ext_path_neq: "ext_path x fa e \<noteq> slot_path fa e'"
proof
  assume "ext_path x fa e = slot_path fa e'"
  then have "eid_to_string e' = eid_to_string e @ ''.'' @ x" by (simp add: ext_path_def slot_path_def Let_def)
  then show False using eid_no_dot [of e'] by simp
qed

lemma ext_path_inj: "ext_path x fa e = ext_path y fa e' \<longleftrightarrow> x = y \<and> e = e'"
proof
  assume "ext_path x fa e = ext_path y fa e'"
  then have eq: "eid_to_string e @ ''.'' @ x = eid_to_string e' @ ''.'' @ y" by (simp add: ext_path_def Let_def)
  have tw: "takeWhile (\<lambda>c. c \<noteq> CHR ''.'') (eid_to_string a @ ''.'' @ z) = eid_to_string a" for a z
    using eid_no_dot [of a] by (auto simp: takeWhile_append)
  have "eid_to_string e = eid_to_string e'" using tw [of e x] tw [of e' y] eq by simp
  then show "x = y \<and> e = e'" using eq by (auto dest: eid_to_string_inj)
qed simp

lemma ext_path_parent: "butlast (ext_path x fa e) = butlast (ext_path y fa e)"
  by (simp add: ext_path_def Let_def butlast_append)

subsection \<open>The state of the manager\<close>

definition sec_id_of :: "sec_env \<Rightarrow> bytes \<Rightarrow> nat \<Rightarrow> eid" where
  "sec_id_of E hk idx = hash_with_key (sn_sodium E) (le_bytes64 (of_nat idx)) hk"

definition data_path :: "sec_env \<Rightarrow> sector_mgr \<Rightarrow> nat \<Rightarrow> os_path" where
  "data_path E m idx = ext_path ''data'' (sx_armor m) (sec_id_of E (sx_hash_key m) idx)"

definition stored_sec :: "sec_env \<Rightarrow> sector_mgr \<Rightarrow> nat \<Rightarrow> fsector option" where
  "stored_sec E m idx = file_item (sn_sodium E) (sx_armor m) (sn_ser_arm E) (sector_items (sn_ser E) (sn_deser E))
     (os_file (sx_os m)) (sec_id_of E (sx_hash_key m) idx)"

abbreviation sec_sound :: "sec_env \<Rightarrow> sector_mgr \<Rightarrow> nat \<Rightarrow> bool" where
  "sec_sound E m idx \<equiv> arms_sound (sn_sodium E) (sx_armor m) (sn_ser_arm E) (sector_items (sn_ser E) (sn_deser E))
     (os_file (sx_os m)) (sec_id_of E (sx_hash_key m) idx)"

text \<open>
  A cached sector is the stored one, unless it has been changed and not been saved yet: then it is in
  \<open>pend\<close>. An open data file is the one at the path of the sector, or a removed one.
\<close>

definition mgr_inv :: "sec_env \<Rightarrow> nat \<Rightarrow> (nat \<rightharpoonup> fsector) \<Rightarrow> sector_mgr \<Rightarrow> bool" where
  "mgr_inv E N pend m \<longleftrightarrow>
     sx_base m = fa_base (sx_armor m) \<and> flat (sx_base m) (sx_os m) \<and>
     lru_ok count_meter (sx_cache m) \<and> length (lmap (sx_cache m)) \<le> SECTOR_CACHE_SIZE \<and>
     capacity (sx_cache m) = SECTOR_CACHE_SIZE \<and>
     distinct (keys (sx_datas m)) \<and> length (sx_datas m) < SECTOR_DATA_CACHE_SIZE \<and>
     (\<forall>idx sec. map_of (lmap (sx_cache m)) idx = Some sec \<longrightarrow>
        idx < N \<and> (pend idx = Some sec \<or> pend idx = None \<and> stored_sec E m idx = Some sec)) \<and>
     (\<forall>idx h. map_of (sx_datas m) idx = Some h \<longrightarrow> idx < N \<and>
        (os_ino (sx_os m) (data_path E m idx) = Some (fh_ino h) \<or>
         os_file (sx_os m) (data_path E m idx) = None \<and> stored_sec E m idx = None)) \<and>
     (\<forall>idx < N. sec_sound E m idx \<and> (\<forall>sec. stored_sec E m idx = Some sec \<longrightarrow>
        sc_id sec = sec_id_of E (sx_hash_key m) idx \<and> sc_idx sec = idx \<and> os_file (sx_os m) (data_path E m idx) \<noteq> None))"

definition same_cfg :: "sector_mgr \<Rightarrow> sector_mgr \<Rightarrow> bool" where
  "same_cfg m m' \<longleftrightarrow> sx_base m' = sx_base m \<and> sx_armor m' = sx_armor m \<and> sx_hash_key m' = sx_hash_key m"

definition same_files :: "sector_mgr \<Rightarrow> sector_mgr \<Rightarrow> bool" where
  "same_files m m' \<longleftrightarrow> same_cfg m m' \<and> os_ino (sx_os m') = os_ino (sx_os m) \<and> os_file (sx_os m') = os_file (sx_os m)"

lemma same_cfg_paths: "same_cfg m m' \<Longrightarrow> data_path E m' = data_path E m"
  by (simp add: same_cfg_def data_path_def fun_eq_iff)

lemma same_files_simps:
  assumes "same_files m m'"
  shows "data_path E m' = data_path E m" "stored_sec E m' = stored_sec E m" "sec_sound E m' idx = sec_sound E m idx"
    "os_file (sx_os m') = os_file (sx_os m)" "os_ino (sx_os m') = os_ino (sx_os m)"
  using assms by (simp_all add: same_files_def same_cfg_def data_path_def [abs_def] stored_sec_def [abs_def])

lemma same_files_refl: "same_files m m"
  by (simp add: same_files_def same_cfg_def)

lemma same_files_trans: "same_files m m' \<Longrightarrow> same_files m' m'' \<Longrightarrow> same_files m m''"
  by (simp add: same_files_def same_cfg_def)

text \<open>The sector and data with an index, and the block map they make up.\<close>

definition sec_view :: "sec_env \<Rightarrow> sector_mgr \<Rightarrow> nat \<Rightarrow> (fsector \<times> bytes) option" where
  "sec_view E m idx = (case stored_sec E m idx of
       None \<Rightarrow> None
     | Some sec \<Rightarrow> map_option (\<lambda>d. (sec, d)) (os_file (sx_os m) (data_path E m idx)))"

definition sec_blk :: "sec_env \<Rightarrow> sector_mgr \<Rightarrow> nat \<rightharpoonup> bytes" where
  "sec_blk E m b = (case sec_view E m (b div sn_blks E) of
       None \<Rightarrow> None
     | Some (sec, d) \<Rightarrow> blk_at (sc_blk_map sec) d (b mod sn_blks E))"

text \<open>
  A sector when \<open>w\<close> blocks have been written: finished if all its blocks are below \<open>w\<close>, or growing,
  and then its file ends with the last block that was written.
\<close>

definition sector_at :: "nat \<Rightarrow> nat \<Rightarrow> nat \<Rightarrow> fsector \<Rightarrow> bytes \<Rightarrow> bool" where
  "sector_at n w idx sec d \<longleftrightarrow> sector_wf n sec d \<and>
     (if is_finished sec then Suc idx * n \<le> w
      else idx * n < w \<and> w < Suc idx * n \<and> length d = (w - idx * n) * BLK_SIZE)"

definition sectors_ok :: "sec_env \<Rightarrow> nat \<Rightarrow> nat \<Rightarrow> sector_mgr \<Rightarrow> bool" where
  "sectors_ok E N w m \<longleftrightarrow> mgr_inv E N Map.empty m \<and> w \<le> N * sn_blks E \<and>
     (\<forall>idx < N. case sec_view E m idx of
        None \<Rightarrow> os_file (sx_os m) (data_path E m idx) = None \<and> (w \<le> idx * sn_blks E \<or> Suc idx * sn_blks E \<le> w)
      | Some (sec, d) \<Rightarrow> sector_at (sn_blks E) w idx sec d) \<and>
     (\<forall>idx h. map_of (sx_datas m) idx = Some h \<longrightarrow> idx * sn_blks E < w)"

lemma same_files_view: "same_files m m' \<Longrightarrow> sec_view E m' = sec_view E m" "same_files m m' \<Longrightarrow> sec_blk E m' = sec_blk E m"
proof -
  assume s: "same_files m m'"
  show v: "sec_view E m' = sec_view E m"
    by (rule ext) (simp add: sec_view_def same_files_simps [OF s] split: option.split)
  show "sec_blk E m' = sec_blk E m" by (rule ext) (simp add: sec_blk_def v)
qed

locale sector_laws =
  items: file_items "sn_sodium E" "sector_items (sn_ser E) (sn_deser E)" "\<lambda>x. x" "sn_sz E" "sn_ser_arm E" ids +
  cache: linked_hash_map "sn_lru E" + files: linked_hash_map "sn_map E"
  for E :: sec_env and ids :: "eid set" +
  fixes hk :: bytes and N :: nat
  assumes sid_in: "idx < N \<Longrightarrow> sec_id_of E hk idx \<in> ids"
    and sid_inj: "idx < N \<Longrightarrow> idx' < N \<Longrightarrow> sec_id_of E hk idx = sec_id_of E hk idx' \<Longrightarrow> idx = idx'"
    and blks: "0 < sn_blks E" "sn_blks E \<le> BLK_DELETE_MARK"
begin

abbreviation inv :: "(nat \<rightharpoonup> fsector) \<Rightarrow> sector_mgr \<Rightarrow> bool" where
  "inv pend m \<equiv> mgr_inv E N pend m \<and> sx_hash_key m = hk"

lemma inv_parts:
  assumes "inv pend m"
  shows "sx_base m = fa_base (sx_armor m)" "flat (fa_base (sx_armor m)) (sx_os m)" "lru_ok count_meter (sx_cache m)"
    "length (lmap (sx_cache m)) \<le> SECTOR_CACHE_SIZE" "capacity (sx_cache m) = SECTOR_CACHE_SIZE"
    "distinct (keys (sx_datas m))" "length (sx_datas m) < SECTOR_DATA_CACHE_SIZE"
    "sx_hash_key m = hk" "os_ok (sx_os m)"
proof -
  show b: "sx_base m = fa_base (sx_armor m)" and f: "flat (fa_base (sx_armor m)) (sx_os m)"
    using assms unfolding mgr_inv_def by metis+
  show "os_ok (sx_os m)" using f by (rule flat_ok)
qed (use assms in \<open>simp_all add: mgr_inv_def\<close>)

lemma inv_cached:
  "inv pend m \<Longrightarrow> map_of (lmap (sx_cache m)) i = Some s \<Longrightarrow>
     i < N \<and> (pend i = Some s \<or> pend i = None \<and> stored_sec E m i = Some s)"
  unfolding mgr_inv_def by blast

lemma inv_data:
  "inv pend m \<Longrightarrow> map_of (sx_datas m) i = Some h \<Longrightarrow> i < N \<and> (os_ino (sx_os m) (data_path E m i) = Some (fh_ino h) \<or>
     os_file (sx_os m) (data_path E m i) = None \<and> stored_sec E m i = None)"
  unfolding mgr_inv_def by blast

lemma inv_sec:
  "inv pend m \<Longrightarrow> i < N \<Longrightarrow> sec_sound E m i"
  "inv pend m \<Longrightarrow> i < N \<Longrightarrow> stored_sec E m i = Some sec \<Longrightarrow>
     sc_id sec = sec_id_of E hk i \<and> sc_idx sec = i \<and> os_file (sx_os m) (data_path E m i) \<noteq> None"
  unfolding mgr_inv_def by blast+

lemma idx_id: "sx_hash_key m = hk \<Longrightarrow> sector_idx_to_id E m idx = Ok (sec_id_of E hk idx)"
  by (simp add: sector_idx_to_id_def sec_id_of_def eid_from_slice_def assert_r_def hash_with_key_def items.hash_len
      EID_SIZE_def HASH_SIZE_def)

lemma sid_length: "length (sec_id_of E hk idx) = EID_SIZE"
  by (simp add: sec_id_of_def hash_with_key_def items.hash_len EID_SIZE_def HASH_SIZE_def)

lemma data_path_ok:
  assumes "inv pend m"
  shows "sector_data_path E m idx = Ok (data_path E m idx)"
proof -
  have b: "sx_base m = fa_base (sx_armor m)" "sx_hash_key m = hk" using assms by (simp_all add: mgr_inv_def)
  show ?thesis
    using b slot_path_ok [OF sid_length, of "sx_armor m" idx]
    by (simp add: sector_data_path_def idx_id with_ext_slot data_path_def)
qed

lemma data_path_below: "inv pend m \<Longrightarrow> below (sx_base m) (data_path E m idx)"
  by (simp add: mgr_inv_def data_path_def ext_path_below)

lemma data_path_inj: "idx < N \<Longrightarrow> idx' < N \<Longrightarrow> sx_hash_key m = hk \<Longrightarrow> data_path E m idx = data_path E m idx' \<longleftrightarrow> idx = idx'"
  by (auto simp: data_path_def ext_path_inj dest: sid_inj)

lemma data_path_arm: "data_path E m idx \<noteq> items.path (sx_armor m) a e"
  by (simp add: data_path_def arm_path_def ext_path_neq)

subsection \<open>Looking up sectors\<close>

lemma inv_cache:
  assumes "inv pend m" and "lru_ok count_meter c" "length (lmap c) \<le> SECTOR_CACHE_SIZE" "capacity c = SECTOR_CACHE_SIZE"
    and c: "\<And>i s. map_of (lmap c) i = Some s \<Longrightarrow> i < N \<and> (pend' i = Some s \<or> pend' i = None \<and> stored_sec E m i = Some s)"
  shows "inv pend' (m\<lparr>sx_cache := c\<rparr>)"
proof -
  have "stored_sec E (m\<lparr>sx_cache := c\<rparr>) = stored_sec E m" "data_path E (m\<lparr>sx_cache := c\<rparr>) = data_path E m"
    by (simp_all add: stored_sec_def [abs_def] data_path_def [abs_def])
  then show ?thesis
    unfolding mgr_inv_def using inv_parts [OF assms(1)] inv_data [OF assms(1)] inv_sec [OF assms(1)] assms(2-4) c by simp
qed

lemma refresh_ok:
  assumes m: "inv pend m" and c: "map_of (lmap (sx_cache m)) idx = Some sec"
  obtains m' where "refresh_sector E idx m = (Ok sec, m')" "inv pend m'" "same_files m m'"
    "map_of (lmap (sx_cache m')) = map_of (lmap (sx_cache m))" "sx_datas m' = sx_datas m" "sx_os m' = sx_os m"
proof -
  let ?c = "snd (get_refresh (sn_lru E) (sx_cache m) idx)"
  have ok: "lru_ok count_meter (sx_cache m)" using m by (simp add: mgr_inv_def)
  have mo: "map_of (lmap ?c) = map_of (lmap (sx_cache m))" "capacity ?c = capacity (sx_cache m)"
    using ok by (simp_all add: get_refresh_def cache.map_of_refresh)
  have "length (lmap ?c) = length (lmap (sx_cache m))"
    using ok c cache.length_others [of "lmap (sx_cache m)" idx] by (simp add: get_refresh_def cache.refresh_found)
  then have "inv pend (m\<lparr>sx_cache := ?c\<rparr>)"
    using m mo cache.get_refresh_ok [OF ok, of idx] inv_parts [OF m] inv_cached [OF m] by (intro inv_cache) simp_all
  then show ?thesis
    using c mo by (intro that [of "m\<lparr>sx_cache := ?c\<rparr>"])
      (auto simp: refresh_sector_def get_refresh_def unwrap_opt_def same_files_def same_cfg_def)
qed

lemma cache_sector_ok:
  assumes m: "inv pend m" and s: "idx < N" "pend' idx = None" "stored_sec E m idx = Some sec"
    and p: "\<And>i. i \<noteq> idx \<Longrightarrow> pend' i = pend i"
  shows "inv pend' (cache_sector E idx sec m)" "map_of (lmap (sx_cache (cache_sector E idx sec m))) idx = Some sec"
    "same_files m (cache_sector E idx sec m)" "sx_datas (cache_sector E idx sec m) = sx_datas m" "sx_os (cache_sector E idx sec m) = sx_os m"
proof -
  let ?c = "snd (lru_insert (sn_lru E) count_meter no_pin (sx_cache m) idx sec)"
  have ok: "lru_ok count_meter (sx_cache m)" "length (lmap (sx_cache m)) \<le> capacity (sx_cache m)"
    "capacity (sx_cache m) = SECTOR_CACHE_SIZE" using m by (simp_all add: mgr_inv_def)
  have c: "lru_ok count_meter ?c" "length (lmap ?c) \<le> capacity ?c" "capacity ?c = capacity (sx_cache m)"
    "map_of (lmap ?c) idx = Some sec"
    using cache.count_insert_bound [OF ok(1,2), of idx sec] ok(3) by (auto simp: SECTOR_CACHE_SIZE_def)
  have lk: "map_of (lmap ?c) i = Some s \<Longrightarrow> ((map_of (lmap (sx_cache m)))(idx \<mapsto> sec)) i = Some s" for i s
    using cache.lru_insert_lookup(2) [OF lru_ok_distinct [OF ok(1)] refl] by blast
  have "i < N \<and> (pend' i = Some s \<or> pend' i = None \<and> stored_sec E m i = Some s)" if "map_of (lmap ?c) i = Some s" for i s
    using lk [OF that] inv_cached [OF m, of i s] s p [of i] by (cases "i = idx") auto
  then show "inv pend' (cache_sector E idx sec m)"
    using c ok(3) unfolding cache_sector_def by (intro inv_cache [OF m]) simp_all
  show "map_of (lmap (sx_cache (cache_sector E idx sec m))) idx = Some sec" using c(4) by (simp add: cache_sector_def)
qed (simp_all add: cache_sector_def same_files_def same_cfg_def)

lemma load_stored:
  assumes m: "inv pend m" and i: "idx < N"
  shows "file_load_item (sec_ops E m) (sx_os m) (sec_id_of E hk idx) = (ok_or (stored_sec E m idx) NotFound, sx_os m)"
proof -
  have "flat (fa_base (sx_armor m)) (sx_os m)" "sec_sound E m idx" using inv_parts [OF m] inv_sec(1) [OF m i] by simp_all
  then show ?thesis using m items.load_ok [of "sx_armor m" "sx_os m"] by (simp add: sec_ops_def stored_sec_def)
qed

lemma open_sector_found:
  assumes m: "inv Map.empty m" and i: "idx < N" and s: "stored_sec E m idx = Some sec"
  obtains m' where "open_sector E idx cr m = (Ok sec, m')" "inv Map.empty m'" "same_files m m'"
    "map_of (lmap (sx_cache m')) idx = Some sec" "sx_datas m' = sx_datas m" "sx_os m' = sx_os m"
proof (cases "map_of (lmap (sx_cache m)) idx")
  case (Some sec')
  then have "sec' = sec" using inv_cached [OF m Some] s by simp
  with Some refresh_ok [OF m] obtain m' where
    "refresh_sector E idx m = (Ok sec, m')" "inv Map.empty m'" "same_files m m'"
    "map_of (lmap (sx_cache m')) = map_of (lmap (sx_cache m))" "sx_datas m' = sx_datas m" "sx_os m' = sx_os m" by blast
  with Some \<open>sec' = sec\<close> show ?thesis by (intro that [of m']) (simp_all add: open_sector_def contains_key_def)
next
  case None
  let ?m = "cache_sector E idx sec m"
  have hk: "sx_hash_key m = hk" using m by simp
  have l: "load_sector E idx cr m = (Ok (), ?m)"
    using load_stored [OF m i] s by (simp add: load_sector_def idx_id [OF hk] ok_or_def)
  have c: "inv Map.empty ?m" "map_of (lmap (sx_cache ?m)) idx = Some sec" "same_files m ?m" "sx_datas ?m = sx_datas m" "sx_os ?m = sx_os m"
    using cache_sector_ok [OF m i _ s, of Map.empty] by simp_all
  obtain m' where r: "refresh_sector E idx ?m = (Ok sec, m')" "inv Map.empty m'" "same_files ?m m'"
    "map_of (lmap (sx_cache m')) = map_of (lmap (sx_cache ?m))" "sx_datas m' = sx_datas ?m" "sx_os m' = sx_os ?m"
    by (rule refresh_ok [OF c(1,2)])
  show ?thesis
    by (rule that [of m']) (use None l r c same_files_trans [OF c(3) r(3)] in \<open>simp_all add: open_sector_def contains_key_def\<close>)
qed

lemma open_sector_missing:
  assumes m: "inv Map.empty m" and i: "idx < N" and s: "stored_sec E m idx = None"
  shows "open_sector E idx False m = (Err NotFound, m)"
proof -
  have hk: "sx_hash_key m = hk" using m by simp
  have "map_of (lmap (sx_cache m)) idx = None" using inv_cached [OF m, of idx] s by (cases "map_of (lmap (sx_cache m)) idx") auto
  then show ?thesis
    using load_stored [OF m i] s
    by (simp add: open_sector_def contains_key_def load_sector_def idx_id [OF hk] ok_or_def error_eq_plain)
qed

subsection \<open>Opening data files\<close>

lemma upd_views:
  "stored_sec E (m\<lparr>sx_datas := D\<rparr>) = stored_sec E m" "data_path E (m\<lparr>sx_datas := D\<rparr>) = data_path E m"
  "data_path E (m\<lparr>sx_os := s\<rparr>) = data_path E m"
  "os_file s = os_file (sx_os m) \<Longrightarrow> stored_sec E (m\<lparr>sx_os := s\<rparr>) = stored_sec E m"
  by (simp_all add: stored_sec_def [abs_def] data_path_def [abs_def])

lemma inv_os:
  assumes m: "inv pend m" and s: "flat (fa_base (sx_armor m)) s" "os_ino s = os_ino (sx_os m)" "os_file s = os_file (sx_os m)"
  shows "inv pend (m\<lparr>sx_os := s\<rparr>)" "same_files m (m\<lparr>sx_os := s\<rparr>)"
proof -
  show "inv pend (m\<lparr>sx_os := s\<rparr>)"
    unfolding mgr_inv_def upd_views(3) upd_views(4) [OF s(3)]
    using inv_parts [OF m] inv_cached [OF m] inv_data [OF m] inv_sec [OF m] s by simp
qed (use s in \<open>simp add: same_files_def same_cfg_def\<close>)

lemma inv_datas:
  assumes m: "inv pend m" and d: "distinct (keys D)" "length D < SECTOR_DATA_CACHE_SIZE"
    and h: "\<And>i h. map_of D i = Some h \<Longrightarrow> i < N \<and> (os_ino (sx_os m) (data_path E m i) = Some (fh_ino h) \<or>
       os_file (sx_os m) (data_path E m i) = None \<and> stored_sec E m i = None)"
  shows "inv pend (m\<lparr>sx_datas := D\<rparr>)" "same_files m (m\<lparr>sx_datas := D\<rparr>)"
proof -
  show "inv pend (m\<lparr>sx_datas := D\<rparr>)"
    unfolding mgr_inv_def upd_views(1,2)
    using inv_parts [OF m] inv_cached [OF m] h d inv_sec [OF m] by simp
qed (simp add: same_files_def same_cfg_def)

text \<open>The bounded list of open files after an insertion.\<close>

definition datas_insert :: "nat \<Rightarrow> fhandle \<Rightarrow> (nat, fhandle) lhm \<Rightarrow> (nat, fhandle) lhm" where
  "datas_insert idx h D = (let d = lhm_insert (sn_map E) D idx h
     in if SECTOR_DATA_CACHE_SIZE \<le> length d then lhm_pop_front (sn_map E) d else d)"

lemma datas_insert_ok:
  assumes d: "distinct (keys D)" "length D < SECTOR_DATA_CACHE_SIZE" and new: "map_of D idx = None"
  shows "distinct (keys (datas_insert idx h D))" "length (datas_insert idx h D) < SECTOR_DATA_CACHE_SIZE"
    "map_of (datas_insert idx h D) idx = Some h"
    "map_of (datas_insert idx h D) i = Some x \<Longrightarrow> i = idx \<and> x = h \<or> map_of D i = Some x"
proof -
  have ins: "lhm_insert (sn_map E) D idx h = D @ [(idx, h)]" using d new by (intro files.last_insert_fresh) auto
  have dd: "distinct (keys (D @ [(idx, h)]))" using files.insert_distinct [OF d(1), of idx h] ins by simp
  have D: "datas_insert idx h D = (if SECTOR_DATA_CACHE_SIZE \<le> Suc (length D) then tl (D @ [(idx, h)]) else D @ [(idx, h)])"
    using files.pop_front_tl [OF dd] by (simp add: datas_insert_def ins Let_def)
  show "length (datas_insert idx h D) < SECTOR_DATA_CACHE_SIZE" using d(2) unfolding D by auto
  have sub: "datas_insert idx h D = D' @ [(idx, h)] \<Longrightarrow> set D' \<subseteq> set D \<Longrightarrow> distinct (keys (D' @ [(idx, h)])) \<Longrightarrow>
      distinct (keys (datas_insert idx h D)) \<and> map_of (datas_insert idx h D) idx = Some h \<and>
      (map_of (datas_insert idx h D) i = Some x \<longrightarrow> i = idx \<and> x = h \<or> map_of D i = Some x)" for D'
    proof (intro conjI impI)
      assume D': "datas_insert idx h D = D' @ [(idx, h)]" "set D' \<subseteq> set D" "distinct (keys (D' @ [(idx, h)]))"
      have n: "map_of D' idx = None" using D'(3) by (simp add: map_of_eq_None_iff)
      show "distinct (keys (datas_insert idx h D))" using D'(1,3) by simp
      show "map_of (datas_insert idx h D) idx = Some h" using D'(1) n by (simp add: map_add_def)
      assume "map_of (datas_insert idx h D) i = Some x"
      then have "i = idx \<and> x = h \<or> map_of D' i = Some x"
        using D'(1) n by (cases "map_of D' i") (auto simp: map_add_def split: if_splits)
      moreover have "map_of D i = Some x" if "map_of D' i = Some x"
        using map_of_SomeD [OF that] D'(2) d(1) by auto
      ultimately show "i = idx \<and> x = h \<or> map_of D i = Some x" by blast
    qed
  have "\<exists>D'. datas_insert idx h D = D' @ [(idx, h)] \<and> set D' \<subseteq> set D \<and> distinct (keys (D' @ [(idx, h)]))"
  proof (cases D)
    case Nil
    then show ?thesis unfolding D by (auto simp: SECTOR_DATA_CACHE_SIZE_def)
  next
    case (Cons p ps)
    then show ?thesis unfolding D using dd by (cases "SECTOR_DATA_CACHE_SIZE \<le> Suc (length D)") auto
  qed
  then show "distinct (keys (datas_insert idx h D))" "map_of (datas_insert idx h D) idx = Some h"
    "map_of (datas_insert idx h D) i = Some x \<Longrightarrow> i = idx \<and> x = h \<or> map_of D i = Some x"
    using sub by blast+
qed

lemma open_data_known:
  assumes m: "inv pend m" and h: "map_of (sx_datas m) idx = Some h"
  obtains m' where "open_sector_data E idx cr m = (Ok h, m')" "inv pend m'" "same_files m m'"
    "sx_cache m' = sx_cache m" "map_of (sx_datas m') = map_of (sx_datas m)" "is_os_dir (sx_os m') = is_os_dir (sx_os m)"
proof -
  let ?D = "lhm_refresh (sn_map E) (sx_datas m) idx"
  note p = inv_parts [OF m]
  have r: "map_of ?D = map_of (sx_datas m)" "distinct (keys ?D)"
    using p(6) by (simp_all add: files.map_of_refresh files.refresh_distinct)
  have l: "length ?D = length (sx_datas m)"
    using p(6) h files.length_others [of "sx_datas m" idx] by (simp add: files.refresh_found)
  have i: "inv pend (m\<lparr>sx_datas := ?D\<rparr>)" "same_files m (m\<lparr>sx_datas := ?D\<rparr>)"
    using inv_datas [OF m r(2)] l p(7) inv_data [OF m] r(1) by auto
  have "open_sector_data E idx cr m = (Ok h, m\<lparr>sx_datas := ?D\<rparr>)"
    using h p(9) by (simp add: open_sector_data_def unwrap_opt_def on_os_def zoom_def io_def conv_s_def)
  with i r show ?thesis by (intro that [of "m\<lparr>sx_datas := ?D\<rparr>"]) simp_all
qed

text \<open>Making and opening the file of a sector; it may be new.\<close>

lemma new_data_ok:
  assumes m: "inv pend m" and i: "idx < N" and new: "map_of (sx_datas m) idx = None"
    and c: "cr \<or> os_file (sx_os m) (data_path E m idx) \<noteq> None"
  obtains s h where "new_sector_data E idx cr m = (Ok (), m\<lparr>sx_os := s, sx_datas := datas_insert idx h (sx_datas m)\<rparr>)"
    "flat (fa_base (sx_armor m)) s" "os_ino s (data_path E m idx) = Some (fh_ino h)"
    "\<And>q. q \<noteq> data_path E m idx \<Longrightarrow> os_ino s q = os_ino (sx_os m) q"
    "os_ino (sx_os m) (data_path E m idx) \<noteq> None \<Longrightarrow> os_ino s = os_ino (sx_os m)"
    "os_file s = (os_file (sx_os m))(data_path E m idx \<mapsto> (case os_file (sx_os m) (data_path E m idx) of None \<Rightarrow> [] | Some d \<Rightarrow> d))"
    "is_os_dir s (butlast (data_path E m idx))"
proof -
  let ?p = "data_path E m idx" and ?s = "sx_os m"
  note pt = inv_parts [OF m]
  have pb: "below (fa_base (sx_armor m)) ?p" using data_path_below [OF m] pt(1) by simp
  have ne: "?p \<noteq> []" using below_butlast [OF pb] by simp
  have ex: "(os_exists ?p ?s :: bool res \<times> os) = (Ok True, ?s)" if "os_file ?s ?p \<noteq> None"
    using that pt(9) by (auto simp: os_exists_def os_file_None)
  obtain s1 where s1: "ensure_parents_dir ?p ?s = (Ok (), s1)" "os_ok s1" "os_ino s1 = os_ino ?s" "os_file s1 = os_file ?s"
    "is_os_dir s1 (butlast ?p)" "\<And>x. is_os_dir s1 x \<longleftrightarrow> is_os_dir ?s x \<or> prefix x (butlast ?p)"
    using ensure_parents_dir_ok [OF pt(9) ne flat_room(2) [OF pt(2) pb]] by blast
  have f1: "flat (fa_base (sx_armor m)) s1" using s1 by (intro flat_change [OF pt(2) s1(2) pb]) auto
  obtain h s where s: "os_open True False ?p s1 = (Ok h, s)" "os_ok s" "os_ino s ?p = Some (fh_ino h)"
    "os_ino s1 ?p \<noteq> None \<Longrightarrow> os_ino s = os_ino s1" "\<And>q. q \<noteq> ?p \<Longrightarrow> os_ino s q = os_ino s1 q"
    "os_file s = (os_file s1)(?p \<mapsto> (case os_file s1 ?p of None \<Rightarrow> [] | Some d \<Rightarrow> d))" "is_os_dir s = is_os_dir s1"
    by (rule os_open_write [OF s1(2) flat_room(1) [OF f1 pb] s1(5), of False]) auto
  have f: "flat (fa_base (sx_armor m)) s" using s by (intro flat_change [OF f1 s(2) pb]) auto
  have "new_sector_data E idx cr m = (Ok (), m\<lparr>sx_os := s, sx_datas := datas_insert idx h (sx_datas m)\<rparr>)"
    using c ex s1(1) s(1)
    by (cases cr) (simp_all add: new_sector_data_def data_path_ok [OF m] on_os_def zoom_def bind_s_def io_def conv_s_def
        datas_insert_def Let_def)
  with f s s1 show ?thesis by (intro that [of h s]) simp_all
qed

lemma open_data_found:
  assumes m: "inv pend m" and i: "idx < N" and d: "os_file (sx_os m) (data_path E m idx) = Some d"
  obtains m' h where "open_sector_data E idx cr m = (Ok h, m')" "inv pend m'" "same_files m m'"
    "os_ino (sx_os m') (data_path E m idx) = Some (fh_ino h)" "sx_cache m' = sx_cache m"
    "map_of (sx_datas m') idx = Some h" "\<And>i x. map_of (sx_datas m') i = Some x \<Longrightarrow> i = idx \<or> map_of (sx_datas m) i \<noteq> None"
proof (cases "map_of (sx_datas m) idx")
  case (Some h)
  have "os_ino (sx_os m) (data_path E m idx) = Some (fh_ino h)" using inv_data [OF m Some] d by simp
  moreover obtain m' where "open_sector_data E idx cr m = (Ok h, m')" "inv pend m'" "same_files m m'" "sx_cache m' = sx_cache m"
    "map_of (sx_datas m') = map_of (sx_datas m)"
    by (rule open_data_known [OF m Some])
  ultimately show ?thesis using Some by (intro that [of h m']) (auto simp: same_files_simps(5))
next
  case None
  let ?p = "data_path E m idx"
  obtain s h where s: "new_sector_data E idx cr m = (Ok (), m\<lparr>sx_os := s, sx_datas := datas_insert idx h (sx_datas m)\<rparr>)"
    "flat (fa_base (sx_armor m)) s" "os_ino s ?p = Some (fh_ino h)" "os_ino (sx_os m) ?p \<noteq> None \<Longrightarrow> os_ino s = os_ino (sx_os m)"
    "os_file s = (os_file (sx_os m))(?p \<mapsto> (case os_file (sx_os m) ?p of None \<Rightarrow> [] | Some d \<Rightarrow> d))"
    by (rule new_data_ok [OF m i None, of cr]) (use d in auto)
  have ino: "os_ino s = os_ino (sx_os m)" using s(4) d by (auto simp: os_file_def)
  have fl: "os_file s = os_file (sx_os m)" using s(5) d by auto
  let ?m1 = "m\<lparr>sx_os := s\<rparr>"
  let ?m2 = "?m1\<lparr>sx_datas := datas_insert idx h (sx_datas m)\<rparr>"
  note m1 = inv_os [OF m s(2) ino fl]
  note D = datas_insert_ok [OF inv_parts(6,7) [OF m] None]
  have m2: "inv pend ?m2" "same_files ?m1 ?m2"
    using inv_datas [OF m1(1) D(1,2), of h] D(4) [of h] inv_data [OF m] i s(3) ino fl
    by (auto simp: upd_views)
  obtain m' where m': "open_sector_data E idx cr ?m2 = (Ok h, m')" "inv pend m'" "same_files ?m2 m'" "sx_cache m' = sx_cache ?m2"
    "map_of (sx_datas m') = map_of (sx_datas ?m2)"
    by (rule open_data_known [OF m2(1), of idx h]) (use D(3) in auto)
  have "open_sector_data E idx cr m = (Ok h, m')"
    using m'(1) s(1) None D(3) [of h] by (simp add: open_sector_data_def)
  moreover have sf: "same_files m m'" using same_files_trans [OF same_files_trans [OF m1(2) m2(2)] m'(3)] .
  moreover have "os_ino (sx_os m') ?p = Some (fh_ino h)" using same_files_simps(5) [OF sf] s(3) ino by simp
  moreover have "i = idx \<or> map_of (sx_datas m) i \<noteq> None" if "map_of (sx_datas m') i = Some x" for i x
    using that D(4) [of h i x] m'(5) by auto
  ultimately show ?thesis using m'(2,4,5) D(3) by (intro that [of h m']) simp_all
qed

lemma open_data_missing:
  assumes m: "inv pend m" and i: "idx < N" and d: "os_file (sx_os m) (data_path E m idx) = None"
  obtains r m' where "open_sector_data E idx False m = (r, m')" "r = Err NotFound \<or> (\<exists>h. r = Ok h)" "inv pend m'" "same_files m m'"
    "sx_cache m' = sx_cache m" "map_of (sx_datas m') = map_of (sx_datas m)"
proof (cases "map_of (sx_datas m) idx")
  case (Some h)
  obtain m' where "open_sector_data E idx False m = (Ok h, m')" "inv pend m'" "same_files m m'" "sx_cache m' = sx_cache m"
    "map_of (sx_datas m') = map_of (sx_datas m)"
    by (rule open_data_known [OF m Some])
  then show ?thesis by (intro that [of "Ok h" m']) auto
next
  case None
  let ?p = "data_path E m idx"
  note pt = inv_parts [OF m]
  have "\<not> is_os_dir (sx_os m) ?p" using flat_room(1) [OF pt(2)] data_path_below [OF m] pt(1) by simp
  then have "(os_exists ?p (sx_os m) :: bool res \<times> os) = (Ok False, sx_os m)"
    using d pt(9) by (simp add: os_exists_def os_file_None)
  then have "open_sector_data E idx False m = (Err NotFound, m)"
    using None by (simp add: open_sector_data_def new_sector_data_def data_path_ok [OF m] on_os_def zoom_def bind_s_def)
  then show ?thesis using m same_files_refl by (intro that [of "Err NotFound" m]) auto
qed

subsection \<open>Reading\<close>

abbreviation ok :: "nat \<Rightarrow> sector_mgr \<Rightarrow> bool" where
  "ok w m \<equiv> sectors_ok E N w m \<and> sx_hash_key m = hk"

lemma ok_inv: "ok w m \<Longrightarrow> inv Map.empty m"
  by (simp add: sectors_ok_def)

lemma ok_quiet:
  assumes "ok w m" and "inv Map.empty m'" and "same_files m m'"
    and "\<And>i h. map_of (sx_datas m') i = Some h \<Longrightarrow> i * sn_blks E < w"
  shows "ok w m'"
  using assms unfolding sectors_ok_def same_files_view(1) [OF assms(3)] same_files_simps(1,4) [OF assms(3)] by blast

lemma ok_view:
  assumes "ok w m" and "idx < N" and "sec_view E m idx = Some (sec, d)"
  shows "stored_sec E m idx = Some sec" "os_file (sx_os m) (data_path E m idx) = Some d" "sector_at (sn_blks E) w idx sec d"
proof -
  show "stored_sec E m idx = Some sec" "os_file (sx_os m) (data_path E m idx) = Some d"
    using assms(3) by (auto simp: sec_view_def split: option.splits)
  show "sector_at (sn_blks E) w idx sec d" using assms unfolding sectors_ok_def by (metis option.case(2) prod.case)
qed

lemma ok_no_view:
  assumes "ok w m" and "idx < N" and "sec_view E m idx = None"
  shows "stored_sec E m idx = None" "os_file (sx_os m) (data_path E m idx) = None"
    "w \<le> idx * sn_blks E \<or> Suc idx * sn_blks E \<le> w"
proof -
  have n: "os_file (sx_os m) (data_path E m idx) = None \<and> (w \<le> idx * sn_blks E \<or> Suc idx * sn_blks E \<le> w)"
    using assms unfolding sectors_ok_def by (metis option.case(1))
  then show d: "os_file (sx_os m) (data_path E m idx) = None" and "w \<le> idx * sn_blks E \<or> Suc idx * sn_blks E \<le> w" by blast+
  show "stored_sec E m idx = None"
    using inv_sec(2) [OF ok_inv [OF assms(1)] assms(2)] d by (cases "stored_sec E m idx") auto
qed

text \<open>A span within one sector.\<close>

definition in_sector :: "span \<Rightarrow> bool" where
  "in_sector sp \<longleftrightarrow> 0 < sp_cnt sp \<and> sp_begin sp mod sn_blks E + sp_cnt sp \<le> sn_blks E"

lemma in_sector_blocks:
  assumes "in_sector sp" and "b \<in> set (span_blocks sp)"
  shows "b div sn_blks E = sp_begin sp div sn_blks E" "b mod sn_blks E = sp_begin sp mod sn_blks E + (b - sp_begin sp)"
proof -
  let ?n = "sn_blks E" and ?k = "b - sp_begin sp"
  have b: "b = sp_begin sp + ?k" "?k < sp_cnt sp" using assms(2) by (auto simp: span_blocks_def span_end_def)
  then have lt: "sp_begin sp mod ?n + ?k < ?n" using assms(1) by (auto simp: in_sector_def)
  have "b = sp_begin sp div ?n * ?n + (sp_begin sp mod ?n + ?k)" using b(1) by (metis add.assoc div_mult_mod_eq)
  then show "b div ?n = sp_begin sp div ?n" "b mod ?n = sp_begin sp mod ?n + ?k"
    using lt by (metis div_less div_mult_self3 blks(1) less_not_refl add.right_neutral, metis mod_less mod_mult_self3)
qed

lemma view_present:
  assumes v: "sector_at (sn_blks E) w idx sec d" and i: "i < sn_blks E" "idx * sn_blks E + i < w"
    and l: "sc_blk_map sec ! i \<noteq> BLK_DELETE_MARK"
  shows "Suc (sc_blk_map sec ! i) * BLK_SIZE \<le> length d"
proof (cases "is_finished sec")
  case True
  then show ?thesis using v i(1) l by (auto simp: sector_at_def sector_wf_def dest: bspec [OF _ nth_mem])
next
  case False
  then have "sc_blk_map sec ! i = i" "length d = (w - idx * sn_blks E) * BLK_SIZE"
    using v i(1) l by (auto simp: sector_at_def sector_wf_def)
  moreover have "Suc i \<le> w - idx * sn_blks E" using i(2) by simp
  ultimately show ?thesis by (metis mult_le_mono1)
qed

lemma read_sector_ok:
  assumes m: "ok w m" and sp: "in_sector sp" "span_end sp \<le> w"
  obtains m' where "read_sector E sp m = (ok_or (read_blks (sec_blk E m) (span_blocks sp)) NotFound, m')" "ok w m'" "same_files m m'"
proof -
  let ?n = "sn_blks E" and ?idx = "sp_begin sp div sn_blks E" and ?i = "sp_begin sp mod sn_blks E"
  have "sp_begin sp < N * ?n" using sp m by (simp add: in_sector_def span_end_def sectors_ok_def)
  then have N: "?idx < N" by (simp add: less_mult_imp_div_less)
  have beg: "sp_begin sp \<in> set (span_blocks sp)" using sp(1) by (simp add: in_sector_def span_blocks_def span_end_def)
  have dk: "i * ?n < w" if "map_of (sx_datas m) i = Some x \<or> i = ?idx" for i x
  proof (cases "i = ?idx")
    case True
    have "?idx * ?n \<le> sp_begin sp" by (rule div_times_less_eq_dividend)
    moreover have "sp_begin sp < w" using sp by (simp add: in_sector_def span_end_def)
    ultimately show ?thesis unfolding True by (rule le_less_trans)
  next
    case False
    then show ?thesis using that m unfolding sectors_ok_def by blast
  qed
  show ?thesis
  proof (cases "sec_view E m ?idx")
    case None
    note nv = ok_no_view [OF m N None]
    obtain r m1 where o: "open_sector_data E ?idx False m = (r, m1)" "r = Err NotFound \<or> (\<exists>h. r = Ok h)"
      "inv Map.empty m1" "same_files m m1" "sx_cache m1 = sx_cache m" "map_of (sx_datas m1) = map_of (sx_datas m)"
      by (rule open_data_missing [OF ok_inv [OF m] N nv(2)])
    have "open_sector E ?idx False m1 = (Err NotFound, m1)"
      using open_sector_missing [OF o(3) N] nv(1) same_files_simps(2) [OF o(4)] by simp
    then have run: "read_sector E sp m = (Err NotFound, m1)" using o(1,2) by (auto simp: read_sector_def Let_def)
    have "ok w m1" using dk by (intro ok_quiet [OF m o(3,4)]) (auto simp: o(6))
    moreover have "read_blks (sec_blk E m) (span_blocks sp) = None"
      using None by (intro read_blks_None [OF beg]) (simp add: sec_blk_def)
    ultimately show ?thesis using run o(4) by (intro that [of m1]) (simp_all add: ok_or_def)
  next
    case (Some sd)
    then obtain sec d where vw: "sec_view E m ?idx = Some (sec, d)" by (cases sd) simp
    note v = ok_view [OF m N vw]
    let ?bm = "sc_blk_map sec"
    have bm: "length ?bm = ?n" "adjacent ?bm" using v(3) by (auto simp: sector_at_def sector_wf_def)
    obtain m1 h where o: "open_sector_data E ?idx False m = (Ok h, m1)" "inv Map.empty m1" "same_files m m1"
      "os_ino (sx_os m1) (data_path E m ?idx) = Some (fh_ino h)" "\<And>i x. map_of (sx_datas m1) i = Some x \<Longrightarrow> i = ?idx \<or> map_of (sx_datas m) i \<noteq> None"
      by (rule open_data_found [OF ok_inv [OF m] N v(2), of False]) blast
    have st1: "stored_sec E m1 ?idx = Some sec" using v(1) same_files_simps(2) [OF o(3)] by simp
    obtain m2 where p: "open_sector E ?idx False m1 = (Ok sec, m2)" "inv Map.empty m2" "same_files m1 m2"
      "sx_datas m2 = sx_datas m1" "sx_os m2 = sx_os m1"
      by (rule open_sector_found [OF o(2) N st1, of False])
    have sf: "same_files m m2" using same_files_trans [OF o(3) p(3)] .
    have ok2: "ok w m2" using o(5) dk p(4) by (intro ok_quiet [OF m p(2) sf]) auto
    have i: "?i < ?n" "?i + sp_cnt sp \<le> ?n" using sp(1) by (auto simp: in_sector_def)
    have blk: "sec_blk E m (sp_begin sp + j) = blk_at ?bm d (?i + j)" if "j < sp_cnt sp" for j
      using in_sector_blocks [OF sp(1), of "sp_begin sp + j"] that vw
      by (simp add: sec_blk_def span_blocks_def span_end_def)
    have run: "read_sector E sp m =
        (if list_ex (\<lambda>b. b = BLK_DELETE_MARK) (take (sp_cnt sp) (drop ?i ?bm)) then (Err NotFound, m2)
         else on_os (io (os_read_exact (?bm ! ?i * BLK_SIZE) (bytes_len sp) h)) m2)"
      using o(1) p(1) i bm(1) by (simp add: read_sector_def Let_def nth_r_def)
    show ?thesis
    proof (cases "\<exists>j < sp_cnt sp. ?bm ! (?i + j) = BLK_DELETE_MARK")
      case True
      then obtain j where j: "j < sp_cnt sp" "?bm ! (?i + j) = BLK_DELETE_MARK" by blast
      have "list_ex (\<lambda>b. b = BLK_DELETE_MARK) (take (sp_cnt sp) (drop ?i ?bm))"
        unfolding list_ex_iff in_set_conv_nth using j i bm(1) by (intro bexI [of _ "take (sp_cnt sp) (drop ?i ?bm) ! j"] nth_mem) auto
      moreover have "read_blks (sec_blk E m) (span_blocks sp) = None"
        using blk [OF j(1)] j by (intro read_blks_None [of "sp_begin sp + j"]) (auto simp: span_blocks_def span_end_def blk_at_def)
      ultimately show ?thesis using run ok2 sf by (intro that [of m2]) (simp_all add: ok_or_def)
    next
      case False
      then have live: "\<And>j. j < sp_cnt sp \<Longrightarrow> ?bm ! (?i + j) \<noteq> BLK_DELETE_MARK" by blast
      have pl: "?bm ! (?i + j) = ?bm ! ?i + j" if "j < sp_cnt sp" for j
        using adjacent_run [OF bm(2) _ live that] i bm(1) by simp
      have w: "?idx * ?n + (?i + j) < w" if "j < sp_cnt sp" for j
        using sp(2) that by (simp add: span_end_def)
      have bound: "Suc (?bm ! ?i + j) * BLK_SIZE \<le> length d" if "j < sp_cnt sp" for j
        using view_present [OF v(3), of "?i + j"] live [OF that] pl [OF that] w [OF that] i that by simp
      have f: "sec_blk E m (sp_begin sp + j) = Some (take BLK_SIZE (drop ((?bm ! ?i + j) * BLK_SIZE) d))" if "j < sp_cnt sp" for j
        using blk [OF that] live [OF that] pl [OF that] bound [OF that] by (simp add: blk_at_def Let_def)
      have rb: "read_blks (sec_blk E m) (span_blocks sp) = Some (take (bytes_len sp) (drop (?bm ! ?i * BLK_SIZE) d))"
        using read_run [of "sp_cnt sp" "sec_blk E m" "sp_begin sp", OF f] by (simp add: span_blocks_def span_end_def bytes_len_def)
      have "?bm ! ?i * BLK_SIZE + bytes_len sp \<le> length d"
        using bound [of "sp_cnt sp - 1"] sp(1) by (simp add: in_sector_def bytes_len_def algebra_simps)
      moreover have "\<not> list_ex (\<lambda>b. b = BLK_DELETE_MARK) (take (sp_cnt sp) (drop ?i ?bm))"
        using live i bm(1) by (auto simp: list_ex_iff in_set_conv_nth)
      moreover have "os_file (sx_os m2) (data_path E m ?idx) = Some d" "os_ino (sx_os m2) (data_path E m ?idx) = Some (fh_ino h)" "os_ok (sx_os m2)"
        using same_files_simps(4) [OF sf] v(2) o(4) p(5) inv_parts(9) [OF p(2)] by simp_all
      ultimately have "read_sector E sp m = (Ok (take (bytes_len sp) (drop (?bm ! ?i * BLK_SIZE) d)), m2)"
        using run os_read_exact_ok [of "sx_os m2" "data_path E m ?idx" h d "?bm ! ?i * BLK_SIZE" "bytes_len sp"]
        by (simp add: on_os_def zoom_def io_def conv_s_def)
      then show ?thesis using rb ok2 sf by (intro that [of m2]) (simp_all add: ok_or_def)
    qed
  qed
qed

end

end
