(* ===== verification/Sector_Write.thy ===== *)
theory Sector_Write
  imports Sector_Laws
begin

text \<open>
  Writing and deleting blocks: every operation of the sector manager changes the files of one sector
  at a time, and on the blocks it acts as an update of a map.
\<close>

lemma map_of_put: "map_of xs i \<noteq> None \<Longrightarrow> map_of (map (\<lambda>(k, v). (k, if k = i then x else v)) xs) = (map_of xs)(i \<mapsto> x)"
proof -
  have "map_of (map (\<lambda>(k, v). (k, if k = i then x else v)) xs) j =
      (if j = i then map_option (\<lambda>_. x) (map_of xs j) else map_of xs j)" for j
    by (induction xs) auto
  then show "map_of xs i \<noteq> None \<Longrightarrow> ?thesis" by (auto simp: fun_eq_iff)
qed

lemma keys_put: "map fst (map (\<lambda>(k, v). (k, if k = i then x else v)) xs) = map fst xs"
  by (induction xs) auto

definition bump :: "fsector \<Rightarrow> fsector" where
  "bump sec = sec\<lparr>sc_seq := Suc (sc_seq sec), sc_arm := arm_other (sc_arm sec)\<rparr>"

lemma bump_simps [simp]:
  "sc_id (bump sec) = sc_id sec" "sc_idx (bump sec) = sc_idx sec" "sc_blk_map (bump sec) = sc_blk_map sec"
  "sc_curr_size (bump sec) = sc_curr_size sec" "sc_actual_size (bump sec) = sc_actual_size sec"
  "is_finished (bump sec) = is_finished sec" "sc_seq (bump sec) = Suc (sc_seq sec)"
  by (simp_all add: bump_def is_finished_def)

lemma bump_wf [simp]: "sector_wf n (bump sec) d = sector_wf n sec d" "sector_at n w i (bump sec) d = sector_at n w i sec d"
  by (simp_all add: sector_wf_def sector_at_def)

lemma sec_viewI:
  "stored_sec E m idx = Some sec \<Longrightarrow> os_file (sx_os m) (data_path E m idx) = Some d \<Longrightarrow> sec_view E m idx = Some (sec, d)"
  by (simp add: sec_view_def)

context sector_laws
begin

subsection \<open>Changes to one sector\<close>

definition shrink_path :: "sector_mgr \<Rightarrow> nat \<Rightarrow> os_path" where
  "shrink_path m idx = ext_path ''shrink'' (sx_armor m) (sec_id_of E (sx_hash_key m) idx)"

definition own :: "sector_mgr \<Rightarrow> nat \<Rightarrow> os_path set" where
  "own m idx = {data_path E m idx, shrink_path m idx} \<union>
     {items.path (sx_armor m) a (sec_id_of E (sx_hash_key m) idx) | a. True}"

definition confined :: "nat \<Rightarrow> sector_mgr \<Rightarrow> sector_mgr \<Rightarrow> bool" where
  "confined idx m m' \<longleftrightarrow> same_cfg m m' \<and>
     (\<forall>q. q \<notin> own m idx \<longrightarrow> os_ino (sx_os m') q = os_ino (sx_os m) q \<and> os_file (sx_os m') q = os_file (sx_os m) q)"

lemma own_cfg: "same_cfg m m' \<Longrightarrow> own m' = own m" "same_cfg m m' \<Longrightarrow> shrink_path m' = shrink_path m"
  using same_cfg_paths [of m m' E] by (simp_all add: own_def [abs_def] shrink_path_def [abs_def] same_cfg_def)

lemma same_confined: "same_files m m' \<Longrightarrow> confined idx m m'"
  by (simp add: confined_def same_files_def)

lemma confined_refl: "confined idx m m"
  by (rule same_confined [OF same_files_refl])

lemma confined_trans:
  assumes "confined idx m m'" and "confined idx m' m''"
  shows "confined idx m m''"
proof -
  have "own m' = own m" "same_cfg m m''" using assms own_cfg(1) [of m m'] by (auto simp: confined_def same_cfg_def)
  with assms show ?thesis unfolding confined_def by simp
qed

lemma confined_cfg: "confined idx m m' \<Longrightarrow> same_cfg m m'"
  by (simp add: confined_def)

lemma own_other:
  assumes "sx_hash_key m = hk" and "idx < N" and "i < N" and "i \<noteq> idx"
  shows "data_path E m i \<notin> own m idx" "items.path (sx_armor m) a (sec_id_of E hk i) \<notin> own m idx"
proof -
  have id: "sec_id_of E hk i \<noteq> sec_id_of E hk idx" using sid_inj assms by blast
  show "data_path E m i \<notin> own m idx"
    using id assms(1) data_path_arm [of m i] by (auto simp: own_def shrink_path_def data_path_def ext_path_inj)
  show "items.path (sx_armor m) a (sec_id_of E hk i) \<notin> own m idx"
    using id assms(1) sid_in assms(2,3) data_path_arm [of m idx a, symmetric]
    by (auto simp: own_def shrink_path_def items.path_inj) (simp add: arm_path_def ext_path_neq [symmetric])
qed

lemma confined_other:
  assumes c: "confined idx m m'" and hk: "sx_hash_key m = hk" and i: "idx < N" "i < N" "i \<noteq> idx"
  shows "stored_sec E m' i = stored_sec E m i" "sec_sound E m' i = sec_sound E m i"
    "os_file (sx_os m') (data_path E m i) = os_file (sx_os m) (data_path E m i)"
    "os_ino (sx_os m') (data_path E m i) = os_ino (sx_os m) (data_path E m i)"
    "sec_view E m' i = sec_view E m i"
proof -
  note o = own_other [OF hk i]
  have cfg: "sx_armor m' = sx_armor m" "sx_hash_key m' = hk" "data_path E m' = data_path E m"
    using confined_cfg [OF c] hk same_cfg_paths by (auto simp: same_cfg_def)
  have f: "os_file (sx_os m') (items.path (sx_armor m) a (sec_id_of E hk i)) = os_file (sx_os m) (items.path (sx_armor m) a (sec_id_of E hk i))" for a
    using c o(2) [of a] unfolding confined_def by blast
  show st: "stored_sec E m' i = stored_sec E m i" unfolding stored_sec_def cfg hk by (rule file_item_cong(1)) (rule f)
  show "sec_sound E m' i = sec_sound E m i" unfolding cfg hk by (rule file_item_cong(2)) (rule f)
  show d: "os_file (sx_os m') (data_path E m i) = os_file (sx_os m) (data_path E m i)"
    "os_ino (sx_os m') (data_path E m i) = os_ino (sx_os m) (data_path E m i)"
    using c o(1) by (simp_all add: confined_def)
  show "sec_view E m' i = sec_view E m i" unfolding sec_view_def st cfg(3) d(1) by (rule refl)
qed

lemma inv_confined:
  assumes m: "inv pend m" and i: "idx < N" and c: "confined idx m (m\<lparr>sx_os := s\<rparr>)" and fl: "flat (fa_base (sx_armor m)) s"
    and snd: "sec_sound E (m\<lparr>sx_os := s\<rparr>) idx"
    and st: "\<And>sec. stored_sec E (m\<lparr>sx_os := s\<rparr>) idx = Some sec \<Longrightarrow>
      sc_id sec = sec_id_of E hk idx \<and> sc_idx sec = idx \<and> os_file s (data_path E m idx) \<noteq> None"
    and cc: "\<And>sec. map_of (lmap (sx_cache m)) idx = Some sec \<Longrightarrow>
      pend' idx = Some sec \<or> pend' idx = None \<and> stored_sec E (m\<lparr>sx_os := s\<rparr>) idx = Some sec"
    and h: "\<And>h. map_of (sx_datas m) idx = Some h \<Longrightarrow> os_ino s (data_path E m idx) = Some (fh_ino h) \<or>
      os_file s (data_path E m idx) = None \<and> stored_sec E (m\<lparr>sx_os := s\<rparr>) idx = None"
    and p: "\<And>i. i \<noteq> idx \<Longrightarrow> pend' i = pend i"
  shows "inv pend' (m\<lparr>sx_os := s\<rparr>)"
proof -
  let ?m = "m\<lparr>sx_os := s\<rparr>"
  note hk = inv_parts(8) [OF m] and o = confined_other [OF c _ i]
  have "j < N \<and> (pend' j = Some x \<or> pend' j = None \<and> stored_sec E ?m j = Some x)" if "map_of (lmap (sx_cache m)) j = Some x" for j x
    using inv_cached [OF m that] cc [of x] p [of j] o(1) [OF hk, of j] that by (cases "j = idx") auto
  moreover have "j < N \<and> (os_ino s (data_path E m j) = Some (fh_ino x) \<or> os_file s (data_path E m j) = None \<and> stored_sec E ?m j = None)"
    if "map_of (sx_datas m) j = Some x" for j x
    using inv_data [OF m that] h [of x] o(1,3,4) [OF hk, of j] that by (cases "j = idx") auto
  moreover have "sec_sound E ?m j \<and> (\<forall>sec. stored_sec E ?m j = Some sec \<longrightarrow>
      sc_id sec = sec_id_of E hk j \<and> sc_idx sec = j \<and> os_file s (data_path E m j) \<noteq> None)" if "j < N" for j
    using inv_sec [OF m that] snd st o(1,2,3) [OF hk that] by (cases "j = idx") auto
  ultimately show ?thesis
    unfolding mgr_inv_def upd_views(3) using inv_parts [OF m] fl by simp
qed

subsection \<open>Saving a sector\<close>

lemma put_sector_ok:
  assumes m: "inv pend m" and c: "map_of (lmap (sx_cache m)) idx = Some old"
  shows "inv (pend(idx \<mapsto> sec)) (put_sector idx sec m)" "map_of (lmap (sx_cache (put_sector idx sec m))) idx = Some sec"
    "same_files m (put_sector idx sec m)" "sx_datas (put_sector idx sec m) = sx_datas m" "sx_os (put_sector idx sec m) = sx_os m"
proof -
  let ?L = "map (\<lambda>(k, v). (k, if k = idx then sec else v)) (lmap (sx_cache m))"
  have mo: "map_of ?L = (map_of (lmap (sx_cache m)))(idx \<mapsto> sec)" using c by (intro map_of_put) simp
  have "total count_meter ?L = total count_meter (lmap (sx_cache m))"
    by (simp add: total_def count_meter_def comp_def split_beta)
  then have "lru_ok count_meter ((sx_cache m)\<lparr>lmap := ?L\<rparr>)"
    using inv_parts(3) [OF m] by (simp add: lru_ok_def keys_put del: map_map)
  moreover have "j < N \<and> ((pend(idx \<mapsto> sec)) j = Some x \<or> (pend(idx \<mapsto> sec)) j = None \<and> stored_sec E m j = Some x)"
    if "map_of ?L j = Some x" for j x
    using that inv_cached [OF m, of j x] inv_cached [OF m c] unfolding mo by (cases "j = idx") auto
  ultimately show "inv (pend(idx \<mapsto> sec)) (put_sector idx sec m)"
    using inv_parts [OF m] unfolding put_sector_def by (intro inv_cache [OF m]) simp_all
  show "map_of (lmap (sx_cache (put_sector idx sec m))) idx = Some sec" using mo by (simp add: put_sector_def)
qed (simp_all add: put_sector_def same_files_def same_cfg_def)

lemma inv_settled:
  assumes "inv pend m" and "\<And>sec. map_of (lmap (sx_cache m)) idx = Some sec \<Longrightarrow> stored_sec E m idx = Some sec"
  shows "inv (pend(idx := None)) m"
  using assms inv_cached [OF assms(1)] unfolding mgr_inv_def by (auto simp del: map_of_eq_Some_iff)

lemma stored_arm:
  assumes "items.stored (sx_armor m) (sx_os m) a (sec_id_of E hk idx) = Some j" and "sx_hash_key m = hk"
  shows "\<exists>old. stored_sec E m idx = Some old \<and> sc_seq j \<le> sc_seq old"
  using assms by (cases a) (auto simp: stored_sec_def file_item_def sector_items_def split: option.splits)

lemma save_core:
  assumes m: "inv pend m" and i: "idx < N" and sec: "sc_id sec = sec_id_of E hk idx"
    and seq: "\<And>old. stored_sec E m idx = Some old \<Longrightarrow> sc_seq old \<le> sc_seq sec"
  obtains s where "save_item (sec_ops E m) (sx_os m) sec = (Ok (), bump sec, s)" "confined idx m (m\<lparr>sx_os := s\<rparr>)"
    "flat (fa_base (sx_armor m)) s" "sec_sound E (m\<lparr>sx_os := s\<rparr>) idx" "stored_sec E (m\<lparr>sx_os := s\<rparr>) idx = Some (bump sec)"
    "\<And>q. q \<in> {data_path E m idx, shrink_path m idx} \<Longrightarrow> os_file s q = os_file (sx_os m) q"
    "\<And>q. q \<in> {data_path E m idx, shrink_path m idx} \<Longrightarrow> os_ino s q = os_ino (sx_os m) q"
    "\<And>q. is_os_dir (sx_os m) q \<Longrightarrow> is_os_dir s q"
proof -
  note pt = inv_parts [OF m]
  let ?I = "sector_items (sn_ser E) (sn_deser E)" and ?fa = "sx_armor m" and ?e = "sec_id_of E hk idx"
  have id: "it_id ?I sec = ?e" using sec by (simp add: sector_items_def)
  have sd: "items.sound ?fa (sx_os m) (it_id ?I sec)" using inv_sec(1) [OF m i] pt(8) id by simp
  have le: "it_seq ?I j \<le> it_seq ?I sec" if "items.stored ?fa (sx_os m) a (it_id ?I sec) = Some j" for a j
    using stored_arm [of m a idx j] that id pt(8) seq by (fastforce simp: sector_items_def)
  have mem: "it_id ?I sec \<in> ids" using id sid_in [OF i] by simp
  obtain j s where j: "save_item (items.A ?fa) (sx_os m) sec = (Ok (), j, s)"
    "j = it_set_arm ?I (arm_other (it_arm ?I sec)) (it_inc_seq ?I sec)" and s: "flat (fa_base ?fa) s"
    "only_slot (items.path ?fa (it_arm ?I j) (it_id ?I sec)) (sx_os m) s" "items.sound ?fa s (it_id ?I sec)"
    "items.item ?fa s (it_id ?I sec) = Some j" "\<And>q. is_os_dir (sx_os m) q \<Longrightarrow> is_os_dir s q"
    by (rule items.save_ok [OF pt(2) sd mem le]) blast+
  have jb: "j = bump sec" using j(2) by (simp add: sector_items_def bump_def)
  note j = j(1) [unfolded jb] and s = s [unfolded jb id]
  have "os_ino s q = os_ino (sx_os m) q \<and> os_file s q = os_file (sx_os m) q" if "q \<notin> own m idx" for q
    using s(2) that pt(8) by (auto simp: only_slot_def own_def)
  then have "confined idx m (m\<lparr>sx_os := s\<rparr>)" by (simp add: confined_def same_cfg_def)
  moreover have "q \<noteq> items.path ?fa a ?e" if "q \<in> {data_path E m idx, shrink_path m idx}" for q a
    using that by (auto simp: arm_path_def ext_path_neq ext_path_neq [symmetric] data_path_def shrink_path_def)
  then have "os_file s q = os_file (sx_os m) q" "os_ino s q = os_ino (sx_os m) q" if "q \<in> {data_path E m idx, shrink_path m idx}" for q
    using s(2) that by (simp_all add: only_slot_def)
  ultimately show ?thesis using j s pt(8) by (intro that [of s]) (simp_all add: sec_ops_def stored_sec_def)
qed

lemma save_sector_ok:
  assumes m: "inv pend m" and i: "idx < N" and c: "map_of (lmap (sx_cache m)) idx = Some sec"
    and sec: "sc_id sec = sec_id_of E hk idx" "sc_idx sec = idx" and d: "os_file (sx_os m) (data_path E m idx) = Some d"
    and seq: "\<And>old. stored_sec E m idx = Some old \<Longrightarrow> sc_seq old \<le> sc_seq sec"
  obtains m' where "save_sector E idx m = (Ok (), m')" "inv (pend(idx := None)) m'" "confined idx m m'"
    "sec_view E m' idx = Some (bump sec, d)" "sx_datas m' = sx_datas m"
proof -
  obtain m1 where r: "refresh_sector E idx m = (Ok sec, m1)" "inv pend m1" "same_files m m1"
    "map_of (lmap (sx_cache m1)) = map_of (lmap (sx_cache m))" "sx_datas m1 = sx_datas m" "sx_os m1 = sx_os m"
    by (rule refresh_ok [OF m c])
  note sf = same_files_simps [OF r(3)]
  obtain s where s: "save_item (sec_ops E m1) (sx_os m1) sec = (Ok (), bump sec, s)" "confined idx m1 (m1\<lparr>sx_os := s\<rparr>)"
    "flat (fa_base (sx_armor m1)) s" "sec_sound E (m1\<lparr>sx_os := s\<rparr>) idx" "stored_sec E (m1\<lparr>sx_os := s\<rparr>) idx = Some (bump sec)"
    "\<And>q. q \<in> {data_path E m1 idx, shrink_path m1 idx} \<Longrightarrow> os_file s q = os_file (sx_os m1) q"
    "\<And>q. q \<in> {data_path E m1 idx, shrink_path m1 idx} \<Longrightarrow> os_ino s q = os_ino (sx_os m1) q"
    by (rule save_core [OF r(2) i sec(1)]) (use seq sf(2) in auto)
  let ?m2 = "m1\<lparr>sx_os := s\<rparr>" and ?p = "pend(idx \<mapsto> sec)"
  have df: "os_file s (data_path E m1 idx) = Some d" "os_ino s (data_path E m1 idx) = os_ino (sx_os m1) (data_path E m1 idx)"
    using s(6,7) d r(6) sf(1) by simp_all
  have i2: "inv ?p ?m2"
  proof (rule inv_confined [OF r(2) i s(2,3,4)])
    show "os_ino s (data_path E m1 idx) = Some (fh_ino h) \<or> os_file s (data_path E m1 idx) = None \<and> stored_sec E ?m2 idx = None"
      if "map_of (sx_datas m1) idx = Some h" for h
      using inv_data [OF r(2) that] df d sf(1) r(6) by (auto simp: os_file_None)
  qed (use s(5) df sec c r(4) in auto)
  have c2: "map_of (lmap (sx_cache ?m2)) idx = Some sec" using c r(4) by simp
  note p = put_sector_ok [OF i2 c2, of "bump sec"]
  let ?m3 = "put_sector idx (bump sec) ?m2"
  have "stored_sec E ?m3 idx = Some (bump sec)" using same_files_simps(2) [OF p(3)] s(5) by simp
  then have "inv ((?p(idx \<mapsto> bump sec))(idx := None)) ?m3" by (intro inv_settled [OF p(1)]) (use p(2) in simp)
  then have i3: "inv (pend(idx := None)) ?m3" by simp
  have "confined idx m ?m3" using confined_trans [OF confined_trans [OF same_confined [OF r(3)] s(2)] same_confined [OF p(3)]] .
  moreover have "sec_view E ?m3 idx = Some (bump sec, d)"
    using same_files_view(1) [OF p(3)] s(5) df by (simp add: sec_view_def upd_views)
  moreover have "save_sector E idx m = (Ok (), ?m3)" using r(1) s(1) by (simp add: save_sector_def)
  ultimately show ?thesis using i3 p(4) r(5) by (intro that [of ?m3]) simp_all
qed

text \<open>A change of the data files of a sector.\<close>

lemma data_change:
  assumes m: "inv pend m" and i: "idx < N" and fl: "flat (fa_base (sx_armor m)) s"
    and q: "\<And>q. q \<noteq> data_path E m idx \<Longrightarrow> q \<noteq> shrink_path m idx \<Longrightarrow> os_ino s q = os_ino (sx_os m) q \<and> os_file s q = os_file (sx_os m) q"
    and d: "os_file s (data_path E m idx) \<noteq> None"
    and h: "\<And>h. map_of (sx_datas m) idx = Some h \<Longrightarrow> os_ino s (data_path E m idx) = Some (fh_ino h)"
  shows "inv pend (m\<lparr>sx_os := s\<rparr>)" "confined idx m (m\<lparr>sx_os := s\<rparr>)" "stored_sec E (m\<lparr>sx_os := s\<rparr>) idx = stored_sec E m idx"
proof -
  let ?m = "m\<lparr>sx_os := s\<rparr>" and ?e = "sec_id_of E hk idx"
  note hk = inv_parts(8) [OF m]
  have "items.path (sx_armor m) a ?e \<noteq> data_path E m idx" "items.path (sx_armor m) a ?e \<noteq> shrink_path m idx" for a
    by (simp_all add: arm_path_def ext_path_neq [symmetric] data_path_def shrink_path_def)
  then have f: "os_file s (items.path (sx_armor m) a ?e) = os_file (sx_os m) (items.path (sx_armor m) a ?e)" for a
    using q by blast
  have st: "stored_sec E ?m idx = stored_sec E m idx"
    by (simp add: stored_sec_def hk) (rule file_item_cong(1), rule f)
  then show "stored_sec E (m\<lparr>sx_os := s\<rparr>) idx = stored_sec E m idx" .
  have sd: "sec_sound E ?m idx = sec_sound E m idx"
    by (simp add: hk) (rule file_item_cong(2), rule f)
  show c: "confined idx m ?m" using q by (auto simp: confined_def same_cfg_def own_def)
  show "inv pend ?m"
    by (rule inv_confined [OF m i c fl])
      (use st sd inv_sec [OF m i] inv_cached [OF m] d h in \<open>auto simp del: map_of_eq_Some_iff\<close>)
qed

subsection \<open>Shrinking\<close>

lemma shrink_loop_ok:
  assumes "os_ok (sx_os m)" and "os_ino (sx_os m) p = Some (fh_ino src)" and "os_file (sx_os m) p = Some d"
    and "os_ino (sx_os m) q = Some (fh_ino dst)" and "os_file (sx_os m) q = Some pre" and "fh_pos dst = length pre"
    and "p \<noteq> q" and "places_in d bm"
  shows "\<exists>s. shrink_loop E (length d) src dst bm k m = (Ok (renumber bm k, k + live_cnt bm), m\<lparr>sx_os := s\<rparr>) \<and> os_ok s \<and>
    os_ino s = os_ino (sx_os m) \<and> os_file s = (os_file (sx_os m))(q \<mapsto> pre @ gather d bm) \<and> is_os_dir s = is_os_dir (sx_os m)"
  using assms
proof (induction bm arbitrary: m dst pre k)
  case Nil
  then show ?case by (intro exI [of _ "sx_os m"]) (auto simp: live_cnt_def gather_def)
next
  case (Cons o1 bm)
  have pl: "places_in d bm" using Cons.prems(8) by (simp add: places_in_def)
  show ?case
  proof (cases "o1 = BLK_DELETE_MARK")
    case True
    from Cons.IH [OF Cons.prems(1-7) pl, of k] True show ?thesis by (auto simp: live_cnt_def gather_def)
  next
    case False
    let ?b = "take BLK_SIZE (drop (o1 * BLK_SIZE) d)" and ?s = "sx_os m"
    have l: "Suc o1 * BLK_SIZE \<le> length d" using Cons.prems(8) False by (simp add: places_in_def)
    have pos: "0 < BLK_SIZE" by (simp add: BLK_SIZE_def)
    have lb: "length ?b = BLK_SIZE" "?b \<noteq> []" "\<not> length d \<le> o1 * BLK_SIZE" using l pos by auto
    have r: "os_read_exact (o1 * BLK_SIZE) BLK_SIZE src ?s = (Ok ?b, ?s)"
      by (rule os_read_exact_ok [OF Cons.prems(1-3)]) (use l in simp)
    let ?dst = "dst\<lparr>fh_pos := length pre + BLK_SIZE\<rparr>"
    obtain s1 where s1: "os_write_at (length pre) ?b dst ?s = (Ok (if ?b = [] then dst else dst\<lparr>fh_pos := length pre + length ?b\<rparr>), s1)"
      "os_ok s1" "os_ino s1 = os_ino ?s" "os_file s1 = (os_file ?s)(q \<mapsto> (if ?b = [] then pre else os_splice (length pre) ?b pre))"
      "is_os_dir s1 = is_os_dir ?s"
      by (rule os_write_at_ok [OF Cons.prems(1,4,5), of "length pre" ?b])
    have w: "os_write_all ?b dst ?s = (Ok ?dst, s1)" "os_file s1 = (os_file ?s)(q \<mapsto> pre @ ?b)"
      using s1(1,4) lb Cons.prems(6) by (simp_all add: os_write_all_def os_splice_def)
    let ?m = "m\<lparr>sx_os := s1\<rparr>"
    have "\<exists>s. shrink_loop E (length d) src ?dst bm (Suc k) ?m = (Ok (renumber bm (Suc k), Suc k + live_cnt bm), ?m\<lparr>sx_os := s\<rparr>) \<and> os_ok s \<and>
        os_ino s = os_ino (sx_os ?m) \<and> os_file s = (os_file (sx_os ?m))(q \<mapsto> (pre @ ?b) @ gather d bm) \<and> is_os_dir s = is_os_dir (sx_os ?m)"
      using s1(2,3,5) w(2) Cons.prems lb pl by (intro Cons.IH) auto
    then obtain s where s: "shrink_loop E (length d) src ?dst bm (Suc k) ?m = (Ok (renumber bm (Suc k), Suc k + live_cnt bm), m\<lparr>sx_os := s\<rparr>)"
      "os_ok s" "os_ino s = os_ino ?s" "os_file s = (os_file ?s)(q \<mapsto> pre @ ?b @ gather d bm)" "is_os_dir s = is_os_dir ?s"
      using s1(2,3,5) w(2) by auto
    have "shrink_loop E (length d) src dst (o1 # bm) k m = (Ok (renumber (o1 # bm) k, k + live_cnt (o1 # bm)), m\<lparr>sx_os := s\<rparr>)"
      using False lb(3) r w(1) s(1) by (simp add: on_os_def zoom_def io_def conv_s_def live_cnt_def)
    moreover have "gather d (o1 # bm) = ?b @ gather d bm" using False by (simp add: gather_def)
    ultimately show ?thesis using s by auto
  qed
qed

lemma open_cached:
  assumes "inv pend m" and "map_of (lmap (sx_cache m)) idx = Some sec"
  obtains m' where "open_sector E idx cr m = (Ok sec, m')" "inv pend m'" "same_files m m'"
    "map_of (lmap (sx_cache m')) = map_of (lmap (sx_cache m))" "sx_datas m' = sx_datas m" "sx_os m' = sx_os m"
proof -
  obtain m' where "refresh_sector E idx m = (Ok sec, m')" "inv pend m'" "same_files m m'"
    "map_of (lmap (sx_cache m')) = map_of (lmap (sx_cache m))" "sx_datas m' = sx_datas m" "sx_os m' = sx_os m"
    by (rule refresh_ok [OF assms])
  then show ?thesis using assms(2) by (intro that [of m']) (simp_all add: open_sector_def contains_key_def)
qed

lemma shrink_path_facts:
  assumes m: "inv pend m"
  shows "with_ext ''shrink'' (data_path E m idx) = shrink_path m idx" "below (fa_base (sx_armor m)) (shrink_path m idx)"
    "butlast (shrink_path m idx) = butlast (data_path E m idx)" "shrink_path m idx \<noteq> data_path E m idx"
  using ext_path_parent by (simp_all add: data_path_def shrink_path_def with_ext_ext ext_path_below ext_path_inj)

text \<open>Copying the blocks that are left into the file with the extension \<open>shrink\<close>.\<close>

lemma shrink_copy_ok:
  assumes m: "inv pend m" and i: "idx < N" and d: "os_file (sx_os m) (data_path E m idx) = Some d"
    and src: "os_ino (sx_os m) (data_path E m idx) = Some (fh_ino src)" and bm: "places_in d bm"
  obtains h s1 s where "os_open True True (shrink_path m idx) (sx_os m) = (Ok h, s1)"
    "shrink_loop E (length d) src h bm 0 (m\<lparr>sx_os := s1\<rparr>) = (Ok (renumber bm 0, live_cnt bm), m\<lparr>sx_os := s\<rparr>)"
    "inv pend (m\<lparr>sx_os := s\<rparr>)" "confined idx m (m\<lparr>sx_os := s\<rparr>)" "stored_sec E (m\<lparr>sx_os := s\<rparr>) idx = stored_sec E m idx"
    "os_file s (data_path E m idx) = Some d" "os_file s (shrink_path m idx) = Some (gather d bm)"
    "os_ino s (data_path E m idx) = Some (fh_ino src)"
proof -
  let ?p = "data_path E m idx" and ?q = "shrink_path m idx" and ?b = "fa_base (sx_armor m)"
  note pt = inv_parts [OF m] and qf = shrink_path_facts [OF m, of idx]
  have dir: "is_os_dir (sx_os m) (butlast ?q)" using src pt(9) qf(3) by (auto simp: os_ok_def)
  obtain h s1 where s1: "os_open True True ?q (sx_os m) = (Ok h, s1)" "fh_pos h = 0" "os_ok s1" "os_ino s1 ?q = Some (fh_ino h)"
    "\<And>x. x \<noteq> ?q \<Longrightarrow> os_ino s1 x = os_ino (sx_os m) x" "os_file s1 = (os_file (sx_os m))(?q \<mapsto> [])" "is_os_dir s1 = is_os_dir (sx_os m)"
    by (rule os_open_write [OF pt(9) flat_room(1) [OF pt(2) qf(2)] dir, of True]) auto
  have pre: "os_ok (sx_os (m\<lparr>sx_os := s1\<rparr>))" "os_ino (sx_os (m\<lparr>sx_os := s1\<rparr>)) ?p = Some (fh_ino src)"
    "os_file (sx_os (m\<lparr>sx_os := s1\<rparr>)) ?p = Some d" "os_ino (sx_os (m\<lparr>sx_os := s1\<rparr>)) ?q = Some (fh_ino h)"
    "os_file (sx_os (m\<lparr>sx_os := s1\<rparr>)) ?q = Some []" "fh_pos h = length []" "?p \<noteq> ?q"
    using s1 src d qf(4) by auto
  obtain s where s: "shrink_loop E (length d) src h bm 0 (m\<lparr>sx_os := s1\<rparr>) = (Ok (renumber bm 0, live_cnt bm), m\<lparr>sx_os := s\<rparr>)"
    "os_ok s" "os_ino s = os_ino s1" "os_file s = (os_file s1)(?q \<mapsto> gather d bm)" "is_os_dir s = is_os_dir s1"
    using shrink_loop_ok [OF pre bm, of 0] by auto
  have fl: "flat ?b s" using s s1 by (intro flat_change [OF pt(2) s(2) qf(2)]) auto
  have dp: "os_file s ?p = Some d" "os_ino s ?p = os_ino (sx_os m) ?p" using s s1 d qf(4) by auto
  have h: "os_ino s ?p = Some (fh_ino x)" if "map_of (sx_datas m) idx = Some x" for x
    using inv_data [OF m that] dp src d by auto
  have c: "inv pend (m\<lparr>sx_os := s\<rparr>)" "confined idx m (m\<lparr>sx_os := s\<rparr>)" "stored_sec E (m\<lparr>sx_os := s\<rparr>) idx = stored_sec E m idx"
    by (rule data_change [OF m i fl _ _ h]; use s s1 dp in auto)+
  show ?thesis using s1(1) s(1,4) c dp src by (intro that [of h s1 s]) simp_all
qed

text \<open>The rename of the copy, when no open file is cached.\<close>

lemma rename_data_ok:
  assumes m: "inv pend m" and i: "idx < N" and d: "os_file (sx_os m) (data_path E m idx) = Some d"
    and q: "os_file (sx_os m) (shrink_path m idx) = Some g" and n: "map_of (sx_datas m) idx = None"
  obtains s where "os_rename (shrink_path m idx) (data_path E m idx) (sx_os m) = (Ok (), s)"
    "inv pend (m\<lparr>sx_os := s\<rparr>)" "confined idx m (m\<lparr>sx_os := s\<rparr>)" "stored_sec E (m\<lparr>sx_os := s\<rparr>) idx = stored_sec E m idx"
    "os_file s (data_path E m idx) = Some g"
proof -
  let ?p = "data_path E m idx" and ?q = "shrink_path m idx"
  note pt = inv_parts [OF m] and qf = shrink_path_facts [OF m, of idx]
  obtain j where j: "os_ino (sx_os m) ?q = Some j" using q by (auto simp: os_file_def)
  have pb: "below (fa_base (sx_armor m)) ?p" using data_path_below [OF m] pt(1) by simp
  have dir: "is_os_dir (sx_os m) (butlast ?p)" using d pt(9) by (auto simp: os_ok_def os_file_def)
  obtain s where s: "os_rename ?q ?p (sx_os m) = (Ok (), s)" "os_ok s" "os_ino s = (os_ino (sx_os m))(?q := None, ?p \<mapsto> j)"
    "os_file s = (os_file (sx_os m))(?q := None, ?p := os_file (sx_os m) ?q)" "is_os_dir s = is_os_dir (sx_os m)"
    by (rule os_rename_ok [OF pt(9) j flat_room(1) [OF pt(2) pb] dir qf(4)])
  have fl: "flat (fa_base (sx_armor m)) s" using s by (intro flat_change [OF pt(2) s(2) pb]) (auto split: if_splits)
  have "inv pend (m\<lparr>sx_os := s\<rparr>)" "confined idx m (m\<lparr>sx_os := s\<rparr>)" "stored_sec E (m\<lparr>sx_os := s\<rparr>) idx = stored_sec E m idx"
    by (rule data_change [OF m i fl]; use s q n in auto)+
  then show ?thesis using s q by (intro that [of s]) simp_all
qed

lemma remove_handle_ok:
  fixes idx :: nat
  assumes m: "inv pend m"
  defines "m' \<equiv> m\<lparr>sx_datas := lhm_remove (sn_map E) (sx_datas m) idx\<rparr>"
  shows "inv pend m'" "same_files m m'" "map_of (sx_datas m') idx = None" "map_of (sx_datas m') i = Some h \<Longrightarrow> map_of (sx_datas m) i = Some h"
proof -
  let ?D = "lhm_remove (sn_map E) (sx_datas m) idx"
  note d = inv_parts(6,7) [OF m]
  have r: "?D = others (sx_datas m) idx" using d by (simp add: files.remove_others)
  have l: "length ?D < SECTOR_DATA_CACHE_SIZE" using d unfolding r by (meson le_less_trans length_filter_le)
  have mo: "map_of ?D = (map_of (sx_datas m))(idx := None)" using d(1) by (simp add: files.map_of_remove)
  have di: "distinct (keys ?D)" using d(1) by (rule files.remove_distinct)
  have h: "i < N \<and> (os_ino (sx_os m) (data_path E m i) = Some (fh_ino h) \<or>
      os_file (sx_os m) (data_path E m i) = None \<and> stored_sec E m i = None)" if "map_of ?D i = Some h" for i h
    using that inv_data [OF m, of i h] unfolding mo by (simp split: if_splits)
  show "inv pend m'" "same_files m m'" unfolding m'_def by (rule inv_datas [OF m di l h]; assumption)+
  show "map_of (sx_datas m') idx = None" "map_of (sx_datas m') i = Some h \<Longrightarrow> map_of (sx_datas m) i = Some h"
    using mo by (auto simp: m'_def split: if_splits simp del: map_of_eq_Some_iff)
qed

definition shrunk :: "fsector \<Rightarrow> fsector" where
  "shrunk sec = (let k = live_cnt (sc_blk_map sec) * BLK_SIZE
     in sec\<lparr>sc_blk_map := renumber (sc_blk_map sec) 0, sc_actual_size := k, sc_curr_size := k\<rparr>)"

lemma shrunk_fold:
  "sec\<lparr>sc_blk_map := renumber (sc_blk_map sec) 0, sc_actual_size := live_cnt (sc_blk_map sec) * BLK_SIZE,
     sc_curr_size := live_cnt (sc_blk_map sec) * BLK_SIZE\<rparr> = shrunk sec"
  by (simp add: shrunk_def Let_def)

text \<open>\<open>save_item\<close> on a copy of a cached sector.\<close>

lemma save_sec_ok:
  assumes m: "inv pend m" and i: "idx < N" and p: "pend idx = Some old"
    and sec: "sc_id sec = sec_id_of E hk idx" "sc_idx sec = idx" and d: "os_file (sx_os m) (data_path E m idx) \<noteq> None"
    and seq: "\<And>old. stored_sec E m idx = Some old \<Longrightarrow> sc_seq old \<le> sc_seq sec"
  obtains s where "save_sec E sec m = (Ok (bump sec), m\<lparr>sx_os := s\<rparr>)" "inv pend (m\<lparr>sx_os := s\<rparr>)" "confined idx m (m\<lparr>sx_os := s\<rparr>)"
    "stored_sec E (m\<lparr>sx_os := s\<rparr>) idx = Some (bump sec)"
    "\<And>q. q \<in> {data_path E m idx, shrink_path m idx} \<Longrightarrow> os_file s q = os_file (sx_os m) q"
proof -
  obtain s where s: "save_item (sec_ops E m) (sx_os m) sec = (Ok (), bump sec, s)" "confined idx m (m\<lparr>sx_os := s\<rparr>)"
    "flat (fa_base (sx_armor m)) s" "sec_sound E (m\<lparr>sx_os := s\<rparr>) idx" "stored_sec E (m\<lparr>sx_os := s\<rparr>) idx = Some (bump sec)"
    "\<And>q. q \<in> {data_path E m idx, shrink_path m idx} \<Longrightarrow> os_file s q = os_file (sx_os m) q"
    "\<And>q. q \<in> {data_path E m idx, shrink_path m idx} \<Longrightarrow> os_ino s q = os_ino (sx_os m) q"
    by (rule save_core [OF m i sec(1) seq]) auto
  have "inv pend (m\<lparr>sx_os := s\<rparr>)"
  proof (rule inv_confined [OF m i s(2,3,4)])
    show "pend idx = Some x \<or> pend idx = None \<and> stored_sec E (m\<lparr>sx_os := s\<rparr>) idx = Some x"
      if "map_of (lmap (sx_cache m)) idx = Some x" for x using inv_cached [OF m that] p by auto
    show "os_ino s (data_path E m idx) = Some (fh_ino h) \<or> os_file s (data_path E m idx) = None \<and> stored_sec E (m\<lparr>sx_os := s\<rparr>) idx = None"
      if "map_of (sx_datas m) idx = Some h" for h
      using inv_data [OF m that] s(6,7) d by auto
  qed (use s(5,6) sec d in auto)
  moreover have "save_sec E sec m = (Ok (bump sec), m\<lparr>sx_os := s\<rparr>)" using s(1) by (simp add: save_sec_def)
  ultimately show ?thesis using s(2,5,6) by (intro that [of s]) auto
qed

lemma shrink_sector_ok:
  assumes m: "inv pend m" and i: "idx < N" and c: "map_of (lmap (sx_cache m)) idx = Some sec" and p: "pend idx = Some sec"
    and sec: "sc_id sec = sec_id_of E hk idx" "sc_idx sec = idx" and d: "os_file (sx_os m) (data_path E m idx) = Some d"
    and seq: "\<And>old. stored_sec E m idx = Some old \<Longrightarrow> sc_seq old \<le> sc_seq sec"
    and bm: "places_in d (sc_blk_map sec)" "sc_curr_size sec = length d"
  obtains m' where "shrink_sector E idx m = (Ok (), m')" "inv (pend(idx := None)) m'" "confined idx m m'"
    "sec_view E m' idx = Some (bump (shrunk sec), gather d (sc_blk_map sec))"
    "\<And>i x. map_of (sx_datas m') i = Some x \<Longrightarrow> i = idx \<or> map_of (sx_datas m) i \<noteq> None"
proof -
  let ?bm = "sc_blk_map sec"
  obtain m1 where o: "open_sector E idx False m = (Ok sec, m1)" "inv pend m1" "same_files m m1"
    "map_of (lmap (sx_cache m1)) = map_of (lmap (sx_cache m))" "sx_datas m1 = sx_datas m" "sx_os m1 = sx_os m"
    by (rule open_cached [OF m c])
  note sf1 = same_files_simps [OF o(3)]
  have d1: "os_file (sx_os m1) (data_path E m1 idx) = Some d" using d sf1 by simp
  obtain m2 h where f: "open_sector_data E idx False m1 = (Ok h, m2)" "inv pend m2" "same_files m1 m2"
    "os_ino (sx_os m2) (data_path E m1 idx) = Some (fh_ino h)" "sx_cache m2 = sx_cache m1"
    "\<And>i x. map_of (sx_datas m2) i = Some x \<Longrightarrow> i = idx \<or> map_of (sx_datas m1) i \<noteq> None"
    by (rule open_data_found [OF o(2) i d1, of False]) blast
  have sf: "same_files m m2" by (rule same_files_trans [OF o(3) f(3)])
  note sf2 = same_files_simps [OF sf]
  have d2: "os_file (sx_os m2) (data_path E m2 idx) = Some d" "os_ino (sx_os m2) (data_path E m2 idx) = Some (fh_ino h)"
    using d f(4) sf1 sf2 by simp_all
  obtain g s3 s4 where s4: "os_open True True (shrink_path m2 idx) (sx_os m2) = (Ok g, s3)"
    "shrink_loop E (length d) h g ?bm 0 (m2\<lparr>sx_os := s3\<rparr>) = (Ok (renumber ?bm 0, live_cnt ?bm), m2\<lparr>sx_os := s4\<rparr>)"
    "inv pend (m2\<lparr>sx_os := s4\<rparr>)" "confined idx m2 (m2\<lparr>sx_os := s4\<rparr>)" "stored_sec E (m2\<lparr>sx_os := s4\<rparr>) idx = stored_sec E m2 idx"
    "os_file s4 (data_path E m2 idx) = Some d" "os_file s4 (shrink_path m2 idx) = Some (gather d ?bm)"
    by (rule shrink_copy_ok [OF f(2) i d2 bm(1)])
  let ?m4 = "m2\<lparr>sx_os := s4\<rparr>"
  have v4: "data_path E ?m4 = data_path E m2" "shrink_path ?m4 = shrink_path m2" by (simp_all add: upd_views shrink_path_def [abs_def])
  obtain s5 where s5: "save_sec E (shrunk sec) ?m4 = (Ok (bump (shrunk sec)), ?m4\<lparr>sx_os := s5\<rparr>)" "inv pend (?m4\<lparr>sx_os := s5\<rparr>)"
    "confined idx ?m4 (?m4\<lparr>sx_os := s5\<rparr>)" "stored_sec E (?m4\<lparr>sx_os := s5\<rparr>) idx = Some (bump (shrunk sec))"
    "\<And>q. q \<in> {data_path E ?m4 idx, shrink_path ?m4 idx} \<Longrightarrow> os_file s5 q = os_file (sx_os ?m4) q"
    by (rule save_sec_ok [OF s4(3) i p, of "shrunk sec"]) (use sec seq s4(5,6) sf2 in \<open>auto simp: shrunk_def Let_def v4\<close>)
  let ?m5 = "?m4\<lparr>sx_os := s5\<rparr>" and ?p = "pend(idx := None)"
  let ?m6 = "cache_sector E idx (bump (shrunk sec)) ?m5"
  have c6: "inv ?p ?m6" "same_files ?m5 ?m6" "sx_datas ?m6 = sx_datas m2"
    using cache_sector_ok [OF s5(2) i _ s5(4), of ?p] by simp_all
  let ?m7 = "?m6\<lparr>sx_datas := lhm_remove (sn_map E) (sx_datas ?m6) idx\<rparr>"
  note c7 = remove_handle_ok [OF c6(1), of idx]
  have sf7: "same_files ?m5 ?m7" by (rule same_files_trans [OF c6(2) c7(2)])
  note v7 = same_files_simps [OF sf7]
  have cf: "confined idx m ?m7"
    using confined_trans [OF confined_trans [OF confined_trans [OF same_confined [OF sf] s4(4)] s5(3)] same_confined [OF sf7]] .
  have p7: "data_path E ?m7 = data_path E m2" "shrink_path ?m7 = shrink_path m2"
    using same_cfg_paths [of m ?m7 E] own_cfg(2) [of m ?m7] same_cfg_paths [of m m2 E] own_cfg(2) [of m m2]
      confined_cfg [OF cf] sf by (auto simp: same_files_def)
  have d7: "os_file (sx_os ?m7) (data_path E ?m7 idx) = Some d" "os_file (sx_os ?m7) (shrink_path ?m7 idx) = Some (gather d ?bm)"
    using s5(5) s4(6,7) v7(4) unfolding p7 v4 by simp_all
  obtain s8 where s8: "os_rename (shrink_path ?m7 idx) (data_path E ?m7 idx) (sx_os ?m7) = (Ok (), s8)"
    "inv ?p (?m7\<lparr>sx_os := s8\<rparr>)" "confined idx ?m7 (?m7\<lparr>sx_os := s8\<rparr>)"
    "stored_sec E (?m7\<lparr>sx_os := s8\<rparr>) idx = stored_sec E ?m7 idx" "os_file s8 (data_path E ?m7 idx) = Some (gather d ?bm)"
    by (rule rename_data_ok [OF c7(1) i d7 c7(3)])
  let ?m8 = "?m7\<lparr>sx_os := s8\<rparr>"
  have "shrink_sector E idx m = (Ok (), ?m8)"
    using o(1) f(1) s4(1,2) s5(1) s8(1) [unfolded p7] data_path_ok [OF f(2)] bm(2) sec(2)
    by (simp add: shrink_sector_def shrunk_fold on_os_def zoom_def io_def conv_s_def shrink_path_facts [OF f(2)])
  moreover have "sec_view E ?m8 idx = Some (bump (shrunk sec), gather d ?bm)"
  proof (rule sec_viewI)
    show "stored_sec E ?m8 idx = Some (bump (shrunk sec))" using s8(4) v7(2) [of E] s5(4) by (simp only:)
    show "os_file (sx_os ?m8) (data_path E ?m8 idx) = Some (gather d ?bm)" using s8(5) by (simp add: upd_views(3))
  qed
  moreover have "map_of (sx_datas ?m8) j = Some x \<Longrightarrow> j = idx \<or> map_of (sx_datas m) j \<noteq> None" for j x
    using c7(4) [of j x] c6(3) f(6) [of j x] o(5) by simp
  ultimately show ?thesis using s8(2) confined_trans [OF cf s8(3)] by (intro that [of ?m8]) blast+
qed

subsection \<open>Removing a sector\<close>

lemma uncache_ok:
  fixes idx :: nat
  assumes m: "inv pend m"
  defines "m' \<equiv> m\<lparr>sx_cache := snd (lru_remove (sn_lru E) count_meter (sx_cache m) idx)\<rparr>"
  shows "inv (pend(idx := None)) m'" "same_files m m'" "sx_datas m' = sx_datas m" "sx_os m' = sx_os m"
proof -
  let ?c = "snd (lru_remove (sn_lru E) count_meter (sx_cache m) idx)"
  note pt = inv_parts [OF m]
  have "total count_meter (lmap (sx_cache m)) = int (length (lmap (sx_cache m)))"
    by (simp add: total_def count_meter_def comp_def sum_list_triv)
  then have "lru_ok count_meter ?c"
    using pt(3,4) by (intro cache.lru_remove_ok) (simp_all add: count_meter_def SECTOR_CACHE_SIZE_def)
  moreover have mo: "map_of (lmap ?c) = (map_of (lmap (sx_cache m)))(idx := None)" "capacity ?c = capacity (sx_cache m)"
    using pt(3) by (auto simp: lru_remove_def cache.map_of_remove fun_eq_iff split: option.split)
  moreover have "length (lmap ?c) \<le> length (lmap (sx_cache m))"
    using pt(3) by (auto simp: lru_remove_def cache.remove_others split: option.split)
  moreover have "i < N \<and> ((pend(idx := None)) i = Some x \<or> (pend(idx := None)) i = None \<and> stored_sec E m i = Some x)"
    if "map_of (lmap ?c) i = Some x" for i x
    using that inv_cached [OF m, of i x] unfolding mo by (simp split: if_splits)
  ultimately show "inv (pend(idx := None)) m'"
    unfolding m'_def using pt(4,5) by (intro inv_cache [OF m]) simp_all
qed (simp_all add: m'_def same_files_def same_cfg_def)

lemma remove_sector_ok:
  assumes m: "inv pend m" and i: "idx < N" and d: "os_file (sx_os m) (data_path E m idx) = Some d"
  obtains m' where "remove_sector E idx (sec_id_of E hk idx) m = (Ok (), m')" "inv (pend(idx := None)) m'" "confined idx m m'"
    "sec_view E m' idx = None" "os_file (sx_os m') (data_path E m idx) = None" "sx_datas m' = sx_datas m"
proof -
  let ?p = "data_path E m idx" and ?e = "sec_id_of E hk idx" and ?b = "fa_base (sx_armor m)"
  note pt = inv_parts [OF m]
  have pb: "below ?b ?p" using data_path_below [OF m] pt(1) by simp
  obtain s1 where s1: "remove_all_arms (items.A (sx_armor m)) (sx_os m) ?e = (Ok (), s1)" "flat ?b s1"
    "\<And>q. q \<noteq> items.path (sx_armor m) Left ?e \<Longrightarrow> q \<noteq> items.path (sx_armor m) Right ?e \<Longrightarrow>
       os_ino s1 q = os_ino (sx_os m) q \<and> os_file s1 q = os_file (sx_os m) q"
    "items.item (sx_armor m) s1 ?e = None" "items.sound (sx_armor m) s1 ?e"
    by (rule items.remove_ok [OF pt(2) sid_in [OF i]]) blast
  have d1: "os_file s1 ?p = Some d" using s1(3) d data_path_arm by simp
  have ok1: "os_ok s1" using s1(2) by (rule flat_ok)
  let ?s2 = "unname ?p s1"
  note s2 = os_unname [OF ok1, of ?p]
  obtain s3 where s3: "remove_empty_parent_dir ?p ?s2 = (Ok (), s3)" "os_ok s3" "os_ino s3 = os_ino ?s2" "os_file s3 = os_file ?s2"
    "\<forall>p. is_os_dir s3 p \<longrightarrow> is_os_dir ?s2 p"
    using remove_empty_dirs_ok [OF s2(1)] unfolding remove_empty_parent_dir_def by blast
  let ?m = "m\<lparr>sx_os := s3\<rparr>"
  have fl: "flat ?b s3" using s3 s2 by (intro flat_change [OF s1(2) s3(2) pb]) auto
  have q3: "os_ino s3 q = os_ino s1 q \<and> os_file s3 q = os_file s1 q" if "q \<noteq> ?p" for q
    using that s3(3,4) s2(2) by (simp add: unname_ino)
  have "os_ino s3 q = os_ino (sx_os m) q \<and> os_file s3 q = os_file (sx_os m) q" if "q \<notin> own m idx" for q
    using q3 [of q] s1(3) [of q] that pt(8) by (auto simp: own_def)
  then have c: "confined idx m ?m" by (simp add: confined_def same_cfg_def)
  have af: "os_file s3 (items.path (sx_armor m) a ?e) = os_file s1 (items.path (sx_armor m) a ?e)" for a
    using q3 [OF data_path_arm [symmetric]] by simp
  have "items.item (sx_armor m) s3 ?e = items.item (sx_armor m) s1 ?e" "items.sound (sx_armor m) s3 ?e = items.sound (sx_armor m) s1 ?e"
    by (rule file_item_cong, rule af)+
  then have st: "stored_sec E ?m idx = None" "sec_sound E ?m idx" using s1(4,5) pt(8) by (simp_all add: stored_sec_def)
  have dn: "os_file s3 ?p = None" using s3(4) s2(2) by simp
  let ?pend = "pend(idx := map_of (lmap (sx_cache m)) idx)"
  have i3: "inv ?pend ?m"
    by (rule inv_confined [OF m i c fl st(2)]) (use st(1) dn in auto)
  note u = uncache_ok [OF i3, of idx]
  let ?m' = "?m\<lparr>sx_cache := snd (lru_remove (sn_lru E) count_meter (sx_cache ?m) idx)\<rparr>"
  have "remove_sector E idx ?e m = (Ok (), ?m')"
    using s1(1) d1 ok1 s3(1) data_path_ok [of pend "m\<lparr>sx_os := s1\<rparr>"] data_path_ok [OF m]
    by (simp add: remove_sector_def sec_ops_def on_os_def zoom_def io_def conv_s_def os_remove_file_ok sector_data_path_def
        sector_idx_to_id_def)
  moreover have "sec_view E ?m' idx = None" unfolding same_files_view(1) [OF u(2)] using st(1) by (simp add: sec_view_def)
  moreover have "inv (pend(idx := None)) ?m'" using u(1) by simp
  ultimately show ?thesis
    using confined_trans [OF c same_confined [OF u(2)]] dn u(3,4) by (intro that [of ?m']) simp_all
qed

subsection \<open>Blocks after a change of one sector\<close>

lemma mult_less_Suc: "i * n < w \<Longrightarrow> w < Suc i * n \<Longrightarrow> j * n \<le> w \<Longrightarrow> w < Suc j * n \<Longrightarrow> i = j"
  by (metis div_nat_eqI less_imp_le mult.commute)

lemma ok_update:
  assumes m: "ok w m" and m': "inv Map.empty m'" and c: "confined idx m m'" and i: "idx < N"
    and w: "w' = w \<or> idx * sn_blks E \<le> w \<and> w < Suc idx * sn_blks E \<and> w \<le> w' \<and> w' \<le> Suc idx * sn_blks E"
    and v: "case sec_view E m' idx of
        None \<Rightarrow> os_file (sx_os m') (data_path E m idx) = None \<and> (w' \<le> idx * sn_blks E \<or> Suc idx * sn_blks E \<le> w')
      | Some (sec, d) \<Rightarrow> sector_at (sn_blks E) w' idx sec d"
    and h: "\<And>i x. map_of (sx_datas m') i = Some x \<Longrightarrow> i = idx \<and> idx * sn_blks E < w' \<or> map_of (sx_datas m) i \<noteq> None"
  shows "ok w' m'"
proof -
  let ?n = "sn_blks E"
  note hk = inv_parts(8) [OF ok_inv [OF m]] and o = confined_other [OF c _ i]
  have dp: "data_path E m' = data_path E m" using confined_cfg [OF c] by (rule same_cfg_paths)
  have wN: "w' \<le> N * ?n" using w m mult_le_mono1 [of "Suc idx" N ?n] i by (auto simp: sectors_ok_def)
  have ww: "w \<le> w'" using w by auto
  have other: "case sec_view E m' j of
        None \<Rightarrow> os_file (sx_os m') (data_path E m' j) = None \<and> (w' \<le> j * ?n \<or> Suc j * ?n \<le> w')
      | Some (sec, d) \<Rightarrow> sector_at ?n w' j sec d" if j: "j < N" "j \<noteq> idx" for j
  proof (cases "sec_view E m j")
    case None
    have "w' \<le> j * ?n" if "w \<le> j * ?n" "w' \<noteq> w"
    proof -
      have "\<not> Suc j * ?n \<le> idx * ?n" using w that blks(1) by auto
      then have "idx < j" using j(2) mult_le_mono1 [of "Suc j" idx ?n] by (meson Suc_leI linorder_neqE_nat)
      then show ?thesis using w that(2) mult_le_mono1 [of "Suc idx" j ?n] by simp
    qed
    then show ?thesis using ok_no_view(2,3) [OF m j(1) None] None o(3,5) [OF hk j] ww unfolding dp by fastforce
  next
    case (Some sd)
    then obtain sec d where sd: "sec_view E m j = Some (sec, d)" by (cases sd) simp
    note at = ok_view(3) [OF m j(1) sd]
    have "sector_at ?n w' j sec d"
    proof (cases "is_finished sec")
      case True
      then show ?thesis using at ww by (auto simp: sector_at_def)
    next
      case False
      then have "w' = w" using at w mult_less_Suc [of j ?n w idx] j(2) by (auto simp: sector_at_def)
      with at show ?thesis by simp
    qed
    then show ?thesis using o(5) [OF hk j] sd by simp
  qed
  have "i * ?n < w'" if "map_of (sx_datas m') i = Some x" for i x
    using h [OF that] m ww unfolding sectors_ok_def by (metis less_le_trans not_None_eq)
  moreover have "case sec_view E m' j of
        None \<Rightarrow> os_file (sx_os m') (data_path E m' j) = None \<and> (w' \<le> j * ?n \<or> Suc j * ?n \<le> w')
      | Some (sec, d) \<Rightarrow> sector_at ?n w' j sec d" if "j < N" for j
  proof (cases "j = idx")
    case True
    show ?thesis using v unfolding dp True .
  qed (use other that in blast)
  ultimately show ?thesis using m' wN unfolding sectors_ok_def by blast
qed

lemma blk_elsewhere:
  assumes m: "ok w m" and c: "confined idx m m'" and i: "idx < N" and b: "b < N * sn_blks E" "b div sn_blks E \<noteq> idx"
  shows "sec_blk E m' b = sec_blk E m b"
proof -
  have "b div sn_blks E < N" using b(1) by (simp add: less_mult_imp_div_less)
  then show ?thesis
    using confined_other(5) [OF c inv_parts(8) [OF ok_inv [OF m]] i _ b(2)] by (simp add: sec_blk_def)
qed

lemma shrunk_at:
  assumes wf: "sector_wf (sn_blks E) sec d" and f: "is_finished sec" and l: "0 < live_cnt (sc_blk_map sec)"
  defines "g \<equiv> gather d (sc_blk_map sec)"
  shows "sector_wf (sn_blks E) (shrunk sec) g" "is_finished (shrunk sec)" "places_in d (sc_blk_map sec)" "sc_curr_size sec = length d"
    "\<And>j. j < sn_blks E \<Longrightarrow> blk_at (sc_blk_map (shrunk sec)) g j = blk_at (sc_blk_map sec) d j"
proof -
  let ?bm = "sc_blk_map sec"
  show pl: "places_in d ?bm" and "sc_curr_size sec = length d" using wf f by (auto simp: sector_wf_def places_in_def)
  have bm: "0 + length ?bm \<le> BLK_DELETE_MARK" "length ?bm = sn_blks E" using wf blks(2) by (simp_all add: sector_wf_def)
  have lg: "length g = live_cnt ?bm * BLK_SIZE" using length_gather [OF pl] by (simp add: g_def)
  show fin: "is_finished (shrunk sec)" using l by (simp add: is_finished_def shrunk_def Let_def BLK_SIZE_def)
  have "o1 = BLK_DELETE_MARK \<or> Suc o1 * BLK_SIZE \<le> length g" if "o1 \<in> set (renumber ?bm 0)" for o1
    using renumber_bound [OF that] unfolding lg by (metis Suc_leI add_0 mult_le_mono1)
  moreover have "live_cnt (renumber ?bm 0) = live_cnt ?bm" "adjacent (renumber ?bm 0)"
    using renumber_live_cnt [OF bm(1)] adjacent_renumber [OF bm(1)] by simp_all
  moreover have sh: "sc_blk_map (shrunk sec) = renumber ?bm 0" "sc_actual_size (shrunk sec) = length g" "sc_curr_size (shrunk sec) = length g"
    by (simp_all add: shrunk_def Let_def lg)
  ultimately show "sector_wf (sn_blks E) (shrunk sec) g" unfolding sector_wf_def using bm(2) fin lg by (simp add: mult.commute)
  fix j assume "j < sn_blks E"
  then show "blk_at (sc_blk_map (shrunk sec)) g j = blk_at ?bm d j"
    using blk_at_renumber [OF pl bm(1), of "[]" j] bm(2) sh(1) by (simp add: g_def)
qed

lemma live_cnt_0: "live_cnt m = 0 \<Longrightarrow> i < length m \<Longrightarrow> m ! i = BLK_DELETE_MARK"
  by (auto simp: live_cnt_def filter_empty_conv)

lemma in_sector_mod:
  assumes "in_sector sp" and "b div sn_blks E = sp_begin sp div sn_blks E"
  shows "b \<in> set (span_blocks sp) \<longleftrightarrow>
    sp_begin sp mod sn_blks E \<le> b mod sn_blks E \<and> b mod sn_blks E < sp_begin sp mod sn_blks E + sp_cnt sp"
proof -
  have "b = sp_begin sp div sn_blks E * sn_blks E + b mod sn_blks E" using assms(2) by (metis div_mult_mod_eq)
  moreover have "sp_begin sp = sp_begin sp div sn_blks E * sn_blks E + sp_begin sp mod sn_blks E" by simp
  ultimately show ?thesis unfolding span_blocks_def span_end_def by (metis (no_types, lifting) add.assoc add_le_cancel_left add_less_cancel_left atLeastLessThan_iff set_upt)
qed

text \<open>Deleting the blocks of a span within one sector.\<close>

lemma del_sector_ok:
  assumes m: "ok w m" and sp: "in_sector sp" "span_end sp \<le> N * sn_blks E"
  obtains m' where "del_sector E sp m = (Ok (), m')" "ok w m'"
    "\<And>b. b < N * sn_blks E \<Longrightarrow> sec_blk E m' b = (if b \<in> set (span_blocks sp) then None else sec_blk E m b)"
proof -
  let ?n = "sn_blks E" and ?idx = "sp_begin sp div sn_blks E" and ?i = "sp_begin sp mod sn_blks E"
  note result = that
  have "sp_begin sp < N * ?n" using sp by (simp add: in_sector_def span_end_def)
  then have i: "?idx < N" by (simp add: less_mult_imp_div_less)
  show ?thesis
  proof (cases "sec_view E m ?idx")
    case None
    have "del_sector E sp m = (Ok (), m)"
      using open_sector_missing [OF ok_inv [OF m] i ok_no_view(1) [OF m i None]]
      by (simp add: del_sector_def Let_def error_eq_plain)
    moreover have "sec_blk E m b = None" if "b \<in> set (span_blocks sp)" for b
      using in_sector_blocks(1) [OF sp(1) that] None by (simp add: sec_blk_def)
    ultimately show ?thesis using m by (intro that [of m]) simp_all
  next
    case (Some sd)
    then obtain sec d where sd: "sec_view E m ?idx = Some (sec, d)" by (cases sd) simp
    note v = ok_view [OF m i sd]
    have wf: "sector_wf ?n sec d" using v(3) by (simp add: sector_at_def)
    obtain m1 where o: "open_sector E ?idx False m = (Ok sec, m1)" "inv Map.empty m1" "same_files m m1"
      "map_of (lmap (sx_cache m1)) ?idx = Some sec" "sx_datas m1 = sx_datas m" "sx_os m1 = sx_os m"
      by (rule open_sector_found [OF ok_inv [OF m] i v(1), of False])
    have sc: "sc_id sec = sec_id_of E hk ?idx" "sc_idx sec = ?idx" using inv_sec(2) [OF ok_inv [OF m] i v(1)] by auto
    obtain sec1 where k: "mark_blocks_deletion ?n sp sec = Ok sec1" "sector_wf ?n sec1 d"
      "is_finished sec1 = is_finished sec" "sc_id sec1 = sc_id sec" "sc_idx sec1 = sc_idx sec" "sc_seq sec1 = sc_seq sec"
      "\<And>j. j < ?n \<Longrightarrow> sc_blk_map sec1 ! j = (if ?i \<le> j \<and> j < ?i + sp_cnt sp then BLK_DELETE_MARK else sc_blk_map sec ! j)"
      by (rule mark_sector_ok [OF wf]) (use sp(1) in \<open>auto simp: in_sector_def\<close>)
    let ?m2 = "put_sector ?idx sec1 m1" and ?p = "Map.empty(?idx \<mapsto> sec1)"
    note p = put_sector_ok [OF o(2,4), of sec1]
    have sf: "same_files m ?m2" by (rule same_files_trans [OF o(3) p(3)])
    note vw = same_files_simps [OF sf]
    have d2: "os_file (sx_os ?m2) (data_path E ?m2 ?idx) = Some d" using v(2) vw(1,4) by simp
    have seq: "sc_seq old \<le> sc_seq sec1" if "stored_sec E ?m2 ?idx = Some old" for old using that vw(2) v(1) k(6) by simp
    have s1: "sc_id sec1 = sec_id_of E hk ?idx" "sc_idx sec1 = ?idx" using sc k(4,5) by simp_all
    have blk1: "blk_at (sc_blk_map sec1) d (b mod ?n) = (if b \<in> set (span_blocks sp) then None else sec_blk E m b)"
      if "b div ?n = ?idx" for b
      using k(7) [of "b mod ?n"] blks(1) in_sector_mod [OF sp(1) that] sd that by (simp add: blk_at_def sec_blk_def)
    have run: "del_sector E sp m = (if \<not> is_finished sec1 then save_sector E ?idx ?m2
        else if sc_actual_size sec1 = 0 then remove_sector E ?idx (sc_id sec1) ?m2
        else if sec_is_shrinkable sec1 then shrink_sector E ?idx ?m2 else save_sector E ?idx ?m2)"
      using o(1) k(1) by (simp add: del_sector_def Let_def)
    text \<open>Every branch changes this sector only, and leaves the blocks that are not marked.\<close>
    have fin: thesis if r: "del_sector E sp m = (Ok (), m')" "inv (?p(?idx := None)) m'" "confined ?idx ?m2 m'"
      and s: "case sec_view E m' ?idx of
        None \<Rightarrow> os_file (sx_os m') (data_path E m ?idx) = None \<and> (w \<le> ?idx * ?n \<or> Suc ?idx * ?n \<le> w)
      | Some (sec, d) \<Rightarrow> sector_at ?n w ?idx sec d"
      and h: "\<And>i x. map_of (sx_datas m') i = Some x \<Longrightarrow> i = ?idx \<and> ?idx * ?n < w \<or> map_of (sx_datas m) i \<noteq> None"
      and b: "\<And>b. b div ?n = ?idx \<Longrightarrow> sec_blk E m' b = blk_at (sc_blk_map sec1) d (b mod ?n)" for m'
    proof -
      have c: "confined ?idx m m'" by (rule confined_trans [OF same_confined [OF sf] r(3)])
      have "ok w m'" using r(2) by (intro ok_update [OF m _ c i _ s h]) auto
      moreover have "sec_blk E m' b = (if b \<in> set (span_blocks sp) then None else sec_blk E m b)" if bN: "b < N * ?n" for b
      proof (cases "b div ?n = ?idx")
        case True
        then show ?thesis using b blk1 by simp
      next
        case False
        then have "b \<notin> set (span_blocks sp)" using in_sector_blocks(1) [OF sp(1)] by blast
        then show ?thesis using blk_elsewhere [OF m c i bN False] by simp
      qed
      ultimately show thesis using r(1) by (intro result [of m'])
    qed
    have datas: "map_of (sx_datas m') i = Some x \<Longrightarrow> i = ?idx \<and> ?idx * ?n < w \<or> map_of (sx_datas m) i \<noteq> None"
      if "sx_datas m' = sx_datas ?m2" for m' i x using that p(4) o(5) by simp
    have at1: "sector_at ?n w ?idx sec1 d" using v(3) k(2) unfolding sector_at_def k(3) by blast
    have save: thesis if "del_sector E sp m = save_sector E ?idx ?m2"
    proof -
      obtain m' where s: "save_sector E ?idx ?m2 = (Ok (), m')" "inv (?p(?idx := None)) m'" "confined ?idx ?m2 m'"
        "sec_view E m' ?idx = Some (bump sec1, d)" "sx_datas m' = sx_datas ?m2"
        by (rule save_sector_ok [OF p(1) i p(2) s1 d2 seq])
      show thesis
        by (rule fin [of m'], use that s at1 datas [OF s(5)] in \<open>simp_all add: sec_blk_def\<close>)
    qed
    show thesis
    proof (cases "is_finished sec1 \<and> (sc_actual_size sec1 = 0 \<or> sec_is_shrinkable sec1)")
      case False
      then show thesis using save run by auto
    next
      case True
      then have w: "Suc ?idx * ?n \<le> w" using at1 by (simp add: sector_at_def)
      then have w': "?idx * ?n < w" using blks(1) by simp
      have act: "sc_actual_size sec1 = BLK_SIZE * live_cnt (sc_blk_map sec1)" "length (sc_blk_map sec1) = ?n"
        using k(2) True by (auto simp: sector_wf_def)
      show thesis
      proof (cases "sc_actual_size sec1 = 0")
        case a0: True
        then have "live_cnt (sc_blk_map sec1) = 0" using act by (simp add: BLK_SIZE_def)
        then have mk: "blk_at (sc_blk_map sec1) d (b mod ?n) = None" for b
          using live_cnt_0 [of "sc_blk_map sec1" "b mod ?n"] act(2) blks(1) by (simp add: blk_at_def)
        obtain m' where s: "remove_sector E ?idx (sec_id_of E hk ?idx) ?m2 = (Ok (), m')" "inv (?p(?idx := None)) m'" "confined ?idx ?m2 m'"
          "sec_view E m' ?idx = None" "os_file (sx_os m') (data_path E ?m2 ?idx) = None" "sx_datas m' = sx_datas ?m2"
          by (rule remove_sector_ok [OF p(1) i d2])
        show thesis
          by (rule fin [of m']) (use s run True a0 s1(1) vw(1) w mk datas [OF s(6)] in \<open>simp_all add: sec_blk_def\<close>)
      next
        case a1: False
        then have l: "0 < live_cnt (sc_blk_map sec1)" using act by (simp add: BLK_SIZE_def)
        note sh = shrunk_at [OF k(2) _ l]
        obtain m' where s: "shrink_sector E ?idx ?m2 = (Ok (), m')" "inv (?p(?idx := None)) m'" "confined ?idx ?m2 m'"
          "sec_view E m' ?idx = Some (bump (shrunk sec1), gather d (sc_blk_map sec1))"
          "\<And>i x. map_of (sx_datas m') i = Some x \<Longrightarrow> i = ?idx \<or> map_of (sx_datas ?m2) i \<noteq> None"
          by (rule shrink_sector_ok [OF p(1) i p(2) _ s1 d2 seq sh(3,4)]) (use True in auto)
        have "sector_at ?n w ?idx (shrunk sec1) (gather d (sc_blk_map sec1))"
          using sh(1,2) True w by (simp add: sector_at_def)
        moreover have "map_of (sx_datas m') i = Some x \<Longrightarrow> i = ?idx \<and> ?idx * ?n < w \<or> map_of (sx_datas m) i \<noteq> None" for i x
          using s(5) [of i x] p(4) o(5) w' by auto
        ultimately show thesis
          using s run True a1 sh(5) blks(1) by (intro fin [of m']) (simp_all add: sec_blk_def)
      qed
    qed
  qed
qed

end

end
