(* ===== verification/Sector_Map.thy ===== *)
theory Sector_Map
  imports Sector_Write
begin

text \<open>
  The sector manager as a map of blocks: blocks are written behind each other, and any block that has
  been written can be read until it is deleted, across sectors and through finishing, shrinking and
  removing them.
\<close>

lemma growing_adjacent:
  assumes "\<And>j. j < length m \<Longrightarrow> m ! j = BLK_DELETE_MARK \<or> m ! j = j"
  shows "adjacent m"
  unfolding adjacent_def using assms by (metis Suc_lessD)

lemma correct_loop_ok:
  assumes "\<forall>i \<in> set is. i < length m" and "\<And>j. j < length m \<Longrightarrow> m ! j = BLK_DELETE_MARK \<or> m ! j = j"
  shows "\<exists>m' k. correct_loop m is = Ok (m', k) \<and> length m' = length m \<and>
    (\<forall>j < length m. m' ! j = (if j \<in> set is then j else m ! j)) \<and> (k = 0 \<longrightarrow> m' = m)"
  using assms
proof (induction "is" arbitrary: m)
  case (Cons i "is")
  show ?case
  proof (cases "m ! i = BLK_DELETE_MARK")
    case True
    let ?m = "m[i := i]"
    have "\<exists>m' k. correct_loop ?m is = Ok (m', k) \<and> length m' = length ?m \<and>
        (\<forall>j < length ?m. m' ! j = (if j \<in> set is then j else ?m ! j)) \<and> (k = 0 \<longrightarrow> m' = ?m)"
      using Cons.prems by (intro Cons.IH) (auto simp: nth_list_update)
    then obtain m' k where "correct_loop ?m is = Ok (m', k)" "length m' = length m"
      "\<forall>j < length m. m' ! j = (if j \<in> set is then j else ?m ! j)" by auto
    with True Cons.prems show ?thesis by (auto simp: nth_r_def nth_list_update)
  next
    case False
    from Cons.IH [of m] Cons.prems obtain m' k where "correct_loop m is = Ok (m', k)" "length m' = length m"
      "\<forall>j < length m. m' ! j = (if j \<in> set is then j else m ! j)" "k = 0 \<longrightarrow> m' = m" by auto
    with False Cons.prems show ?thesis by (auto simp: nth_r_def)
  qed
qed simp

lemma put_blk_map_upt:
  "put_blk_map f [a ..< a + c] bs x =
     (if a \<le> x \<and> x < a + c then Some (take BLK_SIZE (drop ((x - a) * BLK_SIZE) bs)) else f x)"
proof (induction c arbitrary: a f bs)
  case (Suc c)
  have "[a ..< a + Suc c] = a # [Suc a ..< Suc a + c]" by (simp add: upt_conv_Cons)
  then have "put_blk_map f [a ..< a + Suc c] bs x =
      (if Suc a \<le> x \<and> x < Suc a + c then Some (take BLK_SIZE (drop ((x - Suc a) * BLK_SIZE) (drop BLK_SIZE bs)))
       else (f(a \<mapsto> take BLK_SIZE bs)) x)" by (simp only: put_blk_map.simps Suc.IH)
  moreover have "(x - Suc a) * BLK_SIZE + BLK_SIZE = (x - a) * BLK_SIZE" if "Suc a \<le> x"
    using that by (metis Suc_diff_le add.commute diff_Suc_Suc mult_Suc)
  ultimately show ?case by auto
qed auto

lemma put_blk_map_append:
  "put_blk_map f (is @ js) bs = put_blk_map (put_blk_map f is bs) js (drop (length is * BLK_SIZE) bs)"
proof (induction f "is" bs rule: put_blk_map.induct)
  case (2 f i "is" bs)
  then show ?case by (simp add: add.commute fun_upd_def)
qed simp

lemma put_blk_map_take: "put_blk_map f is (take (length is * BLK_SIZE) bs) = put_blk_map f is bs"
proof (induction f "is" bs rule: put_blk_map.induct)
  case (2 f i "is" bs)
  have "take BLK_SIZE (take (length (i # is) * BLK_SIZE) bs) = take BLK_SIZE bs" by simp
  moreover have "drop BLK_SIZE (take (length (i # is) * BLK_SIZE) bs) = take (length is * BLK_SIZE) (drop BLK_SIZE bs)"
    by (simp add: drop_take)
  ultimately show ?case using 2 by (simp only: put_blk_map.simps)
qed simp

text \<open>The blocks that have been written, when \<open>w\<close> is the number of the next one.\<close>

definition sec_blks :: "sec_env \<Rightarrow> nat \<Rightarrow> sector_mgr \<Rightarrow> nat \<rightharpoonup> bytes" where
  "sec_blks E w m = (\<lambda>b. if b < w then sec_blk E m b else None)"

text \<open>Spans that follow each other.\<close>

fun chain :: "nat \<Rightarrow> span list \<Rightarrow> nat \<Rightarrow> bool" where
  "chain a [] b = (a = b)"
| "chain a (sp # sps) b = (sp_begin sp = a \<and> chain (span_end sp) sps b)"

lemma chain_le: "chain a sps b \<Longrightarrow> a \<le> b"
  by (induction sps arbitrary: a) (auto simp: span_end_def intro: order_trans [OF le_add1])

lemma chain_blocks: "chain a sps b \<Longrightarrow> concat (map span_blocks sps) = [a ..< b]"
proof (induction sps arbitrary: a)
  case (Cons sp sps)
  then have "concat (map span_blocks sps) = [span_end sp ..< b]" "span_end sp \<le> b" using chain_le by auto
  moreover have "a \<le> span_end sp" using Cons.prems by (auto simp: span_end_def)
  ultimately show ?case using Cons.prems upt_add_eq_append [of a "span_end sp" "b - span_end sp"] by (simp add: span_blocks_def [of sp])
qed simp

definition within :: "nat \<Rightarrow> span \<Rightarrow> bool" where
  "within n sp \<longleftrightarrow> 0 < sp_cnt sp \<and> sp_begin sp mod n + sp_cnt sp \<le> n"

lemma divide_loop_chain:
  assumes "0 < n" and "0 < sp_cnt sp" and "at = sp_begin sp + n - sp_begin sp mod n"
  shows "\<exists>sps. divide_loop sp at n = Ok sps \<and> chain (sp_begin sp) sps (span_end sp) \<and> (\<forall>s \<in> set sps. within n s)"
  using assms
proof (induction sp "at" n rule: divide_loop.induct)
  case (1 s "at" n)
  have md: "sp_begin s mod n < n" using 1(2) by simp
  have lt: "sp_begin s < at" and am: "at mod n = 0"
  proof -
    show "sp_begin s < at" using md 1(4) by simp
    have "at = (sp_begin s - sp_begin s mod n) + n" using md 1(4) by simp
    also have "\<dots> = (sp_begin s div n + 1) * n" by (simp add: minus_mod_eq_div_mult)
    finally show "at mod n = 0" by simp
  qed
  show ?case
  proof (cases "at < span_end s")
    case True
    let ?r = "\<lparr>sp_begin = sp_begin s, sp_cnt = at - sp_begin s\<rparr>" and ?s = "\<lparr>sp_begin = at, sp_cnt = span_end s - at\<rparr>"
    have sp: "span_split_to s at = Ok (?r, ?s)" using True lt by (simp add: span_split_to_Ok)
    have c: "at < span_end s \<and> n \<noteq> 0" using True 1(2) by simp
    have "\<exists>sps. divide_loop ?s (at + n) n = Ok sps \<and> chain (sp_begin ?s) sps (span_end ?s) \<and> (\<forall>s \<in> set sps. within n s)"
      by (rule 1(1) [OF c sp refl]) (use 1(2) True am in auto)
    then obtain sps where "divide_loop ?s (at + n) n = Ok sps" "chain at sps (span_end s)" "\<forall>s \<in> set sps. within n s"
      using True by (auto simp: span_end_def)
    moreover have "within n ?r" "span_end ?r = at" using lt 1(4) md by (auto simp: within_def span_end_def)
    ultimately show ?thesis using c sp by (simp add: divide_loop.simps [of s])
  next
    case False
    then have "within n s" using 1(3,4) md by (auto simp: within_def span_end_def)
    with False show ?thesis by (simp add: divide_loop.simps [of s])
  qed
qed

lemma divide_by_chain:
  assumes "0 < n"
  obtains sps where "divide_by sp n = Ok sps" "chain (sp_begin sp) sps (span_end sp)" "\<forall>s \<in> set sps. within n s"
proof (cases "sp_cnt sp = 0")
  case True
  then show ?thesis by (intro that [of "[]"]) (auto simp: divide_by_def span_end_def)
next
  case False
  then show ?thesis using divide_loop_chain [OF assms _ refl, of sp] assms that by (auto simp: divide_by_def assert_r_def)
qed

context sector_laws
begin

subsection \<open>Preparing a write\<close>

text \<open>The data file of the sector in which the next block will be.\<close>

lemma open_for_write:
  assumes m: "ok w m" and w: "w < N * sn_blks E"
  defines "idx \<equiv> w div sn_blks E"
  obtains m' h d where "open_sector_data E idx True m = (Ok h, m')" "inv Map.empty m'" "confined idx m m'"
    "os_file (sx_os m') (data_path E m' idx) = Some d" "os_ino (sx_os m') (data_path E m' idx) = Some (fh_ino h)"
    "length d = w mod sn_blks E * BLK_SIZE" "stored_sec E m' idx = stored_sec E m idx"
    "\<And>i x. map_of (sx_datas m') i = Some x \<Longrightarrow> i = idx \<or> map_of (sx_datas m) i \<noteq> None"
    "case sec_view E m idx of None \<Rightarrow> w mod sn_blks E = 0 | Some (sec, d') \<Rightarrow> d' = d \<and> \<not> is_finished sec \<and> sector_wf (sn_blks E) sec d"
proof -
  let ?n = "sn_blks E"
  have i: "idx < N" using w by (simp add: idx_def less_mult_imp_div_less)
  have wd: "idx * ?n + w mod ?n = w" "w < Suc idx * ?n"
    using blks(1) dividend_less_div_times [of ?n w] by (simp_all add: idx_def)
  note i0 = ok_inv [OF m]
  show ?thesis
  proof (cases "sec_view E m idx")
    case (Some sd)
    then obtain sec d where sd: "sec_view E m idx = Some (sec, d)" by (cases sd) simp
    note v = ok_view [OF m i sd]
    have nf: "\<not> is_finished sec" "length d = w mod ?n * BLK_SIZE" "sector_wf ?n sec d"
      using v(3) wd diff_add_inverse [of "idx * ?n" "w mod ?n"] unfolding wd(1) sector_at_def by (auto split: if_splits)
    obtain m' h where o: "open_sector_data E idx True m = (Ok h, m')" "inv Map.empty m'" "same_files m m'"
      "os_ino (sx_os m') (data_path E m idx) = Some (fh_ino h)"
      "\<And>i x. map_of (sx_datas m') i = Some x \<Longrightarrow> i = idx \<or> map_of (sx_datas m) i \<noteq> None"
      by (rule open_data_found [OF i0 i v(2), of True]) blast
    note sf = same_files_simps [OF o(3)]
    show ?thesis
      by (rule that [OF o(1,2) same_confined [OF o(3)], of d]) (use sf v o(4,5) nf sd in auto)
  next
    case None
    note nv = ok_no_view [OF m i None]
    have w0: "w = idx * ?n" "w mod ?n = 0" using nv(3) wd by auto
    have nh: "map_of (sx_datas m) idx = None" using m w0(1) unfolding sectors_ok_def by (metis less_irrefl not_None_eq)
    let ?p = "data_path E m idx"
    obtain s h where s: "new_sector_data E idx True m = (Ok (), m\<lparr>sx_os := s, sx_datas := datas_insert idx h (sx_datas m)\<rparr>)"
      "flat (fa_base (sx_armor m)) s" "os_ino s ?p = Some (fh_ino h)" "\<And>q. q \<noteq> ?p \<Longrightarrow> os_ino s q = os_ino (sx_os m) q"
      "os_file s = (os_file (sx_os m))(?p \<mapsto> (case os_file (sx_os m) ?p of None \<Rightarrow> [] | Some d \<Rightarrow> d))"
      by (rule new_data_ok [OF i0 i nh, of True]) auto
    let ?m1 = "m\<lparr>sx_os := s\<rparr>"
    have c: "inv Map.empty ?m1" "confined idx m ?m1" "stored_sec E ?m1 idx = stored_sec E m idx"
      by (rule data_change [OF i0 i s(2)]; use s nh in auto)+
    note D = datas_insert_ok [OF inv_parts(6,7) [OF i0] nh]
    let ?m2 = "?m1\<lparr>sx_datas := datas_insert idx h (sx_datas m)\<rparr>"
    have h2: "j < N \<and> (os_ino (sx_os ?m1) (data_path E ?m1 j) = Some (fh_ino x) \<or>
        os_file (sx_os ?m1) (data_path E ?m1 j) = None \<and> stored_sec E ?m1 j = None)"
      if "map_of (datas_insert idx h (sx_datas m)) j = Some x" for j x
      using D(4) [OF that] inv_data [OF c(1), of j x] s(3) i by (auto simp: upd_views(3))
    note m2 = inv_datas [OF c(1) D(1,2) h2]
    obtain m' where m': "open_sector_data E idx True ?m2 = (Ok h, m')" "inv Map.empty m'" "same_files ?m2 m'"
      "map_of (sx_datas m') = map_of (sx_datas ?m2)"
      by (rule open_data_known [OF m2(1), where idx = idx and h = h]) (use D(3) in auto)
    have run: "open_sector_data E idx True m = (Ok h, m')"
      using m'(1) s(1) nh D(3) [of h] by (simp add: open_sector_data_def)
    have sf: "same_files ?m1 m'" by (rule same_files_trans [OF m2(2) m'(3)])
    note v = same_files_simps [OF sf]
    show ?thesis
    proof (rule that [OF run m'(2) confined_trans [OF c(2) same_confined [OF sf]], of "[]"])
      show "os_file (sx_os m') (data_path E m' idx) = Some []" using v(1,4) s(5) nv(2) by (simp add: upd_views(3))
      show "os_ino (sx_os m') (data_path E m' idx) = Some (fh_ino h)" using v(1,5) s(3) by (simp add: upd_views(3))
      show "j = idx \<or> map_of (sx_datas m) j \<noteq> None" if "map_of (sx_datas m') j = Some x" for j x
        using that m'(4) D(4) [of h j x] by auto
    qed (use v(2) c(3) w0 None in auto)
  qed
qed

text \<open>Making a sector.\<close>

lemma open_sector_create:
  assumes m: "inv Map.empty m" and i: "idx < N" and st: "stored_sec E m idx = None"
    and d: "os_file (sx_os m) (data_path E m idx) = Some d"
  defines "sec \<equiv> bump (sector_new (sn_blks E) (sec_id_of E hk idx) idx)"
  obtains m' where "open_sector E idx True m = (Ok sec, m')" "inv Map.empty m'" "confined idx m m'"
    "map_of (lmap (sx_cache m')) idx = Some sec" "sx_datas m' = sx_datas m" "sec_view E m' idx = Some (sec, d)"
proof -
  let ?new = "sector_new (sn_blks E) (sec_id_of E hk idx) idx"
  note hk = inv_parts(8) [OF m]
  have nc: "map_of (lmap (sx_cache m)) idx = None" using inv_cached [OF m, of idx] st by (cases "map_of (lmap (sx_cache m)) idx") auto
  obtain s where s: "save_item (sec_ops E m) (sx_os m) ?new = (Ok (), bump ?new, s)" "confined idx m (m\<lparr>sx_os := s\<rparr>)"
    "flat (fa_base (sx_armor m)) s" "sec_sound E (m\<lparr>sx_os := s\<rparr>) idx" "stored_sec E (m\<lparr>sx_os := s\<rparr>) idx = Some (bump ?new)"
    "\<And>q. q \<in> {data_path E m idx, shrink_path m idx} \<Longrightarrow> os_file s q = os_file (sx_os m) q"
    "\<And>q. q \<in> {data_path E m idx, shrink_path m idx} \<Longrightarrow> os_ino s q = os_ino (sx_os m) q"
    by (rule save_core [OF m i, of ?new]) (use st in \<open>auto simp: sector_new_def\<close>)
  let ?m1 = "m\<lparr>sx_os := s\<rparr>"
  have i1: "inv Map.empty ?m1"
  proof (rule inv_confined [OF m i s(2,3,4)])
    show "os_ino s (data_path E m idx) = Some (fh_ino h) \<or> os_file s (data_path E m idx) = None \<and> stored_sec E ?m1 idx = None"
      if "map_of (sx_datas m) idx = Some h" for h using inv_data [OF m that] s(7) d by auto
  qed (use s(5,6) d nc in \<open>auto simp: sector_new_def\<close>)
  have st1: "stored_sec E ?m1 idx = Some sec" using s(5) by (simp add: sec_def)
  let ?m2 = "cache_sector E idx sec ?m1"
  have c: "inv Map.empty ?m2" "map_of (lmap (sx_cache ?m2)) idx = Some sec" "same_files ?m1 ?m2" "sx_datas ?m2 = sx_datas m" "sx_os ?m2 = s"
    using cache_sector_ok [OF i1 i _ st1, of Map.empty] by simp_all
  obtain m' where r: "refresh_sector E idx ?m2 = (Ok sec, m')" "inv Map.empty m'" "same_files ?m2 m'"
    "map_of (lmap (sx_cache m')) = map_of (lmap (sx_cache ?m2))" "sx_datas m' = sx_datas ?m2" "sx_os m' = sx_os ?m2"
    by (rule refresh_ok [OF c(1,2)])
  have ld: "load_sector E idx True m = (Ok (), ?m2)"
    using load_stored [OF m i] st s(1) by (simp add: load_sector_def idx_id [OF hk] ok_or_def error_eq_plain save_sec_def sec_def)
  have "open_sector E idx True m = (Ok sec, m')" using nc ld r(1) by (simp add: open_sector_def contains_key_def)
  moreover have sf: "same_files ?m1 m'" by (rule same_files_trans [OF c(3) r(3)])
  moreover have "sec_view E m' idx = Some (sec, d)"
    unfolding same_files_view(1) [OF sf] using st1 s(6) d by (intro sec_viewI) (simp_all add: upd_views(3))
  ultimately show ?thesis using r c confined_trans [OF s(2) same_confined [OF sf]] by (intro that [of m']) simp_all
qed

lemma view_parts:
  "sec_view E m idx = Some (sec, d) \<Longrightarrow> stored_sec E m idx = Some sec \<and> os_file (sx_os m) (data_path E m idx) = Some d"
  by (auto simp: sec_view_def split: option.splits)

text \<open>Taking back the marks of blocks that are written again.\<close>

lemma correct_ok:
  assumes m: "inv Map.empty m" and i: "idx < N" and c: "map_of (lmap (sx_cache m)) idx = Some sec"
    and v: "sec_view E m idx = Some (sec, d)" and sec: "\<not> is_finished sec" "length (sc_blk_map sec) = sn_blks E"
    and g: "\<And>j. j < sn_blks E \<Longrightarrow> sc_blk_map sec ! j = BLK_DELETE_MARK \<or> sc_blk_map sec ! j = j" and r: "a + cnt \<le> sn_blks E"
  obtains bm k m' sec' where "correct_loop (sc_blk_map sec) [a ..< a + cnt] = Ok (bm, k)" "length bm = sn_blks E"
    "\<And>j. j < sn_blks E \<Longrightarrow> bm ! j = (if a \<le> j \<and> j < a + cnt then j else sc_blk_map sec ! j)"
    "(if 0 < k then save_sector E idx else ret_s ()) (put_sector idx (sec\<lparr>sc_blk_map := bm\<rparr>) m) = (Ok (), m')"
    "inv Map.empty m'" "confined idx m m'" "sec_view E m' idx = Some (sec', d)" "sc_blk_map sec' = bm" "\<not> is_finished sec'"
    "sx_datas m' = sx_datas m"
proof -
  note st = view_parts [OF v]
  have "\<exists>bm k. correct_loop (sc_blk_map sec) [a ..< a + cnt] = Ok (bm, k) \<and> length bm = length (sc_blk_map sec) \<and>
      (\<forall>j < length (sc_blk_map sec). bm ! j = (if j \<in> set [a ..< a + cnt] then j else sc_blk_map sec ! j)) \<and> (k = 0 \<longrightarrow> bm = sc_blk_map sec)"
    using r sec(2) g by (intro correct_loop_ok) auto
  then obtain bm k where bm: "correct_loop (sc_blk_map sec) [a ..< a + cnt] = Ok (bm, k)" "length bm = sn_blks E"
    "\<And>j. j < sn_blks E \<Longrightarrow> bm ! j = (if a \<le> j \<and> j < a + cnt then j else sc_blk_map sec ! j)" "k = 0 \<longrightarrow> bm = sc_blk_map sec"
    using sec(2) by auto
  let ?sec = "sec\<lparr>sc_blk_map := bm\<rparr>" and ?m1 = "put_sector idx (sec\<lparr>sc_blk_map := bm\<rparr>) m"
  note p = put_sector_ok [OF m c, of ?sec]
  note sf = same_files_simps [OF p(3)]
  note sid = inv_sec(2) [OF m i, of sec]
  show ?thesis
  proof (cases "k = 0")
    case True
    then have s: "?sec = sec" using bm(4) by simp
    have "inv (Map.empty(idx \<mapsto> ?sec, idx := None)) ?m1"
      by (rule inv_settled [OF p(1)]) (use p(2) s sf(2) st in simp)
    then have i1: "inv Map.empty ?m1" by simp
    have v1: "sec_view E ?m1 idx = Some (sec, d)" using same_files_view(1) [OF p(3)] v by simp
    show ?thesis
      by (rule that [OF bm(1,2,3) _ i1 same_confined [OF p(3)] v1]) (use True s p(4) sec bm(4) in auto)
  next
    case False
    obtain m' where s: "save_sector E idx ?m1 = (Ok (), m')" "inv (Map.empty(idx \<mapsto> ?sec, idx := None)) m'" "confined idx ?m1 m'"
      "sec_view E m' idx = Some (bump ?sec, d)" "sx_datas m' = sx_datas ?m1"
      by (rule save_sector_ok [OF p(1) i p(2), of d]) (use sid st sf in auto)
    have i1: "inv Map.empty m'" using s(2) by simp
    show ?thesis
      by (rule that [OF bm(1,2,3) _ i1 confined_trans [OF same_confined [OF p(3)] s(3)] s(4)])
        (use False s p(4) sec in \<open>auto simp: is_finished_def\<close>)
  qed
qed

subsection \<open>Finishing a sector\<close>

lemma finish_sector_ok:
  assumes m: "inv Map.empty m" and i: "idx < N" and v: "sec_view E m idx = Some (sec, d)"
    and sec: "length (sc_blk_map sec) = sn_blks E" "length d = sn_blks E * BLK_SIZE" "0 < live_cnt (sc_blk_map sec)"
    and g: "\<And>j. j < sn_blks E \<Longrightarrow> sc_blk_map sec ! j = BLK_DELETE_MARK \<or> sc_blk_map sec ! j = j"
  obtains m' sec' d' where "finish_sector E idx m = (Ok (), m')" "inv Map.empty m'" "confined idx m m'"
    "sec_view E m' idx = Some (sec', d')" "sector_wf (sn_blks E) sec' d'" "is_finished sec'"
    "\<And>j. j < sn_blks E \<Longrightarrow> blk_at (sc_blk_map sec') d' j = blk_at (sc_blk_map sec) d j"
    "\<And>i x. map_of (sx_datas m') i = Some x \<Longrightarrow> i = idx \<or> map_of (sx_datas m) i \<noteq> None"
proof -
  note st = view_parts [OF v]
  obtain m1 where o: "open_sector E idx False m = (Ok sec, m1)" "inv Map.empty m1" "same_files m m1"
    "map_of (lmap (sx_cache m1)) idx = Some sec" "sx_datas m1 = sx_datas m" "sx_os m1 = sx_os m"
    by (rule open_sector_found [OF m i, of sec False]) (use st in auto)
  let ?sec = "sec\<lparr>sc_curr_size := BLK_SIZE * sn_blks E, sc_actual_size := BLK_SIZE * live_cnt (sc_blk_map sec)\<rparr>"
  have fin: "is_finished ?sec" using blks(1) by (simp add: is_finished_def BLK_SIZE_def)
  have "o1 = BLK_DELETE_MARK \<or> Suc o1 * BLK_SIZE \<le> length d" if "o1 \<in> set (sc_blk_map sec)" for o1
  proof -
    obtain j where "j < sn_blks E" "sc_blk_map sec ! j = o1" using \<open>o1 \<in> set _\<close> sec(1) by (auto simp: in_set_conv_nth)
    then show ?thesis using g [of j] unfolding sec(2) by (metis Suc_leI mult_le_mono1)
  qed
  moreover have "adjacent (sc_blk_map sec)" using g sec(1) by (intro growing_adjacent) simp
  ultimately have wf: "sector_wf (sn_blks E) ?sec d"
    using fin sec by (simp add: sector_wf_def mult.commute)
  let ?m2 = "put_sector idx ?sec m1" and ?p = "Map.empty(idx \<mapsto> ?sec)"
  note p = put_sector_ok [OF o(2,4), of ?sec]
  have sf: "same_files m ?m2" by (rule same_files_trans [OF o(3) p(3)])
  note vw = same_files_simps [OF sf]
  have s: "sc_id ?sec = sec_id_of E hk idx" "sc_idx ?sec = idx" using inv_sec(2) [OF m i, of sec] st by auto
  have d2: "os_file (sx_os ?m2) (data_path E ?m2 idx) = Some d" using st vw(1,4) by simp
  have seq: "sc_seq old \<le> sc_seq ?sec" if "stored_sec E ?m2 idx = Some old" for old using that vw(2) st by simp
  have run: "finish_sector E idx m = (if sec_is_shrinkable ?sec then shrink_sector E idx ?m2 else save_sector E idx ?m2)"
    using o(1) by (simp add: finish_sector_def Let_def)
  show ?thesis
  proof (cases "sec_is_shrinkable ?sec")
    case True
    have sh: "places_in d (sc_blk_map ?sec)" "sc_curr_size ?sec = length d" using shrunk_at(3,4) [OF wf fin] sec(3) by simp_all
    obtain m' where r: "shrink_sector E idx ?m2 = (Ok (), m')" "inv (?p(idx := None)) m'" "confined idx ?m2 m'"
      "sec_view E m' idx = Some (bump (shrunk ?sec), gather d (sc_blk_map ?sec))"
      "\<And>i x. map_of (sx_datas m') i = Some x \<Longrightarrow> i = idx \<or> map_of (sx_datas ?m2) i \<noteq> None"
      by (rule shrink_sector_ok [OF p(1) i p(2) _ s d2 seq sh]) auto
    have "sector_wf (sn_blks E) (shrunk ?sec) (gather d (sc_blk_map ?sec))" "is_finished (shrunk ?sec)"
      "\<And>j. j < sn_blks E \<Longrightarrow> blk_at (sc_blk_map (shrunk ?sec)) (gather d (sc_blk_map ?sec)) j = blk_at (sc_blk_map sec) d j"
      using shrunk_at [OF wf fin] sec(3) by simp_all
    then show ?thesis
      using r run True confined_trans [OF same_confined [OF sf] r(3)] p(4) o(5)
      by (intro that [of m' "bump (shrunk ?sec)" "gather d (sc_blk_map ?sec)"]) simp_all
  next
    case False
    obtain m' where r: "save_sector E idx ?m2 = (Ok (), m')" "inv (?p(idx := None)) m'" "confined idx ?m2 m'"
      "sec_view E m' idx = Some (bump ?sec, d)" "sx_datas m' = sx_datas ?m2"
      by (rule save_sector_ok [OF p(1) i p(2) s d2 seq])
    then show ?thesis
      using run False confined_trans [OF same_confined [OF sf] r(3)] p(4) o(5) wf fin
      by (intro that [of m' "bump ?sec" d]) simp_all
  qed
qed

subsection \<open>Writing\<close>

text \<open>The sector when its data have been written: it is growing, and its blocks are those before and the new ones.\<close>

lemma blk_at_append:
  assumes "length d = a * BLK_SIZE" and "length b = cnt * BLK_SIZE" and "j < a + cnt" and "a + cnt \<le> sn_blks E"
    and "bm ! j = (if a \<le> j \<and> j < a + cnt then j else m ! j)" and "m ! j = BLK_DELETE_MARK \<or> m ! j = j"
  shows "blk_at bm (d @ b) j = (if j < a then blk_at m d j else Some (take BLK_SIZE (drop ((j - a) * BLK_SIZE) b)))"
proof (cases "j < a")
  case True
  then have "Suc j * BLK_SIZE \<le> length d" using assms(1) by (metis Suc_leI mult_le_mono1)
  then show ?thesis using True assms(5,6) by (auto simp: blk_at_def Let_def)
next
  case False
  have "Suc j * BLK_SIZE \<le> (a + cnt) * BLK_SIZE" using assms(3) by (metis Suc_leI mult_le_mono1)
  moreover have "j * BLK_SIZE - a * BLK_SIZE = (j - a) * BLK_SIZE" by (simp add: diff_mult_distrib)
  moreover have "a * BLK_SIZE \<le> j * BLK_SIZE" using False by simp
  moreover have "j \<noteq> BLK_DELETE_MARK" using assms(3,4) blks(2) by simp
  ultimately show ?thesis using False assms by (simp add: blk_at_def add_mult_distrib)
qed

lemma write_start_ok:
  assumes m: "ok w m" and sp: "in_sector sp" "sp_begin sp = w" "span_end sp \<le> N * sn_blks E" and b: "length b = bytes_len sp"
  defines "idx \<equiv> w div sn_blks E" and "a \<equiv> w mod sn_blks E"
  obtains m' sec d where
    "write_sector E sp b m = (if span_end sp mod sn_blks E = 0 then finish_sector E idx else ret_s ()) m'"
    "inv Map.empty m'" "confined idx m m'" "sec_view E m' idx = Some (sec, d)" "\<not> is_finished sec"
    "length (sc_blk_map sec) = sn_blks E" "length d = (a + sp_cnt sp) * BLK_SIZE" "sc_blk_map sec ! a = a"
    "\<And>j. j < sn_blks E \<Longrightarrow> sc_blk_map sec ! j = BLK_DELETE_MARK \<or> sc_blk_map sec ! j = j"
    "\<And>x. x div sn_blks E = idx \<Longrightarrow> x < span_end sp \<Longrightarrow> blk_at (sc_blk_map sec) d (x mod sn_blks E) = put_blk_map (sec_blk E m) (span_blocks sp) b x"
    "\<And>i x. map_of (sx_datas m') i = Some x \<Longrightarrow> i = idx \<or> map_of (sx_datas m) i \<noteq> None"
proof -
  let ?n = "sn_blks E"
  have wN: "w < N * ?n" and c0: "0 < sp_cnt sp" and ac: "a + sp_cnt sp \<le> ?n"
    using sp by (auto simp: in_sector_def span_end_def a_def)
  have i: "idx < N" using wN by (simp add: idx_def less_mult_imp_div_less)
  obtain m1 h d where o: "open_sector_data E idx True m = (Ok h, m1)" "inv Map.empty m1" "confined idx m m1"
    "os_file (sx_os m1) (data_path E m1 idx) = Some d" "os_ino (sx_os m1) (data_path E m1 idx) = Some (fh_ino h)"
    "length d = a * BLK_SIZE" "stored_sec E m1 idx = stored_sec E m idx"
    "\<And>i x. map_of (sx_datas m1) i = Some x \<Longrightarrow> i = idx \<or> map_of (sx_datas m) i \<noteq> None"
    "case sec_view E m idx of None \<Rightarrow> a = 0 | Some (sec, d') \<Rightarrow> d' = d \<and> \<not> is_finished sec \<and> sector_wf ?n sec d"
    using open_for_write [OF m wN] unfolding idx_def a_def by blast
  have lb: "length b = sp_cnt sp * BLK_SIZE" "b \<noteq> []" using b c0 by (auto simp: bytes_len_def BLK_SIZE_def)
  let ?p = "data_path E m1 idx"
  obtain s where s: "os_write_at (a * BLK_SIZE) b h (sx_os m1) = (Ok (if b = [] then h else h\<lparr>fh_pos := a * BLK_SIZE + length b\<rparr>), s)" "os_ok s"
    "os_ino s = os_ino (sx_os m1)" "os_file s = (os_file (sx_os m1))(?p \<mapsto> (if b = [] then d else os_splice (a * BLK_SIZE) b d))"
    "is_os_dir s = is_os_dir (sx_os m1)"
    by (rule os_write_at_ok [OF inv_parts(9) [OF o(2)] o(5,4)])
  have f2: "os_file s = (os_file (sx_os m1))(?p \<mapsto> d @ b)" using s(4) lb o(6) by (simp add: os_splice_def)
  let ?m2 = "m1\<lparr>sx_os := s\<rparr>"
  note pt1 = inv_parts [OF o(2)]
  have pb: "below (fa_base (sx_armor m1)) ?p" using data_path_below [OF o(2)] pt1(1) by simp
  have fl: "flat (fa_base (sx_armor m1)) s" using s(5) f2 by (intro flat_change [OF pt1(2) s(2) pb]) auto
  have h2: "os_ino s ?p = Some (fh_ino x)" if "map_of (sx_datas m1) idx = Some x" for x
    using inv_data [OF o(2) that] o(4) s(3) by auto
  have c2: "inv Map.empty ?m2" "confined idx m1 ?m2" "stored_sec E ?m2 idx = stored_sec E m1 idx"
    by (rule data_change [OF o(2) i fl _ _ h2]; use s(3) f2 in auto)+
  have d2: "os_file (sx_os ?m2) (data_path E ?m2 idx) = Some (d @ b)" using f2 by (simp add: upd_views(3))
  text \<open>The sector is loaded or made.\<close>
  obtain m3 sec where p: "open_sector E idx True ?m2 = (Ok sec, m3)" "inv Map.empty m3" "confined idx ?m2 m3"
    "map_of (lmap (sx_cache m3)) idx = Some sec" "sx_datas m3 = sx_datas ?m2" "sec_view E m3 idx = Some (sec, d @ b)" "\<not> is_finished sec"
    "length (sc_blk_map sec) = ?n" "\<And>j. j < ?n \<Longrightarrow> sc_blk_map sec ! j = BLK_DELETE_MARK \<or> sc_blk_map sec ! j = j"
    "\<And>x. x < w \<Longrightarrow> x div ?n = idx \<Longrightarrow> sec_blk E m x = blk_at (sc_blk_map sec) d (x mod ?n)"
  proof (cases "sec_view E m idx")
    case None
    then have "stored_sec E ?m2 idx = None" using ok_no_view(1) [OF m i] c2(3) o(7) by simp
    from open_sector_create [OF c2(1) i this d2] obtain m3 where
      "open_sector E idx True ?m2 = (Ok (bump (sector_new ?n (sec_id_of E hk idx) idx)), m3)" "inv Map.empty m3" "confined idx ?m2 m3"
      "map_of (lmap (sx_cache m3)) idx = Some (bump (sector_new ?n (sec_id_of E hk idx) idx))" "sx_datas m3 = sx_datas ?m2"
      "sec_view E m3 idx = Some (bump (sector_new ?n (sec_id_of E hk idx) idx), d @ b)" by blast
    moreover have "\<not> x < w" if "x div ?n = idx" for x
    proof -
      have "w = idx * ?n" using o(9) None by (simp add: idx_def a_def) (metis add.right_neutral div_mult_mod_eq)
      then show ?thesis using that div_times_less_eq_dividend [of x ?n] by auto
    qed
    ultimately show ?thesis by (intro that [of "bump (sector_new ?n (sec_id_of E hk idx) idx)" m3])
      (simp_all add: sector_new_def is_finished_def bump_def)
  next
    case (Some sd)
    then obtain sec where sd: "sec_view E m idx = Some (sec, d)" "\<not> is_finished sec" "sector_wf ?n sec d"
      using o(9) by (cases sd) auto
    note v = ok_view [OF m i sd(1)]
    have st: "stored_sec E ?m2 idx = Some sec" using c2(3) o(7) v(1) by simp
    obtain m3 where q: "open_sector E idx True ?m2 = (Ok sec, m3)" "inv Map.empty m3" "same_files ?m2 m3"
      "map_of (lmap (sx_cache m3)) idx = Some sec" "sx_datas m3 = sx_datas ?m2"
      by (rule open_sector_found [OF c2(1) i st, of True])
    have "sec_view E m3 idx = Some (sec, d @ b)"
      unfolding same_files_view(1) [OF q(3)] by (rule sec_viewI [OF st d2])
    then show ?thesis
      using q same_confined [OF q(3)] sd by (intro that [of sec m3]) (auto simp: sector_wf_def sec_blk_def)
  qed
  obtain bm k m4 sec' where k: "correct_loop (sc_blk_map sec) [a ..< a + sp_cnt sp] = Ok (bm, k)" "length bm = ?n"
    "\<And>j. j < ?n \<Longrightarrow> bm ! j = (if a \<le> j \<and> j < a + sp_cnt sp then j else sc_blk_map sec ! j)"
    "(if 0 < k then save_sector E idx else ret_s ()) (put_sector idx (sec\<lparr>sc_blk_map := bm\<rparr>) m3) = (Ok (), m4)"
    "inv Map.empty m4" "confined idx m3 m4" "sec_view E m4 idx = Some (sec', d @ b)" "sc_blk_map sec' = bm" "\<not> is_finished sec'"
    "sx_datas m4 = sx_datas m3"
    by (rule correct_ok [OF p(2) i p(4,6,7,8,9) ac]) blast+
  have run: "write_sector E sp b m = (if span_end sp mod ?n = 0 then finish_sector E idx else ret_s ()) m4"
    using o(1) s(1) lb(2) p(1,7) k(1,4)
    unfolding write_sector_def Let_def sp(2) idx_def [symmetric] a_def [symmetric]
    by (simp add: on_os_def zoom_def io_def conv_s_def split del: if_split)
  have cf: "confined idx m m4"
    using confined_trans [OF confined_trans [OF confined_trans [OF o(3) c2(2)] p(3)] k(6)] .
  have "blk_at (sc_blk_map sec') (d @ b) (x mod ?n) = put_blk_map (sec_blk E m) (span_blocks sp) b x"
    if x: "x div ?n = idx" "x < span_end sp" for x
  proof -
    have xw: "x = idx * ?n + x mod ?n" "w = idx * ?n + a" using x(1) by (metis div_mult_mod_eq, simp add: idx_def a_def)
    then have lt: "x < w \<longleftrightarrow> x mod ?n < a" "x - w = x mod ?n - a" "x mod ?n < a + sp_cnt sp"
      using x(2) sp(2) by (auto simp: span_end_def)
    have "blk_at bm (d @ b) (x mod ?n) = (if x mod ?n < a then blk_at (sc_blk_map sec) d (x mod ?n)
        else Some (take BLK_SIZE (drop ((x mod ?n - a) * BLK_SIZE) b)))"
      by (rule blk_at_append [OF o(6) lb(1) lt(3) ac k(3)]) (use p(9) lt(3) ac in auto)
    then show ?thesis
      using p(10) [OF _ x(1)] lt x(2) sp(2) k(8) by (auto simp: span_blocks_def span_end_def put_blk_map_upt)
  qed
  then show ?thesis
    using run k(5) cf k(7,9) k(2,8) lb o(6,8) p(5,9) k(3,10) ac c0
    by (intro that [of m4 sec' "d @ b"]) (simp_all add: add_mult_distrib)
qed

abbreviation blks_of :: "nat \<Rightarrow> sector_mgr \<Rightarrow> nat \<rightharpoonup> bytes" where
  "blks_of \<equiv> sec_blks E"

lemma write_sector_ok:
  assumes m: "ok w m" and sp: "in_sector sp" "sp_begin sp = w" "span_end sp \<le> N * sn_blks E" and b: "length b = bytes_len sp"
  obtains m' where "write_sector E sp b m = (Ok (), m')" "ok (span_end sp) m'"
    "blks_of (span_end sp) m' = put_blk_map (blks_of w m) (span_blocks sp) b"
proof -
  note result = that
  let ?n = "sn_blks E" and ?w = "span_end sp"
  define idx where "idx = w div ?n"
  define a where "a = w mod ?n"
  have c0: "0 < sp_cnt sp" and ac: "a + sp_cnt sp \<le> ?n" and wN: "w < N * ?n" and we: "?w = w + sp_cnt sp"
    using sp by (auto simp: in_sector_def span_end_def a_def)
  have i: "idx < N" using wN by (simp add: idx_def less_mult_imp_div_less)
  have wd: "w = idx * ?n + a" by (simp add: idx_def a_def)
  obtain m1 sec d where s: "write_sector E sp b m = (if ?w mod ?n = 0 then finish_sector E idx else ret_s ()) m1"
    "inv Map.empty m1" "confined idx m m1" "sec_view E m1 idx = Some (sec, d)" "\<not> is_finished sec"
    "length (sc_blk_map sec) = ?n" "length d = (a + sp_cnt sp) * BLK_SIZE" "sc_blk_map sec ! a = a"
    "\<And>j. j < ?n \<Longrightarrow> sc_blk_map sec ! j = BLK_DELETE_MARK \<or> sc_blk_map sec ! j = j"
    "\<And>x. x div ?n = idx \<Longrightarrow> x < ?w \<Longrightarrow> blk_at (sc_blk_map sec) d (x mod ?n) = put_blk_map (sec_blk E m) (span_blocks sp) b x"
    "\<And>i x. map_of (sx_datas m1) i = Some x \<Longrightarrow> i = idx \<or> map_of (sx_datas m) i \<noteq> None"
    using write_start_ok [OF m sp b] unfolding idx_def a_def by blast
  have res: thesis if r: "write_sector E sp b m = (Ok (), m')" "inv Map.empty m'" "confined idx m1 m'" "sec_view E m' idx = Some (sec', d')"
      "sector_at ?n ?w idx sec' d'" "\<And>j. j < ?n \<Longrightarrow> blk_at (sc_blk_map sec') d' j = blk_at (sc_blk_map sec) d j"
      "\<And>i x. map_of (sx_datas m') i = Some x \<Longrightarrow> i = idx \<or> map_of (sx_datas m1) i \<noteq> None" for m' sec' d'
  proof -
    have c: "confined idx m m'" by (rule confined_trans [OF s(3) r(3)])
    have "i = idx \<and> idx * ?n < ?w \<or> map_of (sx_datas m) i \<noteq> None" if "map_of (sx_datas m') i = Some x" for i x
      using r(7) [OF that] s(11) [of i] wd we c0 by auto
    then have "ok ?w m'" using r(2,4,5) wd we ac c0 by (intro ok_update [OF m _ c i]) auto
    moreover have "blks_of ?w m' x = put_blk_map (blks_of w m) (span_blocks sp) b x" for x
    proof (cases "x div ?n = idx")
      case True
      then show ?thesis
        using s(10) [of x] r(4) r(6) [of "x mod ?n"] blks(1) we sp(2)
        by (auto simp: sec_blks_def sec_blk_def span_blocks_def span_end_def put_blk_map_upt)
    next
      case False
      then have "x \<notin> set (span_blocks sp)" using in_sector_blocks(1) [OF sp(1)] sp(2) by (auto simp: idx_def)
      moreover have "sec_blk E m' x = sec_blk E m x" if "x < ?w"
        using blk_elsewhere [OF m c i _ False] that sp(3) by simp
      moreover have "x < ?w \<longleftrightarrow> x < w" using calculation(1) sp(2) we by (auto simp: span_blocks_def)
      ultimately show ?thesis by (simp add: sec_blks_def put_blk_map_other)
    qed
    ultimately show thesis using r(1) by (intro result [of m'] ext)
  qed
  show thesis
  proof (cases "?w mod ?n = 0")
    case False
    have "?w \<noteq> Suc idx * ?n" using False by auto
    then have "sector_at ?n ?w idx sec d"
      using s(5,6,7,9) wd we ac c0 growing_adjacent [of "sc_blk_map sec"] by (auto simp: sector_at_def sector_wf_def)
    then show thesis using False s by (intro res [of m1 sec d]) (auto simp: confined_refl)
  next
    case True
    have fill: "a + sp_cnt sp = ?n"
    proof (rule ccontr)
      assume "\<not> ?thesis"
      then have "a + sp_cnt sp < ?n" using ac by simp
      moreover have "?w = idx * ?n + (a + sp_cnt sp)" using wd we by simp
      ultimately have "?w mod ?n = a + sp_cnt sp" by (metis mod_less mod_mult_self3)
      then show False using True c0 by simp
    qed
    have "0 < live_cnt (sc_blk_map sec)"
    proof (rule ccontr)
      assume "\<not> ?thesis"
      then show False using live_cnt_0 [of "sc_blk_map sec" a] s(6,8) fill c0 blks(2) by simp
    qed
    from finish_sector_ok [OF s(2) i s(4,6) _ this s(9)] fill s(7) obtain m' sec' d' where
      f: "finish_sector E idx m1 = (Ok (), m')" "inv Map.empty m'" "confined idx m1 m'" "sec_view E m' idx = Some (sec', d')"
      "sector_wf ?n sec' d'" "is_finished sec'" "\<And>j. j < ?n \<Longrightarrow> blk_at (sc_blk_map sec') d' j = blk_at (sc_blk_map sec) d j"
      "\<And>i x. map_of (sx_datas m') i = Some x \<Longrightarrow> i = idx \<or> map_of (sx_datas m1) i \<noteq> None" by metis
    then show thesis using True s(1) wd we fill by (intro res [of m' sec' d']) (auto simp: sector_at_def)
  qed
qed

subsection \<open>Spans across sectors\<close>

lemma in_sector_within: "in_sector sp = within (sn_blks E) sp"
  by (simp add: in_sector_def within_def)

lemma chain_ends: "chain a sps e \<Longrightarrow> sp \<in> set sps \<Longrightarrow> span_end sp \<le> e"
  by (induction sps arbitrary: a) (auto dest: chain_le)

lemma read_sectors_ok:
  assumes "ok w m" and "\<forall>sp \<in> set sps. within (sn_blks E) sp" and "\<forall>sp \<in> set sps. span_end sp \<le> w"
  shows "\<exists>m'. read_sectors E sps m = (ok_or (read_blks (sec_blk E m) (concat (map span_blocks sps))) NotFound, m') \<and>
    ok w m' \<and> same_files m m'"
  using assms
proof (induction sps arbitrary: m)
  case Nil
  then show ?case using same_files_refl by (auto simp: ok_or_def)
next
  case (Cons sp sps)
  have sp: "in_sector sp" "span_end sp \<le> w" using Cons.prems in_sector_within by auto
  obtain m1 where r: "read_sector E sp m = (ok_or (read_blks (sec_blk E m) (span_blocks sp)) NotFound, m1)" "ok w m1" "same_files m m1"
    by (rule read_sector_ok [OF Cons.prems(1) sp])
  from Cons.IH [OF r(2)] Cons.prems obtain m2 where
    q: "read_sectors E sps m1 = (ok_or (read_blks (sec_blk E m) (concat (map span_blocks sps))) NotFound, m2)" "ok w m2" "same_files m1 m2"
    unfolding same_files_view(2) [OF r(3)] by auto
  show ?case
  proof (cases "read_blks (sec_blk E m) (span_blocks sp)")
    case None
    then show ?thesis using r by (auto simp: ok_or_def read_blks_append)
  next
    case (Some b)
    then show ?thesis
      using r(1) q same_files_trans [OF r(3) q(3)]
      by (cases "read_blks (sec_blk E m) (concat (map span_blocks sps))") (auto simp: ok_or_def read_blks_append)
  qed
qed

lemma write_sectors_ok:
  assumes "ok w m" and "chain w sps e" and "\<forall>sp \<in> set sps. within (sn_blks E) sp" and "e \<le> N * sn_blks E"
    and "length b = (e - w) * BLK_SIZE"
  shows "\<exists>m'. write_sectors E sps b m = (Ok (), m') \<and> ok e m' \<and> blks_of e m' = put_blk_map (blks_of w m) [w ..< e] b"
  using assms
proof (induction sps arbitrary: w m b)
  case (Cons sp sps)
  let ?l = "bytes_len sp"
  have sp: "in_sector sp" "sp_begin sp = w" "span_end sp \<le> e" using Cons.prems chain_le in_sector_within by auto
  have we: "span_end sp = w + sp_cnt sp" using sp(2) by (simp add: span_end_def)
  then have "e - w = sp_cnt sp + (e - span_end sp)" using sp(3) by simp
  then have l: "length b = ?l + (e - span_end sp) * BLK_SIZE" using Cons.prems(5) by (simp add: bytes_len_def add_mult_distrib)
  obtain m1 where r: "write_sector E sp (take ?l b) m = (Ok (), m1)" "ok (span_end sp) m1"
    "blks_of (span_end sp) m1 = put_blk_map (blks_of w m) (span_blocks sp) (take ?l b)"
    by (rule write_sector_ok [OF Cons.prems(1) sp(1,2), of "take ?l b"]) (use sp(3) Cons.prems(4) l in auto)
  have "\<exists>m'. write_sectors E sps (drop ?l b) m1 = (Ok (), m') \<and> ok e m' \<and>
      blks_of e m' = put_blk_map (blks_of (span_end sp) m1) [span_end sp ..< e] (drop ?l b)"
    using Cons.prems l by (intro Cons.IH [OF r(2)]) auto
  then obtain m' where q: "write_sectors E sps (drop ?l b) m1 = (Ok (), m')" "ok e m'"
    "blks_of e m' = put_blk_map (put_blk_map (blks_of w m) (span_blocks sp) (take ?l b)) [span_end sp ..< e] (drop ?l b)"
    unfolding r(3) by blast
  have "[w ..< e] = span_blocks sp @ [span_end sp ..< e]"
    using chain_blocks [OF Cons.prems(2)] chain_blocks [of "span_end sp" sps e] Cons.prems(2) by simp
  then have "put_blk_map (blks_of w m) [w ..< e] b =
      put_blk_map (put_blk_map (blks_of w m) (span_blocks sp) (take ?l b)) [span_end sp ..< e] (drop ?l b)"
    using put_blk_map_take [of "blks_of w m" "span_blocks sp" b] by (simp add: put_blk_map_append bytes_len_def)
  then show ?case using r(1) q by auto
qed simp

lemma del_sectors_ok:
  assumes "ok w m" and "\<forall>sp \<in> set sps. within (sn_blks E) sp \<and> span_end sp \<le> N * sn_blks E"
  shows "\<exists>m'. for_s (del_sector E) sps m = (Ok (), m') \<and> ok w m' \<and>
    (\<forall>b < N * sn_blks E. sec_blk E m' b = (if b \<in> set (concat (map span_blocks sps)) then None else sec_blk E m b))"
  using assms
proof (induction sps arbitrary: m)
  case (Cons sp sps)
  have sp: "in_sector sp" "span_end sp \<le> N * sn_blks E" using Cons.prems in_sector_within by auto
  obtain m1 where r: "del_sector E sp m = (Ok (), m1)" "ok w m1"
    "\<And>b. b < N * sn_blks E \<Longrightarrow> sec_blk E m1 b = (if b \<in> set (span_blocks sp) then None else sec_blk E m b)"
    by (rule del_sector_ok [OF Cons.prems(1) sp]) blast
  from Cons.IH [OF r(2)] Cons.prems(2) r(1,3) show ?case by auto
qed simp

lemma read_blocks_ok:
  assumes "ok w m" and "span_end sp \<le> w"
  shows "\<exists>m'. read_blocks E sp m = (ok_or (read_blks (blks_of w m) (span_blocks sp)) NotFound, m') \<and> ok w m' \<and> blks_of w m' = blks_of w m"
proof -
  obtain sps where d: "divide_by sp (sn_blks E) = Ok sps" "chain (sp_begin sp) sps (span_end sp)" "\<forall>s \<in> set sps. within (sn_blks E) s"
    by (rule divide_by_chain [OF blks(1)])
  have "\<forall>s \<in> set sps. span_end s \<le> w" using chain_ends [OF d(2)] assms(2) order_trans by blast
  from read_sectors_ok [OF assms(1) d(3) this] obtain m' where
    m': "read_sectors E sps m = (ok_or (read_blks (sec_blk E m) (concat (map span_blocks sps))) NotFound, m')" "ok w m'" "same_files m m'"
    by blast
  have "read_blks (sec_blk E m) (span_blocks sp) = read_blks (blks_of w m) (span_blocks sp)"
    by (rule read_blks_cong) (use assms(2) in \<open>auto simp: sec_blks_def span_blocks_def\<close>)
  moreover have "blks_of w m' = blks_of w m" unfolding sec_blks_def same_files_view(2) [OF m'(3)] ..
  ultimately show ?thesis
    using m' d(1) chain_blocks [OF d(2)] by (simp add: read_blocks_def span_blocks_def)
qed

lemma write_blocks_ok:
  assumes "ok w m" and "sp_begin sp = w" and "span_end sp \<le> N * sn_blks E" and "length b = bytes_len sp"
  shows "\<exists>m'. write_blocks E sp b m = (Ok (), m') \<and> ok (span_end sp) m' \<and>
    blks_of (span_end sp) m' = put_blk_map (blks_of w m) (span_blocks sp) b"
proof -
  obtain sps where d: "divide_by sp (sn_blks E) = Ok sps" "chain (sp_begin sp) sps (span_end sp)" "\<forall>s \<in> set sps. within (sn_blks E) s"
    by (rule divide_by_chain [OF blks(1)])
  have "length b = (span_end sp - w) * BLK_SIZE" using assms(2,4) by (simp add: bytes_len_def span_end_def)
  from write_sectors_ok [OF assms(1) d(2) [unfolded assms(2)] d(3) assms(3) this] show ?thesis
    using d(1) assms(2,4) by (auto simp: write_blocks_def span_blocks_def)
qed

lemma del_blocks_ok:
  assumes "ok w m" and "span_end sp \<le> w"
  shows "\<exists>m'. sec_del_blocks E sp m = (Ok (), m') \<and> ok w m' \<and> blks_of w m' = blks_of w m |` (- set (span_blocks sp))"
proof -
  obtain sps where d: "divide_by sp (sn_blks E) = Ok sps" "chain (sp_begin sp) sps (span_end sp)" "\<forall>s \<in> set sps. within (sn_blks E) s"
    by (rule divide_by_chain [OF blks(1)])
  have wN: "w \<le> N * sn_blks E" using assms(1) by (simp add: sectors_ok_def)
  have "\<forall>s \<in> set sps. within (sn_blks E) s \<and> span_end s \<le> N * sn_blks E"
    using d(3) le_trans [OF le_trans [OF chain_ends [OF d(2)] assms(2)] wN] by blast
  from del_sectors_ok [OF assms(1) this] obtain m' where m': "for_s (del_sector E) sps m = (Ok (), m')" "ok w m'"
    "\<forall>b < N * sn_blks E. sec_blk E m' b = (if b \<in> set (concat (map span_blocks sps)) then None else sec_blk E m b)" by blast
  have "blks_of w m' = blks_of w m |` (- set (span_blocks sp))"
  proof
    fix b
    show "blks_of w m' b = (blks_of w m |` (- set (span_blocks sp))) b"
      using m'(3) [rule_format, of b] wN chain_blocks [OF d(2)] by (simp add: sec_blks_def restrict_map_def span_blocks_def)
  qed
  then show ?thesis using m'(1,2) d(1) by (simp add: sec_del_blocks_def)
qed

lemma divide_by_within:
  assumes "within n sp"
  shows "divide_by sp n = Ok [sp]"
proof -
  have "\<not> sp_begin sp + n - sp_begin sp mod n < span_end sp" using assms by (auto simp: within_def span_end_def)
  then show ?thesis using assms by (auto simp: within_def divide_by_def assert_r_def divide_loop.simps [of sp])
qed

text \<open>A write into a sector that is finished.\<close>

lemma write_finished:
  assumes m: "ok w m" and sp: "within (sn_blks E) sp" "sp_begin sp div sn_blks E < N" and b: "length b = bytes_len sp"
    and v: "sec_view E m (sp_begin sp div sn_blks E) = Some (sec, d)" "is_finished sec"
  shows "\<exists>m'. write_blocks E sp b m = (Panic, m') \<and>
    os_file (sx_os m') (data_path E m (sp_begin sp div sn_blks E)) = Some (os_splice (sp_begin sp mod sn_blks E * BLK_SIZE) b d)"
proof -
  let ?idx = "sp_begin sp div sn_blks E" and ?a = "sp_begin sp mod sn_blks E"
  note vw = ok_view [OF m sp(2) v(1)]
  obtain m1 h where o: "open_sector_data E ?idx True m = (Ok h, m1)" "inv Map.empty m1" "same_files m m1"
    "os_ino (sx_os m1) (data_path E m ?idx) = Some (fh_ino h)"
    by (rule open_data_found [OF ok_inv [OF m] sp(2) vw(2), of True]) blast
  note sf = same_files_simps [OF o(3)]
  have ne: "b \<noteq> []" using b sp(1) by (auto simp: bytes_len_def within_def BLK_SIZE_def)
  have d1: "os_file (sx_os m1) (data_path E m ?idx) = Some d" using sf(4) vw(2) by simp
  obtain s where s: "os_write_at (?a * BLK_SIZE) b h (sx_os m1) = (Ok (if b = [] then h else h\<lparr>fh_pos := ?a * BLK_SIZE + length b\<rparr>), s)"
    "os_ok s" "os_ino s = os_ino (sx_os m1)"
    "os_file s = (os_file (sx_os m1))(data_path E m ?idx \<mapsto> (if b = [] then d else os_splice (?a * BLK_SIZE) b d))"
    "is_os_dir s = is_os_dir (sx_os m1)"
    by (rule os_write_at_ok [OF inv_parts(9) [OF o(2)] o(4) d1])
  let ?m2 = "m1\<lparr>sx_os := s\<rparr>"
  note pt1 = inv_parts [OF o(2)]
  have pb: "below (fa_base (sx_armor m1)) (data_path E m1 ?idx)" using data_path_below [OF o(2)] pt1(1) by simp
  have fl: "flat (fa_base (sx_armor m1)) s" using s(4,5) sf(1) by (intro flat_change [OF pt1(2) s(2) pb]) auto
  have h2: "os_ino s (data_path E m1 ?idx) = Some (fh_ino x)" if "map_of (sx_datas m1) ?idx = Some x" for x
    using inv_data [OF o(2) that] d1 sf(1) s(3) by auto
  have c2: "inv Map.empty ?m2" "stored_sec E ?m2 ?idx = stored_sec E m1 ?idx"
    by (rule data_change [OF o(2) sp(2) fl _ _ h2]; use s(3,4) sf(1) in auto)+
  have "stored_sec E ?m2 ?idx = Some sec" using c2(2) sf(2) vw(1) by simp
  then obtain m3 where q: "open_sector E ?idx True ?m2 = (Ok sec, m3)" "sx_os m3 = sx_os ?m2"
    by (rule open_sector_found [OF c2(1) sp(2), of sec True]) blast
  have "write_sector E sp b m = (Panic, m3)"
    using o(1) s(1) ne q(1) v(2) by (simp add: write_sector_def Let_def on_os_def zoom_def io_def conv_s_def)
  moreover have "take (bytes_len sp) b = b" using b by simp
  ultimately have "write_blocks E sp b m = (Panic, m3)"
    using divide_by_within [OF sp(1)] b by (simp add: write_blocks_def)
  then show ?thesis using s(4) ne q(2) by auto
qed

end

subsection \<open>Properties\<close>

text \<open>
  C37. The sector manager of the file back end implements a map of blocks, when the operating system
  reports no error: reading a span of written blocks returns their bytes, or \<open>NotFound\<close> if one of them
  has been deleted; writing behind the last block adds the new blocks and keeps the others, whether
  it begins a sector, fills one up or spans several; deleting removes the blocks of the span and no
  other, also when the sector is shrunk or removed. The invariant of the manager is kept by all three.
\<close>

theorem sectors_implement_block_map:
  assumes "sector_laws E ids hk N" and "sectors_ok E N w m" and "sx_hash_key m = hk"
  shows "(span_end sp \<le> w \<longrightarrow> (\<exists>m'. read_blocks E sp m = (ok_or (read_blks (sec_blks E w m) (span_blocks sp)) NotFound, m') \<and>
      sectors_ok E N w m' \<and> sx_hash_key m' = hk \<and> sec_blks E w m' = sec_blks E w m)) \<and>
    (sp_begin sp = w \<and> span_end sp \<le> N * sn_blks E \<and> length b = bytes_len sp \<longrightarrow>
      (\<exists>m'. write_blocks E sp b m = (Ok (), m') \<and> sectors_ok E N (span_end sp) m' \<and> sx_hash_key m' = hk \<and>
        sec_blks E (span_end sp) m' = put_blk_map (sec_blks E w m) (span_blocks sp) b)) \<and>
    (span_end sp \<le> w \<longrightarrow> (\<exists>m'. sec_del_blocks E sp m = (Ok (), m') \<and> sectors_ok E N w m' \<and> sx_hash_key m' = hk \<and>
      sec_blks E w m' = sec_blks E w m |` (- set (span_blocks sp))))"
proof (intro conjI impI)
  show "\<exists>m'. read_blocks E sp m = (ok_or (read_blks (sec_blks E w m) (span_blocks sp)) NotFound, m') \<and>
      sectors_ok E N w m' \<and> sx_hash_key m' = hk \<and> sec_blks E w m' = sec_blks E w m" if "span_end sp \<le> w"
    using sector_laws.read_blocks_ok [OF assms(1) conjI [OF assms(2,3)] that] by blast
  show "\<exists>m'. write_blocks E sp b m = (Ok (), m') \<and> sectors_ok E N (span_end sp) m' \<and> sx_hash_key m' = hk \<and>
      sec_blks E (span_end sp) m' = put_blk_map (sec_blks E w m) (span_blocks sp) b"
    if "sp_begin sp = w \<and> span_end sp \<le> N * sn_blks E \<and> length b = bytes_len sp"
    using sector_laws.write_blocks_ok [OF assms(1) conjI [OF assms(2,3)], of sp b] that by blast
  show "\<exists>m'. sec_del_blocks E sp m = (Ok (), m') \<and> sectors_ok E N w m' \<and> sx_hash_key m' = hk \<and>
      sec_blks E w m' = sec_blks E w m |` (- set (span_blocks sp))" if "span_end sp \<le> w"
    using sector_laws.del_blocks_ok [OF assms(1) conjI [OF assms(2,3)] that] by blast
qed

text \<open>
  C38. A write into a finished sector panics, and by then it has overwritten the data file at the place
  the blocks would have if the sector had not been shrunk. On opening, the allocator goes on from the
  watermark that was saved when the last transaction began or ended, so this happens after a crash in a
  transaction that has filled up a sector.
\<close>

theorem write_into_finished_sector_panics:
  assumes "sector_laws E ids hk N" and "sectors_ok E N w m" and "sx_hash_key m = hk"
    and "within (sn_blks E) sp" and "sp_begin sp div sn_blks E < N" and "length b = bytes_len sp"
    and "sec_view E m (sp_begin sp div sn_blks E) = Some (sec, d)" and "is_finished sec"
  shows "\<exists>m'. write_blocks E sp b m = (Panic, m') \<and>
    os_file (sx_os m') (data_path E m (sp_begin sp div sn_blks E)) = Some (os_splice (sp_begin sp mod sn_blks E * BLK_SIZE) b d)"
  using sector_laws.write_finished [OF assms(1) conjI [OF assms(2,3)] assms(4-8)] .

end
