(* ===== verification/File_Storage.thy ===== *)
theory File_Storage
  imports Sector_Map
begin

text \<open>
  \<open>src/src/volume/storage/file/file.rs\<close>: the file back end. Super blocks and the write ahead log are
  plain files, addresses are kept in the index manager and blocks in the sector manager. All of them work
  on one file system, \<open>fs_os\<close>; the copies inside the index and the sector manager are set before each call.
\<close>

definition REPO_LOCK_FILE_NAME :: string where "REPO_LOCK_FILE_NAME = ''.repo_lock''"
definition SUPER_BLK_FILE_NAME :: string where "SUPER_BLK_FILE_NAME = ''super_blk''"
definition WAL_DIR :: string where "WAL_DIR = ''wal''"
definition INDEX_DIR :: string where "INDEX_DIR = ''index''"
definition DATA_DIR :: string where "DATA_DIR = ''data''"
definition SUBKEY_ID_INDEX :: nat where "SUBKEY_ID_INDEX = 42"
definition SUBKEY_ID_SECTOR :: nat where "SUBKEY_ID_SECTOR = 43"

subsection \<open>State\<close>

text \<open>The parameters of the index and the sector manager; serializers are not in the repository.\<close>

record file_env =
  fe_sec :: sec_env
  fe_lsmt :: "lsmt item_ops"
  fe_memtab :: "memtab item_ops"
  fe_tab :: "tab item_ops"
  fe_eid :: "nat \<Rightarrow> eid"
  fe_cache :: "(eid, tab) lhm_ops"
  fe_map :: "(eid, bytes) lhm_ops"

definition file_ix :: "file_env \<Rightarrow> file_disk ix_env" where
  "file_ix F = (let E = fe_sec F; S = sn_sodium E; sz = sn_sz E; sa = sn_ser_arm E in
     \<lparr>ie_lsmt = file_accessor S sz sa (fe_lsmt F) fd_lsmt fd_lsmt_update,
      ie_memtab = file_accessor S sz sa (fe_memtab F) fd_memtab fd_memtab_update,
      ie_tab = file_accessor S sz sa (fe_tab F) fd_tab fd_tab_update,
      ie_eid = fe_eid F, ie_cache = fe_cache F, ie_map = fe_map F, ie_sodium = S\<rparr>)"

record file_storage =
  fs_attached :: bool
  fs_base :: os_path
  fs_wal_base :: os_path
  fs_idx :: "file_disk index_mgr"
  fs_sec :: sector_mgr
  fs_os :: os

definition file_storage_new :: "os_path \<Rightarrow> nat \<Rightarrow> os \<Rightarrow> file_storage" where
  "file_storage_new base n s =
     (let a = file_armor_new (base @ [INDEX_DIR])
      in \<lparr>fs_attached = False, fs_base = base, fs_wal_base = base @ [WAL_DIR],
          fs_idx = index_new \<lparr>fd_lsmt = a, fd_memtab = a, fd_tab = a, fd_os = s\<rparr> n,
          fs_sec = sector_mgr_new (base @ [DATA_DIR]) s, fs_os = s\<rparr>)"

definition on_fs :: "('a, 'e, os) eff \<Rightarrow> ('a, 'e, file_storage) eff" where
  "on_fs m = zoom fs_os (\<lambda>s x. x\<lparr>fs_os := s\<rparr>) m"

definition on_idx :: "('a, 'e, file_disk index_mgr) eff \<Rightarrow> ('a, 'e, file_storage) eff" where
  "on_idx m = (\<lambda>s. case m ((fs_idx s)\<lparr>ix_disk := (ix_disk (fs_idx s))\<lparr>fd_os := fs_os s\<rparr>\<rparr>) of
     (q, x) \<Rightarrow> (q, s\<lparr>fs_idx := x, fs_os := fd_os (ix_disk x)\<rparr>))"

definition on_sec :: "('a, 'e, sector_mgr) eff \<Rightarrow> ('a, 'e, file_storage) eff" where
  "on_sec m = (\<lambda>s. case m ((fs_sec s)\<lparr>sx_os := fs_os s\<rparr>) of
     (q, x) \<Rightarrow> (q, s\<lparr>fs_sec := x, fs_os := sx_os x\<rparr>))"

subsection \<open>Paths\<close>

fun decimal :: "nat \<Rightarrow> string" where
  "decimal n = (if n < 10 then [char_of (48 + n)] else decimal (n div 10) @ [char_of (48 + n mod 10)])"

declare decimal.simps [simp del]

definition super_block_path :: "file_storage \<Rightarrow> nat \<Rightarrow> os_path" where
  "super_block_path s sfx = with_ext (decimal sfx) (fs_base s @ [SUPER_BLK_FILE_NAME])"

definition wal_path :: "file_storage \<Rightarrow> eid \<Rightarrow> os_path res" where
  "wal_path s e = eid_to_path (fs_wal_base s) e"

definition lock_path :: "file_storage \<Rightarrow> os_path" where
  "lock_path s = fs_base s @ [REPO_LOCK_FILE_NAME]"

definition index_dir :: "file_storage \<Rightarrow> os_path" where
  "index_dir s = fs_base s @ [INDEX_DIR]"

definition data_dir :: "file_storage \<Rightarrow> os_path" where
  "data_dir s = fs_base s @ [DATA_DIR]"

subsection \<open>Opening\<close>

definition file_set_crypto_ctx :: "file_env \<Rightarrow> crypto \<Rightarrow> key \<Rightarrow> (unit, error, file_storage) eff" where
  "file_set_crypto_ctx F c k =
     bind_s (lift_r (sub_key (file_ix F) k SUBKEY_ID_INDEX)) (\<lambda>k1.
     bind_s (on_idx (index_set_crypto_ctx (file_ix F) c k1)) (\<lambda>_.
     bind_s (lift_r (sub_key (file_ix F) k SUBKEY_ID_SECTOR)) (\<lambda>hk.
     on_sec (modify_s (sec_set_crypto_ctx c k hk)))))"

definition file_lock_repo :: "bool \<Rightarrow> (unit, error, file_storage) eff" where
  "file_lock_repo force =
     bind_s get_s (\<lambda>s.
     bind_s (on_fs (os_exists (lock_path s))) (\<lambda>locked.
     if locked \<and> \<not> force then lift_r (Err RepoOpened)
     else bind_s (on_fs (io (os_open True False (lock_path s)))) (\<lambda>_.
          modify_s (\<lambda>s. s\<lparr>fs_attached := True\<rparr>))))"

definition file_exists :: "(bool, error, file_storage) eff" where
  "file_exists = (\<lambda>s. case os_metadata (fs_base s) (fs_os s) of
       (Ok _, t) \<Rightarrow> (Ok True, s\<lparr>fs_os := t\<rparr>)
     | (Err err, t) \<Rightarrow> (if kind err = IoNotFound then Ok False else Err (from_io_error err), s\<lparr>fs_os := t\<rparr>)
     | (Panic, t) \<Rightarrow> (Panic, s\<lparr>fs_os := t\<rparr>))"

definition file_connect :: "bool \<Rightarrow> (unit, error, file_storage) eff" where
  "file_connect force = ret_s ()"

definition file_init :: "file_env \<Rightarrow> crypto \<Rightarrow> key \<Rightarrow> (unit, error, file_storage) eff" where
  "file_init F c k =
     bind_s get_s (\<lambda>s.
     bind_s (on_fs (io (os_create_dir_all (index_dir s)))) (\<lambda>_.
     bind_s (on_fs (io (os_create_dir_all (data_dir s)))) (\<lambda>_.
     bind_s (file_set_crypto_ctx F c k) (\<lambda>_.
     bind_s (on_idx (index_init (file_ix F))) (\<lambda>_.
     file_lock_repo False)))))"

definition file_open :: "file_env \<Rightarrow> crypto \<Rightarrow> key \<Rightarrow> bool \<Rightarrow> (unit, error, file_storage) eff" where
  "file_open F c k force =
     bind_s (file_set_crypto_ctx F c k) (\<lambda>_.
     bind_s (on_idx (index_open (file_ix F))) (\<lambda>_.
     file_lock_repo force))"

subsection \<open>Super blocks and the write ahead log\<close>

definition read_file :: "os_path \<Rightarrow> (bytes, error, file_storage) eff" where
  "read_file p = bind_s (on_fs (io (os_open False False p))) (\<lambda>h. on_fs (io (os_read_all h)))"

definition write_file :: "os_path \<Rightarrow> bytes \<Rightarrow> (unit, error, file_storage) eff" where
  "write_file p b =
     bind_s (on_fs (io (os_open True True p))) (\<lambda>h.
     bind_s (on_fs (io (os_write_all b h))) (\<lambda>_. ret_s ()))"

definition file_get_super_block :: "nat \<Rightarrow> (bytes, error, file_storage) eff" where
  "file_get_super_block sfx = bind_s get_s (\<lambda>s. read_file (super_block_path s sfx))"

definition file_put_super_block :: "bytes \<Rightarrow> nat \<Rightarrow> (unit, error, file_storage) eff" where
  "file_put_super_block b sfx = bind_s get_s (\<lambda>s. write_file (super_block_path s sfx) b)"

definition file_get_wal :: "eid \<Rightarrow> (bytes, error, file_storage) eff" where
  "file_get_wal e =
     bind_s get_s (\<lambda>s.
     bind_s (lift_r (wal_path s e)) (\<lambda>p.
     bind_s (on_fs (os_exists p)) (\<lambda>found.
     if \<not> found then lift_r (Err NotFound) else read_file p)))"

definition file_put_wal :: "eid \<Rightarrow> bytes \<Rightarrow> (unit, error, file_storage) eff" where
  "file_put_wal e b =
     bind_s get_s (\<lambda>s.
     bind_s (lift_r (wal_path s e)) (\<lambda>p.
     bind_s (on_fs (ensure_parents_dir p)) (\<lambda>_. write_file p b)))"

definition file_del_wal :: "eid \<Rightarrow> (unit, error, file_storage) eff" where
  "file_del_wal e =
     bind_s get_s (\<lambda>s.
     bind_s (lift_r (wal_path s e)) (\<lambda>p.
     bind_s (on_fs (os_exists p)) (\<lambda>found.
     if \<not> found then ret_s ()
     else bind_s (on_fs (io (os_remove_file p))) (\<lambda>_. on_fs (remove_empty_parent_dir p)))))"

subsection \<open>Addresses and blocks\<close>

definition file_get_address :: "file_env \<Rightarrow> eid \<Rightarrow> (bytes, error, file_storage) eff" where
  "file_get_address F e = on_idx (index_get (file_ix F) e)"

definition file_put_address :: "file_env \<Rightarrow> eid \<Rightarrow> bytes \<Rightarrow> (unit, error, file_storage) eff" where
  "file_put_address F e a =
     bind_s (assert_s (a \<noteq> [])) (\<lambda>_. on_idx (index_insert (file_ix F) e a))"

definition file_del_address :: "file_env \<Rightarrow> eid \<Rightarrow> (unit, error, file_storage) eff" where
  "file_del_address F e = on_idx (index_delete (file_ix F) e)"

definition file_get_blocks :: "file_env \<Rightarrow> span \<Rightarrow> (bytes, error, file_storage) eff" where
  "file_get_blocks F sp = on_sec (read_blocks (fe_sec F) sp)"

definition file_put_blocks :: "file_env \<Rightarrow> span \<Rightarrow> bytes \<Rightarrow> (unit, error, file_storage) eff" where
  "file_put_blocks F sp b = on_sec (write_blocks (fe_sec F) sp b)"

definition file_del_blocks :: "file_env \<Rightarrow> span \<Rightarrow> (unit, error, file_storage) eff" where
  "file_del_blocks F sp = on_sec (sec_del_blocks (fe_sec F) sp)"

definition file_storage_flush :: "file_env \<Rightarrow> (unit, error, file_storage) eff" where
  "file_storage_flush F = on_idx (index_flush (file_ix F))"

text \<open>\<open>destroy\<close> only warns about a lock; dropping the storage removes its lock and ignores errors.\<close>

definition file_destroy :: "(unit, error, file_storage) eff" where
  "file_destroy =
     bind_s get_s (\<lambda>s.
     bind_s (on_fs (os_exists (lock_path s))) (\<lambda>_.
     on_fs (io (os_remove_dir_all (fs_base s)))))"

definition file_drop :: "file_storage \<Rightarrow> file_storage" where
  "file_drop s = (if fs_attached s
     then s\<lparr>fs_os := snd (os_remove_file (lock_path s) (fs_os s)), fs_attached := False\<rparr> else s)"

text \<open>The back end as the trait object the storage holds.\<close>

definition file_ops :: "file_env \<Rightarrow> file_storage storable_ops" where
  "file_ops F =
     \<lparr>st_get_super_block = (\<lambda>s i. file_get_super_block i s), st_put_super_block = (\<lambda>s b i. file_put_super_block b i s),
      st_get_wal = (\<lambda>s e. file_get_wal e s), st_put_wal = (\<lambda>s e b. file_put_wal e b s), st_del_wal = (\<lambda>s e. file_del_wal e s),
      st_get_address = (\<lambda>s e. file_get_address F e s), st_put_address = (\<lambda>s e b. file_put_address F e b s),
      st_del_address = (\<lambda>s e. file_del_address F e s),
      st_get_blocks = (\<lambda>s sp. file_get_blocks F sp s), st_put_blocks = (\<lambda>s sp b. file_put_blocks F sp b s),
      st_del_blocks = (\<lambda>s sp. file_del_blocks F sp s), st_flush = (\<lambda>s. file_storage_flush F s)\<rparr>"

subsection \<open>Logs\<close>

text \<open>What the files say of a log, and of the blocks.\<close>

definition log_path :: "file_storage \<Rightarrow> eid \<Rightarrow> os_path" where
  "log_path s e = (let x = eid_to_string e in fs_wal_base s @ [take 2 x, take 2 (drop 2 x), x])"

definition file_wal :: "file_storage \<Rightarrow> eid \<rightharpoonup> bytes" where
  "file_wal s e = (if length e = EID_SIZE then os_file (fs_os s) (log_path s e) else None)"

definition file_blk :: "file_env \<Rightarrow> nat \<Rightarrow> file_storage \<Rightarrow> nat \<rightharpoonup> bytes" where
  "file_blk F w s = sec_blks (fe_sec F) w ((fs_sec s)\<lparr>sx_os := fs_os s\<rparr>)"

definition file_ok :: "file_env \<Rightarrow> nat \<Rightarrow> nat \<Rightarrow> file_storage \<Rightarrow> bool" where
  "file_ok F N w s \<longleftrightarrow> sectors_ok (fe_sec F) N w ((fs_sec s)\<lparr>sx_os := fs_os s\<rparr>) \<and> flat (fs_wal_base s) (fs_os s) \<and>
     fs_wal_base s = fs_base s @ [WAL_DIR] \<and> sx_base (fs_sec s) = fs_base s @ [DATA_DIR]"

lemma file_flat: "file_ok F N w s \<Longrightarrow> flat (fs_wal_base s) (fs_os s)"
  unfolding file_ok_def by blast

lemma log_path_below: "below (fs_wal_base s) (log_path s e)"
  by (simp add: log_path_def below_def Let_def)

lemma wal_path_ok: "length e = EID_SIZE \<Longrightarrow> wal_path s e = Ok (log_path s e)"
  by (simp add: wal_path_def eid_to_path_def log_path_def Let_def assert_r_def length_eid_to_string EID_SIZE_def)

lemma log_path_inj: "log_path s e = log_path s e' \<longleftrightarrow> e = e'"
  by (auto simp: log_path_def Let_def dest: eid_to_string_inj)

text \<open>A change in another directory.\<close>

lemma flat_apart:
  assumes "flat base s" and "os_ok s'" and "\<not> prefix base p" and "\<not> prefix p base"
    and "\<And>q. q \<noteq> p \<Longrightarrow> os_file s' q \<noteq> None \<Longrightarrow> os_file s q \<noteq> None"
    and "\<And>q. is_os_dir s' q \<Longrightarrow> is_os_dir s q \<or> prefix q p"
  shows "flat base s'"
proof -
  have "\<not> prefix base q" if "prefix q p" for q using that assms(3) by (meson prefix_order.trans)
  then show ?thesis using assms unfolding flat_def by metis
qed

lemma sectors_apart:
  assumes ok: "sectors_ok E N w m" and s: "os_ok s" and p: "\<not> prefix (sx_base m) p" "\<not> prefix p (sx_base m)"
    and same: "\<And>q. q \<noteq> p \<Longrightarrow> os_ino s q = os_ino (sx_os m) q \<and> os_file s q = os_file (sx_os m) q"
    and dirs: "\<And>q. is_os_dir s q \<Longrightarrow> is_os_dir (sx_os m) q \<or> prefix q p"
  shows "sectors_ok E N w (m\<lparr>sx_os := s\<rparr>)" "sec_blks E w (m\<lparr>sx_os := s\<rparr>) = sec_blks E w m"
proof -
  let ?m = "m\<lparr>sx_os := s\<rparr>"
  have b: "sx_base m = fa_base (sx_armor m)" and fl: "flat (sx_base m) (sx_os m)" and mi: "mgr_inv E N Map.empty m"
    using ok unfolding sectors_ok_def mgr_inv_def by blast+
  have out: "q \<noteq> p" if "below (fa_base (sx_armor m)) q" for q using that p(1) b by (auto simp: below_def)
  have dp: "data_path E m i \<noteq> p" for i using out ext_path_below by (simp add: data_path_def)
  have ap: "arm_path S (sx_armor m) sa a e \<noteq> p" for S sa a e using out slot_path_below by (simp add: arm_path_def)
  have st: "stored_sec E ?m i = stored_sec E m i" for i
    unfolding stored_sec_def by (simp, rule file_item_cong(1)) (use same ap in simp)
  have sd: "sec_sound E ?m i = sec_sound E m i" for i
    by (simp, rule file_item_cong(2)) (use same ap in simp)
  have path: "data_path E ?m = data_path E m" by (simp add: data_path_def [abs_def])
  have f: "os_file s (data_path E m i) = os_file (sx_os m) (data_path E m i)" "os_ino s (data_path E m i) = os_ino (sx_os m) (data_path E m i)" for i
    using same dp by simp_all
  have fl': "flat (sx_base m) s" using same dirs by (intro flat_apart [OF fl s p]) auto
  have "mgr_inv E N Map.empty ?m" using mi fl' unfolding mgr_inv_def path st sd by (simp add: f)
  moreover have v: "sec_view E ?m i = sec_view E m i" for i by (simp add: sec_view_def st path f split: option.split)
  moreover have fo: "os_file (sx_os ?m) (data_path E m i) = os_file (sx_os m) (data_path E m i)" for i by (simp add: f)
  ultimately show "sectors_ok E N w ?m" using ok unfolding sectors_ok_def v path fo by simp
  show "sec_blks E w ?m = sec_blks E w m" unfolding sec_blks_def sec_blk_def v ..
qed

lemma prefix_snoc_apart: "a \<noteq> b \<Longrightarrow> prefix (base @ [a]) p \<Longrightarrow> \<not> prefix (base @ [b]) p \<and> \<not> prefix p (base @ [b])"
  by (auto simp: prefix_def append_eq_append_conv2 append_eq_Cons_conv Cons_eq_append_conv)

text \<open>What a change of one log file does.\<close>

lemma log_change:
  assumes ok: "file_ok F N w s" and e: "length e = EID_SIZE" and t: "os_ok t"
    and same: "\<And>q. q \<noteq> log_path s e \<Longrightarrow> os_ino t q = os_ino (fs_os s) q \<and> os_file t q = os_file (fs_os s) q"
    and dirs: "\<And>q. is_os_dir t q \<Longrightarrow> is_os_dir (fs_os s) q \<or> prefix q (butlast (log_path s e))"
  shows "file_ok F N w (s\<lparr>fs_os := t\<rparr>)" "file_wal (s\<lparr>fs_os := t\<rparr>) = (file_wal s)(e := os_file t (log_path s e))"
    "file_blk F w (s\<lparr>fs_os := t\<rparr>) = file_blk F w s"
proof -
  let ?p = "log_path s e" and ?m = "(fs_sec s)\<lparr>sx_os := fs_os s\<rparr>"
  have lp: "log_path (s\<lparr>fs_os := t\<rparr>) = log_path s" by (simp add: log_path_def [abs_def])
  have wb: "fs_wal_base s = fs_base s @ [WAL_DIR]" "sx_base (fs_sec s) = fs_base s @ [DATA_DIR]" using ok by (simp_all add: file_ok_def)
  have pw: "prefix (fs_wal_base s) ?p" using log_path_below by (simp add: below_def)
  have "\<not> prefix (sx_base ?m) ?p" "\<not> prefix ?p (sx_base ?m)"
    using prefix_snoc_apart [of WAL_DIR DATA_DIR "fs_base s" ?p] pw wb by (simp_all add: WAL_DIR_def DATA_DIR_def)
  note ap = sectors_apart [OF _ t this]
  have pd: "prefix q (butlast ?p) \<Longrightarrow> prefix q ?p" for q by (metis append_butlast_last_id butlast.simps(1) prefix_order.trans prefixI)
  have sec: "sectors_ok (fe_sec F) N w (?m\<lparr>sx_os := t\<rparr>)" "sec_blks (fe_sec F) w (?m\<lparr>sx_os := t\<rparr>) = sec_blks (fe_sec F) w ?m"
    by (rule ap; use ok same dirs pd in \<open>auto simp: file_ok_def\<close>)+
  have "flat (fs_wal_base s) t"
    using ok same dirs by (intro flat_change [OF _ t log_path_below [of s e]]) (auto simp: file_ok_def)
  with sec(1) wb show "file_ok F N w (s\<lparr>fs_os := t\<rparr>)" by (simp add: file_ok_def)
  show "file_wal (s\<lparr>fs_os := t\<rparr>) = (file_wal s)(e := os_file t ?p)"
    using same e by (auto simp: file_wal_def lp fun_eq_iff log_path_inj)
  show "file_blk F w (s\<lparr>fs_os := t\<rparr>) = file_blk F w s" using sec(2) by (simp add: file_blk_def)
qed

lemma put_wal_ok:
  assumes ok: "file_ok F N w s" and e: "length e = EID_SIZE"
  obtains s' where "file_put_wal e b s = (Ok (), s')" "file_ok F N w s'" "file_wal s' = (file_wal s)(e \<mapsto> b)" "file_blk F w s' = file_blk F w s"
proof -
  let ?p = "log_path s e"
  have fl: "flat (fs_wal_base s) (fs_os s)" by (rule file_flat [OF ok])
  note pb = log_path_below [of s e]
  obtain t1 where t1: "ensure_parents_dir ?p (fs_os s) = (Ok (), t1)" "os_ok t1" "os_ino t1 = os_ino (fs_os s)" "os_file t1 = os_file (fs_os s)"
    "is_os_dir t1 (butlast ?p)" "\<And>x. is_os_dir t1 x \<longleftrightarrow> is_os_dir (fs_os s) x \<or> prefix x (butlast ?p)"
    by (rule ensure_parents_dir_ok [OF flat_ok [OF fl] _ flat_room(2) [OF fl pb]]) (use below_butlast [OF pb] in auto)
  have fl1: "flat (fs_wal_base s) t1" using t1 by (intro flat_change [OF fl t1(2) pb]) auto
  obtain h t2 where t2: "os_open True True ?p t1 = (Ok h, t2)" "fh_pos h = 0" "os_ok t2" "os_ino t2 ?p = Some (fh_ino h)"
    "\<And>q. q \<noteq> ?p \<Longrightarrow> os_ino t2 q = os_ino t1 q" "os_file t2 = (os_file t1)(?p \<mapsto> [])" "is_os_dir t2 = is_os_dir t1"
    by (rule os_open_write [OF t1(2) flat_room(1) [OF fl1 pb] t1(5), of True]) auto
  have d2: "os_file t2 ?p = Some []" using t2(6) by simp
  obtain t where t: "os_write_at 0 b h t2 = (Ok (if b = [] then h else h\<lparr>fh_pos := 0 + length b\<rparr>), t)" "os_ok t" "os_ino t = os_ino t2"
    "os_file t = (os_file t2)(?p \<mapsto> (if b = [] then [] else os_splice 0 b []))" "is_os_dir t = is_os_dir t2"
    by (rule os_write_at_ok [OF t2(3,4) d2])
  have new: "os_file t ?p = Some b" using t(4) by (simp add: os_splice_def)
  have "file_put_wal e b s = (Ok (), s\<lparr>fs_os := t\<rparr>)"
    using t1(1) t2(1,2) t(1)
    by (auto simp: file_put_wal_def wal_path_ok [OF e] on_fs_def zoom_def io_def conv_s_def write_file_def os_write_all_def bind_s_def)
  moreover note c = log_change [OF ok e t(2)]
  have "file_ok F N w (s\<lparr>fs_os := t\<rparr>)" "file_wal (s\<lparr>fs_os := t\<rparr>) = (file_wal s)(e := os_file t ?p)" "file_blk F w (s\<lparr>fs_os := t\<rparr>) = file_blk F w s"
    by (rule c; use t1 t2 t in auto)+
  ultimately show ?thesis using new by (intro that [of "s\<lparr>fs_os := t\<rparr>"]) simp_all
qed

lemma log_found:
  assumes "file_ok F N w s"
  shows "(os_exists (log_path s e) (fs_os s) :: bool res \<times> os) = (Ok (os_file (fs_os s) (log_path s e) \<noteq> None), fs_os s)"
proof -
  have fl: "flat (fs_wal_base s) (fs_os s)" by (rule file_flat [OF assms])
  then show ?thesis using flat_ok [OF fl] flat_room(1) [OF fl log_path_below] by (simp add: os_exists_def os_file_None)
qed

lemma get_wal_ok:
  assumes ok: "file_ok F N w s" and e: "length e = EID_SIZE"
  shows "file_get_wal e s = (ok_or (file_wal s e) NotFound, s)"
proof -
  have fl: "flat (fs_wal_base s) (fs_os s)" by (rule file_flat [OF ok])
  note op = os_open_read [OF flat_ok [OF fl] flat_room(1) [OF fl log_path_below [of s e]]]
  show ?thesis
  proof (cases "os_ino (fs_os s) (log_path s e)")
    case None
    then show ?thesis
      using log_found [OF ok, of e] e by (simp add: file_get_wal_def wal_path_ok on_fs_def zoom_def bind_s_def file_wal_def os_file_def ok_or_def)
  next
    case (Some i)
    then show ?thesis
      using log_found [OF ok, of e] op flat_ok [OF fl] e
      by (simp add: file_get_wal_def wal_path_ok on_fs_def zoom_def bind_s_def file_wal_def os_file_def ok_or_def read_file_def
          io_def conv_s_def os_read_all_def)
  qed
qed

lemma del_wal_ok:
  assumes ok: "file_ok F N w s" and e: "length e = EID_SIZE"
  obtains s' where "file_del_wal e s = (Ok (), s')" "file_ok F N w s'" "file_wal s' = (file_wal s)(e := None)" "file_blk F w s' = file_blk F w s"
proof (cases "os_file (fs_os s) (log_path s e)")
  case None
  then have "file_del_wal e s = (Ok (), s)"
    using log_found [OF ok, of e] e by (simp add: file_del_wal_def wal_path_ok on_fs_def zoom_def bind_s_def)
  then show ?thesis using None ok e by (intro that [of s]) (auto simp: file_wal_def fun_eq_iff)
next
  case (Some b)
  let ?p = "log_path s e" and ?u = "unname (log_path s e) (fs_os s)"
  have os: "os_ok (fs_os s)" by (rule flat_ok [OF file_flat [OF ok]])
  note u = os_unname [OF os, of ?p]
  obtain t where t: "remove_empty_parent_dir ?p ?u = (Ok (), t)" "os_ok t" "os_ino t = os_ino ?u" "os_file t = os_file ?u"
    "\<forall>p. is_os_dir t p \<longrightarrow> is_os_dir ?u p"
    using remove_empty_dirs_ok [OF u(1)] unfolding remove_empty_parent_dir_def by blast
  have "file_del_wal e s = (Ok (), s\<lparr>fs_os := t\<rparr>)"
    using Some log_found [OF ok, of e] e t(1) os_remove_file_ok [OF os, of ?p]
    by (simp add: file_del_wal_def wal_path_ok on_fs_def zoom_def bind_s_def io_def conv_s_def)
  moreover have "file_ok F N w (s\<lparr>fs_os := t\<rparr>)" "file_wal (s\<lparr>fs_os := t\<rparr>) = (file_wal s)(e := os_file t ?p)"
    "file_blk F w (s\<lparr>fs_os := t\<rparr>) = file_blk F w s"
    by (rule log_change [OF ok e t(2)]; use t u in \<open>auto simp: unname_ino\<close>)+
  ultimately show ?thesis using t(4) u(2) by (intro that [of "s\<lparr>fs_os := t\<rparr>"]) simp_all
qed

subsection \<open>Properties\<close>

text \<open>
  C39. The write ahead log of the file back end is a map, and it is kept apart from the data: a log that
  has been put is read back until it is put again or deleted, the logs of other entities stay, a missing one
  is \<open>NotFound\<close>, and no operation on logs changes a block, as long as the operating system reports no error.
\<close>

theorem file_wal_is_map:
  assumes "file_ok F N w s" and "length e = EID_SIZE"
  shows "file_get_wal e s = (ok_or (file_wal s e) NotFound, s) \<and>
    (\<exists>s'. file_put_wal e b s = (Ok (), s') \<and> file_ok F N w s' \<and> file_wal s' = (file_wal s)(e \<mapsto> b) \<and> file_blk F w s' = file_blk F w s \<and>
       file_get_wal e s' = (Ok b, s')) \<and>
    (\<exists>s'. file_del_wal e s = (Ok (), s') \<and> file_ok F N w s' \<and> file_wal s' = (file_wal s)(e := None) \<and> file_blk F w s' = file_blk F w s \<and>
       file_get_wal e s' = (Err NotFound, s'))"
proof (intro conjI)
  show "file_get_wal e s = (ok_or (file_wal s e) NotFound, s)" by (rule get_wal_ok [OF assms])
  obtain s' where s': "file_put_wal e b s = (Ok (), s')" "file_ok F N w s'" "file_wal s' = (file_wal s)(e \<mapsto> b)" "file_blk F w s' = file_blk F w s"
    by (rule put_wal_ok [OF assms])
  with get_wal_ok [OF s'(2) assms(2)] show "\<exists>s'. file_put_wal e b s = (Ok (), s') \<and> file_ok F N w s' \<and>
      file_wal s' = (file_wal s)(e \<mapsto> b) \<and> file_blk F w s' = file_blk F w s \<and> file_get_wal e s' = (Ok b, s')"
    by (auto simp: ok_or_def)
  obtain t where t: "file_del_wal e s = (Ok (), t)" "file_ok F N w t" "file_wal t = (file_wal s)(e := None)" "file_blk F w t = file_blk F w s"
    by (rule del_wal_ok [OF assms])
  with get_wal_ok [OF t(2) assms(2)] show "\<exists>s'. file_del_wal e s = (Ok (), s') \<and> file_ok F N w s' \<and>
      file_wal s' = (file_wal s)(e := None) \<and> file_blk F w s' = file_blk F w s \<and> file_get_wal e s' = (Err NotFound, s')"
    by (auto simp: ok_or_def)
qed

text \<open>
  C40. The lock file keeps a repository with one owner: after a storage has taken the lock, another storage on
  the same directory is refused unless it is forced, and dropping the refused one leaves the lock; the drop
  of the owner removes it, and then the lock can be taken again.
\<close>

theorem lock_excludes:
  assumes "os_ok (fs_os s)" and "is_os_dir (fs_os s) (fs_base s)" and "\<not> is_os_dir (fs_os s) (lock_path s)"
    and "os_file (fs_os s) (lock_path s) = None" and "\<not> fs_attached t" and "fs_base t = fs_base s"
  shows "\<exists>s'. file_lock_repo False s = (Ok (), s') \<and> fs_attached s' \<and>
    (let t0 = t\<lparr>fs_os := fs_os s'\<rparr> in file_lock_repo False t0 = (Err RepoOpened, t0) \<and> file_drop t0 = t0 \<and>
       (\<exists>t'. file_lock_repo True t0 = (Ok (), t') \<and> fs_attached t')) \<and>
    os_file (fs_os (file_drop s')) = os_file (fs_os s) \<and>
    (\<exists>t'. file_lock_repo False (t\<lparr>fs_os := fs_os (file_drop s')\<rparr>) = (Ok (), t') \<and> fs_attached t')"
proof -
  let ?p = "lock_path s"
  have bl: "butlast ?p = fs_base s" by (simp add: lock_path_def)
  have lock: "\<exists>r'. file_lock_repo force r = (Ok (), r') \<and> fs_attached r' \<and> fs_base r' = fs_base s \<and> os_ok (fs_os r') \<and>
      os_ino (fs_os r') ?p \<noteq> None \<and> os_file (fs_os r') = (os_file (fs_os r))(?p := os_file (fs_os r') ?p) \<and> is_os_dir (fs_os r') = is_os_dir (fs_os r)"
    if r: "os_ok (fs_os r)" "is_os_dir (fs_os r) (fs_base s)" "\<not> is_os_dir (fs_os r) ?p" "fs_base r = fs_base s"
      "force \<or> os_file (fs_os r) ?p = None" for force r
  proof -
    have lp: "lock_path r = ?p" using r(4) by (simp add: lock_path_def)
    obtain h u where u: "os_open True False ?p (fs_os r) = (Ok h, u)" "os_ok u" "os_ino u ?p = Some (fh_ino h)"
      "os_file u = (os_file (fs_os r))(?p \<mapsto> (if False then [] else case os_file (fs_os r) ?p of None \<Rightarrow> [] | Some d \<Rightarrow> d))"
      "is_os_dir u = is_os_dir (fs_os r)"
      by (rule os_open_write [OF r(1,3), of False]) (use r(2) bl in auto)
    have "(os_exists ?p (fs_os r) :: bool res \<times> os) = (Ok (os_file (fs_os r) ?p \<noteq> None), fs_os r)"
      using r(1,3) by (simp add: os_exists_def os_file_None)
    then have "file_lock_repo force r = (Ok (), r\<lparr>fs_os := u, fs_attached := True\<rparr>)"
      using u(1) r(5) by (auto simp: file_lock_repo_def lp on_fs_def zoom_def bind_s_def io_def conv_s_def)
    then show ?thesis using u r(4) by auto
  qed
  from lock [of s False] assms obtain s' where s': "file_lock_repo False s = (Ok (), s')" "fs_attached s'" "fs_base s' = fs_base s" "os_ok (fs_os s')"
    "os_ino (fs_os s') ?p \<noteq> None" "os_file (fs_os s') = (os_file (fs_os s))(?p := os_file (fs_os s') ?p)" "is_os_dir (fs_os s') = is_os_dir (fs_os s)"
    by auto
  let ?t = "t\<lparr>fs_os := fs_os s'\<rparr>"
  have lp: "lock_path ?t = ?p" "lock_path s' = ?p" using assms(6) s'(3) by (simp_all add: lock_path_def)
  have "(os_exists ?p (fs_os s') :: bool res \<times> os) = (Ok True, fs_os s')" using s'(4,5) by (simp add: os_exists_def)
  then have refused: "file_lock_repo False ?t = (Err RepoOpened, ?t)"
    by (simp add: file_lock_repo_def lp on_fs_def zoom_def bind_s_def)
  have fo: "\<exists>t'. file_lock_repo True ?t = (Ok (), t') \<and> fs_attached t'" using lock [of ?t True] s'(4,7) assms(2,3,6) by auto
  have u: "fs_os (file_drop s') = unname ?p (fs_os s')"
    using s'(2,4,5) lp by (auto simp: file_drop_def os_remove_file_ok os_file_None)
  note un = os_unname [OF s'(4), of ?p]
  have dropped: "os_file (fs_os (file_drop s')) = os_file (fs_os s)"
    unfolding u un(2) by (subst s'(6)) (use assms(4) in \<open>auto simp: fun_eq_iff\<close>)
  have "\<exists>t'. file_lock_repo False (t\<lparr>fs_os := fs_os (file_drop s')\<rparr>) = (Ok (), t') \<and> fs_attached t'"
    using lock [of "t\<lparr>fs_os := fs_os (file_drop s')\<rparr>" False] un assms s'(7) dropped u by auto
  with s'(1,2) refused fo dropped show ?thesis using assms(5) by (auto simp: file_drop_def Let_def)
qed

end
