(* ===== verification/Reference_Sector.thy ===== *)
theory Reference_Sector
  imports Sector_Map Reference_Env
begin

text \<open>
  The sector manager on the reference library, with four blocks in a sector and four sectors: the laws
  hold for it, and the properties are applied to a fresh manager.
\<close>

text \<open>A serializer that writes numbers in unary.\<close>

definition unary :: "nat list \<Rightarrow> bytes" where
  "unary ns = concat (map (\<lambda>n. replicate n 1 @ [0]) ns)"

fun un_unary :: "bytes \<Rightarrow> nat \<Rightarrow> nat list" where
  "un_unary [] k = []"
| "un_unary (b # bs) k = (if b = 0 then k # un_unary bs 0 else un_unary bs (Suc k))"

lemma un_unary_run: "un_unary (replicate n 1 @ 0 # bs) k = (k + n) # un_unary bs 0"
  by (induction n arbitrary: k) simp_all

lemma un_unary_unary: "un_unary (unary ns) 0 = ns"
  using un_unary_run [where k = 0] by (induction ns) (simp_all add: unary_def)

definition ref_ser_sec :: "fsector \<Rightarrow> bytes res" where
  "ref_ser_sec s = Ok (unary ([case sc_arm s of Left \<Rightarrow> 0 | Right \<Rightarrow> 1, sc_seq s, sc_idx s, sc_curr_size s, sc_actual_size s,
     length (sc_id s)] @ map unat (sc_id s) @ sc_blk_map s))"

definition ref_deser_sec :: "bytes \<Rightarrow> fsector res" where
  "ref_deser_sec b = (case un_unary b 0 of
       a # q # i # c # t # l # r \<Rightarrow>
         Ok \<lparr>sc_id = map of_nat (take l r), sc_seq = q, sc_arm = (if a = 0 then Left else Right), sc_idx = i,
            sc_curr_size = c, sc_actual_size = t, sc_blk_map = drop l r\<rparr>
     | _ \<Rightarrow> Err InUse)"

lemma ref_sec_roundtrip: "ref_ser_sec s = Ok b \<Longrightarrow> ref_deser_sec b = Ok s"
  by (auto simp: ref_ser_sec_def ref_deser_sec_def un_unary_unary comp_def split: arm.split)

definition ref_sec :: sec_env where
  "ref_sec = \<lparr>sn_sodium = plain_sodium, sn_sz = (\<lambda>_. 64), sn_ser_arm = ref_ser_arm, sn_ser = ref_ser_sec, sn_deser = ref_deser_sec,
     sn_lru = list_lhm, sn_map = list_lhm, sn_blks = 4\<rparr>"

definition ref_hash_key :: bytes where
  "ref_hash_key = replicate HASH_SIZE 0"

definition ref_sec_ids :: "eid set" where
  "ref_sec_ids = (\<lambda>idx. sec_id_of ref_sec ref_hash_key idx) ` {..< 4}"

lemma le_small: "idx < 4 \<Longrightarrow> le_bytes64 (of_nat idx) = of_nat idx # replicate 7 0"
proof -
  assume "idx < 4"
  then consider "idx = 0" | "idx = 1" | "idx = 2" | "idx = 3" by linarith
  then show ?thesis
    by cases (simp only:, code_simp)+
qed

lemma ref_sid: "idx < 4 \<Longrightarrow> sec_id_of ref_sec ref_hash_key idx = replicate 7 0 @ of_nat idx # replicate 24 0"
  by (simp add: sec_id_of_def ref_sec_def plain_sodium_def hash_with_key_def HASH_SIZE_def le_small numeral_eq_Suc)

lemma ref_arm_hash:
  "idx < 4 \<Longrightarrow> crypto_hash plain_sodium (sec_id_of ref_sec ref_hash_key idx @ ref_ser_arm a) =
     ref_ser_arm a @ replicate 24 0 @ of_nat idx # replicate 6 0"
  by (simp add: crypto_hash_def ref_sid plain_sodium_def HASH_SIZE_def ref_ser_arm_def numeral_eq_Suc)

lemma ref_idx_inj: "i < 4 \<Longrightarrow> j < 4 \<Longrightarrow> of_nat i = (of_nat j :: byte) \<longleftrightarrow> i = j"
  by (auto simp: word_of_nat_eq_iff take_bit_nat_eq_self)

interpretation ref_sectors: sector_laws ref_sec ref_sec_ids ref_hash_key 4
proof (intro sector_laws.intro file_items.intro sector_laws_axioms.intro file_items_axioms.intro)
  show "sodium_laws (sn_sodium ref_sec)" by (simp add: ref_sec_def plain.sodium_laws_axioms)
  show "item_laws (sector_items (sn_ser ref_sec) (sn_deser ref_sec)) (\<lambda>x. x)"
    by unfold_locales (use ref_sec_roundtrip in \<open>auto simp: sector_items_def ref_sec_def ref_ser_sec_def\<close>)
  show "linked_hash_map (sn_lru ref_sec)" "linked_hash_map (sn_map ref_sec)"
    by (simp_all add: ref_sec_def list_map.linked_hash_map_axioms)
  show "crypto_hash (sn_sodium ref_sec) (e @ sn_ser_arm ref_sec a) = crypto_hash (sn_sodium ref_sec) (e' @ sn_ser_arm ref_sec a') \<longleftrightarrow>
      e = e' \<and> a = a'" if mem: "e \<in> ref_sec_ids" "e' \<in> ref_sec_ids" for e e' a a'
  proof -
    obtain i where i: "i < 4" "e = sec_id_of ref_sec ref_hash_key i" using mem(1) by (auto simp: ref_sec_ids_def)
    obtain j where j: "j < 4" "e' = sec_id_of ref_sec ref_hash_key j" using mem(2) by (auto simp: ref_sec_ids_def)
    have "ref_ser_arm a @ replicate 24 0 @ of_nat i # replicate 6 0 = ref_ser_arm a' @ replicate 24 0 @ of_nat j # replicate 6 0 \<longleftrightarrow>
        i = j \<and> a = a'" using i j by (cases a; cases a') (auto simp: ref_ser_arm_def ref_idx_inj)
    moreover have "e = e' \<longleftrightarrow> i = j" using i j ref_sid [of i] ref_sid [of j] ref_idx_inj by simp
    moreover have "sn_sodium ref_sec = plain_sodium" "sn_ser_arm ref_sec = ref_ser_arm" by (simp_all add: ref_sec_def)
    ultimately show ?thesis using i(2) j(2) ref_arm_hash [OF i(1), of a] ref_arm_hash [OF j(1), of a'] by simp
  qed
  show "i = j" if "i < 4" "j < 4" "sec_id_of ref_sec ref_hash_key i = sec_id_of ref_sec ref_hash_key j" for i j
    using that by (simp add: ref_sid ref_idx_inj)
qed (auto simp: ref_sec_def ref_sec_ids_def BLK_DELETE_MARK_def)

text \<open>A fresh manager on an empty directory.\<close>

definition ref_os :: os where
  "ref_os = \<lparr>os_names = [], os_data = (\<lambda>_. []), os_next = 0, os_dirs = [[]], os_faults = [], os_draws = 0\<rparr>"

definition ref_mgr :: sector_mgr where
  "ref_mgr = sec_set_crypto_ctx crypto_default [] ref_hash_key (sector_mgr_new [''data''] ref_os)"

lemma ref_mgr_ok: "sectors_ok ref_sec 4 0 ref_mgr" "sx_hash_key ref_mgr = ref_hash_key" "sec_blks ref_sec 0 ref_mgr = Map.empty"
proof -
  have f: "os_file (sx_os ref_mgr) = Map.empty" "os_ino (sx_os ref_mgr) = Map.empty"
    by (simp_all add: ref_mgr_def sec_set_crypto_ctx_def sector_mgr_new_def ref_os_def os_file_def os_ino_def fun_eq_iff)
  have st: "stored_sec ref_sec ref_mgr = (\<lambda>_. None)" "\<And>i. sec_sound ref_sec ref_mgr i"
    by (simp_all add: stored_sec_def [abs_def] file_item_def file_arm_def arms_sound_def f)
  have v: "sec_view ref_sec ref_mgr i = None" for i by (simp add: sec_view_def st)
  have fl: "flat [''data''] (sx_os ref_mgr)"
    using f by (auto simp: flat_def os_ok_def is_os_dir_def ref_mgr_def sec_set_crypto_ctx_def sector_mgr_new_def ref_os_def)
  have "mgr_inv ref_sec 4 Map.empty ref_mgr"
    using st f fl by (simp add: mgr_inv_def) (simp add: ref_mgr_def sec_set_crypto_ctx_def sector_mgr_new_def lru_new_def
      lru_ok_def total_def file_armor_new_def fa_set_crypto_ctx_def SECTOR_CACHE_SIZE_def SECTOR_DATA_CACHE_SIZE_def)
  then show "sectors_ok ref_sec 4 0 ref_mgr"
    using v f by (simp add: sectors_ok_def) (simp add: ref_mgr_def sec_set_crypto_ctx_def sector_mgr_new_def)
qed (simp_all add: ref_mgr_def sec_set_crypto_ctx_def sec_blks_def)

subsection \<open>Witnesses\<close>

theorem sectors_implement_block_map_witness:
  "\<exists>m'. write_blocks ref_sec \<lparr>sp_begin = 0, sp_cnt = 6\<rparr> (replicate (6 * BLK_SIZE) 7) ref_mgr = (Ok (), m') \<and>
     sectors_ok ref_sec 4 6 m' \<and>
     sec_blks ref_sec 6 m' = put_blk_map Map.empty [0 ..< 6] (replicate (6 * BLK_SIZE) 7)"
  using sectors_implement_block_map [OF ref_sectors.sector_laws_axioms ref_mgr_ok(1,2), of "\<lparr>sp_begin = 0, sp_cnt = 6\<rparr>"
      "replicate (6 * BLK_SIZE) 7"] ref_mgr_ok(3)
  by (auto simp: span_end_def span_blocks_def bytes_len_def ref_sec_def)

text \<open>A manager whose first sector is finished.\<close>

lemma ref_finished:
  obtains m' sec d where "sectors_ok ref_sec 4 4 m'" "sx_hash_key m' = ref_hash_key" "sec_view ref_sec m' 0 = Some (sec, d)" "is_finished sec"
proof -
  have n: "sn_blks ref_sec = 4" by (simp add: ref_sec_def)
  let ?sp = "\<lparr>sp_begin = 0, sp_cnt = 4\<rparr>"
  obtain m' where m': "sectors_ok ref_sec 4 4 m'" "sx_hash_key m' = ref_hash_key"
    "sec_blks ref_sec 4 m' = put_blk_map Map.empty [0 ..< 4] (replicate (4 * BLK_SIZE) 7)"
    using ref_sectors.write_blocks_ok [OF conjI [OF ref_mgr_ok(1,2)], of ?sp "replicate (4 * BLK_SIZE) 7"] ref_mgr_ok(3) n
    by (auto simp: span_end_def span_blocks_def bytes_len_def)
  have "sec_blk ref_sec m' 0 \<noteq> None"
    using fun_cong [OF m'(3), of 0] put_blk_map_upt [of Map.empty 0 4 "replicate (4 * BLK_SIZE) 7" 0] by (simp add: sec_blks_def)
  then obtain sec d where v: "sec_view ref_sec m' 0 = Some (sec, d)" by (auto simp: sec_blk_def split: option.splits)
  have "sector_at 4 4 0 sec d" using ref_sectors.ok_view(3) [OF conjI [OF m'(1,2)] _ v] n by simp
  then have "is_finished sec" by (auto simp: sector_at_def split: if_splits)
  with m' v show ?thesis by (intro that)
qed

theorem write_into_finished_sector_panics_witness:
  "\<exists>m m'. sectors_ok ref_sec 4 4 m \<and> write_blocks ref_sec \<lparr>sp_begin = 2, sp_cnt = 1\<rparr> (replicate BLK_SIZE 9) m = (Panic, m')"
proof -
  have n: "sn_blks ref_sec = 4" by (simp add: ref_sec_def)
  obtain m sec d where m: "sectors_ok ref_sec 4 4 m" "sx_hash_key m = ref_hash_key" "sec_view ref_sec m 0 = Some (sec, d)" "is_finished sec"
    by (rule ref_finished)
  let ?sp = "\<lparr>sp_begin = 2, sp_cnt = 1\<rparr>"
  have "within (sn_blks ref_sec) ?sp" "sp_begin ?sp div sn_blks ref_sec < 4" "length (replicate BLK_SIZE 9) = bytes_len ?sp"
    "sec_view ref_sec m (sp_begin ?sp div sn_blks ref_sec) = Some (sec, d)"
    using m(3) n by (simp_all add: within_def bytes_len_def)
  from write_into_finished_sector_panics [OF ref_sectors.sector_laws_axioms m(1,2) this m(4)] m(1) show ?thesis by blast
qed

end
