(* ===== verification/Reference_File.thy ===== *)
theory Reference_File
  imports File_Storage Reference_Sector
begin

text \<open>The properties of the file back end on a fresh directory.\<close>

definition ref_items :: "('i \<Rightarrow> eid) \<Rightarrow> 'i item_ops" where
  "ref_items e = \<lparr>it_id = e, it_seq = (\<lambda>_. 0), it_inc_seq = (\<lambda>i. i), it_arm = (\<lambda>_. Left), it_set_arm = (\<lambda>a i. i),
     it_ser = (\<lambda>_. Err InUse), it_deser = (\<lambda>_. Err InUse)\<rparr>"

definition ref_file :: file_env where
  "ref_file = \<lparr>fe_sec = ref_sec, fe_lsmt = ref_items ls_id, fe_memtab = ref_items mm_id, fe_tab = ref_items tb_id,
     fe_eid = (\<lambda>n. replicate n 0), fe_cache = list_lhm, fe_map = list_lhm\<rparr>"

definition ref_storage :: file_storage where
  "ref_storage = (file_storage_new [] 0 ref_os)\<lparr>fs_sec := ref_mgr\<rparr>"

lemma ref_storage_ok: "file_ok ref_file 4 0 ref_storage"
proof -
  have m: "(fs_sec ref_storage)\<lparr>sx_os := fs_os ref_storage\<rparr> = ref_mgr"
    by (simp add: ref_storage_def file_storage_new_def Let_def ref_mgr_def sec_set_crypto_ctx_def sector_mgr_new_def)
  have "flat [WAL_DIR] ref_os"
    by (auto simp: flat_def os_ok_def is_os_dir_def os_file_def os_ino_def ref_os_def)
  then show ?thesis
    unfolding file_ok_def m using ref_mgr_ok(1)
    by (simp add: ref_file_def) (simp add: ref_storage_def file_storage_new_def Let_def ref_mgr_def sec_set_crypto_ctx_def
      sector_mgr_new_def DATA_DIR_def)
qed

theorem file_wal_is_map_witness:
  "\<exists>s'. file_put_wal (replicate EID_SIZE 3) [1, 2] ref_storage = (Ok (), s') \<and> file_get_wal (replicate EID_SIZE 3) s' = (Ok [1, 2], s')"
  using file_wal_is_map [OF ref_storage_ok, of "replicate EID_SIZE 3" "[1, 2]"] by auto

theorem lock_excludes_witness:
  "\<exists>s'. file_lock_repo False ref_storage = (Ok (), s') \<and>
     file_lock_repo False (ref_storage\<lparr>fs_os := fs_os s'\<rparr>) = (Err RepoOpened, ref_storage\<lparr>fs_os := fs_os s'\<rparr>)"
proof -
  have "os_ok (fs_os ref_storage)" by (rule flat_ok [OF file_flat [OF ref_storage_ok]])
  moreover have "is_os_dir (fs_os ref_storage) (fs_base ref_storage)" "\<not> is_os_dir (fs_os ref_storage) (lock_path ref_storage)"
    "os_file (fs_os ref_storage) (lock_path ref_storage) = None" "\<not> fs_attached ref_storage"
    by (simp_all add: ref_storage_def file_storage_new_def Let_def ref_os_def is_os_dir_def lock_path_def os_file_def os_ino_def)
  ultimately show ?thesis
    using lock_excludes [of ref_storage ref_storage] by (auto simp: Let_def)
qed

end
