(* ===== verification/Spec2Isabelle.thy ===== *)
theory Spec2Isabelle
  imports Lru Ids Reference_Cow Recycle Reference_Entity Content_Append Content_Change Vol_Fs Reference_Fs File Reference_Volume Reference_Index Reference_Repo Reference_File
begin

text \<open>
  \<^bold>\<open>A verification library for ZboxFS\<close>, the encrypted, versioned, transactional file system of
  \<^verbatim>\<open>src/src\<close>.

  \<^bold>\<open>The program.\<close> A repository is a tree of file nodes. Every node, every content and every
  segment of content data is a \<^emph>\<open>cow\<close>: a copy-on-write cell with two slots, changed only inside a
  transaction (\<^verbatim>\<open>trans/\<close>). A transaction manager registers the cows a transaction touches, writes
  a write ahead log of their ids, commits them one by one and recycles old logs; the cows and the log
  are saved by a two-arm \<^emph>\<open>armor\<close> (\<^verbatim>\<open>volume/armor.rs\<close>), which writes the new version beside the
  old one. The armor writes entities to the volume, whose storage layer
  (\<^verbatim>\<open>volume/storage/storage.rs\<close>) encrypts them, divides them into frames of blocks, keeps an address
  table and caches, and calls a back end. File contents (\<^verbatim>\<open>content/\<close>) are cut into chunks by a
  rolling hash, the chunks are packed into segments and deduplicated by hash; a content is a list of
  entries that refer to spans of chunks, with a merkle tree over its pieces.

  \<^bold>\<open>Conventions.\<close> Results are \<open>Ok\<close>, \<open>Err\<close> with an error of \<^verbatim>\<open>error.rs\<close> or of \<open>std::io\<close>, or
  \<open>Panic\<close> (\<open>Zbox_Prelude\<close>, \<open>Zbox_Error\<close>); \<open>unwrap\<close>, \<open>assert!\<close>, indexing and the subtraction
  of unsigned numbers in a debug build panic. Stateful code is a function from a state to a result
  and a new state (\<open>Zbox_Effect\<close>); an error keeps the changes made before it, as in Rust. Locks are
  the explicit state; reference counted cells are addresses into a heap (a function from natural
  numbers); the transaction of the calling thread, a thread local variable in the code, is an argument
  called \<open>tls\<close>. Sizes are natural numbers and words where wrap-around or overflow matters (reference
  counts, transaction ids, block arithmetic). Code that is not part of the repository is a parameter
  with its documented laws as hypotheses: libsodium (\<open>crypto_laws\<close>), the serializer, the linked
  hash map (\<open>linked_hash_map\<close>), the random source.

  \<^bold>\<open>Base.\<close> \<open>Base_Utils\<close> models \<^verbatim>\<open>base/utils.rs\<close>, \<^verbatim>\<open>refcnt.rs\<close> and \<^verbatim>\<open>version.rs\<close>;
  \<open>Linked_Hash_Map\<close> and \<open>Lru\<close> the cache of \<^verbatim>\<open>base/lru.rs\<close> (its meter is exact, a cache metered by
  count respects its capacity, one metered by size does not); \<open>Crypto\<close> the code of
  \<^verbatim>\<open>base/crypto.rs\<close> around libsodium (round trip, panics on short texts, the codec of the costs);
  \<open>Ids\<close> the entity and transaction ids.

  \<^bold>\<open>Volume.\<close> \<open>Address\<close> models addresses and the allocator (frames partition an address, allocated
  blocks are fresh). \<open>Storable\<close> is the trait of a back end as a record of operations and a locale of
  laws, \<open>Mem_Storage\<close> the memory back end, for which the laws are proved. \<open>Armor\<close> is the two-arm
  protocol over any store of slots: a failed save leaves the last saved version readable; a torn arm
  makes it unreadable. \<open>Storage\<close> models the storage layer, \<open>Volume_Armor\<close> the two armors of the
  volume on it. \<open>Entity_Io\<close> and \<open>Entity_Write\<close> prove the layer end to end: for an invariant that
  says which entity has which bytes, writing an entity through encryption, framing, allocation and the
  address table and reading it back returns the bytes, and no other entity changes. The entities of
  this theorem are limited to \<open>MAX_BLKS\<close> blocks in total, \<open>2 ^ 30\<close>, so that no number of an address
  overflows its machine word. \<open>Reference_Env\<close> and \<open>Reference_Entity\<close> are a concrete environment on
  which the hypotheses hold.

  \<^bold>\<open>Transactions.\<close> \<open>Cow\<close> models \<^verbatim>\<open>trans/cow.rs\<close> (isolation of changes, atomic commit, the cache),
  \<open>Wal\<close> the log and its queue (an error restores the queue, at most two committed transactions are
  kept, an abort is redone), \<open>Tx_Mgr\<close> transactions and their manager: over every interleaving of
  calls an entity belongs to at most one transaction, and a commit or abort ends the transaction.
  \<open>Recycle\<close>, \<open>Reference_Cow\<close> and \<open>Reference_Tx\<close> hold the garbage collection of the log and the
  concrete instances.

  \<^bold>\<open>Content.\<close> \<open>Chunk\<close> models chunks and the chunk map (it refines a plain map), \<open>Segment\<close>
  segments and their data (the bytes in use are counted exactly; shrinking keeps every live chunk),
  \<open>Content_Span\<close> and \<open>Entry_List\<close> spans and entry lists over an interface of the segment store: a
  write over part of a content replaces exactly these bytes. \<open>Content_Append\<close> adds chunks to a
  segment that is being written. \<open>Merkle\<close>, \<open>Merkle_Tree\<close> and \<open>Merkle_Update\<close> model the merkle
  tree and prove that building, merging and truncating give the reference tree of the new content.
  \<open>Chunker\<close> models the streaming chunker: it emits the chunks of a reference definition, however the
  stream was divided into writes. \<open>Content_Store\<close> and \<open>Content\<close> model the store with its caches,
  contents, their reader and their writer; \<open>Store_View\<close> proves the reader, the merging of a staged
  content and truncation correct for every volume that keeps the laws of \<open>store_laws\<close>, \<open>Vol_Store\<close>
  proves these laws for the volume of the code, and \<open>Content_Change\<close> puts both together.

  \<^bold>\<open>Termination.\<close> Every definition is total: loops are functions with a measure; no definition takes
  fuel.

  \<^bold>\<open>Not modelled.\<close> The back ends on files, sqlite, redis and the cloud service (calls of the operating
  system and of other libraries), the bindings of lz4, the fault injecting test back end, the bindings
  for other languages, logging, and the debug formats.
\<close>

end
